(* ===== verification/Prelude.thy ===== *)
theory Prelude
  imports Main "HOL-Library.Word"
begin

text \<open>
  Shared vocabulary of the development: bytes and machine words, the outcome of code that may
  leave the language's defined behaviour or end the process, the status codes that the
  operations return, the contract of the serialisers, and the generic lemmas that the
  component theories use.

  A \<open>Slice\<close> or a \<open>std::string\<close> of the source is a list of bytes; a pointer together with its
  limit is the list of the bytes from the pointer to the limit; \<open>uint32_t\<close> and \<open>uint64_t\<close> are
  words of that width, with the wrap-around of the hardware; a \<open>size_t\<close> is a natural number
  where it is the length of a list.
\<close>

unbundle bit_operations_syntax

section \<open>Bytes and words\<close>

type_synonym byte = "8 word"
type_synonym bytes = "8 word list"
type_synonym u16 = "16 word"
type_synonym u32 = "32 word"
type_synonym u64 = "64 word"

section \<open>Results\<close>

text \<open>
  What running a piece of C++ can give: a value, the end of the process through \<open>exit(-1)\<close>
  (the way the security code reacts to a failed check), or undefined behaviour (a read or a
  write outside a buffer or a vector).
\<close>

datatype 'a outcome = Ok 'a | Exit | Undef

definition obind :: "'a outcome \<Rightarrow> ('a \<Rightarrow> 'b outcome) \<Rightarrow> 'b outcome" where
  "obind x f = (case x of Ok a \<Rightarrow> f a | Exit \<Rightarrow> Exit | Undef \<Rightarrow> Undef)"

lemma obind_simps [simp]:
  "obind (Ok a) f = f a" "obind Exit f = Exit" "obind Undef f = Undef"
  by (simp_all add: obind_def)

lemma obind_cong [fundef_cong]:
  "x = y \<Longrightarrow> (\<And>a. y = Ok a \<Longrightarrow> f a = g a) \<Longrightarrow> obind x f = obind y g"
  by (cases y) auto

lemma obind_eq_Ok: "obind x f = Ok b \<longleftrightarrow> (\<exists>a. x = Ok a \<and> f a = Ok b)"
  by (cases x) auto

definition of_opt :: "'a option \<Rightarrow> 'a outcome" where
  "of_opt x = (case x of None \<Rightarrow> Undef | Some a \<Rightarrow> Ok a)"

lemma of_opt_simps [simp]: "of_opt None = Undef" "of_opt (Some a) = Ok a"
  by (simp_all add: of_opt_def)

text \<open>
  The \<open>Get...\<close> routines of the source take a slice by reference, return whether they
  succeeded and advance the slice: a parser returns the value, if any, and what is left.
\<close>

type_synonym 'a parser = "bytes \<Rightarrow> 'a option \<times> bytes"

text \<open>
  The code of a \<open>Status\<close>; the message is left out. \<open>PathNotFound\<close> is an I/O error with that subcode.
\<close>

datatype status = StatusOK | NotFound | Corruption | NotSupported | InvalidArgument | IOError
  | MergeInProgress | Incomplete | ShutdownInProgress | TimedOut | Aborted | Busy | Expired
  | TryAgain | CompactionTooLarge | ColumnFamilyDropped | PathNotFound

text \<open>
  Code that may also run forever: \<open>None\<close> is a run that never returns.
\<close>

type_synonym 'a run = "'a outcome option"

definition rbind :: "'a run \<Rightarrow> ('a \<Rightarrow> 'b run) \<Rightarrow> 'b run" where
  "rbind x f =
     (case x of None \<Rightarrow> None | Some Undef \<Rightarrow> Some Undef | Some Exit \<Rightarrow> Some Exit | Some (Ok a) \<Rightarrow> f a)"

lemma rbind_simps [simp]:
  "rbind (Some (Ok a)) f = f a" "rbind None f = None" "rbind (Some Exit) f = Some Exit"
  "rbind (Some Undef) f = Some Undef"
  by (simp_all add: rbind_def)

text \<open>
  A decoder that reads field after field into an object and gives up at the first field it cannot
  read: \<open>field get upd k\<close> reads one field and goes on with \<open>k\<close>.
\<close>

type_synonym 'a decoder = "'a \<Rightarrow> bytes \<Rightarrow> status \<times> 'a \<times> bytes"

definition field :: "'b parser \<Rightarrow> ('b \<Rightarrow> 'a \<Rightarrow> 'a) \<Rightarrow> 'a decoder \<Rightarrow> 'a decoder" where
  "field get upd k obj input =
     (case get input of (None, rest) \<Rightarrow> (Corruption, obj, rest) | (Some v, rest) \<Rightarrow> k (upd v obj) rest)"

text \<open>Parsers and decoders never give back more than they got.\<close>

definition shrinking :: "'a parser \<Rightarrow> bool" where
  "shrinking get \<longleftrightarrow> (\<forall>input. length (snd (get input)) \<le> length input)"

definition shrinking_decoder :: "'a decoder \<Rightarrow> bool" where
  "shrinking_decoder d \<longleftrightarrow> (\<forall>obj input. length (snd (snd (d obj input))) \<le> length input)"

lemma shrinking_field [intro!]:
  assumes "shrinking get" and "shrinking_decoder k"
  shows "shrinking_decoder (field get upd k)"
  unfolding shrinking_decoder_def
proof (intro allI)
  fix obj input
  obtain v r where g: "get input = (v, r)" by (cases "get input")
  then have "length r \<le> length input" using assms(1) unfolding shrinking_def by (metis snd_conv)
  moreover have "length (snd (snd (k o' r))) \<le> length r" for o'
    using assms(2) by (simp add: shrinking_decoder_def)
  ultimately show "length (snd (snd (field get upd k obj input))) \<le> length input"
    using g by (auto simp: field_def split: option.splits intro: le_trans)
qed

section \<open>The contract of a serialiser\<close>

text \<open>
  The interface between the low-level encodings and every record format built on them: what
  \<open>put\<close> appends, \<open>get\<close> reads back, leaving the bytes behind it untouched. Clients compose
  records from fields that satisfy it.
\<close>

locale codec =
  fixes put :: "'a \<Rightarrow> bytes"
    and get :: "'a parser"
    and valid :: "'a \<Rightarrow> bool"
  assumes get_put: "valid x \<Longrightarrow> get (put x @ r) = (Some x, r)"
begin

lemma get_put_nil: "valid x \<Longrightarrow> get (put x) = (Some x, [])"
  using get_put [of x "[]"] by simp

lemma field_put: "valid x \<Longrightarrow> field get upd k obj (put x @ r) = k (upd x obj) r"
  by (simp add: field_def get_put)

lemma put_inj: "valid x \<Longrightarrow> valid y \<Longrightarrow> put x @ r = put y @ s \<Longrightarrow> x = y \<and> r = s"
  by (metis get_put option.inject prod.inject)

lemma put_prefix_free: "valid x \<Longrightarrow> valid y \<Longrightarrow> put x = put y @ s \<Longrightarrow> x = y \<and> s = []"
  using put_inj [of x y "[]" s] by simp

end

section \<open>Generic lemmas\<close>

lemma take_append_exact [simp]: "n = length xs \<Longrightarrow> take n (xs @ ys) = xs"
  by simp

lemma drop_append_exact [simp]: "n = length xs \<Longrightarrow> drop n (xs @ ys) = ys"
  by simp

lemma unat_drop_bit_div: "unat (drop_bit n v) = unat v div 2 ^ n"
  unfolding unat_drop_bit_eq by (rule drop_bit_eq_div)

lemma unat_ucast_up:
  fixes v :: "'a::len word"
  assumes "LENGTH('a) \<le> LENGTH('b::len)"
  shows "unat (ucast v :: 'b word) = unat v"
proof -
  have "unat v < 2 ^ LENGTH('b)"
    using assms unsigned_less [of v, where 'a = nat]
    by (meson le_less_trans less_le_not_le not_le power_increasing_iff one_less_numeral_iff
        semiring_norm(76) less_le_trans)
  then show ?thesis by (simp add: unsigned_ucast_eq take_bit_nat_eq_self)
qed

lemma unat_less_2p: "unat (v :: 'a::len word) < 2 ^ LENGTH('a)"
  by (rule unsigned_less)

lemma drop_bit_less_word:
  fixes v :: "'a::len word"
  assumes "0 < n" and "v \<noteq> 0"
  shows "unat (drop_bit n v) < unat v"
proof -
  have "0 < unat v" using assms(2) by (simp add: unat_gt_0)
  moreover have "(1::nat) < 2 ^ n" using assms(1) one_less_power [of "2::nat" n] by linarith
  moreover have "unat (drop_bit n v) = unat v div 2 ^ n"
    by (rule unat_drop_bit_div)
  ultimately show ?thesis by simp
qed

text \<open>Words as sequences of bytes: the low bits and the bits above them make the word.\<close>

lemma ucast_and_0xff [simp]: "(ucast (v AND 0xff) :: 8 word) = ucast v"
proof (rule bit_word_eqI)
  fix n assume "n < LENGTH(8)"
  moreover have e: "(0xff :: 'a word) = mask 8" by (simp add: mask_eq_exp_minus_1)
  ultimately show "bit (ucast (v AND 0xff) :: 8 word) n = bit (ucast v :: 8 word) n"
    unfolding e by (auto simp: bit_simps dest: bit_imp_le_length)
qed

lemma ucast_byte:
  fixes v :: "'a::len word"
  assumes "8 \<le> LENGTH('a)"
  shows "(ucast (ucast v :: 8 word) :: 'a word) = take_bit 8 v"
  by (rule bit_word_eqI) (use assms in \<open>auto simp: bit_simps\<close>)

lemma take_bit_or_push_bit:
  "take_bit n v OR push_bit n (take_bit m (drop_bit n v)) = take_bit (n + m) v"
  for v :: "'a::len word"
proof (rule bit_word_eqI)
  fix i assume i: "i < LENGTH('a)"
  show "bit (take_bit n v OR push_bit n (take_bit m (drop_bit n v))) i = bit (take_bit (n + m) v) i"
    using i by (cases "i < n") (auto simp: bit_simps)
qed

lemma take_bit_or_push_bit_drop:
  "take_bit n v OR push_bit n (drop_bit n v) = v" for v :: "'a::len word"
proof (rule bit_word_eqI)
  fix i assume i: "i < LENGTH('a)"
  show "bit (take_bit n v OR push_bit n (drop_bit n v)) i = bit v i"
    using i by (cases "i < n") (auto simp: bit_simps)
qed

lemma find_append: "find P (xs @ ys) = (case find P xs of None \<Rightarrow> find P ys | Some y \<Rightarrow> Some y)"
  by (induction xs) auto

end
