(* ===== verification/Coding.thy ===== *)
theory Coding
  imports Prelude
begin

text \<open>
  The byte encodings of \<open>util/coding_lean.h\<close>, \<open>util/coding.h\<close> and \<open>util/coding.cc\<close>:
  little-endian fixed-width numbers, variable-length numbers, zigzag, and length-prefixed
  slices. Every on-disk format of the system is built from them. The lemmas show that each
  reader inverts its writer and that the unrolled 32-bit varint writer agrees with the loop.
\<close>

section \<open>Fixed-width numbers\<close>

definition EncodeFixed16 :: "u16 \<Rightarrow> bytes" where
  "EncodeFixed16 value = [ucast (value AND 0xff), ucast (drop_bit 8 value AND 0xff)]"

definition EncodeFixed32 :: "u32 \<Rightarrow> bytes" where
  "EncodeFixed32 value =
     [ucast (value AND 0xff), ucast (drop_bit 8 value AND 0xff),
      ucast (drop_bit 16 value AND 0xff), ucast (drop_bit 24 value AND 0xff)]"

definition EncodeFixed64 :: "u64 \<Rightarrow> bytes" where
  "EncodeFixed64 value =
     [ucast (value AND 0xff), ucast (drop_bit 8 value AND 0xff),
      ucast (drop_bit 16 value AND 0xff), ucast (drop_bit 24 value AND 0xff),
      ucast (drop_bit 32 value AND 0xff), ucast (drop_bit 40 value AND 0xff),
      ucast (drop_bit 48 value AND 0xff), ucast (drop_bit 56 value AND 0xff)]"

text \<open>
  The decoders read from a raw pointer without a bounds check: \<open>None\<close> is a read past the end
  of the buffer.
\<close>

fun DecodeFixed16 :: "bytes \<Rightarrow> u16 option" where
  "DecodeFixed16 (b0 # b1 # _) = Some (ucast b0 OR push_bit 8 (ucast b1))"
| "DecodeFixed16 _ = None"

fun DecodeFixed32 :: "bytes \<Rightarrow> u32 option" where
  "DecodeFixed32 (b0 # b1 # b2 # b3 # _) =
     Some (ucast b0 OR push_bit 8 (ucast b1) OR push_bit 16 (ucast b2) OR push_bit 24 (ucast b3))"
| "DecodeFixed32 _ = None"

definition DecodeFixed64 :: "bytes \<Rightarrow> u64 option" where
  "DecodeFixed64 ptr =
     (case DecodeFixed32 ptr of
        None \<Rightarrow> None
      | Some lo \<Rightarrow>
          (case DecodeFixed32 (drop 4 ptr) of
             None \<Rightarrow> None
           | Some hi \<Rightarrow> Some (push_bit 32 (ucast hi) OR ucast lo)))"

definition PutFixed16 :: "bytes \<Rightarrow> u16 \<Rightarrow> bytes" where
  "PutFixed16 dst value = dst @ EncodeFixed16 value"

definition PutFixed32 :: "bytes \<Rightarrow> u32 \<Rightarrow> bytes" where
  "PutFixed32 dst value = dst @ EncodeFixed32 value"

definition PutFixed64 :: "bytes \<Rightarrow> u64 \<Rightarrow> bytes" where
  "PutFixed64 dst value = dst @ EncodeFixed64 value"

definition GetFixed64 :: "u64 parser" where
  "GetFixed64 input =
     (if length input < 8 then (None, input) else (DecodeFixed64 input, drop 8 input))"

definition GetFixed32 :: "u32 parser" where
  "GetFixed32 input =
     (if length input < 4 then (None, input) else (DecodeFixed32 input, drop 4 input))"

definition GetFixed16 :: "u16 parser" where
  "GetFixed16 input =
     (if length input < 2 then (None, input) else (DecodeFixed16 input, drop 2 input))"

section \<open>Variable-length numbers\<close>

text \<open>Storing a word through an \<open>unsigned char\<close> pointer keeps its low eight bits.\<close>

definition EncodeVarint32 :: "u32 \<Rightarrow> bytes" where
  "EncodeVarint32 v =
     (let B = 128 in
      if v < push_bit 7 1 then [ucast v]
      else if v < push_bit 14 1 then [ucast (v OR B), ucast (drop_bit 7 v)]
      else if v < push_bit 21 1 then
        [ucast (v OR B), ucast (drop_bit 7 v OR B), ucast (drop_bit 14 v)]
      else if v < push_bit 28 1 then
        [ucast (v OR B), ucast (drop_bit 7 v OR B), ucast (drop_bit 14 v OR B),
         ucast (drop_bit 21 v)]
      else
        [ucast (v OR B), ucast (drop_bit 7 v OR B), ucast (drop_bit 14 v OR B),
         ucast (drop_bit 21 v OR B), ucast (drop_bit 28 v)])"

function EncodeVarint64 :: "u64 \<Rightarrow> bytes" where
  "EncodeVarint64 v =
     (if 128 \<le> v then ucast ((v AND (128 - 1)) OR 128) # EncodeVarint64 (drop_bit 7 v)
      else [ucast v])"
  by pat_completeness auto
termination
proof (relation "measure unat")
  fix v :: u64
  assume "128 \<le> v"
  then have "v \<noteq> 0" by auto
  then show "(drop_bit 7 v, v) \<in> measure unat" by (simp add: drop_bit_less_word)
qed simp

declare EncodeVarint64.simps [simp del]

text \<open>
  The two reading loops: \<open>shift\<close> grows by seven while bytes remain, and an unfinished number
  after the last allowed byte is an error.
\<close>

function GetVarint32PtrFallback :: "bytes \<Rightarrow> nat \<Rightarrow> u32 \<Rightarrow> (u32 \<times> bytes) option" where
  "GetVarint32PtrFallback p shift result =
     (if shift \<le> 28 then
        (case p of
           [] \<Rightarrow> None
         | byte # p' \<Rightarrow>
             (if byte AND 128 \<noteq> 0 then
                GetVarint32PtrFallback p' (shift + 7)
                  (result OR push_bit shift (ucast byte AND 127))
              else Some (result OR push_bit shift (ucast byte), p')))
      else None)"
  by pat_completeness auto
termination by (relation "measure (\<lambda>(p, _, _). length p)") auto

function GetVarint64Loop :: "bytes \<Rightarrow> nat \<Rightarrow> u64 \<Rightarrow> (u64 \<times> bytes) option" where
  "GetVarint64Loop p shift result =
     (if shift \<le> 63 then
        (case p of
           [] \<Rightarrow> None
         | byte # p' \<Rightarrow>
             (if byte AND 128 \<noteq> 0 then
                GetVarint64Loop p' (shift + 7)
                  (result OR push_bit shift (ucast byte AND 127))
              else Some (result OR push_bit shift (ucast byte), p')))
      else None)"
  by pat_completeness auto
termination by (relation "measure (\<lambda>(p, _, _). length p)") auto

declare GetVarint32PtrFallback.simps [simp del] GetVarint64Loop.simps [simp del]

definition GetVarint64Ptr :: "bytes \<Rightarrow> (u64 \<times> bytes) option" where
  "GetVarint64Ptr p = GetVarint64Loop p 0 0"

text \<open>The inlined fast path: one byte below 128 is the number itself.\<close>

definition GetVarint32Ptr :: "bytes \<Rightarrow> (u32 \<times> bytes) option" where
  "GetVarint32Ptr p =
     (case p of
        [] \<Rightarrow> GetVarint32PtrFallback p 0 0
      | byte # p' \<Rightarrow>
          (let result = ucast byte :: u32 in
           if result AND 128 = 0 then Some (result, p')
           else GetVarint32PtrFallback p 0 0))"

definition GetVarint32 :: "u32 parser" where
  "GetVarint32 input =
     (case GetVarint32Ptr input of None \<Rightarrow> (None, input) | Some (v, q) \<Rightarrow> (Some v, q))"

definition GetVarint64 :: "u64 parser" where
  "GetVarint64 input =
     (case GetVarint64Ptr input of None \<Rightarrow> (None, input) | Some (v, q) \<Rightarrow> (Some v, q))"

definition PutVarint32 :: "bytes \<Rightarrow> u32 \<Rightarrow> bytes" where
  "PutVarint32 dst v = dst @ EncodeVarint32 v"

definition PutVarint32Varint32 :: "bytes \<Rightarrow> u32 \<Rightarrow> u32 \<Rightarrow> bytes" where
  "PutVarint32Varint32 dst v1 v2 = dst @ (EncodeVarint32 v1 @ EncodeVarint32 v2)"

definition PutVarint32Varint32Varint32 :: "bytes \<Rightarrow> u32 \<Rightarrow> u32 \<Rightarrow> u32 \<Rightarrow> bytes" where
  "PutVarint32Varint32Varint32 dst v1 v2 v3 =
     dst @ (EncodeVarint32 v1 @ EncodeVarint32 v2 @ EncodeVarint32 v3)"

definition PutVarint64 :: "bytes \<Rightarrow> u64 \<Rightarrow> bytes" where
  "PutVarint64 dst v = dst @ EncodeVarint64 v"

definition PutVarint64Varint64 :: "bytes \<Rightarrow> u64 \<Rightarrow> u64 \<Rightarrow> bytes" where
  "PutVarint64Varint64 dst v1 v2 = dst @ (EncodeVarint64 v1 @ EncodeVarint64 v2)"

definition PutVarint32Varint64 :: "bytes \<Rightarrow> u32 \<Rightarrow> u64 \<Rightarrow> bytes" where
  "PutVarint32Varint64 dst v1 v2 = dst @ (EncodeVarint32 v1 @ EncodeVarint64 v2)"

definition PutVarint32Varint32Varint64 :: "bytes \<Rightarrow> u32 \<Rightarrow> u32 \<Rightarrow> u64 \<Rightarrow> bytes" where
  "PutVarint32Varint32Varint64 dst v1 v2 v3 =
     dst @ (EncodeVarint32 v1 @ EncodeVarint32 v2 @ EncodeVarint64 v3)"

function VarintLength :: "u64 \<Rightarrow> nat" where
  "VarintLength v = (if 128 \<le> v then Suc (VarintLength (drop_bit 7 v)) else 1)"
  by pat_completeness auto
termination
proof (relation "measure unat")
  fix v :: u64
  assume "128 \<le> v"
  then have "v \<noteq> 0" by auto
  then show "(drop_bit 7 v, v) \<in> measure unat" by (simp add: drop_bit_less_word)
qed simp

declare VarintLength.simps [simp del]

section \<open>Signed numbers\<close>

text \<open>An \<open>int64_t\<close> is the word of its two's complement; its right shift is arithmetic.\<close>

definition i64ToZigzag :: "u64 \<Rightarrow> u64" where
  "i64ToZigzag l = push_bit 1 l XOR signed_drop_bit 63 l"

definition zigzagToI64 :: "u64 \<Rightarrow> u64" where
  "zigzagToI64 n = drop_bit 1 n XOR - (n AND 1)"

definition PutVarsignedint64 :: "bytes \<Rightarrow> u64 \<Rightarrow> bytes" where
  "PutVarsignedint64 dst v = dst @ EncodeVarint64 (i64ToZigzag v)"

definition GetVarsignedint64 :: "u64 parser" where
  "GetVarsignedint64 input =
     (case GetVarint64Ptr input of
        None \<Rightarrow> (None, input) | Some (u, q) \<Rightarrow> (Some (zigzagToI64 u), q))"

section \<open>Slices\<close>

definition PutLengthPrefixedSlice :: "bytes \<Rightarrow> bytes \<Rightarrow> bytes" where
  "PutLengthPrefixedSlice dst value = PutVarint32 dst (word_of_nat (length value)) @ value"

definition PutLengthPrefixedSliceParts :: "bytes \<Rightarrow> nat \<Rightarrow> bytes list \<Rightarrow> bytes" where
  "PutLengthPrefixedSliceParts dst total_bytes parts =
     PutVarint32 dst (word_of_nat (total_bytes + sum_list (map length parts))) @ concat parts"

definition PutLengthPrefixedSlicePartsWithPadding :: "bytes \<Rightarrow> bytes list \<Rightarrow> nat \<Rightarrow> bytes" where
  "PutLengthPrefixedSlicePartsWithPadding dst parts pad_sz =
     PutLengthPrefixedSliceParts dst pad_sz parts @ replicate pad_sz 0"

definition GetLengthPrefixedSlice :: "bytes parser" where
  "GetLengthPrefixedSlice input =
     (case GetVarint32 input of
        (None, input') \<Rightarrow> (None, input')
      | (Some len, input') \<Rightarrow>
          (if unat len \<le> length input' then (Some (take (unat len) input'), drop (unat len) input')
           else (None, input')))"

definition GetSliceUntil :: "bytes \<Rightarrow> byte \<Rightarrow> bytes \<times> bytes" where
  "GetSliceUntil sl delimiter =
     (let ret = takeWhile (\<lambda>c. c \<noteq> delimiter) sl; len = length ret
      in (ret, drop (len + (if len < length sl then 1 else 0)) sl))"

section \<open>Lemmas\<close>

lemma length_EncodeFixed [simp]:
  "length (EncodeFixed16 a) = 2" "length (EncodeFixed32 b) = 4" "length (EncodeFixed64 c) = 8"
  by (simp_all add: EncodeFixed16_def EncodeFixed32_def EncodeFixed64_def)

lemma DecodeFixed16_Encode [simp]: "DecodeFixed16 (EncodeFixed16 v @ r) = Some v"
proof -
  have "take_bit 8 v OR push_bit 8 (take_bit 8 (drop_bit 8 v)) = v"
    by (simp add: take_bit_or_push_bit take_bit_word_eq_self)
  then show ?thesis by (simp add: EncodeFixed16_def ucast_byte)
qed

lemma DecodeFixed32_Encode [simp]: "DecodeFixed32 (EncodeFixed32 v @ r) = Some v"
proof -
  have "take_bit 8 v OR push_bit 8 (take_bit 8 (drop_bit 8 v)) OR
      push_bit 16 (take_bit 8 (drop_bit 16 v)) OR push_bit 24 (take_bit 8 (drop_bit 24 v)) = v"
    by (simp add: take_bit_or_push_bit take_bit_word_eq_self flip: or.assoc)
  then show ?thesis by (simp add: EncodeFixed32_def ucast_byte)
qed

lemma EncodeFixed64_halves:
  "EncodeFixed64 v = EncodeFixed32 (ucast v) @ EncodeFixed32 (ucast (drop_bit 32 v))"
proof -
  have h: "(ucast (drop_bit k (ucast w :: u32)) :: byte) = ucast (drop_bit k w)"
    if "k + 8 \<le> 32" for k and w :: u64
    using that by (intro bit_word_eqI) (auto simp: bit_simps)
  show ?thesis using h [of 0 v] h [of 0 "drop_bit 32 v"]
    by (simp add: EncodeFixed64_def EncodeFixed32_def h drop_bit_drop_bit)
qed

lemma DecodeFixed64_Encode [simp]: "DecodeFixed64 (EncodeFixed64 v @ r) = Some v"
proof -
  have "(ucast (ucast v :: u32) :: u64) = take_bit 32 v"
    by (rule bit_word_eqI) (auto simp: bit_simps)
  moreover have "(ucast (ucast (drop_bit 32 v) :: u32) :: u64) = drop_bit 32 v"
    by (rule bit_word_eqI) (auto simp: bit_simps dest: bit_imp_le_length)
  moreover have "push_bit 32 (drop_bit 32 v) OR take_bit 32 v = v"
    using take_bit_or_push_bit_drop [of 32 v] by (simp add: or.commute)
  ultimately show ?thesis by (simp add: DecodeFixed64_def EncodeFixed64_halves)
qed

interpretation fixed16: codec EncodeFixed16 GetFixed16 "\<lambda>_. True"
  by unfold_locales (simp add: GetFixed16_def)

interpretation fixed32: codec EncodeFixed32 GetFixed32 "\<lambda>_. True"
  by unfold_locales (simp add: GetFixed32_def)

interpretation fixed64: codec EncodeFixed64 GetFixed64 "\<lambda>_. True"
  by unfold_locales (simp add: GetFixed64_def)

lemma bit_127: "bit (127 :: 'a::len word) n \<longleftrightarrow> n < 7 \<and> n < LENGTH('a)"
proof -
  have "(127 :: 'a word) = mask 7" by (simp add: mask_eq_exp_minus_1)
  then show ?thesis by (simp only: bit_mask_iff) auto
qed

lemma bit_128: "bit (128 :: 'a::len word) n \<longleftrightarrow> n = 7 \<and> 7 < LENGTH('a)"
proof -
  have "(128 :: 'a word) = 2 ^ 7" by simp
  then show ?thesis by (simp only: bit_exp_iff) auto
qed

lemma bit_int_127: "bit (127 :: int) n \<longleftrightarrow> n < 7"
proof -
  have "(127 :: int) = mask 7" by (simp add: mask_eq_exp_minus_1)
  then show ?thesis by (simp only: bit_mask_iff) auto
qed

lemma bit_int_128: "bit (128 :: int) n \<longleftrightarrow> n = 7"
proof -
  have "(128 :: int) = 2 ^ 7" by simp
  then show ?thesis by (simp only: bit_exp_iff) auto
qed

lemmas bit_7 = bit_127 bit_128 bit_int_127 bit_int_128

lemma low_byte_bits:
  fixes v :: "'a::len word"
  assumes "8 \<le> LENGTH('a)"
  shows "(ucast (v OR 128) AND 128 :: byte) = 128"
    and "ucast (ucast (v OR 128) :: byte) AND 127 = take_bit 7 v"
    and "ucast ((v AND 127) OR 128) = (ucast (v OR 128) :: byte)"
proof -
  show "(ucast (v OR 128) AND 128 :: byte) = 128"
    by (rule bit_word_eqI) (use assms in \<open>auto simp: bit_simps bit_7\<close>)
  show "ucast (ucast (v OR 128) :: byte) AND 127 = take_bit 7 v"
    by (rule bit_word_eqI) (use assms in \<open>auto simp: bit_simps bit_7\<close>)
  show "ucast ((v AND 127) OR 128) = (ucast (v OR 128) :: byte)"
    by (rule bit_word_eqI) (use assms in \<open>auto simp: bit_simps bit_7\<close>)
qed

lemma below_128:
  fixes v :: "'a::len word"
  assumes "8 \<le> LENGTH('a)" and "v < 128"
  shows "(ucast v AND 128 :: byte) = 0" and "ucast (ucast v :: byte) = v" and "v AND 128 = 0"
proof -
  have "(128 :: 'a word) = 2 ^ 7" by simp
  then have "v < 2 ^ 7" using assms(2) by simp
  then have b: "bit v n \<Longrightarrow> n < 7" for n
    using bit_take_bit_iff [of 7 v n] less_mask_eq [of v 7] take_bit_eq_mask [of 7 v] by simp
  show "(ucast v AND 128 :: byte) = 0"
    by (rule bit_word_eqI) (use assms b in \<open>auto simp: bit_simps bit_7\<close>)
  show "ucast (ucast v :: byte) = v"
    by (rule bit_word_eqI) (use assms b in \<open>force simp: bit_simps\<close>)
  show "v AND 128 = 0"
    by (rule bit_word_eqI) (use assms b in \<open>auto simp: bit_simps bit_7\<close>)
qed

lemma GetVarint64Loop_Encode:
  "shift \<le> 63 \<Longrightarrow> unat v < 2 ^ (64 - shift) \<Longrightarrow>
   GetVarint64Loop (EncodeVarint64 v @ r) shift acc = Some (acc OR push_bit shift v, r)"
proof (induction v arbitrary: shift acc rule: EncodeVarint64.induct)
  case (1 v)
  show ?case
  proof (cases "128 \<le> v")
    case False
    then have lt: "v < 128" and "EncodeVarint64 v = [ucast v]"
      by (simp_all add: EncodeVarint64.simps [of v])
    then show ?thesis using "1.prems"
      by (simp add: GetVarint64Loop.simps [of "_ # _"] below_128)
  next
    case True
    have "(2::nat) ^ 7 < 2 ^ (64 - shift)" using True "1.prems"
      by (simp add: word_le_nat_alt)
    then have "7 < 64 - shift" using power_strict_increasing_iff [of "2::nat" 7 "64 - shift"] by simp
    then have s: "shift + 7 \<le> 63" by simp
    have "unat (drop_bit 7 v) < 2 ^ (64 - (shift + 7))"
    proof -
      have "(2::nat) ^ (64 - shift) = 2 ^ 7 * 2 ^ (64 - (shift + 7))"
        using s by (simp only: power_add [symmetric]) simp
      then have "unat v < 2 ^ 7 * 2 ^ (64 - (shift + 7))"
        using "1.prems" by metis
      then show ?thesis by (simp add: unat_drop_bit_div less_mult_imp_div_less mult.commute)
    qed
    then have IH: "GetVarint64Loop (EncodeVarint64 (drop_bit 7 v) @ r) (shift + 7) a =
        Some (a OR push_bit (shift + 7) (drop_bit 7 v), r)" for a
      using "1.IH" True s by blast
    have "push_bit shift (take_bit 7 v) OR push_bit (shift + 7) (drop_bit 7 v) = push_bit shift v"
      using take_bit_or_push_bit_drop [of 7 v]
      by (simp flip: push_bit_push_bit push_bit_or add: add.commute)
    then show ?thesis using True "1.prems"
      by (simp add: EncodeVarint64.simps [of v] GetVarint64Loop.simps [of "_ # _"] low_byte_bits IH or.assoc)
  qed
qed

lemma GetVarint64_Encode [simp]: "GetVarint64 (EncodeVarint64 v @ r) = (Some v, r)"
  using GetVarint64Loop_Encode [of 0 v r 0] unsigned_less [of v, where 'a = nat]
  by (simp add: GetVarint64_def GetVarint64Ptr_def)

interpretation varint64: codec EncodeVarint64 GetVarint64 "\<lambda>_. True"
  by unfold_locales simp

text \<open>
  The unrolled 32-bit writer stores the same bytes as the loop on the widened number; the
  32-bit reading loop inverts it.
\<close>

lemma ucast_drop_bit_u64:
  "drop_bit k (ucast (v :: u32) :: u64) = ucast (drop_bit k v)"
  by (rule bit_word_eqI) (auto simp: bit_simps dest: bit_imp_le_length)

lemma ucast_or_128: "(ucast (ucast (v :: u32) OR 128 :: u64) :: byte) = ucast (v OR 128)"
  by (rule bit_word_eqI) (auto simp: bit_simps bit_7)

lemma ucast_u64_ge: "128 \<le> (ucast (v :: u32) :: u64) \<longleftrightarrow> 128 \<le> v"
  by (simp add: word_le_nat_alt unat_ucast_up)

lemma drop_bit_ge_128: "128 \<le> drop_bit k (v :: u32) \<longleftrightarrow> 128 * 2 ^ k \<le> unat v"
proof -
  have "128 \<le> drop_bit k v \<longleftrightarrow> 128 \<le> unat v div 2 ^ k"
    by (simp add: word_le_nat_alt unat_drop_bit_div)
  then show ?thesis by (simp add: less_eq_div_iff_mult_less_eq)
qed

lemma EncodeVarint64_u32_step:
  "EncodeVarint64 (ucast (v :: u32)) =
     (if 128 \<le> v then ucast (v OR 128) # EncodeVarint64 (ucast (drop_bit 7 v)) else [ucast v])"
proof -
  have "(ucast (ucast v :: u64) :: byte) = ucast v"
    by (rule bit_word_eqI) (auto simp: bit_simps)
  then show ?thesis
    by (subst EncodeVarint64.simps)
      (simp add: ucast_u64_ge low_byte_bits ucast_or_128 ucast_drop_bit_u64)
qed

lemma EncodeVarint32_eq_loop: "EncodeVarint32 v = EncodeVarint64 (ucast v)"
proof -
  have n: "unat v < 2 ^ 32" using unat_less_2p [of v] by simp
  have s: "128 \<le> v \<longleftrightarrow> 128 \<le> unat v" by (simp add: word_le_nat_alt)
  show ?thesis
    using n
    by (auto simp: EncodeVarint32_def Let_def word_less_nat_alt EncodeVarint64_u32_step
        drop_bit_drop_bit drop_bit_ge_128 s)
qed

lemma GetVarint32PtrFallback_Encode:
  "shift \<le> 28 \<Longrightarrow> 7 dvd shift \<Longrightarrow> unat v < 2 ^ (32 - shift) \<Longrightarrow>
   GetVarint32PtrFallback (EncodeVarint64 (ucast v) @ r) shift acc =
     Some (acc OR push_bit shift v, r)"
proof (induction "unat v" arbitrary: v shift acc rule: less_induct)
  case less
  show ?case
  proof (cases "128 \<le> v")
    case False
    then have "v < 128" and "EncodeVarint64 (ucast v) = [ucast v]"
      by (simp_all add: EncodeVarint64_u32_step)
    then show ?thesis using less.prems
      by (simp add: GetVarint32PtrFallback.simps [of "_ # _"] below_128)
  next
    case True
    have "(2::nat) ^ 7 < 2 ^ (32 - shift)" using True less.prems by (simp add: word_le_nat_alt)
    then have "7 < 32 - shift"
      using power_strict_increasing_iff [of "2::nat" 7 "32 - shift"] by simp
    moreover from less.prems(2) obtain k where "shift = 7 * k" ..
    ultimately have s: "shift + 7 \<le> 28" by simp
    have "(2::nat) ^ (32 - shift) = 2 ^ 7 * 2 ^ (32 - (shift + 7))"
      using s by (simp only: power_add [symmetric]) simp
    then have "unat v < 2 ^ (32 - (shift + 7)) * 2 ^ 7"
      using less.prems by (metis mult.commute)
    then have "unat (drop_bit 7 v) < 2 ^ (32 - (shift + 7))"
      by (simp add: unat_drop_bit_div less_mult_imp_div_less)
    moreover have "unat (drop_bit 7 v) < unat v" using True by (intro drop_bit_less_word) auto
    ultimately have IH: "GetVarint32PtrFallback (EncodeVarint64 (ucast (drop_bit 7 v)) @ r) (shift + 7) a =
        Some (a OR push_bit (shift + 7) (drop_bit 7 v), r)" for a
      using less.hyps s less.prems(2) by simp
    have "push_bit shift (take_bit 7 v) OR push_bit (shift + 7) (drop_bit 7 v) = push_bit shift v"
      using take_bit_or_push_bit_drop [of 7 v]
      by (simp flip: push_bit_push_bit push_bit_or add: add.commute)
    then show ?thesis using True less.prems
      by (simp add: EncodeVarint64_u32_step [of v] GetVarint32PtrFallback.simps [of "_ # _"]
          low_byte_bits IH or.assoc)
  qed
qed

lemma GetVarint32Ptr_eq_fallback: "GetVarint32Ptr p = GetVarint32PtrFallback p 0 0"
proof (cases p)
  case (Cons b q)
  have "(ucast b AND 128 :: u32) = 0 \<longleftrightarrow> b AND 128 = 0"
  proof -
    have "(ucast b AND 128 :: u32) = ucast (b AND 128)"
      by (rule bit_word_eqI) (auto simp: bit_simps bit_7)
    moreover have "(ucast (b AND 128) :: u32) = 0 \<longleftrightarrow> b AND 128 = 0"
      using unat_ucast_up [of "b AND 128", where 'b = 32] unsigned_eq_0_iff [of "b AND 128", where 'a = nat]
        unsigned_eq_0_iff [of "ucast (b AND 128) :: u32", where 'a = nat] by simp
    ultimately show ?thesis by simp
  qed
  with Cons show ?thesis
    by (simp add: GetVarint32Ptr_def Let_def GetVarint32PtrFallback.simps [of "_ # _"])
qed (simp add: GetVarint32Ptr_def)

lemma GetVarint32Ptr_Encode [simp]: "GetVarint32Ptr (EncodeVarint32 v @ r) = Some (v, r)"
  using GetVarint32PtrFallback_Encode [of 0 v r 0] unat_less_2p [of v]
  by (simp add: GetVarint32Ptr_eq_fallback EncodeVarint32_eq_loop)

lemma GetVarint32_Encode [simp]: "GetVarint32 (EncodeVarint32 v @ r) = (Some v, r)"
  by (simp add: GetVarint32_def)

interpretation varint32: codec EncodeVarint32 GetVarint32 "\<lambda>_. True"
  by unfold_locales simp

lemma VarintLength_eq: "VarintLength v = length (EncodeVarint64 v)"
proof (induction v rule: VarintLength.induct)
  case (1 v)
  then show ?case
    by (simp add: VarintLength.simps [of v] EncodeVarint64.simps [of v])
qed

lemma VarintLength_bound: "unat v < 2 ^ (7 * n) \<Longrightarrow> 0 < n \<Longrightarrow> VarintLength v \<le> n"
proof (induction n arbitrary: v)
  case (Suc n)
  show ?case
  proof (cases "128 \<le> v")
    case True
    then have "128 \<le> unat v" by (simp add: word_le_nat_alt)
    then have "0 < n" using Suc.prems(1) by (cases n) auto
    moreover have "unat (drop_bit 7 v) < 2 ^ (7 * n)"
      using Suc.prems(1) by (simp add: unat_drop_bit_div less_mult_imp_div_less power_add)
    ultimately show ?thesis using Suc.IH [of "drop_bit 7 v"] True VarintLength.simps [of v] by simp
  next
    case False
    then show ?thesis using VarintLength.simps [of v] by simp
  qed
qed simp

lemma length_EncodeVarint64: "length (EncodeVarint64 v) \<le> 10"
  using VarintLength_bound [of v 10] unat_less_2p [of v] by (simp add: VarintLength_eq)

lemma zigzag_inverse: "zigzagToI64 (i64ToZigzag l) = l"
proof -
  define p where "p = push_bit 1 l"
  have p: "bit p n \<longleftrightarrow> n < 64 \<and> 0 < n \<and> bit l (n - 1)" for n
    unfolding p_def by (simp only: bit_push_bit_iff) (auto simp: Suc_le_eq dest: bit_imp_le_length)
  define q where "q = signed_drop_bit 63 l"
  have q: "bit q n \<longleftrightarrow> n < 64 \<and> bit l 63" for n
    by (cases "n = 0") (auto simp: q_def bit_simps dest: bit_imp_le_length)
  have one: "(p XOR q) AND 1 = (if bit l 63 then 1 else 0)"
    by (rule bit_word_eqI) (auto simp: bit_and_iff bit_xor_iff p q bit_1_iff)
  have neg: "bit (- (if c then 1 else 0 :: u64)) n \<longleftrightarrow> c \<and> n < 64" for c n
    by simp
  have "zigzagToI64 (p XOR q) = l"
    unfolding zigzagToI64_def one
  proof (rule bit_word_eqI)
    fix n assume "n < LENGTH(64)"
    then show "bit (drop_bit 1 (p XOR q) XOR - (if bit l 63 then 1 else 0)) n = bit l n"
      by (cases "n = 63") (auto simp: bit_xor_iff bit_drop_bit_eq neg p q)
  qed
  then show ?thesis by (simp add: i64ToZigzag_def p_def q_def)
qed

interpretation varsigned64: codec "\<lambda>v. PutVarsignedint64 [] v" GetVarsignedint64 "\<lambda>_. True"
proof unfold_locales
  fix x r
  have "GetVarint64Ptr (EncodeVarint64 u @ r) = Some (u, r)" for u
    using GetVarint64_Encode [of u r] by (auto simp: GetVarint64_def split: option.splits)
  then show "GetVarsignedint64 (PutVarsignedint64 [] x @ r) = (Some x, r)"
    by (simp add: GetVarsignedint64_def PutVarsignedint64_def zigzag_inverse)
qed

text \<open>A length-prefixed slice reads back when its length fits the 32-bit prefix.\<close>

interpretation lp_slice: codec "\<lambda>v. PutLengthPrefixedSlice [] v" GetLengthPrefixedSlice
  "\<lambda>v. length v < 2 ^ 32"
  by unfold_locales
    (simp add: PutLengthPrefixedSlice_def PutVarint32_def GetLengthPrefixedSlice_def
      unsigned_of_nat take_bit_nat_eq_self)

text \<open>Appending to a buffer is appending the encoding.\<close>

lemmas put_defs = PutFixed16_def PutFixed32_def PutFixed64_def PutVarint32_def PutVarint64_def
  PutVarint32Varint32_def PutVarint32Varint32Varint32_def PutVarint64Varint64_def
  PutVarint32Varint64_def PutVarint32Varint32Varint64_def PutVarsignedint64_def

lemma PutLengthPrefixedSlice_append:
  "PutLengthPrefixedSlice dst v = dst @ PutLengthPrefixedSlice [] v"
  by (simp add: PutLengthPrefixedSlice_def PutVarint32_def)

text \<open>Reading a number consumes at least one byte.\<close>

lemma GetVarint32PtrFallback_shorter:
  "GetVarint32PtrFallback p k r = Some (v, q) \<Longrightarrow> length q < length p"
proof (induction p k r rule: GetVarint32PtrFallback.induct)
  case (1 p k r)
  show ?case
  proof (cases "k \<le> 28 \<and> p \<noteq> []")
    case True
    then obtain b p' where p: "p = b # p'" by (cases p) auto
    show ?thesis
    proof (cases "b AND 128 \<noteq> 0")
      case c: True
      then have "GetVarint32PtrFallback p' (k + 7) (r OR push_bit k (ucast b AND 127)) = Some (v, q)"
        using "1.prems" True p
        by (simp add: GetVarint32PtrFallback.simps [of "b # p'"] del: push_bit_and)
      then show ?thesis using "1.IH" [OF _ p c] True p by simp
    next
      case False
      then show ?thesis using "1.prems" True p
        by (simp add: GetVarint32PtrFallback.simps [of "b # p'"])
    qed
  next
    case False
    then show ?thesis using "1.prems"
      by (auto simp: GetVarint32PtrFallback.simps [of p] split: list.splits)
  qed
qed

lemma GetVarint32Ptr_shorter: "GetVarint32Ptr p = Some (v, q) \<Longrightarrow> length q < length p"
  by (auto simp: GetVarint32Ptr_def Let_def dest: GetVarint32PtrFallback_shorter
      split: list.splits if_splits)

end
