(* ===== verification/Slices.thy ===== *)
theory Slices
  imports Prelude
begin

text \<open>
  Byte strings and the order on them: \<open>Slice\<close> (\<open>include/rocksdb/slice.h\<close>) and the bytewise
  comparators (\<open>util/comparator.cc\<close>). The locale \<open>comparator\<close> is the contract that every
  component relying on an ordering of keys uses; \<open>user_comparator\<close> adds the contract of the
  key-shortening operations. Both are discharged here for the two comparators of the system.
\<close>

section \<open>The comparator contract\<close>

text \<open>A three-way comparison: negative, zero or positive, as in the source.\<close>

locale comparator =
  fixes cmp :: "'a \<Rightarrow> 'a \<Rightarrow> int"
  assumes refl: "cmp a a = 0"
    and antisym: "cmp a b < 0 \<longleftrightarrow> 0 < cmp b a"
    and trans: "cmp a b \<le> 0 \<Longrightarrow> cmp b c \<le> 0 \<Longrightarrow> cmp a c \<le> 0"
begin

lemma zero_sym: "cmp a b = 0 \<longleftrightarrow> cmp b a = 0"
  using antisym [of a b] antisym [of b a] by linarith

lemma le_iff: "cmp a b \<le> 0 \<longleftrightarrow> 0 \<le> cmp b a"
  using antisym [of b a] by linarith

lemma total: "cmp a b \<le> 0 \<or> cmp b a \<le> 0"
  using le_iff [of a b] by linarith

lemma less_le_trans: "cmp a b < 0 \<Longrightarrow> cmp b c \<le> 0 \<Longrightarrow> cmp a c < 0"
proof (rule ccontr)
  assume ab: "cmp a b < 0" and bc: "cmp b c \<le> 0" and "\<not> cmp a c < 0"
  then have "cmp c a \<le> 0" using le_iff [of c a] by linarith
  with bc have "cmp b a \<le> 0" by (rule trans)
  with ab show False using antisym [of a b] by linarith
qed

lemma le_less_trans: "cmp a b \<le> 0 \<Longrightarrow> cmp b c < 0 \<Longrightarrow> cmp a c < 0"
proof (rule ccontr)
  assume ab: "cmp a b \<le> 0" and bc: "cmp b c < 0" and "\<not> cmp a c < 0"
  then have "cmp c a \<le> 0" using le_iff [of c a] by linarith
  from this ab have "cmp c b \<le> 0" by (rule trans)
  with bc show False using antisym [of b c] by linarith
qed

lemma less_trans: "cmp a b < 0 \<Longrightarrow> cmp b c < 0 \<Longrightarrow> cmp a c < 0"
  using less_le_trans [of a b c] by simp

lemma eq_less: "cmp a b = 0 \<Longrightarrow> cmp b c < 0 \<longleftrightarrow> cmp a c < 0"
  using le_less_trans [of a b c] le_less_trans [of b a c] zero_sym [of a b] by auto

lemma less_eq: "cmp b c = 0 \<Longrightarrow> cmp a b < 0 \<longleftrightarrow> cmp a c < 0"
  using less_le_trans [of a b c] less_le_trans [of a c b] zero_sym [of b c] by auto

lemma eq_trans: "cmp a b = 0 \<Longrightarrow> cmp b c = 0 \<Longrightarrow> cmp a c = 0"
  using trans [of a b c] trans [of c b a] zero_sym [of a b] zero_sym [of b c] le_iff [of c a]
  by linarith

end

section \<open>Slices\<close>

fun memcmp :: "bytes \<Rightarrow> bytes \<Rightarrow> int" where
  "memcmp (a # x) (b # y) = (if a = b then memcmp x y else if a < b then -1 else 1)"
| "memcmp _ _ = 0"

definition slice_compare :: "bytes \<Rightarrow> bytes \<Rightarrow> int" where
  "slice_compare a b =
     (let min_len = (if length a < length b then length a else length b);
          r = memcmp (take min_len a) (take min_len b)
      in if r = 0 then
           (if length a < length b then -1 else if length a > length b then 1 else r)
         else r)"

definition starts_with :: "bytes \<Rightarrow> bytes \<Rightarrow> bool" where
  "starts_with s x \<longleftrightarrow> length x \<le> length s \<and> memcmp (take (length x) s) x = 0"

definition ends_with :: "bytes \<Rightarrow> bytes \<Rightarrow> bool" where
  "ends_with s x \<longleftrightarrow> length x \<le> length s \<and> memcmp (drop (length s - length x) s) x = 0"

fun difference_offset :: "bytes \<Rightarrow> bytes \<Rightarrow> nat" where
  "difference_offset (a # x) (b # y) = (if a \<noteq> b then 0 else Suc (difference_offset x y))"
| "difference_offset _ _ = 0"

section \<open>Bytewise comparators\<close>

definition BytewiseCompare :: "bytes \<Rightarrow> bytes \<Rightarrow> int" where
  "BytewiseCompare a b = slice_compare a b"

text \<open>The inner loop: increment the first byte below \<open>0xff\<close> from \<open>i\<close> on and cut after it.\<close>

function IncrementFrom :: "bytes \<Rightarrow> nat \<Rightarrow> bytes" where
  "IncrementFrom start i =
     (if i < length start then
        (if start ! i < 0xff then take i start @ [start ! i + 1]
         else IncrementFrom start (i + 1))
      else start)"
  by pat_completeness auto
termination by (relation "measure (\<lambda>(start, i). length start - i)") auto

declare IncrementFrom.simps [simp del]

definition BytewiseFindShortestSeparator :: "bytes \<Rightarrow> bytes \<Rightarrow> bytes" where
  "BytewiseFindShortestSeparator start limit =
     (let min_length = min (length start) (length limit);
          diff_index = difference_offset start limit
      in if diff_index \<ge> min_length then start
         else
           (let start_byte = start ! diff_index; limit_byte = limit ! diff_index
            in if start_byte \<ge> limit_byte then start
               else if diff_index < length limit - 1 \<or> unat start_byte + 1 < unat limit_byte then
                 take diff_index start @ [start_byte + 1]
               else IncrementFrom start (diff_index + 1)))"

text \<open>Increment the first byte that is not \<open>0xff\<close>; a run of \<open>0xff\<close> is left alone.\<close>

fun IncrementFirst :: "bytes \<Rightarrow> bytes option" where
  "IncrementFirst [] = None"
| "IncrementFirst (b # k) =
     (if b \<noteq> 0xff then Some [b + 1] else map_option ((#) b) (IncrementFirst k))"

definition BytewiseFindShortSuccessor :: "bytes \<Rightarrow> bytes" where
  "BytewiseFindShortSuccessor key = (case IncrementFirst key of None \<Rightarrow> key | Some k \<Rightarrow> k)"

definition IsSameLengthImmediateSuccessor :: "bytes \<Rightarrow> bytes \<Rightarrow> bool" where
  "IsSameLengthImmediateSuccessor s t =
     (if length s \<noteq> length t \<or> length s = 0 then False
      else
        (let diff_ind = difference_offset s t
         in if diff_ind \<ge> length s then False
            else
              (let byte_s = s ! diff_ind; byte_t = t ! diff_ind
               in byte_s \<noteq> 0xff \<and> byte_s + 1 = byte_t \<and>
                  list_all (\<lambda>i. s ! i = 0xff \<and> t ! i = 0x00) [diff_ind + 1..<length s])))"

definition ReverseBytewiseCompare :: "bytes \<Rightarrow> bytes \<Rightarrow> int" where
  "ReverseBytewiseCompare a b = - slice_compare a b"

definition ReverseBytewiseFindShortestSeparator :: "bytes \<Rightarrow> bytes \<Rightarrow> bytes" where
  "ReverseBytewiseFindShortestSeparator start limit =
     (let min_length = min (length start) (length limit);
          diff_index = difference_offset start limit
      in if diff_index = min_length then start
         else
           (let start_byte = start ! diff_index; limit_byte = limit ! diff_index
            in if start_byte > limit_byte \<and> diff_index < length start - 1
               then take (diff_index + 1) start else start))"

definition ReverseBytewiseFindShortSuccessor :: "bytes \<Rightarrow> bytes" where
  "ReverseBytewiseFindShortSuccessor key = key"

section \<open>The order on slices\<close>

lemma memcmp_range: "memcmp x y \<in> {-1, 0, 1}"
  by (induction x y rule: memcmp.induct) auto

lemma slice_compare_simps [simp]:
  "slice_compare [] [] = 0"
  "slice_compare [] (b # y) = -1"
  "slice_compare (a # x) [] = 1"
  "slice_compare (a # x) (b # y) =
     (if a = b then slice_compare x y else if a < b then -1 else 1)"
  by (auto simp: slice_compare_def Let_def)

lemma slice_compare_induct [case_names Nil_Nil Nil_Cons Cons_Nil Cons_Cons]:
  "\<lbrakk>P [] []; \<And>b y. P [] (b # y); \<And>a x. P (a # x) [];
    \<And>a x b y. P x y \<Longrightarrow> P (a # x) (b # y)\<rbrakk> \<Longrightarrow> P (x :: bytes) (y :: bytes)"
proof (induction x arbitrary: y)
  case (Nil z)
  then show ?case by (cases z) auto
next
  case (Cons a x z)
  then show ?case by (cases z) auto
qed

lemma slice_compare_zero [simp]: "slice_compare x y = 0 \<longleftrightarrow> x = y"
  by (induction x y rule: slice_compare_induct) auto

lemma slice_compare_self [simp]: "slice_compare x x = 0"
  by simp

lemma slice_compare_append_left [simp]: "slice_compare (p @ x) (p @ y) = slice_compare x y"
  by (induction p) auto

lemma slice_compare_neg: "slice_compare y x = - slice_compare x y"
  by (induction x y rule: slice_compare_induct) auto

lemma slice_compare_trans:
  "slice_compare x y \<le> 0 \<Longrightarrow> slice_compare y z \<le> 0 \<Longrightarrow> slice_compare x z \<le> 0"
proof (induction x y arbitrary: z rule: slice_compare_induct)
  case Nil_Nil
  then show ?case by simp
next
  case (Nil_Cons b y)
  then show ?case by (cases z) auto
next
  case (Cons_Nil a x)
  then show ?case by simp
next
  case (Cons_Cons a x b y)
  then show ?case by (cases z) (auto split: if_splits)
qed

interpretation bytewise: comparator BytewiseCompare
proof unfold_locales
  fix a b c
  show "BytewiseCompare a a = 0" by (simp add: BytewiseCompare_def)
  show "BytewiseCompare a b < 0 \<longleftrightarrow> 0 < BytewiseCompare b a"
    unfolding BytewiseCompare_def by (subst slice_compare_neg) simp
  show "BytewiseCompare a c \<le> 0" if "BytewiseCompare a b \<le> 0" "BytewiseCompare b c \<le> 0"
    using that slice_compare_trans by (auto simp: BytewiseCompare_def)
qed

interpretation rbytewise: comparator ReverseBytewiseCompare
proof unfold_locales
  fix a b c
  show "ReverseBytewiseCompare a a = 0" by (simp add: ReverseBytewiseCompare_def)
  show "ReverseBytewiseCompare a b < 0 \<longleftrightarrow> 0 < ReverseBytewiseCompare b a"
    unfolding ReverseBytewiseCompare_def by (subst slice_compare_neg) simp
  show "ReverseBytewiseCompare a c \<le> 0"
    if "ReverseBytewiseCompare a b \<le> 0" "ReverseBytewiseCompare b c \<le> 0"
    using that slice_compare_trans [of c b a] slice_compare_neg [of a b] slice_compare_neg [of b c]
      slice_compare_neg [of a c]
    by (auto simp: ReverseBytewiseCompare_def)
qed

lemma difference_offset_le: "difference_offset x y \<le> min (length x) (length y)"
  by (induction x y rule: difference_offset.induct) auto

lemma difference_offset_same [simp]: "difference_offset x x = length x"
  by (induction x) auto

lemma difference_offset_take:
  "take (difference_offset x y) x = take (difference_offset x y) y"
  by (induction x y rule: difference_offset.induct) auto

lemma difference_offset_nth:
  "difference_offset x y < min (length x) (length y) \<Longrightarrow>
   x ! difference_offset x y \<noteq> y ! difference_offset x y"
  by (induction x y rule: difference_offset.induct) auto

text \<open>The shape of two slices that differ before either ends.\<close>

lemma difference_split:
  assumes "difference_offset x y < min (length x) (length y)"
  obtains p a b u v where "x = p @ a # u" and "y = p @ b # v" and "a \<noteq> b"
    and "difference_offset x y = length p" and "x ! length p = a" and "y ! length p = b"
    and "take (length p) x = p"
proof
  let ?d = "difference_offset x y"
  show "x = take ?d x @ x ! ?d # drop (Suc ?d) x" using assms by (simp add: id_take_nth_drop)
  show "y = take ?d x @ y ! ?d # drop (Suc ?d) y"
    using assms id_take_nth_drop [of ?d y] difference_offset_take [of x y] by simp
  show "x ! ?d \<noteq> y ! ?d" using assms by (rule difference_offset_nth)
qed (use assms in simp_all)

lemma starts_with_iff: "starts_with s x \<longleftrightarrow> (\<exists>r. s = x @ r)"
proof
  assume a: "starts_with s x"
  have "memcmp u v = 0 \<Longrightarrow> length u = length v \<Longrightarrow> u = v" for u v
    by (induction u v rule: memcmp.induct) (auto split: if_splits)
  then have "take (length x) s = x" using a by (auto simp: starts_with_def)
  then have "s = x @ drop (length x) s" by (metis append_take_drop_id)
  then show "\<exists>r. s = x @ r" ..
next
  have "memcmp x x = 0" for x by (induction x) auto
  then show "\<exists>r. s = x @ r \<Longrightarrow> starts_with s x" by (auto simp: starts_with_def)
qed

section \<open>The contract of the shortening operations\<close>

locale user_comparator = comparator cmp for cmp :: "bytes \<Rightarrow> bytes \<Rightarrow> int" +
  fixes sep :: "bytes \<Rightarrow> bytes \<Rightarrow> bytes" and succ :: "bytes \<Rightarrow> bytes"
  assumes sep_ge: "cmp start limit < 0 \<Longrightarrow> cmp start (sep start limit) \<le> 0"
    and sep_eq: "cmp start limit = 0 \<Longrightarrow> cmp start (sep start limit) = 0"
    and sep_less: "cmp start limit < 0 \<Longrightarrow> cmp (sep start limit) limit < 0"
    and succ_ge: "cmp key (succ key) \<le> 0"

lemma word8_succ: "a < (b :: byte) \<Longrightarrow> a < a + 1 \<and> a + 1 \<le> b"
  using unat_less_2p [of b]
  by (simp add: word_less_nat_alt word_le_nat_alt unat_word_ariths)

lemma word8_not_max: "(a :: byte) < 255 \<longleftrightarrow> a \<noteq> 255"
  using unat_less_2p [of a] by (auto simp: word_less_nat_alt word_unat_eq_iff)

lemma IncrementFrom_spec:
  "i \<le> length s \<Longrightarrow>
   slice_compare s (IncrementFrom s i) \<le> 0 \<and> take i (IncrementFrom s i) = take i s \<and>
   i \<le> length (IncrementFrom s i)"
proof (induction s i rule: IncrementFrom.induct)
  case (1 s i)
  show ?case
  proof (cases "i < length s \<and> s ! i < 255")
    case True
    then have "s = take i s @ s ! i # drop (Suc i) s" by (simp add: id_take_nth_drop)
    moreover have "slice_compare (take i s @ s ! i # drop (Suc i) s) (take i s @ [s ! i + 1]) = -1"
      using True word8_succ [of "s ! i" 255] by auto
    ultimately show ?thesis using True by (simp add: IncrementFrom.simps [of s i])
  next
    case False
    show ?thesis
    proof (cases "i < length s")
      case True
      with False have "slice_compare s (IncrementFrom s (Suc i)) \<le> 0 \<and>
          take (Suc i) (IncrementFrom s (Suc i)) = take (Suc i) s \<and>
          Suc i \<le> length (IncrementFrom s (Suc i))"
        using "1.IH" by simp
      moreover from this have "take i (IncrementFrom s (Suc i)) = take i s"
        by (metis lessI less_imp_le min_def take_take)
      ultimately show ?thesis using False True by (simp add: IncrementFrom.simps [of s i])
    next
      case F: False
      then have "IncrementFrom s i = s" by (simp add: IncrementFrom.simps [of s i])
      with "1.prems" show ?thesis by simp
    qed
  qed
qed

lemma BytewiseSeparator_bounds:
  assumes "slice_compare start limit < 0"
  shows "slice_compare start (BytewiseFindShortestSeparator start limit) \<le> 0 \<and>
    slice_compare (BytewiseFindShortestSeparator start limit) limit < 0"
proof (cases "difference_offset start limit < min (length start) (length limit)")
  case False
  then have "BytewiseFindShortestSeparator start limit = start"
    unfolding BytewiseFindShortestSeparator_def Let_def by (simp only: not_less if_True)
  then show ?thesis using assms by simp
next
  case True
  then obtain p a b u v where s: "start = p @ a # u" and l: "limit = p @ b # v" and "a \<noteq> b"
    and d: "difference_offset start limit = length p"
    by (rule difference_split)
  from assms \<open>a \<noteq> b\<close> have ab: "a < b" by (auto simp: s l split: if_splits)
  note w = word8_succ [OF ab]
  show ?thesis
  proof (cases "v \<noteq> [] \<or> unat a + 1 < unat b")
    case c: True
    then have "BytewiseFindShortestSeparator start limit = p @ [a + 1]"
      using ab d by (auto simp: BytewiseFindShortestSeparator_def Let_def s l)
    moreover have "a + 1 = b \<Longrightarrow> v \<noteq> []"
      using c unat_word_ariths(1) [of a 1] unat_less_2p [of b] by auto
    ultimately show ?thesis using w
      by (cases v) (auto simp: s l order.strict_iff_order [of "a + 1" b])
  next
    case False
    then have r: "BytewiseFindShortestSeparator start limit = IncrementFrom start (Suc (length p))"
      using ab d by (auto simp: BytewiseFindShortestSeparator_def Let_def s l)
    let ?i = "IncrementFrom start (Suc (length p))"
    have sp: "slice_compare start ?i \<le> 0" "take (Suc (length p)) ?i = take (Suc (length p)) start"
      using IncrementFrom_spec [of "Suc (length p)" start] by (auto simp: s)
    then have "?i = (p @ [a]) @ drop (Suc (length p)) ?i"
      by (metis (no_types, lifting) append_take_drop_id s append_Cons append_Nil append_assoc
          append_eq_conv_conj length_append_singleton)
    then obtain t where "?i = p @ a # t" by auto
    then have "slice_compare ?i limit < 0" using ab by (simp add: l less_imp_neq)
    with sp r show ?thesis by simp
  qed
qed

lemma IncrementFirst_greater: "IncrementFirst k = Some k' \<Longrightarrow> slice_compare k k' < 0"
proof (induction k arbitrary: k')
  case (Cons b k)
  then show ?case using word8_succ [of b 255] word8_not_max [of b] by (auto split: if_splits)
qed simp

interpretation bytewise: user_comparator BytewiseCompare BytewiseFindShortestSeparator
  BytewiseFindShortSuccessor
proof unfold_locales
  fix start limit key
  assume "BytewiseCompare start limit < 0"
  then show "BytewiseCompare start (BytewiseFindShortestSeparator start limit) \<le> 0"
    and "BytewiseCompare (BytewiseFindShortestSeparator start limit) limit < 0"
    using BytewiseSeparator_bounds by (simp_all add: BytewiseCompare_def)
next
  fix start limit
  assume "BytewiseCompare start limit = 0"
  then show "BytewiseCompare start (BytewiseFindShortestSeparator start limit) = 0"
    by (simp add: BytewiseCompare_def BytewiseFindShortestSeparator_def Let_def difference_offset_same)
next
  fix key
  show "BytewiseCompare key (BytewiseFindShortSuccessor key) \<le> 0"
    using IncrementFirst_greater [of key]
    by (cases "IncrementFirst key")
      (auto simp: BytewiseCompare_def BytewiseFindShortSuccessor_def)
qed

interpretation rbytewise: user_comparator ReverseBytewiseCompare
  ReverseBytewiseFindShortestSeparator ReverseBytewiseFindShortSuccessor
proof unfold_locales
  fix start limit
  assume less: "ReverseBytewiseCompare start limit < 0"
  let ?r = "ReverseBytewiseFindShortestSeparator start limit"
  have "slice_compare ?r start \<le> 0 \<and> 0 < slice_compare ?r limit"
  proof (cases "difference_offset start limit < min (length start) (length limit)")
    case False
    then have "?r = start"
      using difference_offset_le [of start limit]
      by (auto simp: ReverseBytewiseFindShortestSeparator_def Let_def)
    then show ?thesis using less by (simp add: ReverseBytewiseCompare_def)
  next
    case True
    then obtain p a b u v where s: "start = p @ a # u" and l: "limit = p @ b # v" and "a \<noteq> b"
      and d: "difference_offset start limit = length p"
      by (rule difference_split)
    then show ?thesis using less
      by (cases u) (auto simp: ReverseBytewiseFindShortestSeparator_def ReverseBytewiseCompare_def
          Let_def split: if_splits)
  qed
  then show "ReverseBytewiseCompare start ?r \<le> 0" and "ReverseBytewiseCompare ?r limit < 0"
    using slice_compare_neg [of start ?r] by (simp_all add: ReverseBytewiseCompare_def)
next
  fix start limit
  assume "ReverseBytewiseCompare start limit = 0"
  then show "ReverseBytewiseCompare start (ReverseBytewiseFindShortestSeparator start limit) = 0"
    by (simp add: ReverseBytewiseCompare_def ReverseBytewiseFindShortestSeparator_def Let_def
        difference_offset_same)
next
  fix key
  show "ReverseBytewiseCompare key (ReverseBytewiseFindShortSuccessor key) \<le> 0"
    by (simp add: ReverseBytewiseCompare_def ReverseBytewiseFindShortSuccessor_def)
qed

end
