(* ===== verification/Internal_Key.thy ===== *)
theory Internal_Key
  imports Slices Coding
begin

text \<open>
  Internal keys (\<open>db/dbformat.h\<close>, \<open>db/dbformat.cc\<close>): a user key followed by eight bytes that
  pack a 56-bit sequence number and a value type. The memtable, the data blocks and the index
  all order their entries by \<open>InternalKeyComparator\<close>. \<open>ValueType\<close> is an enum over
  \<open>unsigned char\<close> into which arbitrary bytes are cast, hence a byte here.
\<close>

section \<open>Value types\<close>

type_synonym ValueType = byte
type_synonym SequenceNumber = u64

definition kTypeDeletion :: ValueType where "kTypeDeletion = 0x0"
definition kTypeValue :: ValueType where "kTypeValue = 0x1"
definition kTypeMerge :: ValueType where "kTypeMerge = 0x2"
definition kTypeLogData :: ValueType where "kTypeLogData = 0x3"
definition kTypeColumnFamilyDeletion :: ValueType where "kTypeColumnFamilyDeletion = 0x4"
definition kTypeColumnFamilyValue :: ValueType where "kTypeColumnFamilyValue = 0x5"
definition kTypeColumnFamilyMerge :: ValueType where "kTypeColumnFamilyMerge = 0x6"
definition kTypeSingleDeletion :: ValueType where "kTypeSingleDeletion = 0x7"
definition kTypeColumnFamilySingleDeletion :: ValueType where
  "kTypeColumnFamilySingleDeletion = 0x8"
definition kTypeBeginPrepareXID :: ValueType where "kTypeBeginPrepareXID = 0x9"
definition kTypeEndPrepareXID :: ValueType where "kTypeEndPrepareXID = 0xA"
definition kTypeCommitXID :: ValueType where "kTypeCommitXID = 0xB"
definition kTypeRollbackXID :: ValueType where "kTypeRollbackXID = 0xC"
definition kTypeNoop :: ValueType where "kTypeNoop = 0xD"
definition kTypeColumnFamilyRangeDeletion :: ValueType where
  "kTypeColumnFamilyRangeDeletion = 0xE"
definition kTypeRangeDeletion :: ValueType where "kTypeRangeDeletion = 0xF"
definition kTypeColumnFamilyBlobIndex :: ValueType where "kTypeColumnFamilyBlobIndex = 0x10"
definition kTypeBlobIndex :: ValueType where "kTypeBlobIndex = 0x11"
definition kTypeBeginPersistedPrepareXID :: ValueType where
  "kTypeBeginPersistedPrepareXID = 0x12"
definition kTypeBeginUnprepareXID :: ValueType where "kTypeBeginUnprepareXID = 0x13"
definition kTypeDeletionWithTimestamp :: ValueType where "kTypeDeletionWithTimestamp = 0x14"
definition kMaxValue :: ValueType where "kMaxValue = 0x7F"

lemmas value_type_defs = kTypeDeletion_def kTypeValue_def kTypeMerge_def kTypeLogData_def
  kTypeColumnFamilyDeletion_def kTypeColumnFamilyValue_def kTypeColumnFamilyMerge_def
  kTypeSingleDeletion_def kTypeColumnFamilySingleDeletion_def kTypeBeginPrepareXID_def
  kTypeEndPrepareXID_def kTypeCommitXID_def kTypeRollbackXID_def kTypeNoop_def
  kTypeColumnFamilyRangeDeletion_def kTypeRangeDeletion_def kTypeColumnFamilyBlobIndex_def
  kTypeBlobIndex_def kTypeBeginPersistedPrepareXID_def kTypeBeginUnprepareXID_def
  kTypeDeletionWithTimestamp_def kMaxValue_def

definition kValueTypeForSeek :: ValueType where
  "kValueTypeForSeek = kTypeDeletionWithTimestamp"

definition kValueTypeForSeekForPrev :: ValueType where
  "kValueTypeForSeekForPrev = kTypeDeletion"

definition IsValueType :: "ValueType \<Rightarrow> bool" where
  "IsValueType t \<longleftrightarrow>
     t \<le> kTypeMerge \<or> t = kTypeSingleDeletion \<or> t = kTypeBlobIndex \<or>
     kTypeDeletionWithTimestamp = t"

definition IsExtendedValueType :: "ValueType \<Rightarrow> bool" where
  "IsExtendedValueType t \<longleftrightarrow> IsValueType t \<or> t = kTypeRangeDeletion"

definition kMaxSequenceNumber :: SequenceNumber where
  "kMaxSequenceNumber = push_bit 56 0x1 - 1"

definition kDisableGlobalSequenceNumber :: SequenceNumber where
  "kDisableGlobalSequenceNumber = - 1"

definition kNumInternalBytes :: nat where
  "kNumInternalBytes = 8"

datatype EntryType = kEntryPut | kEntryDelete | kEntrySingleDelete | kEntryMerge
  | kEntryRangeDeletion | kEntryBlobIndex | kEntryDeleteWithTimestamp | kEntryOther

definition GetEntryType :: "ValueType \<Rightarrow> EntryType" where
  "GetEntryType value_type =
     (if value_type = kTypeValue then kEntryPut
      else if value_type = kTypeDeletion then kEntryDelete
      else if value_type = kTypeDeletionWithTimestamp then kEntryDeleteWithTimestamp
      else if value_type = kTypeSingleDeletion then kEntrySingleDelete
      else if value_type = kTypeMerge then kEntryMerge
      else if value_type = kTypeRangeDeletion then kEntryRangeDeletion
      else if value_type = kTypeBlobIndex then kEntryBlobIndex
      else kEntryOther)"

section \<open>Parsed and encoded keys\<close>

record ParsedInternalKey =
  user_key :: bytes
  sequence :: SequenceNumber
  type :: ValueType

definition InternalKeyEncodingLength :: "ParsedInternalKey \<Rightarrow> nat" where
  "InternalKeyEncodingLength key = length (user_key key) + kNumInternalBytes"

definition PackSequenceAndType :: "u64 \<Rightarrow> ValueType \<Rightarrow> u64" where
  "PackSequenceAndType seq t = push_bit 8 seq OR ucast t"

definition UnPackSequenceAndType :: "u64 \<Rightarrow> u64 \<times> ValueType" where
  "UnPackSequenceAndType packed = (drop_bit 8 packed, ucast (packed AND 0xff))"

definition AppendInternalKey :: "bytes \<Rightarrow> ParsedInternalKey \<Rightarrow> bytes" where
  "AppendInternalKey result key =
     PutFixed64 (result @ user_key key) (PackSequenceAndType (sequence key) (type key))"

definition AppendInternalKeyWithDifferentTimestamp ::
    "bytes \<Rightarrow> ParsedInternalKey \<Rightarrow> bytes \<Rightarrow> bytes" where
  "AppendInternalKeyWithDifferentTimestamp result key ts =
     PutFixed64 (result @ take (length (user_key key) - length ts) (user_key key) @ ts)
       (PackSequenceAndType (sequence key) (type key))"

definition AppendInternalKeyFooter :: "bytes \<Rightarrow> SequenceNumber \<Rightarrow> ValueType \<Rightarrow> bytes" where
  "AppendInternalKeyFooter result s t = PutFixed64 result (PackSequenceAndType s t)"

text \<open>
  The extraction routines assert that the key has at least eight bytes; on shorter keys the
  model gives the empty user key and the zero footer, and the callers that can meet such keys
  check for them.
\<close>

definition ExtractUserKey :: "bytes \<Rightarrow> bytes" where
  "ExtractUserKey internal_key = take (length internal_key - kNumInternalBytes) internal_key"

definition ExtractUserKeyAndStripTimestamp :: "bytes \<Rightarrow> nat \<Rightarrow> bytes" where
  "ExtractUserKeyAndStripTimestamp internal_key ts_sz =
     take (length internal_key - kNumInternalBytes - ts_sz) internal_key"

definition StripTimestampFromUserKey :: "bytes \<Rightarrow> nat \<Rightarrow> bytes" where
  "StripTimestampFromUserKey ukey ts_sz = take (length ukey - ts_sz) ukey"

definition ExtractTimestampFromUserKey :: "bytes \<Rightarrow> nat \<Rightarrow> bytes" where
  "ExtractTimestampFromUserKey ukey ts_sz = drop (length ukey - ts_sz) ukey"

definition ExtractInternalKeyFooter :: "bytes \<Rightarrow> u64" where
  "ExtractInternalKeyFooter internal_key =
     (case DecodeFixed64 (drop (length internal_key - kNumInternalBytes) internal_key) of
        None \<Rightarrow> 0 | Some num \<Rightarrow> num)"

definition ExtractValueType :: "bytes \<Rightarrow> ValueType" where
  "ExtractValueType internal_key = ucast (ExtractInternalKeyFooter internal_key AND 0xff)"

definition GetInternalKeySeqno :: "bytes \<Rightarrow> u64" where
  "GetInternalKeySeqno internal_key = drop_bit 8 (ExtractInternalKeyFooter internal_key)"

datatype parse_error = KeyTooSmall nat | BadValueType ParsedInternalKey

definition ParseInternalKey :: "bytes \<Rightarrow> parse_error + ParsedInternalKey" where
  "ParseInternalKey internal_key =
     (let n = length internal_key in
      if n < kNumInternalBytes then Inl (KeyTooSmall n)
      else
        (let num = ExtractInternalKeyFooter internal_key;
             result = \<lparr>user_key = take (n - kNumInternalBytes) internal_key,
                       sequence = drop_bit 8 num, type = ucast (num AND 0xff)\<rparr>
         in if IsExtendedValueType (type result) then Inr result else Inl (BadValueType result)))"

definition ParseFullKey :: "bytes \<Rightarrow> (bytes \<times> SequenceNumber \<times> EntryType) option" where
  "ParseFullKey internal_key =
     (case ParseInternalKey internal_key of
        Inl _ \<Rightarrow> None
      | Inr ikey \<Rightarrow> Some (user_key ikey, sequence ikey, GetEntryType (type ikey)))"

definition UpdateInternalKey :: "bytes \<Rightarrow> u64 \<Rightarrow> ValueType \<Rightarrow> bytes" where
  "UpdateInternalKey ikey seq t =
     take (length ikey - kNumInternalBytes) ikey @ EncodeFixed64 (push_bit 8 seq OR ucast t)"

text \<open>The class \<open>InternalKey\<close> holds the encoded form.\<close>

definition InternalKey :: "bytes \<Rightarrow> SequenceNumber \<Rightarrow> ValueType \<Rightarrow> bytes" where
  "InternalKey u s t = AppendInternalKey [] \<lparr>user_key = u, sequence = s, type = t\<rparr>"

text \<open>The setters append to what the key holds, which is nothing for a key that is not valid yet.\<close>

definition SetMaxPossibleForUserKey :: "bytes \<Rightarrow> bytes \<Rightarrow> bytes" where
  "SetMaxPossibleForUserKey u rep = AppendInternalKey rep \<lparr>user_key = u, sequence = 0, type = 0\<rparr>"

definition SetMinPossibleForUserKey :: "bytes \<Rightarrow> bytes \<Rightarrow> bytes" where
  "SetMinPossibleForUserKey u rep =
     AppendInternalKey rep \<lparr>user_key = u, sequence = kMaxSequenceNumber, type = kValueTypeForSeek\<rparr>"

definition InternalKeyValid :: "bytes \<Rightarrow> bool" where
  "InternalKeyValid rep = (case ParseInternalKey rep of Inl _ \<Rightarrow> False | Inr _ \<Rightarrow> True)"

section \<open>The internal key comparator\<close>

text \<open>Comparing two encoded keys: user key ascending, then the packed footer descending.\<close>

definition InternalCompare :: "(bytes \<Rightarrow> bytes \<Rightarrow> int) \<Rightarrow> bytes \<Rightarrow> bytes \<Rightarrow> int" where
  "InternalCompare ucmp akey bkey =
     (let r = ucmp (ExtractUserKey akey) (ExtractUserKey bkey) in
      if r = 0 then
        (let anum = ExtractInternalKeyFooter akey; bnum = ExtractInternalKeyFooter bkey
         in if anum > bnum then -1 else if anum < bnum then 1 else r)
      else r)"

definition CompareKeySeq :: "(bytes \<Rightarrow> bytes \<Rightarrow> int) \<Rightarrow> bytes \<Rightarrow> bytes \<Rightarrow> int" where
  "CompareKeySeq ucmp akey bkey =
     (let r = ucmp (ExtractUserKey akey) (ExtractUserKey bkey) in
      if r = 0 then
        (let anum = drop_bit 8 (ExtractInternalKeyFooter akey);
             bnum = drop_bit 8 (ExtractInternalKeyFooter bkey)
         in if anum > bnum then -1 else if anum < bnum then 1 else r)
      else r)"

definition CompareParsed ::
    "(bytes \<Rightarrow> bytes \<Rightarrow> int) \<Rightarrow> ParsedInternalKey \<Rightarrow> ParsedInternalKey \<Rightarrow> int" where
  "CompareParsed ucmp a b =
     (let r = ucmp (user_key a) (user_key b) in
      if r = 0 then
        (if sequence a > sequence b then -1
         else if sequence a < sequence b then 1
         else if type a > type b then -1
         else if type a < type b then 1
         else r)
      else r)"

text \<open>The same with the sequence numbers of either side overridden by a file's global one.\<close>

definition CompareGlobalSeqno ::
    "(bytes \<Rightarrow> bytes \<Rightarrow> int) \<Rightarrow> bytes \<Rightarrow> SequenceNumber \<Rightarrow> bytes \<Rightarrow> SequenceNumber \<Rightarrow> int"
  where
  "CompareGlobalSeqno ucmp a a_global_seqno b b_global_seqno =
     (let r = ucmp (ExtractUserKey a) (ExtractUserKey b) in
      if r = 0 then
        (let a_footer = (if a_global_seqno = kDisableGlobalSequenceNumber
                         then ExtractInternalKeyFooter a
                         else PackSequenceAndType a_global_seqno (ExtractValueType a));
             b_footer = (if b_global_seqno = kDisableGlobalSequenceNumber
                         then ExtractInternalKeyFooter b
                         else PackSequenceAndType b_global_seqno (ExtractValueType b))
         in if a_footer > b_footer then -1 else if a_footer < b_footer then 1 else r)
      else r)"

definition InternalFindShortestSeparator ::
    "(bytes \<Rightarrow> bytes \<Rightarrow> int) \<Rightarrow> (bytes \<Rightarrow> bytes \<Rightarrow> bytes) \<Rightarrow> bytes \<Rightarrow> bytes \<Rightarrow> bytes" where
  "InternalFindShortestSeparator ucmp sep start limit =
     (let user_start = ExtractUserKey start; user_limit = ExtractUserKey limit;
          tmp = sep user_start user_limit
      in if length tmp \<le> length user_start \<and> ucmp user_start tmp < 0 then
           PutFixed64 tmp (PackSequenceAndType kMaxSequenceNumber kValueTypeForSeek)
         else start)"

definition InternalFindShortSuccessor ::
    "(bytes \<Rightarrow> bytes \<Rightarrow> int) \<Rightarrow> (bytes \<Rightarrow> bytes) \<Rightarrow> bytes \<Rightarrow> bytes" where
  "InternalFindShortSuccessor ucmp succ key =
     (let ukey = ExtractUserKey key; tmp = succ ukey
      in if length tmp \<le> length ukey \<and> ucmp ukey tmp < 0 then
           PutFixed64 tmp (PackSequenceAndType kMaxSequenceNumber kValueTypeForSeek)
         else key)"

section \<open>Lookup keys and iterator keys\<close>

text \<open>
  A \<open>LookupKey\<close> stores the length prefix, the user key with an optional timestamp, and the
  footer; \<open>kstart\<close> is where the internal key begins.
\<close>

record LookupKey =
  lk_space :: bytes
  lk_kstart :: nat

definition MakeLookupKey :: "bytes \<Rightarrow> SequenceNumber \<Rightarrow> bytes option \<Rightarrow> LookupKey" where
  "MakeLookupKey ukey s ts =
     (let usize = length ukey;
          ts_sz = (case ts of None \<Rightarrow> 0 | Some t \<Rightarrow> length t);
          prefix = EncodeVarint32 (word_of_nat (usize + ts_sz + 8))
      in \<lparr>lk_space = prefix @ ukey @ (case ts of None \<Rightarrow> [] | Some t \<Rightarrow> t) @
                       EncodeFixed64 (PackSequenceAndType s kValueTypeForSeek),
          lk_kstart = length prefix\<rparr>)"

definition LookupMemtableKey :: "LookupKey \<Rightarrow> bytes" where
  "LookupMemtableKey k = lk_space k"

definition LookupInternalKey :: "LookupKey \<Rightarrow> bytes" where
  "LookupInternalKey k = drop (lk_kstart k) (lk_space k)"

definition LookupUserKey :: "LookupKey \<Rightarrow> bytes" where
  "LookupUserKey k = (let ik = drop (lk_kstart k) (lk_space k) in take (length ik - 8) ik)"

text \<open>
  An \<open>IterKey\<close>: its bytes, whether they lie in a foreign buffer, and whether they are a bare
  user key. What its buffer holds behind the key is left open, so keeping more shared bytes
  than the key has is undefined.
\<close>

record IterKey =
  ik_key :: bytes
  ik_pinned :: bool
  ik_is_user_key :: bool

definition NewIterKey :: IterKey where
  "NewIterKey = \<lparr>ik_key = [], ik_pinned = False, ik_is_user_key = True\<rparr>"

definition SetIsUserKey :: "IterKey \<Rightarrow> bool \<Rightarrow> IterKey" where
  "SetIsUserKey k is_user_key = k\<lparr>ik_is_user_key := is_user_key\<rparr>"

definition IterGetUserKey :: "IterKey \<Rightarrow> bytes" where
  "IterGetUserKey k =
     (if ik_is_user_key k then ik_key k
      else take (length (ik_key k) - kNumInternalBytes) (ik_key k))"

definition SetKeyImpl :: "IterKey \<Rightarrow> bytes \<Rightarrow> bool \<Rightarrow> IterKey" where
  "SetKeyImpl k key copy = k\<lparr>ik_key := key, ik_pinned := \<not> copy\<rparr>"

definition SetUserKey :: "IterKey \<Rightarrow> bytes \<Rightarrow> bool \<Rightarrow> IterKey" where
  "SetUserKey k key copy = SetKeyImpl (k\<lparr>ik_is_user_key := True\<rparr>) key copy"

definition SetInternalKey :: "IterKey \<Rightarrow> bytes \<Rightarrow> bool \<Rightarrow> IterKey" where
  "SetInternalKey k key copy = SetKeyImpl (k\<lparr>ik_is_user_key := False\<rparr>) key copy"

definition TrimAppend :: "IterKey \<Rightarrow> nat \<Rightarrow> bytes \<Rightarrow> IterKey outcome" where
  "TrimAppend k shared_len non_shared_data =
     (if shared_len \<le> length (ik_key k) then
        Ok (k\<lparr>ik_key := take shared_len (ik_key k) @ non_shared_data, ik_pinned := False\<rparr>)
      else Undef)"

definition SetInternalKeyParts ::
    "IterKey \<Rightarrow> bytes \<Rightarrow> bytes \<Rightarrow> SequenceNumber \<Rightarrow> ValueType \<Rightarrow> bytes option \<Rightarrow> IterKey" where
  "SetInternalKeyParts k key_prefix ukey s value_type ts =
     k\<lparr>ik_key := key_prefix @ ukey @ (case ts of None \<Rightarrow> [] | Some t \<Rightarrow> t) @
                  EncodeFixed64 (PackSequenceAndType s value_type),
       ik_pinned := False, ik_is_user_key := False\<rparr>"

definition IterUpdateInternalKey ::
    "IterKey \<Rightarrow> u64 \<Rightarrow> ValueType \<Rightarrow> bytes option \<Rightarrow> IterKey" where
  "IterUpdateInternalKey k seq t ts =
     (let ts_sz = (case ts of None \<Rightarrow> 0 | Some x \<Rightarrow> length x);
          stem = take (length (ik_key k) - kNumInternalBytes - ts_sz) (ik_key k)
      in k\<lparr>ik_key := stem @ (case ts of None \<Rightarrow> [] | Some x \<Rightarrow> x) @
                       EncodeFixed64 (push_bit 8 seq OR ucast t)\<rparr>)"

section \<open>Packing\<close>

lemma unat_kMaxSequenceNumber: "unat kMaxSequenceNumber = 2 ^ 56 - 1"
  by (simp add: kMaxSequenceNumber_def)

lemma seq_less: "s \<le> kMaxSequenceNumber \<Longrightarrow> unat s < 2 ^ 56"
  unfolding word_le_nat_alt unat_kMaxSequenceNumber by simp

lemma unat_PackSequenceAndType:
  assumes "s \<le> kMaxSequenceNumber"
  shows "unat (PackSequenceAndType s t) = 256 * unat s + unat t"
proof -
  have t: "unat (ucast t :: u64) = unat t" by (simp add: unat_ucast_up)
  have "push_bit 8 s OR (ucast t :: u64) = push_bit 8 s + ucast t"
    by (rule disjunctive_add [symmetric]) (auto simp: bit_simps dest: bit_imp_le_length)
  moreover have "push_bit 8 s = 256 * s" by (simp add: push_bit_eq_mult)
  ultimately have "unat (PackSequenceAndType s t) = unat (256 * s + ucast t)"
    by (simp add: PackSequenceAndType_def)
  also have "\<dots> = 256 * unat s + unat t"
    using seq_less [OF assms] unat_less_2p [of t] t by (simp add: unat_word_ariths)
  finally show ?thesis .
qed

lemma Pack_drop_bit: "s \<le> kMaxSequenceNumber \<Longrightarrow> drop_bit 8 (PackSequenceAndType s t) = s"
  using unat_less_2p [of t]
  by (simp add: word_unat_eq_iff unat_drop_bit_div unat_PackSequenceAndType)

lemma Pack_low_byte: "ucast (PackSequenceAndType s t AND 0xff) = t"
  unfolding ucast_and_0xff PackSequenceAndType_def
  by (rule bit_word_eqI) (auto simp: bit_simps)

lemma UnPack_Pack:
  "s \<le> kMaxSequenceNumber \<Longrightarrow> UnPackSequenceAndType (PackSequenceAndType s t) = (s, t)"
  using Pack_low_byte [of s t] by (simp add: UnPackSequenceAndType_def Pack_drop_bit)

lemma Pack_less:
  assumes "s \<le> kMaxSequenceNumber" and "s' \<le> kMaxSequenceNumber"
  shows "PackSequenceAndType s t < PackSequenceAndType s' t' \<longleftrightarrow> s < s' \<or> s = s' \<and> t < t'"
proof -
  have "256 * unat s + unat t < 256 * unat s' + unat t' \<longleftrightarrow>
      unat s < unat s' \<or> unat s = unat s' \<and> unat t < unat t'"
    using unat_less_2p [of t] unat_less_2p [of t'] by auto
  then show ?thesis using assms
    by (simp add: word_less_nat_alt unat_PackSequenceAndType word_unat_eq_iff)
qed

section \<open>Encoding and parsing\<close>

lemma AppendInternalKey_eq:
  "AppendInternalKey r k =
     r @ user_key k @ EncodeFixed64 (PackSequenceAndType (sequence k) (type k))"
  by (simp add: AppendInternalKey_def PutFixed64_def)

lemma ExtractUserKey_footer [simp]: "ExtractUserKey (u @ EncodeFixed64 n) = u"
  by (simp add: ExtractUserKey_def kNumInternalBytes_def)

lemma ExtractInternalKeyFooter_footer [simp]: "ExtractInternalKeyFooter (u @ EncodeFixed64 n) = n"
  using DecodeFixed64_Encode [of n "[]"]
  by (simp add: ExtractInternalKeyFooter_def kNumInternalBytes_def)

lemma ParseInternalKey_Append:
  assumes "sequence k \<le> kMaxSequenceNumber" and "IsExtendedValueType (type k)"
  shows "ParseInternalKey (AppendInternalKey [] k) = Inr k"
  using assms Pack_low_byte [of "sequence k" "type k"]
  by (simp add: ParseInternalKey_def Let_def AppendInternalKey_eq Pack_drop_bit kNumInternalBytes_def)

lemma InternalKey_length [simp]:
  "length (AppendInternalKey r k) = length r + length (user_key k) + 8"
  by (simp add: AppendInternalKey_eq)

lemma ParseInternalKey_Inr:
  assumes "ParseInternalKey ikey = Inr k"
  shows "8 \<le> length ikey" and "user_key k = ExtractUserKey ikey"
    and "sequence k = GetInternalKeySeqno ikey" and "type k = ExtractValueType ikey"
    and "IsExtendedValueType (type k)"
  using assms
  by (auto simp: ParseInternalKey_def Let_def kNumInternalBytes_def ExtractUserKey_def
      GetInternalKeySeqno_def ExtractValueType_def split: if_splits)

section \<open>The order on internal keys\<close>

lemma InternalCompare_Append:
  assumes "sequence a \<le> kMaxSequenceNumber" and "sequence b \<le> kMaxSequenceNumber"
  shows "InternalCompare ucmp (AppendInternalKey [] a) (AppendInternalKey [] b) =
    CompareParsed ucmp a b"
  using assms by (auto simp: InternalCompare_def CompareParsed_def Let_def AppendInternalKey_eq Pack_less)

lemma CompareGlobalSeqno_disabled:
  "CompareGlobalSeqno ucmp a kDisableGlobalSequenceNumber b kDisableGlobalSequenceNumber =
   InternalCompare ucmp a b"
  by (simp add: CompareGlobalSeqno_def InternalCompare_def)

context comparator
begin

lemma lex_descending:
  "comparator (\<lambda>x y. let r = cmp (f x) (f y) in
     if r = 0 then (if (g x :: u64) > g y then -1 else if g x < g y then 1 else r) else r)"
proof unfold_locales
  fix a b c
  let ?c = "\<lambda>x y. let r = cmp (f x) (f y) in
     if r = 0 then (if (g x :: u64) > g y then -1 else if g x < g y then 1 else r) else r"
  show "?c a a = 0" by (simp add: refl)
  show "?c a b < 0 \<longleftrightarrow> 0 < ?c b a"
    using antisym [of "f a" "f b"] antisym [of "f b" "f a"] zero_sym [of "f a" "f b"]
    by (auto simp: Let_def)
  assume ab: "?c a b \<le> 0" and bc: "?c b c \<le> 0"
  then have le: "cmp (f a) (f b) \<le> 0" "cmp (f b) (f c) \<le> 0"
    by (auto simp: Let_def split: if_splits)
  show "?c a c \<le> 0"
  proof (cases "cmp (f a) (f b) = 0 \<and> cmp (f b) (f c) = 0")
    case True
    then have "cmp (f a) (f c) = 0" using eq_trans by blast
    then show ?thesis using True ab bc by (auto simp: Let_def split: if_splits)
  next
    case False
    then have "cmp (f a) (f c) < 0"
      using le le_less_trans [of "f a" "f b" "f c"] less_le_trans [of "f a" "f b" "f c"] by linarith
    then show ?thesis by simp
  qed
qed

end

context user_comparator
begin

lemma internal_comparator: "comparator (InternalCompare cmp)"
proof -
  have "InternalCompare cmp = (\<lambda>x y. let r = cmp (ExtractUserKey x) (ExtractUserKey y) in
      if r = 0 then
        (if ExtractInternalKeyFooter x > ExtractInternalKeyFooter y then -1
         else if ExtractInternalKeyFooter x < ExtractInternalKeyFooter y then 1 else r)
      else r)"
    by (intro ext) (simp add: InternalCompare_def Let_def)
  then show ?thesis
    using lex_descending [of ExtractUserKey ExtractInternalKeyFooter] by simp
qed

text \<open>The shortened keys stay between the two keys they separate: what the code asserts.\<close>

lemma separator_bounds:
  assumes "InternalCompare cmp start limit < 0"
  shows "InternalCompare cmp start (InternalFindShortestSeparator cmp sep start limit) \<le> 0"
    and "InternalCompare cmp (InternalFindShortestSeparator cmp sep start limit) limit < 0"
proof -
  let ?s = "ExtractUserKey start" and ?l = "ExtractUserKey limit"
  let ?t = "sep ?s ?l" and ?k = "InternalFindShortestSeparator cmp sep start limit"
  have i: "InternalCompare cmp start ?k \<le> 0 \<and> InternalCompare cmp ?k limit < 0"
  proof (cases "length ?t \<le> length ?s \<and> cmp ?s ?t < 0")
    case False
    then have "?k = start" by (auto simp: InternalFindShortestSeparator_def Let_def)
    then show ?thesis using assms by (simp add: InternalCompare_def refl)
  next
    case True
    then have k: "?k = ?t @ EncodeFixed64 (PackSequenceAndType kMaxSequenceNumber kValueTypeForSeek)"
      by (simp add: InternalFindShortestSeparator_def Let_def PutFixed64_def)
    have "cmp ?s ?l < 0"
      using assms True sep_eq [of ?s ?l] by (auto simp: InternalCompare_def Let_def split: if_splits)
    then have "cmp ?t ?l < 0" by (rule sep_less)
    then show ?thesis using True by (simp add: k InternalCompare_def)
  qed
  then show "InternalCompare cmp start ?k \<le> 0" and "InternalCompare cmp ?k limit < 0" by auto
qed

lemma successor_ge: "InternalCompare cmp key (InternalFindShortSuccessor cmp succ key) \<le> 0"
proof (cases "length (succ (ExtractUserKey key)) \<le> length (ExtractUserKey key) \<and>
    cmp (ExtractUserKey key) (succ (ExtractUserKey key)) < 0")
  case True
  then show ?thesis
    by (simp add: InternalFindShortSuccessor_def InternalCompare_def Let_def PutFixed64_def)
next
  case False
  then have "InternalFindShortSuccessor cmp succ key = key"
    by (auto simp: InternalFindShortSuccessor_def Let_def)
  then show ?thesis by (simp add: InternalCompare_def refl)
qed

end

interpretation ibytewise: comparator "InternalCompare BytewiseCompare"
  by (rule bytewise.internal_comparator)

section \<open>Lookup keys\<close>

lemma LookupKey_parts:
  "LookupInternalKey (MakeLookupKey u s ts) =
     AppendInternalKey [] \<lparr>user_key = u @ (case ts of None \<Rightarrow> [] | Some t \<Rightarrow> t),
       sequence = s, type = kValueTypeForSeek\<rparr>"
  "LookupUserKey (MakeLookupKey u s ts) = u @ (case ts of None \<Rightarrow> [] | Some t \<Rightarrow> t)"
  by (simp_all add: LookupInternalKey_def LookupUserKey_def MakeLookupKey_def Let_def
      AppendInternalKey_eq)

lemma LookupMemtableKey_eq:
  "LookupMemtableKey (MakeLookupKey u s ts) =
     PutLengthPrefixedSlice [] (LookupInternalKey (MakeLookupKey u s ts))"
  by (cases ts) (simp_all add: LookupMemtableKey_def LookupInternalKey_def MakeLookupKey_def Let_def
      PutLengthPrefixedSlice_def PutVarint32_def add.assoc)

end
