(* ===== verification/Filenames.thy ===== *)
theory Filenames
  imports Prelude
begin

text \<open>
  The names of the files of a database (\<open>file/filename.cc\<close>, \<open>ConsumeDecimalNumber\<close> of
  \<open>util/string_util.cc\<close>). The file number inside a table's name is what selects the key that
  encrypts the table, so printing a number and reading it back must agree. File names are
  character lists here; \<open>find_last_of\<close> is assumed to stay below \<open>2 ^ 31\<close>, the range of the
  \<open>int\<close> the code keeps it in.
\<close>

section \<open>Decimal numbers\<close>

definition digit_char :: "nat \<Rightarrow> char" where
  "digit_char d = char_of (48 + d)"

definition is_digit :: "char \<Rightarrow> bool" where
  "is_digit c = (let v = (of_char c :: nat) in 48 \<le> v \<and> v \<le> 57)"

definition digit_val :: "char \<Rightarrow> nat" where
  "digit_val c = of_char c - 48"

text \<open>What \<open>%llu\<close> and \<open>%06llu\<close> print.\<close>

function decimal :: "nat \<Rightarrow> string" where
  "decimal n = (if n < 10 then [digit_char n] else decimal (n div 10) @ [digit_char (n mod 10)])"
  by pat_completeness auto
termination by (relation "measure id") auto

declare decimal.simps [simp del]

definition decimal06 :: "nat \<Rightarrow> string" where
  "decimal06 n = (let s = decimal n in replicate (6 - length s) CHR ''0'' @ s)"

fun ConsumeDecimalLoop :: "string \<Rightarrow> u64 \<Rightarrow> nat \<Rightarrow> (u64 \<times> nat) option \<times> string" where
  "ConsumeDecimalLoop [] v digits = (Some (v, digits), [])"
| "ConsumeDecimalLoop (c # rest) v digits =
     (if is_digit c then
        (let delta = word_of_nat (digit_val c) in
         if v > (- 1) div 10 \<or> (v = (- 1) div 10 \<and> delta > (- 1) mod 10) then (None, c # rest)
         else ConsumeDecimalLoop rest (v * 10 + delta) (digits + 1))
      else (Some (v, digits), c # rest))"

definition ConsumeDecimalNumber :: "string \<Rightarrow> u64 option \<times> string" where
  "ConsumeDecimalNumber input =
     (case ConsumeDecimalLoop input 0 0 of
        (None, rest) \<Rightarrow> (None, rest)
      | (Some (v, digits), rest) \<Rightarrow> (if digits > 0 then Some v else None, rest))"

section \<open>Building names\<close>

definition MakeFileNameBare :: "u64 \<Rightarrow> string \<Rightarrow> string" where
  "MakeFileNameBare number suffix = decimal06 (unat number) @ ''.'' @ suffix"

definition MakeFileName :: "string \<Rightarrow> u64 \<Rightarrow> string \<Rightarrow> string" where
  "MakeFileName name number suffix = name @ ''/'' @ MakeFileNameBare number suffix"

definition kRocksDbTFileExt :: string where "kRocksDbTFileExt = ''sst''"
definition kLevelDbTFileExt :: string where "kLevelDbTFileExt = ''ldb''"
definition kRocksDBBlobFileExt :: string where "kRocksDBBlobFileExt = ''blob''"
definition kTempFileNameSuffix :: string where "kTempFileNameSuffix = ''dbtmp''"
definition kOptionsFileNamePrefix :: string where "kOptionsFileNamePrefix = ''OPTIONS-''"
definition ARCHIVAL_DIR :: string where "ARCHIVAL_DIR = ''archive''"

lemmas ext_defs = kRocksDbTFileExt_def kLevelDbTFileExt_def kRocksDBBlobFileExt_def
  kTempFileNameSuffix_def kOptionsFileNamePrefix_def ARCHIVAL_DIR_def

definition LogFileName :: "string \<Rightarrow> u64 \<Rightarrow> string" where
  "LogFileName name number = MakeFileName name number ''log''"

definition LogFileNameBare :: "u64 \<Rightarrow> string" where
  "LogFileNameBare number = MakeFileNameBare number ''log''"

definition BlobFileNameBare :: "u64 \<Rightarrow> string" where
  "BlobFileNameBare number = MakeFileNameBare number kRocksDBBlobFileExt"

definition BlobFileName :: "string \<Rightarrow> u64 \<Rightarrow> string" where
  "BlobFileName blobdirname number = MakeFileName blobdirname number kRocksDBBlobFileExt"

definition BlobFileNameIn :: "string \<Rightarrow> string \<Rightarrow> u64 \<Rightarrow> string" where
  "BlobFileNameIn dbname blob_dir number =
     MakeFileName (dbname @ ''/'' @ blob_dir) number kRocksDBBlobFileExt"

definition ArchivalDirectory :: "string \<Rightarrow> string" where
  "ArchivalDirectory dir = dir @ ''/'' @ ARCHIVAL_DIR"

definition ArchivedLogFileName :: "string \<Rightarrow> u64 \<Rightarrow> string" where
  "ArchivedLogFileName name number = MakeFileName (name @ ''/'' @ ARCHIVAL_DIR) number ''log''"

definition MakeTableFileName :: "string \<Rightarrow> u64 \<Rightarrow> string" where
  "MakeTableFileName path number = MakeFileName path number kRocksDbTFileExt"

definition MakeTableFileNameBare :: "u64 \<Rightarrow> string" where
  "MakeTableFileNameBare number = MakeFileNameBare number kRocksDbTFileExt"

definition Rocks2LevelTableFileName :: "string \<Rightarrow> string" where
  "Rocks2LevelTableFileName fullname =
     (if length fullname \<le> length kRocksDbTFileExt + 1 then []
      else take (length fullname - length kRocksDbTFileExt) fullname @ kLevelDbTFileExt)"

text \<open>\<open>back()\<close> of an empty vector of paths is undefined.\<close>

definition TableFileName :: "string list \<Rightarrow> u64 \<Rightarrow> u32 \<Rightarrow> string outcome" where
  "TableFileName db_paths number path_id =
     (if unat path_id \<ge> length db_paths then
        (if db_paths = [] then Undef else Ok (MakeTableFileName (last db_paths) number))
      else Ok (MakeTableFileName (db_paths ! unat path_id) number))"

text \<open>\<open>snprintf\<close> keeps what fits in the buffer with its terminator.\<close>

definition FormatFileNumber :: "u64 \<Rightarrow> u32 \<Rightarrow> nat \<Rightarrow> string" where
  "FormatFileNumber number path_id out_buf_size =
     take (out_buf_size - 1)
       (if path_id = 0 then decimal (unat number)
        else decimal (unat number) @ ''(path '' @ decimal (unat path_id) @ '')'')"

definition DescriptorFileName :: "string \<Rightarrow> u64 \<Rightarrow> string" where
  "DescriptorFileName dbname number = dbname @ ''/MANIFEST-'' @ decimal06 (unat number)"

definition CurrentFileName :: "string \<Rightarrow> string" where
  "CurrentFileName dbname = dbname @ ''/CURRENT''"

definition LockFileName :: "string \<Rightarrow> string" where
  "LockFileName dbname = dbname @ ''/LOCK''"

definition TempFileName :: "string \<Rightarrow> u64 \<Rightarrow> string" where
  "TempFileName dbname number = MakeFileName dbname number kTempFileNameSuffix"

definition OptionsFileName :: "string \<Rightarrow> u64 \<Rightarrow> string" where
  "OptionsFileName dbname file_num =
     dbname @ ''/'' @ kOptionsFileNamePrefix @ decimal06 (unat file_num)"

definition TempOptionsFileName :: "string \<Rightarrow> u64 \<Rightarrow> string" where
  "TempOptionsFileName dbname file_num =
     dbname @ ''/'' @ kOptionsFileNamePrefix @ decimal06 (unat file_num) @ ''.'' @
     kTempFileNameSuffix"

definition MetaDatabaseName :: "string \<Rightarrow> u64 \<Rightarrow> string" where
  "MetaDatabaseName dbname number = dbname @ ''/METADB-'' @ decimal (unat number)"

definition IdentityFileName :: "string \<Rightarrow> string" where
  "IdentityFileName dbname = dbname @ ''/IDENTITY''"

section \<open>Info logs\<close>

definition info_log_char :: "char \<Rightarrow> bool" where
  "info_log_char c =
     (let v = (of_char c :: nat)
      in 97 \<le> v \<and> v \<le> 122 \<or> is_digit c \<or> 65 \<le> v \<and> v \<le> 90 \<or>
         c = CHR ''-'' \<or> c = CHR ''.'' \<or> c = CHR ''_'')"

text \<open>The flattening loop: stop when the destination has no room left before the suffix.\<close>

fun GetInfoLogPrefixLoop :: "string \<Rightarrow> nat \<Rightarrow> nat \<Rightarrow> string" where
  "GetInfoLogPrefixLoop [] i room = []"
| "GetInfoLogPrefixLoop (c # path) i room =
     (if room = 0 then []
      else if info_log_char c then c # GetInfoLogPrefixLoop path (i + 1) (room - 1)
      else if i > 0 then CHR ''_'' # GetInfoLogPrefixLoop path (i + 1) (room - 1)
      else GetInfoLogPrefixLoop path (i + 1) room)"

definition GetInfoLogPrefix :: "string \<Rightarrow> nat \<Rightarrow> string" where
  "GetInfoLogPrefix path len = GetInfoLogPrefixLoop path 0 (len - 5) @ ''_LOG''"

fun NormalizePathLoop :: "string \<Rightarrow> string \<Rightarrow> string" where
  "NormalizePathLoop [] dst = dst"
| "NormalizePathLoop (c # path) dst =
     (if dst \<noteq> [] \<and> c = CHR ''/'' \<and> last dst = CHR ''/'' then NormalizePathLoop path dst
      else NormalizePathLoop path (dst @ [c]))"

definition NormalizePath :: "string \<Rightarrow> string" where
  "NormalizePath path = NormalizePathLoop path []"

definition InfoLogPrefix :: "bool \<Rightarrow> string \<Rightarrow> string" where
  "InfoLogPrefix has_log_dir db_absolute_path =
     (if \<not> has_log_dir then ''LOG'' else GetInfoLogPrefix (NormalizePath db_absolute_path) 260)"

definition InfoLogFileName :: "string \<Rightarrow> string \<Rightarrow> string \<Rightarrow> string" where
  "InfoLogFileName dbname db_path log_dir =
     (if log_dir = [] then dbname @ ''/LOG'' else log_dir @ ''/'' @ InfoLogPrefix True db_path)"

definition OldInfoLogFileName :: "string \<Rightarrow> u64 \<Rightarrow> string \<Rightarrow> string \<Rightarrow> string" where
  "OldInfoLogFileName dbname ts db_path log_dir =
     (if log_dir = [] then dbname @ ''/LOG.old.'' @ decimal (unat ts)
      else log_dir @ ''/'' @ InfoLogPrefix True db_path @ ''.old.'' @ decimal (unat ts))"

section \<open>Reading names\<close>

text \<open>The number of a table: the digits that end right before the last dot, last digit first.\<close>

fun TableNumberLoop :: "string \<Rightarrow> u64 \<Rightarrow> u64 \<Rightarrow> u64" where
  "TableNumberLoop [] number base = number"
| "TableNumberLoop (c # cs) number base =
     (if is_digit c then TableNumberLoop cs (number + word_of_nat (digit_val c) * base) (base * 10)
      else number)"

definition TableFileNameToNumber :: "string \<Rightarrow> u64" where
  "TableFileNameToNumber name =
     (case dropWhile (\<lambda>c. c \<noteq> CHR ''.'') (rev name) of
        [] \<Rightarrow> 0
      | _ # before_dot \<Rightarrow> TableNumberLoop before_dot 0 1)"

datatype FileType = kWalFile | kDBLockFile | kTableFile | kDescriptorFile | kCurrentFile | kTempFile
  | kInfoLogFile | kMetaDatabase | kIdentityFile | kOptionsFile | kBlobFile

datatype WalFileType = kArchivedLogFile | kAliveLogFile

text \<open>
  The variables that \<open>ParseFileName\<close> writes through its pointers: it does not write all of them
  on every path, so what they held before is part of the model. \<open>out_log_type\<close> is \<open>None\<close> for a
  null pointer.
\<close>

record parse_out =
  out_number :: u64
  out_type :: FileType
  out_log_type :: "WalFileType option"

definition set_log_type :: "WalFileType \<Rightarrow> parse_out \<Rightarrow> parse_out" where
  "set_log_type t out = out\<lparr>out_log_type := map_option (\<lambda>_. t) (out_log_type out)\<rparr>"

definition string_starts_with :: "string \<Rightarrow> string \<Rightarrow> bool" where
  "string_starts_with s p \<longleftrightarrow> take (length p) s = p"

definition string_ends_with :: "string \<Rightarrow> string \<Rightarrow> bool" where
  "string_ends_with s p \<longleftrightarrow> length p \<le> length s \<and> drop (length s - length p) s = p"

text \<open>The branches of \<open>ParseFileName\<close> for the names that carry a number.\<close>

definition ParseWholeNumber :: "string \<Rightarrow> FileType \<Rightarrow> parse_out \<Rightarrow> bool \<times> parse_out" where
  "ParseWholeNumber rest t out =
     (case ConsumeDecimalNumber rest of
        (None, _) \<Rightarrow> (False, out)
      | (Some num, rest') \<Rightarrow>
          if rest' \<noteq> [] then (False, out) else (True, out\<lparr>out_type := t, out_number := num\<rparr>))"

definition ParseInfoLog :: "string \<Rightarrow> parse_out \<Rightarrow> bool \<times> parse_out" where
  "ParseInfoLog rest out =
     (if rest = [] \<or> rest = ''.old'' then (True, out\<lparr>out_number := 0, out_type := kInfoLogFile\<rparr>)
      else if string_starts_with rest ''.old.'' then
        (case ConsumeDecimalNumber (drop 5 rest) of
           (None, _) \<Rightarrow> (False, out)
         | (Some ts, _) \<Rightarrow> (True, out\<lparr>out_number := ts, out_type := kInfoLogFile\<rparr>))
      else (True, out))"

definition ParseOptions :: "string \<Rightarrow> parse_out \<Rightarrow> bool \<times> parse_out" where
  "ParseOptions rest out =
     (let is_temp_file = string_ends_with rest (''.'' @ kTempFileNameSuffix);
          rest = (if is_temp_file then take (length rest - 6) rest else rest)
      in case ConsumeDecimalNumber rest of
           (None, _) \<Rightarrow> (False, out)
         | (Some ts, _) \<Rightarrow>
             (True, out\<lparr>out_number := ts, out_type := (if is_temp_file then kTempFile else kOptionsFile)\<rparr>))"

definition ParseNumbered :: "string \<Rightarrow> bool \<Rightarrow> parse_out \<Rightarrow> bool \<times> parse_out" where
  "ParseNumbered rest archive_dir_found out =
     (case ConsumeDecimalNumber rest of
        (None, _) \<Rightarrow> (False, out)
      | (Some num, rest') \<Rightarrow>
          (if length rest' \<le> 1 \<or> hd rest' \<noteq> CHR ''.'' then (False, out)
           else
             (let suffix = tl rest' in
              if suffix = ''log'' then
                (True, (if archive_dir_found then id else set_log_type kAliveLogFile)
                         (out\<lparr>out_type := kWalFile, out_number := num\<rparr>))
              else if archive_dir_found then (False, out)
              else if suffix = kRocksDbTFileExt \<or> suffix = kLevelDbTFileExt then
                (True, out\<lparr>out_type := kTableFile, out_number := num\<rparr>)
              else if suffix = kRocksDBBlobFileExt then
                (True, out\<lparr>out_type := kBlobFile, out_number := num\<rparr>)
              else if suffix = kTempFileNameSuffix then
                (True, out\<lparr>out_type := kTempFile, out_number := num\<rparr>)
              else (False, out))))"

definition ParseFileName :: "string \<Rightarrow> string \<Rightarrow> parse_out \<Rightarrow> bool \<times> parse_out" where
  "ParseFileName fname info_log_name_prefix out =
     (let rest = (if length fname > 1 \<and> hd fname = CHR ''/'' then tl fname else fname) in
      if rest = ''IDENTITY'' then (True, out\<lparr>out_number := 0, out_type := kIdentityFile\<rparr>)
      else if rest = ''CURRENT'' then (True, out\<lparr>out_number := 0, out_type := kCurrentFile\<rparr>)
      else if rest = ''LOCK'' then (True, out\<lparr>out_number := 0, out_type := kDBLockFile\<rparr>)
      else if info_log_name_prefix \<noteq> [] \<and> string_starts_with rest info_log_name_prefix then
        ParseInfoLog (drop (length info_log_name_prefix) rest) out
      else if string_starts_with rest ''MANIFEST-'' then
        ParseWholeNumber (drop 9 rest) kDescriptorFile out
      else if string_starts_with rest ''METADB-'' then
        ParseWholeNumber (drop 7 rest) kMetaDatabase out
      else if string_starts_with rest kOptionsFileNamePrefix then
        ParseOptions (drop (length kOptionsFileNamePrefix) rest) out
      else if string_starts_with rest ARCHIVAL_DIR then
        (if length rest \<le> length ARCHIVAL_DIR then (False, out)
         else ParseNumbered (drop (length ARCHIVAL_DIR + 1) rest) True
                (set_log_type kArchivedLogFile out))
      else ParseNumbered rest False out)"

text \<open>Collecting the info logs of a directory: \<open>number\<close> and \<open>type\<close> live across the files.\<close>

fun GetInfoLogFilesLoop :: "string list \<Rightarrow> string \<Rightarrow> parse_out \<Rightarrow> string list" where
  "GetInfoLogFilesLoop [] prefix out = []"
| "GetInfoLogFilesLoop (f # fs) prefix out =
     (case ParseFileName f prefix out of
        (ok, out') \<Rightarrow>
          (if ok \<and> out_type out' = kInfoLogFile then [f] else []) @ GetInfoLogFilesLoop fs prefix out')"

definition GetInfoLogFiles :: "string \<Rightarrow> string \<Rightarrow> (string \<Rightarrow> string list option) \<Rightarrow>
    (string \<times> string list) option" where
  "GetInfoLogFiles db_log_dir dbname get_children =
     (let parent_dir = (if db_log_dir \<noteq> [] then db_log_dir else dbname);
          prefix = InfoLogPrefix (db_log_dir \<noteq> []) dbname
      in map_option
           (\<lambda>file_names. (parent_dir, GetInfoLogFilesLoop file_names prefix
              \<lparr>out_number = 0, out_type = kWalFile, out_log_type = None\<rparr>))
           (get_children parent_dir))"

section \<open>Numbers read back\<close>

definition digits_val :: "nat \<Rightarrow> string \<Rightarrow> nat" where
  "digits_val a ds = foldl (\<lambda>v c. v * 10 + digit_val c) a ds"

lemma digits_val_simps [simp]:
  "digits_val a [] = a"
  "digits_val a (c # ds) = digits_val (a * 10 + digit_val c) ds"
  "digits_val a (ds @ es) = digits_val (digits_val a ds) es"
  by (simp_all add: digits_val_def)

lemma digits_val_ge: "a \<le> digits_val a ds"
proof (induction ds arbitrary: a)
  case (Cons c ds)
  have "a \<le> a * 10 + digit_val c" by simp
  also have "\<dots> \<le> digits_val (a * 10 + digit_val c) ds" by (rule Cons.IH)
  finally show ?case by simp
qed simp

lemma digit_char [simp]:
  assumes "d < 10"
  shows "is_digit (digit_char d)" and "digit_val (digit_char d) = d"
  using assms by (simp_all add: is_digit_def digit_val_def digit_char_def Let_def)

lemma digit_val_less: "is_digit c \<Longrightarrow> digit_val c < 10"
  by (auto simp: is_digit_def digit_val_def Let_def)

lemma digit_0 [simp]: "is_digit CHR ''0''" "digit_val CHR ''0'' = 0"
  by (simp_all add: is_digit_def digit_val_def Let_def)

lemma not_digit [simp]: "\<not> is_digit CHR ''.''" "\<not> is_digit CHR ''/''"
  by (simp_all add: is_digit_def Let_def)

lemma decimal_digits: "list_all is_digit (decimal n)"
  by (induction n rule: decimal.induct) (subst decimal.simps, auto)

lemma decimal_val: "digits_val 0 (decimal n) = n"
  by (induction n rule: decimal.induct) (subst decimal.simps, auto)

lemma decimal_not_Nil [simp]: "decimal n \<noteq> []"
  by (subst decimal.simps) simp

lemma replicate_0_val [simp]: "digits_val 0 (replicate k CHR ''0'') = 0"
  by (induction k) auto

lemma decimal06_digits: "list_all is_digit (decimal06 n)"
  using decimal_digits [of n] by (auto simp: decimal06_def Let_def list_all_iff)

lemma decimal06_val: "digits_val 0 (decimal06 n) = n"
  by (simp add: decimal06_def Let_def decimal_val)

lemma decimal06_not_Nil [simp]: "decimal06 n \<noteq> []"
  by (simp add: decimal06_def Let_def)

lemma overflow_test:
  fixes v :: u64
  assumes "d < 10" and "unat v * 10 + d < 2 ^ 64"
  shows "\<not> (v > (- 1) div 10 \<or> (v = (- 1) div 10 \<and> word_of_nat d > (- 1 :: u64) mod 10))"
    and "unat (v * 10 + word_of_nat d) = unat v * 10 + d"
proof -
  have d: "unat (word_of_nat d :: u64) = d"
    using assms(1) by (simp add: unsigned_of_nat take_bit_nat_eq_self)
  have q: "unat ((- 1 :: u64) div 10) = 1844674407370955161" "unat ((- 1 :: u64) mod 10) = 5"
    by simp_all
  show "\<not> (v > (- 1) div 10 \<or> (v = (- 1) div 10 \<and> word_of_nat d > (- 1 :: u64) mod 10))"
  proof
    assume "v > (- 1) div 10 \<or> (v = (- 1) div 10 \<and> word_of_nat d > (- 1 :: u64) mod 10)"
    then have "unat v > 1844674407370955161 \<or> (unat v = 1844674407370955161 \<and> d > 5)"
      unfolding word_less_nat_alt q d by (metis q(1))
    then show False using assms(2) by auto
  qed
  have "unat (v * 10) = unat v * 10"
    using assms(2) by (simp add: unat_word_ariths)
  then show "unat (v * 10 + word_of_nat d) = unat v * 10 + d"
    using assms(2) d by (simp add: unat_word_ariths)
qed

lemma ConsumeDecimalLoop_digits:
  assumes "list_all is_digit ds" and "digits_val (unat v) ds < 2 ^ 64"
    and "rest = [] \<or> \<not> is_digit (hd rest)"
  shows "ConsumeDecimalLoop (ds @ rest) v k =
    (Some (word_of_nat (digits_val (unat v) ds), k + length ds), rest)"
  using assms
proof (induction ds arbitrary: v k)
  case Nil
  then show ?case by (cases rest) auto
next
  case (Cons c ds)
  let ?d = "digit_val c"
  have d: "?d < 10" using Cons.prems(1) digit_val_less by simp
  have less: "unat v * 10 + ?d < 2 ^ 64"
    using Cons.prems(2) digits_val_ge [of "unat v * 10 + ?d" ds] by simp
  note o = overflow_test [OF d less]
  have "ConsumeDecimalLoop (c # ds @ rest) v k =
      ConsumeDecimalLoop (ds @ rest) (v * 10 + word_of_nat ?d) (k + 1)"
    using Cons.prems(1) o(1) by (simp only: ConsumeDecimalLoop.simps Let_def list.pred_inject if_True if_False)
  also have "\<dots> = (Some (word_of_nat (digits_val (unat v * 10 + ?d) ds), k + 1 + length ds), rest)"
    using Cons.IH [of "v * 10 + word_of_nat ?d" "k + 1"] Cons.prems o(2) by simp
  finally show ?case by simp
qed

lemma ConsumeDecimalNumber_digits:
  assumes "list_all is_digit ds" and "ds \<noteq> []" and "digits_val 0 ds = unat n"
    and "rest = [] \<or> \<not> is_digit (hd rest)"
  shows "ConsumeDecimalNumber (ds @ rest) = (Some n, rest)"
  using ConsumeDecimalLoop_digits [of ds 0 rest 0] assms unat_less_2p [of n]
  by (simp add: ConsumeDecimalNumber_def)

lemma TableNumberLoop_digits:
  assumes "list_all is_digit ds" and "rest = [] \<or> \<not> is_digit (hd rest)"
  shows "TableNumberLoop (rev ds @ rest) number base =
    number + base * word_of_nat (digits_val 0 ds)"
  using assms
proof (induction ds arbitrary: number base rule: rev_induct)
  case Nil
  then show ?case by (cases rest) auto
next
  case (snoc c ds)
  then show ?case by (simp add: algebra_simps)
qed

lemma TableFileNameToNumber_MakeFileName:
  assumes "CHR ''.'' \<notin> set suffix"
  shows "TableFileNameToNumber (MakeFileName path n suffix) = n"
proof -
  have "dropWhile (\<lambda>c. c \<noteq> CHR ''.'') (rev (MakeFileName path n suffix)) =
      CHR ''.'' # rev (decimal06 (unat n)) @ CHR ''/'' # rev path"
    using assms by (subst MakeFileName_def, subst MakeFileNameBare_def)
      (simp, subst dropWhile_append2, auto)
  then show ?thesis
    using TableNumberLoop_digits [OF decimal06_digits, of "CHR ''/'' # rev path" "unat n" 0 1]
    by (simp add: TableFileNameToNumber_def decimal06_val)
qed

section \<open>Names read back\<close>

lemma hd_decimal06: "is_digit (hd (decimal06 n @ r))"
  using decimal06_digits [of n] decimal06_not_Nil [of n]
  by (cases "decimal06 n") auto

lemma hd_MakeFileNameBare: "is_digit (hd (MakeFileNameBare n suffix))"
  unfolding MakeFileNameBare_def by (rule hd_decimal06)

lemma not_digit_letters [simp]:
  "\<not> is_digit CHR ''M''" "\<not> is_digit CHR ''O''" "\<not> is_digit CHR ''a''" "\<not> is_digit CHR ''I''"
  "\<not> is_digit CHR ''C''" "\<not> is_digit CHR ''L''"
  by (simp_all add: is_digit_def Let_def)

lemma digit_not_prefix:
  assumes "is_digit (hd s)" and "p \<noteq> []" and "\<not> is_digit (hd p)"
  shows "\<not> string_starts_with s p" and "s \<noteq> p"
  using assms by (cases s; cases p; auto simp: string_starts_with_def)+

lemma ParseNumbered_MakeFileName:
  assumes "suffix \<noteq> []"
  shows "ParseNumbered (MakeFileNameBare n suffix) archived out =
    (if suffix = ''log'' then
       (True, (if archived then id else set_log_type kAliveLogFile)
                (out\<lparr>out_type := kWalFile, out_number := n\<rparr>))
     else if archived then (False, out)
     else if suffix = kRocksDbTFileExt \<or> suffix = kLevelDbTFileExt then
       (True, out\<lparr>out_type := kTableFile, out_number := n\<rparr>)
     else if suffix = kRocksDBBlobFileExt then
       (True, out\<lparr>out_type := kBlobFile, out_number := n\<rparr>)
     else if suffix = kTempFileNameSuffix then
       (True, out\<lparr>out_type := kTempFile, out_number := n\<rparr>)
     else (False, out))"
proof -
  have "ConsumeDecimalNumber (MakeFileNameBare n suffix) = (Some n, CHR ''.'' # suffix)"
    unfolding MakeFileNameBare_def
    using ConsumeDecimalNumber_digits [OF decimal06_digits decimal06_not_Nil decimal06_val,
        of "CHR ''.'' # suffix" n] by simp
  then show ?thesis using assms by (simp add: ParseNumbered_def Let_def)
qed

text \<open>The prefix of the info logs is \<open>LOG\<close>, or it has an underscore and does not begin with a slash.\<close>

definition info_prefix :: "string \<Rightarrow> bool" where
  "info_prefix p \<longleftrightarrow> p = ''LOG'' \<or> (CHR ''_'' \<in> set p \<and> hd p \<noteq> CHR ''/'')"

lemma GetInfoLogPrefixLoop_chars: "CHR ''/'' \<notin> set (GetInfoLogPrefixLoop path i room)"
  by (induction path i room rule: GetInfoLogPrefixLoop.induct) (auto simp: info_log_char_def is_digit_def Let_def)

lemma InfoLogPrefix_ok: "info_prefix (InfoLogPrefix d path)"
proof -
  have "hd (s @ ''_LOG'') \<noteq> CHR ''/''" if "CHR ''/'' \<notin> set s" for s using that by (cases s) auto
  then show ?thesis
    using GetInfoLogPrefixLoop_chars by (simp add: InfoLogPrefix_def GetInfoLogPrefix_def info_prefix_def)
qed

lemma info_prefix_not_Nil: "info_prefix p \<Longrightarrow> p \<noteq> []"
  by (auto simp: info_prefix_def)

text \<open>Names of other files do not begin with it: they have no underscore.\<close>

lemma not_info_log:
  assumes "p = [] \<or> info_prefix p" and "CHR ''_'' \<notin> set name" and "\<not> string_starts_with name ''LOG''"
  shows "\<not> (p \<noteq> [] \<and> string_starts_with name p)"
  using assms set_take_subset [of "length p" name] by (auto simp: info_prefix_def string_starts_with_def)

lemma ParseFileName_slash:
  assumes "name \<noteq> []" and "hd name \<noteq> CHR ''/''"
  shows "ParseFileName (CHR ''/'' # name) p out = ParseFileName name p out"
  using assms by (cases name) (simp_all add: ParseFileName_def)

lemma digits_no_letter:
  assumes "list_all is_digit ds" and "\<not> is_digit c"
  shows "c \<notin> set ds"
  using assms by (auto simp: list_all_iff)

lemma not_digit_underscore [simp]: "\<not> is_digit CHR ''_''"
  by (simp add: is_digit_def Let_def)

lemma ConsumeDecimalNumber_decimal [simp]:
  fixes n :: u64
  shows "ConsumeDecimalNumber (decimal06 (unat n)) = (Some n, [])"
    and "ConsumeDecimalNumber (decimal (unat n)) = (Some n, [])"
  using ConsumeDecimalNumber_digits [OF decimal06_digits decimal06_not_Nil decimal06_val, of "[]" n]
    ConsumeDecimalNumber_digits [OF decimal_digits decimal_not_Nil decimal_val, of "[]" n] by simp_all

lemma ParseFileName_numbered:
  assumes "p = [] \<or> info_prefix p" and "suffix \<noteq> []" and "CHR ''_'' \<notin> set suffix"
  shows "ParseFileName (MakeFileNameBare n suffix) p out = ParseNumbered (MakeFileNameBare n suffix) False out"
    and "ParseFileName (CHR ''/'' # MakeFileNameBare n suffix) p out = ParseNumbered (MakeFileNameBare n suffix) False out"
proof -
  let ?name = "MakeFileNameBare n suffix"
  have "CHR ''_'' \<notin> set ?name"
    using digits_no_letter [OF decimal06_digits] assms(3) by (simp add: MakeFileNameBare_def)
  then have i: "\<not> (p \<noteq> [] \<and> string_starts_with ?name p)"
    using digit_not_prefix(1) [OF hd_MakeFileNameBare, of "''LOG''" n suffix] by (intro not_info_log [OF assms(1)]) auto
  note d = digit_not_prefix [OF hd_MakeFileNameBare, of _ n suffix]
  have s: "hd ?name \<noteq> CHR ''/''" "?name \<noteq> []"
    using hd_MakeFileNameBare [of n suffix] by (auto simp: MakeFileNameBare_def)
  show "ParseFileName ?name p out = ParseNumbered ?name False out"
    using i s d(1) [of "''MANIFEST-''"] d(1) [of "''METADB-''"] d(1) [of "''OPTIONS-''"] d(1) [of "''archive''"]
      d(2) [of "''IDENTITY''"] d(2) [of "''CURRENT''"] d(2) [of "''LOCK''"]
    by (auto simp: ParseFileName_def ext_defs)
  then show "ParseFileName (CHR ''/'' # ?name) p out = ParseNumbered ?name False out"
    using ParseFileName_slash [OF s(2,1)] by simp
qed

lemma ParseFileName_archived:
  assumes "p = [] \<or> info_prefix p"
  shows "ParseFileName (''/archive/'' @ MakeFileNameBare n ''log'') p out =
    (True, (set_log_type kArchivedLogFile out)\<lparr>out_type := kWalFile, out_number := n\<rparr>)"
proof -
  let ?name = "''archive/'' @ MakeFileNameBare n ''log''"
  have "CHR ''_'' \<notin> set ?name"
    using digits_no_letter [OF decimal06_digits] by (simp add: MakeFileNameBare_def)
  then have "\<not> (p \<noteq> [] \<and> string_starts_with ?name p)"
    by (rule not_info_log [OF assms]) (simp add: string_starts_with_def)
  then have "ParseFileName ?name p out = ParseNumbered (MakeFileNameBare n ''log'') True (set_log_type kArchivedLogFile out)"
    by (auto simp: ParseFileName_def ext_defs string_starts_with_def Let_def)
  then show ?thesis using ParseFileName_slash [of ?name p out] ParseNumbered_MakeFileName [of "''log''" n True] by simp
qed

lemma ParseFileName_words:
  fixes n :: u64
  assumes "p = [] \<or> info_prefix p"
  shows "ParseFileName (''/MANIFEST-'' @ decimal06 (unat n)) p out = (True, out\<lparr>out_type := kDescriptorFile, out_number := n\<rparr>)"
    and "ParseFileName (''/METADB-'' @ decimal (unat n)) p out = (True, out\<lparr>out_type := kMetaDatabase, out_number := n\<rparr>)"
    and "ParseFileName (''/OPTIONS-'' @ decimal06 (unat n)) p out = (True, out\<lparr>out_type := kOptionsFile, out_number := n\<rparr>)"
    and "ParseFileName (''/OPTIONS-'' @ decimal06 (unat n) @ ''.dbtmp'') p out = (True, out\<lparr>out_type := kTempFile, out_number := n\<rparr>)"
proof -
  have no: "CHR ''_'' \<notin> set (decimal06 k)" "CHR ''_'' \<notin> set (decimal k)" "CHR ''.'' \<notin> set (decimal06 k)" for k
    using digits_no_letter [OF decimal06_digits] digits_no_letter [OF decimal_digits] by simp_all
  have i: "\<not> (p \<noteq> [] \<and> string_starts_with (w @ x) p)"
    if "w \<in> {''MANIFEST-'', ''METADB-'', ''OPTIONS-''}" "CHR ''_'' \<notin> set x" for w x
    using that by (intro not_info_log [OF assms]) (auto simp: string_starts_with_def)
  have slash: "ParseFileName (CHR ''/'' # w @ x) p out = ParseFileName (w @ x) p out"
    if "w \<in> {''MANIFEST-'', ''METADB-'', ''OPTIONS-''}" for w x
    using that by (intro ParseFileName_slash) auto
  have e: "\<not> string_ends_with (decimal06 k) ''.dbtmp''" for k
  proof
    assume "string_ends_with (decimal06 k) ''.dbtmp''"
    then have "set ''.dbtmp'' \<subseteq> set (decimal06 k)"
      unfolding string_ends_with_def by (metis set_drop_subset)
    then show False using no(3) by simp
  qed
  show "ParseFileName (''/MANIFEST-'' @ decimal06 (unat n)) p out = (True, out\<lparr>out_type := kDescriptorFile, out_number := n\<rparr>)"
    using slash [of "''MANIFEST-''" "decimal06 (unat n)"] i [of "''MANIFEST-''" "decimal06 (unat n)"] no
    by (auto simp: ParseFileName_def string_starts_with_def ParseWholeNumber_def)
  show "ParseFileName (''/METADB-'' @ decimal (unat n)) p out = (True, out\<lparr>out_type := kMetaDatabase, out_number := n\<rparr>)"
    using slash [of "''METADB-''" "decimal (unat n)"] i [of "''METADB-''" "decimal (unat n)"] no
    by (auto simp: ParseFileName_def string_starts_with_def ParseWholeNumber_def)
  show "ParseFileName (''/OPTIONS-'' @ decimal06 (unat n)) p out = (True, out\<lparr>out_type := kOptionsFile, out_number := n\<rparr>)"
    using slash [of "''OPTIONS-''" "decimal06 (unat n)"] i [of "''OPTIONS-''" "decimal06 (unat n)"] no e
    by (auto simp: ParseFileName_def string_starts_with_def ParseOptions_def ext_defs Let_def)
  show "ParseFileName (''/OPTIONS-'' @ decimal06 (unat n) @ ''.dbtmp'') p out = (True, out\<lparr>out_type := kTempFile, out_number := n\<rparr>)"
    using slash [of "''OPTIONS-''" "decimal06 (unat n) @ ''.dbtmp''"] i [of "''OPTIONS-''" "decimal06 (unat n) @ ''.dbtmp''"] no
    by (auto simp: ParseFileName_def string_starts_with_def ParseOptions_def ext_defs Let_def string_ends_with_def)
qed

lemma ParseFileName_fixed:
  "ParseFileName ''/IDENTITY'' p out = (True, out\<lparr>out_number := 0, out_type := kIdentityFile\<rparr>)"
  "ParseFileName ''/CURRENT'' p out = (True, out\<lparr>out_number := 0, out_type := kCurrentFile\<rparr>)"
  "ParseFileName ''/LOCK'' p out = (True, out\<lparr>out_number := 0, out_type := kDBLockFile\<rparr>)"
  by (simp_all add: ParseFileName_def)

lemma ParseFileName_info:
  fixes ts :: u64
  assumes "info_prefix p"
  shows "ParseFileName (CHR ''/'' # p) p out = (True, out\<lparr>out_number := 0, out_type := kInfoLogFile\<rparr>)"
    and "ParseFileName (CHR ''/'' # p @ ''.old.'' @ decimal (unat ts)) p out =
      (True, out\<lparr>out_number := ts, out_type := kInfoLogFile\<rparr>)"
proof -
  have p: "p \<noteq> []" "hd (p @ x) \<noteq> CHR ''/''" for x using assms by (cases p; auto simp: info_prefix_def)+
  have word: "p @ x \<noteq> ''IDENTITY'' \<and> p @ x \<noteq> ''CURRENT'' \<and> p @ x \<noteq> ''LOCK''" for x
  proof (cases "p = ''LOG''")
    case False
    then have "CHR ''_'' \<in> set (p @ x)" using assms by (simp add: info_prefix_def)
    moreover have "CHR ''_'' \<notin> set w" if "w \<in> {''IDENTITY'', ''CURRENT'', ''LOCK''}" for w using that by auto
    ultimately show ?thesis by (metis insertCI)
  qed simp
  have r: "ParseFileName (CHR ''/'' # p @ x) p out = ParseInfoLog x out" for x
  proof -
    have "ParseFileName (CHR ''/'' # p @ x) p out = ParseFileName (p @ x) p out"
      using p by (intro ParseFileName_slash) auto
    then show ?thesis using word [of x] p by (auto simp: ParseFileName_def string_starts_with_def)
  qed
  show "ParseFileName (CHR ''/'' # p) p out = (True, out\<lparr>out_number := 0, out_type := kInfoLogFile\<rparr>)"
    using r [of "[]"] by (simp add: ParseInfoLog_def)
  show "ParseFileName (CHR ''/'' # p @ ''.old.'' @ decimal (unat ts)) p out =
      (True, out\<lparr>out_number := ts, out_type := kInfoLogFile\<rparr>)"
    using r [of "''.old.'' @ decimal (unat ts)"] by (simp add: ParseInfoLog_def string_starts_with_def)
qed
lemma ParseFileName_unrecognised_info_log:
  assumes "p = ''LOG''" and "x \<noteq> []" and "x \<noteq> ''.old''" and "\<not> string_starts_with x ''.old.''"
  shows "ParseFileName (p @ x) p out = (True, out)"
  using assms by (cases x) (auto simp: ParseFileName_def ParseInfoLog_def string_starts_with_def)

end
