(* ===== verification/Enc_Dec.thy ===== *)
theory Enc_Dec
  imports Prelude Filenames
begin

text \<open>
  The cryptographic layer (\<open>sgx/enc_dec.cc\<close>, \<open>sgx/hmac.cc\<close>): the wrappers around OpenSSL and
  the list of the keys of the table files. OpenSSL itself is not part of the repository: it is the
  record \<open>openssl\<close> of functions that every definition takes, and what the code relies on is the
  predicate \<open>openssl_ok\<close>.
\<close>

section \<open>OpenSSL\<close>

text \<open>
  \<open>evp_encrypt\<close> and \<open>evp_decrypt\<close> are AES-256-GCM without its tag (key, IV, AAD, data),
  \<open>evp_tag\<close> is the tag of a ciphertext, \<open>hmac_sha3_384\<close> the keyed hash.
\<close>

record openssl =
  evp_encrypt :: "bytes \<Rightarrow> bytes \<Rightarrow> bytes \<Rightarrow> bytes \<Rightarrow> bytes"
  evp_decrypt :: "bytes \<Rightarrow> bytes \<Rightarrow> bytes \<Rightarrow> bytes \<Rightarrow> bytes"
  evp_tag :: "bytes \<Rightarrow> bytes \<Rightarrow> bytes \<Rightarrow> bytes \<Rightarrow> bytes"
  hmac_sha3_384 :: "bytes \<Rightarrow> bytes \<Rightarrow> bytes"

definition openssl_ok :: "openssl \<Rightarrow> bool" where
  "openssl_ok ssl \<longleftrightarrow>
     (\<forall>k iv aad d. evp_decrypt ssl k iv aad (evp_encrypt ssl k iv aad d) = d) \<and>
     (\<forall>k iv aad d. length (evp_encrypt ssl k iv aad d) = length d) \<and>
     (\<forall>k iv aad d. length (evp_decrypt ssl k iv aad d) = length d) \<and>
     (\<forall>k iv aad d. length (evp_tag ssl k iv aad d) = 16) \<and>
     (\<forall>k d. length (hmac_sha3_384 ssl k d) = 48)"

lemma openssl_okD [simp]:
  assumes "openssl_ok ssl"
  shows "evp_decrypt ssl k iv aad (evp_encrypt ssl k iv aad d) = d"
    and "length (evp_encrypt ssl k iv aad d) = length d"
    and "length (evp_decrypt ssl k iv aad d) = length d"
    and "length (evp_tag ssl k iv aad d) = 16"
    and "length (hmac_sha3_384 ssl k d) = 48"
  using assms by (simp_all add: openssl_ok_def)

text \<open>
  A toy instance, for the witnesses only: the cipher adds the first byte of the key, tags and
  hashes are the padded data.
\<close>

definition toy_openssl :: openssl where
  "toy_openssl = \<lparr>
     evp_encrypt = \<lambda>k iv aad d. map (\<lambda>b. b + hd (k @ [0])) d,
     evp_decrypt = \<lambda>k iv aad d. map (\<lambda>b. b - hd (k @ [0])) d,
     evp_tag = \<lambda>k iv aad d. take 16 (d @ replicate 16 0),
     hmac_sha3_384 = \<lambda>k d. take 48 (d @ replicate 48 0)\<rparr>"

lemma toy_openssl_ok [simp]: "openssl_ok toy_openssl"
  by (auto simp: openssl_ok_def toy_openssl_def comp_def min_def)

definition gcm_iv :: bytes where
  "gcm_iv = [0x99, 0xaa, 0x3e, 0x68, 0xed, 0x81, 0x73, 0xa0, 0xee, 0xd0, 0x66, 0x84]"

definition gcm_aad :: bytes where
  "gcm_aad = [0x4d, 0x23, 0xc3, 0xce, 0xc3, 0x34, 0xb4, 0x9b, 0xdb, 0x37, 0x0c, 0x43,
              0x7f, 0xec, 0x78, 0xde]"

section \<open>Encryption, decryption and digests\<close>

text \<open>
  The keys are pointers of which OpenSSL reads 32 bytes: a shorter key is read past its end.
  \<open>Encryption\<close> and \<open>Decryption\<close> overwrite the buffer of \<open>data\<close>; the model returns its new
  contents. The IV and AAD that callers pass have 12 and 16 bytes.
\<close>

definition read_key :: "bytes \<Rightarrow> bytes outcome" where
  "read_key key = (if length key < 32 then Undef else Ok (take 32 key))"

definition Encryption ::
    "openssl \<Rightarrow> bytes \<Rightarrow> bytes \<Rightarrow> bytes \<Rightarrow> bytes \<Rightarrow> (bytes \<times> bytes) outcome" where
  "Encryption ssl data key iv aad =
     obind (read_key key) (\<lambda>k.
       let outbuf = evp_encrypt ssl k (take 12 iv) (take 16 aad) data
       in Ok (outbuf, evp_tag ssl k (take 12 iv) (take 16 aad) outbuf))"

text \<open>
  \<open>Decryption\<close> returns the plaintext and whether it printed that the tag does not match: that is
  all that a wrong tag does.
\<close>

definition Decryption ::
    "openssl \<Rightarrow> bytes \<Rightarrow> bytes \<Rightarrow> bytes \<Rightarrow> bytes \<Rightarrow> bytes option \<Rightarrow> (bytes \<times> bool) outcome" where
  "Decryption ssl data key iv aad tags =
     obind (read_key key) (\<lambda>k.
       Ok (evp_decrypt ssl k (take 12 iv) (take 16 aad) data,
           case tags of
             None \<Rightarrow> False
           | Some t \<Rightarrow> take 16 t \<noteq> evp_tag ssl k (take 12 iv) (take 16 aad) data))"

definition log_encrypt ::
    "openssl \<Rightarrow> bytes \<Rightarrow> bytes \<Rightarrow> bytes option \<Rightarrow> (bytes \<times> bytes) outcome" where
  "log_encrypt ssl record key aad =
     obind (read_key key) (\<lambda>k.
       let target_aad = (case aad of Some a \<Rightarrow> take 16 a | None \<Rightarrow> gcm_aad);
           output = evp_encrypt ssl k gcm_iv target_aad record
       in Ok (output, evp_tag ssl k gcm_iv target_aad output))"

definition log_decrypt ::
    "openssl \<Rightarrow> bytes \<Rightarrow> bytes \<Rightarrow> bytes option \<Rightarrow> bytes option \<Rightarrow> bytes outcome" where
  "log_decrypt ssl record key tags aad =
     obind (read_key key) (\<lambda>k.
       let target_aad = (case aad of Some a \<Rightarrow> take 16 a | None \<Rightarrow> gcm_aad);
           outbuf = evp_decrypt ssl k gcm_iv target_aad record
       in case tags of
            None \<Rightarrow> Ok outbuf
          | Some t \<Rightarrow>
              (if take 16 t \<noteq> evp_tag ssl k gcm_iv target_aad record then Exit else Ok outbuf))"

definition digest :: "openssl \<Rightarrow> bytes \<Rightarrow> bytes \<Rightarrow> bytes outcome" where
  "digest ssl block sst_key = obind (read_key sst_key) (\<lambda>k. Ok (hmac_sha3_384 ssl k block))"

text \<open>\<open>RAND_bytes\<close> returns a result and leaves bytes in the buffer; only -1 is a failure here.\<close>

definition GenerateRandomBytes :: "int \<times> bytes \<Rightarrow> bytes outcome" where
  "GenerateRandomBytes rand = (case rand of (result, buf) \<Rightarrow> if result = -1 then Exit else Ok buf)"

definition GenerateMemKey :: "int \<times> bytes \<Rightarrow> bytes outcome" where
  "GenerateMemKey rand = GenerateRandomBytes rand"

lemma read_key_ok [simp]: "length key = 32 \<Longrightarrow> read_key key = Ok key"
  by (simp add: read_key_def)

lemma gcm_lengths [simp]: "length gcm_iv = 12" "length gcm_aad = 16"
  by (simp_all add: gcm_iv_def gcm_aad_def)

lemma Encryption_ok:
  "length key = 32 \<Longrightarrow> Encryption ssl data key gcm_iv gcm_aad =
   Ok (evp_encrypt ssl key gcm_iv gcm_aad data,
       evp_tag ssl key gcm_iv gcm_aad (evp_encrypt ssl key gcm_iv gcm_aad data))"
  by (simp add: Encryption_def Let_def)

lemma Decryption_ok:
  "length key = 32 \<Longrightarrow> Decryption ssl data key gcm_iv gcm_aad None =
   Ok (evp_decrypt ssl key gcm_iv gcm_aad data, False)"
  by (simp add: Decryption_def)

lemma digest_ok: "length key = 32 \<Longrightarrow> digest ssl block key = Ok (hmac_sha3_384 ssl key block)"
  by (simp add: digest_def)

lemma log_decrypt_encrypt:
  assumes "openssl_ok ssl" and "log_encrypt ssl record key aad = Ok (c, t)"
  shows "log_decrypt ssl c key (Some t) aad = Ok record"
    and "log_decrypt ssl c key None aad = Ok record"
  using assms by (auto simp: log_encrypt_def log_decrypt_def obind_eq_Ok Let_def)

lemma log_decrypt_checks:
  assumes "log_decrypt ssl c key (Some t) aad = Ok d"
  shows "take 16 t = evp_tag ssl (take 32 key) gcm_iv
    (case aad of Some a \<Rightarrow> take 16 a | None \<Rightarrow> gcm_aad) c"
  using assms by (auto simp: log_decrypt_def obind_eq_Ok Let_def read_key_def split: if_splits)

section \<open>The key list\<close>

text \<open>\<open>KeyList\<close> maps the number of a table file to its key; \<open>insert\<close> keeps an existing key.\<close>

type_synonym key_list = "u64 \<rightharpoonup> bytes"

definition map_insert :: "u64 \<Rightarrow> bytes \<Rightarrow> key_list \<Rightarrow> key_list" where
  "map_insert n key kl = (case kl n of None \<Rightarrow> kl(n \<mapsto> key) | Some _ \<Rightarrow> kl)"

definition isKeyExist :: "string \<Rightarrow> key_list \<Rightarrow> bool" where
  "isKeyExist FileName kl \<longleftrightarrow> kl (TableFileNameToNumber FileName) \<noteq> None"

text \<open>The result of \<open>RAND_bytes\<close> is only asserted about: the buffer becomes the key anyway.\<close>

definition GenerateKey :: "string \<Rightarrow> int \<times> bytes \<Rightarrow> key_list \<Rightarrow> bytes \<times> key_list" where
  "GenerateKey FileName rand kl =
     (case rand of (result, new_key) \<Rightarrow>
        (new_key, map_insert (TableFileNameToNumber FileName) new_key kl))"

definition AddSSTKeyToList :: "u64 \<Rightarrow> bytes \<Rightarrow> key_list \<Rightarrow> key_list" where
  "AddSSTKeyToList file_number key kl = map_insert file_number (take 32 key) kl"

definition DeleteSSTKeyFromList :: "u64 \<Rightarrow> key_list \<Rightarrow> key_list" where
  "DeleteSSTKeyFromList file_number kl =
     (case kl file_number of None \<Rightarrow> kl | Some _ \<Rightarrow> kl(file_number := None))"

text \<open>\<open>operator[]\<close> gives an absent number the empty key.\<close>

definition FilenameToKey :: "string \<Rightarrow> key_list \<Rightarrow> bytes \<times> key_list" where
  "FilenameToKey file_name kl =
     (let table_number = TableFileNameToNumber file_name in
      case kl table_number of
        Some key \<Rightarrow> (key, kl)
      | None \<Rightarrow> ([], kl(table_number \<mapsto> [])))"

lemma FilenameToKey_present: "kl (TableFileNameToNumber f) = Some key \<Longrightarrow> FilenameToKey f kl = (key, kl)"
  by (simp add: FilenameToKey_def)

lemma GenerateKey_lookup:
  assumes "kl n = None"
  shows "fst (FilenameToKey (MakeTableFileName path n)
    (snd (GenerateKey (MakeTableFileName path' n) (r, key) kl))) = key"
  using assms
  by (simp add: GenerateKey_def FilenameToKey_def map_insert_def MakeTableFileName_def
      TableFileNameToNumber_MakeFileName kRocksDbTFileExt_def)

lemma map_insert_existing: "kl n = Some k \<Longrightarrow> map_insert n key kl = kl"
  by (simp add: map_insert_def)

end
