(* ===== verification/Key_Lock.thy ===== *)
theory Key_Lock
  imports Enc_Dec
begin

text \<open>
  The key list under concurrency (\<open>sgx/enc_dec.cc\<close>): every operation takes the reader-writer
  lock \<open>key_lock\<close>, touches \<open>KeyList\<close> and releases the lock. Threads are interleaved at these
  three steps. The lock is the POSIX one: any number of readers, or one writer.
\<close>

section \<open>Threads and the lock\<close>

datatype key_op = IsKeyExist u64 | Generate u64 bytes | AddSSTKey u64 bytes | DeleteSSTKey u64
  | ToKey u64

datatype thread = Idle | Waiting key_op | Holding key_op | Finished key_op

record key_state =
  threads :: "nat \<Rightarrow> thread"
  KeyList :: key_list

text \<open>Which lock the operation asks for: \<open>pthread_rwlock_wrlock\<close> or \<open>pthread_rwlock_rdlock\<close>.\<close>

fun takes_wrlock :: "key_op \<Rightarrow> bool" where
  "takes_wrlock (IsKeyExist n) = False"
| "takes_wrlock (Generate n k) = True"
| "takes_wrlock (AddSSTKey n k) = True"
| "takes_wrlock (DeleteSSTKey n) = True"
| "takes_wrlock (ToKey n) = False"

text \<open>What the critical section does to the list.\<close>

fun key_effect :: "key_op \<Rightarrow> key_list \<Rightarrow> key_list" where
  "key_effect (IsKeyExist n) kl = kl"
| "key_effect (Generate n k) kl = map_insert n k kl"
| "key_effect (AddSSTKey n k) kl = AddSSTKeyToList n k kl"
| "key_effect (DeleteSSTKey n) kl = DeleteSSTKeyFromList n kl"
| "key_effect (ToKey n) kl = (case kl n of Some key \<Rightarrow> kl | None \<Rightarrow> kl(n \<mapsto> []))"

fun in_section :: "thread \<Rightarrow> key_op option" where
  "in_section (Holding op) = Some op"
| "in_section (Finished op) = Some op"
| "in_section _ = None"

definition rdlock_free :: "(nat \<Rightarrow> thread) \<Rightarrow> bool" where
  "rdlock_free ts \<longleftrightarrow> (\<forall>t op. in_section (ts t) = Some op \<longrightarrow> \<not> takes_wrlock op)"

definition wrlock_free :: "(nat \<Rightarrow> thread) \<Rightarrow> bool" where
  "wrlock_free ts \<longleftrightarrow> (\<forall>t. in_section (ts t) = None)"

inductive key_step :: "key_state \<Rightarrow> key_state \<Rightarrow> bool" where
  call: "threads s t = Idle \<Longrightarrow> key_step s (s\<lparr>threads := (threads s)(t := Waiting op)\<rparr>)"
| rdlock: "threads s t = Waiting op \<Longrightarrow> \<not> takes_wrlock op \<Longrightarrow> rdlock_free (threads s) \<Longrightarrow>
    key_step s (s\<lparr>threads := (threads s)(t := Holding op)\<rparr>)"
| wrlock: "threads s t = Waiting op \<Longrightarrow> takes_wrlock op \<Longrightarrow> wrlock_free (threads s) \<Longrightarrow>
    key_step s (s\<lparr>threads := (threads s)(t := Holding op)\<rparr>)"
| access: "threads s t = Holding op \<Longrightarrow>
    key_step s (s\<lparr>threads := (threads s)(t := Finished op), KeyList := key_effect op (KeyList s)\<rparr>)"
| unlock: "threads s t = Finished op \<Longrightarrow>
    key_step s (s\<lparr>threads := (threads s)(t := Idle)\<rparr>)"

inductive key_reachable :: "key_list \<Rightarrow> key_state \<Rightarrow> bool" for kl0 where
  start: "key_reachable kl0 \<lparr>threads = (\<lambda>_. Idle), KeyList = kl0\<rparr>"
| next_step: "key_reachable kl0 s \<Longrightarrow> key_step s s' \<Longrightarrow> key_reachable kl0 s'"

inductive_cases key_stepE: "key_step s s'"

section \<open>Mutual exclusion\<close>

definition exclusive :: "(nat \<Rightarrow> thread) \<Rightarrow> bool" where
  "exclusive ts \<longleftrightarrow>
     (\<forall>t op t' op'. in_section (ts t) = Some op \<longrightarrow> takes_wrlock op \<longrightarrow>
        in_section (ts t') = Some op' \<longrightarrow> t' = t)"

lemma exclusive_step: "key_step s s' \<Longrightarrow> exclusive (threads s) \<Longrightarrow> exclusive (threads s')"
proof (induction rule: key_step.induct)
  case (call s t op)
  then show ?case by (auto simp: exclusive_def)
next
  case (rdlock s t op)
  then show ?case unfolding exclusive_def rdlock_free_def by (auto split: if_splits)
next
  case (wrlock s t op)
  then show ?case by (auto simp: exclusive_def wrlock_free_def)
next
  case (access s t op)
  then have "in_section (((threads s)(t := Finished op)) u) = in_section (threads s u)" for u
    by simp
  with access show ?case by (simp add: exclusive_def)
next
  case (unlock s t op)
  then show ?case unfolding exclusive_def by (auto split: if_splits)
qed

lemma key_reachable_exclusive: "key_reachable kl0 s \<Longrightarrow> exclusive (threads s)"
  by (induction rule: key_reachable.induct) (simp add: exclusive_def, blast dest: exclusive_step)

section \<open>Races\<close>

text \<open>
  A race: two threads are inside their critical sections and about to touch the list, one of
  them modifying it.
\<close>

definition modifies :: "key_op \<Rightarrow> key_list \<Rightarrow> bool" where
  "modifies op kl \<longleftrightarrow> key_effect op kl \<noteq> kl"

definition key_race :: "key_state \<Rightarrow> bool" where
  "key_race s \<longleftrightarrow>
     (\<exists>t t' op op'. t \<noteq> t' \<and> threads s t = Holding op \<and> threads s t' = Holding op' \<and>
        modifies op (KeyList s))"

lemma reader_modifies: "\<not> takes_wrlock op \<Longrightarrow> modifies op kl \<Longrightarrow> \<exists>n. op = ToKey n \<and> kl n = None"
  by (cases op) (auto simp: modifies_def split: option.splits)

lemma race_is_ToKey:
  assumes "key_reachable kl0 s" and "key_race s"
  shows "\<exists>t n. threads s t = Holding (ToKey n) \<and> KeyList s n = None"
proof -
  obtain t t' op op' where h: "t \<noteq> t'" "threads s t = Holding op" "threads s t' = Holding op'"
    "modifies op (KeyList s)"
    using assms(2) by (auto simp: key_race_def)
  have "\<not> takes_wrlock op"
    using key_reachable_exclusive [OF assms(1)] h(1-3) unfolding exclusive_def
    by (metis in_section.simps(1))
  with h show ?thesis using reader_modifies by blast
qed

text \<open>The trace of two readers that both look up a file whose key is missing.\<close>

lemma race_trace:
  assumes "kl0 n = None"
  shows "\<exists>s. key_reachable kl0 s \<and> key_race s"
proof -
  define s0 where "s0 = \<lparr>threads = (\<lambda>_. Idle), KeyList = kl0\<rparr>"
  define s1 where "s1 = s0\<lparr>threads := (threads s0)(0 := Waiting (ToKey n))\<rparr>"
  define s2 where "s2 = s1\<lparr>threads := (threads s1)(1 := Waiting (ToKey n))\<rparr>"
  define s3 where "s3 = s2\<lparr>threads := (threads s2)(0 := Holding (ToKey n))\<rparr>"
  define s4 where "s4 = s3\<lparr>threads := (threads s3)(1 := Holding (ToKey n))\<rparr>"
  have r0: "key_reachable kl0 s0" unfolding s0_def by (rule start)
  have "key_step s0 s1" unfolding s1_def by (rule call) (simp add: s0_def)
  moreover have "key_step s1 s2" unfolding s2_def by (rule call) (simp add: s1_def s0_def)
  moreover have "key_step s2 s3" unfolding s3_def
    by (rule rdlock) (simp_all add: s2_def s1_def s0_def rdlock_free_def)
  moreover have "key_step s3 s4" unfolding s4_def
    by (rule rdlock) (simp_all add: s3_def s2_def s1_def s0_def rdlock_free_def)
  ultimately have "key_reachable kl0 s4" using r0 next_step by meson
  moreover have "key_race s4"
    using assms fun_upd_idem_iff [of kl0 n "Some []"] unfolding key_race_def modifies_def
    by (intro exI [of _ 0] exI [of _ 1] exI [of _ "ToKey n"])
      (auto simp: s4_def s3_def s2_def s1_def s0_def)
  ultimately show ?thesis by blast
qed

end
