(* ===== verification/Hash_Index.thy ===== *)
theory Hash_Index
  imports Complex_Main Coding
begin

text \<open>
  The hash index that may follow the entries of a block
  (\<open>table/block_based/data_block_hash_index.h\<close>, \<open>.cc\<close>), the footer that tells whether there is one
  (\<open>data_block_footer.cc\<close>), and the hash function it uses (\<open>util/hash.cc\<close>). The two \<open>double\<close>
  members are rational numbers here: they only decide how many buckets there are, and the
  lemmas hold for every number of buckets.
\<close>

section \<open>The hash function\<close>

definition hash_m :: u32 where
  "hash_m = 0xc6a4a793"

fun HashWords :: "bytes \<Rightarrow> u32 \<Rightarrow> u32 \<times> bytes" where
  "HashWords (a # b # c # d # rest) h =
     (let w = (case DecodeFixed32 [a, b, c, d] of Some w \<Rightarrow> w | None \<Rightarrow> 0);
          h = (h + w) * hash_m
      in HashWords rest (h XOR drop_bit 16 h))"
| "HashWords rest h = (h, rest)"

definition HashTail :: "bytes \<Rightarrow> u32 \<Rightarrow> u32" where
  "HashTail data h =
     (let h = (if length data \<ge> 3 then h + push_bit 16 (scast (data ! 2)) else h);
          h = (if length data \<ge> 2 then h + push_bit 8 (scast (data ! 1)) else h)
      in if length data \<ge> 1 then
           (let h = (h + scast (data ! 0)) * hash_m in h XOR drop_bit 24 h)
         else h)"

definition Hash :: "bytes \<Rightarrow> u32 \<Rightarrow> u32" where
  "Hash data seed =
     (case HashWords data (seed XOR word_of_nat (length data) * hash_m) of
        (h, rest) \<Rightarrow> HashTail rest h)"

definition GetSliceHash :: "bytes \<Rightarrow> u32" where
  "GetSliceHash s = Hash s 397"

section \<open>The footer of a block\<close>

datatype DataBlockIndexType = kDataBlockBinarySearch | kDataBlockBinaryAndHash

definition kNumRestartsMask :: u32 where
  "kNumRestartsMask = push_bit 31 1 - 1"

definition PackIndexTypeAndNumRestarts :: "DataBlockIndexType \<Rightarrow> u32 \<Rightarrow> u32" where
  "PackIndexTypeAndNumRestarts index_type num_restarts =
     (if index_type = kDataBlockBinaryAndHash then num_restarts OR push_bit 31 1
      else num_restarts)"

definition UnPackIndexTypeAndNumRestarts :: "u32 \<Rightarrow> DataBlockIndexType \<times> u32" where
  "UnPackIndexTypeAndNumRestarts block_footer =
     (if block_footer AND push_bit 31 1 \<noteq> 0 then kDataBlockBinaryAndHash
      else kDataBlockBinarySearch,
      block_footer AND kNumRestartsMask)"

section \<open>Building the index\<close>

definition kNoEntry :: byte where "kNoEntry = 255"
definition kCollision :: byte where "kCollision = 254"
definition kMaxRestartSupportedByHashIndex :: nat where "kMaxRestartSupportedByHashIndex = 253"
definition kMaxBlockSizeSupportedByHashIndex :: nat where
  "kMaxBlockSizeSupportedByHashIndex = 2 ^ 16"

record DataBlockHashIndexBuilder =
  bucket_per_key :: rat
  estimated_num_buckets :: rat
  hb_valid :: bool
  hash_and_restart_pairs :: "(u32 \<times> byte) list"

definition NewHashIndexBuilder :: DataBlockHashIndexBuilder where
  "NewHashIndexBuilder =
     \<lparr>bucket_per_key = -1, estimated_num_buckets = 0, hb_valid = False, hash_and_restart_pairs = []\<rparr>"

definition HashIndexInitialize :: "rat \<Rightarrow> DataBlockHashIndexBuilder \<Rightarrow> DataBlockHashIndexBuilder"
  where
  "HashIndexInitialize util_ratio b =
     (let util_ratio = (if util_ratio \<le> 0 then 3/4 else util_ratio)
      in b\<lparr>bucket_per_key := 1 / util_ratio, hb_valid := True\<rparr>)"

definition HashIndexValid :: "DataBlockHashIndexBuilder \<Rightarrow> bool" where
  "HashIndexValid b \<longleftrightarrow> hb_valid b \<and> bucket_per_key b > 0"

definition HashIndexNumBuckets :: "DataBlockHashIndexBuilder \<Rightarrow> u16" where
  "HashIndexNumBuckets b = word_of_int \<lfloor>estimated_num_buckets b\<rfloor>"

definition HashIndexEstimateSize :: "DataBlockHashIndexBuilder \<Rightarrow> nat" where
  "HashIndexEstimateSize b = 2 + unat (HashIndexNumBuckets b OR 1)"

definition HashIndexAdd :: "bytes \<Rightarrow> nat \<Rightarrow> DataBlockHashIndexBuilder \<Rightarrow> DataBlockHashIndexBuilder"
  where
  "HashIndexAdd key restart_index b =
     (if restart_index > kMaxRestartSupportedByHashIndex then b\<lparr>hb_valid := False\<rparr>
      else b\<lparr>hash_and_restart_pairs :=
               hash_and_restart_pairs b @ [(GetSliceHash key, word_of_nat restart_index)],
             estimated_num_buckets := estimated_num_buckets b + bucket_per_key b\<rparr>)"

fun FillBuckets :: "(u32 \<times> byte) list \<Rightarrow> u16 \<Rightarrow> bytes \<Rightarrow> bytes" where
  "FillBuckets [] num_buckets buckets = buckets"
| "FillBuckets ((hash_value, restart_index) # entries) num_buckets buckets =
     (let buck_idx = unat (hash_value mod ucast num_buckets) in
      FillBuckets entries num_buckets
        (if buckets ! buck_idx = kNoEntry then buckets[buck_idx := restart_index]
         else if buckets ! buck_idx \<noteq> restart_index then buckets[buck_idx := kCollision]
         else buckets))"

definition HashIndexFinish :: "DataBlockHashIndexBuilder \<Rightarrow> bytes \<Rightarrow> bytes" where
  "HashIndexFinish b buffer =
     (let num_buckets = HashIndexNumBuckets b;
          num_buckets = (if num_buckets = 0 then 1 else num_buckets) OR 1;
          buckets = FillBuckets (hash_and_restart_pairs b) num_buckets
                      (replicate (unat num_buckets) kNoEntry)
      in PutFixed16 (buffer @ buckets) num_buckets)"

definition HashIndexReset :: "DataBlockHashIndexBuilder \<Rightarrow> DataBlockHashIndexBuilder" where
  "HashIndexReset b =
     b\<lparr>estimated_num_buckets := 0, hb_valid := True, hash_and_restart_pairs := []\<rparr>"

section \<open>Looking up\<close>

text \<open>
  \<open>Initialize\<close> is given the block up to the end of the index: it reads the number of buckets and
  computes, in 16 bits, where they start. \<open>Lookup\<close> divides by the number of buckets.
\<close>

definition HashIndexOpen :: "bytes \<Rightarrow> (u16 \<times> u16) option" where
  "HashIndexOpen data =
     map_option (\<lambda>num_buckets.
         (num_buckets, word_of_nat (length data) - 2 - num_buckets))
       (DecodeFixed16 (drop (length data - 2) data))"

definition HashIndexLookup :: "bytes \<Rightarrow> u16 \<Rightarrow> u16 \<Rightarrow> bytes \<Rightarrow> byte outcome" where
  "HashIndexLookup data num_buckets map_offset key =
     (if num_buckets = 0 then Undef
      else
        (let idx = (ucast (GetSliceHash key mod ucast num_buckets) :: u16);
             pos = unat map_offset + unat idx
         in if pos < length data then Ok (data ! pos) else Undef))"

section \<open>Lemmas\<close>

lemma unat_num_restarts_mask: "unat kNumRestartsMask = 2 ^ 31 - 1"
  by (simp add: kNumRestartsMask_def)

lemma footer_roundtrip:
  assumes "num_restarts \<le> kNumRestartsMask"
  shows "UnPackIndexTypeAndNumRestarts (PackIndexTypeAndNumRestarts t num_restarts) =
    (t, num_restarts)"
proof -
  have m: "kNumRestartsMask = mask 31"
    by (simp add: kNumRestartsMask_def mask_eq_exp_minus_1)
  have "unat num_restarts < 2 ^ 31"
    using assms by (simp add: word_le_nat_alt unat_num_restarts_mask)
  then have t: "take_bit 31 num_restarts = num_restarts"
    by (simp only: word_unat_eq_iff unsigned_take_bit_eq take_bit_nat_eq_self)
  have b: "\<not> bit num_restarts 31" using t by (metis bit_take_bit_iff less_irrefl)
  have and_m: "v AND kNumRestartsMask = take_bit 31 v" for v
    unfolding m by (simp add: take_bit_eq_mask)
  have bit31: "(v AND push_bit 31 1 \<noteq> 0) = bit v 31" for v :: u32
    by (simp add: bit_iff_and_push_bit_not_eq_0)
  have p: "take_bit 31 (num_restarts OR push_bit 31 1) = take_bit 31 num_restarts"
    by (rule bit_word_eqI) (auto simp: bit_simps)
  show ?thesis using t b p bit31 and_m
    by (cases t) (auto simp: PackIndexTypeAndNumRestarts_def UnPackIndexTypeAndNumRestarts_def
        bit_simps)
qed

lemma mod_index_less:
  fixes n :: u16
  assumes "n \<noteq> 0"
  shows "unat ((h :: u32) mod ucast n) < unat n"
proof -
  have "unat (h mod ucast n) = unat h mod unat n"
    by (simp add: unat_mod_distrib unat_ucast_up)
  then show ?thesis using assms by (simp add: unat_gt_0)
qed

lemma length_FillBuckets [simp]: "length (FillBuckets es n bs) = length bs"
  by (induction es n bs rule: FillBuckets.induct) (auto simp: Let_def)

text \<open>A bucket that holds an entry keeps it or becomes a collision.\<close>

lemma FillBuckets_keeps:
  assumes "bs ! i = r \<or> bs ! i = kCollision" and "r \<noteq> kNoEntry"
    and "i < length bs"
  shows "FillBuckets es n bs ! i = r \<or> FillBuckets es n bs ! i = kCollision"
  using assms
proof (induction es n bs rule: FillBuckets.induct)
  case (2 h r' es n bs)
  let ?b = "unat (h mod ucast n)"
  let ?bs = "if bs ! ?b = kNoEntry then bs[?b := r'] else if bs ! ?b \<noteq> r' then bs[?b := kCollision]
    else bs"
  have "?bs ! i = r \<or> ?bs ! i = kCollision" and "i < length ?bs"
    using "2.prems" by (cases "?b = i"; auto simp: kNoEntry_def kCollision_def)+
  then show ?case using "2.IH" [OF HOL.refl] "2.prems"(2) by (simp add: Let_def)
qed simp

lemma FillBuckets_entry:
  assumes "(h, r) \<in> set es" and "r \<noteq> kNoEntry" and "n \<noteq> 0" and "length bs = unat n"
  shows "FillBuckets es n bs ! unat (h mod ucast n) \<in> {r, kCollision}"
  using assms
proof (induction es n bs rule: FillBuckets.induct)
  case (2 h' r' es n bs)
  let ?b = "unat (h' mod ucast n)"
  let ?bs = "if bs ! ?b = kNoEntry then bs[?b := r'] else if bs ! ?b \<noteq> r' then bs[?b := kCollision]
    else bs"
  have less: "?b < length bs" using mod_index_less "2.prems" by simp
  show ?case
  proof (cases "(h, r) = (h', r')")
    case True
    then have "?bs ! ?b = r \<or> ?bs ! ?b = kCollision" using less by (auto simp: nth_list_update)
    then show ?thesis
      using FillBuckets_keeps [of ?bs ?b r es n] "2.prems" less True by (auto simp: Let_def)
  next
    case False
    then show ?thesis using "2.IH" [OF HOL.refl] "2.prems" by (auto simp: Let_def)
  qed
qed simp

lemma DecodeFixed16_last [simp]: "DecodeFixed16 (EncodeFixed16 v) = Some v"
  using DecodeFixed16_Encode [of v "[]"] by simp

text \<open>An index built over keys finds each of them, or says that it cannot tell.\<close>

lemma HashIndex_finds:
  assumes "(GetSliceHash key, r) \<in> set (hash_and_restart_pairs b)" and "r \<noteq> kNoEntry"
    and size: "length (HashIndexFinish b buffer) < 2 ^ 16"
  shows "\<exists>n offset v. HashIndexOpen (HashIndexFinish b buffer) = Some (n, offset) \<and>
    unat offset = length buffer \<and>
    HashIndexLookup (HashIndexFinish b buffer) n offset key = Ok v \<and> v \<in> {r, kCollision}"
proof -
  define n where "n = (if HashIndexNumBuckets b = 0 then 1 else HashIndexNumBuckets b) OR 1"
  define bs where "bs = FillBuckets (hash_and_restart_pairs b) n (replicate (unat n) kNoEntry)"
  have data: "HashIndexFinish b buffer = buffer @ bs @ EncodeFixed16 n"
    by (simp add: HashIndexFinish_def n_def bs_def Let_def PutFixed16_def)
  have len: "length bs = unat n" by (simp add: bs_def)
  have "bit n 0" by (simp add: n_def bit_simps)
  then have n0: "n \<noteq> 0" by auto
  let ?off = "word_of_nat (length (buffer @ bs @ EncodeFixed16 n)) - 2 - n :: u16"
  have "?off = word_of_nat (length buffer)"
    by (simp add: len)
  moreover have small: "length buffer < 2 ^ 16" using size by (simp add: data)
  ultimately have off: "unat ?off = length buffer"
    by (simp only:) (simp add: unsigned_of_nat take_bit_nat_eq_self)
  let ?i = "unat (GetSliceHash key mod ucast n)"
  have i: "?i < unat n" using n0 by (rule mod_index_less)
  then have idx: "unat (ucast (GetSliceHash key mod ucast n) :: u16) = ?i"
    using unat_less_2p [of n] by (simp add: unsigned_ucast_eq take_bit_nat_eq_self)
  have "bs ! ?i \<in> {r, kCollision}"
    unfolding bs_def by (rule FillBuckets_entry [OF assms(1,2) n0]) simp
  moreover have "HashIndexLookup (HashIndexFinish b buffer) n ?off key = Ok (bs ! ?i)"
    unfolding data HashIndexLookup_def Let_def off idx using n0 i len by (simp add: nth_append)
  moreover have "HashIndexOpen (HashIndexFinish b buffer) = Some (n, ?off)"
    by (simp add: data HashIndexOpen_def)
  ultimately show ?thesis using off by blast
qed

end
