(* ===== verification/Block_Builder.thy ===== *)
theory Block_Builder
  imports Internal_Key Hash_Index Enc_Dec
begin

text \<open>
  Building blocks (\<open>table/block_based/block_builder.h\<close>, \<open>.cc\<close>). One class builds two formats: the
  prefix-compressed format with restart points for index and meta blocks, and the encrypted
  format of the data blocks, in which every value is encrypted and followed by the HMAC of the
  key and the ciphertext, and the keys are collected in a separate, encrypted part at the end.
\<close>

section \<open>State and operations\<close>

record BlockBuilder =
  bb_block_restart_interval :: nat
  bb_use_delta_encoding :: bool
  bb_use_value_delta_encoding :: bool
  bb_buffer :: bytes
  bb_restarts :: "u32 list"
  bb_estimate :: nat
  bb_counter :: nat
  bb_finished :: bool
  bb_last_key :: bytes
  bb_data_block_hash_index_builder :: DataBlockHashIndexBuilder
  meta_buf :: bytes
  meta_offset :: u32
  data_block :: bool
  sst_key :: bytes

definition NewBlockBuilder ::
    "nat \<Rightarrow> bool \<Rightarrow> bool \<Rightarrow> DataBlockIndexType \<Rightarrow> rat \<Rightarrow> bool \<Rightarrow> BlockBuilder" where
  "NewBlockBuilder block_restart_interval use_delta_encoding use_value_delta_encoding index_type
     util_ratio is_data_block =
     \<lparr>bb_block_restart_interval = block_restart_interval,
      bb_use_delta_encoding = use_delta_encoding,
      bb_use_value_delta_encoding = use_value_delta_encoding,
      bb_buffer = [], bb_restarts = [0], bb_estimate = 8, bb_counter = 0, bb_finished = False,
      bb_last_key = [],
      bb_data_block_hash_index_builder =
        (case index_type of
           kDataBlockBinarySearch \<Rightarrow> NewHashIndexBuilder
         | kDataBlockBinaryAndHash \<Rightarrow> HashIndexInitialize util_ratio NewHashIndexBuilder),
      meta_buf = [], meta_offset = 0, data_block = is_data_block, sst_key = []\<rparr>"

definition SetSSTKey :: "bytes \<Rightarrow> BlockBuilder \<Rightarrow> BlockBuilder" where
  "SetSSTKey key b = b\<lparr>sst_key := key\<rparr>"

definition Reset :: "BlockBuilder \<Rightarrow> BlockBuilder" where
  "Reset b =
     b\<lparr>bb_buffer := [], bb_restarts := [0], bb_estimate := 8, bb_counter := 0, bb_finished := False,
       bb_last_key := [],
       bb_data_block_hash_index_builder :=
         (if HashIndexValid (bb_data_block_hash_index_builder b)
          then HashIndexReset (bb_data_block_hash_index_builder b)
          else bb_data_block_hash_index_builder b),
       meta_buf := [], meta_offset := 0\<rparr>"

definition SwapAndReset :: "bytes \<Rightarrow> BlockBuilder \<Rightarrow> bytes \<times> BlockBuilder" where
  "SwapAndReset buffer b = (bb_buffer b, Reset (b\<lparr>bb_buffer := buffer\<rparr>))"

definition CurrentSizeEstimate :: "BlockBuilder \<Rightarrow> nat" where
  "CurrentSizeEstimate b =
     bb_estimate b + (if HashIndexValid (bb_data_block_hash_index_builder b)
                    then HashIndexEstimateSize (bb_data_block_hash_index_builder b) else 0)"

definition EstimateSizeAfterKV :: "BlockBuilder \<Rightarrow> bytes \<Rightarrow> bytes \<Rightarrow> nat" where
  "EstimateSizeAfterKV b key value =
     CurrentSizeEstimate b + length key +
     (if \<not> bb_use_value_delta_encoding b \<or> bb_counter b \<ge> bb_block_restart_interval b
      then length value else length value div 2) +
     (if bb_counter b \<ge> bb_block_restart_interval b then 4 else 0) +
     4 + VarintLength (word_of_nat (length key)) +
     (if \<not> bb_use_value_delta_encoding b \<or> bb_counter b \<ge> bb_block_restart_interval b
      then VarintLength (word_of_nat (length value)) else 0) +
     (if data_block b then 48 else 0)"

definition empty :: "BlockBuilder \<Rightarrow> bool" where
  "empty b \<longleftrightarrow> bb_buffer b = []"

text \<open>The body of \<open>Add\<close> for the prefix-compressed format.\<close>

definition AddPlain :: "bytes \<Rightarrow> bytes \<Rightarrow> bytes option \<Rightarrow> BlockBuilder \<Rightarrow> BlockBuilder outcome"
  where
  "AddPlain key value delta_value b =
     (let (shared, b) =
        (if bb_counter b \<ge> bb_block_restart_interval b then
           (0, b\<lparr>bb_restarts := bb_restarts b @ [word_of_nat (length (bb_buffer b))],
                 bb_estimate := bb_estimate b + 4, bb_counter := 0,
                 bb_last_key := (if bb_use_delta_encoding b then key else bb_last_key b)\<rparr>)
         else if bb_use_delta_encoding b then
           (difference_offset key (bb_last_key b), b\<lparr>bb_last_key := key\<rparr>)
         else (0, b));
          non_shared = length key - shared;
          curr_size = length (bb_buffer b);
          buffer1 =
            (if bb_use_value_delta_encoding b then
               PutVarint32Varint32 (bb_buffer b) (word_of_nat shared) (word_of_nat non_shared)
             else
               PutVarint32Varint32Varint32 (bb_buffer b) (word_of_nat shared)
                 (word_of_nat non_shared) (word_of_nat (length value)));
          buffer2 = buffer1 @ drop shared key
      in obind (if shared \<noteq> 0 \<and> bb_use_value_delta_encoding b then of_opt delta_value else Ok value)
           (\<lambda>v.
             let buffer3 = buffer2 @ v;
                 h = bb_data_block_hash_index_builder b
             in Ok (b\<lparr>bb_buffer := buffer3,
                      bb_data_block_hash_index_builder :=
                        (if HashIndexValid h
                         then HashIndexAdd (ExtractUserKey key) (length (bb_restarts b) - 1) h
                         else h),
                      bb_counter := bb_counter b + 1,
                      bb_estimate := bb_estimate b + (length buffer3 - curr_size)\<rparr>)))"

text \<open>The body of \<open>Add\<close> for data blocks.\<close>

definition AddData :: "openssl \<Rightarrow> bytes \<Rightarrow> bytes \<Rightarrow> BlockBuilder \<Rightarrow> BlockBuilder outcome" where
  "AddData ssl key value b =
     obind (Encryption ssl value (sst_key b) gcm_iv gcm_aad) (\<lambda>(sealed, _).
     obind (digest ssl (key @ sealed) (sst_key b)) (\<lambda>hmac.
       let (shared, b) =
             (if bb_use_delta_encoding b then
                (difference_offset key (bb_last_key b), b\<lparr>bb_last_key := key\<rparr>)
              else (0, b));
           non_shared = length key - shared;
           curr_size = length (meta_buf b);
           meta = PutVarint32Varint32Varint32 (meta_buf b) (word_of_nat shared)
                    (word_of_nat non_shared) (word_of_nat (length sealed)) @ drop shared key
       in Ok (b\<lparr>meta_buf := meta,
                bb_buffer := bb_buffer b @ sealed @ take 48 hmac,
                bb_estimate := bb_estimate b + (length meta - curr_size + length sealed + 48),
                meta_offset := meta_offset b + word_of_nat (length sealed + 48)\<rparr>)))"

definition Add ::
    "openssl \<Rightarrow> bytes \<Rightarrow> bytes \<Rightarrow> bytes option \<Rightarrow> BlockBuilder \<Rightarrow> BlockBuilder outcome" where
  "Add ssl key value delta_value b =
     (if \<not> data_block b then AddPlain key value delta_value b else AddData ssl key value b)"

definition FinishPlain :: "BlockBuilder \<Rightarrow> bytes \<times> BlockBuilder" where
  "FinishPlain b =
     (let buffer1 = foldl PutFixed32 (bb_buffer b) (bb_restarts b);
          num_restarts = word_of_nat (length (bb_restarts b));
          h = bb_data_block_hash_index_builder b;
          (buffer2, index_type) =
            (if HashIndexValid h \<and> CurrentSizeEstimate b \<le> kMaxBlockSizeSupportedByHashIndex
             then (HashIndexFinish h buffer1, kDataBlockBinaryAndHash)
             else (buffer1, kDataBlockBinarySearch));
          buffer3 = PutFixed32 buffer2 (PackIndexTypeAndNumRestarts index_type num_restarts)
      in (buffer3, b\<lparr>bb_buffer := buffer3, bb_finished := True\<rparr>))"

definition FinishData :: "openssl \<Rightarrow> BlockBuilder \<Rightarrow> (bytes \<times> BlockBuilder) outcome" where
  "FinishData ssl b =
     obind (Encryption ssl (meta_buf b) (sst_key b) gcm_iv gcm_aad) (\<lambda>(meta, _).
       let buffer1 = PutFixed32 (bb_buffer b @ meta) (meta_offset b)
       in Ok (buffer1, b\<lparr>meta_buf := meta, bb_buffer := buffer1, bb_finished := True\<rparr>))"

definition Finish :: "openssl \<Rightarrow> BlockBuilder \<Rightarrow> (bytes \<times> BlockBuilder) outcome" where
  "Finish ssl b = (if \<not> data_block b then Ok (FinishPlain b) else FinishData ssl b)"

text \<open>Adding entries in order, as the table builder does between two \<open>Flush\<close>es.\<close>

fun AddAll ::
    "openssl \<Rightarrow> (bytes \<times> bytes \<times> bytes option) list \<Rightarrow> BlockBuilder \<Rightarrow> BlockBuilder outcome" where
  "AddAll ssl [] b = Ok b"
| "AddAll ssl ((key, value, delta) # kvs) b =
     obind (Add ssl key value delta b) (AddAll ssl kvs)"

section \<open>The layout of a data block\<close>

text \<open>What the two buffers of a data block hold, as functions of the entries.\<close>

definition sealed_value :: "openssl \<Rightarrow> bytes \<Rightarrow> bytes \<Rightarrow> bytes" where
  "sealed_value ssl key value = evp_encrypt ssl key gcm_iv gcm_aad value"

definition data_record :: "openssl \<Rightarrow> bytes \<Rightarrow> bytes \<times> bytes \<Rightarrow> bytes" where
  "data_record ssl sk kv =
     sealed_value ssl sk (snd kv) @
     take 48 (hmac_sha3_384 ssl sk (fst kv @ sealed_value ssl sk (snd kv)))"

definition data_body :: "openssl \<Rightarrow> bytes \<Rightarrow> (bytes \<times> bytes) list \<Rightarrow> bytes" where
  "data_body ssl sk kvs = concat (map (data_record ssl sk) kvs)"

definition key_entry :: "bool \<Rightarrow> bytes \<Rightarrow> bytes \<Rightarrow> nat \<Rightarrow> bytes" where
  "key_entry delta last_key key value_length =
     (let shared = (if delta then difference_offset key last_key else 0)
      in EncodeVarint32 (word_of_nat shared) @ EncodeVarint32 (word_of_nat (length key - shared)) @
         EncodeVarint32 (word_of_nat value_length) @ drop shared key)"

fun key_part :: "bool \<Rightarrow> bytes \<Rightarrow> (bytes \<times> bytes) list \<Rightarrow> bytes" where
  "key_part delta last_key [] = []"
| "key_part delta last_key ((key, value) # kvs) =
     key_entry delta last_key key (length value) @ key_part delta key kvs"

definition data_block_of :: "openssl \<Rightarrow> bytes \<Rightarrow> bool \<Rightarrow> (bytes \<times> bytes) list \<Rightarrow> bytes" where
  "data_block_of ssl sk delta kvs =
     data_body ssl sk kvs @ evp_encrypt ssl sk gcm_iv gcm_aad (key_part delta [] kvs) @
     EncodeFixed32 (word_of_nat (length (data_body ssl sk kvs)))"

lemma length_sealed_value [simp]: "openssl_ok ssl \<Longrightarrow> length (sealed_value ssl sk v) = length v"
  by (simp add: sealed_value_def)

lemma length_data_record [simp]:
  "openssl_ok ssl \<Longrightarrow> length (data_record ssl sk kv) = length (snd kv) + 48"
  by (simp add: data_record_def)

lemma data_body_simps [simp]:
  "data_body ssl sk [] = []"
  "data_body ssl sk (kv # kvs) = data_record ssl sk kv @ data_body ssl sk kvs"
  "data_body ssl sk (kvs @ kvs') = data_body ssl sk kvs @ data_body ssl sk kvs'"
  by (simp_all add: data_body_def)

lemma AddData_eq:
  assumes "openssl_ok ssl" and "length (sst_key b) = 32"
  shows "AddData ssl key value b =
    Ok (b\<lparr>meta_buf := meta_buf b @ key_entry (bb_use_delta_encoding b) (bb_last_key b) key (length value),
          bb_buffer := bb_buffer b @ data_record ssl (sst_key b) (key, value),
          bb_last_key := (if bb_use_delta_encoding b then key else bb_last_key b),
          bb_estimate := bb_estimate b + length value + 48 +
            length (key_entry (bb_use_delta_encoding b) (bb_last_key b) key (length value)),
          meta_offset := meta_offset b + word_of_nat (length value + 48)\<rparr>)"
  using assms
  by (simp add: AddData_def Encryption_ok digest_ok Let_def data_record_def sealed_value_def
      key_entry_def PutVarint32Varint32Varint32_def)

lemma AddAll_data:
  assumes "openssl_ok ssl" and "length (sst_key b) = 32" and "data_block b"
    and "bb_use_delta_encoding b = delta"
  shows "\<exists>b'. AddAll ssl (map (\<lambda>(k, v). (k, v, None)) kvs) b = Ok b' \<and>
    meta_buf b' = meta_buf b @ key_part delta (if delta then bb_last_key b else []) kvs \<and>
    bb_buffer b' = bb_buffer b @ data_body ssl (sst_key b) kvs \<and>
    meta_offset b' = meta_offset b + word_of_nat (length (data_body ssl (sst_key b) kvs)) \<and>
    sst_key b' = sst_key b \<and> data_block b' \<and>
    bb_estimate b' = bb_estimate b + (length (bb_buffer b') - length (bb_buffer b)) +
      (length (meta_buf b') - length (meta_buf b))"
  using assms(2-)
proof (induction kvs arbitrary: b)
  case (Cons kv kvs)
  obtain k v where kv: "kv = (k, v)" by (cases kv)
  let ?b = "b\<lparr>meta_buf := meta_buf b @ key_entry delta (bb_last_key b) k (length v),
      bb_buffer := bb_buffer b @ data_record ssl (sst_key b) (k, v),
      bb_last_key := (if delta then k else bb_last_key b),
      bb_estimate := bb_estimate b + length v + 48 + length (key_entry delta (bb_last_key b) k (length v)),
      meta_offset := meta_offset b + word_of_nat (length v + 48)\<rparr>"
  have nd: "key_part False l kvs' = key_part False [] kvs'" for l kvs'
    by (induction kvs' arbitrary: l) (auto simp: key_entry_def)
  have e: "key_entry False l k (length v) = key_entry False [] k (length v)" for l
    by (simp add: key_entry_def)
  have "Add ssl k v None b = Ok ?b"
    using Cons.prems AddData_eq [OF assms(1), of b k v] by (simp add: Add_def)
  moreover have "length (sst_key ?b) = 32" and "data_block ?b" and "bb_use_delta_encoding ?b = delta"
    using Cons.prems by simp_all
  note Cons.IH [OF this]
  ultimately show ?case using assms(1) nd [of k kvs] e [of "bb_last_key b"]
    by (cases delta) (auto simp: kv add.assoc)
qed simp

text \<open>Building a data block gives exactly the layout, and the running estimate is its size.\<close>

lemma build_data_block:
  assumes "openssl_ok ssl" and "length key = 32"
  shows "\<exists>b. AddAll ssl (map (\<lambda>(k, v). (k, v, None)) kvs)
      (SetSSTKey key (NewBlockBuilder interval delta False t r True)) = Ok b \<and>
    (\<exists>b'. Finish ssl b = Ok (data_block_of ssl key delta kvs, b')) \<and>
    CurrentSizeEstimate b \<ge> length (data_block_of ssl key delta kvs)"
proof -
  let ?b = "SetSSTKey key (NewBlockBuilder interval delta False t r True)"
  have init: "sst_key ?b = key" "data_block ?b" "bb_use_delta_encoding ?b = delta" "meta_buf ?b = []"
    "bb_buffer ?b = []" "meta_offset ?b = 0" "bb_estimate ?b = 8" "bb_last_key ?b = []"
    by (simp_all add: SetSSTKey_def NewBlockBuilder_def)
  have "length (sst_key ?b) = 32" using assms(2) init(1) by simp
  then obtain b where r: "AddAll ssl (map (\<lambda>(k, v). (k, v, None)) kvs) ?b = Ok b"
    and m: "meta_buf b = meta_buf ?b @ key_part delta (if delta then bb_last_key ?b else []) kvs"
    and u: "bb_buffer b = bb_buffer ?b @ data_body ssl (sst_key ?b) kvs"
    and o: "meta_offset b = meta_offset ?b + word_of_nat (length (data_body ssl (sst_key ?b) kvs))"
    and s: "sst_key b = sst_key ?b" and d: "data_block b"
    and e: "bb_estimate b = bb_estimate ?b + (length (bb_buffer b) - length (bb_buffer ?b)) +
      (length (meta_buf b) - length (meta_buf ?b))"
    using AddAll_data [OF assms(1) _ init(2) init(3), of kvs] by blast
  note b = m [unfolded init] u [unfolded init] o [unfolded init] s [unfolded init] d
    e [unfolded init m u]
  have "FinishData ssl b = Ok (data_block_of ssl key delta kvs,
      b\<lparr>meta_buf := evp_encrypt ssl key gcm_iv gcm_aad (key_part delta [] kvs),
        bb_buffer := data_block_of ssl key delta kvs, bb_finished := True\<rparr>)"
    using b assms by (simp add: FinishData_def Encryption_ok Let_def PutFixed32_def data_block_of_def)
  then show ?thesis using r b assms
    by (auto simp: Finish_def CurrentSizeEstimate_def data_block_of_def)
qed

end
