(* ===== verification/Encrypted_Block.thy ===== *)
theory Encrypted_Block
  imports Block_Builder
begin

text \<open>
  Reading encrypted data blocks (\<open>sgx/encryptedblock.h\<close>, \<open>sgx/encryptedblock.cc\<close>) and the part of
  \<open>BlockIter\<close> (\<open>table/block_based/block.h\<close>) that this iterator inherits. The iterator first decrypts
  the keys of the block (\<open>Ready\<close>), then moves over them by index; a value is checked against its
  HMAC and decrypted when it is asked for (\<open>Updatevalue\<close>).
\<close>

section \<open>Shared iterator operations\<close>

definition IterCompareCurrentKey ::
    "(bytes \<Rightarrow> bytes \<Rightarrow> int) \<Rightarrow> IterKey \<Rightarrow> SequenceNumber \<Rightarrow> bytes \<Rightarrow> int" where
  "IterCompareCurrentKey ucmp raw_key global_seqno other =
     (if ik_is_user_key raw_key then ucmp (IterGetUserKey raw_key) other
      else if global_seqno = kDisableGlobalSequenceNumber then
        InternalCompare ucmp (ik_key raw_key) other
      else CompareGlobalSeqno ucmp (ik_key raw_key) global_seqno other
             kDisableGlobalSequenceNumber)"

text \<open>The key that \<open>UpdateKey\<close> exposes when the iterator is valid.\<close>

definition IterExposedKey :: "IterKey \<Rightarrow> SequenceNumber \<Rightarrow> bytes" where
  "IterExposedKey raw_key global_seqno =
     (if ik_is_user_key raw_key then IterGetUserKey raw_key
      else if global_seqno = kDisableGlobalSequenceNumber then ik_key raw_key
      else ik_key (SetInternalKeyParts NewIterKey [] (IterGetUserKey raw_key) global_seqno
                     (ExtractValueType (ik_key raw_key)) None))"

section \<open>The iterator\<close>

record offset_entry =
  oe_key :: bytes
  oe_offset :: u32
  oe_size :: u32

record EncryptedDataBlockIter =
  data_ptr :: "bytes option"
  restarts :: u32
  current :: u32
  raw_key :: IterKey
  exposed_key :: bytes
  cur_value :: bytes
  iter_status :: status
  global_seqno :: SequenceNumber
  key_offset_map :: "offset_entry list"
  current_index :: int
  iter_sst_key :: bytes
  value_dirty :: bool

definition NewEncryptedIter :: EncryptedDataBlockIter where
  "NewEncryptedIter =
     \<lparr>data_ptr = None, restarts = 0, current = 0, raw_key = NewIterKey, exposed_key = [],
      cur_value = [], iter_status = StatusOK, global_seqno = 0, key_offset_map = [],
      current_index = 0, iter_sst_key = [], value_dirty = True\<rparr>"

definition EncInvalidate :: "status \<Rightarrow> EncryptedDataBlockIter \<Rightarrow> EncryptedDataBlockIter" where
  "EncInvalidate s it = it\<lparr>data_ptr := None, current := restarts it, iter_status := s\<rparr>"

definition EncInitialize ::
    "bytes \<Rightarrow> u32 \<Rightarrow> SequenceNumber \<Rightarrow> EncryptedDataBlockIter \<Rightarrow> EncryptedDataBlockIter" where
  "EncInitialize data restart_offset seqno it =
     it\<lparr>data_ptr := Some data, restarts := restart_offset, current := restart_offset,
        global_seqno := seqno, raw_key := SetIsUserKey (raw_key it) False\<rparr>"

definition EncValid :: "EncryptedDataBlockIter \<Rightarrow> bool" where
  "EncValid it \<longleftrightarrow> current it < restarts it"

definition EncUpdateKey :: "EncryptedDataBlockIter \<Rightarrow> EncryptedDataBlockIter" where
  "EncUpdateKey it =
     (if \<not> EncValid it then it
      else it\<lparr>exposed_key := IterExposedKey (raw_key it) (global_seqno it)\<rparr>)"

definition EncCompareCurrentKey ::
    "(bytes \<Rightarrow> bytes \<Rightarrow> int) \<Rightarrow> EncryptedDataBlockIter \<Rightarrow> bytes \<Rightarrow> int" where
  "EncCompareCurrentKey ucmp it other =
     IterCompareCurrentKey ucmp (raw_key it) (global_seqno it) other"

section \<open>Reading the keys\<close>

text \<open>
  \<open>DecodeEntryV2\<close> reads three bytes without looking at the limit; a number that does not decode
  gives the null pointer, which the caller does not check.
\<close>

definition DecodeEntryV2 :: "bytes \<Rightarrow> ((u32 \<times> u32 \<times> u32) \<times> bytes) outcome" where
  "DecodeEntryV2 p =
     (if length p < 3 then Undef
      else
        (let shared = ucast (p ! 0); non_shared = ucast (p ! 1); value_length = ucast (p ! 2)
         in if shared OR non_shared OR value_length < (128 :: u32) then
              Ok ((shared, non_shared, value_length), drop 3 p)
            else
              of_opt
                (case GetVarint32Ptr p of None \<Rightarrow> None | Some (shared, p1) \<Rightarrow>
                (case GetVarint32Ptr p1 of None \<Rightarrow> None | Some (non_shared, p2) \<Rightarrow>
                (case GetVarint32Ptr p2 of None \<Rightarrow> None | Some (value_length, p3) \<Rightarrow>
                   Some ((shared, non_shared, value_length), p3))))))"

text \<open>
  One turn of the loop of \<open>Ready\<close>: the next key, the order check against the previous one, and the
  next entry of the map.
\<close>

definition ReadyKey :: "IterKey \<Rightarrow> u32 \<Rightarrow> u32 \<Rightarrow> bytes \<Rightarrow> IterKey outcome" where
  "ReadyKey entry_key shared non_shared next_ptr =
     (if unat non_shared > length next_ptr then Undef
      else if shared = 0 then Ok (SetKeyImpl entry_key (take (unat non_shared) next_ptr) True)
      else TrimAppend entry_key (unat shared) (take (unat non_shared) next_ptr))"

definition ReadyOrder ::
    "(bytes \<Rightarrow> bytes \<Rightarrow> int) \<Rightarrow> offset_entry list \<Rightarrow> bytes \<Rightarrow> unit outcome" where
  "ReadyOrder ucmp entries curr_key =
     (if entries = [] then Ok ()
      else if length (oe_key (last entries)) < 8 \<or> length curr_key < 8 then Undef
      else if ucmp (ExtractUserKey (oe_key (last entries))) (ExtractUserKey curr_key) > 0 then Exit
      else Ok ())"

lemma DecodeEntryV2_shorter:
  "DecodeEntryV2 p = Ok (e, q) \<Longrightarrow> length q < length p"
  by (auto simp: DecodeEntryV2_def Let_def of_opt_def dest!: GetVarint32Ptr_shorter
      split: if_splits option.splits)

function ReadyLoop ::
    "(bytes \<Rightarrow> bytes \<Rightarrow> int) \<Rightarrow> bytes \<Rightarrow> IterKey \<Rightarrow> u32 \<Rightarrow> offset_entry list \<Rightarrow>
     offset_entry list outcome" where
  "ReadyLoop ucmp current_ptr entry_key offset entries =
     (if current_ptr = [] then Ok entries
      else
        (case DecodeEntryV2 current_ptr of
           Exit \<Rightarrow> Exit
         | Undef \<Rightarrow> Undef
         | Ok ((shared, non_shared, value_length), next_ptr) \<Rightarrow>
             obind (ReadyKey entry_key shared non_shared next_ptr) (\<lambda>entry_key.
             obind (ReadyOrder ucmp entries (ik_key entry_key)) (\<lambda>_.
               ReadyLoop ucmp (drop (unat non_shared) next_ptr) entry_key
                 (offset + value_length + 48)
                 (entries @ [\<lparr>oe_key = ik_key entry_key, oe_offset = offset,
                              oe_size = value_length\<rparr>])))))"
  by pat_completeness auto
termination
  by (relation "measure (\<lambda>(_, p, _). length p)") (auto dest: DecodeEntryV2_shorter)

declare ReadyLoop.simps [simp del]

definition mem_range :: "bytes \<Rightarrow> nat \<Rightarrow> nat \<Rightarrow> bytes outcome" where
  "mem_range data off n = (if off + n \<le> length data then Ok (take n (drop off data)) else Undef)"

text \<open>\<open>size_\<close> is the size of the block's data; the length of the key part is computed in 32 bits.\<close>

definition Ready ::
    "openssl \<Rightarrow> (bytes \<Rightarrow> bytes \<Rightarrow> int) \<Rightarrow> bytes \<Rightarrow> EncryptedDataBlockIter \<Rightarrow>
     EncryptedDataBlockIter outcome" where
  "Ready ssl ucmp key it =
     obind (of_opt (data_ptr it)) (\<lambda>data.
     obind (if length data < 4 then Undef else of_opt (DecodeFixed32 (drop (length data - 4) data)))
       (\<lambda>meta_offset.
     let len = word_of_nat (length data) - meta_offset - 4 :: u32 in
     obind (mem_range data (unat meta_offset) (unat len)) (\<lambda>enc_buf.
     obind (Decryption ssl enc_buf key gcm_iv gcm_aad None) (\<lambda>(keys, _).
     obind (ReadyLoop ucmp keys NewIterKey 0 []) (\<lambda>entries.
       Ok (it\<lparr>key_offset_map := entries, iter_sst_key := key, restarts := meta_offset,
              current_index := -1\<rparr>))))))"

definition EncNewDataIterator ::
    "openssl \<Rightarrow> (bytes \<Rightarrow> bytes \<Rightarrow> int) \<Rightarrow> bytes \<Rightarrow> bytes \<Rightarrow> SequenceNumber \<Rightarrow>
     EncryptedDataBlockIter \<Rightarrow> EncryptedDataBlockIter outcome" where
  "EncNewDataIterator ssl ucmp contents key seqno it =
     (let size = (if length contents < 4 then 0 else length contents) in
      if size < 8 then Ok (EncInvalidate Corruption it)
      else Ready ssl ucmp key (EncInitialize contents 0 seqno it))"

section \<open>Values\<close>

definition map_entry :: "EncryptedDataBlockIter \<Rightarrow> int \<Rightarrow> offset_entry outcome" where
  "map_entry it i =
     (if 0 \<le> i \<and> nat i < length (key_offset_map it) then Ok (key_offset_map it ! nat i) else Undef)"

definition Updatevalue ::
    "openssl \<Rightarrow> EncryptedDataBlockIter \<Rightarrow> EncryptedDataBlockIter outcome" where
  "Updatevalue ssl it =
     obind (map_entry it (current_index it)) (\<lambda>e.
     obind (of_opt (data_ptr it)) (\<lambda>data.
     obind (mem_range data (unat (oe_offset e)) (unat (oe_size e))) (\<lambda>buff.
     obind (digest ssl (exposed_key it @ buff) (iter_sst_key it)) (\<lambda>hmac.
     obind (mem_range data (unat (oe_offset e) + length buff) 48) (\<lambda>hmacfromfile.
       if slice_compare hmac hmacfromfile \<noteq> 0 then Exit
       else
         obind (Decryption ssl buff (iter_sst_key it) gcm_iv gcm_aad None) (\<lambda>(v, _).
           Ok (it\<lparr>cur_value := v, value_dirty := False\<rparr>)))))))"

definition EncValue ::
    "openssl \<Rightarrow> EncryptedDataBlockIter \<Rightarrow> (bytes \<times> EncryptedDataBlockIter) outcome" where
  "EncValue ssl it =
     obind (if value_dirty it then Updatevalue ssl it else Ok it) (\<lambda>it. Ok (cur_value it, it))"

section \<open>Moving\<close>

definition SetEntry ::
    "EncryptedDataBlockIter \<Rightarrow> int \<Rightarrow> EncryptedDataBlockIter outcome" where
  "SetEntry it i =
     obind (map_entry it i) (\<lambda>e.
       Ok (it\<lparr>current_index := i, raw_key := SetKeyImpl (raw_key it) (oe_key e) True,
              current := oe_offset e + 48, value_dirty := True\<rparr>))"

definition EncNextImpl :: "EncryptedDataBlockIter \<Rightarrow> EncryptedDataBlockIter outcome" where
  "EncNextImpl it =
     (if current_index it < int (length (key_offset_map it)) - 1 then
        SetEntry it (current_index it + 1)
      else Ok (it\<lparr>current := current it + 20000\<rparr>))"

definition EncPrevImpl :: "EncryptedDataBlockIter \<Rightarrow> EncryptedDataBlockIter outcome" where
  "EncPrevImpl it =
     SetEntry it (if current_index it > 0 then current_index it - 1 else current_index it)"

text \<open>
  The search for the starting point compares the key it has just loaded with itself; a run that
  never leaves the loop is \<open>None\<close>.
\<close>

partial_function (option) EncSeekLoop ::
    "(bytes \<Rightarrow> bytes \<Rightarrow> int) \<Rightarrow> int \<Rightarrow> int \<Rightarrow> EncryptedDataBlockIter \<Rightarrow>
     EncryptedDataBlockIter run" where
  "EncSeekLoop ucmp start stop it =
     (let middle = (start + stop) div 2 in
      case map_entry it middle of
        Undef \<Rightarrow> Some Undef
      | Exit \<Rightarrow> Some Exit
      | Ok e \<Rightarrow>
          (let it = it\<lparr>current_index := middle, raw_key := SetKeyImpl (raw_key it) (oe_key e) True\<rparr>
           in if EncCompareCurrentKey ucmp it (oe_key e) < 0 then EncSeekLoop ucmp middle stop it
              else if middle - start \<le> 15 then Some (Ok (it\<lparr>current_index := start - 1\<rparr>))
              else EncSeekLoop ucmp start (middle - 1) it))"

partial_function (option) EncScanLoop ::
    "(bytes \<Rightarrow> bytes \<Rightarrow> int) \<Rightarrow> bytes \<Rightarrow> EncryptedDataBlockIter \<Rightarrow> EncryptedDataBlockIter run" where
  "EncScanLoop ucmp target it =
     (if current_index it < int (length (key_offset_map it)) \<and> EncValid it then
        (if EncCompareCurrentKey ucmp it target \<ge> 0 then Some (Ok it)
         else
           (case EncNextImpl it of
              Undef \<Rightarrow> Some Undef | Exit \<Rightarrow> Some Exit | Ok it \<Rightarrow> EncScanLoop ucmp target it))
      else Some (Ok it))"

definition EncSeekImpl ::
    "(bytes \<Rightarrow> bytes \<Rightarrow> int) \<Rightarrow> bytes \<Rightarrow> EncryptedDataBlockIter \<Rightarrow> EncryptedDataBlockIter run" where
  "EncSeekImpl ucmp target it =
     rbind (EncSeekLoop ucmp 0 (int (length (key_offset_map it))) it) (\<lambda>it.
     rbind (Some (EncNextImpl it)) (EncScanLoop ucmp target))"

definition EncSeekForGetImpl ::
    "(bytes \<Rightarrow> bytes \<Rightarrow> int) \<Rightarrow> bytes \<Rightarrow> EncryptedDataBlockIter \<Rightarrow> EncryptedDataBlockIter run" where
  "EncSeekForGetImpl ucmp target it = rbind (Some (EncNextImpl it)) (EncScanLoop ucmp target)"

definition EncSeekToFirstImpl :: "EncryptedDataBlockIter \<Rightarrow> EncryptedDataBlockIter outcome" where
  "EncSeekToFirstImpl it =
     (if data_ptr it = None then Ok it else EncNextImpl (it\<lparr>current_index := -1\<rparr>))"

definition EncSeekToLastImpl :: "EncryptedDataBlockIter \<Rightarrow> EncryptedDataBlockIter outcome" where
  "EncSeekToLastImpl it =
     (if data_ptr it = None then Ok it
      else EncPrevImpl (it\<lparr>current_index := int (length (key_offset_map it)) + 1\<rparr>))"

partial_function (option) EncPrevLoop ::
    "(bytes \<Rightarrow> bytes \<Rightarrow> int) \<Rightarrow> bytes \<Rightarrow> EncryptedDataBlockIter \<Rightarrow> EncryptedDataBlockIter run" where
  "EncPrevLoop ucmp seek_key it =
     (if EncValid it \<and> EncCompareCurrentKey ucmp it seek_key > 0 then
        (case EncPrevImpl it of
           Undef \<Rightarrow> Some Undef | Exit \<Rightarrow> Some Exit | Ok it \<Rightarrow> EncPrevLoop ucmp seek_key it)
      else Some (Ok it))"

definition EncSeekForPrevImpl ::
    "(bytes \<Rightarrow> bytes \<Rightarrow> int) \<Rightarrow> bytes \<Rightarrow> EncryptedDataBlockIter \<Rightarrow> EncryptedDataBlockIter run" where
  "EncSeekForPrevImpl ucmp target it =
     rbind (EncSeekImpl ucmp target it) (\<lambda>it.
       if \<not> EncValid it then Some (EncSeekToLastImpl it) else EncPrevLoop ucmp target it)"

text \<open>The public operations: the move, then \<open>UpdateKey\<close>.\<close>

definition exposing :: "EncryptedDataBlockIter run \<Rightarrow> EncryptedDataBlockIter run" where
  "exposing r = rbind r (\<lambda>it. Some (Ok (EncUpdateKey it)))"

definition EncSeek ::
    "(bytes \<Rightarrow> bytes \<Rightarrow> int) \<Rightarrow> bytes \<Rightarrow> EncryptedDataBlockIter \<Rightarrow> EncryptedDataBlockIter run" where
  "EncSeek ucmp target it = exposing (EncSeekImpl ucmp target it)"

text \<open>\<open>NewDataIterator\<close> passes no hash index, so \<open>SeekForGet\<close> is a seek.\<close>

definition EncSeekForGet ::
    "(bytes \<Rightarrow> bytes \<Rightarrow> int) \<Rightarrow> bytes \<Rightarrow> bool \<Rightarrow> EncryptedDataBlockIter \<Rightarrow>
     EncryptedDataBlockIter run" where
  "EncSeekForGet ucmp target has_hash_index it =
     (if \<not> has_hash_index then exposing (EncSeekImpl ucmp target it)
      else exposing (EncSeekForGetImpl ucmp target it))"

definition EncSeekForPrev ::
    "(bytes \<Rightarrow> bytes \<Rightarrow> int) \<Rightarrow> bytes \<Rightarrow> EncryptedDataBlockIter \<Rightarrow> EncryptedDataBlockIter run" where
  "EncSeekForPrev ucmp target it = exposing (EncSeekForPrevImpl ucmp target it)"

definition EncSeekToFirst :: "EncryptedDataBlockIter \<Rightarrow> EncryptedDataBlockIter run" where
  "EncSeekToFirst it = exposing (Some (EncSeekToFirstImpl it))"

definition EncSeekToLast :: "EncryptedDataBlockIter \<Rightarrow> EncryptedDataBlockIter run" where
  "EncSeekToLast it = exposing (Some (EncSeekToLastImpl it))"

definition EncNext :: "EncryptedDataBlockIter \<Rightarrow> EncryptedDataBlockIter run" where
  "EncNext it = exposing (Some (EncNextImpl it))"

definition EncPrev :: "EncryptedDataBlockIter \<Rightarrow> EncryptedDataBlockIter run" where
  "EncPrev it = exposing (Some (EncPrevImpl it))"

definition first_key :: "EncryptedDataBlockIter \<Rightarrow> bytes outcome" where
  "first_key it = obind (map_entry it 0) (\<lambda>e. Ok (oe_key e))"

definition last_key :: "EncryptedDataBlockIter \<Rightarrow> bytes outcome" where
  "last_key it = obind (map_entry it (int (length (key_offset_map it)) - 1)) (\<lambda>e. Ok (oe_key e))"

section \<open>The key part read back\<close>

lemma u32_less_128: "(v :: u32) < 128 \<longleftrightarrow> drop_bit 7 v = 0"
proof -
  have "drop_bit 7 v = 0 \<longleftrightarrow> unat (drop_bit 7 v) = 0" by (simp add: unat_eq_0)
  also have "\<dots> \<longleftrightarrow> unat v < 128" by (simp add: unat_drop_bit_div div_eq_0_iff)
  finally show ?thesis by (simp add: word_less_nat_alt)
qed

lemma or_less_128: "(a OR b :: u32) < 128 \<longleftrightarrow> a < 128 \<and> b < 128"
  by (simp add: u32_less_128 or_eq_0_iff)

lemma EncodeVarint32_first:
  obtains x xs where "EncodeVarint32 v = x # xs" and "(ucast x :: u32) < 128 \<longleftrightarrow> v < 128"
    and "v < 128 \<Longrightarrow> xs = [] \<and> ucast x = v"
proof (cases "v < 128")
  case True
  then have "unat v < 128" by (simp add: word_less_nat_alt)
  then have "take_bit 8 v = v"
    by (simp only: word_unat_eq_iff unsigned_take_bit_eq) (simp add: take_bit_nat_eq_self)
  then have "(ucast (ucast v :: byte) :: u32) = v" by (simp add: ucast_byte)
  then show ?thesis using that [of "ucast v" "[]"] True by (simp add: EncodeVarint32_def)
next
  case False
  have "(ucast (ucast (v OR 128) :: byte) :: u32) = take_bit 7 v OR 128"
    by (rule bit_word_eqI) (auto simp: bit_simps bit_7)
  then have "\<not> (ucast (ucast (v OR 128) :: byte) :: u32) < 128" by (simp add: or_less_128)
  then show ?thesis
    using that [of "ucast (v OR 128)" "tl (EncodeVarint32 v)"] False
    by (auto simp: EncodeVarint32_def Let_def)
qed

lemma DecodeEntryV2_Encode:
  "DecodeEntryV2 (EncodeVarint32 a @ EncodeVarint32 b @ EncodeVarint32 c @ r) = Ok ((a, b, c), r)"
proof -
  obtain x xs where x: "EncodeVarint32 a = x # xs" "(ucast x :: u32) < 128 \<longleftrightarrow> a < 128"
    "a < 128 \<Longrightarrow> xs = [] \<and> ucast x = a" using EncodeVarint32_first [of a] by blast
  obtain y ys where y: "EncodeVarint32 b = y # ys" "(ucast y :: u32) < 128 \<longleftrightarrow> b < 128"
    "b < 128 \<Longrightarrow> ys = [] \<and> ucast y = b" using EncodeVarint32_first [of b] by blast
  obtain z zs where z: "EncodeVarint32 c = z # zs" "(ucast z :: u32) < 128 \<longleftrightarrow> c < 128"
    "c < 128 \<Longrightarrow> zs = [] \<and> ucast z = c" using EncodeVarint32_first [of c] by blast
  let ?p = "EncodeVarint32 a @ EncodeVarint32 b @ EncodeVarint32 c @ r"
  have len: "\<not> length ?p < 3" by (simp add: x(1) y(1) z(1))
  have fast: "ucast (?p ! 0) OR ucast (?p ! 1) OR ucast (?p ! 2) < (128 :: u32) \<longleftrightarrow>
      a < 128 \<and> b < 128 \<and> c < 128"
  proof (cases "a < 128 \<and> b < 128")
    case True
    then have "?p = [x, y, z] @ zs @ r" using x y z by simp
    then show ?thesis using True x y z by (simp add: or_less_128)
  next
    case False
    then have "\<not> (ucast (?p ! 0) :: u32) < 128 \<or> \<not> (ucast (?p ! 1) :: u32) < 128"
      using x y by (cases "a < 128") auto
    then show ?thesis using False by (auto simp: or_less_128)
  qed
  show ?thesis
  proof (cases "a < 128 \<and> b < 128 \<and> c < 128")
    case True
    then have p: "?p = x # y # z # r" and "ucast x = a" "ucast y = b" "ucast z = c"
      using x y z by auto
    then show ?thesis using True unfolding p by (simp add: DecodeEntryV2_def or_less_128)
  next
    case False
    then show ?thesis using fast len unfolding DecodeEntryV2_def Let_def by auto
  qed
qed

text \<open>What \<open>Ready\<close> should find: the keys in order, with where their values are.\<close>

fun entries_of :: "u32 \<Rightarrow> (bytes \<times> bytes) list \<Rightarrow> offset_entry list" where
  "entries_of off [] = []"
| "entries_of off ((k, v) # kvs) =
     \<lparr>oe_key = k, oe_offset = off, oe_size = word_of_nat (length v)\<rparr> #
     entries_of (off + word_of_nat (length v) + 48) kvs"

text \<open>The blocks that the builder is asked for: internal keys, ordered by their user keys.\<close>

fun user_ordered :: "(bytes \<Rightarrow> bytes \<Rightarrow> int) \<Rightarrow> bytes list \<Rightarrow> bool" where
  "user_ordered ucmp (k # k' # ks) \<longleftrightarrow>
     ucmp (ExtractUserKey k) (ExtractUserKey k') \<le> 0 \<and> user_ordered ucmp (k' # ks)"
| "user_ordered ucmp _ \<longleftrightarrow> True"

definition block_entries :: "(bytes \<Rightarrow> bytes \<Rightarrow> int) \<Rightarrow> (bytes \<times> bytes) list \<Rightarrow> bool" where
  "block_entries ucmp kvs \<longleftrightarrow>
     list_all (\<lambda>(k, v). 8 \<le> length k \<and> length k < 2 ^ 32 \<and> length v < 2 ^ 32) kvs \<and>
     user_ordered ucmp (map fst kvs)"

lemma u32_of_nat [simp]: "n < 2 ^ 32 \<Longrightarrow> unat (word_of_nat n :: u32) = n"
  by (simp add: unsigned_of_nat take_bit_nat_eq_self)

lemma difference_offset_same_prefix:
  "take (difference_offset k l) l @ drop (difference_offset k l) k = k"
  using difference_offset_take [of k l] by (metis append_take_drop_id)

lemma ReadyKey_entry:
  assumes "length k < 2 ^ 32" and "shared = (if delta then difference_offset k l else 0)"
    and "delta \<Longrightarrow> ik_key ek = l"
  shows "\<exists>ek'. ReadyKey ek (word_of_nat shared) (word_of_nat (length k - shared))
      (drop shared k @ r) = Ok ek' \<and> ik_key ek' = k"
proof -
  have d: "difference_offset k l \<le> length k" "difference_offset k l \<le> length l"
    using difference_offset_le [of k l] by auto
  then have s: "shared \<le> length k" using assms by auto
  then have u: "unat (word_of_nat shared :: u32) = shared"
    "unat (word_of_nat (length k - shared) :: u32) = length k - shared"
    using assms(1) by (intro u32_of_nat; simp)+
  have z: "(word_of_nat shared :: u32) = 0 \<longleftrightarrow> shared = 0" by (metis u(1) of_nat_0 unat_eq_zero)
  show ?thesis
  proof (cases "shared = 0")
    case True
    then show ?thesis using u by (simp add: ReadyKey_def SetKeyImpl_def)
  next
    case False
    then have "delta" "shared = difference_offset k l" using assms(2) by (auto split: if_splits)
    then show ?thesis using False u z assms(3) d s difference_offset_same_prefix [of k l]
      by (simp add: ReadyKey_def TrimAppend_def)
  qed
qed

lemma ReadyLoop_key_part:
  assumes "block_entries ucmp kvs" and "delta \<Longrightarrow> ik_key ek = l"
    and "entries \<noteq> [] \<Longrightarrow> 8 \<le> length (oe_key (last entries)) \<and>
      user_ordered ucmp (oe_key (last entries) # map fst kvs)"
  shows "ReadyLoop ucmp (key_part delta l kvs) ek off entries = Ok (entries @ entries_of off kvs)"
  using assms
proof (induction kvs arbitrary: ek l off entries)
  case Nil
  then show ?case by (simp add: ReadyLoop.simps)
next
  case (Cons kv kvs)
  obtain k v where kv: "kv = (k, v)" by (cases kv)
  have k: "8 \<le> length k" "length k < 2 ^ 32" "length v < 2 ^ 32"
    using Cons.prems(1) by (auto simp: kv block_entries_def)
  have kvs: "block_entries ucmp kvs"
    using Cons.prems(1) by (cases kvs) (auto simp: kv block_entries_def)
  let ?s = "if delta then difference_offset k l else 0"
  let ?rest = "drop ?s k @ key_part delta k kvs"
  obtain ek' where ek: "ReadyKey ek (word_of_nat ?s) (word_of_nat (length k - ?s)) ?rest = Ok ek'"
    and ek': "ik_key ek' = k"
    using ReadyKey_entry [OF k(2) refl Cons.prems(2), where r = "key_part delta k kvs"] by metis
  have ord: "ReadyOrder ucmp entries k = Ok ()"
    using Cons.prems(3) k by (cases "entries = []") (auto simp: ReadyOrder_def kv)
  have "key_part delta l (kv # kvs) =
      EncodeVarint32 (word_of_nat ?s) @ EncodeVarint32 (word_of_nat (length k - ?s)) @
      EncodeVarint32 (word_of_nat (length v)) @ ?rest"
    by (simp add: kv key_entry_def Let_def)
  note dec = DecodeEntryV2_Encode [of "word_of_nat ?s" "word_of_nat (length k - ?s)"
      "word_of_nat (length v)" ?rest, folded this]
  have ne: "key_part delta l (kv # kvs) \<noteq> []" using dec by (auto simp: DecodeEntryV2_def)
  have drop: "drop (unat (word_of_nat (length k - ?s) :: u32)) ?rest = key_part delta k kvs"
    using k(2) by simp
  let ?e = "\<lparr>oe_key = k, oe_offset = off, oe_size = word_of_nat (length v)\<rparr>"
  have "ReadyLoop ucmp (key_part delta l (kv # kvs)) ek off entries =
      ReadyLoop ucmp (key_part delta k kvs) ek' (off + word_of_nat (length v) + 48) (entries @ [?e])"
    unfolding ReadyLoop.simps [of ucmp "key_part delta l (kv # kvs)"] dec
    using ne ek ek' ord drop by simp
  also have "\<dots> = Ok ((entries @ [?e]) @ entries_of (off + word_of_nat (length v) + 48) kvs)"
    using Cons.IH [OF kvs, of ek' k "entries @ [?e]"] Cons.prems(1) ek' k
    by (auto simp: kv block_entries_def)
  finally show ?case by (simp add: kv)
qed

section \<open>Where the values are\<close>

definition body_size :: "(bytes \<times> bytes) list \<Rightarrow> nat" where
  "body_size kvs = sum_list (map (\<lambda>kv. length (snd kv) + 48) kvs)"

lemma body_size_simps [simp]:
  "body_size [] = 0" "body_size (kv # kvs) = length (snd kv) + 48 + body_size kvs"
  "body_size (xs @ ys) = body_size xs + body_size ys"
  by (simp_all add: body_size_def)

lemma length_data_body [simp]: "openssl_ok ssl \<Longrightarrow> length (data_body ssl sk kvs) = body_size kvs"
  by (induction kvs) auto

lemma body_size_split:
  assumes "i < length kvs"
  shows "body_size kvs = body_size (take i kvs) + (length (snd (kvs ! i)) + 48) +
    body_size (drop (Suc i) kvs)"
proof -
  have "kvs = take i kvs @ kvs ! i # drop (Suc i) kvs"
    using assms by (rule id_take_nth_drop)
  then show ?thesis by (metis body_size_simps(2,3) add.assoc)
qed

lemma length_entries_of [simp]: "length (entries_of off kvs) = length kvs"
  by (induction off kvs rule: entries_of.induct) auto

lemma entries_of_nth:
  "i < length kvs \<Longrightarrow> entries_of off kvs ! i =
   \<lparr>oe_key = fst (kvs ! i), oe_offset = off + word_of_nat (body_size (take i kvs)),
    oe_size = word_of_nat (length (snd (kvs ! i)))\<rparr>"
proof (induction off kvs arbitrary: i rule: entries_of.induct)
  case (2 off k v kvs)
  then show ?case by (cases i) (simp_all add: ac_simps)
qed simp

text \<open>
  An iterator over the block built from \<open>kvs\<close>, and what it means that it stands at an entry.
\<close>

record enc_block =
  eb_ssl :: openssl
  eb_key :: bytes
  eb_delta :: bool
  eb_kvs :: "(bytes \<times> bytes) list"

definition enc_block_ok :: "(bytes \<Rightarrow> bytes \<Rightarrow> int) \<Rightarrow> enc_block \<Rightarrow> bool" where
  "enc_block_ok ucmp B \<longleftrightarrow>
     openssl_ok (eb_ssl B) \<and> length (eb_key B) = 32 \<and> block_entries ucmp (eb_kvs B) \<and>
     eb_kvs B \<noteq> [] \<and>
     length (data_block_of (eb_ssl B) (eb_key B) (eb_delta B) (eb_kvs B)) + 20000 < 2 ^ 32"

definition enc_data :: "enc_block \<Rightarrow> bytes" where
  "enc_data B = data_block_of (eb_ssl B) (eb_key B) (eb_delta B) (eb_kvs B)"

definition iter_over :: "enc_block \<Rightarrow> SequenceNumber \<Rightarrow> EncryptedDataBlockIter \<Rightarrow> bool" where
  "iter_over B seqno it \<longleftrightarrow>
     data_ptr it = Some (enc_data B) \<and> key_offset_map it = entries_of 0 (eb_kvs B) \<and>
     restarts it = word_of_nat (body_size (eb_kvs B)) \<and> iter_sst_key it = eb_key B \<and>
     \<not> ik_is_user_key (raw_key it) \<and> global_seqno it = seqno"

definition iter_at :: "enc_block \<Rightarrow> nat \<Rightarrow> EncryptedDataBlockIter \<Rightarrow> bool" where
  "iter_at B i it \<longleftrightarrow>
     i < length (eb_kvs B) \<and> current_index it = int i \<and> ik_key (raw_key it) = fst (eb_kvs B ! i) \<and>
     current it = word_of_nat (body_size (take i (eb_kvs B))) + 48 \<and> value_dirty it"

lemma enc_block_size:
  assumes "enc_block_ok ucmp B"
  shows "body_size (eb_kvs B) + 20000 < 2 ^ 32" and "0 < length (eb_kvs B)"
    and "48 \<le> body_size (eb_kvs B)"
proof -
  obtain kv kvs where "eb_kvs B = kv # kvs" using assms by (cases "eb_kvs B") (auto simp: enc_block_ok_def)
  then show "0 < length (eb_kvs B)" and "48 \<le> body_size (eb_kvs B)" by simp_all
  show "body_size (eb_kvs B) + 20000 < 2 ^ 32"
    using assms by (auto simp: enc_block_ok_def data_block_of_def)
qed

lemma NewDataIterator_opens:
  assumes ok: "enc_block_ok ucmp B"
  shows "\<exists>it. EncNewDataIterator (eb_ssl B) ucmp (enc_data B) (eb_key B) seqno NewEncryptedIter = Ok it \<and>
    iter_over B seqno it \<and> current_index it = -1 \<and> current it = 0 \<and> value_dirty it"
proof -
  let ?ssl = "eb_ssl B" and ?k = "eb_key B" and ?kvs = "eb_kvs B" and ?d = "enc_data B"
  have s: "openssl_ok ?ssl" and k: "length ?k = 32" and e: "block_entries ucmp ?kvs"
    using ok by (auto simp: enc_block_ok_def)
  let ?body = "data_body ?ssl ?k ?kvs"
  let ?keys = "key_part (eb_delta B) [] ?kvs"
  let ?enc = "evp_encrypt ?ssl ?k gcm_iv gcm_aad ?keys"
  have d: "?d = ?body @ ?enc @ EncodeFixed32 (word_of_nat (body_size ?kvs))"
    using s by (simp add: enc_data_def data_block_of_def)
  have small: "length ?d < 2 ^ 32" using ok by (simp add: enc_block_ok_def enc_data_def)
  have len: "length ?d = body_size ?kvs + length ?keys + 4" using s by (simp add: d)
  have meta: "DecodeFixed32 (drop (length ?d - 4) ?d) = Some (word_of_nat (body_size ?kvs))"
    using DecodeFixed32_Encode [of "word_of_nat (body_size ?kvs)" "[]"] s by (simp add: d)
  have u: "unat (word_of_nat (body_size ?kvs) :: u32) = body_size ?kvs" using small len by simp
  have "word_of_nat (length ?d) - word_of_nat (body_size ?kvs) - 4 = (word_of_nat (length ?keys) :: u32)"
    by (simp add: len)
  moreover have "unat (word_of_nat (length ?keys) :: u32) = length ?keys" using small len by simp
  ultimately have l: "unat (word_of_nat (length ?d) - word_of_nat (body_size ?kvs) - 4 :: u32) =
      length ?keys" by simp
  have m: "mem_range ?d (body_size ?kvs) (length ?keys) = Ok ?enc"
    using s by (simp add: mem_range_def d)
  have r: "ReadyLoop ucmp ?keys NewIterKey 0 [] = Ok (entries_of 0 ?kvs)"
    using ReadyLoop_key_part [OF e, of "eb_delta B" NewIterKey "[]" "[]" 0] by (simp add: NewIterKey_def)
  have ge: "48 \<le> body_size ?kvs" using enc_block_size(3) [OF ok] .
  have big: "\<not> length ?d < 8" using ge len by simp
  let ?it0 = "EncInitialize ?d 0 seqno NewEncryptedIter"
  have "Ready ?ssl ucmp ?k ?it0 = Ok (?it0\<lparr>key_offset_map := entries_of 0 ?kvs, iter_sst_key := ?k,
      restarts := word_of_nat (body_size ?kvs), current_index := -1\<rparr>)"
    unfolding Ready_def using big meta k s r
    by (simp add: EncInitialize_def Let_def l u m Decryption_ok)
  then show ?thesis using big
    by (auto simp: EncNewDataIterator_def iter_over_def EncInitialize_def NewEncryptedIter_def
        SetIsUserKey_def)
qed

section \<open>Moving over a built block\<close>

lemma SetEntry_at:
  assumes "iter_over B seqno it" and "i < length (eb_kvs B)"
  shows "\<exists>it'. SetEntry it (int i) = Ok it' \<and> iter_over B seqno it' \<and> iter_at B i it'"
  using assms
  by (simp add: SetEntry_def map_entry_def iter_over_def iter_at_def entries_of_nth SetKeyImpl_def)

lemma EncNextImpl_inner:
  assumes "iter_over B seqno it" and "current_index it + 1 = int i" and "i < length (eb_kvs B)"
  shows "\<exists>it'. EncNextImpl it = Ok it' \<and> iter_over B seqno it' \<and> iter_at B i it'"
proof -
  have "current_index it < int (length (key_offset_map it)) - 1"
    using assms by (auto simp: iter_over_def)
  then show ?thesis using SetEntry_at [OF assms(1,3)] assms(2) by (simp add: EncNextImpl_def)
qed

lemma iter_at_current:
  assumes "enc_block_ok ucmp B" and "iter_at B i it"
  shows "unat (current it) = body_size (take i (eb_kvs B)) + 48"
    and "unat (current it) \<le> body_size (eb_kvs B)"
proof -
  have i: "i < length (eb_kvs B)" using assms by (simp add: iter_at_def)
  have le: "body_size (take i (eb_kvs B)) + 48 \<le> body_size (eb_kvs B)"
    using body_size_split [OF i] by simp
  moreover have "current it = word_of_nat (body_size (take i (eb_kvs B)) + 48)"
    using assms by (simp add: iter_at_def)
  moreover have "unat (word_of_nat (body_size (take i (eb_kvs B)) + 48) :: u32) =
      body_size (take i (eb_kvs B)) + 48"
    using le enc_block_size(1) [OF assms(1)] by (intro u32_of_nat) simp
  ultimately show "unat (current it) = body_size (take i (eb_kvs B)) + 48"
    and "unat (current it) \<le> body_size (eb_kvs B)" by simp_all
qed

lemma unat_restarts:
  assumes "enc_block_ok ucmp B" and "iter_over B seqno it"
  shows "unat (restarts it) = body_size (eb_kvs B)"
  using assms enc_block_size(1) [OF assms(1)] by (simp add: iter_over_def)

text \<open>The iterator at an entry is valid unless the entry is the last one and its value is empty.\<close>

lemma EncValid_at:
  assumes "enc_block_ok ucmp B" and "iter_over B seqno it" and "iter_at B i it"
  shows "EncValid it \<longleftrightarrow> Suc i < length (eb_kvs B) \<or> snd (eb_kvs B ! i) \<noteq> []"
proof -
  have i: "i < length (eb_kvs B)" using assms(3) by (simp add: iter_at_def)
  have "EncValid it \<longleftrightarrow> 0 < length (snd (eb_kvs B ! i)) + body_size (drop (Suc i) (eb_kvs B))"
    unfolding EncValid_def word_less_nat_alt unat_restarts [OF assms(1,2)]
      iter_at_current(1) [OF assms(1,3)] using body_size_split [OF i] by simp
  moreover have "0 < body_size xs \<longleftrightarrow> xs \<noteq> []" for xs by (cases xs) auto
  then have "0 < body_size (drop (Suc i) (eb_kvs B)) \<longleftrightarrow> Suc i < length (eb_kvs B)"
    by (simp add: not_le)
  ultimately show ?thesis by (simp only: add_gr_0 length_greater_0_conv disj_commute)
qed

lemma EncNextImpl_last:
  assumes "iter_over B seqno it" and "current_index it + 1 = int (length (eb_kvs B))"
  shows "EncNextImpl it = Ok (it\<lparr>current := current it + 20000\<rparr>)"
  using assms by (simp add: EncNextImpl_def iter_over_def)

lemma iter_over_current [simp]: "iter_over B seqno (it\<lparr>current := c\<rparr>) = iter_over B seqno it"
  by (simp add: iter_over_def)

section \<open>Seeking in a built block\<close>

lemma EncCompare_self:
  assumes "comparator (InternalCompare ucmp)" and "global_seqno it = kDisableGlobalSequenceNumber"
    and "\<not> ik_is_user_key (raw_key it)"
  shows "EncCompareCurrentKey ucmp it (ik_key (raw_key it)) = 0"
  using assms comparator.refl [OF assms(1)]
  by (simp add: EncCompareCurrentKey_def IterCompareCurrentKey_def)

text \<open>
  The search always ends before the first entry: it compares every key with itself, so \<open>start\<close>
  never moves.
\<close>

lemma EncSeekLoop_result:
  assumes "comparator (InternalCompare ucmp)" and "global_seqno it = kDisableGlobalSequenceNumber"
    and "\<not> ik_is_user_key (raw_key it)" and "key_offset_map it \<noteq> []"
    and "stop \<le> length (key_offset_map it)"
  shows "\<exists>k. EncSeekLoop ucmp 0 (int stop) it = Some (Ok (it\<lparr>raw_key := k, current_index := -1\<rparr>)) \<and>
    \<not> ik_is_user_key k"
  using assms(2-)
proof (induction stop arbitrary: it rule: less_induct)
  case (less stop)
  define m where "m = stop div 2"
  have m: "(0 + int stop) div 2 = int m" by (simp add: m_def zdiv_int)
  have ml: "m < length (key_offset_map it)"
    using less.prems(3,4) by (cases "key_offset_map it") (auto simp: m_def)
  define e where "e = key_offset_map it ! m"
  define it' where "it' = it\<lparr>current_index := int m, raw_key := SetKeyImpl (raw_key it) (oe_key e) True\<rparr>"
  have cmp: "EncCompareCurrentKey ucmp it' (oe_key e) = 0"
    using EncCompare_self [OF assms(1), of it'] less.prems by (simp add: it'_def SetKeyImpl_def)
  have step: "EncSeekLoop ucmp 0 (int stop) it =
      (if m \<le> 15 then Some (Ok (it'\<lparr>current_index := -1\<rparr>))
       else EncSeekLoop ucmp 0 (int m - 1) it')"
    by (subst EncSeekLoop.simps)
      (simp only: Let_def m, simp add: cmp ml map_entry_def e_def [symmetric] it'_def [symmetric])
  show ?case
  proof (cases "m \<le> 15")
    case True
    then show ?thesis using step less.prems
      by (intro exI [of _ "raw_key it'"]) (simp add: it'_def SetKeyImpl_def)
  next
    case False
    then have lt: "m - 1 < stop" by (simp add: m_def)
    have "m - 1 \<le> length (key_offset_map it')" using ml by (simp add: it'_def)
    moreover have "\<not> ik_is_user_key (raw_key it')" "key_offset_map it' \<noteq> []"
      "global_seqno it' = kDisableGlobalSequenceNumber"
      using less.prems by (simp_all add: it'_def SetKeyImpl_def)
    ultimately obtain k where k: "EncSeekLoop ucmp 0 (int (m - 1)) it' =
        Some (Ok (it'\<lparr>raw_key := k, current_index := -1\<rparr>))" "\<not> ik_is_user_key k"
      using less.IH [OF lt, of it'] by auto
    have "int m - 1 = int (m - 1)" using False by simp
    then have "EncSeekLoop ucmp 0 (int stop) it = Some (Ok (it'\<lparr>raw_key := k, current_index := -1\<rparr>))"
      unfolding step using False k(1) by (simp only: if_False)
    moreover have "it'\<lparr>raw_key := k, current_index := -1\<rparr> = it\<lparr>raw_key := k, current_index := -1\<rparr>"
      by (simp add: it'_def)
    ultimately show ?thesis using k(2) by metis
  qed
qed

text \<open>Once past the last entry the scan stops, however long its value.\<close>

lemma EncScanLoop_end:
  assumes B: "enc_block_ok ucmp B" and "iter_over B seqno it"
    and "current_index it + 1 = int (length (eb_kvs B))"
    and "EncCompareCurrentKey ucmp it target < 0"
  shows "\<exists>c. EncScanLoop ucmp target it = Some (Ok (it\<lparr>current := c\<rparr>)) \<and>
    \<not> EncValid (it\<lparr>current := c\<rparr>)"
  using assms(2-)
proof (induction "body_size (eb_kvs B) - unat (current it)" arbitrary: it rule: less_induct)
  case less
  show ?case
  proof (cases "EncValid it")
    case False
    then show ?thesis using EncScanLoop.simps [of ucmp target it]
      by (intro exI [of _ "current it"]) simp
  next
    case True
    then have lt: "unat (current it) < body_size (eb_kvs B)"
      using unat_restarts [OF B less.prems(1)] by (simp add: EncValid_def word_less_nat_alt)
    let ?it = "it\<lparr>current := current it + 20000\<rparr>"
    have "unat (current it + 20000) = unat (current it) + 20000"
      using lt enc_block_size(1) [OF B] by (simp add: unat_word_ariths)
    then have "body_size (eb_kvs B) - unat (current ?it) < body_size (eb_kvs B) - unat (current it)"
      using lt by simp
    then have "\<exists>c. EncScanLoop ucmp target ?it = Some (Ok (?it\<lparr>current := c\<rparr>)) \<and>
        \<not> EncValid (?it\<lparr>current := c\<rparr>)"
      by (rule less.hyps) (use less.prems in \<open>simp_all add: EncCompareCurrentKey_def\<close>)
    moreover have "EncScanLoop ucmp target it = EncScanLoop ucmp target ?it"
      using True less.prems EncNextImpl_last [OF less.prems(1,2)]
        EncScanLoop.simps [of ucmp target it] by (simp add: iter_over_def)
    ultimately show ?thesis by simp
  qed
qed

text \<open>The first entry from \<open>i\<close> on that is not before the target.\<close>

definition first_at_least ::
    "(bytes \<Rightarrow> bytes \<Rightarrow> int) \<Rightarrow> enc_block \<Rightarrow> bytes \<Rightarrow> nat" where
  "first_at_least ucmp B target =
     length (takeWhile (\<lambda>kv. InternalCompare ucmp (fst kv) target < 0) (eb_kvs B))"

lemma EncCompare_at:
  assumes "iter_over B kDisableGlobalSequenceNumber it" and "iter_at B i it"
  shows "EncCompareCurrentKey ucmp it target = InternalCompare ucmp (fst (eb_kvs B ! i)) target"
  using assms
  by (simp add: EncCompareCurrentKey_def IterCompareCurrentKey_def iter_over_def iter_at_def)

lemma EncScanLoop_finds:
  assumes B: "enc_block_ok ucmp B" and "iter_over B kDisableGlobalSequenceNumber it"
    and "iter_at B i it" and "i \<le> first_at_least ucmp B target"
  shows "\<exists>it'. EncScanLoop ucmp target it = Some (Ok it') \<and>
    iter_over B kDisableGlobalSequenceNumber it' \<and>
    (if first_at_least ucmp B target < length (eb_kvs B)
     then iter_at B (first_at_least ucmp B target) it' else \<not> EncValid it')"
  using assms(2-)
proof (induction "length (eb_kvs B) - i" arbitrary: i it)
  case 0
  then show ?case by (simp add: iter_at_def)
next
  case (Suc n)
  let ?f = "first_at_least ucmp B target" and ?kvs = "eb_kvs B"
  note over = Suc.prems(1) and at = Suc.prems(2)
  have i: "i < length ?kvs" and idx: "current_index it = int i"
    using at by (auto simp: iter_at_def)
  have idx': "current_index it < int (length (key_offset_map it))"
    using over i idx by (simp add: iter_over_def)
  note cmp = EncCompare_at [OF over at, of ucmp target]
  have f_eq: "i = ?f" if "\<not> InternalCompare ucmp (fst (?kvs ! i)) target < 0"
    using that Suc.prems(3) i unfolding first_at_least_def
    by (metis le_neq_implies_less nth_mem set_takeWhileD takeWhile_nth)
  have f_less: "i < ?f" if "InternalCompare ucmp (fst (?kvs ! i)) target < 0"
  proof (rule ccontr)
    assume "\<not> i < ?f"
    then have "i = ?f" using Suc.prems(3) by simp
    then show False using that i nth_length_takeWhile [of "\<lambda>kv. InternalCompare ucmp (fst kv) target < 0" ?kvs]
      by (simp add: first_at_least_def)
  qed
  show ?case
  proof (cases "InternalCompare ucmp (fst (?kvs ! i)) target < 0")
    case False
    then have "EncScanLoop ucmp target it = Some (Ok it)"
      using EncScanLoop.simps [of ucmp target it] cmp by simp
    then show ?thesis using f_eq [OF False] i over at by auto
  next
    case less: True
    show ?thesis
    proof (cases "Suc i < length ?kvs")
      case True
      then obtain it' where it': "EncNextImpl it = Ok it'"
        "iter_over B kDisableGlobalSequenceNumber it'" "iter_at B (Suc i) it'"
        using EncNextImpl_inner [OF over, of "Suc i"] idx by auto
      have "EncValid it" using EncValid_at [OF B over at] True by simp
      then have "EncScanLoop ucmp target it = EncScanLoop ucmp target it'"
        using EncScanLoop.simps [of ucmp target it] cmp less it' idx' by simp
      moreover have "n = length ?kvs - Suc i" using Suc.hyps(2) by simp
      ultimately show ?thesis
        using Suc.hyps(1) [of "Suc i" it'] it' f_less [OF less] by simp
    next
      case False
      then have last: "current_index it + 1 = int (length ?kvs)" using i idx by simp
      have lt: "EncCompareCurrentKey ucmp it target < 0" using cmp less by simp
      obtain c where c: "EncScanLoop ucmp target it = Some (Ok (it\<lparr>current := c\<rparr>))"
        "\<not> EncValid (it\<lparr>current := c\<rparr>)"
        using EncScanLoop_end [OF B over last lt] by blast
      moreover have "\<not> ?f < length ?kvs" using f_less [OF less] False by simp
      ultimately show ?thesis using over by auto
    qed
  qed
qed

lemma EncSeekImpl_finds:
  assumes B: "enc_block_ok ucmp B" and cmp: "comparator (InternalCompare ucmp)"
    and over: "iter_over B kDisableGlobalSequenceNumber it"
  shows "\<exists>it'. EncSeekImpl ucmp target it = Some (Ok it') \<and>
    iter_over B kDisableGlobalSequenceNumber it' \<and>
    (if first_at_least ucmp B target < length (eb_kvs B)
     then iter_at B (first_at_least ucmp B target) it' else \<not> EncValid it')"
proof -
  have ne: "key_offset_map it \<noteq> []"
    using over enc_block_size(2) [OF B] unfolding iter_over_def
    by (metis length_entries_of length_greater_0_conv)
  then obtain k where k: "EncSeekLoop ucmp 0 (int (length (key_offset_map it))) it =
      Some (Ok (it\<lparr>raw_key := k, current_index := -1\<rparr>))" "\<not> ik_is_user_key k"
    using EncSeekLoop_result [OF cmp, of it] over by (auto simp: iter_over_def)
  let ?it = "it\<lparr>raw_key := k, current_index := -1\<rparr>"
  have "iter_over B kDisableGlobalSequenceNumber ?it" using over k(2) by (simp add: iter_over_def)
  then obtain it1 where it1: "EncNextImpl ?it = Ok it1"
    "iter_over B kDisableGlobalSequenceNumber it1" "iter_at B 0 it1"
    using EncNextImpl_inner [of B _ ?it 0] enc_block_size(2) [OF B] by auto
  show ?thesis using EncScanLoop_finds [OF B it1(2,3)] it1(1) k(1)
    by (simp add: EncSeekImpl_def rbind_def)
qed

section \<open>Values and tampering\<close>

lemma data_record_at:
  assumes s: "openssl_ok ssl" and i: "i < length kvs"
  shows "take (length (snd (kvs ! i)) + 48) (drop (body_size (take i kvs)) (data_body ssl k kvs)) =
    data_record ssl k (kvs ! i)"
proof -
  have "data_body ssl k kvs =
      data_body ssl k (take i kvs) @ data_record ssl k (kvs ! i) @ data_body ssl k (drop (Suc i) kvs)"
    using id_take_nth_drop [OF i] by (metis data_body_simps(2,3))
  then show ?thesis using s by simp
qed

text \<open>The value of the entry the iterator stands at is what was stored under its key.\<close>

lemma EncValue_at:
  assumes B: "enc_block_ok ucmp B" and over: "iter_over B seqno it" and at: "iter_at B i it"
    and key: "exposed_key it = fst (eb_kvs B ! i)"
  shows "EncValue (eb_ssl B) it =
    Ok (snd (eb_kvs B ! i), it\<lparr>cur_value := snd (eb_kvs B ! i), value_dirty := False\<rparr>)"
proof -
  let ?ssl = "eb_ssl B" and ?k = "eb_key B" and ?kvs = "eb_kvs B"
  let ?key = "fst (?kvs ! i)" and ?v = "snd (?kvs ! i)" and ?off = "body_size (take i ?kvs)"
  have s: "openssl_ok ?ssl" and kl: "length ?k = 32" using B by (auto simp: enc_block_ok_def)
  have i: "i < length ?kvs" using at by (simp add: iter_at_def)
  note split = body_size_split [OF i]
  have small: "body_size ?kvs < 2 ^ 32" using enc_block_size(1) [OF B] by simp
  have off: "unat (word_of_nat ?off :: u32) = ?off" and sz: "unat (word_of_nat (length ?v) :: u32) = length ?v"
    using split small by (intro u32_of_nat; simp)+
  let ?ct = "sealed_value ?ssl ?k ?v"
  let ?mac = "hmac_sha3_384 ?ssl ?k (?key @ ?ct)"
  have body: "take n (drop ?off (enc_data B)) = take n (data_record ?ssl ?k (?kvs ! i))"
    if "n \<le> length ?v + 48" for n
  proof -
    have "take n (drop ?off (enc_data B)) = take n (drop ?off (data_body ?ssl ?k ?kvs))"
      using s that split by (simp add: enc_data_def data_block_of_def)
    also have "\<dots> = take n (take (length ?v + 48) (drop ?off (data_body ?ssl ?k ?kvs)))"
      using that by (simp add: min_absorb1)
    finally show ?thesis by (simp only: data_record_at [OF s i])
  qed
  have len: "?off + (length ?v + 48) \<le> length (enc_data B)"
    using s split by (simp add: enc_data_def data_block_of_def)
  have rec: "data_record ?ssl ?k (?kvs ! i) = ?ct @ ?mac" using s by (simp add: data_record_def)
  have m1: "mem_range (enc_data B) ?off (length ?v) = Ok ?ct"
    using len body [of "length ?v"] s by (simp add: mem_range_def rec)
  have m2: "mem_range (enc_data B) (?off + length ?v) 48 = Ok ?mac"
  proof -
    have "take 48 (drop (?off + length ?v) (enc_data B)) =
        drop (length ?v) (take (length ?v + 48) (drop ?off (enc_data B)))"
      by (simp add: take_drop ac_simps)
    then show ?thesis using len body [of "length ?v + 48"] s by (simp add: mem_range_def rec)
  qed
  have e: "map_entry it (current_index it) = Ok \<lparr>oe_key = ?key, oe_offset = word_of_nat ?off,
      oe_size = word_of_nat (length ?v)\<rparr>"
    using over at i by (simp add: map_entry_def iter_over_def iter_at_def entries_of_nth)
  have dec: "evp_decrypt ?ssl ?k gcm_iv gcm_aad ?ct = ?v" using s by (simp add: sealed_value_def)
  have "Updatevalue ?ssl it = Ok (it\<lparr>cur_value := ?v, value_dirty := False\<rparr>)"
    unfolding Updatevalue_def e obind_simps offset_entry.select_convs off sz
    using over kl s key dec m1 m2
    by (simp add: iter_over_def digest_ok Decryption_ok)
  then show ?thesis using at by (simp add: EncValue_def iter_at_def)
qed

text \<open>
  A value is only ever returned when the block holds, behind its ciphertext, the HMAC of the
  key and the ciphertext: any other bytes end the process.
\<close>

lemma Updatevalue_authentic:
  assumes "Updatevalue ssl it = Ok it'"
  shows "\<exists>e data ct. map_entry it (current_index it) = Ok e \<and> data_ptr it = Some data \<and>
    ct = take (unat (oe_size e)) (drop (unat (oe_offset e)) data) \<and>
    hmac_sha3_384 ssl (take 32 (iter_sst_key it)) (exposed_key it @ ct) =
      take 48 (drop (unat (oe_offset e) + length ct) data) \<and>
    cur_value it' = evp_decrypt ssl (take 32 (iter_sst_key it)) gcm_iv gcm_aad ct"
  using assms
  by (auto simp: Updatevalue_def obind_eq_Ok mem_range_def of_opt_def digest_def Decryption_def
      read_key_def split: if_splits option.splits)

text \<open>The HMAC does not say where the key ends: a record can be split at another place.\<close>

lemma Updatevalue_resplit:
  assumes s: "openssl_ok ssl" and k: "length key = 32"
    and d: "data_ptr it = Some data" and key: "iter_sst_key it = key"
    and e: "map_entry it (current_index it) = Ok \<lparr>oe_key = ukey @ take n ct,
      oe_offset = word_of_nat (off + n), oe_size = word_of_nat (length ct - n)\<rparr>"
    and x: "exposed_key it = ukey @ take n ct" and n: "n \<le> length ct"
    and rec: "take (length ct + 48) (drop off data) = ct @ hmac_sha3_384 ssl key (ukey @ ct)"
    and len: "off + length ct + 48 \<le> length data" and small: "length data < 2 ^ 32"
  shows "Updatevalue ssl it =
    Ok (it\<lparr>cur_value := evp_decrypt ssl key gcm_iv gcm_aad (drop n ct), value_dirty := False\<rparr>)"
proof -
  have u: "unat (word_of_nat (off + n) :: u32) = off + n"
    "unat (word_of_nat (length ct - n) :: u32) = length ct - n"
    using n len small by (intro u32_of_nat; simp)+
  have r: "take m (drop off data) = take m (ct @ hmac_sha3_384 ssl key (ukey @ ct))"
    if "m \<le> length ct + 48" for m
    using that arg_cong [OF rec, of "take m"] by (simp add: min_absorb1)
  have "take (length ct - n) (drop (off + n) data) = drop n (take (length ct) (drop off data))"
    using n by (simp add: take_drop add.commute)
  then have m1: "mem_range data (off + n) (length ct - n) = Ok (drop n ct)"
    using r [of "length ct"] len n by (simp add: mem_range_def)
  have "take 48 (drop (off + length ct) data) = drop (length ct) (take (length ct + 48) (drop off data))"
    by (simp add: take_drop ac_simps)
  then have m2: "mem_range data (off + length ct) 48 = Ok (hmac_sha3_384 ssl key (ukey @ ct))"
    using rec len by (simp add: mem_range_def)
  have "length (drop n ct) = length ct - n" by simp
  then show ?thesis
    unfolding Updatevalue_def e obind_simps offset_entry.select_convs u
    using m1 m2 d key k x n by (simp add: digest_ok Decryption_ok)
qed

section \<open>Where the iterator does not behave\<close>

text \<open>\<open>SeekToLast\<close> starts two places behind the last entry and steps back once.\<close>

lemma EncSeekToLastImpl_undefined:
  "data_ptr it \<noteq> None \<Longrightarrow> EncSeekToLastImpl it = Undef"
  by (simp add: EncSeekToLastImpl_def EncPrevImpl_def SetEntry_def map_entry_def)

text \<open>Going back from the first entry stays there.\<close>

lemma EncPrevImpl_first:
  assumes "iter_over B seqno it" and "iter_at B 0 it"
  shows "\<exists>it'. EncPrevImpl it = Ok it' \<and> iter_over B seqno it' \<and> iter_at B 0 it'"
  using SetEntry_at [OF assms(1), of 0] assms(2) by (simp add: EncPrevImpl_def iter_at_def)

lemma EncPrevImpl_inner:
  assumes "iter_over B seqno it" and "iter_at B (Suc i) it"
  shows "\<exists>it'. EncPrevImpl it = Ok it' \<and> iter_over B seqno it' \<and> iter_at B i it'"
  using SetEntry_at [OF assms(1), of i] assms(2) by (simp add: EncPrevImpl_def iter_at_def)


text \<open>So stepping back before a key that precedes all entries never ends.\<close>

lemma EncPrevLoop_diverges:
  assumes B: "enc_block_ok ucmp B" and "iter_over B kDisableGlobalSequenceNumber it"
    and "iter_at B i it"
    and all: "\<forall>kv \<in> set (eb_kvs B). 0 < InternalCompare ucmp (fst kv) target"
    and ne: "\<forall>kv \<in> set (eb_kvs B). snd kv \<noteq> []"
  shows "EncPrevLoop ucmp target it = None"
proof -
  have "\<not> (u = ucmp \<and> t = target \<and> iter_over B kDisableGlobalSequenceNumber it \<and> (\<exists>i. iter_at B i it))"
    if "EncPrevLoop u t it = Some y" for u t it y
    using that
  proof (induction rule: EncPrevLoop.raw_induct [rotated, consumes 1, case_names step])
    case (step loop u t it y)
    show ?case
    proof (intro notI, elim conjE exE)
      fix i
      assume eq: "u = ucmp" "t = target" and over: "iter_over B kDisableGlobalSequenceNumber it"
        and at: "iter_at B i it"
      have i: "i < length (eb_kvs B)" using at by (simp add: iter_at_def)
      have v: "EncValid it" using EncValid_at [OF B over at] ne i by simp
      have c: "EncCompareCurrentKey ucmp it target > 0"
        using EncCompare_at [OF over at, of ucmp target] all i by simp
      obtain it' j where it': "EncPrevImpl it = Ok it'"
        "iter_over B kDisableGlobalSequenceNumber it'" "iter_at B j it'"
        using EncPrevImpl_first [OF over] EncPrevImpl_inner [OF over] at by (cases i) blast+
      have "loop u t it' = Some y" using step(2) v c it'(1) eq by simp
      then show False using step(1) [of u t it' y] it'(2,3) eq by blast
    qed
  qed
  then show ?thesis using assms(2,3) by (cases "EncPrevLoop ucmp target it") blast+
qed

text \<open>
  With a global sequence number above the stored ones the search never ends: every key compares
  below itself.
\<close>

lemma EncSeekLoop_diverges:
  assumes cmp: "comparator ucmp"
    and g: "global_seqno it \<noteq> kDisableGlobalSequenceNumber"
    and low: "\<forall>e \<in> set (key_offset_map it).
      ExtractInternalKeyFooter (oe_key e) <
      PackSequenceAndType (global_seqno it) (ExtractValueType (oe_key e))"
    and uk: "\<not> ik_is_user_key (raw_key it)"
    and range: "0 \<le> start" "start < int (length (key_offset_map it))"
  shows "EncSeekLoop ucmp start (int (length (key_offset_map it))) it = None"
proof -
  let ?bad = "\<lambda>it'. key_offset_map it' = key_offset_map it \<and> global_seqno it' = global_seqno it \<and>
    \<not> ik_is_user_key (raw_key it')"
  have "\<not> (u = ucmp \<and> ?bad it' \<and> 0 \<le> start \<and> start < stop \<and>
      stop = int (length (key_offset_map it)))"
    if "EncSeekLoop u start stop it' = Some y" for u start stop it' y
    using that
  proof (induction rule: EncSeekLoop.raw_induct [rotated, consumes 1, case_names step])
    case (step loop u start stop it' y)
    show ?case
    proof (intro notI, elim conjE)
      assume eq: "u = ucmp" "stop = int (length (key_offset_map it))"
        and bad: "key_offset_map it' = key_offset_map it" "global_seqno it' = global_seqno it"
          "\<not> ik_is_user_key (raw_key it')"
        and range: "0 \<le> start" "start < stop"
      define m where "m = (start + stop) div 2"
      have m: "0 \<le> m" "m < stop" using range by (auto simp: m_def)
      define e where "e = key_offset_map it ! nat m"
      have e: "map_entry it' m = Ok e" "e \<in> set (key_offset_map it)"
        using m eq bad by (auto simp: map_entry_def e_def)
      define it1 where
        "it1 = it'\<lparr>current_index := m, raw_key := SetKeyImpl (raw_key it') (oe_key e) True\<rparr>"
      have "EncCompareCurrentKey ucmp it1 (oe_key e) < 0"
        using low e(2) g bad comparator.refl [OF cmp]
        by (simp add: EncCompareCurrentKey_def IterCompareCurrentKey_def it1_def SetKeyImpl_def
            CompareGlobalSeqno_def Let_def)
      then have "loop u m stop it1 = Some y"
        using step(2) e(1) eq(1) by (simp add: Let_def m_def [symmetric] it1_def [symmetric])
      then show False
        using step(1) [of u m stop it1 y] eq bad m by (simp add: it1_def SetKeyImpl_def)
    qed
  qed
  then show ?thesis using uk range
    by (cases "EncSeekLoop ucmp start (int (length (key_offset_map it))) it") blast+
qed

text \<open>A block without entries, or an invalidated iterator, has no key to start from.\<close>

lemma EncSeekImpl_no_entries: "key_offset_map it = [] \<Longrightarrow> EncSeekImpl ucmp target it = Some Undef"
  unfolding EncSeekImpl_def by (subst EncSeekLoop.simps) (simp add: map_entry_def rbind_def)

section \<open>A whole pass\<close>

text \<open>The loop of a client: while the iterator is valid, key and value are read, then it moves on.\<close>

fun EncReadFrom :: "openssl \<Rightarrow> nat \<Rightarrow> EncryptedDataBlockIter \<Rightarrow> (bytes \<times> bytes) list run" where
  "EncReadFrom ssl 0 it = Some (Ok [])"
| "EncReadFrom ssl (Suc n) it =
     (if \<not> EncValid it then Some (Ok [])
      else
        rbind (Some (EncValue ssl it)) (\<lambda>(v, it1).
        rbind (EncNext it1) (\<lambda>it2.
        rbind (EncReadFrom ssl n it2) (\<lambda>kvs. Some (Ok ((exposed_key it, v) # kvs))))))"

lemma iter_over_fields [simp]:
  "iter_over B seqno (it\<lparr>cur_value := v, value_dirty := d\<rparr>) = iter_over B seqno it"
  by (simp add: iter_over_def)

text \<open>Past the last entry the iterator is invalid, unless that entry's value has more than 20000 bytes.\<close>

lemma EncNext_past_end:
  assumes B: "enc_block_ok ucmp B" and over: "iter_over B seqno it" and at: "iter_at B i it"
    and last: "Suc i = length (eb_kvs B)"
  shows "\<exists>it'. EncNextImpl it = Ok it' \<and> current_index it' = int i \<and>
    (EncValid it' \<longleftrightarrow> 20000 < length (snd (eb_kvs B ! i)))"
proof -
  have idx: "current_index it + 1 = int (length (eb_kvs B))" using at last by (auto simp: iter_at_def)
  have "i < length (eb_kvs B)" using last by simp
  then have sz: "body_size (eb_kvs B) =
      body_size (take i (eb_kvs B)) + (length (snd (eb_kvs B ! i)) + 48)"
    using body_size_split [of i "eb_kvs B"] last by simp
  have c: "unat (current it) = body_size (take i (eb_kvs B)) + 48"
    using iter_at_current [OF B at] by simp
  have "unat (current it + 20000) = unat (current it) + 20000"
    using c sz enc_block_size(1) [OF B] by (subst unat_word_ariths) simp
  then have "EncValid (it\<lparr>current := current it + 20000\<rparr>) \<longleftrightarrow> 20000 < length (snd (eb_kvs B ! i))"
    using c sz unat_restarts [OF B over] by (simp add: EncValid_def word_less_nat_alt)
  then show ?thesis using EncNextImpl_last [OF over idx] idx last by auto
qed

text \<open>
  At the last entry a step moves only the position, by 20000 bytes, until it is behind the entry's value:
  the entry is given once for every 20000 bytes that its value has begun.
\<close>

definition last_count :: "bytes \<Rightarrow> nat" where
  "last_count v = (length v + 19999) div 20000"

definition read_back :: "(bytes \<times> bytes) list \<Rightarrow> (bytes \<times> bytes) list" where
  "read_back kvs = butlast kvs @ replicate (last_count (snd (last kvs))) (last kvs)"

lemma EncReadFrom_last:
  assumes B: "enc_block_ok ucmp B" and e: "Suc i = length (eb_kvs B)" and v: "v = snd (eb_kvs B ! i)"
    and over: "iter_over B kDisableGlobalSequenceNumber it" and idx: "current_index it = int i"
    and key: "ik_key (raw_key it) = fst (eb_kvs B ! i)"
    and cur: "unat (current it) = body_size (take i (eb_kvs B)) + 48 + 20000 * m" "m \<le> last_count v"
    and val: "m = 0 \<and> value_dirty it \<or> \<not> value_dirty it \<and> cur_value it = v"
    and x: "EncValid it \<Longrightarrow> exposed_key it = fst (eb_kvs B ! i)" and n: "last_count v - m \<le> n"
  shows "EncReadFrom (eb_ssl B) n it = Some (Ok (replicate (last_count v - m) (eb_kvs B ! i)))"
  using over idx key cur val x n
proof (induction n arbitrary: m it)
  case (Suc n)
  let ?kvs = "eb_kvs B"
  have i: "i < length ?kvs" using e by simp
  have sz: "body_size ?kvs = body_size (take i ?kvs) + (length v + 48)"
    using body_size_split [OF i] e v by simp
  have valid: "EncValid it \<longleftrightarrow> m < last_count v"
    using Suc.prems(4) sz unat_restarts [OF B Suc.prems(1)]
    by (auto simp: EncValid_def word_less_nat_alt last_count_def)
  show ?case
  proof (cases "m < last_count v")
    case False
    then show ?thesis using valid by simp
  next
    case True
    define it1 where "it1 = it\<lparr>cur_value := v, value_dirty := False\<rparr>"
    have val1: "EncValue (eb_ssl B) it = Ok (v, it1)"
    proof (cases "value_dirty it")
      case True
      then have "unat (current it) = body_size (take i ?kvs) + 48" using Suc.prems(4,6) by simp
      from arg_cong [OF this, of "word_of_nat :: nat \<Rightarrow> u32"]
      have "current it = word_of_nat (body_size (take i ?kvs)) + 48" by simp
      then have "iter_at B i it" using Suc.prems i True by (simp add: iter_at_def)
      then show ?thesis
        using EncValue_at [OF B Suc.prems(1)] Suc.prems(7) valid \<open>m < last_count v\<close> v by (simp add: it1_def)
    next
      case False
      then show ?thesis using Suc.prems(6) by (simp add: EncValue_def it1_def)
    qed
    have over1: "iter_over B kDisableGlobalSequenceNumber it1" using Suc.prems(1) by (simp add: it1_def)
    let ?it2 = "it1\<lparr>current := current it1 + 20000\<rparr>"
    have next1: "EncNextImpl it1 = Ok ?it2"
      using EncNextImpl_last [OF over1] Suc.prems(2) e by (simp add: it1_def)
    have "20000 * m < length v" using True by (auto simp: last_count_def)
    then have "unat (current it) + 20000 < 2 ^ 32"
      using Suc.prems(4) sz enc_block_size(1) [OF B] by simp
    then have c2: "unat (current ?it2) = body_size (take i ?kvs) + 48 + 20000 * Suc m"
      using Suc.prems(4) by (simp add: it1_def unat_word_ariths)
    have "EncReadFrom (eb_ssl B) n (EncUpdateKey ?it2) = Some (Ok (replicate (last_count v - Suc m) (?kvs ! i)))"
    proof (rule Suc.IH)
      show "iter_over B kDisableGlobalSequenceNumber (EncUpdateKey ?it2)"
        using over1 by (simp add: EncUpdateKey_def iter_over_def)
      show "EncValid (EncUpdateKey ?it2) \<Longrightarrow> exposed_key (EncUpdateKey ?it2) = fst (?kvs ! i)"
        using Suc.prems(1,3) by (auto simp: EncUpdateKey_def EncValid_def iter_over_def IterExposedKey_def it1_def split: if_splits)
    qed (use Suc.prems c2 True in \<open>auto simp: EncUpdateKey_def it1_def\<close>)
    moreover have "EncNext it1 = Some (Ok (EncUpdateKey ?it2))"
      using next1 by (simp add: EncNext_def exposing_def)
    moreover have "replicate (last_count v - m) (?kvs ! i) = (?kvs ! i) # replicate (last_count v - Suc m) (?kvs ! i)"
      using True by (metis Suc_diff_Suc replicate_Suc)
    moreover have "(exposed_key it, v) = ?kvs ! i" using Suc.prems(7) valid True v by simp
    ultimately show ?thesis using val1 valid True by simp
  qed
qed simp

lemma EncUpdateKey_keeps:
  assumes "iter_over B kDisableGlobalSequenceNumber it" and "iter_at B i it"
  shows "iter_over B kDisableGlobalSequenceNumber (EncUpdateKey it)" and "iter_at B i (EncUpdateKey it)"
    and "EncValid (EncUpdateKey it) \<Longrightarrow> exposed_key (EncUpdateKey it) = fst (eb_kvs B ! i)"
  using assms by (auto simp: EncUpdateKey_def iter_over_def iter_at_def IterExposedKey_def EncValid_def)

lemma read_back_drop:
  assumes "Suc i < length kvs"
  shows "read_back (drop i kvs) = kvs ! i # read_back (drop (Suc i) kvs)"
  using assms by (simp add: read_back_def Cons_nth_drop_Suc [symmetric])

lemma EncReadFrom_rest:
  assumes B: "enc_block_ok ucmp B" and over: "iter_over B kDisableGlobalSequenceNumber it"
    and at: "iter_at B i it" and x: "EncValid it \<Longrightarrow> exposed_key it = fst (eb_kvs B ! i)"
    and n: "length (read_back (drop i (eb_kvs B))) \<le> n"
  shows "EncReadFrom (eb_ssl B) n it = Some (Ok (read_back (drop i (eb_kvs B))))"
  using over at x n
proof (induction n arbitrary: i it)
  case 0
  then show ?case by simp
next
  case (Suc n)
  let ?kvs = "eb_kvs B"
  have i: "i < length ?kvs" using Suc.prems(2) by (simp add: iter_at_def)
  show ?case
  proof (cases "Suc i < length ?kvs")
    case True
    define it1 where "it1 = it\<lparr>cur_value := snd (?kvs ! i), value_dirty := False\<rparr>"
    have v: "EncValid it" using EncValid_at [OF B Suc.prems(1,2)] True by simp
    have val: "EncValue (eb_ssl B) it = Ok (snd (?kvs ! i), it1)"
      using EncValue_at [OF B Suc.prems(1,2) Suc.prems(3) [OF v]] by (simp add: it1_def)
    have over1: "iter_over B kDisableGlobalSequenceNumber it1" using Suc.prems(1) by (simp add: it1_def)
    have "current_index it1 + 1 = int (Suc i)" using Suc.prems(2) by (simp add: it1_def iter_at_def)
    then obtain it2 where it2: "EncNextImpl it1 = Ok it2" "iter_over B kDisableGlobalSequenceNumber it2"
      "iter_at B (Suc i) it2"
      using EncNextImpl_inner [OF over1 _ True] by blast
    note u = EncUpdateKey_keeps [OF it2(2,3)]
    have "length (read_back (drop (Suc i) ?kvs)) \<le> n" using Suc.prems(4) read_back_drop [OF True] by simp
    from Suc.IH [OF u this]
    have "EncReadFrom (eb_ssl B) n (EncUpdateKey it2) = Some (Ok (read_back (drop (Suc i) ?kvs)))" .
    then show ?thesis using v val it2(1) read_back_drop [OF True] Suc.prems(3) [OF v]
      by (simp add: EncNext_def exposing_def)
  next
    case False
    then have e: "Suc i = length ?kvs" using i by simp
    then have d: "drop i ?kvs = [?kvs ! i]" using i by (simp add: Cons_nth_drop_Suc [symmetric])
    have "EncReadFrom (eb_ssl B) (Suc n) it = Some (Ok (replicate (last_count (snd (?kvs ! i)) - 0) (?kvs ! i)))"
      using Suc.prems(2) iter_at_current [OF B Suc.prems(2)] Suc.prems(4) d
      by (intro EncReadFrom_last [OF B e refl Suc.prems(1)]) (auto simp: iter_at_def read_back_def intro: Suc.prems(3))
    then show ?thesis using d by (simp add: read_back_def)
  qed
qed

lemma EncReadAll:
  assumes B: "enc_block_ok ucmp B" and over: "iter_over B kDisableGlobalSequenceNumber it"
    and n: "length (read_back (eb_kvs B)) \<le> n"
  shows "rbind (EncSeekToFirst it) (EncReadFrom (eb_ssl B) n) = Some (Ok (read_back (eb_kvs B)))"
proof -
  let ?it0 = "it\<lparr>current_index := -1\<rparr>"
  have "iter_over B kDisableGlobalSequenceNumber ?it0" using over by (simp add: iter_over_def)
  then obtain it1 where it1: "EncNextImpl ?it0 = Ok it1"
    "iter_over B kDisableGlobalSequenceNumber it1" "iter_at B 0 it1"
    using EncNextImpl_inner [of B _ ?it0 0] enc_block_size(2) [OF B] by auto
  have "EncSeekToFirst it = Some (Ok (EncUpdateKey it1))"
    using it1(1) over by (simp add: EncSeekToFirst_def EncSeekToFirstImpl_def iter_over_def exposing_def)
  then show ?thesis using EncReadFrom_rest [OF B EncUpdateKey_keeps [OF it1(2,3)], of n] n by simp
qed

text \<open>The list comes back as it was if its last value has between 1 and 20000 bytes.\<close>

lemma read_back_same_iff:
  assumes "kvs \<noteq> []"
  shows "read_back kvs = kvs \<longleftrightarrow> 1 \<le> length (snd (last kvs)) \<and> length (snd (last kvs)) \<le> 20000"
proof -
  have "read_back kvs = kvs \<longleftrightarrow>
      butlast kvs @ replicate (last_count (snd (last kvs))) (last kvs) = butlast kvs @ [last kvs]"
    using assms by (simp add: read_back_def)
  also have "\<dots> \<longleftrightarrow> last_count (snd (last kvs)) = 1"
    by (auto dest: arg_cong [of _ _ length])
  also have "\<dots> \<longleftrightarrow> 1 \<le> length (snd (last kvs)) \<and> length (snd (last kvs)) \<le> 20000"
    by (auto simp: last_count_def)
  finally show ?thesis .
qed

end
