(* ===== verification/Table_Format.thy ===== *)
theory Table_Format
  imports Coding
begin

text \<open>
  The pieces of a table file (\<open>table/format.h\<close>, \<open>table/format.cc\<close>): handles that point to blocks,
  the values of index entries, and the footer. \<open>BlockHandle\<close> and \<open>IndexValue\<close> satisfy the contract
  of a serialiser.
\<close>

section \<open>Block handles\<close>

definition kBlockTrailerSize :: nat where "kBlockTrailerSize = 5"

record BlockHandle =
  bh_offset :: u64
  bh_size :: u64

definition NullBlockHandle :: BlockHandle where
  "NullBlockHandle = \<lparr>bh_offset = 0, bh_size = 0\<rparr>"

definition BlockHandleIsNull :: "BlockHandle \<Rightarrow> bool" where
  "BlockHandleIsNull h \<longleftrightarrow> bh_offset h = 0 \<and> bh_size h = 0"

definition BlockHandleEncodeTo :: "bytes \<Rightarrow> BlockHandle \<Rightarrow> bytes" where
  "BlockHandleEncodeTo dst h = PutVarint64Varint64 dst (bh_offset h) (bh_size h)"

text \<open>Decoding overwrites the handle: it is reset when a number is missing.\<close>

definition BlockHandleDecodeFrom :: "bytes \<Rightarrow> status \<times> BlockHandle \<times> bytes" where
  "BlockHandleDecodeFrom input =
     (case GetVarint64 input of
        (None, input1) \<Rightarrow> (Corruption, NullBlockHandle, input1)
      | (Some off, input1) \<Rightarrow>
          (case GetVarint64 input1 of
             (None, input2) \<Rightarrow> (Corruption, NullBlockHandle, input2)
           | (Some sz, input2) \<Rightarrow> (StatusOK, \<lparr>bh_offset = off, bh_size = sz\<rparr>, input2)))"

definition BlockHandleDecodeSizeFrom :: "u64 \<Rightarrow> bytes \<Rightarrow> status \<times> BlockHandle \<times> bytes" where
  "BlockHandleDecodeSizeFrom off input =
     (case GetVarint64 input of
        (None, input1) \<Rightarrow> (Corruption, NullBlockHandle, input1)
      | (Some sz, input1) \<Rightarrow> (StatusOK, \<lparr>bh_offset = off, bh_size = sz\<rparr>, input1))"

definition block_size :: "BlockHandle \<Rightarrow> u64" where
  "block_size handle = bh_size handle + of_nat kBlockTrailerSize"

section \<open>Index values\<close>

record IndexValue =
  iv_handle :: BlockHandle
  iv_first_internal_key :: bytes

definition IndexValueEncodeTo ::
    "bytes \<Rightarrow> IndexValue \<Rightarrow> bool \<Rightarrow> BlockHandle option \<Rightarrow> bytes" where
  "IndexValueEncodeTo dst v have_first_key previous_handle =
     (let dst = (case previous_handle of
                   Some p \<Rightarrow> PutVarsignedint64 dst (bh_size (iv_handle v) - bh_size p)
                 | None \<Rightarrow> BlockHandleEncodeTo dst (iv_handle v))
      in if have_first_key then PutLengthPrefixedSlice dst (iv_first_internal_key v) else dst)"

definition IndexValueDecodeFrom ::
    "IndexValue \<Rightarrow> bytes \<Rightarrow> bool \<Rightarrow> BlockHandle option \<Rightarrow> status \<times> IndexValue \<times> bytes" where
  "IndexValueDecodeFrom v input have_first_key previous_handle =
     (let (s, v, input) =
        (case previous_handle of
           Some p \<Rightarrow>
             (case GetVarsignedint64 input of
                (None, input1) \<Rightarrow> (Corruption, v, input1)
              | (Some delta, input1) \<Rightarrow>
                  (StatusOK,
                   v\<lparr>iv_handle := \<lparr>bh_offset = bh_offset p + bh_size p + of_nat kBlockTrailerSize,
                                   bh_size = bh_size p + delta\<rparr>\<rparr>, input1))
         | None \<Rightarrow>
             (case BlockHandleDecodeFrom input of (s, h, input1) \<Rightarrow> (s, v\<lparr>iv_handle := h\<rparr>, input1)))
      in if s \<noteq> StatusOK then (s, v, input)
         else if \<not> have_first_key then (StatusOK, v\<lparr>iv_first_internal_key := []\<rparr>, input)
         else
           (case GetLengthPrefixedSlice input of
              (None, input1) \<Rightarrow> (Corruption, v, input1)
            | (Some k, input1) \<Rightarrow> (StatusOK, v\<lparr>iv_first_internal_key := k\<rparr>, input1)))"

section \<open>The footer\<close>

definition kBlockBasedTableMagicNumber :: u64 where
  "kBlockBasedTableMagicNumber = 0x88e241b785f4cff7"
definition kLegacyBlockBasedTableMagicNumber :: u64 where
  "kLegacyBlockBasedTableMagicNumber = 0xdb4775248b80fb57"
definition kPlainTableMagicNumber :: u64 where "kPlainTableMagicNumber = 0x8242229663bf9564"
definition kLegacyPlainTableMagicNumber :: u64 where
  "kLegacyPlainTableMagicNumber = 0x4f3418eb7a8f13b8"

lemmas magic_defs = kBlockBasedTableMagicNumber_def kLegacyBlockBasedTableMagicNumber_def
  kPlainTableMagicNumber_def kLegacyPlainTableMagicNumber_def

definition IsLegacyFooterFormat :: "u64 \<Rightarrow> bool" where
  "IsLegacyFooterFormat magic_number \<longleftrightarrow>
     magic_number = kLegacyBlockBasedTableMagicNumber \<or> magic_number = kLegacyPlainTableMagicNumber"

definition UpconvertLegacyFooterFormat :: "u64 \<Rightarrow> u64" where
  "UpconvertLegacyFooterFormat magic_number =
     (if magic_number = kLegacyBlockBasedTableMagicNumber then kBlockBasedTableMagicNumber
      else if magic_number = kLegacyPlainTableMagicNumber then kPlainTableMagicNumber
      else 0)"

definition GetCompressFormatForVersion :: "u32 \<Rightarrow> u32" where
  "GetCompressFormatForVersion format_version = (if format_version \<ge> 2 then 2 else 1)"

definition BlockBasedTableSupportedVersion :: "u32 \<Rightarrow> bool" where
  "BlockBasedTableSupportedVersion v \<longleftrightarrow> v \<le> 5"

record Footer =
  version :: u32
  checksum :: byte
  metaindex_handle :: BlockHandle
  index_handle :: BlockHandle
  table_magic_number :: u64

definition kCRC32c :: byte where "kCRC32c = 1"
definition kMaxEncodedLengthHandle :: nat where "kMaxEncodedLengthHandle = 10 + 10"
definition kMagicNumberLengthByte :: nat where "kMagicNumberLengthByte = 8"
definition kVersion0EncodedLength :: nat where
  "kVersion0EncodedLength = 2 * kMaxEncodedLengthHandle + 8"
definition kNewVersionsEncodedLength :: nat where
  "kNewVersionsEncodedLength = 1 + 2 * kMaxEncodedLengthHandle + 4 + 8"
definition kMinEncodedLength :: nat where "kMinEncodedLength = kVersion0EncodedLength"
definition kMaxEncodedLength :: nat where "kMaxEncodedLength = kNewVersionsEncodedLength"

lemmas footer_lengths = kMaxEncodedLengthHandle_def kMagicNumberLengthByte_def
  kVersion0EncodedLength_def kNewVersionsEncodedLength_def kMinEncodedLength_def
  kMaxEncodedLength_def

text \<open>\<open>std::string::resize\<close>.\<close>

definition resize :: "bytes \<Rightarrow> nat \<Rightarrow> bytes" where
  "resize s n = take n s @ replicate (n - length s) 0"

definition FooterEncodeTo :: "bytes \<Rightarrow> Footer \<Rightarrow> bytes" where
  "FooterEncodeTo dst f =
     (let original_size = length dst; magic = table_magic_number f in
      if IsLegacyFooterFormat magic then
        (let dst = BlockHandleEncodeTo dst (metaindex_handle f);
             dst = BlockHandleEncodeTo dst (index_handle f);
             dst = resize dst (original_size + 2 * kMaxEncodedLengthHandle);
             dst = PutFixed32 dst (ucast (magic AND 0xffffffff))
         in PutFixed32 dst (ucast (drop_bit 32 magic)))
      else
        (let dst = dst @ [checksum f];
             dst = BlockHandleEncodeTo dst (metaindex_handle f);
             dst = BlockHandleEncodeTo dst (index_handle f);
             dst = resize dst (original_size + kNewVersionsEncodedLength - 12);
             dst = PutFixed32 dst (version f);
             dst = PutFixed32 dst (ucast (magic AND 0xffffffff))
         in PutFixed32 dst (ucast (drop_bit 32 magic))))"

text \<open>
  Decoding finds the magic number at the end of the input. The code asserts that the input has
  at least 48 bytes.
\<close>

definition FooterDecodeHandles :: "Footer \<Rightarrow> bytes \<Rightarrow> status \<times> Footer" where
  "FooterDecodeHandles f input =
     (case BlockHandleDecodeFrom input of
        (s, m, input1) \<Rightarrow>
          (if s \<noteq> StatusOK then (s, f\<lparr>metaindex_handle := m\<rparr>)
           else
             (case BlockHandleDecodeFrom input1 of
                (s, i, _) \<Rightarrow> (s, f\<lparr>metaindex_handle := m, index_handle := i\<rparr>))))"

definition FooterDecodeFrom :: "Footer \<Rightarrow> bytes \<Rightarrow> (status \<times> Footer) outcome" where
  "FooterDecodeFrom f input =
     (if length input < kMinEncodedLength then Undef
      else
        (let n = length input in
         obind (of_opt (DecodeFixed32 (drop (n - 8) input))) (\<lambda>magic_lo.
         obind (of_opt (DecodeFixed32 (drop (n - 4) input))) (\<lambda>magic_hi.
           let magic = push_bit 32 (ucast magic_hi) OR ucast magic_lo :: u64;
               legacy = IsLegacyFooterFormat magic;
               magic = (if legacy then UpconvertLegacyFooterFormat magic else magic);
               f = f\<lparr>table_magic_number := magic\<rparr>
           in if legacy then
                Ok (FooterDecodeHandles (f\<lparr>version := 0, checksum := kCRC32c\<rparr>)
                      (drop (n - kVersion0EncodedLength) input))
              else
                obind (of_opt (DecodeFixed32 (drop (n - 12) input))) (\<lambda>v.
                  let f = f\<lparr>version := v\<rparr> in
                  if n < kNewVersionsEncodedLength then Ok (Corruption, f)
                  else
                    (case GetVarint32 (drop (n - kNewVersionsEncodedLength) input) of
                       (None, _) \<Rightarrow> Ok (Corruption, f)
                     | (Some chksum, input1) \<Rightarrow>
                         Ok (FooterDecodeHandles (f\<lparr>checksum := ucast chksum\<rparr>) input1))))))) "

text \<open>
  Reading the footer of a file: \<open>read\<close> is the file's answer to a read of \<open>kMaxEncodedLength\<close>
  bytes at the given offset.
\<close>

definition ReadFooterFromFile ::
    "u64 \<Rightarrow> (u64 \<Rightarrow> nat \<Rightarrow> status \<times> bytes) \<Rightarrow> Footer \<Rightarrow> u64 \<Rightarrow> (status \<times> Footer) outcome" where
  "ReadFooterFromFile file_size read f enforce_table_magic_number =
     (if unat file_size < kMinEncodedLength then Ok (Corruption, f)
      else
        (let read_offset = (if unat file_size > kMaxEncodedLength
                            then file_size - of_nat kMaxEncodedLength else 0);
             (s, footer_input) = read read_offset kMaxEncodedLength
         in if s \<noteq> StatusOK then Ok (s, f)
            else if length footer_input < kMinEncodedLength then Ok (Corruption, f)
            else
              obind (FooterDecodeFrom f footer_input) (\<lambda>(s, f).
                if s \<noteq> StatusOK then Ok (s, f)
                else if enforce_table_magic_number \<noteq> 0 \<and>
                        enforce_table_magic_number \<noteq> table_magic_number f
                then Ok (Corruption, f)
                else Ok (StatusOK, f))))"

section \<open>Lemmas\<close>

lemma BlockHandleDecode_Encode [simp]:
  "BlockHandleDecodeFrom (BlockHandleEncodeTo [] h @ r) = (StatusOK, h, r)"
  by (simp add: BlockHandleDecodeFrom_def BlockHandleEncodeTo_def PutVarint64Varint64_def)

lemma BlockHandleEncodeTo_append: "BlockHandleEncodeTo dst h = dst @ BlockHandleEncodeTo [] h"
  by (simp add: BlockHandleEncodeTo_def PutVarint64Varint64_def)

definition handle_parser :: "BlockHandle parser" where
  "handle_parser input =
     (case BlockHandleDecodeFrom input of
        (s, h, rest) \<Rightarrow> (if s = StatusOK then Some h else None, rest))"

interpretation handle: codec "BlockHandleEncodeTo []" handle_parser "\<lambda>_. True"
  by unfold_locales (simp add: handle_parser_def)

text \<open>An index value is read back, whether its handle is stored in full or as a difference.\<close>

lemma IndexValue_roundtrip:
  assumes "length (iv_first_internal_key v) < 2 ^ 32"
    and "have_first_key \<or> iv_first_internal_key v = []"
    and "\<And>p. prev = Some p \<Longrightarrow>
      bh_offset (iv_handle v) = bh_offset p + bh_size p + of_nat kBlockTrailerSize"
  shows "IndexValueDecodeFrom v0 (IndexValueEncodeTo [] v have_first_key prev @ r)
      have_first_key prev = (StatusOK, v, r)"
proof -
  define tail where
    "tail = (if have_first_key then PutLengthPrefixedSlice [] (iv_first_internal_key v) else [])"
  define h where "h = (case prev of Some p \<Rightarrow> PutVarsignedint64 [] (bh_size (iv_handle v) - bh_size p)
      | None \<Rightarrow> BlockHandleEncodeTo [] (iv_handle v))"
  have e: "IndexValueEncodeTo [] v have_first_key prev @ r = h @ tail @ r"
    by (simp add: IndexValueEncodeTo_def h_def tail_def Let_def PutLengthPrefixedSlice_append [symmetric]
        split: option.splits)
  have t: "have_first_key \<Longrightarrow> GetLengthPrefixedSlice (tail @ r) = (Some (iv_first_internal_key v), r)"
    using lp_slice.get_put [of "iv_first_internal_key v" r] assms(1) by (simp add: tail_def)
  show ?thesis
  proof (cases prev)
    case None
    then show ?thesis using t assms(2) unfolding e IndexValueDecodeFrom_def
      by (cases have_first_key) (auto simp: h_def tail_def)
  next
    case (Some p)
    have g: "GetVarsignedint64 (h @ tail @ r) = (Some (bh_size (iv_handle v) - bh_size p), tail @ r)"
      using varsigned64.get_put [of "bh_size (iv_handle v) - bh_size p" "tail @ r"] Some
      by (simp add: h_def)
    have hd: "\<lparr>bh_offset = bh_offset p + bh_size p + of_nat kBlockTrailerSize,
        bh_size = bh_size p + (bh_size (iv_handle v) - bh_size p)\<rparr> = iv_handle v"
      using assms(3) [OF Some] by simp
    show ?thesis unfolding e
      unfolding IndexValueDecodeFrom_def Some option.case g prod.case hd
      using t assms(2) by (cases have_first_key) (auto simp: tail_def)
  qed
qed

lemma length_BlockHandle: "length (BlockHandleEncodeTo [] h) \<le> 20"
  using length_EncodeVarint64 [of "bh_offset h"] length_EncodeVarint64 [of "bh_size h"]
  by (simp add: BlockHandleEncodeTo_def PutVarint64Varint64_def)

lemma magic_halves:
  "push_bit 32 (ucast (ucast (drop_bit 32 m) :: u32)) OR ucast (ucast (m AND 0xffffffff) :: u32) =
   (m :: u64)"
proof -
  have m: "(0xffffffff :: u64) = mask 32" by (simp add: mask_eq_exp_minus_1)
  show ?thesis unfolding m
    by (rule bit_word_eqI) (auto simp: bit_simps dest: bit_imp_le_length)
qed

text \<open>The footer that is written is the footer that is read, from the end of any file.\<close>

lemma Footer_roundtrip:
  assumes "\<not> IsLegacyFooterFormat (table_magic_number f)" and "checksum f < 128"
  shows "FooterDecodeFrom f0 (FooterEncodeTo dst f) = Ok (StatusOK, f)"
proof -
  let ?m = "BlockHandleEncodeTo [] (metaindex_handle f)" and ?i = "BlockHandleEncodeTo [] (index_handle f)"
  let ?magic = "table_magic_number f"
  let ?lo = "EncodeFixed32 (ucast (?magic AND 0xffffffff))"
  let ?hi = "EncodeFixed32 (ucast (drop_bit 32 ?magic))"
  define pad where "pad = replicate (40 - length ?m - length ?i) (0 :: byte)"
  have l: "length ?m \<le> 20" "length ?i \<le> 20" by (rule length_BlockHandle)+
  have r: "resize (dst @ checksum f # ?m @ ?i) (41 + length dst) = dst @ checksum f # ?m @ ?i @ pad"
    using l by (simp add: resize_def pad_def)
  have e: "FooterEncodeTo dst f =
      dst @ (checksum f # ?m @ ?i @ pad) @ EncodeFixed32 (version f) @ ?lo @ ?hi"
    using assms(1) r BlockHandleEncodeTo_append [of "dst @ [checksum f]" "metaindex_handle f"]
      BlockHandleEncodeTo_append [of "dst @ checksum f # ?m" "index_handle f"]
    by (simp add: FooterEncodeTo_def Let_def footer_lengths PutFixed32_def)
  have p: "length pad = 40 - length ?m - length ?i" by (simp add: pad_def)
  let ?in = "FooterEncodeTo dst f"
  have n: "length ?in = length dst + 53" using l by (simp add: e p)
  have d8: "drop (length ?in - 8) ?in = ?lo @ ?hi" and d4: "drop (length ?in - 4) ?in = ?hi"
    and d12: "drop (length ?in - 12) ?in = EncodeFixed32 (version f) @ ?lo @ ?hi"
    and d53: "drop (length ?in - 53) ?in =
      checksum f # ?m @ ?i @ pad @ EncodeFixed32 (version f) @ ?lo @ ?hi"
    using l unfolding n by (simp_all add: e p)
  have hi: "DecodeFixed32 ?hi = Some (ucast (drop_bit 32 ?magic))"
    using DecodeFixed32_Encode [of _ "[]"] by simp
  have c: "checksum f AND 128 = 0"
  proof (rule bit_word_eqI)
    fix k assume "k < LENGTH(8)"
    have "unat (checksum f) < 2 ^ 7" using assms(2) by (simp add: word_less_nat_alt)
    then have "take_bit 7 (checksum f) = checksum f"
      by (simp only: word_unat_eq_iff unsigned_take_bit_eq take_bit_nat_eq_self)
    then have "\<not> bit (checksum f) 7" by (metis bit_take_bit_iff less_irrefl)
    then show "bit (checksum f AND 128) k = bit 0 k" by (auto simp: bit_simps bit_7)
  qed
  have "(ucast (checksum f) :: u32) AND 128 = ucast (checksum f AND 128)"
    by (rule bit_word_eqI) (auto simp: bit_simps bit_7)
  then have g: "GetVarint32 (checksum f # x) = (Some (ucast (checksum f)), x)" for x
    using c by (simp add: GetVarint32_def GetVarint32Ptr_def Let_def)
  have u: "(ucast (ucast (checksum f) :: u32) :: byte) = checksum f"
    by (rule bit_word_eqI) (auto simp: bit_simps)
  show ?thesis
    unfolding FooterDecodeFrom_def Let_def footer_lengths
    using n d8 d4 d12 d53 hi assms(1)
    by (simp add: magic_halves g u FooterDecodeHandles_def)
qed

end
