(* ===== verification/Block_Store.thy ===== *)
theory Block_Store
  imports Table_Format Enc_Dec Slices
begin

text \<open>
  Blocks on storage: writing one (\<open>BlockBasedTableBuilder::WriteRawBlock\<close> in
  \<open>table/block_based/block_based_table_builder.cc\<close>) and reading it back
  (\<open>table/block_fetcher.h\<close>, \<open>.cc\<close>, with \<open>file/file_prefetch_buffer.cc\<close>). Data blocks come encrypted
  from the block builder; every other block is encrypted here and followed by the HMAC of its
  ciphertext. Decompression, the persistent cache and the file itself are parameters.
\<close>

section \<open>Writing a block\<close>

record TableRep =
  rep_file :: bytes
  rep_offset :: u64
  rep_status :: status
  rep_io_status :: status
  rep_sst_key :: bytes
  rep_alignment :: nat
  rep_block_align :: bool

definition SetStatus :: "status \<Rightarrow> TableRep \<Rightarrow> TableRep" where
  "SetStatus s r = (if s \<noteq> StatusOK \<and> rep_status r = StatusOK then r\<lparr>rep_status := s\<rparr> else r)"

definition SetIOStatus :: "status \<Rightarrow> TableRep \<Rightarrow> TableRep" where
  "SetIOStatus s r =
     (if s \<noteq> StatusOK \<and> rep_io_status r = StatusOK then r\<lparr>rep_io_status := s\<rparr> else r)"

text \<open>
  The answers of the file to the appends of one block: the contents, the trailer and the padding.
  A failed append leaves nothing that the model speaks about.
\<close>

record append_results =
  ar_contents :: status
  ar_trailer :: status
  ar_pad :: status

definition FileAppend :: "status \<Rightarrow> bytes \<Rightarrow> TableRep \<Rightarrow> TableRep" where
  "FileAppend s data r = (if s = StatusOK then r\<lparr>rep_file := rep_file r @ data\<rparr> else r)"

text \<open>What is stored of a block's contents.\<close>

definition StoredContents :: "openssl \<Rightarrow> bytes \<Rightarrow> bytes \<Rightarrow> bool \<Rightarrow> bytes outcome" where
  "StoredContents ssl key block_contents is_data_block =
     (if \<not> is_data_block then
        obind (Encryption ssl block_contents key gcm_iv gcm_aad) (\<lambda>(enc, _).
        obind (digest ssl enc key) (\<lambda>hmac. Ok (enc @ take 48 hmac)))
      else Ok block_contents)"

text \<open>The padding of a data block, with masks that presume that the alignment is a power of two.\<close>

definition PadBytes :: "nat \<Rightarrow> nat \<Rightarrow> nat" where
  "PadBytes alignment n =
     (let mask = word_of_nat alignment - 1 :: u64
      in unat ((word_of_nat alignment - (word_of_nat n AND mask)) AND mask))"

text \<open>
  Of the five bytes of the trailer the code sets the first; \<open>junk\<close> is what the other four hold.
  \<open>cached\<close> is the status of \<open>InsertBlockInCache\<close>.
\<close>

definition WriteRawBlock ::
    "openssl \<Rightarrow> append_results \<Rightarrow> status \<Rightarrow> bytes \<Rightarrow> bytes \<Rightarrow> byte \<Rightarrow> bool \<Rightarrow> TableRep \<Rightarrow>
     (BlockHandle \<times> TableRep) outcome" where
  "WriteRawBlock ssl io cached junk block_contents type is_data_block r =
     obind (StoredContents ssl (rep_sst_key r) block_contents is_data_block) (\<lambda>stored.
       let handle = \<lparr>bh_offset = rep_offset r, bh_size = word_of_nat (length stored)\<rparr>;
           io_s = ar_contents io;
           r = FileAppend io_s stored r
       in if io_s = StatusOK then
            (let trailer = type # take 4 junk;
                 io_s = ar_trailer io;
                 r = FileAppend io_s trailer r;
                 s = (if io_s = StatusOK then cached else StatusOK);
                 r = (if io_s = StatusOK then SetStatus s r else SetIOStatus io_s r)
             in if s = StatusOK \<and> io_s = StatusOK then
                  (let r = r\<lparr>rep_offset := rep_offset r + word_of_nat (length stored + kBlockTrailerSize)\<rparr>
                   in if rep_block_align r \<and> is_data_block then
                        (let a = rep_alignment r;
                             pad_bytes = PadBytes a (length stored + kBlockTrailerSize);
                             io_s = ar_pad io;
                             r = FileAppend io_s (replicate pad_bytes 0) r;
                             r = (if io_s = StatusOK
                                  then r\<lparr>rep_offset := rep_offset r + word_of_nat pad_bytes\<rparr>
                                  else SetStatus io_s (SetIOStatus io_s r))
                         in Ok (handle, r))
                      else Ok (handle, r))
                else
                  Ok (handle, if io_s \<noteq> StatusOK \<and> s = StatusOK then SetStatus io_s r else r))
          else Ok (handle, SetStatus io_s (SetIOStatus io_s r)))"

section \<open>The prefetch buffer\<close>

record FilePrefetchBuffer =
  pb_offset :: nat
  pb_data :: bytes
  pb_enable :: bool
  pb_readahead_size :: nat
  pb_max_readahead_size :: nat

definition file_read :: "bytes \<Rightarrow> nat \<Rightarrow> nat \<Rightarrow> bytes" where
  "file_read file off n = take n (drop off file)"

text \<open>
  \<open>Prefetch\<close> keeps the aligned tail of the buffer that the request still needs, whatever has been
  done to its bytes, and reads the rest; \<open>ok\<close> is whether the file answers.
\<close>

definition Prefetch ::
    "bool \<Rightarrow> bytes \<Rightarrow> nat \<Rightarrow> nat \<Rightarrow> nat \<Rightarrow> FilePrefetchBuffer \<Rightarrow> bool \<times> FilePrefetchBuffer" where
  "Prefetch ok file alignment off n pb =
     (if \<not> pb_enable pb then (True, pb)
      else
        (let rounddown_offset = off - off mod alignment;
             roundup_end = (off + n + alignment - 1) div alignment * alignment;
             roundup_len = roundup_end - rounddown_offset;
             cur = length (pb_data pb)
         in if cur > 0 \<and> off \<ge> pb_offset pb \<and> off + n \<le> pb_offset pb + cur then (True, pb)
            else
              (let chunk_off =
                     (if cur > 0 \<and> off \<ge> pb_offset pb \<and> off \<le> pb_offset pb + cur
                      then (off - pb_offset pb) - (off - pb_offset pb) mod alignment else cur);
                   chunk = drop chunk_off (pb_data pb);
                   read_len = roundup_len - length chunk
               in if ok then
                    (True, pb\<lparr>pb_offset := rounddown_offset,
                              pb_data := chunk @
                                file_read file (rounddown_offset + length chunk) read_len\<rparr>)
                  else (False, pb))))"

definition TryReadFromCache ::
    "bool \<Rightarrow> bytes \<Rightarrow> nat \<Rightarrow> nat \<Rightarrow> nat \<Rightarrow> bool \<Rightarrow> FilePrefetchBuffer \<Rightarrow>
     bytes option \<times> FilePrefetchBuffer" where
  "TryReadFromCache ok file alignment off n for_compaction pb =
     (if \<not> pb_enable pb \<or> off < pb_offset pb then (None, pb)
      else
        (let (hit, pb) =
           (if off + n > pb_offset pb + length (pb_data pb) then
              (if pb_readahead_size pb > 0 then
                 (let (s, pb) = Prefetch ok file alignment off
                        (if for_compaction then max n (pb_readahead_size pb)
                         else n + pb_readahead_size pb) pb
                  in if \<not> s then (False, pb)
                     else (True, pb\<lparr>pb_readahead_size :=
                             min (pb_max_readahead_size pb) (pb_readahead_size pb * 2)\<rparr>))
               else (False, pb))
            else (True, pb))
         in if hit then (Some (take n (drop (off - pb_offset pb) (pb_data pb))), pb)
            else (None, pb)))"

section \<open>Reading a block\<close>

text \<open>
  Checking and decrypting the bytes of a slice in place. The digest covers the first
  \<open>block_size - 48\<close> bytes; the stored one is found from the end of the slice.
\<close>

definition VerifyAndDecrypt :: "openssl \<Rightarrow> bytes \<Rightarrow> nat \<Rightarrow> bytes \<Rightarrow> bytes outcome" where
  "VerifyAndDecrypt ssl sst_key blk_size sl =
     (if blk_size < 48 \<or> length sl < blk_size - 48 \<or> length sl < 48 + kBlockTrailerSize then Undef
      else
        (let enc = take (blk_size - 48) sl in
         obind (digest ssl enc sst_key) (\<lambda>hmac.
           let hmacfromfile = take 48 (drop (length sl - 48 - kBlockTrailerSize) sl)
           in if slice_compare hmacfromfile hmac \<noteq> 0 then Exit
              else
                obind (Decryption ssl enc sst_key gcm_iv gcm_aad None) (\<lambda>(dec, _).
                  Ok (dec @ drop (blk_size - 48) sl)))))"

text \<open>
  What the fetcher knows of the world: the file, whether the read's preparation and the read itself
  succeed, and the decompressor (\<open>None\<close> when it rejects the data).
\<close>

record fetch_env =
  fe_file :: bytes
  fe_prepare :: status
  fe_read :: status
  fe_alignment :: nat
  fe_for_compaction :: bool
  fe_uncompress :: "byte \<Rightarrow> bytes \<Rightarrow> bytes option"

definition overwrite :: "bytes \<Rightarrow> nat \<Rightarrow> bytes \<Rightarrow> bytes" where
  "overwrite buf pos data = take pos buf @ data @ drop (pos + length data) buf"

text \<open>A hit in the prefetch buffer is decrypted where it lies.\<close>

definition TryGetFromPrefetchBuffer ::
    "openssl \<Rightarrow> bytes \<Rightarrow> bool \<Rightarrow> fetch_env \<Rightarrow> BlockHandle \<Rightarrow> FilePrefetchBuffer option \<Rightarrow>
     (bytes option \<times> FilePrefetchBuffer option) outcome" where
  "TryGetFromPrefetchBuffer ssl sst_key decrypt env h prefetch_buffer =
     (case prefetch_buffer of
        None \<Rightarrow> Ok (None, None)
      | Some pb \<Rightarrow>
          (if fe_prepare env \<noteq> StatusOK then Ok (None, Some pb)
           else
             (case TryReadFromCache (fe_read env = StatusOK) (fe_file env) (fe_alignment env)
                     (unat (bh_offset h)) (unat (block_size h)) (fe_for_compaction env) pb of
                (None, pb) \<Rightarrow> Ok (None, Some pb)
              | (Some sl, pb) \<Rightarrow>
                  (if decrypt then
                     obind (VerifyAndDecrypt ssl sst_key (unat (bh_size h)) sl) (\<lambda>sl.
                       Ok (Some sl,
                           Some (pb\<lparr>pb_data :=
                             overwrite (pb_data pb) (unat (bh_offset h) - pb_offset pb) sl\<rparr>)))
                   else Ok (Some sl, Some pb)))))"

text \<open>The read from the file; when it fails the slice is unset, and is decrypted all the same.\<close>

definition ReadFromFile ::
    "openssl \<Rightarrow> bytes \<Rightarrow> bool \<Rightarrow> fetch_env \<Rightarrow> BlockHandle \<Rightarrow> (status \<times> bytes) outcome" where
  "ReadFromFile ssl sst_key decrypt env h =
     (if fe_prepare env \<noteq> StatusOK then Ok (fe_prepare env, [])
      else
        (let sl = (if fe_read env = StatusOK
                   then file_read (fe_file env) (unat (bh_offset h)) (unat (block_size h)) else [])
         in obind (if decrypt then VerifyAndDecrypt ssl sst_key (unat (bh_size h)) sl else Ok sl)
              (\<lambda>sl. Ok (fe_read env, sl))))"

definition FinishFetch ::
    "bool \<Rightarrow> bool \<Rightarrow> fetch_env \<Rightarrow> BlockHandle \<Rightarrow> bytes \<Rightarrow> (status \<times> bytes) outcome" where
  "FinishFetch decrypt do_uncompress env h sl =
     (let n = unat (bh_size h) in
      if length sl \<le> n then Undef
      else
        (let compression_type = sl ! n;
             contents = take (if decrypt then n - 48 else n) sl
         in if do_uncompress \<and> compression_type \<noteq> 0 then
              (case fe_uncompress env compression_type contents of
                 None \<Rightarrow> Ok (Corruption, [])
               | Some raw \<Rightarrow> Ok (StatusOK, raw))
            else Ok (StatusOK, contents)))"

definition ReadBlockContents ::
    "openssl \<Rightarrow> bytes \<Rightarrow> bool \<Rightarrow> bool \<Rightarrow> fetch_env \<Rightarrow> BlockHandle \<Rightarrow> FilePrefetchBuffer option \<Rightarrow>
     (status \<times> bytes \<times> FilePrefetchBuffer option) outcome" where
  "ReadBlockContents ssl sst_key decrypt do_uncompress env h prefetch_buffer =
     obind (TryGetFromPrefetchBuffer ssl sst_key decrypt env h prefetch_buffer) (\<lambda>(got, pb).
       case got of
         Some sl \<Rightarrow>
           obind (FinishFetch decrypt do_uncompress env h sl) (\<lambda>(s, contents). Ok (s, contents, pb))
       | None \<Rightarrow>
           obind (ReadFromFile ssl sst_key decrypt env h) (\<lambda>(s, sl).
             if s \<noteq> StatusOK then Ok (s, [], pb)
             else if length sl \<noteq> unat (block_size h) then Ok (Corruption, [], pb)
             else
               obind (FinishFetch decrypt do_uncompress env h sl) (\<lambda>(s, contents).
                 Ok (s, contents, pb))))"

section \<open>Lemmas\<close>

lemma StoredContents_ok:
  "length key = 32 \<Longrightarrow> openssl_ok ssl \<Longrightarrow> StoredContents ssl key c False =
   Ok (evp_encrypt ssl key gcm_iv gcm_aad c @
       hmac_sha3_384 ssl key (evp_encrypt ssl key gcm_iv gcm_aad c))"
  by (simp add: StoredContents_def Encryption_ok digest_ok)

lemma PadBytes_aligns:
  assumes "k < 64"
  shows "PadBytes (2 ^ k) n = (2 ^ k - n mod 2 ^ k) mod 2 ^ k"
proof -
  let ?w = "word_of_nat n :: u64"
  have m: "x AND (2 ^ k - 1) = take_bit k x" for x :: u64
    by (simp add: take_bit_eq_mask mask_eq_exp_minus_1)
  have t: "unat (take_bit k x) = unat x mod 2 ^ k" for x :: u64
    by (simp add: unsigned_take_bit_eq flip: take_bit_eq_mod)
  have "take_bit 64 (2 ^ k :: nat) = 2 ^ k"
    using assms by (intro take_bit_nat_eq_self power_strict_increasing) auto
  then have "unat (word_of_nat (2 ^ k) :: u64) = 2 ^ k" by (simp only: unsigned_of_nat) simp
  then have e: "unat (2 ^ k :: u64) = 2 ^ k" by simp
  have n: "unat (take_bit k ?w) = n mod 2 ^ k"
    using assms by (simp add: unsigned_take_bit_eq unsigned_of_nat flip: take_bit_eq_mod)
  have le: "n mod 2 ^ k \<le> 2 ^ k" by (simp add: less_imp_le)
  then have "take_bit k ?w \<le> 2 ^ k" using n e by (simp add: word_le_nat_alt)
  then have "unat (2 ^ k - take_bit k ?w) = 2 ^ k - n mod 2 ^ k" using n e by (simp add: unat_sub)
  then show ?thesis by (simp add: PadBytes_def Let_def m t)
qed

text \<open>What \<open>WriteRawBlock\<close> appends when the file accepts it, and the handle it gives.\<close>

lemma WriteRawBlock_appends:
  assumes "StoredContents ssl (rep_sst_key r) c is_data = Ok stored"
    and "ar_contents io = StatusOK" and "ar_trailer io = StatusOK" and "ar_pad io = StatusOK"
  shows "\<exists>r' pad. WriteRawBlock ssl io StatusOK junk c type is_data r =
      Ok (\<lparr>bh_offset = rep_offset r, bh_size = word_of_nat (length stored)\<rparr>, r') \<and>
    rep_file r' = rep_file r @ stored @ type # take 4 junk @ replicate pad 0 \<and>
    rep_offset r' = rep_offset r + word_of_nat (length stored + 5 + pad) \<and>
    rep_status r' = rep_status r \<and> rep_io_status r' = rep_io_status r \<and>
    rep_sst_key r' = rep_sst_key r \<and>
    (\<forall>k < 64. rep_block_align r \<and> is_data \<and> rep_alignment r = 2 ^ k \<longrightarrow>
       (length stored + 5 + pad) mod rep_alignment r = 0) \<and>
    (\<not> (rep_block_align r \<and> is_data) \<longrightarrow> pad = 0)"
proof -
  let ?a = "rep_alignment r" and ?n = "length stored + 5"
  let ?pad = "PadBytes ?a ?n"
  have m: "(?n + ?pad) mod ?a = 0" if k: "k < 64" "?a = 2 ^ k" for k
  proof -
    have "(?n + (?a - ?n mod ?a) mod ?a) mod ?a = (?n mod ?a + (?a - ?n mod ?a)) mod ?a"
      by (metis mod_add_eq mod_mod_trivial)
    also have "\<dots> = 0" using k(2) by simp
    finally show ?thesis using PadBytes_aligns [OF k(1)] k(2) by simp
  qed
  show ?thesis
  proof (cases "rep_block_align r \<and> is_data")
    case True
    then show ?thesis using assms m
      by (intro exI [of _ "r\<lparr>rep_file := rep_file r @ stored @ type # take 4 junk @
            replicate ?pad 0,
            rep_offset := rep_offset r + word_of_nat ?n + word_of_nat ?pad\<rparr>"]
          exI [of _ ?pad])
        (simp add: WriteRawBlock_def Let_def FileAppend_def SetStatus_def SetIOStatus_def
          kBlockTrailerSize_def)
  next
    case False
    then show ?thesis using assms
      by (intro exI [of _ "r\<lparr>rep_file := rep_file r @ stored @ type # take 4 junk,
            rep_offset := rep_offset r + word_of_nat ?n\<rparr>"] exI [of _ 0])
        (auto simp add: WriteRawBlock_def Let_def FileAppend_def SetStatus_def SetIOStatus_def
          kBlockTrailerSize_def)
  qed
qed

lemma VerifyAndDecrypt_stored:
  assumes "openssl_ok ssl" and "length key = 32" and "length trailer = 5"
  shows "VerifyAndDecrypt ssl key (length c + 48)
      (evp_encrypt ssl key gcm_iv gcm_aad c @
       hmac_sha3_384 ssl key (evp_encrypt ssl key gcm_iv gcm_aad c) @ trailer) =
    Ok (c @ hmac_sha3_384 ssl key (evp_encrypt ssl key gcm_iv gcm_aad c) @ trailer)"
  using assms
  by (simp add: VerifyAndDecrypt_def Let_def kBlockTrailerSize_def digest_ok Decryption_ok)

text \<open>Success means that the stored HMAC is the one of the ciphertext, and nothing more.\<close>

lemma VerifyAndDecrypt_checked:
  assumes "VerifyAndDecrypt ssl key n sl = Ok sl'"
  shows "48 \<le> n" and "n - 48 \<le> length sl"
    and "hmac_sha3_384 ssl (take 32 key) (take (n - 48) sl) = take 48 (drop (length sl - 53) sl)"
    and "sl' = evp_decrypt ssl (take 32 key) gcm_iv gcm_aad (take (n - 48) sl) @ drop (n - 48) sl"
  using assms
  by (auto simp: VerifyAndDecrypt_def Let_def kBlockTrailerSize_def digest_def Decryption_def
      read_key_def obind_eq_Ok split: if_splits)

lemma ReadFromFile_stored:
  assumes "openssl_ok ssl" and "length key = 32" and "length trailer = 5"
    and "fe_prepare env = StatusOK" and "fe_read env = StatusOK"
    and "stored = evp_encrypt ssl key gcm_iv gcm_aad c @
      hmac_sha3_384 ssl key (evp_encrypt ssl key gcm_iv gcm_aad c)"
    and "fe_file env = before @ stored @ trailer @ after"
    and "length before + length stored + 5 < 2 ^ 64"
    and "h = \<lparr>bh_offset = word_of_nat (length before), bh_size = word_of_nat (length stored)\<rparr>"
  shows "ReadFromFile ssl key True env h =
    Ok (StatusOK, c @ hmac_sha3_384 ssl key (evp_encrypt ssl key gcm_iv gcm_aad c) @ trailer)"
proof -
  have l: "length stored = length c + 48" using assms(1,6) by simp
  have u: "unat (bh_offset h) = length before" "unat (bh_size h) = length stored"
    using assms(8,9) by (simp_all add: unsigned_of_nat take_bit_nat_eq_self)
  have "block_size h = word_of_nat (length stored + 5)"
    using assms(9) by (simp add: block_size_def kBlockTrailerSize_def)
  then have bs: "unat (block_size h) = length stored + 5"
    using assms(8) by (simp only: unsigned_of_nat) (simp add: take_bit_nat_eq_self)
  have "file_read (fe_file env) (length before) (length stored + 5) = stored @ trailer"
    using assms(3,7) by (simp add: file_read_def)
  then show ?thesis
    using assms(1-5) VerifyAndDecrypt_stored [OF assms(1,2,3), of c] u bs l
    by (simp add: ReadFromFile_def Let_def assms(6))
qed

lemma FinishFetch_stored:
  assumes "unat (bh_size h) = length c + 48" and "length m = 48"
  shows "FinishFetch True do_uncompress env h (c @ m @ t # junk) =
    (if do_uncompress \<and> t \<noteq> 0 then
       (case fe_uncompress env t c of None \<Rightarrow> Ok (Corruption, []) | Some raw \<Rightarrow> Ok (StatusOK, raw))
     else Ok (StatusOK, c))"
  using assms by (simp add: FinishFetch_def Let_def nth_append)

text \<open>The write and the read fit together, wherever the block lies in the file.\<close>

lemma ReadBlockContents_stored:
  assumes "openssl_ok ssl" and "length key = 32" and "length junk = 4"
    and "fe_prepare env = StatusOK" and "fe_read env = StatusOK"
    and "StoredContents ssl key c False = Ok stored"
    and "fe_file env = before @ stored @ (t # junk) @ after"
    and "length before + length stored + 5 < 2 ^ 64"
    and "h = \<lparr>bh_offset = word_of_nat (length before), bh_size = word_of_nat (length stored)\<rparr>"
  shows "ReadBlockContents ssl key True do_uncompress env h None =
    (if do_uncompress \<and> t \<noteq> 0 then
       (case fe_uncompress env t c of
          None \<Rightarrow> Ok (Corruption, [], None) | Some raw \<Rightarrow> Ok (StatusOK, raw, None))
     else Ok (StatusOK, c, None))"
proof -
  let ?m = "hmac_sha3_384 ssl key (evp_encrypt ssl key gcm_iv gcm_aad c)"
  have st: "stored = evp_encrypt ssl key gcm_iv gcm_aad c @ ?m"
    using assms(6) StoredContents_ok [OF assms(2,1)] by simp
  then have l: "length stored = length c + 48" using assms(1) by simp
  have r: "ReadFromFile ssl key True env h = Ok (StatusOK, c @ ?m @ t # junk)"
    using ReadFromFile_stored [OF assms(1,2) _ assms(4,5) st assms(7,8,9)] assms(3) by simp
  have "unat (bh_size h) = length stored"
    using assms(8,9) by (simp add: unsigned_of_nat take_bit_nat_eq_self)
  then have u: "unat (bh_size h) = length c + 48" using l by simp
  have "block_size h = word_of_nat (length stored + 5)"
    using assms(9) by (simp add: block_size_def kBlockTrailerSize_def)
  then have bs: "unat (block_size h) = length stored + 5"
    using assms(8) by (simp only: unsigned_of_nat) (simp add: take_bit_nat_eq_self)
  have len: "length (c @ ?m @ t # junk) = unat (block_size h)"
    using bs l assms(1,3) by simp
  have f: "FinishFetch True do_uncompress env h (c @ ?m @ t # junk) =
    (if do_uncompress \<and> t \<noteq> 0 then
       (case fe_uncompress env t c of None \<Rightarrow> Ok (Corruption, []) | Some raw \<Rightarrow> Ok (StatusOK, raw))
     else Ok (StatusOK, c))"
    using FinishFetch_stored [OF u] assms(1) by simp
  show ?thesis
    unfolding ReadBlockContents_def TryGetFromPrefetchBuffer_def option.case obind_simps prod.case r
    using len f by (auto split: option.splits)
qed

text \<open>A block that is read decrypted from a file was stored with the HMAC of its ciphertext.\<close>

lemma ReadFromFile_checked:
  assumes "ReadFromFile ssl key True env h = Ok (StatusOK, sl)"
  shows "\<exists>raw. raw = file_read (fe_file env) (unat (bh_offset h)) (unat (block_size h)) \<and>
    VerifyAndDecrypt ssl key (unat (bh_size h)) raw = Ok sl"
  using assms by (auto simp: ReadFromFile_def Let_def obind_eq_Ok split: if_splits)

text \<open>The bytes that a read works on: those of the prefetch buffer if it answers, or of the file.\<close>

definition fetched_slice :: "fetch_env \<Rightarrow> BlockHandle \<Rightarrow> FilePrefetchBuffer option \<Rightarrow> bytes" where
  "fetched_slice env h prefetch_buffer =
     (let off = unat (bh_offset h); n = unat (block_size h);
          from_file = file_read (fe_file env) off n
      in case prefetch_buffer of
           None \<Rightarrow> from_file
         | Some pb \<Rightarrow>
             (case fst (TryReadFromCache (fe_read env = StatusOK) (fe_file env) (fe_alignment env) off n
                     (fe_for_compaction env) pb) of
                None \<Rightarrow> from_file
              | Some sl \<Rightarrow> sl))"

text \<open>Every read that returns contents returns those of a slice it has checked, if it is to be decrypted.\<close>

lemma ReadBlockContents_finished:
  assumes "ReadBlockContents ssl key decrypt unc env h pb = Ok (StatusOK, c, pb')"
  shows "\<exists>sl. (if decrypt then VerifyAndDecrypt ssl key (unat (bh_size h)) (fetched_slice env h pb) = Ok sl
       else sl = fetched_slice env h pb) \<and>
    FinishFetch decrypt unc env h sl = Ok (StatusOK, c) \<and>
    (pb = None \<longrightarrow> length sl = unat (block_size h))"
proof -
  obtain got pb1 where t: "TryGetFromPrefetchBuffer ssl key decrypt env h pb = Ok (got, pb1)"
    using assms by (auto simp: ReadBlockContents_def obind_eq_Ok)
  show ?thesis
  proof (cases got)
    case None
    obtain sl where r: "ReadFromFile ssl key decrypt env h = Ok (StatusOK, sl)"
      "length sl = unat (block_size h)" "FinishFetch decrypt unc env h sl = Ok (StatusOK, c)"
      using assms t None by (auto simp: ReadBlockContents_def obind_eq_Ok split: if_split_asm)
    have env: "fe_prepare env = StatusOK" "fe_read env = StatusOK"
      using r(1) by (auto simp: ReadFromFile_def Let_def obind_eq_Ok split: if_split_asm)
    have "fetched_slice env h pb = file_read (fe_file env) (unat (bh_offset h)) (unat (block_size h))"
      using t None env
      by (auto simp: fetched_slice_def TryGetFromPrefetchBuffer_def Let_def obind_eq_Ok
          split: option.splits if_split_asm prod.splits)
    then show ?thesis using r env by (auto simp: ReadFromFile_def Let_def obind_eq_Ok)
  next
    case (Some sl)
    have "FinishFetch decrypt unc env h sl = Ok (StatusOK, c)"
      using assms t Some by (auto simp: ReadBlockContents_def obind_eq_Ok)
    then show ?thesis
      using t Some
      by (auto simp: fetched_slice_def TryGetFromPrefetchBuffer_def Let_def obind_eq_Ok
          split: option.splits if_split_asm prod.splits)
  qed
qed

text \<open>What a read makes of the plaintext of a block with its compression type.\<close>

definition uncompressed :: "bool \<Rightarrow> fetch_env \<Rightarrow> byte \<Rightarrow> bytes \<Rightarrow> bytes option" where
  "uncompressed do_uncompress env type contents =
     (if do_uncompress \<and> type \<noteq> 0 then fe_uncompress env type contents else Some contents)"

lemma FinishFetch_OK:
  assumes "FinishFetch decrypt unc env h sl = Ok (StatusOK, c)"
  shows "unat (bh_size h) < length sl"
    and "uncompressed unc env (sl ! unat (bh_size h))
      (take (if decrypt then unat (bh_size h) - 48 else unat (bh_size h)) sl) = Some c"
  using assms by (auto simp: FinishFetch_def Let_def uncompressed_def split: if_split_asm option.splits)
lemma block_size_no_wrap:
  assumes "unat (bh_size h) < unat (block_size h)"
  shows "unat (block_size h) = unat (bh_size h) + 5"
  using assms unat_less_2p [of "bh_size h"]
  by (simp add: block_size_def kBlockTrailerSize_def unat_word_ariths mod_if split: if_splits)

lemma ReadFromFile_failed_read:
  assumes "fe_prepare env = StatusOK" and "fe_read env \<noteq> StatusOK"
  shows "ReadFromFile ssl key True env h = Undef"
proof -
  have "VerifyAndDecrypt ssl key n [] = Undef" for n
    by (simp add: VerifyAndDecrypt_def kBlockTrailerSize_def)
  then show ?thesis using assms by (simp add: ReadFromFile_def)
qed

lemma overwrite_read:
  assumes "pos + length data \<le> length buf"
  shows "take (length data) (drop pos (overwrite buf pos data)) = data"
    and "length (overwrite buf pos data) = length buf"
  using assms by (simp_all add: overwrite_def)

lemma TryReadFromCache_hit:
  assumes "pb_enable pb" and "pb_offset pb \<le> off" and "off + n \<le> pb_offset pb + length (pb_data pb)"
  shows "TryReadFromCache ok file a off n fc pb = (Some (take n (drop (off - pb_offset pb) (pb_data pb))), pb)"
  using assms by (simp add: TryReadFromCache_def)

text \<open>
  A block that was decrypted in the prefetch buffer is verified a second time when it is read
  again, now over its plaintext.
\<close>

lemma prefetch_second_read:
  assumes hit: "pb_enable pb" "pb_offset pb \<le> unat (bh_offset h)"
      "unat (bh_offset h) + unat (block_size h) \<le> pb_offset pb + length (pb_data pb)"
    and env: "fe_prepare env = StatusOK"
    and size: "unat (bh_size h) < 2 ^ 64 - 5"
    and ssl: "openssl_ok ssl"
    and first: "TryGetFromPrefetchBuffer ssl key True env h (Some pb) = Ok (Some sl, pb')"
    and differ: "hmac_sha3_384 ssl (take 32 key) (take (unat (bh_size h) - 48) sl) \<noteq>
      take 48 (drop (length sl - 53) sl)"
  shows "TryGetFromPrefetchBuffer ssl key True env h pb' = Exit"
proof -
  let ?n = "unat (bh_size h)" and ?b = "unat (block_size h)" and ?p = "unat (bh_offset h) - pb_offset pb"
  let ?raw = "take ?b (drop ?p (pb_data pb))"
  have b: "?b = ?n + 5"
    using size by (simp add: block_size_def kBlockTrailerSize_def unat_word_ariths)
  have v: "VerifyAndDecrypt ssl key ?n ?raw = Ok sl"
    and pb': "pb' = Some (pb\<lparr>pb_data := overwrite (pb_data pb) ?p sl\<rparr>)"
    using first env TryReadFromCache_hit [OF hit]
    by (auto simp: TryGetFromPrefetchBuffer_def obind_eq_Ok)
  note c = VerifyAndDecrypt_checked [OF v]
  have raw: "length ?raw = ?n + 5" using hit(2,3) b by simp
  then have len: "length sl = ?n + 5" using c(1,4) ssl by simp
  have k: "32 \<le> length key"
    using v by (auto simp: VerifyAndDecrypt_def Let_def digest_def read_key_def split: if_splits)
  have o: "take ?b (drop ?p (overwrite (pb_data pb) ?p sl)) = sl"
    "length (overwrite (pb_data pb) ?p sl) = length (pb_data pb)"
    using overwrite_read [of ?p sl "pb_data pb"] hit(2,3) len b by simp_all
  let ?pb = "pb\<lparr>pb_data := overwrite (pb_data pb) ?p sl\<rparr>"
  have "TryReadFromCache ok fl a (unat (bh_offset h)) ?b fc ?pb = (Some sl, ?pb)" for ok fl a fc
    using TryReadFromCache_hit [of ?pb "unat (bh_offset h)" ?b] hit o by simp
  moreover have "VerifyAndDecrypt ssl key ?n sl = Exit"
    using differ c(1) len k
    by (simp add: VerifyAndDecrypt_def Let_def kBlockTrailerSize_def digest_def read_key_def)
  ultimately show ?thesis
    unfolding pb' TryGetFromPrefetchBuffer_def using env by simp
qed

end
