(* ===== verification/Crc32c.thy ===== *)
theory Crc32c
  imports Coding Crc_Tables
begin

text \<open>
  The CRC of the log (\<open>util/crc32c.cc\<close>, \<open>util/crc32c.h\<close>): the reference computation byte by byte,
  the portable implementation with its four-byte steps (\<open>ExtendImpl\<close> with \<open>Slow_CRC32\<close>), their
  equivalence, and the mask of stored checksums.
\<close>

text \<open>\<open>STEP1\<close>, and the checksum as its iteration.\<close>

definition crc_step :: "u32 \<Rightarrow> byte \<Rightarrow> u32" where
  "crc_step l p = crc_table0 ! unat (ucast (l AND 0xff) XOR p) XOR drop_bit 8 l"

definition Extend :: "u32 \<Rightarrow> bytes \<Rightarrow> u32" where
  "Extend init_crc data = foldl crc_step (init_crc XOR 0xffffffff) data XOR 0xffffffff"

text \<open>
  \<open>Slow_CRC32\<close> takes two words of the data; the loops of \<open>ExtendImpl\<close> take sixteen bytes, then eight,
  then single ones, after the bytes up to the next multiple of sixteen of the address \<open>pval\<close>, if
  there are so many. The model's reads stay inside the data.
\<close>

definition Slow_CRC32_word :: "u32 \<Rightarrow> bytes \<Rightarrow> u32" where
  "Slow_CRC32_word l p =
     (let c = l XOR (case DecodeFixed32 p of Some w \<Rightarrow> w | None \<Rightarrow> 0)
      in crc_table3 ! unat (c AND 0xff) XOR crc_table2 ! unat (drop_bit 8 c AND 0xff) XOR
         crc_table1 ! unat (drop_bit 16 c AND 0xff) XOR crc_table0 ! unat (drop_bit 24 c))"

definition Slow_CRC32 :: "u32 \<Rightarrow> bytes \<Rightarrow> u32" where
  "Slow_CRC32 l p = Slow_CRC32_word (Slow_CRC32_word l p) (drop 4 p)"

function ExtendBlocks :: "u32 \<Rightarrow> bytes \<Rightarrow> u32" where
  "ExtendBlocks l p =
     (if 16 \<le> length p then ExtendBlocks (Slow_CRC32 (Slow_CRC32 l p) (drop 8 p)) (drop 16 p)
      else if 8 \<le> length p then ExtendBlocks (Slow_CRC32 l p) (drop 8 p)
      else foldl crc_step l p)"
  by pat_completeness auto
termination by (relation "measure (\<lambda>(_, p). length p)") auto

declare ExtendBlocks.simps [simp del]

definition ExtendImpl :: "nat \<Rightarrow> u32 \<Rightarrow> bytes \<Rightarrow> u32" where
  "ExtendImpl pval crc data =
     (let l = crc XOR 0xffffffff;
          k = (16 - pval mod 16) mod 16
      in (if k \<le> length data then ExtendBlocks (foldl crc_step l (take k data)) (drop k data)
          else ExtendBlocks l data) XOR 0xffffffff)"

definition Value :: "bytes \<Rightarrow> u32" where
  "Value data = Extend 0 data"

definition kMaskDelta :: u32 where
  "kMaskDelta = 0xa282ead8"

definition Mask :: "u32 \<Rightarrow> u32" where
  "Mask crc = (drop_bit 15 crc OR push_bit 17 crc) + kMaskDelta"

definition Unmask :: "u32 \<Rightarrow> u32" where
  "Unmask masked_crc =
     (let rot = masked_crc - kMaskDelta in drop_bit 17 rot OR push_bit 15 rot)"

text \<open>One step shifts the register by a byte; a word is four steps.\<close>

lemma split_low_byte: "ucast (ucast l :: byte) XOR push_bit 8 (drop_bit 8 l) = (l :: u32)"
proof -
  have "take_bit 8 l XOR push_bit 8 (drop_bit 8 l) = l"
  proof (rule bit_word_eqI)
    fix i assume "i < LENGTH(32)"
    then show "bit (take_bit 8 l XOR push_bit 8 (drop_bit 8 l)) i = bit l i"
      by (cases "i < 8") (auto simp: bit_simps)
  qed
  then show ?thesis by (simp add: ucast_byte)
qed

lemma crc_bits_high: "crc_bits 8 (push_bit 8 (drop_bit 8 l)) = drop_bit 8 (l :: u32)"
proof -
  have "take_bit 8 (push_bit 8 (drop_bit 8 l)) = 0"
    by (auto simp: bit_eq_iff bit_simps)
  then have "crc_bits 8 (push_bit 8 (drop_bit 8 l)) = drop_bit 8 (push_bit 8 (drop_bit 8 l))"
    by (rule crc_bits_shift)
  also have "\<dots> = drop_bit 8 l"
    by (rule bit_word_eqI) (auto simp: bit_simps dest: bit_imp_le_length)
  finally show ?thesis .
qed

lemma crc_step_bits: "crc_step l p = crc_bits 8 (l XOR ucast p)"
proof -
  have "l XOR ucast p = (ucast (ucast l XOR p :: byte) :: u32) XOR push_bit 8 (drop_bit 8 l)"
    using split_low_byte [of l] by (simp add: unsigned_xor_eq xor.assoc xor.left_commute xor.commute)
  then show ?thesis
    by (simp add: crc_step_def crc_table_nth crc_bits_xor crc_bits_high del: crc_bits_numeral)
qed

text \<open>Bytes behind the first wait in the register until it has been shifted to them.\<close>

lemma crc_bits_push:
  assumes "n \<le> 24"
  shows "crc_bits n (push_bit n (ucast (p :: byte))) = ucast p"
proof -
  have "drop_bit n (push_bit n (ucast p :: u32)) = ucast p"
    using assms by (intro bit_word_eqI) (auto simp: bit_simps dest: bit_imp_le_length)
  moreover have "take_bit n (push_bit n (ucast p :: u32)) = 0"
    by (auto simp: bit_eq_iff bit_simps)
  ultimately show ?thesis by (simp add: crc_bits_shift)
qed

lemma crc_step_behind:
  "n \<le> 24 \<Longrightarrow> crc_step (crc_bits n x) p = crc_bits (n + 8) (x XOR push_bit n (ucast p))"
  by (simp only: crc_step_bits crc_bits_add crc_bits_xor crc_bits_push)

lemma crc_bits_behind:
  "n \<le> 24 \<Longrightarrow> crc_bits m (ucast (p :: byte)) = crc_bits (n + m) (push_bit n (ucast p))"
  by (simp only: crc_bits_add crc_bits_push)

definition word_bytes :: "byte \<Rightarrow> byte \<Rightarrow> byte \<Rightarrow> byte \<Rightarrow> u32" where
  "word_bytes b0 b1 b2 b3 =
     ucast b0 XOR push_bit 8 (ucast b1) XOR push_bit 16 (ucast b2) XOR push_bit 24 (ucast b3)"

lemma word_bytes_or:
  "ucast b0 OR push_bit 8 (ucast b1) OR push_bit 16 (ucast b2) OR push_bit 24 (ucast b3)
     = word_bytes b0 b1 b2 b3"
  unfolding word_bytes_def
  by (rule bit_word_eqI) (auto simp: bit_simps dest: bit_imp_le_length)

lemma word_bytes_split:
  "c = word_bytes (ucast c) (ucast (drop_bit 8 c)) (ucast (drop_bit 16 c)) (ucast (drop_bit 24 c))"
proof (rule bit_word_eqI)
  fix i assume i: "i < LENGTH(32)"
  consider "i < 8" | "8 \<le> i" "i < 16" | "16 \<le> i" "i < 24" | "24 \<le> i" by linarith
  then show "bit c i = bit (word_bytes (ucast c) (ucast (drop_bit 8 c)) (ucast (drop_bit 16 c))
      (ucast (drop_bit 24 c))) i"
    using i by cases (auto simp: word_bytes_def bit_simps)
qed

lemma four_steps:
  "crc_step (crc_step (crc_step (crc_step l b0) b1) b2) b3 = crc_bits 32 (l XOR word_bytes b0 b1 b2 b3)"
proof -
  have "crc_step l b0 = crc_bits 8 (l XOR ucast b0)" by (rule crc_step_bits)
  then show ?thesis
    by (simp add: crc_step_behind word_bytes_def xor.assoc del: crc_bits_numeral)
qed

lemma four_tables:
  "crc_table3 ! unat (b0 :: byte) XOR crc_table2 ! unat (b1 :: byte) XOR crc_table1 ! unat (b2 :: byte) XOR
     crc_table0 ! unat (b3 :: byte) = crc_bits 32 (word_bytes b0 b1 b2 b3)"
proof -
  have "crc_bits 24 (ucast b1) = crc_bits 32 (push_bit 8 (ucast b1))"
    "crc_bits 16 (ucast b2) = crc_bits 32 (push_bit 16 (ucast b2))"
    "crc_bits 8 (ucast b3) = crc_bits 32 (push_bit 24 (ucast b3))"
    using crc_bits_behind [of 8 24 b1] crc_bits_behind [of 16 16 b2] crc_bits_behind [of 24 8 b3]
    by (simp_all del: crc_bits_numeral)
  then show ?thesis
    by (simp only: crc_table_nth word_bytes_def crc_bits_xor)
qed

lemma byte_of_word: "unat (c AND 0xff) = unat (ucast (c :: u32) :: byte)"
proof -
  have "c AND 0xff = take_bit 8 c" using take_bit_eq_mask [of 8 c] by (simp add: mask_eq_exp_minus_1)
  then show ?thesis by (simp add: unsigned_ucast_eq unsigned_take_bit_eq)
qed

lemma byte_of_high: "unat (drop_bit 24 c) = unat (ucast (drop_bit 24 (c :: u32)) :: byte)"
proof -
  have "take_bit 8 (drop_bit 24 c) = drop_bit 24 c"
    by (rule bit_word_eqI) (auto simp: bit_simps dest: bit_imp_le_length)
  moreover have "unat (ucast (drop_bit 24 c) :: byte) = unat (take_bit 8 (drop_bit 24 c))"
    by (simp add: unsigned_ucast_eq unsigned_take_bit_eq)
  ultimately show ?thesis by simp
qed

lemma Slow_CRC32_word_steps:
  "Slow_CRC32_word l (b0 # b1 # b2 # b3 # r) = foldl crc_step l [b0, b1, b2, b3]"
proof -
  define c where "c = l XOR word_bytes b0 b1 b2 b3"
  have "Slow_CRC32_word l (b0 # b1 # b2 # b3 # r) = crc_bits 32 c"
    unfolding Slow_CRC32_word_def DecodeFixed32.simps option.case word_bytes_or c_def [symmetric]
      Let_def byte_of_word byte_of_high four_tables word_bytes_split [symmetric] ..
  then show ?thesis by (simp add: four_steps c_def del: crc_bits_numeral)
qed

lemma Slow_CRC32_steps:
  assumes "8 \<le> length p"
  shows "Slow_CRC32 l p = foldl crc_step l (take 8 p)"
proof -
  have "Slow_CRC32_word l q = foldl crc_step l (take 4 q)" if "4 \<le> length q" for l q
  proof -
    obtain b0 b1 b2 b3 r where "q = b0 # b1 # b2 # b3 # r"
      using \<open>4 \<le> length q\<close> by (auto simp: numeral_eq_Suc Suc_le_length_iff)
    then show ?thesis by (simp add: Slow_CRC32_word_steps)
  qed
  then have "Slow_CRC32 l p = foldl crc_step l (take 4 p @ take 4 (drop 4 p))"
    using assms by (simp add: Slow_CRC32_def)
  also have "take 4 p @ take 4 (drop 4 p) = take 8 p" by (simp flip: take_add)
  finally show ?thesis .
qed

lemma ExtendBlocks_steps: "ExtendBlocks l p = foldl crc_step l p"
proof (induction l p rule: ExtendBlocks.induct)
  case (1 l p)
  have glue: "foldl crc_step (foldl crc_step k (take n q)) (drop n q) = foldl crc_step k q" for k n q
    by (metis append_take_drop_id foldl_append)
  have "Slow_CRC32 (Slow_CRC32 l p) (drop 8 p) = foldl crc_step l (take 16 p)" if "16 \<le> length p"
  proof -
    have "take 16 p = take 8 p @ take 8 (drop 8 p)" by (simp flip: take_add)
    then show ?thesis using that by (simp add: Slow_CRC32_steps)
  qed
  then show ?case using 1 by (subst ExtendBlocks.simps) (auto simp: Slow_CRC32_steps glue)
qed

text \<open>The portable implementation is the reference, wherever the data lies in memory.\<close>

lemma ExtendImpl_steps: "ExtendImpl pval crc data = Extend crc data"
proof -
  have glue: "foldl crc_step (foldl crc_step k (take n q)) (drop n q) = foldl crc_step k q" for k n q
    by (metis append_take_drop_id foldl_append)
  then show ?thesis by (simp add: ExtendImpl_def Extend_def ExtendBlocks_steps Let_def)
qed

lemma Extend_append: "Extend (Extend c a) b = Extend c (a @ b)"
  by (simp add: Extend_def xor.assoc)

lemma Extend_Value: "Extend (Value a) b = Value (a @ b)"
  by (simp add: Value_def Extend_append)

lemma Unmask_Mask [simp]: "Unmask (Mask crc) = crc"
proof -
  have "drop_bit 17 (drop_bit 15 crc OR push_bit 17 crc) OR
      push_bit 15 (drop_bit 15 crc OR push_bit 17 crc) = crc"
  proof (rule bit_word_eqI)
    fix n assume "n < LENGTH(32)"
    then show "bit (drop_bit 17 (drop_bit 15 crc OR push_bit 17 crc) OR
        push_bit 15 (drop_bit 15 crc OR push_bit 17 crc)) n = bit crc n"
      by (cases "n < 15") (auto simp: bit_simps dest: bit_imp_le_length)
  qed
  then show ?thesis by (simp add: Mask_def Unmask_def Let_def)
qed

end
