(* ===== verification/Log_Writer.thy ===== *)
theory Log_Writer
  imports Coding Crc32c Enc_Dec
begin

text \<open>
  Writing the log and the manifest (\<open>db/log_format.h\<close>, \<open>db/log_writer.h\<close>, \<open>db/log_writer.cc\<close>) with
  \<open>LOG_ENC\<close>: records are split into fragments that do not cross 32 KB blocks, every fragment is
  encrypted, and its GMAC, computed with the previous GMAC as associated data, follows it.
\<close>

section \<open>Format\<close>

type_synonym RecordType = byte

definition kZeroType :: RecordType where "kZeroType = 0"
definition kFullType :: RecordType where "kFullType = 1"
definition kFirstType :: RecordType where "kFirstType = 2"
definition kMiddleType :: RecordType where "kMiddleType = 3"
definition kLastType :: RecordType where "kLastType = 4"
definition kRecyclableFullType :: RecordType where "kRecyclableFullType = 5"
definition kRecyclableFirstType :: RecordType where "kRecyclableFirstType = 6"
definition kRecyclableMiddleType :: RecordType where "kRecyclableMiddleType = 7"
definition kRecyclableLastType :: RecordType where "kRecyclableLastType = 8"

lemmas record_type_defs = kZeroType_def kFullType_def kFirstType_def kMiddleType_def kLastType_def
  kRecyclableFullType_def kRecyclableFirstType_def kRecyclableMiddleType_def
  kRecyclableLastType_def

definition kBlockSize :: nat where "kBlockSize = 32768"
definition kHeaderSize :: nat where "kHeaderSize = 4 + 2 + 1"
definition kRecyclableHeaderSize :: nat where "kRecyclableHeaderSize = 4 + 2 + 1 + 4"

lemmas log_sizes = kBlockSize_def kHeaderSize_def kRecyclableHeaderSize_def

section \<open>The writer\<close>

text \<open>
  \<open>dest\<close> is what has been appended; \<open>dest_io\<close> lists the answers of the file to the next appends and
  flushes, all of which succeed once the list is used up. A failed append appends nothing.
\<close>

record Writer =
  dest :: bytes
  dest_io :: "status list"
  block_offset :: nat
  w_log_number :: u64
  recycle_log_files :: bool
  manual_flush :: bool
  w_unique_key :: bytes
  w_previous_mac :: bytes

text \<open>
  The constructor: the manifest uses fixed secrets, a log the random bytes it is given (16 for
  the first associated data, then 32 for the key).
\<close>

definition NewWriter ::
    "u64 \<Rightarrow> bool \<Rightarrow> bool \<Rightarrow> bool \<Rightarrow> bytes \<Rightarrow> bytes \<Rightarrow> int \<times> bytes \<Rightarrow> int \<times> bytes \<Rightarrow> Writer outcome"
  where
  "NewWriter log_number recycle manual_fl manifest manifest_key manifest_hash rand_mac rand_key =
     (let w = \<lparr>dest = [], dest_io = [], block_offset = 0, w_log_number = log_number,
               recycle_log_files = recycle, manual_flush = manual_fl, w_unique_key = [],
               w_previous_mac = []\<rparr>
      in if manifest then
           Ok (w\<lparr>w_unique_key := take 32 manifest_key, w_previous_mac := take 16 manifest_hash\<rparr>)
         else
           obind (GenerateRandomBytes rand_mac) (\<lambda>mac.
           obind (GenerateRandomBytes rand_key) (\<lambda>key.
             Ok (w\<lparr>w_unique_key := key, w_previous_mac := mac\<rparr>))))"

definition dest_result :: "Writer \<Rightarrow> status \<times> Writer" where
  "dest_result w = (case dest_io w of [] \<Rightarrow> (StatusOK, w) | s # ss \<Rightarrow> (s, w\<lparr>dest_io := ss\<rparr>))"

definition DestAppend :: "bytes \<Rightarrow> Writer \<Rightarrow> status \<times> Writer" where
  "DestAppend data w =
     (case dest_result w of
        (s, w) \<Rightarrow> (s, if s = StatusOK then w\<lparr>dest := dest w @ data\<rparr> else w))"

definition DestFlush :: "Writer \<Rightarrow> status \<times> Writer" where
  "DestFlush w = dest_result w"

definition record_header :: "RecordType \<Rightarrow> u64 \<Rightarrow> bytes \<Rightarrow> bytes" where
  "record_header t log_number payload =
     (let n = length payload;
          crc = Value [t];
          ext = (if t < kRecyclableFullType then [] else EncodeFixed32 (ucast log_number));
          crc = (if t < kRecyclableFullType then crc else Extend crc ext);
          crc = Mask (Extend crc payload)
      in EncodeFixed32 crc @ [word_of_nat n, word_of_nat (n div 256), t] @ ext)"

text \<open>
  The appends of one fragment: the result of appending the payload is overwritten by the result
  of appending its GMAC.
\<close>

definition AppendPhysical :: "bytes \<Rightarrow> bytes \<Rightarrow> bytes \<Rightarrow> Writer \<Rightarrow> status \<times> Writer" where
  "AppendPhysical enc_header enc new_mac w =
     (case DestAppend enc_header w of
        (s, w) \<Rightarrow>
          (if s = StatusOK then
             (case DestAppend enc w of
                (_, w) \<Rightarrow>
                  (case DestAppend (take 16 new_mac) w of
                     (s, w) \<Rightarrow> (s, w\<lparr>block_offset := block_offset w + 16\<rparr>)))
           else (s, w)))"

text \<open>The chain of GMACs advances whatever the file answered.\<close>

definition EmitPhysicalRecord ::
    "openssl \<Rightarrow> RecordType \<Rightarrow> bytes \<Rightarrow> Writer \<Rightarrow> (status \<times> Writer) outcome" where
  "EmitPhysicalRecord ssl t payload w =
     (let header = record_header t (w_log_number w) payload in
      obind (log_encrypt ssl header (w_unique_key w) None) (\<lambda>(enc_header, _).
      obind (log_encrypt ssl payload (w_unique_key w) (Some (w_previous_mac w))) (\<lambda>(enc, new_mac).
        (case AppendPhysical enc_header enc new_mac w of
           (s, w) \<Rightarrow>
             Ok (s, w\<lparr>w_previous_mac := take 16 new_mac,
                      block_offset := block_offset w + length header + length payload\<rparr>)))))"

definition fragment_type :: "bool \<Rightarrow> bool \<Rightarrow> bool \<Rightarrow> RecordType" where
  "fragment_type recycle is_begin is_end =
     (if is_begin \<and> is_end then if recycle then kRecyclableFullType else kFullType
      else if is_begin then if recycle then kRecyclableFirstType else kFirstType
      else if is_end then if recycle then kRecyclableLastType else kLastType
      else if recycle then kRecyclableMiddleType else kMiddleType)"

definition log_header_size :: "Writer \<Rightarrow> nat" where
  "log_header_size w =
     (if recycle_log_files w then kRecyclableHeaderSize + 16 else kHeaderSize + 16)"

text \<open>Leaving a block in which no header fits any more.\<close>

definition SwitchBlock :: "Writer \<Rightarrow> status \<times> Writer" where
  "SwitchBlock w =
     (let leftover = kBlockSize - block_offset w in
      if leftover < log_header_size w then
        (case (if leftover > 0 then DestAppend (replicate leftover 0) w else (StatusOK, w)) of
           (s, w) \<Rightarrow> if s \<noteq> StatusOK then (s, w) else (s, w\<lparr>block_offset := 0\<rparr>))
      else (StatusOK, w))"

lemma DestAppend_fields [simp]:
  "block_offset (snd (DestAppend d w)) = block_offset w"
  "recycle_log_files (snd (DestAppend d w)) = recycle_log_files w"
  "w_log_number (snd (DestAppend d w)) = w_log_number w"
  "w_unique_key (snd (DestAppend d w)) = w_unique_key w"
  "w_previous_mac (snd (DestAppend d w)) = w_previous_mac w"
  "manual_flush (snd (DestAppend d w)) = manual_flush w"
  by (auto simp: DestAppend_def dest_result_def split_beta split: list.splits)

lemma SwitchBlock_offset:
  assumes "SwitchBlock w = (StatusOK, w')"
  shows "block_offset w' + log_header_size w' \<le> kBlockSize"
    and "block_offset w' = block_offset w \<or> block_offset w' = 0"
    and "block_offset w = kBlockSize \<Longrightarrow> block_offset w' = 0"
    and "recycle_log_files w' = recycle_log_files w"
proof -
  let ?l = "kBlockSize - block_offset w"
  have "w' = (if ?l < log_header_size w
      then (if ?l > 0 then snd (DestAppend (replicate ?l 0) w) else w)\<lparr>block_offset := 0\<rparr> else w)"
    using assms by (auto simp: SwitchBlock_def Let_def split_beta split: if_split_asm)
  then show "block_offset w' + log_header_size w' \<le> kBlockSize"
    and "block_offset w' = block_offset w \<or> block_offset w' = 0"
    and "block_offset w = kBlockSize \<Longrightarrow> block_offset w' = 0"
    and "recycle_log_files w' = recycle_log_files w"
    by (auto simp: log_header_size_def log_sizes)
qed

lemma length_record_header:
  "length (record_header t n p) = (if t < kRecyclableFullType then kHeaderSize else kRecyclableHeaderSize)"
  by (simp add: record_header_def Let_def log_sizes)

lemma fragment_type_recyclable: "fragment_type r b e < kRecyclableFullType \<longleftrightarrow> \<not> r"
  by (simp add: fragment_type_def record_type_defs)

lemma AppendPhysical_offset:
  "fst (AppendPhysical h e m w) = StatusOK \<Longrightarrow>
   block_offset (snd (AppendPhysical h e m w)) = block_offset w + 16"
  "recycle_log_files (snd (AppendPhysical h e m w)) = recycle_log_files w"
  by (auto simp: AppendPhysical_def split_beta split: if_splits)

lemma EmitPhysicalRecord_offset:
  assumes "EmitPhysicalRecord ssl (fragment_type (recycle_log_files w) b e) p w = Ok (StatusOK, w')"
  shows "block_offset w' = block_offset w + log_header_size w + length p"
    and "recycle_log_files w' = recycle_log_files w"
  using assms
  by (auto simp: EmitPhysicalRecord_def Let_def obind_eq_Ok length_record_header split_beta
      fragment_type_recyclable log_header_size_def AppendPhysical_offset)

text \<open>
  The loop of \<open>AddRecord\<close>. It ends because a fragment is empty only when a block is exactly full
  after its header, and then the next fragment starts a block.
\<close>

function AddRecordLoop :: "openssl \<Rightarrow> bool \<Rightarrow> bytes \<Rightarrow> Writer \<Rightarrow> (status \<times> Writer) outcome" where
  "AddRecordLoop ssl is_begin data w =
     (case SwitchBlock w of
        (s, w) \<Rightarrow>
          (if s \<noteq> StatusOK then Ok (s, w)
           else
             (let avail = kBlockSize - block_offset w - log_header_size w;
                  fragment_length = (if length data < avail then length data else avail);
                  type = fragment_type (recycle_log_files w) is_begin (length data = fragment_length)
              in obind (EmitPhysicalRecord ssl type (take fragment_length data) w) (\<lambda>(s, w).
                   if s = StatusOK \<and> length data - fragment_length > 0 then
                     AddRecordLoop ssl False (drop fragment_length data) w
                   else Ok (s, w)))))"
  by pat_completeness auto
termination
proof (relation "measure (\<lambda>(_, _, data, w). 2 * length data + (if block_offset w = kBlockSize then 0 else 1))",
    goal_cases)
  case 1
  show ?case by simp
next
  case (2 ssl is_begin data w sw w1 avail fl ty x s2 w2)
  then have sw: "SwitchBlock w = (StatusOK, w1)" by simp
  have avail: "avail = kBlockSize - block_offset w1 - log_header_size w1"
    and fl: "fl = (if length data < avail then length data else avail)" using 2 by simp_all
  have emit: "EmitPhysicalRecord ssl (fragment_type (recycle_log_files w1) is_begin (length data = fl))
      (take fl data) w1 = Ok (StatusOK, w2)" and left: "0 < length data - fl"
    using 2 by auto
  note o = SwitchBlock_offset [OF sw]
  have le: "fl \<le> length data" using fl by simp
  have e: "block_offset w2 = block_offset w1 + log_header_size w1 + fl"
    using EmitPhysicalRecord_offset(1) [OF emit] le by simp
  show ?case
  proof (cases "fl = 0")
    case True
    then have "avail = 0" using fl left by (simp split: if_splits)
    then have w1: "block_offset w1 + log_header_size w1 = kBlockSize" using avail o(1) by simp
    then have "block_offset w2 = kBlockSize" using e True by simp
    moreover have "block_offset w \<noteq> kBlockSize"
      using o(3) w1 by (auto simp: log_header_size_def log_sizes split: if_splits)
    ultimately show ?thesis using True by simp
  next
    case False
    then show ?thesis using le left by simp linarith
  qed
qed

declare AddRecordLoop.simps [simp del]

definition AddRecord :: "openssl \<Rightarrow> bytes \<Rightarrow> Writer \<Rightarrow> (status \<times> Writer) outcome" where
  "AddRecord ssl data w =
     obind (AddRecordLoop ssl True data w) (\<lambda>(s, w).
       if s = StatusOK \<and> \<not> manual_flush w then Ok (DestFlush w) else Ok (s, w))"

section \<open>What a log holds\<close>

text \<open>
  The bytes of a sequence of fragments, as a function of the offset in the block and the previous
  GMAC, for a log that is not recycled.
\<close>

definition log_overhead :: nat where
  "log_overhead = kHeaderSize + 16"

definition frag_start :: "nat \<Rightarrow> nat" where
  "frag_start off = (if kBlockSize - off < log_overhead then 0 else off)"

definition frag_pad :: "nat \<Rightarrow> bytes" where
  "frag_pad off = (if kBlockSize - off < log_overhead then replicate (kBlockSize - off) 0 else [])"

definition frag_body :: "openssl \<Rightarrow> bytes \<Rightarrow> bytes \<Rightarrow> bytes \<Rightarrow> bytes" where
  "frag_body ssl key mac p = evp_encrypt ssl key gcm_iv mac p"

definition frag_mac :: "openssl \<Rightarrow> bytes \<Rightarrow> bytes \<Rightarrow> bytes \<Rightarrow> bytes" where
  "frag_mac ssl key mac p = evp_tag ssl key gcm_iv mac (frag_body ssl key mac p)"

definition frag_bytes :: "openssl \<Rightarrow> bytes \<Rightarrow> bytes \<Rightarrow> RecordType \<times> bytes \<Rightarrow> bytes" where
  "frag_bytes ssl key mac f =
     evp_encrypt ssl key gcm_iv gcm_aad (record_header (fst f) 0 (snd f)) @
     frag_body ssl key mac (snd f) @ frag_mac ssl key mac (snd f)"

fun encode_log :: "openssl \<Rightarrow> bytes \<Rightarrow> nat \<Rightarrow> bytes \<Rightarrow> (RecordType \<times> bytes) list \<Rightarrow> bytes" where
  "encode_log ssl key off mac [] = []"
| "encode_log ssl key off mac (f # fs) =
     frag_pad off @ frag_bytes ssl key mac f @
     encode_log ssl key (frag_start off + log_overhead + length (snd f))
       (frag_mac ssl key mac (snd f)) fs"

fun end_offset :: "nat \<Rightarrow> (RecordType \<times> bytes) list \<Rightarrow> nat" where
  "end_offset off [] = off"
| "end_offset off (f # fs) = end_offset (frag_start off + log_overhead + length (snd f)) fs"

fun end_mac :: "openssl \<Rightarrow> bytes \<Rightarrow> bytes \<Rightarrow> (RecordType \<times> bytes) list \<Rightarrow> bytes" where
  "end_mac ssl key mac [] = mac"
| "end_mac ssl key mac (f # fs) = end_mac ssl key (frag_mac ssl key mac (snd f)) fs"

fun frags_fit :: "nat \<Rightarrow> (RecordType \<times> bytes) list \<Rightarrow> bool" where
  "frags_fit off [] \<longleftrightarrow> off \<le> kBlockSize"
| "frags_fit off (f # fs) \<longleftrightarrow>
     off \<le> kBlockSize \<and> fst f < kRecyclableFullType \<and>
     frags_fit (frag_start off + log_overhead + length (snd f)) fs"

text \<open>The fragments of one record: \<open>Full\<close>, or \<open>First Middle* Last\<close>.\<close>

fun frags_shape :: "bool \<Rightarrow> (RecordType \<times> bytes) list \<Rightarrow> bool" where
  "frags_shape is_begin [] \<longleftrightarrow> False"
| "frags_shape is_begin [f] \<longleftrightarrow> fst f = (if is_begin then kFullType else kLastType)"
| "frags_shape is_begin (f # fs) \<longleftrightarrow>
     fst f = (if is_begin then kFirstType else kMiddleType) \<and> frags_shape False fs"

lemma encode_log_append:
  "encode_log ssl key off mac (fs @ gs) =
   encode_log ssl key off mac fs @
   encode_log ssl key (end_offset off fs) (end_mac ssl key mac fs) gs"
  by (induction fs arbitrary: off mac) auto

lemma end_append [simp]:
  "end_offset off (fs @ gs) = end_offset (end_offset off fs) gs"
  "end_mac ssl key mac (fs @ gs) = end_mac ssl key (end_mac ssl key mac fs) gs"
  by (induction fs arbitrary: off mac) auto

lemma frags_fit_append:
  "frags_fit off (fs @ gs) \<longleftrightarrow> frags_fit off fs \<and> frags_fit (end_offset off fs) gs"
  by (induction fs arbitrary: off) (cases gs, auto)

lemma length_frag_mac [simp]: "openssl_ok ssl \<Longrightarrow> length (frag_mac ssl key mac p) = 16"
  by (simp add: frag_mac_def)

definition writer_ok :: "Writer \<Rightarrow> bool" where
  "writer_ok w \<longleftrightarrow>
     length (w_unique_key w) = 32 \<and> length (w_previous_mac w) = 16 \<and>
     block_offset w \<le> kBlockSize \<and> \<not> recycle_log_files w \<and> dest_io w = []"

lemma DestAppend_ok [simp]: "dest_io w = [] \<Longrightarrow> DestAppend d w = (StatusOK, w\<lparr>dest := dest w @ d\<rparr>)"
  by (simp add: DestAppend_def dest_result_def)

lemma record_header_legacy: "t < kRecyclableFullType \<Longrightarrow> record_header t n p = record_header t 0 p"
  by (simp add: record_header_def)

lemma EmitPhysicalRecord_ok:
  assumes "openssl_ok ssl" and "writer_ok w" and "t < kRecyclableFullType"
  shows "EmitPhysicalRecord ssl t p w = Ok (StatusOK,
    w\<lparr>dest := dest w @ frag_bytes ssl (w_unique_key w) (w_previous_mac w) (t, p),
      block_offset := block_offset w + log_overhead + length p,
      w_previous_mac := frag_mac ssl (w_unique_key w) (w_previous_mac w) p\<rparr>)"
  using assms record_header_legacy [OF assms(3), of "w_log_number w" p]
  by (simp add: EmitPhysicalRecord_def AppendPhysical_def log_encrypt_def Let_def writer_ok_def
      frag_bytes_def frag_mac_def frag_body_def log_overhead_def length_record_header)

lemma SwitchBlock_ok:
  assumes "writer_ok w"
  shows "SwitchBlock w = (StatusOK,
    w\<lparr>dest := dest w @ frag_pad (block_offset w), block_offset := frag_start (block_offset w)\<rparr>)"
  using assms
  by (simp add: SwitchBlock_def Let_def writer_ok_def log_header_size_def frag_pad_def
      frag_start_def log_overhead_def)

text \<open>
  \<open>AddRecord\<close> appends the fragments of the record, in order, at the right offsets and with the
  GMACs chained.
\<close>

lemma AddRecordLoop_spec:
  assumes "openssl_ok ssl" and "writer_ok w"
  shows "\<exists>fs w'. AddRecordLoop ssl is_begin data w = Ok (StatusOK, w') \<and> writer_ok w' \<and>
    dest w' = dest w @ encode_log ssl (w_unique_key w) (block_offset w) (w_previous_mac w) fs \<and>
    block_offset w' = end_offset (block_offset w) fs \<and>
    w_previous_mac w' = end_mac ssl (w_unique_key w) (w_previous_mac w) fs \<and>
    w_unique_key w' = w_unique_key w \<and> manual_flush w' = manual_flush w \<and>
    concat (map snd fs) = data \<and> frags_shape is_begin fs \<and> frags_fit (block_offset w) fs"
  using assms
proof (induction ssl is_begin data w rule: AddRecordLoop.induct)
  case (1 ssl is_begin data w)
  let ?off = "block_offset w"
  define w1 where
    "w1 = w\<lparr>dest := dest w @ frag_pad ?off, block_offset := frag_start ?off\<rparr>"
  have sw: "SwitchBlock w = (StatusOK, w1)" using SwitchBlock_ok [OF "1.prems"(2)] by (simp add: w1_def)
  have ok1: "writer_ok w1" and rec: "\<not> recycle_log_files w1"
    using "1.prems"(2) by (simp_all add: w1_def writer_ok_def frag_start_def)
  have start: "frag_start ?off + log_overhead \<le> kBlockSize"
    by (auto simp: frag_start_def log_overhead_def log_sizes)
  define avail where "avail = kBlockSize - block_offset w1 - log_header_size w1"
  have avail: "avail = kBlockSize - frag_start ?off - log_overhead"
    using rec by (simp add: avail_def w1_def log_header_size_def log_overhead_def)
  define fl where "fl = (if length data < avail then length data else avail)"
  define ty where "ty = fragment_type (recycle_log_files w1) is_begin (length data = fl)"
  have ty: "ty < kRecyclableFullType" using rec by (simp add: ty_def fragment_type_recyclable)
  let ?p = "take fl data"
  have lp: "length ?p = fl" by (simp add: fl_def)
  define w2 where "w2 =
    w1\<lparr>dest := dest w1 @ frag_bytes ssl (w_unique_key w1) (w_previous_mac w1) (ty, ?p),
       block_offset := block_offset w1 + log_overhead + length ?p,
       w_previous_mac := frag_mac ssl (w_unique_key w1) (w_previous_mac w1) ?p\<rparr>"
  have emit: "EmitPhysicalRecord ssl ty ?p w1 = Ok (StatusOK, w2)"
    unfolding w2_def by (rule EmitPhysicalRecord_ok [OF "1.prems"(1) ok1 ty])
  have off2: "block_offset w2 = frag_start ?off + log_overhead + fl"
    using lp by (simp add: w2_def w1_def)
  have fit: "frag_start ?off + log_overhead + fl \<le> kBlockSize"
    using start by (auto simp: fl_def avail)
  have ok2: "writer_ok w2"
    using ok1 fit off2 "1.prems"(1) by (simp add: writer_ok_def w2_def)
  have dest2: "dest w2 = dest w @ frag_pad ?off @
      frag_bytes ssl (w_unique_key w) (w_previous_mac w) (ty, ?p)"
    and key2: "w_unique_key w2 = w_unique_key w" "manual_flush w2 = manual_flush w"
    and mac2: "w_previous_mac w2 = frag_mac ssl (w_unique_key w) (w_previous_mac w) ?p"
    by (simp_all add: w2_def w1_def)
  have loop: "AddRecordLoop ssl is_begin data w =
    (if length data - fl > 0 then AddRecordLoop ssl False (drop fl data) w2 else Ok (StatusOK, w2))"
    by (subst AddRecordLoop.simps)
      (simp only: sw prod.case Let_def avail_def [symmetric] fl_def [symmetric]
        ty_def [symmetric] emit obind_simps, simp)
  show ?case
  proof (cases "length data - fl > 0")
    case False
    then have fl': "fl = length data" by (simp add: fl_def split: if_splits)
    then have "ty = (if is_begin then kFullType else kLastType)"
      using rec by (simp add: ty_def fragment_type_def)
    moreover have "off \<le> kBlockSize" if "writer_ok w" "off = ?off" for off
      using that by (simp add: writer_ok_def)
    ultimately show ?thesis
      using False loop dest2 key2 mac2 off2 ok2 lp fl' ty fit "1.prems"(2)
      by (intro exI [of _ "[(ty, ?p)]"] exI [of _ w2]) simp
  next
    case True
    have "\<exists>fs w'. AddRecordLoop ssl False (drop fl data) w2 = Ok (StatusOK, w') \<and> writer_ok w' \<and>
      dest w' = dest w2 @ encode_log ssl (w_unique_key w2) (block_offset w2) (w_previous_mac w2) fs \<and>
      block_offset w' = end_offset (block_offset w2) fs \<and>
      w_previous_mac w' = end_mac ssl (w_unique_key w2) (w_previous_mac w2) fs \<and>
      w_unique_key w' = w_unique_key w2 \<and> manual_flush w' = manual_flush w2 \<and>
      concat (map snd fs) = drop fl data \<and> frags_shape False fs \<and> frags_fit (block_offset w2) fs"
      by (rule "1.IH" [OF sw [symmetric] _ avail_def fl_def ty_def emit refl])
        (use True ok2 "1.prems"(1) in simp_all)
    then obtain fs w' where r: "AddRecordLoop ssl False (drop fl data) w2 = Ok (StatusOK, w')"
        "writer_ok w'"
        "dest w' = dest w2 @ encode_log ssl (w_unique_key w2) (block_offset w2) (w_previous_mac w2) fs"
        "block_offset w' = end_offset (block_offset w2) fs"
        "w_previous_mac w' = end_mac ssl (w_unique_key w2) (w_previous_mac w2) fs"
        "w_unique_key w' = w_unique_key w2" "manual_flush w' = manual_flush w2"
        "concat (map snd fs) = drop fl data" "frags_shape False fs" "frags_fit (block_offset w2) fs"
      by blast
    have "ty = (if is_begin then kFirstType else kMiddleType)"
      using rec True by (auto simp: ty_def fragment_type_def)
    moreover have "frags_shape is_begin ((ty, ?p) # fs) \<longleftrightarrow>
        ty = (if is_begin then kFirstType else kMiddleType) \<and> frags_shape False fs"
      using r(9) by (cases fs) simp_all
    ultimately show ?thesis
      using True loop r dest2 key2 mac2 off2 lp ty "1.prems"(2)
      by (intro exI [of _ "(ty, ?p) # fs"] exI [of _ w']) (simp add: writer_ok_def)
  qed
qed

text \<open>The fragments that encode a list of records.\<close>

definition frags_of :: "bytes list \<Rightarrow> (RecordType \<times> bytes) list list \<Rightarrow> bool" where
  "frags_of rs fss \<longleftrightarrow> list_all2 (\<lambda>r fs. concat (map snd fs) = r \<and> frags_shape True fs) rs fss"

fun AddRecords :: "openssl \<Rightarrow> bytes list \<Rightarrow> Writer \<Rightarrow> (status \<times> Writer) outcome" where
  "AddRecords ssl [] w = Ok (StatusOK, w)"
| "AddRecords ssl (r # rs) w =
     obind (AddRecord ssl r w) (\<lambda>(s, w). if s = StatusOK then AddRecords ssl rs w else Ok (s, w))"

lemma DestFlush_ok [simp]: "dest_io w = [] \<Longrightarrow> DestFlush w = (StatusOK, w)"
  by (simp add: DestFlush_def dest_result_def)

lemma AddRecord_spec:
  assumes "openssl_ok ssl" and "writer_ok w"
  shows "\<exists>fs w'. AddRecord ssl data w = Ok (StatusOK, w') \<and> writer_ok w' \<and>
    dest w' = dest w @ encode_log ssl (w_unique_key w) (block_offset w) (w_previous_mac w) fs \<and>
    block_offset w' = end_offset (block_offset w) fs \<and>
    w_previous_mac w' = end_mac ssl (w_unique_key w) (w_previous_mac w) fs \<and>
    w_unique_key w' = w_unique_key w \<and>
    concat (map snd fs) = data \<and> frags_shape True fs \<and> frags_fit (block_offset w) fs"
proof -
  obtain fs w' where r: "AddRecordLoop ssl True data w = Ok (StatusOK, w')" "writer_ok w'"
    "dest w' = dest w @ encode_log ssl (w_unique_key w) (block_offset w) (w_previous_mac w) fs"
    "block_offset w' = end_offset (block_offset w) fs"
    "w_previous_mac w' = end_mac ssl (w_unique_key w) (w_previous_mac w) fs"
    "w_unique_key w' = w_unique_key w" "concat (map snd fs) = data" "frags_shape True fs"
    "frags_fit (block_offset w) fs"
    using AddRecordLoop_spec [OF assms] by blast
  then have "AddRecord ssl data w = Ok (StatusOK, w')"
    by (simp add: AddRecord_def writer_ok_def)
  then show ?thesis using r by blast
qed

lemma AddRecords_spec:
  assumes "openssl_ok ssl" and "writer_ok w"
  shows "\<exists>fss w'. AddRecords ssl rs w = Ok (StatusOK, w') \<and> writer_ok w' \<and>
    frags_of rs fss \<and> frags_fit (block_offset w) (concat fss) \<and>
    dest w' = dest w @
      encode_log ssl (w_unique_key w) (block_offset w) (w_previous_mac w) (concat fss)"
  using assms(2)
proof (induction rs arbitrary: w)
  case Nil
  then show ?case
    by (intro exI [of _ "[]"] exI [of _ w]) (simp add: frags_of_def writer_ok_def)
next
  case (Cons r rs)
  obtain fs w1 where r: "AddRecord ssl r w = Ok (StatusOK, w1)" "writer_ok w1"
    "dest w1 = dest w @ encode_log ssl (w_unique_key w) (block_offset w) (w_previous_mac w) fs"
    "block_offset w1 = end_offset (block_offset w) fs"
    "w_previous_mac w1 = end_mac ssl (w_unique_key w) (w_previous_mac w) fs"
    "w_unique_key w1 = w_unique_key w" "concat (map snd fs) = r" "frags_shape True fs"
    "frags_fit (block_offset w) fs"
    using AddRecord_spec [OF assms(1) Cons.prems] by blast
  obtain fss w' where s: "AddRecords ssl rs w1 = Ok (StatusOK, w')" "writer_ok w'" "frags_of rs fss"
    "frags_fit (block_offset w1) (concat fss)"
    "dest w' = dest w1 @
      encode_log ssl (w_unique_key w1) (block_offset w1) (w_previous_mac w1) (concat fss)"
    using Cons.IH [OF r(2)] by blast
  show ?case
    using r s
    by (intro exI [of _ "fs # fss"] exI [of _ w'])
      (simp add: frags_of_def frags_fit_append encode_log_append)
qed

lemma AddRecords_append:
  "AddRecords ssl (rs @ rs') w =
     obind (AddRecords ssl rs w) (\<lambda>(s, w). if s = StatusOK then AddRecords ssl rs' w else Ok (s, w))"
proof (induction rs arbitrary: w)
  case (Cons r rs)
  show ?case by (cases "AddRecord ssl r w") (auto simp: Cons.IH split_beta)
qed simp

lemma NewWriter_ok:
  assumes "NewWriter n False m False mk mh (ra, mac) (rb, key) = Ok w"
    and "length mac = 16" and "length key = 32"
  shows "writer_ok w" and "w_unique_key w = key" and "w_previous_mac w = mac"
    and "block_offset w = 0" and "dest w = []"
  using assms
  by (auto simp: NewWriter_def GenerateRandomBytes_def writer_ok_def Let_def split: if_split_asm)

end
