(* ===== verification/Log_Reader.thy ===== *)
theory Log_Reader
  imports Log_Writer
begin

text \<open>
  Reading the log and the manifest (\<open>db/log_reader.h\<close>, \<open>db/log_reader.cc\<close>) with \<open>LOG_ENC\<close>. The
  reader decrypts in place in its 32 KB buffer; the model keeps that buffer with everything that
  earlier reads left in it, so that a length field that points behind the data of the last read
  finds the bytes that are really there, or leaves the buffer (\<open>Undef\<close>).
\<close>

section \<open>State\<close>

datatype WALRecoveryMode = kTolerateCorruptedTailRecords | kAbsoluteConsistency
  | kPointInTimeRecovery | kSkipAnyCorruptedRecords

definition kEof :: u32 where "kEof = 9"
definition kBadRecord :: u32 where "kBadRecord = 10"
definition kBadHeader :: u32 where "kBadHeader = 11"
definition kOldRecord :: u32 where "kOldRecord = 12"
definition kBadRecordLen :: u32 where "kBadRecordLen = 13"
definition kBadRecordChecksum :: u32 where "kBadRecordChecksum = 14"

lemmas special_defs = kEof_def kBadRecord_def kBadHeader_def kOldRecord_def kBadRecordLen_def
  kBadRecordChecksum_def

datatype drop_reason = PartialRecord | MissingStart | TruncatedHeader | TrailingData
  | MiddleOfRecord | BadLength | ChecksumMismatch | UnknownType | ReadFailed status

text \<open>
  \<open>r_file\<close> is what has not been read of the file, \<open>r_io\<close> the answers to the next reads (the status
  and how many of the bytes arrive); once the list is used up reads deliver all they can. The
  buffer is \<open>buf_len\<close> bytes from \<open>buf_pos\<close> in \<open>backing_store\<close>. \<open>reports\<close> are the calls of the
  reporter, last first.
\<close>

record Reader =
  r_file :: bytes
  r_io :: "(status \<times> nat) list"
  backing_store :: bytes
  buf_pos :: nat
  buf_len :: nat
  r_eof :: bool
  read_error :: bool
  eof_offset :: nat
  last_record_offset :: u64
  end_of_buffer_offset :: u64
  r_checksum :: bool
  r_log_number :: u64
  recycled :: bool
  r_unique_key :: bytes
  r_previous_mac :: bytes
  reports :: "(nat \<times> drop_reason) list"

text \<open>
  The constructor. \<open>secret\<close> stands for the contents of the fields that only the manifest
  initialises; \<open>SetSecret\<close> sets them for a log.
\<close>

definition NewReader ::
    "bytes \<Rightarrow> bytes \<Rightarrow> bool \<Rightarrow> u64 \<Rightarrow> bool \<Rightarrow> bytes \<Rightarrow> bytes \<Rightarrow> bytes \<times> bytes \<Rightarrow> Reader" where
  "NewReader contents garbage check log_num manifest manifest_key manifest_hash secret =
     \<lparr>r_file = contents, r_io = [], backing_store = garbage, buf_pos = 0, buf_len = 0,
      r_eof = False, read_error = False, eof_offset = 0, last_record_offset = 0,
      end_of_buffer_offset = 0, r_checksum = check, r_log_number = log_num, recycled = False,
      r_unique_key = (if manifest then take 32 manifest_key else fst secret),
      r_previous_mac = (if manifest then take 16 manifest_hash else snd secret), reports = []\<rparr>"

definition SetSecret :: "bytes \<times> bytes \<Rightarrow> Reader \<Rightarrow> Reader" where
  "SetSecret sc r = r\<lparr>r_unique_key := take 32 (fst sc), r_previous_mac := take 16 (snd sc)\<rparr>"

definition ReportDrop :: "nat \<Rightarrow> drop_reason \<Rightarrow> Reader \<Rightarrow> Reader" where
  "ReportDrop n reason r = r\<lparr>reports := (n, reason) # reports r\<rparr>"

abbreviation ReportCorruption :: "nat \<Rightarrow> drop_reason \<Rightarrow> Reader \<Rightarrow> Reader" where
  "ReportCorruption \<equiv> ReportDrop"

section \<open>The buffer\<close>

definition buffer :: "Reader \<Rightarrow> bytes" where
  "buffer r = take (buf_len r) (drop (buf_pos r) (backing_store r))"

text \<open>Reading and writing \<open>n\<close> bytes at \<open>buffer_.data() + i\<close>.\<close>

definition read_buf :: "nat \<Rightarrow> nat \<Rightarrow> Reader \<Rightarrow> bytes outcome" where
  "read_buf i n r =
     (if buf_pos r + i + n \<le> length (backing_store r)
      then Ok (take n (drop (buf_pos r + i) (backing_store r))) else Undef)"

definition write_buf :: "nat \<Rightarrow> bytes \<Rightarrow> Reader \<Rightarrow> Reader" where
  "write_buf i bs r = r\<lparr>backing_store :=
     take (buf_pos r + i) (backing_store r) @ bs @
     drop (buf_pos r + i + length bs) (backing_store r)\<rparr>"

text \<open>\<open>Slice::remove_prefix\<close> does not check that there is so much to remove.\<close>

definition remove_prefix :: "nat \<Rightarrow> Reader \<Rightarrow> Reader" where
  "remove_prefix n r = r\<lparr>buf_pos := buf_pos r + n,
     buf_len := (if n \<le> buf_len r then buf_len r - n else buf_len r + 2 ^ 64 - n)\<rparr>"

definition clear_buffer :: "Reader \<Rightarrow> Reader" where
  "clear_buffer r = r\<lparr>buf_pos := 0, buf_len := 0\<rparr>"

definition seq_read :: "nat \<Rightarrow> Reader \<Rightarrow> status \<times> bytes \<times> Reader" where
  "seq_read n r =
     (case r_io r of
        [] \<Rightarrow> (StatusOK, take n (r_file r), r\<lparr>r_file := drop n (r_file r)\<rparr>)
      | (s, k) # io \<Rightarrow>
          let m = min n k in (s, take m (r_file r), r\<lparr>r_file := drop m (r_file r), r_io := io\<rparr>))"

text \<open>
  \<open>ReadMore\<close> returns the error and the number of dropped bytes, if any. The file reads into the
  backing store, as the files of the POSIX environment do.
\<close>

definition ReadMore :: "Reader \<Rightarrow> (u32 \<times> nat) option \<times> Reader" where
  "ReadMore r =
     (if \<not> r_eof r \<and> \<not> read_error r then
        (case seq_read kBlockSize (clear_buffer r) of
           (s, data, r) \<Rightarrow>
             (let r = write_buf 0 data r\<lparr>buf_len := length data,
                    end_of_buffer_offset := end_of_buffer_offset r + word_of_nat (length data)\<rparr>
              in if s \<noteq> StatusOK then
                   (Some (kEof, 0), (ReportDrop kBlockSize (ReadFailed s) (clear_buffer r))\<lparr>read_error := True\<rparr>)
                 else if buf_len r < kBlockSize then
                   (None, r\<lparr>r_eof := True, eof_offset := buf_len r\<rparr>)
                 else (None, r)))
      else if buf_len r \<noteq> 0 then (Some (kBadHeader, buf_len r), clear_buffer r)
      else (Some (kEof, 0), clear_buffer r))"

section \<open>Physical records\<close>

text \<open>
  What \<open>ReadPhysicalRecord\<close> gives: the type or the special value, the fragment (if it was
  assigned) and the number of dropped bytes.
\<close>

record physical =
  ph_type :: u32
  ph_result :: "bytes option"
  ph_drop :: nat

definition special :: "u32 \<Rightarrow> nat \<Rightarrow> physical" where
  "special t n = \<lparr>ph_type = t, ph_result = None, ph_drop = n\<rparr>"

text \<open>Decryption of the fragment and of its GMAC, before anything else is checked.\<close>

definition DecryptFragment :: "openssl \<Rightarrow> nat \<Rightarrow> Reader \<Rightarrow> Reader outcome" where
  "DecryptFragment ssl len r =
     obind (read_buf kHeaderSize len r) (\<lambda>enc.
     obind (read_buf (kHeaderSize + len) 16 r) (\<lambda>read_mac.
     obind (log_decrypt ssl enc (r_unique_key r) (Some read_mac) (Some (r_previous_mac r))) (\<lambda>plain.
       Ok ((write_buf kHeaderSize plain r)\<lparr>r_previous_mac := read_mac\<rparr>))))"

text \<open>From the length check on.\<close>

definition TakeFragment :: "nat \<Rightarrow> nat \<Rightarrow> u32 \<Rightarrow> Reader \<Rightarrow> (physical \<times> Reader) outcome" where
  "TakeFragment header_size len type r =
     (if header_size + len > buf_len r then
        let drop_size = buf_len r; r = clear_buffer r in
        Ok (special (if \<not> r_eof r then kBadRecordLen else if drop_size \<noteq> 0 then kBadHeader else kEof)
              drop_size, r)
      else if type = ucast kZeroType \<and> len = 0 then Ok (special kBadRecord 0, clear_buffer r)
      else
        obind (read_buf 0 4 r) (\<lambda>stored.
        obind (of_opt (DecodeFixed32 stored)) (\<lambda>crc.
        obind (read_buf 6 (len + header_size - 6) r) (\<lambda>covered.
          if r_checksum r \<and> Value covered \<noteq> Unmask crc then
            Ok (special kBadRecordChecksum (buf_len r), clear_buffer r)
          else
            obind (read_buf header_size len r) (\<lambda>result.
              Ok (\<lparr>ph_type = type, ph_result = Some result, ph_drop = 0\<rparr>,
                  remove_prefix 16 (remove_prefix (header_size + len) r)))))))"

text \<open>
  The body of the loop of \<open>ReadPhysicalRecord\<close>; \<open>None\<close> is \<open>continue\<close>. \<open>ParseType\<close> is what follows the
  decryption.
\<close>

definition ParseType :: "nat \<Rightarrow> u32 \<Rightarrow> Reader \<Rightarrow> (physical option \<times> Reader) outcome" where
  "ParseType len type r =
     (if ucast kRecyclableFullType \<le> type \<and> type \<le> ucast kRecyclableLastType then
        (let r = (if end_of_buffer_offset r - word_of_nat (buf_len r) = 0
                  then r\<lparr>recycled := True\<rparr> else r)
         in if buf_len r < kRecyclableHeaderSize then
              (case ReadMore r of
                 (Some (e, n), r) \<Rightarrow> Ok (Some (special e n), r) | (None, r) \<Rightarrow> Ok (None, r))
            else
              obind (read_buf 7 4 r) (\<lambda>raw. obind (of_opt (DecodeFixed32 raw)) (\<lambda>num.
                if ucast num \<noteq> r_log_number r then Ok (Some (special kOldRecord 0), r)
                else obind (TakeFragment kRecyclableHeaderSize len type r) (\<lambda>(p, r). Ok (Some p, r)))))
      else obind (TakeFragment kHeaderSize len type r) (\<lambda>(p, r). Ok (Some p, r)))"

definition ParsePhysical :: "openssl \<Rightarrow> Reader \<Rightarrow> (physical option \<times> Reader) outcome" where
  "ParsePhysical ssl r =
     obind (read_buf 0 kHeaderSize r) (\<lambda>enc.
     obind (log_decrypt ssl enc (r_unique_key r) None None) (\<lambda>header.
       let r = write_buf 0 header r;
           len = unat (header ! 4) + 256 * unat (header ! 5);
           type = (scast (header ! 6) :: u32)
       in obind (DecryptFragment ssl len r) (ParseType len type)))"

text \<open>
  \<open>ReadMore\<close> is asked to refill a short buffer at most twice: once for the next block, once to find
  the end of the file. A second header check, for recyclable types, cannot fail any more.
\<close>

lemma ReadMore_continue:
  assumes "ReadMore r = (None, r')"
  shows "\<not> r_eof r" and "r_eof r' \<or> buf_len r' \<ge> kBlockSize"
  using assms
  by (auto simp: ReadMore_def Let_def split_beta split: if_split_asm)

lemma write_buf_fields [simp]:
  "buf_len (write_buf i bs r) = buf_len r"
  "buf_pos (write_buf i bs r) = buf_pos r"
  "r_eof (write_buf i bs r) = r_eof r"
  "read_error (write_buf i bs r) = read_error r"
  "r_file (write_buf i bs r) = r_file r"
  "r_io (write_buf i bs r) = r_io r"
  "r_unique_key (write_buf i bs r) = r_unique_key r"
  "r_previous_mac (write_buf i bs r) = r_previous_mac r"
  "r_checksum (write_buf i bs r) = r_checksum r"
  "r_log_number (write_buf i bs r) = r_log_number r"
  "end_of_buffer_offset (write_buf i bs r) = end_of_buffer_offset r"
  "recycled (write_buf i bs r) = recycled r"
  "reports (write_buf i bs r) = reports r"
  by (simp_all add: write_buf_def)

lemma ParseType_no_continue:
  assumes "kRecyclableHeaderSize \<le> buf_len r"
  shows "ParseType len type r \<noteq> Ok (None, r')"
  using assms by (auto simp: ParseType_def obind_eq_Ok Let_def split: if_split_asm)

lemma ParsePhysical_no_continue:
  assumes "kHeaderSize + 16 \<le> buf_len r"
  shows "ParsePhysical ssl r \<noteq> Ok (None, r')"
proof
  assume "ParsePhysical ssl r = Ok (None, r')"
  then obtain n h r1 t where d: "DecryptFragment ssl n (write_buf 0 h r) = Ok r1"
    and t: "ParseType n t r1 = Ok (None, r')"
    unfolding ParsePhysical_def Let_def obind_eq_Ok by blast
  have "buf_len r1 = buf_len r" using d by (auto simp: DecryptFragment_def obind_eq_Ok)
  then show False using t assms ParseType_no_continue [of r1 n t r'] by (simp add: log_sizes)
qed

function ReadPhysicalRecord :: "openssl \<Rightarrow> Reader \<Rightarrow> (physical \<times> Reader) outcome" where
  "ReadPhysicalRecord ssl r =
     (if buf_len r < kHeaderSize + 16 then
        (case ReadMore r of
           (Some (e, n), r') \<Rightarrow> Ok (special e n, r')
         | (None, r') \<Rightarrow> ReadPhysicalRecord ssl r')
      else
        obind (ParsePhysical ssl r) (\<lambda>(p, r').
          case p of Some p \<Rightarrow> Ok (p, r') | None \<Rightarrow> ReadPhysicalRecord ssl r'))"
  by pat_completeness auto
termination
proof (relation "measure (\<lambda>(_, r). if buf_len r < kHeaderSize + 16 then if r_eof r then 1 else 2 else 0)",
    goal_cases)
  case 1
  show ?case by simp
next
  case (2 ssl r x r')
  then show ?case
    using ReadMore_continue [of r r'] by (auto simp: log_sizes)
next
  case (3 ssl r x p r')
  then show ?case using ParsePhysical_no_continue [of r ssl r'] by simp
qed

declare ReadPhysicalRecord.simps [simp del]

section \<open>Records\<close>

text \<open>
  \<open>ReadRecord\<close>, from inside its loop: \<open>scratch\<close> and \<open>in_frag\<close> hold the fragments so far, \<open>frag\<close> the
  fragment variable. \<open>Some record\<close> is a return of true, \<open>None\<close> of false. The loop may run forever.
\<close>

definition is_type :: "u32 \<Rightarrow> RecordType \<Rightarrow> RecordType \<Rightarrow> bool" where
  "is_type t a b \<longleftrightarrow> t = ucast a \<or> t = ucast b"

definition tail_report :: "WALRecoveryMode \<Rightarrow> bool \<Rightarrow> bytes \<Rightarrow> Reader \<Rightarrow> Reader" where
  "tail_report mode in_frag scratch r =
     (if in_frag \<and> mode = kAbsoluteConsistency
      then ReportCorruption (length scratch) TrailingData r else r)"

definition middle_report :: "bool \<Rightarrow> bytes \<Rightarrow> Reader \<Rightarrow> Reader" where
  "middle_report in_frag scratch r =
     (if in_frag then ReportCorruption (length scratch) MiddleOfRecord r else r)"

partial_function (option) ReadRecordLoop ::
    "openssl \<Rightarrow> WALRecoveryMode \<Rightarrow> bool \<Rightarrow> bytes \<Rightarrow> bytes \<Rightarrow> u64 \<Rightarrow> Reader \<Rightarrow>
     (bytes option \<times> Reader) run" where
  "ReadRecordLoop ssl mode in_frag scratch frag offset r =
     (let here = end_of_buffer_offset r - word_of_nat (buf_len r) in
      case ReadPhysicalRecord ssl r of
        Exit \<Rightarrow> Some Exit
      | Undef \<Rightarrow> Some Undef
      | Ok (p, r) \<Rightarrow>
          (let t = ph_type p;
               frag = (case ph_result p of Some f \<Rightarrow> f | None \<Rightarrow> frag);
               partial = (if in_frag \<and> scratch \<noteq> []
                          then ReportCorruption (length scratch) PartialRecord r else r);
               dropped = (if in_frag then [] else scratch)
           in if is_type t kFullType kRecyclableFullType then
                Some (Ok (Some frag, partial\<lparr>last_record_offset := here\<rparr>))
              else if is_type t kFirstType kRecyclableFirstType then
                ReadRecordLoop ssl mode True frag frag here partial
              else if is_type t kMiddleType kRecyclableMiddleType then
                (if \<not> in_frag then
                   ReadRecordLoop ssl mode in_frag scratch frag offset
                     (ReportCorruption (length frag) MissingStart r)
                 else ReadRecordLoop ssl mode in_frag (scratch @ frag) frag offset r)
              else if is_type t kLastType kRecyclableLastType then
                (if \<not> in_frag then
                   ReadRecordLoop ssl mode in_frag scratch frag offset
                     (ReportCorruption (length frag) MissingStart r)
                 else Some (Ok (Some (scratch @ frag), r\<lparr>last_record_offset := offset\<rparr>)))
              else if t = kBadHeader then
                Some (Ok (None, tail_report mode in_frag scratch
                  (if mode = kAbsoluteConsistency
                   then ReportCorruption (ph_drop p) TruncatedHeader r else r)))
              else if t = kEof then Some (Ok (None, tail_report mode in_frag scratch r))
              else if t = kOldRecord \<and> mode \<noteq> kSkipAnyCorruptedRecords then
                Some (Ok (None, tail_report mode in_frag scratch r))
              else if t = kOldRecord \<or> t = kBadRecord then
                ReadRecordLoop ssl mode False dropped frag offset (middle_report in_frag scratch r)
              else if t = kBadRecordLen \<or> t = kBadRecordChecksum then
                (if recycled r \<and> mode = kTolerateCorruptedTailRecords then Some (Ok (None, r))
                 else
                   ReadRecordLoop ssl mode False dropped frag offset
                     (middle_report in_frag scratch
                       (ReportCorruption (ph_drop p)
                         (if t = kBadRecordLen then BadLength else ChecksumMismatch) r)))
              else
                ReadRecordLoop ssl mode False [] frag offset
                  (ReportCorruption (length frag + (if in_frag then length scratch else 0))
                    UnknownType r)))"

definition ReadRecord :: "openssl \<Rightarrow> WALRecoveryMode \<Rightarrow> Reader \<Rightarrow> (bytes option \<times> Reader) run" where
  "ReadRecord ssl mode r = ReadRecordLoop ssl mode False [] [] 0 r"

definition LastRecordOffset :: "Reader \<Rightarrow> u64" where
  "LastRecordOffset r = last_record_offset r"

definition LastRecordEnd :: "Reader \<Rightarrow> u64" where
  "LastRecordEnd r = end_of_buffer_offset r - word_of_nat (buf_len r)"

text \<open>
  Looking again in a file that has grown: the rest of the partial block is read behind what is
  left of the buffer.
\<close>

definition UnmarkEOFInternal :: "Reader \<Rightarrow> Reader" where
  "UnmarkEOFInternal r =
     (let consumed_bytes = eof_offset r - buf_len r;
          remaining = kBlockSize - eof_offset r;
          store = take consumed_bytes (backing_store r) @ buffer r @
                  drop (consumed_bytes + buf_len r) (backing_store r);
          r = (if buf_pos r \<noteq> consumed_bytes then r\<lparr>backing_store := store\<rparr> else r)
      in case seq_read remaining r of
           (s, data, r) \<Rightarrow>
             (let added = length data;
                  r = r\<lparr>end_of_buffer_offset := end_of_buffer_offset r + word_of_nat added,
                        backing_store := take (eof_offset r) (backing_store r) @ data @
                          drop (eof_offset r + added) (backing_store r)\<rparr>
              in if s \<noteq> StatusOK then
                   (if added > 0 then ReportDrop added (ReadFailed s) r else r)\<lparr>read_error := True\<rparr>
                 else
                   (let r = r\<lparr>buf_pos := consumed_bytes,
                              buf_len := eof_offset r + added - consumed_bytes\<rparr>
                    in if added < remaining
                       then r\<lparr>r_eof := True, eof_offset := eof_offset r + added\<rparr>
                       else r\<lparr>eof_offset := 0\<rparr>)))"

definition UnmarkEOF :: "Reader \<Rightarrow> Reader" where
  "UnmarkEOF r =
     (if read_error r then r
      else if eof_offset r = 0 then r\<lparr>r_eof := False\<rparr>
      else UnmarkEOFInternal (r\<lparr>r_eof := False\<rparr>))"

section \<open>Reading back what was written\<close>

text \<open>
  The reader is \<open>off\<close> bytes into a block and \<open>T\<close> is what is left of the log: the buffer holds the
  part of \<open>T\<close> that belongs to this block, the file the rest.
\<close>

definition reader_at :: "bytes \<Rightarrow> bytes \<Rightarrow> nat \<Rightarrow> bytes \<Rightarrow> Reader \<Rightarrow> bool" where
  "reader_at key mac off T r \<longleftrightarrow>
     off \<le> kBlockSize \<and> length (backing_store r) = kBlockSize \<and> r_io r = [] \<and> \<not> read_error r \<and>
     buf_pos r + buf_len r \<le> kBlockSize \<and>
     buffer r = take (kBlockSize - off) T \<and> buf_len r = length (take (kBlockSize - off) T) \<and>
     r_file r = drop (kBlockSize - off) T \<and> r_eof r = (length T < kBlockSize - off) \<and>
     r_unique_key r = key \<and> r_previous_mac r = mac \<and> reports r = []"

lemma reader_at_start:
  assumes "length garbage = kBlockSize" and "length key = 32" and "length mac = 16"
  shows "reader_at key mac kBlockSize T
    (SetSecret (key, mac) (NewReader T garbage check n m mk mh secret))"
  using assms by (simp add: reader_at_def SetSecret_def NewReader_def buffer_def)

lemma read_buf_buffer:
  assumes "buf_pos r + buf_len r \<le> length (backing_store r)" and "i + n \<le> buf_len r"
  shows "read_buf i n r = Ok (take n (drop i (buffer r)))"
  using assms by (simp add: read_buf_def buffer_def drop_take add.commute)

lemma buffer_write_buf:
  assumes "buf_pos r + buf_len r \<le> length (backing_store r)" and "i + length bs \<le> buf_len r"
  shows "buffer (write_buf i bs r) = take i (buffer r) @ bs @ drop (i + length bs) (buffer r)"
    and "length (backing_store (write_buf i bs r)) = length (backing_store r)"
proof -
  show "length (backing_store (write_buf i bs r)) = length (backing_store r)"
    using assms by (simp add: write_buf_def)
  let ?D = "drop (buf_pos r) (backing_store r)"
  have "drop (buf_pos r) (backing_store (write_buf i bs r)) =
      take i ?D @ bs @ drop (i + length bs) ?D"
    using assms by (simp add: write_buf_def take_drop add.commute add.left_commute)
  moreover have "buf_len r \<le> length ?D" using assms by simp
  ultimately show "buffer (write_buf i bs r) =
      take i (buffer r) @ bs @ drop (i + length bs) (buffer r)"
    using assms(2) by (simp add: buffer_def drop_take min_absorb1)
qed

lemma buffer_remove_prefix:
  "n \<le> buf_len r \<Longrightarrow> buffer (remove_prefix n r) = drop n (buffer r)"
  by (simp add: remove_prefix_def buffer_def drop_take add.commute)

lemma remove_prefix_twice:
  "a + b \<le> buf_len r \<Longrightarrow> remove_prefix b (remove_prefix a r) = remove_prefix (a + b) r"
  by (simp add: remove_prefix_def add.assoc)

lemma ReadMore_next_block:
  assumes "reader_at key mac off T r" and "kBlockSize - off \<le> length T"
  shows "\<exists>r'. ReadMore r = (None, r') \<and> reader_at key mac 0 (drop (kBlockSize - off) T) r'"
proof -
  let ?T = "drop (kBlockSize - off) T"
  let ?data = "take kBlockSize ?T"
  have r: "\<not> r_eof r" "\<not> read_error r" "r_io r = []" "r_file r = ?T"
    "length (backing_store r) = kBlockSize" "r_unique_key r = key" "r_previous_mac r = mac"
    "reports r = []"
    using assms by (simp_all add: reader_at_def)
  define r1 where "r1 = (write_buf 0 ?data (clear_buffer r\<lparr>r_file := drop kBlockSize ?T\<rparr>))
    \<lparr>buf_len := length ?data,
     end_of_buffer_offset := end_of_buffer_offset r + word_of_nat (length ?data)\<rparr>"
  define r2 where "r2 = (if length ?data < kBlockSize
    then r1\<lparr>r_eof := True, eof_offset := length ?data\<rparr> else r1)"
  have "seq_read kBlockSize (clear_buffer r) =
      (StatusOK, ?data, clear_buffer r\<lparr>r_file := drop kBlockSize ?T\<rparr>)"
    using r by (simp add: seq_read_def clear_buffer_def)
  then have m: "ReadMore r = (None, r2)"
    using r(1,2) by (simp add: ReadMore_def Let_def r2_def r1_def clear_buffer_def)
  have s: "backing_store r1 = ?data @ drop (length ?data) (backing_store r)" "buf_pos r1 = 0"
    "buf_len r1 = length ?data" "r_file r1 = drop kBlockSize ?T" "\<not> r_eof r1" "\<not> read_error r1"
    "r_io r1 = []" "r_unique_key r1 = key" "r_previous_mac r1 = mac" "reports r1 = []"
    using r by (simp_all add: r1_def write_buf_def clear_buffer_def)
  have "reader_at key mac 0 ?T r2"
  proof (cases "length ?data < kBlockSize")
    case True
    then have "length ?T < kBlockSize" by (simp add: min_def split: if_splits)
    then show ?thesis using s r(5) by (simp add: reader_at_def r2_def buffer_def)
  next
    case False
    then show ?thesis using s r(5) by (simp add: reader_at_def r2_def buffer_def)
  qed
  with m show ?thesis by blast
qed

lemma ReadMore_end:
  assumes "reader_at key mac off [] r" and "off < kBlockSize"
  shows "\<exists>r'. ReadMore r = (Some (kEof, 0), r') \<and> reader_at key mac off [] r'"
  using assms by (auto simp: ReadMore_def reader_at_def clear_buffer_def buffer_def)

lemma length_frag_body [simp]: "openssl_ok ssl \<Longrightarrow> length (frag_body ssl key mac p) = length p"
  by (simp add: frag_body_def)

lemma buffer_update_mac [simp]: "buffer (r\<lparr>r_previous_mac := m\<rparr>) = buffer r"
  by (simp add: buffer_def)

lemma header_legacy:
  assumes "t < kRecyclableFullType"
  shows "record_header t n p = EncodeFixed32 (Mask (Value (t # p))) @
    [word_of_nat (length p), word_of_nat (length p div 256), t]"
  using assms Extend_Value [of "[t]" p] by (simp add: record_header_def Let_def)

lemma two_bytes:
  assumes "n < 65536"
  shows "unat (word_of_nat n :: byte) + 256 * unat (word_of_nat (n div 256) :: byte) = n"
proof -
  have "n div 256 < 256" using assms by simp
  then show ?thesis by (simp add: unsigned_of_nat take_bit_eq_mod)
qed

lemma legacy_type_cases:
  assumes "t < kRecyclableFullType" and "t \<noteq> kZeroType"
  obtains "t = kFullType" | "t = kFirstType" | "t = kMiddleType" | "t = kLastType"
proof -
  have "unat t < 5" "unat t \<noteq> 0"
    using assms by (simp_all add: record_type_defs word_less_nat_alt unat_eq_0)
  then have "unat t = 1 \<or> unat t = 2 \<or> unat t = 3 \<or> unat t = 4" by linarith
  then have "t = 1 \<or> t = 2 \<or> t = 3 \<or> t = 4" by (auto simp: word_unat_eq_iff)
  then show thesis using that by (auto simp: record_type_defs)
qed

lemma legacy_type_code:
  assumes "t < kRecyclableFullType" and "t \<noteq> kZeroType"
  shows "(scast t :: u32) = ucast t" and "(ucast t :: u32) \<noteq> ucast kZeroType"
    and "\<not> ucast kRecyclableFullType \<le> (ucast t :: u32)"
proof -
  consider "t = 1" | "t = 2" | "t = 3" | "t = 4"
    using legacy_type_cases [OF assms] by (metis record_type_defs(2-5))
  then have "(scast t :: u32) = ucast t \<and> (ucast t :: u32) \<noteq> ucast (0 :: byte) \<and>
      \<not> ucast (5 :: byte) \<le> (ucast t :: u32)"
    by cases (simp_all add: word_le_nat_alt)
  then show "(scast t :: u32) = ucast t" and "(ucast t :: u32) \<noteq> ucast kZeroType"
    and "\<not> ucast kRecyclableFullType \<le> (ucast t :: u32)"
    by (auto simp only: kZeroType_def kRecyclableFullType_def)
qed

lemma ParsePhysical_fragment:
  assumes ssl: "openssl_ok ssl" and r: "reader_at key mac off (frag_bytes ssl key mac (t, p) @ T) r"
    and k: "length key = 32" and m: "length mac = 16"
    and fit: "off + log_overhead + length p \<le> kBlockSize"
    and t: "t < kRecyclableFullType" "t \<noteq> kZeroType"
  shows "\<exists>r'. ParsePhysical ssl r =
      Ok (Some \<lparr>ph_type = ucast t, ph_result = Some p, ph_drop = 0\<rparr>, r') \<and>
    reader_at key (frag_mac ssl key mac p) (off + log_overhead + length p) T r'"
proof -
  let ?n = "length p"
  let ?off = "off + log_overhead + ?n"
  let ?h = "record_header t 0 p"
  let ?eh = "evp_encrypt ssl key gcm_iv gcm_aad ?h"
  let ?ep = "frag_body ssl key mac p"
  let ?mac = "frag_mac ssl key mac p"
  let ?rest = "take (kBlockSize - ?off) T"
  have lh: "length ?h = 7" using t by (simp add: length_record_header kHeaderSize_def)
  have lf: "length (frag_bytes ssl key mac (t, p)) = log_overhead + ?n"
    using ssl lh by (simp add: frag_bytes_def log_overhead_def kHeaderSize_def)
  have split_fit: "kBlockSize - off = (log_overhead + ?n) + (kBlockSize - ?off)" using fit by simp
  have b0: "buffer r = ?eh @ ?ep @ ?mac @ ?rest"
    using r lf by (simp add: reader_at_def split_fit) (simp add: frag_bytes_def)
  have len0: "buf_len r = log_overhead + ?n + length ?rest"
    using r lf by (simp add: reader_at_def split_fit)
  have in0: "buf_pos r + buf_len r \<le> length (backing_store r)"
    using r by (simp add: reader_at_def)
  have n: "?n < 65536" using fit by (simp add: log_sizes log_overhead_def)
  have ov: "log_overhead = 23" by (simp add: log_overhead_def kHeaderSize_def)
  define r1 where "r1 = write_buf 0 ?h r"
  have b1: "buffer r1 = ?h @ ?ep @ ?mac @ ?rest" and st1: "length (backing_store r1) = length (backing_store r)"
    using buffer_write_buf [OF in0, of 0 ?h] lh len0 b0 ssl ov by (simp_all add: r1_def)
  have f1: "buf_len r1 = buf_len r" "buf_pos r1 = buf_pos r" "r_unique_key r1 = key"
    "r_previous_mac r1 = mac"
    using r by (simp_all add: r1_def reader_at_def)
  have in1: "buf_pos r1 + buf_len r1 \<le> length (backing_store r1)" using in0 f1 st1 by simp
  define r2 where "r2 = (write_buf 7 p r1)\<lparr>r_previous_mac := ?mac\<rparr>"
  have b2: "buffer r2 = ?h @ p @ ?mac @ ?rest" and st2: "length (backing_store r2) = length (backing_store r)"
    using buffer_write_buf [OF in1, of 7 p] lh len0 b1 ssl ov st1 f1
    by (simp_all add: r2_def)
  have f2: "buf_len r2 = buf_len r" "buf_pos r2 = buf_pos r"
    using f1 by (simp_all add: r2_def)
  have in2: "buf_pos r2 + buf_len r2 \<le> length (backing_store r2)" using in0 f2 st2 by simp
  have d: "DecryptFragment ssl ?n r1 = Ok r2"
  proof -
    have "read_buf 7 ?n r1 = Ok ?ep" "read_buf (7 + ?n) 16 r1 = Ok ?mac"
      using read_buf_buffer [OF in1] len0 f1 ov b1 lh ssl by simp_all
    moreover have "log_decrypt ssl ?ep key (Some ?mac) (Some mac) = Ok p"
      using ssl k m by (simp add: log_decrypt_def Let_def frag_mac_def frag_body_def)
    ultimately show ?thesis by (simp add: DecryptFragment_def kHeaderSize_def f1 r2_def)
  qed
  have tr: "read_buf 0 4 r2 = Ok (EncodeFixed32 (Mask (Value (t # p))))"
    "read_buf 6 (?n + 7 - 6) r2 = Ok (t # p)" "read_buf 7 ?n r2 = Ok p"
    using read_buf_buffer [OF in2] len0 f2 ov b2 t by (simp_all add: header_legacy)
  let ?res = "\<lparr>ph_type = ucast t, ph_result = Some p, ph_drop = 0\<rparr> :: physical"
  define r3 where "r3 = remove_prefix 16 (remove_prefix (7 + ?n) r2)"
  have "DecodeFixed32 (EncodeFixed32 v) = Some v" for v
    using DecodeFixed32_Encode [of v "[]"] by simp
  then have "TakeFragment 7 ?n (ucast t) r2 = Ok (?res, r3)"
    using tr legacy_type_code [OF t] len0 f2 ov by (simp add: TakeFragment_def r3_def)
  then have pt: "ParseType ?n (ucast t) r2 = Ok (Some ?res, r3)"
    using legacy_type_code [OF t] by (simp add: ParseType_def kHeaderSize_def)
  have "read_buf 0 7 r = Ok ?eh"
    using read_buf_buffer [OF in0, of 0 7] len0 ov b0 lh ssl by simp
  moreover have "log_decrypt ssl ?eh key None None = Ok ?h"
    using ssl k by (simp add: log_decrypt_def Let_def)
  moreover have "unat (?h ! 4) + 256 * unat (?h ! 5) = ?n" "scast (?h ! 6) = (ucast t :: u32)"
    using t two_bytes [OF n] legacy_type_code(1) [OF t] by (simp_all add: header_legacy nth_append)
  ultimately have "ParsePhysical ssl r = Ok (Some ?res, r3)"
    using d pt r by (simp add: ParsePhysical_def kHeaderSize_def reader_at_def Let_def r1_def)
  moreover have "reader_at key ?mac ?off T r3"
  proof -
    have r3: "r3 = remove_prefix (log_overhead + ?n) r2"
      using remove_prefix_twice [of "7 + ?n" 16 r2] len0 f2 ov by (simp add: r3_def)
    have "buf_len r3 = length ?rest" "buf_pos r3 = buf_pos r + log_overhead + ?n"
      using len0 f2 by (simp_all add: r3 remove_prefix_def)
    moreover have "buffer r3 = ?rest"
      using buffer_remove_prefix [of "log_overhead + ?n" r2] len0 f2 b2 lh ssl ov
      by (simp add: r3)
    moreover have "backing_store r3 = backing_store r2" "r_file r3 = r_file r" "r_io r3 = r_io r"
      "read_error r3 = read_error r" "r_eof r3 = r_eof r" "r_unique_key r3 = r_unique_key r"
      "r_previous_mac r3 = ?mac" "reports r3 = reports r"
      by (simp_all add: r3_def r2_def r1_def remove_prefix_def)
    moreover have "r_file r = drop (kBlockSize - ?off) T"
      using r lf by (simp add: reader_at_def split_fit)
    moreover have "r_eof r \<longleftrightarrow> length T < kBlockSize - ?off"
      using r lf by (simp add: reader_at_def split_fit)
    ultimately show ?thesis
      using r fit len0 st2 by (simp add: reader_at_def)
  qed
  ultimately show ?thesis by blast
qed

text \<open>Getting to the next fragment, past the padding of the block.\<close>

lemma ReadPhysicalRecord_frag:
  assumes ssl: "openssl_ok ssl" and k: "length key = 32" and m: "length mac = 16"
    and r: "reader_at key mac off (encode_log ssl key off mac (f # fs)) r"
    and fit: "frags_fit off (f # fs)" and t: "fst f \<noteq> kZeroType"
  shows "\<exists>r'. ReadPhysicalRecord ssl r =
      Ok (\<lparr>ph_type = ucast (fst f), ph_result = Some (snd f), ph_drop = 0\<rparr>, r') \<and>
    reader_at key (frag_mac ssl key mac (snd f)) (frag_start off + log_overhead + length (snd f))
      (encode_log ssl key (frag_start off + log_overhead + length (snd f))
        (frag_mac ssl key mac (snd f)) fs) r'"
proof -
  let ?off = "frag_start off"
  define T where "T = encode_log ssl key (?off + log_overhead + length (snd f))
    (frag_mac ssl key mac (snd f)) fs"
  let ?B = "frag_bytes ssl key mac (fst f, snd f) @ T"
  have offs: "off \<le> kBlockSize" "fst f < kRecyclableFullType"
    using fit by simp_all
  have end_le: "o2 \<le> kBlockSize" if "frags_fit o2 gs" for o2 gs
    using that by (cases gs) auto
  have fit': "?off + log_overhead + length (snd f) \<le> kBlockSize"
    using fit end_le by auto
  have enc: "encode_log ssl key off mac (f # fs) = frag_pad off @ ?B"
    by (simp add: T_def)
  have parse: "\<exists>r'. ReadPhysicalRecord ssl r1 =
      Ok (\<lparr>ph_type = ucast (fst f), ph_result = Some (snd f), ph_drop = 0\<rparr>, r') \<and>
    reader_at key (frag_mac ssl key mac (snd f)) (?off + log_overhead + length (snd f)) T r'"
    if r1: "reader_at key mac ?off ?B r1" for r1
  proof -
    have "log_overhead \<le> length (frag_bytes ssl key mac (fst f, snd f))"
      using ssl offs(2)
      by (simp add: frag_bytes_def log_overhead_def length_record_header)
    moreover have "log_overhead \<le> kBlockSize - ?off" using fit' by simp
    ultimately have "\<not> buf_len r1 < kHeaderSize + 16"
      using r1 by (simp add: reader_at_def log_overhead_def)
    moreover obtain r' where "ParsePhysical ssl r1 =
        Ok (Some \<lparr>ph_type = ucast (fst f), ph_result = Some (snd f), ph_drop = 0\<rparr>, r')"
      "reader_at key (frag_mac ssl key mac (snd f)) (?off + log_overhead + length (snd f)) T r'"
      using ParsePhysical_fragment [OF ssl r1 k m fit' offs(2) t] by blast
    ultimately show ?thesis by (subst ReadPhysicalRecord.simps) simp
  qed
  show ?thesis
  proof (cases "kBlockSize - off < log_overhead")
    case True
    then have off0: "?off = 0" and pad: "frag_pad off = replicate (kBlockSize - off) 0"
      by (simp_all add: frag_start_def frag_pad_def)
    have r0: "reader_at key mac off (replicate (kBlockSize - off) 0 @ ?B) r"
      using r enc pad by simp
    obtain r1 where r1: "ReadMore r = (None, r1)" "reader_at key mac 0 ?B r1"
      using ReadMore_next_block [OF r0] by auto
    have "buf_len r < kHeaderSize + 16"
      using r0 True by (simp add: reader_at_def log_overhead_def)
    then have "ReadPhysicalRecord ssl r = ReadPhysicalRecord ssl r1"
      using r1(1) by (subst ReadPhysicalRecord.simps) simp
    then show ?thesis using parse [of r1] r1(2) off0 T_def by simp
  next
    case False
    then have "frag_pad off = []" "?off = off" by (simp_all add: frag_start_def frag_pad_def)
    then show ?thesis using parse [of r] r enc T_def by simp
  qed
qed

lemma ReadPhysicalRecord_end:
  assumes r: "reader_at key mac off [] r"
  shows "\<exists>r'. ReadPhysicalRecord ssl r = Ok (special kEof 0, r') \<and> reports r' = []"
proof -
  have short: "buf_len r0 < kHeaderSize + 16" if "reader_at key mac o2 [] r0" for o2 r0
    using that by (simp add: reader_at_def log_sizes)
  have at_end: "\<exists>r'. ReadPhysicalRecord ssl r0 = Ok (special kEof 0, r') \<and> reports r' = []"
    if r0: "reader_at key mac o2 [] r0" and "o2 < kBlockSize" for o2 r0
    using ReadMore_end [OF that] short [OF r0]
    by (subst ReadPhysicalRecord.simps) (auto simp: reader_at_def)
  show ?thesis
  proof (cases "off < kBlockSize")
    case True
    then show ?thesis using at_end r by blast
  next
    case False
    then have "off = kBlockSize" using r by (simp add: reader_at_def)
    then obtain r1 where r1: "ReadMore r = (None, r1)" "reader_at key mac 0 [] r1"
      using ReadMore_next_block [OF r] by auto
    then have "ReadPhysicalRecord ssl r = ReadPhysicalRecord ssl r1"
      using short [OF r] by (subst ReadPhysicalRecord.simps) simp
    then show ?thesis using at_end [OF r1(2)] by (simp add: log_sizes)
  qed
qed

lemma ReadRecordLoop_record:
  assumes "openssl_ok ssl" and "length key = 32" and "length mac = 16"
    and "reader_at key mac off (encode_log ssl key off mac (fs @ gs)) r"
    and "frags_fit off (fs @ gs)" and "frags_shape b fs" and "b \<Longrightarrow> scratch = []"
  shows "\<exists>r'. ReadRecordLoop ssl mode (\<not> b) scratch frag offset r =
      Some (Ok (Some (scratch @ concat (map snd fs)), r')) \<and>
    reader_at key (end_mac ssl key mac fs) (end_offset off fs)
      (encode_log ssl key (end_offset off fs) (end_mac ssl key mac fs) gs) r'"
  using assms(3-7)
proof (induction b fs arbitrary: mac off scratch frag offset r rule: frags_shape.induct)
  case (1 b)
  then show ?case by simp
next
  case (2 b f)
  have t: "fst f \<noteq> kZeroType" using "2.prems"(4) by (simp add: record_type_defs split: if_splits)
  obtain r1 where r1: "ReadPhysicalRecord ssl r =
      Ok (\<lparr>ph_type = ucast (fst f), ph_result = Some (snd f), ph_drop = 0\<rparr>, r1)"
    "reader_at key (end_mac ssl key mac [f]) (end_offset off [f])
      (encode_log ssl key (end_offset off [f]) (end_mac ssl key mac [f]) gs) r1"
    using ReadPhysicalRecord_frag [OF assms(1,2) "2.prems"(1), of off f gs r] t "2.prems"(2,3)
    by fastforce
  have lr: "reader_at k m o2 T (r1\<lparr>last_record_offset := x\<rparr>) \<longleftrightarrow> reader_at k m o2 T r1" for k m o2 T x
    by (simp add: reader_at_def buffer_def)
  show ?case
    using r1 "2.prems"(4,5)
    by (subst ReadRecordLoop.simps)
      (cases b; simp add: Let_def is_type_def record_type_defs lr)
next
  case (3 b f g fs)
  have t: "fst f \<noteq> kZeroType" using "3.prems"(4) by (simp add: record_type_defs split: if_splits)
  have m: "length (frag_mac ssl key mac (snd f)) = 16" using assms(1) by simp
  obtain r1 where r1: "ReadPhysicalRecord ssl r =
      Ok (\<lparr>ph_type = ucast (fst f), ph_result = Some (snd f), ph_drop = 0\<rparr>, r1)"
    "reader_at key (frag_mac ssl key mac (snd f)) (frag_start off + log_overhead + length (snd f))
      (encode_log ssl key (frag_start off + log_overhead + length (snd f))
        (frag_mac ssl key mac (snd f)) ((g # fs) @ gs)) r1"
    using ReadPhysicalRecord_frag [OF assms(1,2) "3.prems"(1), of off f "(g # fs) @ gs" r] t
      "3.prems"(2,3)
    by fastforce
  have "ReadRecordLoop ssl mode (\<not> b) scratch frag offset r =
      ReadRecordLoop ssl mode (\<not> False) (scratch @ snd f) (snd f)
        (if b then end_of_buffer_offset r - word_of_nat (buf_len r) else offset) r1"
    using r1(1) "3.prems"(4,5)
    by (subst ReadRecordLoop.simps) (cases b; simp add: Let_def is_type_def record_type_defs)
  then show ?case
    using "3.IH" [OF m r1(2), where scratch = "scratch @ snd f"] "3.prems"(3,4) by simp
qed

fun ReadRecords ::
    "openssl \<Rightarrow> WALRecoveryMode \<Rightarrow> nat \<Rightarrow> Reader \<Rightarrow> (bytes list \<times> Reader) run" where
  "ReadRecords ssl mode 0 r = Some (Ok ([], r))"
| "ReadRecords ssl mode (Suc n) r =
     rbind (ReadRecord ssl mode r) (\<lambda>(x, r).
       case x of
         None \<Rightarrow> Some (Ok ([], r))
       | Some x \<Rightarrow> rbind (ReadRecords ssl mode n r) (\<lambda>(xs, r). Some (Ok (x # xs, r))))"

lemma ReadRecords_spec:
  assumes "openssl_ok ssl" and "length key = 32" and "length mac = 16"
    and "reader_at key mac off (encode_log ssl key off mac (concat fss)) r"
    and "frags_fit off (concat fss)" and "frags_of rs fss" and "length rs < n"
  shows "\<exists>r'. ReadRecords ssl mode n r = Some (Ok (rs, r')) \<and> reports r' = []"
  using assms(3-7)
proof (induction rs arbitrary: fss mac off r n)
  case Nil
  then obtain k where n: "n = Suc k" by (cases n) auto
  obtain r1 where "ReadPhysicalRecord ssl r = Ok (special kEof 0, r1)" "reports r1 = []"
    using ReadPhysicalRecord_end Nil.prems(2,4) by (fastforce simp: frags_of_def)
  then have "ReadRecord ssl mode r = Some (Ok (None, r1))"
    unfolding ReadRecord_def
    by (subst ReadRecordLoop.simps)
      (simp add: Let_def special_def special_defs is_type_def record_type_defs tail_report_def)
  with \<open>reports r1 = []\<close> show ?case by (simp add: n rbind_def)
next
  case (Cons x rs)
  then obtain k where n: "n = Suc k" "length rs < k" by (cases n) auto
  obtain fs gss where fss: "fss = fs # gss" "concat (map snd fs) = x" "frags_shape True fs"
    "frags_of rs gss"
    using Cons.prems(4) by (auto simp: frags_of_def list_all2_Cons1)
  obtain r1 where r1: "ReadRecord ssl mode r = Some (Ok (Some x, r1))"
    "reader_at key (end_mac ssl key mac fs) (end_offset off fs)
      (encode_log ssl key (end_offset off fs) (end_mac ssl key mac fs) (concat gss)) r1"
    using ReadRecordLoop_record [OF assms(1,2) Cons.prems(1), of off fs "concat gss" r True "[]"
        mode "[]" 0] Cons.prems(2,3) fss
    by (auto simp: ReadRecord_def)
  have "length (end_mac ssl key m gs) = 16" if "length m = 16" for m gs
    using that assms(1) by (induction gs arbitrary: m) auto
  then obtain r' where "ReadRecords ssl mode k r1 = Some (Ok (rs, r'))" "reports r' = []"
    using Cons.IH [OF _ r1(2) _ fss(4) n(2)] Cons.prems(1,3) fss(1)
    by (auto simp: frags_fit_append)
  then show ?case using r1(1) n(1) by (simp add: rbind_def)
qed

text \<open>
  Reading a log from its start with the secret of its writer. At the start the model's reader is at
  the end of a block, so that the first read fills the buffer; a writer starts at offset 0, where
  no padding is needed.
\<close>

lemma encode_log_start:
  assumes "frags_fit 0 fs"
  shows "encode_log ssl key kBlockSize mac fs = encode_log ssl key 0 mac fs" and "frags_fit kBlockSize fs"
  using assms
  by (cases fs; simp add: frag_start_def frag_pad_def log_overhead_def log_sizes)+

lemma ReadRecords_written:
  assumes "openssl_ok ssl" and "length key = 32" and "length mac = 16"
    and "length garbage = kBlockSize" and "frags_fit 0 (concat fss)" and "frags_of rs fss"
  shows "\<exists>r. ReadRecords ssl mode (Suc (length rs))
      (SetSecret (key, mac) (NewReader (encode_log ssl key 0 mac (concat fss)) garbage check n
        manifest mk mh secret)) = Some (Ok (rs, r)) \<and> reports r = []"
  using ReadRecords_spec [OF assms(1-3) _ encode_log_start(2) [OF assms(5)] assms(6), of _ "Suc (length rs)"]
    reader_at_start [OF assms(4,2,3)] encode_log_start(1) [OF assms(5)]
  by simp

section \<open>Logs that were not written so\<close>

text \<open>
  Before anything else is looked at, the fragment that the decrypted length field describes has
  to be inside the backing store and to carry its GMAC: otherwise the run is undefined or ends the
  process. There is no other treatment of a truncated or damaged record, whatever the recovery
  mode.
\<close>

definition header_length :: "openssl \<Rightarrow> bytes \<Rightarrow> bytes \<Rightarrow> nat" where
  "header_length ssl key enc =
     (let h = evp_decrypt ssl key gcm_iv gcm_aad enc in unat (h ! 4) + 256 * unat (h ! 5))"

lemma read_buf_behind_header:
  assumes "buf_pos r + 7 \<le> length (backing_store r)" and "length h = 7"
  shows "read_buf (7 + i) n (write_buf 0 h r) = read_buf (7 + i) n r"
  using assms by (simp add: read_buf_def write_buf_def ac_simps)

lemma ParsePhysical_rejects:
  assumes ssl: "openssl_ok ssl" and k: "length (r_unique_key r) = 32"
    and h: "buf_pos r + 7 \<le> length (backing_store r)"
    and len: "len = header_length ssl (r_unique_key r) (take 7 (drop (buf_pos r) (backing_store r)))"
  shows "length (backing_store r) < buf_pos r + 7 + len + 16 \<Longrightarrow> ParsePhysical ssl r = Undef"
    and "buf_pos r + 7 + len + 16 \<le> length (backing_store r) \<Longrightarrow>
      take 16 (drop (buf_pos r + 7 + len) (backing_store r)) \<noteq>
        evp_tag ssl (r_unique_key r) gcm_iv (take 16 (r_previous_mac r))
          (take len (drop (buf_pos r + 7) (backing_store r))) \<Longrightarrow>
      ParsePhysical ssl r = Exit"
proof -
  let ?enc = "take 7 (drop (buf_pos r) (backing_store r))"
  let ?h = "evp_decrypt ssl (r_unique_key r) gcm_iv gcm_aad ?enc"
  let ?r1 = "write_buf 0 ?h r"
  have lh: "length ?h = 7" using ssl h by simp
  have "read_buf 0 7 r = Ok ?enc" using h by (simp add: read_buf_def)
  moreover have "log_decrypt ssl ?enc (r_unique_key r) None None = Ok ?h"
    using k by (simp add: log_decrypt_def Let_def)
  ultimately have p: "ParsePhysical ssl r = obind (DecryptFragment ssl len ?r1)
      (ParseType len (scast (?h ! 6)))"
    by (simp add: ParsePhysical_def kHeaderSize_def Let_def len header_length_def)
  have d: "DecryptFragment ssl len ?r1 =
      obind (read_buf 7 len r) (\<lambda>enc. obind (read_buf (7 + len) 16 r) (\<lambda>read_mac.
      obind (log_decrypt ssl enc (r_unique_key r) (Some read_mac) (Some (r_previous_mac r))) (\<lambda>plain.
        Ok ((write_buf 7 plain ?r1)\<lparr>r_previous_mac := read_mac\<rparr>))))"
    using read_buf_behind_header [OF h lh, of 0 len] read_buf_behind_header [OF h lh, of len 16]
    by (simp add: DecryptFragment_def kHeaderSize_def)
  show "ParsePhysical ssl r = Undef" if "length (backing_store r) < buf_pos r + 7 + len + 16"
    using that by (simp add: p d read_buf_def add.assoc)
  show "ParsePhysical ssl r = Exit" if "buf_pos r + 7 + len + 16 \<le> length (backing_store r)"
    and "take 16 (drop (buf_pos r + 7 + len) (backing_store r)) \<noteq>
        evp_tag ssl (r_unique_key r) gcm_iv (take 16 (r_previous_mac r))
          (take len (drop (buf_pos r + 7) (backing_store r)))"
    using that k by (simp add: p d read_buf_def add.assoc log_decrypt_def Let_def)
qed

lemma ReadRecord_parse:
  assumes "kHeaderSize + 16 \<le> buf_len r"
  shows "ParsePhysical ssl r = Exit \<Longrightarrow> ReadRecord ssl mode r = Some Exit"
    and "ParsePhysical ssl r = Undef \<Longrightarrow> ReadRecord ssl mode r = Some Undef"
  using assms unfolding ReadRecord_def
  by (subst ReadRecordLoop.simps, subst ReadPhysicalRecord.simps, simp)+

section \<open>Recyclable logs\<close>

text \<open>
  A log in the recyclable format: its headers have 11 bytes, but the reader decrypts 7 of them and takes
  the fragment and its GMAC from behind the 7 bytes, before it looks at the type of the record.
\<close>

lemma AddRecord_recyclable:
  assumes "openssl_ok ssl" and "recycle_log_files w" and "dest_io w = []" and "block_offset w = 0"
    and "length (w_unique_key w) = 32" and "length (w_previous_mac w) = 16" and "length p + 27 \<le> kBlockSize"
  defines "header \<equiv> record_header kRecyclableFullType (w_log_number w) p"
    and "body \<equiv> evp_encrypt ssl (w_unique_key w) gcm_iv (w_previous_mac w) p"
  shows "\<exists>w'. AddRecord ssl p w = Ok (StatusOK, w') \<and>
    dest w' = dest w @ evp_encrypt ssl (w_unique_key w) gcm_iv gcm_aad header @ body @
      evp_tag ssl (w_unique_key w) gcm_iv (w_previous_mac w) body"
proof -
  have sw: "SwitchBlock w = (StatusOK, w)"
    using assms(2,4) by (simp add: SwitchBlock_def Let_def log_header_size_def log_sizes)
  have avail: "\<not> kBlockSize - block_offset w - log_header_size w < length p"
    using assms(2,4,7) by (simp add: log_header_size_def log_sizes)
  obtain w1 where w1: "EmitPhysicalRecord ssl kRecyclableFullType p w = Ok (StatusOK, w1)"
    "dest w1 = dest w @ evp_encrypt ssl (w_unique_key w) gcm_iv gcm_aad header @ body @
      evp_tag ssl (w_unique_key w) gcm_iv (w_previous_mac w) body" "dest_io w1 = []"
    using assms(1,3,5,6)
    by (simp add: EmitPhysicalRecord_def AppendPhysical_def log_encrypt_def Let_def header_def body_def)
  have "AddRecordLoop ssl True p w = Ok (StatusOK, w1)"
    using sw avail w1(1) assms(2)
    by (subst AddRecordLoop.simps) (auto simp: Let_def fragment_type_def not_less)
  then show ?thesis using w1(2,3) by (auto simp: AddRecord_def)
qed

lemma recycled_record_rejected:
  assumes "openssl_ok ssl" and key: "length key = 32" and mac: "length mac = 16" and garbage: "length garbage = kBlockSize"
    and prefix: "\<And>c n. evp_decrypt ssl key gcm_iv gcm_aad (take n c) = take n (evp_decrypt ssl key gcm_iv gcm_aad c)"
    and log: "log = evp_encrypt ssl key gcm_iv gcm_aad (record_header kRecyclableFullType num p) @ body @ tag"
    and fits: "length p + 27 \<le> kBlockSize" "length body = length p" "length tag = 16"
    and differ: "take 16 (drop (7 + length p) log) \<noteq> evp_tag ssl key gcm_iv mac (take (length p) (drop 7 log))"
  shows "ReadRecord ssl mode (SetSecret (key, mac) (NewReader log garbage check n False mk mh secret)) = Some Exit"
proof -
  let ?r = "SetSecret (key, mac) (NewReader log garbage check n False mk mh secret)"
  let ?h = "record_header kRecyclableFullType num p"
  have lh: "length ?h = 11" by (simp add: length_record_header log_sizes record_type_defs)
  then have len: "length log = length p + 27" using assms(1) fits(2,3) log by simp
  define r' where "r' = snd (ReadMore ?r)"
  have "fst (ReadMore ?r) = None \<and> backing_store r' = log @ drop (length log) garbage \<and> buf_pos r' = 0 \<and>
      buf_len r' = length log \<and> r_unique_key r' = key \<and> r_previous_mac r' = mac"
    using len fits(1) garbage key mac
    by (simp add: r'_def ReadMore_def SetSecret_def NewReader_def seq_read_def clear_buffer_def write_buf_def Let_def)
  then have r': "backing_store r' = log @ drop (length log) garbage" "buf_pos r' = 0" "buf_len r' = length log"
      "r_unique_key r' = key" "r_previous_mac r' = mac" and more: "ReadMore ?r = (None, r')"
    by (simp_all add: r'_def prod_eq_iff)
  have "evp_decrypt ssl key gcm_iv gcm_aad (take 7 log) = take 7 ?h"
  proof -
    have "take 7 log = take 7 (evp_encrypt ssl key gcm_iv gcm_aad ?h)" using assms(1) lh log by simp
    then show ?thesis using prefix assms(1) by simp
  qed
  moreover have "unat (word_of_nat (length p) :: byte) = length p mod 256"
    "unat (word_of_nat (length p div 256) :: byte) = length p div 256"
    using fits(1) by (simp_all add: kBlockSize_def unsigned_of_nat take_bit_eq_mod)
  ultimately have hl: "length p = header_length ssl (r_unique_key r') (take 7 (drop (buf_pos r') (backing_store r')))"
    using len r' by (simp add: header_length_def record_header_def Let_def nth_append)
  have "ParsePhysical ssl r' = Exit"
  proof (rule ParsePhysical_rejects(2) [OF assms(1) _ _ hl])
    show "length (r_unique_key r') = 32" using r' key by simp
    show "buf_pos r' + 7 \<le> length (backing_store r')" using r' len by simp
    show "buf_pos r' + 7 + length p + 16 \<le> length (backing_store r')" using r' len by simp
    show "take 16 (drop (buf_pos r' + 7 + length p) (backing_store r')) \<noteq>
      evp_tag ssl (r_unique_key r') gcm_iv (take 16 (r_previous_mac r')) (take (length p) (drop (buf_pos r' + 7) (backing_store r')))"
      using differ r' len mac by simp
  qed
  then have "ReadPhysicalRecord ssl r' = Exit"
    using r'(3) len by (subst ReadPhysicalRecord.simps) (simp add: log_sizes)
  moreover have "buf_len ?r = 0" by (simp add: SetSecret_def NewReader_def)
  ultimately have "ReadPhysicalRecord ssl ?r = Exit"
    using more by (subst ReadPhysicalRecord.simps) (simp add: log_sizes)
  then show ?thesis unfolding ReadRecord_def by (subst ReadRecordLoop.simps) simp
qed
end
