(* ===== verification/Wal_Edit.thy ===== *)
theory Wal_Edit
  imports Coding
begin

text \<open>
  The records about write-ahead logs and blob files that a version edit holds
  (\<open>db/wal_edit.h\<close>, \<open>db/wal_edit.cc\<close>, \<open>db/blob/blob_file_addition.cc\<close>, \<open>db/blob/blob_file_garbage.cc\<close>),
  and the set of the logs that the manifest knows of.
\<close>

section \<open>Additions and deletions of logs\<close>

definition kUnknownWalSize :: u64 where
  "kUnknownWalSize = 2 ^ 64 - 1"

record WalAddition =
  wa_number :: u64
  wa_synced_size_bytes :: u64

definition HasSyncedSize :: "u64 \<Rightarrow> bool" where
  "HasSyncedSize synced_size_bytes \<longleftrightarrow> synced_size_bytes \<noteq> kUnknownWalSize"

definition kWalTerminate :: u32 where "kWalTerminate = 1"
definition kSyncedSize :: u32 where "kSyncedSize = 2"

definition NewWalAddition :: WalAddition where
  "NewWalAddition = \<lparr>wa_number = 0, wa_synced_size_bytes = kUnknownWalSize\<rparr>"

definition WalAdditionEncodeTo :: "bytes \<Rightarrow> WalAddition \<Rightarrow> bytes" where
  "WalAdditionEncodeTo dst w =
     (let dst = PutVarint64 dst (wa_number w);
          dst = (if HasSyncedSize (wa_synced_size_bytes w)
                 then PutVarint64 (PutVarint32 dst kSyncedSize) (wa_synced_size_bytes w) else dst)
      in PutVarint32 dst kWalTerminate)"

text \<open>A decoder returns the status, the object and what is left of the slice.\<close>

lemma GetVarint32_shorter: "GetVarint32 input = (Some v, q) \<Longrightarrow> length q < length input"
  by (auto simp: GetVarint32_def dest: GetVarint32Ptr_shorter split: option.splits)

lemma GetVarint64Loop_shorter: "GetVarint64Loop p k r = Some (v, q) \<Longrightarrow> length q < length p"
proof (induction p k r rule: GetVarint64Loop.induct)
  case (1 p k r)
  show ?case
  proof (cases p)
    case Nil
    then show ?thesis using "1.prems" by (simp add: GetVarint64Loop.simps [of "[]"] split: if_splits)
  next
    case (Cons b p')
    then show ?thesis
      using "1.prems" "1.IH" [of b p']
      by (auto simp: GetVarint64Loop.simps [of "b # p'"] simp del: push_bit_and split: if_splits)
  qed
qed

lemma GetVarint64_shorter: "GetVarint64 input = (Some v, q) \<Longrightarrow> length q < length input"
  by (auto simp: GetVarint64_def GetVarint64Ptr_def
      dest: GetVarint64Loop_shorter split: option.splits)

lemma GetVarint64_length: "length (snd (GetVarint64 input)) \<le> length input"
  by (auto simp: GetVarint64_def GetVarint64Ptr_def
      dest!: GetVarint64Loop_shorter split: option.splits)

lemma GetVarint32_length: "length (snd (GetVarint32 input)) \<le> length input"
  by (auto simp: GetVarint32_def dest!: GetVarint32Ptr_shorter split: option.splits)

lemma GetLengthPrefixedSlice_length: "length (snd (GetLengthPrefixedSlice input)) \<le> length input"
  using GetVarint32_length [of input]
  by (auto simp: GetLengthPrefixedSlice_def split: prod.splits option.splits)

lemma GetLengthPrefixedSlice_le:
  "GetLengthPrefixedSlice input = (v, q) \<Longrightarrow> length q \<le> length input"
  using GetLengthPrefixedSlice_length [of input] by simp

lemma shrinking_parsers [intro!]:
  "shrinking GetVarint32" "shrinking GetVarint64" "shrinking GetLengthPrefixedSlice"
  by (simp_all add: shrinking_def GetVarint32_length GetVarint64_length
      GetLengthPrefixedSlice_length)

function WalAdditionTags :: "WalAddition \<Rightarrow> bytes \<Rightarrow> status \<times> WalAddition \<times> bytes" where
  "WalAdditionTags w src =
     (case GetVarint32 src of
        (None, src) \<Rightarrow> (Corruption, w, src)
      | (Some tag, src) \<Rightarrow>
          (if tag = kSyncedSize then
             (case GetVarint64 src of
                (None, src) \<Rightarrow> (Corruption, w, src)
              | (Some sz, src) \<Rightarrow> WalAdditionTags (w\<lparr>wa_synced_size_bytes := sz\<rparr>) src)
           else if tag = kWalTerminate then (StatusOK, w, src)
           else (Corruption, w, src)))"
  by pat_completeness auto
termination
  by (relation "measure (\<lambda>(_, src). length src)")
    (auto dest!: GetVarint32_shorter [OF sym] GetVarint64_shorter [OF sym])

declare WalAdditionTags.simps [simp del]

definition WalAdditionDecodeFrom :: "WalAddition \<Rightarrow> bytes \<Rightarrow> status \<times> WalAddition \<times> bytes" where
  "WalAdditionDecodeFrom w src =
     (case GetVarint64 src of
        (None, src) \<Rightarrow> (Corruption, w, src)
      | (Some n, src) \<Rightarrow> WalAdditionTags (w\<lparr>wa_number := n\<rparr>) src)"

lemma WalAdditionTags_shrinking: "length (snd (snd (WalAdditionTags w src))) \<le> length src"
proof (induction w src rule: WalAdditionTags.induct)
  case (1 w src)
  obtain t r where g: "GetVarint32 src = (t, r)" by (cases "GetVarint32 src")
  obtain v q where h: "GetVarint64 r = (v, q)" by (cases "GetVarint64 r")
  have l: "length r \<le> length src" "length q \<le> length r"
    using GetVarint32_length [of src] GetVarint64_length [of r] g h by simp_all
  show ?case
  proof (cases t)
    case None
    then show ?thesis using g l by (simp add: WalAdditionTags.simps [of w src])
  next
    case (Some tag)
    have "length (snd (snd (WalAdditionTags (w\<lparr>wa_synced_size_bytes := sz\<rparr>) q))) \<le> length q"
      if "tag = kSyncedSize" "v = Some sz" for sz
      using that "1.IH" [OF g [symmetric] Some that(1) h [symmetric] that(2)] by simp
    then show ?thesis
      using g h Some l by (auto simp: WalAdditionTags.simps [of w src] split: option.splits intro: le_trans)
  qed
qed

lemma WalAddition_shrinking [intro!]: "shrinking_decoder WalAdditionDecodeFrom"
  unfolding shrinking_decoder_def
proof (intro allI)
  fix w src
  obtain v q where h: "GetVarint64 src = (v, q)" by (cases "GetVarint64 src")
  then have "length q \<le> length src" using GetVarint64_length [of src] by simp
  then show "length (snd (snd (WalAdditionDecodeFrom w src))) \<le> length src"
    using h by (auto simp: WalAdditionDecodeFrom_def split: option.splits
        intro: le_trans [OF WalAdditionTags_shrinking])
qed

text \<open>A deletion is the number below which logs are deleted; zero is none.\<close>

definition WalDeletionIsEmpty :: "u64 \<Rightarrow> bool" where
  "WalDeletionIsEmpty number \<longleftrightarrow> number = 0"

definition WalDeletionEncodeTo :: "bytes \<Rightarrow> u64 \<Rightarrow> bytes" where
  "WalDeletionEncodeTo dst number = PutVarint64 dst number"

definition WalDeletionDecodeFrom :: "u64 \<Rightarrow> bytes \<Rightarrow> status \<times> u64 \<times> bytes" where
  "WalDeletionDecodeFrom number src =
     (case GetVarint64 src of
        (None, src) \<Rightarrow> (Corruption, number, src)
      | (Some n, src) \<Rightarrow> (StatusOK, n, src))"

lemma WalAddition_roundtrip:
  "WalAdditionDecodeFrom NewWalAddition (WalAdditionEncodeTo [] w @ r) = (StatusOK, w, r)"
  by (simp add: WalAdditionDecodeFrom_def WalAdditionEncodeTo_def put_defs Let_def HasSyncedSize_def
      NewWalAddition_def WalAdditionTags.simps kSyncedSize_def kWalTerminate_def)

lemma WalAdditionEncodeTo_append: "WalAdditionEncodeTo dst w = dst @ WalAdditionEncodeTo [] w"
  by (simp add: WalAdditionEncodeTo_def put_defs Let_def)

lemma WalDeletion_roundtrip:
  "WalDeletionDecodeFrom n (WalDeletionEncodeTo [] number @ r) = (StatusOK, number, r)"
  by (simp add: WalDeletionDecodeFrom_def WalDeletionEncodeTo_def put_defs)

section \<open>The set of logs\<close>

text \<open>
  \<open>WalSet\<close>, an ordered map from log numbers to synced sizes: the entries in the order of the
  numbers. \<open>lower_bound\<close> splits them.
\<close>

type_synonym wal_set = "(u64 \<times> u64) list"

definition wals_below :: "u64 \<Rightarrow> wal_set \<Rightarrow> wal_set" where
  "wals_below n wals = takeWhile (\<lambda>(m, _). m < n) wals"

definition wals_from :: "u64 \<Rightarrow> wal_set \<Rightarrow> wal_set" where
  "wals_from n wals = dropWhile (\<lambda>(m, _). m < n) wals"

definition AddWal :: "WalAddition \<Rightarrow> wal_set \<Rightarrow> status \<times> wal_set" where
  "AddWal wal wals =
     (let n = wa_number wal; sz = wa_synced_size_bytes wal; it = wals_from n wals;
          existing = (it \<noteq> [] \<and> fst (hd it) = n)
      in if existing \<and> \<not> HasSyncedSize sz then (Corruption, wals)
         else if HasSyncedSize sz \<and> existing \<and> HasSyncedSize (snd (hd it)) \<and> sz < snd (hd it)
         then (Corruption, wals)
         else if existing then (StatusOK, wals_below n wals @ (n, sz) # tl it)
         else (StatusOK, wals_below n wals @ (n, sz) # it))"

fun AddWals :: "WalAddition list \<Rightarrow> wal_set \<Rightarrow> status \<times> wal_set" where
  "AddWals [] wals = (StatusOK, wals)"
| "AddWals (w # ws) wals =
     (case AddWal w wals of
        (s, wals) \<Rightarrow> if s \<noteq> StatusOK then (s, wals) else AddWals ws wals)"

definition DeleteWalsBefore :: "u64 \<Rightarrow> wal_set \<Rightarrow> status \<times> wal_set" where
  "DeleteWalsBefore wal wals = (StatusOK, wals_from wal wals)"

definition WalSetReset :: "wal_set \<Rightarrow> wal_set" where
  "WalSetReset wals = []"

text \<open>The names of the logs on disk and the sizes that the file system reports are parameters.\<close>

fun CheckWals :: "(string \<Rightarrow> status \<times> u64) \<Rightarrow> (u64 \<rightharpoonup> string) \<Rightarrow> wal_set \<Rightarrow> status" where
  "CheckWals GetFileSize logs_on_disk [] = StatusOK"
| "CheckWals GetFileSize logs_on_disk ((n, sz) # wals) =
     (if \<not> HasSyncedSize sz then CheckWals GetFileSize logs_on_disk wals
      else
        (case logs_on_disk n of
           None \<Rightarrow> Corruption
         | Some fname \<Rightarrow>
             (case GetFileSize fname of
                (s, log_file_size) \<Rightarrow>
                  if s \<noteq> StatusOK then s
                  else if log_file_size < sz then Corruption
                  else CheckWals GetFileSize logs_on_disk wals)))"

text \<open>The invariant of the map, and its operations on the abstract map.\<close>

definition wals_ok :: "wal_set \<Rightarrow> bool" where
  "wals_ok wals \<longleftrightarrow> sorted_wrt (<) (map fst wals)"

lemma wals_split: "wals_below n wals @ wals_from n wals = wals"
  by (simp add: wals_below_def wals_from_def)

lemma wals_below_less: "(m, v) \<in> set (wals_below n wals) \<Longrightarrow> m < n"
  unfolding wals_below_def by (drule set_takeWhileD) simp

lemma wals_from_ge:
  assumes "wals_ok wals" and "(m, v) \<in> set (wals_from n wals)"
  shows "n \<le> m"
proof -
  obtain k u rest where f: "wals_from n wals = (k, u) # rest" using assms(2) by (cases "wals_from n wals") auto
  have "wals_ok (wals_below n wals @ wals_from n wals)" using assms(1) by (simp add: wals_split)
  then have "\<forall>x \<in> fst ` set rest. k < x" by (auto simp: wals_ok_def f sorted_wrt_append)
  moreover have "n \<le> k"
    using f hd_dropWhile [of "\<lambda>(m, _). m < n" wals] by (auto simp: wals_from_def)
  ultimately show ?thesis using assms(2) f by force
qed

lemma wals_ok_replace:
  assumes "wals_ok wals" and "\<And>m v. (m, v) \<in> set rest \<Longrightarrow> n < m" and "wals_ok rest"
  shows "wals_ok (wals_below n wals @ (n, sz) # rest)"
proof -
  have "wals_ok (wals_below n wals)"
    using assms(1) wals_split [of n wals] by (metis wals_ok_def map_append sorted_wrt_append)
  moreover have "\<forall>x \<in> fst ` set (wals_below n wals). x < n" using wals_below_less by fastforce
  moreover have "\<forall>x \<in> fst ` set rest. n < x" using assms(2) by force
  ultimately show ?thesis using assms(3)
    by (auto simp: wals_ok_def sorted_wrt_append intro: less_trans)
qed

lemma map_of_wals:
  assumes "wals_ok wals"
  shows "map_of wals m = (if m < n then map_of (wals_below n wals) m else map_of (wals_from n wals) m)"
proof -
  have "map_of (wals_below n wals @ wals_from n wals) m =
      (map_of (wals_from n wals) ++ map_of (wals_below n wals)) m" by simp
  then have e: "map_of wals m = (map_of (wals_from n wals) ++ map_of (wals_below n wals)) m"
    by (simp only: wals_split)
  have "map_of (wals_from n wals) m = None" if "m < n"
    using that by (auto simp: map_of_eq_None_iff dest: wals_from_ge [OF assms, THEN leD])
  moreover have "map_of (wals_below n wals) m = None" if "\<not> m < n"
    using that wals_below_less by (auto simp: map_of_eq_None_iff)
  ultimately show ?thesis using e by (auto simp: map_add_def split: option.splits)
qed

lemma wals_from_hd:
  assumes "wals_ok wals" and "wals_from n wals = (k, v) # rest"
  shows "wals_ok rest" and "\<And>m u. (m, u) \<in> set rest \<Longrightarrow> k < m" and "n \<le> k"
proof -
  have "wals_ok (wals_from n wals)"
    using assms(1) wals_split [of n wals] by (metis wals_ok_def map_append sorted_wrt_append)
  then show "wals_ok rest" and "\<And>m u. (m, u) \<in> set rest \<Longrightarrow> k < m"
    by (force simp: wals_ok_def assms(2))+
  show "n \<le> k" using wals_from_ge [OF assms(1), of k v n] assms(2) by simp
qed

lemma wals_from_existing:
  assumes "wals_ok wals"
  shows "(wals_from n wals \<noteq> [] \<and> fst (hd (wals_from n wals)) = n) = (map_of wals n \<noteq> None)"
    and "wals_from n wals \<noteq> [] \<Longrightarrow> fst (hd (wals_from n wals)) = n \<Longrightarrow>
      map_of wals n = Some (snd (hd (wals_from n wals)))"
proof -
  have m: "map_of wals n = map_of (wals_from n wals) n" using map_of_wals [OF assms, of n n] by simp
  show "(wals_from n wals \<noteq> [] \<and> fst (hd (wals_from n wals)) = n) = (map_of wals n \<noteq> None)"
  proof (cases "wals_from n wals")
    case (Cons kv rest)
    obtain k v where kv: "kv = (k, v)" by (cases kv)
    have "n \<notin> fst ` set rest" if "k \<noteq> n"
      using wals_from_hd [OF assms Cons [unfolded kv]] that by force
    then show ?thesis using Cons kv m by (auto simp: map_of_eq_None_iff)
  qed (simp add: m)
  show "map_of wals n = Some (snd (hd (wals_from n wals)))"
    if "wals_from n wals \<noteq> []" "fst (hd (wals_from n wals)) = n"
    using that m by (cases "wals_from n wals") auto
qed

text \<open>What a log that is added must satisfy.\<close>

definition wal_acceptable :: "WalAddition \<Rightarrow> (u64 \<rightharpoonup> u64) \<Rightarrow> bool" where
  "wal_acceptable w m \<longleftrightarrow>
     (case m (wa_number w) of
        None \<Rightarrow> True
      | Some old \<Rightarrow> HasSyncedSize (wa_synced_size_bytes w) \<and>
          (HasSyncedSize old \<longrightarrow> old \<le> wa_synced_size_bytes w))"

lemma AddWal_spec:
  assumes "wals_ok wals"
  shows "AddWal w wals =
    (if wal_acceptable w (map_of wals)
     then (StatusOK, wals_below (wa_number w) wals @ (wa_number w, wa_synced_size_bytes w) #
        (if map_of wals (wa_number w) = None then wals_from (wa_number w) wals
         else tl (wals_from (wa_number w) wals)))
     else (Corruption, wals))"
proof (cases "map_of wals (wa_number w)")
  case None
  then show ?thesis
    using wals_from_existing(1) [OF assms, of "wa_number w"]
    by (auto simp: AddWal_def Let_def wal_acceptable_def)
next
  case (Some old)
  then have e: "wals_from (wa_number w) wals \<noteq> []" "fst (hd (wals_from (wa_number w) wals)) = wa_number w"
    using wals_from_existing(1) [OF assms, of "wa_number w"] by auto
  then have "snd (hd (wals_from (wa_number w) wals)) = old"
    using wals_from_existing(2) [OF assms e] Some by simp
  then show ?thesis using Some e by (auto simp: AddWal_def Let_def wal_acceptable_def not_less)
qed

lemma AddWal_refines:
  assumes "wals_ok wals" and "wal_acceptable w (map_of wals)"
  shows "wals_ok (snd (AddWal w wals))"
    and "map_of (snd (AddWal w wals)) = (map_of wals)(wa_number w \<mapsto> wa_synced_size_bytes w)"
proof -
  let ?n = "wa_number w" and ?sz = "wa_synced_size_bytes w"
  define rest where "rest = (if map_of wals ?n = None then wals_from ?n wals else tl (wals_from ?n wals))"
  have a: "snd (AddWal w wals) = wals_below ?n wals @ (?n, ?sz) # rest"
    by (simp add: AddWal_spec [OF assms(1)] assms(2) rest_def)
  have r: "wals_ok rest" "\<And>m v. (m, v) \<in> set rest \<Longrightarrow> ?n < m"
    "\<And>m. ?n < m \<Longrightarrow> map_of rest m = map_of (wals_from ?n wals) m"
  proof -
    consider "wals_from ?n wals = []" | k v rs where "wals_from ?n wals = (k, v) # rs"
      by (cases "wals_from ?n wals") auto
    then have "wals_ok rest \<and> (\<forall>m v. (m, v) \<in> set rest \<longrightarrow> ?n < m) \<and>
        (\<forall>m. ?n < m \<longrightarrow> map_of rest m = map_of (wals_from ?n wals) m)"
    proof cases
      case 1
      then have "rest = []" by (simp add: rest_def)
      then show ?thesis using 1 by (simp add: wals_ok_def)
    next
      case (2 k v rs)
      note h = wals_from_hd [OF assms(1) 2] and x = wals_from_existing(1) [OF assms(1), of ?n]
      show ?thesis
      proof (cases "k = ?n")
        case True
        then show ?thesis using x 2 h by (auto simp: rest_def)
      next
        case False
        moreover have "wals_ok ((k, v) # rs)" using h(1,2) by (force simp: wals_ok_def)
        ultimately show ?thesis using x 2 h by (fastforce simp: rest_def)
      qed
    qed
    then show "wals_ok rest" "\<And>m v. (m, v) \<in> set rest \<Longrightarrow> ?n < m"
      "\<And>m. ?n < m \<Longrightarrow> map_of rest m = map_of (wals_from ?n wals) m" by blast+
  qed
  show "wals_ok (snd (AddWal w wals))" unfolding a by (rule wals_ok_replace [OF assms(1) r(2,1)])
  show "map_of (snd (AddWal w wals)) = (map_of wals)(?n \<mapsto> ?sz)"
  proof
    fix m
    have "map_of (wals_below ?n wals) m = None" if "\<not> m < ?n"
      using that wals_below_less by (auto simp: map_of_eq_None_iff)
    moreover have "map_of rest m = None" if "\<not> ?n < m"
      using that r(2) by (auto simp: map_of_eq_None_iff)
    ultimately show "map_of (snd (AddWal w wals)) m = ((map_of wals)(?n \<mapsto> ?sz)) m"
      using map_of_wals [OF assms(1), of m ?n] r(3) [of m]
      unfolding a by (cases m ?n rule: linorder_cases) (auto simp: map_add_def split: option.splits)
  qed
qed

lemma DeleteWalsBefore_refines:
  assumes "wals_ok wals"
  shows "wals_ok (snd (DeleteWalsBefore n wals))"
    and "map_of (snd (DeleteWalsBefore n wals)) = map_of wals |` {m. n \<le> m}"
proof -
  show "wals_ok (snd (DeleteWalsBefore n wals))"
    using assms wals_split [of n wals] unfolding DeleteWalsBefore_def
    by (metis wals_ok_def map_append sorted_wrt_append snd_conv)
  show "map_of (snd (DeleteWalsBefore n wals)) = map_of wals |` {m. n \<le> m}"
  proof
    fix m
    have "map_of (wals_from n wals) m = None" if "m < n"
      using that by (auto simp: map_of_eq_None_iff dest: wals_from_ge [OF assms, THEN leD])
    then show "map_of (snd (DeleteWalsBefore n wals)) m = (map_of wals |` {m. n \<le> m}) m"
      using map_of_wals [OF assms, of m n] by (auto simp: DeleteWalsBefore_def restrict_map_def)
  qed
qed

end
