(* ===== verification/Blob_Edit.thy ===== *)
theory Blob_Edit
  imports Wal_Edit
begin

text \<open>
  The references to blob files: the records of a version edit that add a blob file or garbage in
  one (\<open>db/blob/blob_file_addition.cc\<close>, \<open>db/blob/blob_file_garbage.cc\<close>), and the value of a blob index
  entry (\<open>db/blob/blob_index.h\<close>).
\<close>

record BlobFileAddition =
  ba_number :: u64
  ba_total_count :: u64
  ba_total_bytes :: u64
  ba_checksum_method :: bytes
  ba_checksum_value :: bytes

record BlobFileGarbage =
  bg_number :: u64
  bg_count :: u64
  bg_bytes :: u64

definition kEndMarker :: u32 where "kEndMarker = 0"
definition kForwardIncompatibleMask :: u32 where "kForwardIncompatibleMask = push_bit 6 1"

definition BlobFileAdditionEncodeTo :: "bytes \<Rightarrow> BlobFileAddition \<Rightarrow> bytes" where
  "BlobFileAdditionEncodeTo output b =
     (let output = PutVarint64 output (ba_number b);
          output = PutVarint64 output (ba_total_count b);
          output = PutVarint64 output (ba_total_bytes b);
          output = PutLengthPrefixedSlice output (ba_checksum_method b);
          output = PutLengthPrefixedSlice output (ba_checksum_value b)
      in PutVarint32 output kEndMarker)"

definition BlobFileGarbageEncodeTo :: "bytes \<Rightarrow> BlobFileGarbage \<Rightarrow> bytes" where
  "BlobFileGarbageEncodeTo output b =
     PutVarint32 (PutVarint64 (PutVarint64 (PutVarint64 output (bg_number b)) (bg_count b)) (bg_bytes b))
       kEndMarker"

text \<open>The custom fields of both records: unknown compatible ones are skipped.\<close>

function BlobCustomFields :: "bytes \<Rightarrow> status \<times> bytes" where
  "BlobCustomFields input =
     (case GetVarint32 input of
        (None, input) \<Rightarrow> (Corruption, input)
      | (Some custom_field_tag, input) \<Rightarrow>
          (if custom_field_tag = kEndMarker then (StatusOK, input)
           else if custom_field_tag AND kForwardIncompatibleMask \<noteq> 0 then (Corruption, input)
           else
             (case GetLengthPrefixedSlice input of
                (None, input) \<Rightarrow> (Corruption, input)
              | (Some custom_field_value, input) \<Rightarrow> BlobCustomFields input)))"
  by pat_completeness auto
termination
  by (relation "measure length")
    (auto dest!: GetVarint32_shorter [OF sym] GetLengthPrefixedSlice_le [OF sym])

declare BlobCustomFields.simps [simp del]

definition BlobFileAdditionDecodeFrom :: "BlobFileAddition decoder" where
  "BlobFileAdditionDecodeFrom =
     field GetVarint64 (\<lambda>n b. b\<lparr>ba_number := n\<rparr>)
    (field GetVarint64 (\<lambda>n b. b\<lparr>ba_total_count := n\<rparr>)
    (field GetVarint64 (\<lambda>n b. b\<lparr>ba_total_bytes := n\<rparr>)
    (field GetLengthPrefixedSlice (\<lambda>v b. b\<lparr>ba_checksum_method := v\<rparr>)
    (field GetLengthPrefixedSlice (\<lambda>v b. b\<lparr>ba_checksum_value := v\<rparr>)
    (\<lambda>b input. case BlobCustomFields input of (s, rest) \<Rightarrow> (s, b, rest))))))"

definition BlobFileGarbageDecodeFrom :: "BlobFileGarbage decoder" where
  "BlobFileGarbageDecodeFrom =
     field GetVarint64 (\<lambda>n b. b\<lparr>bg_number := n\<rparr>)
    (field GetVarint64 (\<lambda>n b. b\<lparr>bg_count := n\<rparr>)
    (field GetVarint64 (\<lambda>n b. b\<lparr>bg_bytes := n\<rparr>)
    (\<lambda>b input. case BlobCustomFields input of (s, rest) \<Rightarrow> (s, b, rest))))"

lemma BlobCustomFields_shrinking: "length (snd (BlobCustomFields input)) \<le> length input"
proof (induction input rule: BlobCustomFields.induct)
  case (1 input)
  obtain t r where g: "GetVarint32 input = (t, r)" by (cases "GetVarint32 input")
  obtain v q where h: "GetLengthPrefixedSlice r = (v, q)" by (cases "GetLengthPrefixedSlice r")
  have l: "length r \<le> length input" "length q \<le> length r"
    using GetVarint32_length [of input] GetLengthPrefixedSlice_length [of r] g h by simp_all
  show ?case
  proof (cases t)
    case None
    then show ?thesis using g l by (simp add: BlobCustomFields.simps [of input])
  next
    case (Some tag)
    have "length (snd (BlobCustomFields q)) \<le> length q"
      if "tag \<noteq> kEndMarker" "\<not> tag AND kForwardIncompatibleMask \<noteq> 0" "v = Some x" for x
      using "1.IH" [OF g [symmetric] Some that(1,2) h [symmetric] that(3)] .
    then show ?thesis
      using g h Some l by (auto simp: BlobCustomFields.simps [of input] split: option.splits intro: le_trans)
  qed
qed

lemma blob_fields_shrinking:
  "shrinking_decoder (\<lambda>b input. case BlobCustomFields input of (s, rest) \<Rightarrow> (s, b, rest))"
  using BlobCustomFields_shrinking by (auto simp: shrinking_decoder_def split_beta)

lemma BlobFileAddition_shrinking [intro!]: "shrinking_decoder BlobFileAdditionDecodeFrom"
  unfolding BlobFileAdditionDecodeFrom_def by (intro shrinking_field shrinking_parsers blob_fields_shrinking)

lemma BlobFileGarbage_shrinking [intro!]: "shrinking_decoder BlobFileGarbageDecodeFrom"
  unfolding BlobFileGarbageDecodeFrom_def by (intro shrinking_field shrinking_parsers blob_fields_shrinking)

lemma BlobCustomFields_end:
  "BlobCustomFields (EncodeVarint32 kEndMarker @ r) = (StatusOK, r)"
  by (simp add: BlobCustomFields.simps)

lemma BlobFileAddition_roundtrip:
  assumes "length (ba_checksum_method b) < 2 ^ 32" and "length (ba_checksum_value b) < 2 ^ 32"
  shows "BlobFileAdditionDecodeFrom b0 (BlobFileAdditionEncodeTo [] b @ r) = (StatusOK, b, r)"
proof -
  have "BlobFileAdditionEncodeTo [] b =
      EncodeVarint64 (ba_number b) @ EncodeVarint64 (ba_total_count b) @
      EncodeVarint64 (ba_total_bytes b) @ PutLengthPrefixedSlice [] (ba_checksum_method b) @
      PutLengthPrefixedSlice [] (ba_checksum_value b) @ EncodeVarint32 kEndMarker"
    by (simp add: BlobFileAdditionEncodeTo_def Let_def put_defs PutLengthPrefixedSlice_def)
  then show ?thesis
    using assms
    by (simp add: BlobFileAdditionDecodeFrom_def varint64.field_put lp_slice.field_put
        BlobCustomFields_end)
qed

lemma BlobFileGarbage_roundtrip:
  "BlobFileGarbageDecodeFrom b0 (BlobFileGarbageEncodeTo [] b @ r) = (StatusOK, b, r)"
  by (simp add: BlobFileGarbageDecodeFrom_def BlobFileGarbageEncodeTo_def put_defs
      varint64.field_put BlobCustomFields_end)

lemma BlobFileAdditionEncodeTo_append:
  "BlobFileAdditionEncodeTo dst b = dst @ BlobFileAdditionEncodeTo [] b"
  by (simp add: BlobFileAdditionEncodeTo_def Let_def put_defs PutLengthPrefixedSlice_def)

lemma BlobFileGarbageEncodeTo_append:
  "BlobFileGarbageEncodeTo dst b = dst @ BlobFileGarbageEncodeTo [] b"
  by (simp add: BlobFileGarbageEncodeTo_def put_defs)

section \<open>Blob indexes\<close>

text \<open>
  The four types as the byte that is stored. \<open>EncodeInlinedTTL\<close>, \<open>EncodeBlob\<close> and \<open>EncodeBlobTTL\<close>
  replace what the string held.
\<close>

definition kInlinedTTL :: byte where "kInlinedTTL = 0"
definition kBlob :: byte where "kBlob = 1"
definition kBlobTTL :: byte where "kBlobTTL = 2"
definition kBlobUnknown :: byte where "kBlobUnknown = 3"

record BlobIndex =
  bi_type :: byte
  bi_expiration :: u64
  bi_value :: bytes
  bi_file_number :: u64
  bi_offset :: u64
  bi_size :: u64
  bi_compression :: byte

definition IsInlined :: "BlobIndex \<Rightarrow> bool" where
  "IsInlined b \<longleftrightarrow> bi_type b = kInlinedTTL"

definition HasTTL :: "BlobIndex \<Rightarrow> bool" where
  "HasTTL b \<longleftrightarrow> bi_type b = kInlinedTTL \<or> bi_type b = kBlobTTL"

definition NewBlobIndex :: "byte \<Rightarrow> BlobIndex" where
  "NewBlobIndex uninitialised =
     \<lparr>bi_type = kBlobUnknown, bi_expiration = 0, bi_value = [], bi_file_number = 0, bi_offset = 0,
      bi_size = 0, bi_compression = uninitialised\<rparr>"

text \<open>Reading the type of an empty slice is only excluded by an assertion.\<close>

definition BlobIndexDecodeFrom :: "bytes \<Rightarrow> BlobIndex \<Rightarrow> (status \<times> BlobIndex) outcome" where
  "BlobIndexDecodeFrom sl b =
     (if sl = [] then Undef
      else
        (let b = b\<lparr>bi_type := hd sl\<rparr>; sl = tl sl in
         if bi_type b \<ge> kBlobUnknown then Ok (Corruption, b)
         else
           (let located =
                  field GetVarint64 (\<lambda>n b. b\<lparr>bi_file_number := n\<rparr>)
                 (field GetVarint64 (\<lambda>n b. b\<lparr>bi_offset := n\<rparr>)
                 (field GetVarint64 (\<lambda>n b. b\<lparr>bi_size := n\<rparr>)
                 (\<lambda>b sl. if length sl = 1 then (StatusOK, b\<lparr>bi_compression := hd sl\<rparr>, sl)
                          else (Corruption, b, sl))));
                body = (\<lambda>b sl. if IsInlined b then (StatusOK, b\<lparr>bi_value := sl\<rparr>, sl) else located b sl)
            in case (if HasTTL b then field GetVarint64 (\<lambda>n b. b\<lparr>bi_expiration := n\<rparr>) body b sl
                     else body b sl) of
                 (s, b, _) \<Rightarrow> Ok (s, b))))"

definition EncodeInlinedTTL :: "u64 \<Rightarrow> bytes \<Rightarrow> bytes" where
  "EncodeInlinedTTL expiration value = PutVarint64 [kInlinedTTL] expiration @ value"

definition EncodeBlob :: "u64 \<Rightarrow> u64 \<Rightarrow> u64 \<Rightarrow> byte \<Rightarrow> bytes" where
  "EncodeBlob file_number offset blob_size compression =
     PutVarint64 (PutVarint64 (PutVarint64 [kBlob] file_number) offset) blob_size @ [compression]"

definition EncodeBlobTTL :: "u64 \<Rightarrow> u64 \<Rightarrow> u64 \<Rightarrow> u64 \<Rightarrow> byte \<Rightarrow> bytes" where
  "EncodeBlobTTL expiration file_number offset blob_size compression =
     PutVarint64 (PutVarint64 (PutVarint64 (PutVarint64 [kBlobTTL] expiration) file_number) offset)
       blob_size @ [compression]"

lemmas blob_types = kInlinedTTL_def kBlob_def kBlobTTL_def kBlobUnknown_def

lemma BlobIndex_roundtrip:
  "BlobIndexDecodeFrom (EncodeInlinedTTL e v) b =
     Ok (StatusOK, b\<lparr>bi_type := kInlinedTTL, bi_expiration := e, bi_value := v\<rparr>)"
  "BlobIndexDecodeFrom (EncodeBlob n off sz c) b =
     Ok (StatusOK, b\<lparr>bi_type := kBlob, bi_file_number := n, bi_offset := off, bi_size := sz,
       bi_compression := c\<rparr>)"
  "BlobIndexDecodeFrom (EncodeBlobTTL e n off sz c) b =
     Ok (StatusOK, b\<lparr>bi_type := kBlobTTL, bi_expiration := e, bi_file_number := n, bi_offset := off,
       bi_size := sz, bi_compression := c\<rparr>)"
  by (simp_all add: BlobIndexDecodeFrom_def EncodeInlinedTTL_def EncodeBlob_def EncodeBlobTTL_def
      put_defs blob_types HasTTL_def IsInlined_def varint64.field_put Let_def
      word_le_nat_alt)

end
