(* ===== verification/Version_Edit.thy ===== *)
theory Version_Edit
  imports Blob_Edit Internal_Key "HOL-Library.Product_Lexorder"
begin

text \<open>
  Version edits, the records of the manifest (\<open>db/version_edit.h\<close>, \<open>db/version_edit.cc\<close>): the changes
  of the set of table files, the counters of the database, and, added by the fork, the secret of
  a write-ahead log, the key of a table file and the deletion of such a key.
\<close>

section \<open>Tags\<close>

definition kComparator :: u32 where "kComparator = 1"
definition kLogNumber :: u32 where "kLogNumber = 2"
definition kNextFileNumber :: u32 where "kNextFileNumber = 3"
definition kLastSequence :: u32 where "kLastSequence = 4"
definition kCompactPointer :: u32 where "kCompactPointer = 5"
definition kDeletedFile :: u32 where "kDeletedFile = 6"
definition kNewFile :: u32 where "kNewFile = 7"
definition kPrevLogNumber :: u32 where "kPrevLogNumber = 9"
definition kMinLogNumberToKeep :: u32 where "kMinLogNumberToKeep = 10"
definition kNewFile2 :: u32 where "kNewFile2 = 100"
definition kNewFile3 :: u32 where "kNewFile3 = 102"
definition kNewFile4 :: u32 where "kNewFile4 = 103"
definition kColumnFamily :: u32 where "kColumnFamily = 200"
definition kColumnFamilyAdd :: u32 where "kColumnFamilyAdd = 201"
definition kColumnFamilyDrop :: u32 where "kColumnFamilyDrop = 202"
definition kMaxColumnFamily :: u32 where "kMaxColumnFamily = 203"
definition kInAtomicGroup :: u32 where "kInAtomicGroup = 300"
definition kLogkeyAndHash :: u32 where "kLogkeyAndHash = 500"
definition kSSTAdd :: u32 where "kSSTAdd = 501"
definition kSSTDelete :: u32 where "kSSTDelete = 502"
definition kTagSafeIgnoreMask :: u32 where "kTagSafeIgnoreMask = 8192"
definition kDbId :: u32 where "kDbId = 8193"
definition kBlobFileAddition :: u32 where "kBlobFileAddition = 8194"
definition kBlobFileGarbage :: u32 where "kBlobFileGarbage = 8195"
definition kWalAddition :: u32 where "kWalAddition = 8196"
definition kWalDeletion :: u32 where "kWalDeletion = 8197"

definition kTerminate :: u32 where "kTerminate = 1"
definition kNeedCompaction :: u32 where "kNeedCompaction = 2"
definition kMinLogNumberToKeepHack :: u32 where "kMinLogNumberToKeepHack = 3"
definition kOldestBlobFileNumber :: u32 where "kOldestBlobFileNumber = 4"
definition kOldestAncesterTime :: u32 where "kOldestAncesterTime = 5"
definition kFileCreationTime :: u32 where "kFileCreationTime = 6"
definition kFileChecksum :: u32 where "kFileChecksum = 7"
definition kFileChecksumFuncName :: u32 where "kFileChecksumFuncName = 8"
definition kCustomTagNonSafeIgnoreMask :: u32 where "kCustomTagNonSafeIgnoreMask = 64"
definition kPathId :: u32 where "kPathId = 65"

lemmas tag_defs = kComparator_def kLogNumber_def kNextFileNumber_def kLastSequence_def
  kCompactPointer_def kDeletedFile_def kNewFile_def kPrevLogNumber_def kMinLogNumberToKeep_def
  kNewFile2_def kNewFile3_def kNewFile4_def kColumnFamily_def kColumnFamilyAdd_def
  kColumnFamilyDrop_def kMaxColumnFamily_def kInAtomicGroup_def kLogkeyAndHash_def kSSTAdd_def
  kSSTDelete_def kTagSafeIgnoreMask_def kDbId_def kBlobFileAddition_def kBlobFileGarbage_def
  kWalAddition_def kWalDeletion_def

lemmas custom_tag_defs = kTerminate_def kNeedCompaction_def kMinLogNumberToKeepHack_def
  kOldestBlobFileNumber_def kOldestAncesterTime_def kFileCreationTime_def kFileChecksum_def
  kFileChecksumFuncName_def kCustomTagNonSafeIgnoreMask_def kPathId_def

section \<open>Files\<close>

definition kFileNumberMask :: u64 where "kFileNumberMask = 0x3FFFFFFFFFFFFFFF"
definition kInvalidBlobFileNumber :: u64 where "kInvalidBlobFileNumber = 0"

definition PackFileNumberAndPathId :: "u64 \<Rightarrow> u64 \<Rightarrow> u64" where
  "PackFileNumberAndPathId number path_id = number OR (path_id * (kFileNumberMask + 1))"

text \<open>The table reader of a descriptor is not persistent and left out.\<close>

record FileDescriptor =
  fd_packed :: u64
  fd_file_size :: u64
  fd_smallest_seqno :: u64
  fd_largest_seqno :: u64

definition NewFileDescriptor :: "u64 \<Rightarrow> u32 \<Rightarrow> u64 \<Rightarrow> u64 \<Rightarrow> u64 \<Rightarrow> FileDescriptor" where
  "NewFileDescriptor number path_id size_of_file smallest_seqno largest_seqno =
     \<lparr>fd_packed = PackFileNumberAndPathId number (ucast path_id), fd_file_size = size_of_file,
      fd_smallest_seqno = smallest_seqno, fd_largest_seqno = largest_seqno\<rparr>"

definition GetNumber :: "FileDescriptor \<Rightarrow> u64" where
  "GetNumber fd = fd_packed fd AND kFileNumberMask"

definition GetPathId :: "FileDescriptor \<Rightarrow> u32" where
  "GetPathId fd = ucast (fd_packed fd div (kFileNumberMask + 1))"

text \<open>Of the metadata of a file, what edits carry.\<close>

record FileMetaData =
  fm_fd :: FileDescriptor
  fm_smallest :: bytes
  fm_largest :: bytes
  fm_marked_for_compaction :: bool
  fm_oldest_blob_file_number :: u64
  fm_oldest_ancester_time :: u64
  fm_file_creation_time :: u64
  fm_file_checksum :: bytes
  fm_file_checksum_func_name :: bytes

definition kUnknownFileChecksumFuncName :: bytes where
  "kUnknownFileChecksumFuncName = [85, 110, 107, 110, 111, 119, 110]"

definition NewFileMetaData :: FileMetaData where
  "NewFileMetaData =
     \<lparr>fm_fd = NewFileDescriptor 0 0 0 kMaxSequenceNumber 0, fm_smallest = [], fm_largest = [],
      fm_marked_for_compaction = False, fm_oldest_blob_file_number = kInvalidBlobFileNumber,
      fm_oldest_ancester_time = 0, fm_file_creation_time = 0, fm_file_checksum = [],
      fm_file_checksum_func_name = kUnknownFileChecksumFuncName\<rparr>"

text \<open>
  The file's boundaries grow with every key that is added in order; the values are looked at for
  references to blob files.
\<close>

definition UpdateBoundaries ::
    "bytes \<Rightarrow> bytes \<Rightarrow> u64 \<Rightarrow> ValueType \<Rightarrow> BlobIndex \<Rightarrow> FileMetaData \<Rightarrow> FileMetaData outcome" where
  "UpdateBoundaries key value seqno value_type blob_index0 f =
     (let f = (if fm_smallest f = [] then f\<lparr>fm_smallest := key\<rparr> else f);
          f = f\<lparr>fm_largest := key,
                fm_fd := (fm_fd f)\<lparr>fd_smallest_seqno := min (fd_smallest_seqno (fm_fd f)) seqno,
                                   fd_largest_seqno := max (fd_largest_seqno (fm_fd f)) seqno\<rparr>\<rparr>
      in if value_type = kTypeBlobIndex then
           obind (BlobIndexDecodeFrom value blob_index0) (\<lambda>(s, blob_index).
             if s \<noteq> StatusOK \<or> IsInlined blob_index \<or> HasTTL blob_index \<or>
                bi_file_number blob_index = kInvalidBlobFileNumber then Ok f
             else if fm_oldest_blob_file_number f = kInvalidBlobFileNumber \<or>
                     fm_oldest_blob_file_number f > bi_file_number blob_index then
               Ok (f\<lparr>fm_oldest_blob_file_number := bi_file_number blob_index\<rparr>)
             else Ok f)
         else Ok f)"

definition UpdateBoundariesForRange ::
    "(bytes \<Rightarrow> bytes \<Rightarrow> int) \<Rightarrow> bytes \<Rightarrow> bytes \<Rightarrow> u64 \<Rightarrow> FileMetaData \<Rightarrow> FileMetaData" where
  "UpdateBoundariesForRange icmp start end_key seqno f =
     (let f = (if fm_smallest f = [] \<or> icmp start (fm_smallest f) < 0
               then f\<lparr>fm_smallest := start\<rparr> else f);
          f = (if fm_largest f = [] \<or> icmp (fm_largest f) end_key < 0
               then f\<lparr>fm_largest := end_key\<rparr> else f)
      in f\<lparr>fm_fd := (fm_fd f)\<lparr>fd_smallest_seqno := min (fd_smallest_seqno (fm_fd f)) seqno,
                              fd_largest_seqno := max (fd_largest_seqno (fm_fd f)) seqno\<rparr>\<rparr>)"

section \<open>Version edits\<close>

record LogSecret =
  ls_log_num :: u64
  ls_unique_key :: bytes
  ls_unique_hash :: bytes

text \<open>
  Levels are \<open>int\<close>s. The set of deleted files is kept in the order in which it is iterated. The
  secrets and the numbers of the keys have no initial value.
\<close>

record VersionEdit =
  ve_max_level :: int
  ve_db_id :: bytes
  ve_comparator :: bytes
  ve_log_number :: u64
  ve_prev_log_number :: u64
  ve_next_file_number :: u64
  ve_max_column_family :: u32
  ve_min_log_number_to_keep :: u64
  ve_last_sequence :: u64
  ve_has_db_id :: bool
  ve_has_comparator :: bool
  ve_has_log_number :: bool
  ve_has_prev_log_number :: bool
  ve_has_next_file_number :: bool
  ve_has_max_column_family :: bool
  ve_has_min_log_number_to_keep :: bool
  ve_has_last_sequence :: bool
  ve_deleted_files :: "(int \<times> u64) list"
  ve_new_files :: "(int \<times> FileMetaData) list"
  ve_blob_file_additions :: "BlobFileAddition list"
  ve_blob_file_garbages :: "BlobFileGarbage list"
  ve_wal_additions :: "WalAddition list"
  ve_wal_deletion :: u64
  ve_column_family :: u32
  ve_is_column_family_drop :: bool
  ve_is_column_family_add :: bool
  ve_column_family_name :: bytes
  ve_is_in_atomic_group :: bool
  ve_remaining_entries :: u32
  ve_is_log_secret :: bool
  ve_log_secret :: LogSecret
  ve_is_sst_key :: bool
  ve_sst_key :: bytes
  ve_sst_file_number :: u64
  ve_is_sst_delete :: bool
  ve_sst_delete_file_number :: u64

text \<open>\<open>Clear\<close> forgets everything but the members of the fork.\<close>

definition Clear :: "VersionEdit \<Rightarrow> VersionEdit" where
  "Clear e = e
     \<lparr>ve_max_level := 0, ve_db_id := [], ve_comparator := [], ve_log_number := 0,
      ve_prev_log_number := 0, ve_next_file_number := 0, ve_max_column_family := 0,
      ve_min_log_number_to_keep := 0, ve_last_sequence := 0, ve_has_db_id := False,
      ve_has_comparator := False, ve_has_log_number := False, ve_has_prev_log_number := False,
      ve_has_next_file_number := False, ve_has_max_column_family := False,
      ve_has_min_log_number_to_keep := False, ve_has_last_sequence := False,
      ve_deleted_files := [], ve_new_files := [], ve_blob_file_additions := [],
      ve_blob_file_garbages := [], ve_wal_additions := [], ve_wal_deletion := 0,
      ve_column_family := 0, ve_is_column_family_drop := False, ve_is_column_family_add := False,
      ve_column_family_name := [], ve_is_in_atomic_group := False, ve_remaining_entries := 0\<rparr>"

text \<open>A new edit, in memory that holds \<open>garbage\<close>.\<close>

definition NewVersionEdit :: "VersionEdit \<Rightarrow> VersionEdit" where
  "NewVersionEdit garbage =
     (Clear garbage)\<lparr>ve_is_log_secret := False, ve_is_sst_key := False, ve_is_sst_delete := False\<rparr>"

text \<open>The setters. A set of pairs is kept in order, without duplicates.\<close>

definition SetDBId :: "bytes \<Rightarrow> VersionEdit \<Rightarrow> VersionEdit" where
  "SetDBId db_id e = e\<lparr>ve_has_db_id := True, ve_db_id := db_id\<rparr>"

definition SetComparatorName :: "bytes \<Rightarrow> VersionEdit \<Rightarrow> VersionEdit" where
  "SetComparatorName name e = e\<lparr>ve_has_comparator := True, ve_comparator := name\<rparr>"

definition SetLogNumber :: "u64 \<Rightarrow> VersionEdit \<Rightarrow> VersionEdit" where
  "SetLogNumber num e = e\<lparr>ve_has_log_number := True, ve_log_number := num\<rparr>"

definition SetPrevLogNumber :: "u64 \<Rightarrow> VersionEdit \<Rightarrow> VersionEdit" where
  "SetPrevLogNumber num e = e\<lparr>ve_has_prev_log_number := True, ve_prev_log_number := num\<rparr>"

definition SetNextFile :: "u64 \<Rightarrow> VersionEdit \<Rightarrow> VersionEdit" where
  "SetNextFile num e = e\<lparr>ve_has_next_file_number := True, ve_next_file_number := num\<rparr>"

definition SetMaxColumnFamily :: "u32 \<Rightarrow> VersionEdit \<Rightarrow> VersionEdit" where
  "SetMaxColumnFamily n e = e\<lparr>ve_has_max_column_family := True, ve_max_column_family := n\<rparr>"

definition SetMinLogNumberToKeep :: "u64 \<Rightarrow> VersionEdit \<Rightarrow> VersionEdit" where
  "SetMinLogNumberToKeep num e =
     e\<lparr>ve_has_min_log_number_to_keep := True, ve_min_log_number_to_keep := num\<rparr>"

definition SetLastSequence :: "u64 \<Rightarrow> VersionEdit \<Rightarrow> VersionEdit" where
  "SetLastSequence sn e = e\<lparr>ve_has_last_sequence := True, ve_last_sequence := sn\<rparr>"

fun set_insert :: "'a::linorder \<Rightarrow> 'a list \<Rightarrow> 'a list" where
  "set_insert x [] = [x]"
| "set_insert x (y # ys) = (if x < y then x # y # ys else if x = y then y # ys else y # set_insert x ys)"

definition VersionDeleteFile :: "int \<Rightarrow> u64 \<Rightarrow> VersionEdit \<Rightarrow> VersionEdit" where
  "VersionDeleteFile level n e = e\<lparr>ve_deleted_files := set_insert (level, n) (ve_deleted_files e)\<rparr>"

definition AddFile :: "int \<Rightarrow> FileMetaData \<Rightarrow> VersionEdit \<Rightarrow> VersionEdit" where
  "AddFile level f e = e\<lparr>ve_new_files := ve_new_files e @ [(level, f)]\<rparr>"

definition AddBlobFile :: "BlobFileAddition \<Rightarrow> VersionEdit \<Rightarrow> VersionEdit" where
  "AddBlobFile b e = e\<lparr>ve_blob_file_additions := ve_blob_file_additions e @ [b]\<rparr>"

definition AddBlobFileGarbage :: "BlobFileGarbage \<Rightarrow> VersionEdit \<Rightarrow> VersionEdit" where
  "AddBlobFileGarbage b e = e\<lparr>ve_blob_file_garbages := ve_blob_file_garbages e @ [b]\<rparr>"

definition VersionAddWal :: "WalAddition \<Rightarrow> VersionEdit \<Rightarrow> VersionEdit" where
  "VersionAddWal w e = e\<lparr>ve_wal_additions := ve_wal_additions e @ [w]\<rparr>"

definition VersionDeleteWalsBefore :: "u64 \<Rightarrow> VersionEdit \<Rightarrow> VersionEdit" where
  "VersionDeleteWalsBefore number e = e\<lparr>ve_wal_deletion := number\<rparr>"

definition NumEntries :: "VersionEdit \<Rightarrow> nat" where
  "NumEntries e =
     length (ve_new_files e) + length (ve_deleted_files e) + length (ve_blob_file_additions e) +
     length (ve_blob_file_garbages e) + length (ve_wal_additions e) +
     (if WalDeletionIsEmpty (ve_wal_deletion e) then 0 else 1)"

definition IsWalAddition :: "VersionEdit \<Rightarrow> bool" where
  "IsWalAddition e \<longleftrightarrow> ve_wal_additions e \<noteq> []"

definition IsWalDeletion :: "VersionEdit \<Rightarrow> bool" where
  "IsWalDeletion e \<longleftrightarrow> \<not> WalDeletionIsEmpty (ve_wal_deletion e)"

definition SetColumnFamily :: "u32 \<Rightarrow> VersionEdit \<Rightarrow> VersionEdit" where
  "SetColumnFamily column_family_id e = e\<lparr>ve_column_family := column_family_id\<rparr>"

definition AddColumnFamily :: "bytes \<Rightarrow> VersionEdit \<Rightarrow> VersionEdit" where
  "AddColumnFamily name e = e\<lparr>ve_is_column_family_add := True, ve_column_family_name := name\<rparr>"

definition DropColumnFamily :: "VersionEdit \<Rightarrow> VersionEdit" where
  "DropColumnFamily e = e\<lparr>ve_is_column_family_drop := True\<rparr>"

definition MarkAtomicGroup :: "u32 \<Rightarrow> VersionEdit \<Rightarrow> VersionEdit" where
  "MarkAtomicGroup n e = e\<lparr>ve_is_in_atomic_group := True, ve_remaining_entries := n\<rparr>"

text \<open>The members of the fork; a key is copied with the length that the callee expects.\<close>

definition AddLogSecret :: "u64 \<Rightarrow> bytes \<Rightarrow> bytes \<Rightarrow> VersionEdit \<Rightarrow> VersionEdit outcome" where
  "AddLogSecret log_num unique_key unique_hash e =
     (if length unique_key < 32 \<or> length unique_hash < 16 then Undef
      else Ok (e\<lparr>ve_is_log_secret := True,
                 ve_log_secret := \<lparr>ls_log_num = log_num, ls_unique_key = take 32 unique_key,
                                   ls_unique_hash = take 16 unique_hash\<rparr>\<rparr>))"

definition AddSSTKey :: "u64 \<Rightarrow> bytes \<Rightarrow> VersionEdit \<Rightarrow> VersionEdit outcome" where
  "AddSSTKey file_number sstkey e =
     (if length sstkey < 32 then Undef
      else Ok (e\<lparr>ve_is_sst_key := True, ve_sst_file_number := file_number,
                 ve_sst_key := take 32 sstkey\<rparr>))"

definition DeleteSSTKey :: "u64 \<Rightarrow> VersionEdit \<Rightarrow> VersionEdit" where
  "DeleteSSTKey file_number e =
     e\<lparr>ve_is_sst_delete := True, ve_sst_delete_file_number := file_number\<rparr>"

section \<open>Encoding\<close>

definition PutTagged :: "bytes \<Rightarrow> u32 \<Rightarrow> bytes \<Rightarrow> bytes" where
  "PutTagged dst tag v = PutLengthPrefixedSlice (PutVarint32 dst tag) v"

definition EncodeNewFile4 :: "bytes \<Rightarrow> int \<Rightarrow> FileMetaData \<Rightarrow> u64 option \<Rightarrow> bytes" where
  "EncodeNewFile4 dst level f min_log =
     (let fd = fm_fd f;
          dst = PutVarint32 dst kNewFile4;
          dst = PutVarint32Varint64 dst (word_of_int level) (GetNumber fd);
          dst = PutVarint64 dst (fd_file_size fd);
          dst = PutLengthPrefixedSlice dst (fm_smallest f);
          dst = PutLengthPrefixedSlice dst (fm_largest f);
          dst = PutVarint64Varint64 dst (fd_smallest_seqno fd) (fd_largest_seqno fd);
          dst = PutTagged dst kOldestAncesterTime (PutVarint64 [] (fm_oldest_ancester_time f));
          dst = PutTagged dst kFileCreationTime (PutVarint64 [] (fm_file_creation_time f));
          dst = PutTagged dst kFileChecksum (fm_file_checksum f);
          dst = PutTagged dst kFileChecksumFuncName (fm_file_checksum_func_name f);
          dst = (if GetPathId fd \<noteq> 0 then PutTagged dst kPathId [ucast (GetPathId fd)] else dst);
          dst = (if fm_marked_for_compaction f then PutTagged dst kNeedCompaction [1] else dst);
          dst = (case min_log of
                   Some n \<Rightarrow> PutTagged dst kMinLogNumberToKeepHack (PutFixed64 [] n) | None \<Rightarrow> dst);
          dst = (if fm_oldest_blob_file_number f \<noteq> kInvalidBlobFileNumber
                 then PutTagged dst kOldestBlobFileNumber (PutVarint64 [] (fm_oldest_blob_file_number f))
                 else dst)
      in PutVarint32 dst kTerminate)"

text \<open>The number of the oldest log to keep goes with the first file; an invalid key ends the encoding.\<close>

fun EncodeNewFiles :: "bytes \<Rightarrow> (int \<times> FileMetaData) list \<Rightarrow> u64 option \<Rightarrow> bool \<times> bytes" where
  "EncodeNewFiles dst [] min_log = (True, dst)"
| "EncodeNewFiles dst ((level, f) # fs) min_log =
     (if \<not> InternalKeyValid (fm_smallest f) \<or> \<not> InternalKeyValid (fm_largest f) then (False, dst)
      else EncodeNewFiles (EncodeNewFile4 dst level f min_log) fs None)"

definition EncodeCounters :: "bytes \<Rightarrow> VersionEdit \<Rightarrow> bytes" where
  "EncodeCounters dst e =
     (let dst = (if ve_has_db_id e then PutTagged dst kDbId (ve_db_id e) else dst);
          dst = (if ve_has_comparator e then PutTagged dst kComparator (ve_comparator e) else dst);
          dst = (if ve_has_log_number e
                 then PutVarint32Varint64 dst kLogNumber (ve_log_number e) else dst);
          dst = (if ve_has_prev_log_number e
                 then PutVarint32Varint64 dst kPrevLogNumber (ve_prev_log_number e) else dst);
          dst = (if ve_has_next_file_number e
                 then PutVarint32Varint64 dst kNextFileNumber (ve_next_file_number e) else dst);
          dst = (if ve_has_max_column_family e
                 then PutVarint32Varint32 dst kMaxColumnFamily (ve_max_column_family e) else dst);
          dst = (if ve_has_last_sequence e
                 then PutVarint32Varint64 dst kLastSequence (ve_last_sequence e) else dst)
      in foldl (\<lambda>dst (level, n). PutVarint32Varint32Varint64 dst kDeletedFile (word_of_int level) n)
           dst (ve_deleted_files e))"

definition EncodeBlobsAndWals :: "bytes \<Rightarrow> VersionEdit \<Rightarrow> bytes" where
  "EncodeBlobsAndWals dst e =
     (let dst = foldl (\<lambda>dst b. BlobFileAdditionEncodeTo (PutVarint32 dst kBlobFileAddition) b)
                  dst (ve_blob_file_additions e);
          dst = foldl (\<lambda>dst b. BlobFileGarbageEncodeTo (PutVarint32 dst kBlobFileGarbage) b)
                  dst (ve_blob_file_garbages e);
          dst = foldl (\<lambda>dst w. WalAdditionEncodeTo (PutVarint32 dst kWalAddition) w)
                  dst (ve_wal_additions e)
      in if WalDeletionIsEmpty (ve_wal_deletion e) then dst
         else WalDeletionEncodeTo (PutVarint32 dst kWalDeletion) (ve_wal_deletion e))"

definition EncodeColumnFamily :: "bytes \<Rightarrow> VersionEdit \<Rightarrow> bytes" where
  "EncodeColumnFamily dst e =
     (let dst = (if ve_column_family e \<noteq> 0
                 then PutVarint32Varint32 dst kColumnFamily (ve_column_family e) else dst);
          dst = (if ve_is_column_family_add e
                 then PutTagged dst kColumnFamilyAdd (ve_column_family_name e) else dst);
          dst = (if ve_is_column_family_drop e then PutVarint32 dst kColumnFamilyDrop else dst)
      in if ve_is_in_atomic_group e
         then PutVarint32 (PutVarint32 dst kInAtomicGroup) (ve_remaining_entries e) else dst)"

definition EncodeSecrets :: "bytes \<Rightarrow> VersionEdit \<Rightarrow> bytes" where
  "EncodeSecrets dst e =
     (let s = ve_log_secret e;
          dst = (if ve_is_log_secret e then
                   PutLengthPrefixedSlice
                     (PutLengthPrefixedSlice (PutFixed64 (PutVarint32 dst kLogkeyAndHash) (ls_log_num s))
                       (ls_unique_key s)) (ls_unique_hash s)
                 else dst);
          dst = (if ve_is_sst_key e then
                   PutLengthPrefixedSlice (PutFixed64 (PutVarint32 dst kSSTAdd) (ve_sst_file_number e))
                     (ve_sst_key e)
                 else dst)
      in if ve_is_sst_delete e
         then PutFixed64 (PutVarint32 dst kSSTDelete) (ve_sst_delete_file_number e) else dst)"

definition VersionEditEncodeTo :: "bytes \<Rightarrow> VersionEdit \<Rightarrow> bool \<times> bytes" where
  "VersionEditEncodeTo dst e =
     (case EncodeNewFiles (EncodeCounters dst e) (ve_new_files e)
             (if ve_has_min_log_number_to_keep e then Some (ve_min_log_number_to_keep e) else None) of
        (False, dst) \<Rightarrow> (False, dst)
      | (True, dst) \<Rightarrow>
          (True, EncodeSecrets (EncodeColumnFamily (EncodeBlobsAndWals dst e) e) e))"

section \<open>Decoding\<close>

text \<open>
  A key that is not valid is consumed and not taken. The locals of a file record: the level and the
  parts of the descriptor are collected beside the edit, whose \<open>max_level_\<close> follows each level.
\<close>

definition GetInternalKey :: "bytes parser" where
  "GetInternalKey input =
     (case GetLengthPrefixedSlice input of
        (Some str, rest) \<Rightarrow> (if InternalKeyValid str then Some str else None, rest)
      | (None, rest) \<Rightarrow> (None, rest))"

record file_locals =
  fl_edit :: VersionEdit
  fl_level :: int
  fl_meta :: FileMetaData
  fl_number :: u64
  fl_path_id :: u32
  fl_file_size :: u64
  fl_smallest_seqno :: u64
  fl_largest_seqno :: u64

definition NewLocals :: "VersionEdit \<Rightarrow> file_locals" where
  "NewLocals e =
     \<lparr>fl_edit = e, fl_level = 0, fl_meta = NewFileMetaData, fl_number = 0, fl_path_id = 0,
      fl_file_size = 0, fl_smallest_seqno = 0, fl_largest_seqno = kMaxSequenceNumber\<rparr>"

definition GetLevel :: "file_locals decoder \<Rightarrow> file_locals decoder" where
  "GetLevel = field GetVarint32 (\<lambda>v l. l\<lparr>fl_level := sint v,
     fl_edit := (fl_edit l)\<lparr>ve_max_level := max (ve_max_level (fl_edit l)) (sint v)\<rparr>\<rparr>)"

definition GetBoundaries :: "file_locals decoder \<Rightarrow> file_locals decoder" where
  "GetBoundaries k =
     field GetInternalKey (\<lambda>key l. l\<lparr>fl_meta := (fl_meta l)\<lparr>fm_smallest := key\<rparr>\<rparr>)
    (field GetInternalKey (\<lambda>key l. l\<lparr>fl_meta := (fl_meta l)\<lparr>fm_largest := key\<rparr>\<rparr>) k)"

definition GetSeqnos :: "file_locals decoder \<Rightarrow> file_locals decoder" where
  "GetSeqnos k =
     field GetVarint64 (\<lambda>n l. l\<lparr>fl_smallest_seqno := n\<rparr>)
    (field GetVarint64 (\<lambda>n l. l\<lparr>fl_largest_seqno := n\<rparr>) k)"

definition push_new_file :: "u64 \<Rightarrow> u64 \<Rightarrow> file_locals \<Rightarrow> file_locals" where
  "push_new_file smallest_seqno largest_seqno l =
     l\<lparr>fl_edit := AddFile (fl_level l)
         ((fl_meta l)\<lparr>fm_fd := NewFileDescriptor (fl_number l) (fl_path_id l) (fl_file_size l)
            smallest_seqno largest_seqno\<rparr>) (fl_edit l)\<rparr>"

definition FinishFile :: "file_locals decoder" where
  "FinishFile l input = (StatusOK, push_new_file (fl_smallest_seqno l) (fl_largest_seqno l) l, input)"

definition DecodeNewFile :: "file_locals decoder" where
  "DecodeNewFile =
     GetLevel (field GetVarint64 (\<lambda>n l. l\<lparr>fl_number := n\<rparr>)
    (field GetVarint64 (\<lambda>n l. l\<lparr>fl_file_size := n\<rparr>)
    (GetBoundaries (\<lambda>l input. (StatusOK, push_new_file kMaxSequenceNumber 0 l, input)))))"

definition DecodeNewFile2 :: "file_locals decoder" where
  "DecodeNewFile2 =
     GetLevel (field GetVarint64 (\<lambda>n l. l\<lparr>fl_number := n\<rparr>)
    (field GetVarint64 (\<lambda>n l. l\<lparr>fl_file_size := n\<rparr>)
    (GetBoundaries (GetSeqnos FinishFile))))"

definition DecodeNewFile3 :: "file_locals decoder" where
  "DecodeNewFile3 =
     GetLevel (field GetVarint64 (\<lambda>n l. l\<lparr>fl_number := n\<rparr>)
    (field GetVarint32 (\<lambda>n l. l\<lparr>fl_path_id := n\<rparr>)
    (field GetVarint64 (\<lambda>n l. l\<lparr>fl_file_size := n\<rparr>)
    (GetBoundaries (GetSeqnos FinishFile)))))"

text \<open>One custom field; what is left of the slice of the field is ignored.\<close>

definition CustomField :: "u32 \<Rightarrow> bytes \<Rightarrow> file_locals \<Rightarrow> status \<times> file_locals" where
  "CustomField custom_tag fld l =
     (let m = fl_meta l;
          number = (\<lambda>upd. case fst (GetVarint64 fld) of
                      None \<Rightarrow> (Corruption, l) | Some n \<Rightarrow> (StatusOK, l\<lparr>fl_meta := upd n m\<rparr>))
      in if custom_tag = kPathId then
           (if length fld \<noteq> 1 then (Corruption, l)
            else
              (let path_id = (scast (hd fld) :: u32); l = l\<lparr>fl_path_id := path_id\<rparr>
               in if path_id > 3 then (Corruption, l) else (StatusOK, l)))
         else if custom_tag = kOldestAncesterTime then
           number (\<lambda>n m. m\<lparr>fm_oldest_ancester_time := n\<rparr>)
         else if custom_tag = kFileCreationTime then number (\<lambda>n m. m\<lparr>fm_file_creation_time := n\<rparr>)
         else if custom_tag = kFileChecksum then (StatusOK, l\<lparr>fl_meta := m\<lparr>fm_file_checksum := fld\<rparr>\<rparr>)
         else if custom_tag = kFileChecksumFuncName then
           (StatusOK, l\<lparr>fl_meta := m\<lparr>fm_file_checksum_func_name := fld\<rparr>\<rparr>)
         else if custom_tag = kNeedCompaction then
           (if length fld \<noteq> 1 then (Corruption, l)
            else (StatusOK, l\<lparr>fl_meta := m\<lparr>fm_marked_for_compaction := (hd fld = 1)\<rparr>\<rparr>))
         else if custom_tag = kMinLogNumberToKeepHack then
           (case fst (GetFixed64 fld) of
              None \<Rightarrow> (Corruption, l)
            | Some n \<Rightarrow> (StatusOK, l\<lparr>fl_edit := SetMinLogNumberToKeep n (fl_edit l)\<rparr>))
         else if custom_tag = kOldestBlobFileNumber then
           number (\<lambda>n m. m\<lparr>fm_oldest_blob_file_number := n\<rparr>)
         else if custom_tag AND kCustomTagNonSafeIgnoreMask \<noteq> 0 then (Corruption, l)
         else (StatusOK, l))"

function CustomFields :: "file_locals decoder" where
  "CustomFields l input =
     (case GetVarint32 input of
        (None, input) \<Rightarrow> (Corruption, l, input)
      | (Some custom_tag, input) \<Rightarrow>
          (if custom_tag = kTerminate then FinishFile l input
           else
             (case GetLengthPrefixedSlice input of
                (None, input) \<Rightarrow> (Corruption, l, input)
              | (Some fld, input) \<Rightarrow>
                  (case CustomField custom_tag fld l of
                     (s, l) \<Rightarrow> if s \<noteq> StatusOK then (s, l, input) else CustomFields l input))))"
  by pat_completeness auto
termination
  by (relation "measure (\<lambda>(_, input). length input)")
    (auto dest!: GetVarint32_shorter [OF sym] GetLengthPrefixedSlice_le [OF sym])

declare CustomFields.simps [simp del]

definition DecodeNewFile4From :: "file_locals decoder" where
  "DecodeNewFile4From =
     GetLevel (field GetVarint64 (\<lambda>n l. l\<lparr>fl_number := n\<rparr>)
    (field GetVarint64 (\<lambda>n l. l\<lparr>fl_file_size := n\<rparr>)
    (GetBoundaries (GetSeqnos CustomFields))))"

definition DecodeDeletedFile :: "file_locals decoder" where
  "DecodeDeletedFile =
     GetLevel (field GetVarint64
       (\<lambda>n l. l\<lparr>fl_edit := VersionDeleteFile (fl_level l) n (fl_edit l)\<rparr>)
       (\<lambda>l input. (StatusOK, l, input)))"

definition DecodeCompactPointer :: "file_locals decoder" where
  "DecodeCompactPointer =
     GetLevel (field GetInternalKey (\<lambda>_ l. l) (\<lambda>l input. (StatusOK, l, input)))"

text \<open>
  One tag of an edit. \<open>str\<close> is the slice variable of \<open>DecodeFrom\<close>: the bytes from its pointer to the end
  of the record, since the copies of keys and hashes read from it with a length of their own, whether
  or not the slice before could be read. The result is whether decoding goes on, the edit, \<open>str\<close> and
  the rest of the record.
\<close>

type_synonym edit_step = "(bool \<times> VersionEdit \<times> bytes \<times> bytes) outcome"

definition edit_field :: "'a parser \<Rightarrow> ('a \<Rightarrow> VersionEdit \<Rightarrow> VersionEdit) \<Rightarrow>
    VersionEdit \<Rightarrow> bytes \<Rightarrow> bytes \<Rightarrow> edit_step" where
  "edit_field get upd e str input =
     (case get input of
        (None, rest) \<Rightarrow> Ok (False, e, str, rest) | (Some v, rest) \<Rightarrow> Ok (True, upd v e, str, rest))"

definition edit_string :: "(bytes \<Rightarrow> VersionEdit \<Rightarrow> VersionEdit) \<Rightarrow>
    VersionEdit \<Rightarrow> bytes \<Rightarrow> bytes \<Rightarrow> edit_step" where
  "edit_string upd e str input =
     (case GetLengthPrefixedSlice input of
        (None, rest) \<Rightarrow> Ok (False, e, str, rest) | (Some v, rest) \<Rightarrow> Ok (True, upd v e, v @ rest, rest))"

definition edit_file :: "file_locals decoder \<Rightarrow> VersionEdit \<Rightarrow> bytes \<Rightarrow> bytes \<Rightarrow> edit_step" where
  "edit_file d e str input =
     (case d (NewLocals e) input of (s, l, rest) \<Rightarrow> Ok (s = StatusOK, fl_edit l, str, rest))"

definition edit_object :: "('a \<Rightarrow> bytes \<Rightarrow> status \<times> 'a \<times> bytes) \<Rightarrow> 'a \<Rightarrow>
    ('a \<Rightarrow> VersionEdit \<Rightarrow> VersionEdit) \<Rightarrow> VersionEdit \<Rightarrow> bytes \<Rightarrow> bytes \<Rightarrow> edit_step" where
  "edit_object d obj upd e str input =
     (case d obj input of
        (s, x, rest) \<Rightarrow> if s \<noteq> StatusOK then Ok (False, e, str, rest) else Ok (True, upd x e, str, rest))"

definition next_str :: "bytes \<Rightarrow> bytes \<Rightarrow> bytes \<times> bytes" where
  "next_str str input =
     (case GetLengthPrefixedSlice input of (None, rest) \<Rightarrow> (str, rest) | (Some v, rest) \<Rightarrow> (v @ rest, rest))"

definition copy_from :: "bytes \<Rightarrow> nat \<Rightarrow> bytes outcome" where
  "copy_from p n = (if length p < n then Undef else Ok (take n p))"

definition DecodeLogSecret :: "VersionEdit \<Rightarrow> bytes \<Rightarrow> bytes \<Rightarrow> edit_step" where
  "DecodeLogSecret e str input =
     (let (n, input) = GetFixed64 input;
          secret = ve_log_secret e;
          secret = (case n of Some n \<Rightarrow> secret\<lparr>ls_log_num := n\<rparr> | None \<Rightarrow> secret);
          (str, input) = next_str str input
      in obind (copy_from str 32) (\<lambda>unique_key.
           let (str, input) = next_str str input
           in obind (copy_from str 16) (\<lambda>unique_hash.
                Ok (True,
                    e\<lparr>ve_is_log_secret := True,
                      ve_log_secret := secret\<lparr>ls_unique_key := unique_key,
                                              ls_unique_hash := unique_hash\<rparr>\<rparr>, str, input))))"

definition DecodeSSTAdd :: "VersionEdit \<Rightarrow> bytes \<Rightarrow> bytes \<Rightarrow> edit_step" where
  "DecodeSSTAdd e str input =
     (let (n, input) = GetFixed64 input;
          e = e\<lparr>ve_is_sst_key := True\<rparr>;
          e = (case n of Some n \<Rightarrow> e\<lparr>ve_sst_file_number := n\<rparr> | None \<Rightarrow> e);
          (str, input) = next_str str input
      in obind (copy_from str 32) (\<lambda>sstkey. Ok (True, e\<lparr>ve_sst_key := sstkey\<rparr>, str, input)))"

definition DecodeSSTDelete :: "VersionEdit \<Rightarrow> bytes \<Rightarrow> bytes \<Rightarrow> edit_step" where
  "DecodeSSTDelete e str input =
     (let (n, input) = GetFixed64 input;
          e = e\<lparr>ve_is_sst_delete := True\<rparr>;
          e = (case n of Some n \<Rightarrow> e\<lparr>ve_sst_delete_file_number := n\<rparr> | None \<Rightarrow> e)
      in Ok (True, e, str, input))"

definition SkipTag :: "u32 \<Rightarrow> VersionEdit \<Rightarrow> bytes \<Rightarrow> bytes \<Rightarrow> edit_step" where
  "SkipTag tag e str input =
     (if tag AND kTagSafeIgnoreMask \<noteq> 0 then
        (case GetVarint32 input of
           (None, rest) \<Rightarrow> Ok (False, e, str, rest)
         | (Some field_len, rest) \<Rightarrow>
             if unat field_len > length rest then Ok (False, e, str, rest)
             else Ok (True, e, str, drop (unat field_len) rest))
      else Ok (False, e, str, input))"

definition DecodeTag :: "u32 \<Rightarrow> VersionEdit \<Rightarrow> bytes \<Rightarrow> bytes \<Rightarrow> edit_step" where
  "DecodeTag tag =
     (if tag = kDbId then edit_string SetDBId
      else if tag = kComparator then edit_string SetComparatorName
      else if tag = kLogNumber then edit_field GetVarint64 SetLogNumber
      else if tag = kPrevLogNumber then edit_field GetVarint64 SetPrevLogNumber
      else if tag = kNextFileNumber then edit_field GetVarint64 SetNextFile
      else if tag = kMaxColumnFamily then edit_field GetVarint32 SetMaxColumnFamily
      else if tag = kMinLogNumberToKeep then edit_field GetVarint64 SetMinLogNumberToKeep
      else if tag = kLastSequence then edit_field GetVarint64 SetLastSequence
      else if tag = kCompactPointer then edit_file DecodeCompactPointer
      else if tag = kDeletedFile then edit_file DecodeDeletedFile
      else if tag = kNewFile then edit_file DecodeNewFile
      else if tag = kNewFile2 then edit_file DecodeNewFile2
      else if tag = kNewFile3 then edit_file DecodeNewFile3
      else if tag = kNewFile4 then edit_file DecodeNewFile4From
      else if tag = kBlobFileAddition then
        edit_object BlobFileAdditionDecodeFrom
          \<lparr>ba_number = 0, ba_total_count = 0, ba_total_bytes = 0, ba_checksum_method = [],
           ba_checksum_value = []\<rparr> AddBlobFile
      else if tag = kBlobFileGarbage then
        edit_object BlobFileGarbageDecodeFrom \<lparr>bg_number = 0, bg_count = 0, bg_bytes = 0\<rparr>
          AddBlobFileGarbage
      else if tag = kWalAddition then
        edit_object WalAdditionDecodeFrom NewWalAddition VersionAddWal
      else if tag = kWalDeletion then
        edit_object WalDeletionDecodeFrom 0 VersionDeleteWalsBefore
      else if tag = kColumnFamily then edit_field GetVarint32 SetColumnFamily
      else if tag = kColumnFamilyAdd then edit_string AddColumnFamily
      else if tag = kColumnFamilyDrop then (\<lambda>e str input. Ok (True, DropColumnFamily e, str, input))
      else if tag = kInAtomicGroup then
        (\<lambda>e. edit_field GetVarint32 MarkAtomicGroup (e\<lparr>ve_is_in_atomic_group := True\<rparr>))
      else if tag = kLogkeyAndHash then DecodeLogSecret
      else if tag = kSSTAdd then DecodeSSTAdd
      else if tag = kSSTDelete then DecodeSSTDelete
      else SkipTag tag)"

text \<open>The loop over the tags ends because each tag has at least a byte.\<close>

definition shrinking_step :: "(VersionEdit \<Rightarrow> bytes \<Rightarrow> bytes \<Rightarrow> edit_step) \<Rightarrow> bool" where
  "shrinking_step f \<longleftrightarrow>
     (\<forall>e str input ok e' str' rest. f e str input = Ok (ok, e', str', rest) \<longrightarrow> length rest \<le> length input)"

lemma GetFixed64_length: "GetFixed64 input = (v, r) \<Longrightarrow> length r \<le> length input"
  by (auto simp: GetFixed64_def split: if_splits)

lemma next_str_length: "next_str s input = (s', r) \<Longrightarrow> length r \<le> length input"
  by (auto simp: next_str_def dest: GetLengthPrefixedSlice_le split: prod.splits option.splits)

lemma next_str_le: "length (snd (next_str s input)) \<le> length input"
  using next_str_length [of s input] by (cases "next_str s input") simp

lemma GetFixed64_le: "length (snd (GetFixed64 input)) \<le> length input"
  by (simp add: GetFixed64_def)

lemma shrinking_edit_field [intro!]: "shrinking get \<Longrightarrow> shrinking_step (edit_field get upd)"
  unfolding shrinking_step_def edit_field_def shrinking_def
  by (auto split: prod.splits option.splits) (metis snd_conv)+

lemma shrinking_edit_string [intro!]: "shrinking_step (edit_string upd)"
  unfolding shrinking_step_def edit_string_def
  by (auto dest: GetLengthPrefixedSlice_le split: prod.splits option.splits)

lemma shrinking_edit_file [intro!]: "shrinking_decoder d \<Longrightarrow> shrinking_step (edit_file d)"
  unfolding shrinking_step_def edit_file_def shrinking_decoder_def
  by (auto split: prod.splits) (metis snd_conv)

lemma shrinking_edit_object [intro!]:
  "shrinking_decoder d \<Longrightarrow> shrinking_step (edit_object d obj upd)"
  unfolding shrinking_step_def edit_object_def shrinking_decoder_def
  by (auto split: prod.splits if_splits) (metis snd_conv)+

lemma shrinking_log_secret [intro!]: "shrinking_step DecodeLogSecret"
  unfolding shrinking_step_def DecodeLogSecret_def Let_def
  by (auto simp: obind_eq_Ok split_beta dest!: next_str_length
      elim!: order_trans intro!: order_trans [OF next_str_le] GetFixed64_le)

lemma shrinking_sst_add [intro!]: "shrinking_step DecodeSSTAdd"
  unfolding shrinking_step_def DecodeSSTAdd_def Let_def
  by (auto simp: obind_eq_Ok split_beta dest!: next_str_length
      elim!: order_trans intro!: order_trans [OF next_str_le] GetFixed64_le)

lemma shrinking_sst_delete [intro!]: "shrinking_step DecodeSSTDelete"
  unfolding shrinking_step_def DecodeSSTDelete_def Let_def
  by (auto dest: GetFixed64_length split: prod.splits)

lemma shrinking_skip [intro!]: "shrinking_step (SkipTag tag)"
  unfolding shrinking_step_def SkipTag_def
  using GetVarint32_length by (auto split: prod.splits option.splits if_splits) (metis snd_conv le_trans diff_le_self)+

lemma shrinking_key [intro!]: "shrinking GetInternalKey"
  unfolding shrinking_def GetInternalKey_def
  by (auto dest: GetLengthPrefixedSlice_le split: prod.splits option.splits)

lemma shrinking_return [intro!]:
  "shrinking_decoder (\<lambda>l input. (s, f l, input))" "shrinking_decoder FinishFile"
  by (auto simp: shrinking_decoder_def FinishFile_def)

lemma CustomFields_shrinking: "length (snd (snd (CustomFields l input))) \<le> length input"
proof (induction l input rule: CustomFields.induct)
  case (1 l input)
  obtain t r where g: "GetVarint32 input = (t, r)" by (cases "GetVarint32 input")
  obtain v q where h: "GetLengthPrefixedSlice r = (v, q)" by (cases "GetLengthPrefixedSlice r")
  have len: "length r \<le> length input" "length q \<le> length r"
    using GetVarint32_length [of input] GetLengthPrefixedSlice_length [of r] g h by simp_all
  show ?case
  proof (cases t)
    case None
    then show ?thesis using g len by (simp add: CustomFields.simps [of l input])
  next
    case (Some tag)
    have "length (snd (snd (CustomFields l' q))) \<le> length input"
      if "tag \<noteq> kTerminate" "v = Some x" "CustomField tag x l = (StatusOK, l')" for x l'
      using "1.IH" [OF g [symmetric] Some that(1) h [symmetric] that(2) that(3) [symmetric]] len
      by simp
    then show ?thesis
      using g h Some len
      by (auto simp: CustomFields.simps [of l input] FinishFile_def
          split: option.splits prod.splits intro: le_trans)
  qed
qed

lemma shrinking_custom [intro!]: "shrinking_decoder CustomFields"
  by (simp add: shrinking_decoder_def CustomFields_shrinking)

lemmas file_decoder_defs = DecodeNewFile_def DecodeNewFile2_def DecodeNewFile3_def
  DecodeNewFile4From_def DecodeDeletedFile_def DecodeCompactPointer_def GetLevel_def
  GetBoundaries_def GetSeqnos_def

lemma shrinking_files [intro!]:
  "shrinking_decoder DecodeNewFile" "shrinking_decoder DecodeNewFile2"
  "shrinking_decoder DecodeNewFile3" "shrinking_decoder DecodeNewFile4From"
  "shrinking_decoder DecodeDeletedFile" "shrinking_decoder DecodeCompactPointer"
  unfolding file_decoder_defs
  by (intro shrinking_field shrinking_parsers shrinking_key shrinking_return shrinking_custom)+

lemma shrinking_wal_deletion [intro!]: "shrinking_decoder WalDeletionDecodeFrom"
  using GetVarint64_length by (auto simp: shrinking_decoder_def WalDeletionDecodeFrom_def
      split: prod.splits option.splits) (metis snd_conv)+

lemma DecodeTag_shrinking: "shrinking_step (DecodeTag tag)"
proof -
  have c: "shrinking_step (\<lambda>e. edit_field GetVarint32 u (f e))" for u f
    using shrinking_edit_field [OF shrinking_parsers(1), of u] unfolding shrinking_step_def by blast
  have d: "shrinking_step (\<lambda>e str input. Ok (True, DropColumnFamily e, str, input))"
    by (simp add: shrinking_step_def)
  have m: "shrinking_step (if P then f else g)" if "shrinking_step f" "shrinking_step g" for P f g
    using that by simp
  show ?thesis unfolding DecodeTag_def
    by (intro m c d shrinking_edit_field shrinking_edit_string shrinking_edit_file
        shrinking_edit_object shrinking_log_secret shrinking_sst_add shrinking_sst_delete
        shrinking_skip shrinking_parsers shrinking_files BlobFileAddition_shrinking
        BlobFileGarbage_shrinking WalAddition_shrinking shrinking_wal_deletion)
qed

lemma DecodeTag_length: "DecodeTag tag e str input = Ok (ok, e', str', rest) \<Longrightarrow> length rest \<le> length input"
  using DecodeTag_shrinking [of tag] unfolding shrinking_step_def by blast

function DecodeLoop :: "VersionEdit \<Rightarrow> bytes \<Rightarrow> bytes \<Rightarrow> (status \<times> VersionEdit) outcome" where
  "DecodeLoop e str input =
     (case GetVarint32 input of
        (None, rest) \<Rightarrow> Ok (if rest = [] then StatusOK else Corruption, e)
      | (Some tag, rest) \<Rightarrow>
          obind (DecodeTag tag e str rest) (\<lambda>(ok, e, str, rest).
            if ok then DecodeLoop e str rest else Ok (Corruption, e)))"
  by pat_completeness auto
termination
  by (relation "measure (\<lambda>(_, _, input). length input)")
    (auto dest!: GetVarint32_shorter [OF sym] DecodeTag_length)

declare DecodeLoop.simps [simp del]

definition VersionEditDecodeFrom :: "VersionEdit \<Rightarrow> bytes \<Rightarrow> (status \<times> VersionEdit) outcome" where
  "VersionEditDecodeFrom e src = DecodeLoop (Clear e) [] src"

end
