(* ===== verification/Version_Codec.thy ===== *)
theory Version_Codec
  imports Version_Edit
begin

text \<open>
  What \<open>VersionEditEncodeTo\<close> writes, \<open>VersionEditDecodeFrom\<close> reads back. An encoded edit is a sequence
  of segments, each a tag and its body; a segment acts on the edit that is being decoded.
\<close>

section \<open>Segments\<close>

definition decodes_to :: "bytes \<Rightarrow> (VersionEdit \<Rightarrow> VersionEdit) \<Rightarrow> bool" where
  "decodes_to seg f \<longleftrightarrow> (\<forall>e str r. \<exists>str'. DecodeLoop e str (seg @ r) = DecodeLoop (f e) str' r)"

lemma decodes_nil: "decodes_to [] (\<lambda>e. e)"
  by (auto simp: decodes_to_def)

lemma decodes_append:
  assumes "decodes_to a f" and "decodes_to b g"
  shows "decodes_to (a @ b) (\<lambda>e. g (f e))"
  unfolding decodes_to_def
proof (intro allI)
  fix e str r
  obtain s1 where "DecodeLoop e str (a @ (b @ r)) = DecodeLoop (f e) s1 (b @ r)"
    using assms(1) unfolding decodes_to_def by blast
  moreover obtain s2 where "DecodeLoop (f e) s1 (b @ r) = DecodeLoop (g (f e)) s2 r"
    using assms(2) unfolding decodes_to_def by blast
  ultimately show "\<exists>str'. DecodeLoop e str ((a @ b) @ r) = DecodeLoop (g (f e)) str' r" by auto
qed

lemma decodes_tag:
  assumes "\<And>e str r. \<exists>str'. DecodeTag tag e str (body @ r) = Ok (True, f e, str', r)"
  shows "decodes_to (EncodeVarint32 tag @ body) f"
  unfolding decodes_to_def
proof (intro allI)
  fix e str r
  obtain str' where "DecodeTag tag e str (body @ r) = Ok (True, f e, str', r)" using assms by blast
  then show "\<exists>str'. DecodeLoop e str ((EncodeVarint32 tag @ body) @ r) = DecodeLoop (f e) str' r"
    by (subst DecodeLoop.simps) (auto simp: varint32.get_put)
qed

lemma decodes_cong: "decodes_to seg f \<Longrightarrow> (\<And>e. f e = g e) \<Longrightarrow> decodes_to seg g"
  by (simp add: decodes_to_def)

lemma decodes_if:
  assumes "P \<Longrightarrow> decodes_to seg f" and "\<And>e. P \<Longrightarrow> f e = g e" and "\<And>e. \<not> P \<Longrightarrow> g e = e"
  shows "decodes_to (if P then seg else []) g"
  using assms decodes_nil by (auto intro: decodes_cong)

lemma decodes_list:
  assumes "\<And>x. x \<in> set xs \<Longrightarrow> decodes_to (seg x) (f x)"
  shows "decodes_to (concat (map seg xs)) (\<lambda>e. foldl (\<lambda>e x. f x e) e xs)"
  using assms
proof (induction xs)
  case Nil
  then show ?case by (simp add: decodes_nil)
next
  case (Cons x xs)
  have "decodes_to (seg x @ concat (map seg xs)) (\<lambda>e. foldl (\<lambda>e x. f x e) (f x e) xs)"
    using Cons by (intro decodes_append) auto
  then show ?case by simp
qed

text \<open>The bodies.\<close>

abbreviation lp :: "bytes \<Rightarrow> bytes" where
  "lp v \<equiv> PutLengthPrefixedSlice [] v"

lemma decodes_field:
  assumes "codec put get valid" and "valid x" and "DecodeTag tag = edit_field get upd"
  shows "decodes_to (EncodeVarint32 tag @ put x) (upd x)"
  by (rule decodes_tag) (auto simp: assms(3) edit_field_def codec.get_put [OF assms(1,2)])

lemma decodes_string:
  assumes "DecodeTag tag = edit_string upd" and "length v < 2 ^ 32"
  shows "decodes_to (EncodeVarint32 tag @ lp v) (upd v)"
  by (rule decodes_tag) (use assms in \<open>auto simp: edit_string_def lp_slice.get_put\<close>)

lemma decodes_object:
  assumes "DecodeTag tag = edit_object d obj upd" and "\<And>r. d obj (body @ r) = (StatusOK, x, r)"
  shows "decodes_to (EncodeVarint32 tag @ body) (upd x)"
  by (rule decodes_tag) (use assms in \<open>auto simp: edit_object_def\<close>)

lemma decodes_file:
  assumes "DecodeTag tag = edit_file d"
    and "\<And>e r. \<exists>l. d (NewLocals e) (body @ r) = (StatusOK, l, r) \<and> fl_edit l = f e"
  shows "decodes_to (EncodeVarint32 tag @ body) f"
proof (rule decodes_tag)
  fix e str r
  obtain l where "d (NewLocals e) (body @ r) = (StatusOK, l, r)" "fl_edit l = f e"
    using assms(2) by blast
  then show "\<exists>str'. DecodeTag tag e str (body @ r) = Ok (True, f e, str', r)"
    by (simp add: assms(1) edit_file_def)
qed

lemma tag_cases:
  "DecodeTag kDbId = edit_string SetDBId"
  "DecodeTag kComparator = edit_string SetComparatorName"
  "DecodeTag kLogNumber = edit_field GetVarint64 SetLogNumber"
  "DecodeTag kPrevLogNumber = edit_field GetVarint64 SetPrevLogNumber"
  "DecodeTag kNextFileNumber = edit_field GetVarint64 SetNextFile"
  "DecodeTag kMaxColumnFamily = edit_field GetVarint32 SetMaxColumnFamily"
  "DecodeTag kLastSequence = edit_field GetVarint64 SetLastSequence"
  "DecodeTag kDeletedFile = edit_file DecodeDeletedFile"
  "DecodeTag kNewFile4 = edit_file DecodeNewFile4From"
  "DecodeTag kBlobFileAddition = edit_object BlobFileAdditionDecodeFrom
     \<lparr>ba_number = 0, ba_total_count = 0, ba_total_bytes = 0, ba_checksum_method = [],
      ba_checksum_value = []\<rparr> AddBlobFile"
  "DecodeTag kBlobFileGarbage =
     edit_object BlobFileGarbageDecodeFrom \<lparr>bg_number = 0, bg_count = 0, bg_bytes = 0\<rparr> AddBlobFileGarbage"
  "DecodeTag kWalAddition = edit_object WalAdditionDecodeFrom NewWalAddition VersionAddWal"
  "DecodeTag kWalDeletion = edit_object WalDeletionDecodeFrom 0 VersionDeleteWalsBefore"
  "DecodeTag kColumnFamily = edit_field GetVarint32 SetColumnFamily"
  "DecodeTag kColumnFamilyAdd = edit_string AddColumnFamily"
  "DecodeTag kColumnFamilyDrop = (\<lambda>e str input. Ok (True, DropColumnFamily e, str, input))"
  "DecodeTag kInAtomicGroup =
     (\<lambda>e. edit_field GetVarint32 MarkAtomicGroup (e\<lparr>ve_is_in_atomic_group := True\<rparr>))"
  "DecodeTag kLogkeyAndHash = DecodeLogSecret"
  "DecodeTag kSSTAdd = DecodeSSTAdd"
  "DecodeTag kSSTDelete = DecodeSSTDelete"
  by (simp_all add: DecodeTag_def tag_defs)

section \<open>Files\<close>

lemma file_number_mask: "kFileNumberMask = mask 62" "kFileNumberMask + 1 = push_bit 62 1"
  by (simp_all add: kFileNumberMask_def mask_eq_exp_minus_1)

lemma path_id_bits: "p div (kFileNumberMask + 1) = drop_bit 62 (p :: u64)"
proof -
  have "unat (push_bit 62 1 :: u64) = 2 ^ 62" by simp
  then show ?thesis
    unfolding file_number_mask(2)
    by (simp add: word_unat_eq_iff unat_div_distrib unat_drop_bit_div)
qed

lemma descriptor_roundtrip:
  "NewFileDescriptor (GetNumber fd) (GetPathId fd) (fd_file_size fd) (fd_smallest_seqno fd)
     (fd_largest_seqno fd) = fd"
proof -
  let ?p = "fd_packed fd"
  have i: "ucast (ucast (drop_bit 62 ?p) :: u32) = drop_bit 62 ?p"
    by (rule bit_word_eqI) (auto simp: bit_simps dest: bit_imp_le_length)
  have "drop_bit 62 ?p * push_bit 62 1 = push_bit 62 (drop_bit 62 ?p)"
    by (simp add: push_bit_eq_mult)
  then have "PackFileNumberAndPathId (GetNumber fd) (ucast (GetPathId fd)) =
      take_bit 62 ?p OR push_bit 62 (drop_bit 62 ?p)"
    unfolding PackFileNumberAndPathId_def GetNumber_def GetPathId_def path_id_bits i
    unfolding file_number_mask(2)
    by (simp only: file_number_mask(1) take_bit_eq_mask)
  then show ?thesis by (simp add: NewFileDescriptor_def take_bit_or_push_bit_drop)
qed

lemma path_id_byte: "scast (ucast (GetPathId fd) :: byte) = GetPathId fd" "GetPathId fd \<le> 3"
proof -
  have s: "GetPathId fd = ucast (drop_bit 62 (fd_packed fd))" by (simp add: GetPathId_def path_id_bits)
  have hi: "\<not> bit (GetPathId fd) n" if "2 \<le> n" for n
    using that unfolding s by (auto simp: bit_simps dest: bit_imp_le_length)
  show "scast (ucast (GetPathId fd) :: byte) = GetPathId fd"
  proof (rule bit_word_eqI)
    fix n assume "n < LENGTH(32)"
    then show "bit (scast (ucast (GetPathId fd) :: byte) :: u32) n = bit (GetPathId fd) n"
      using hi [of n] hi [of 7] by (cases "n < 7") (auto simp: bit_simps)
  qed
  have "take_bit 2 (GetPathId fd) = GetPathId fd"
    by (rule bit_word_eqI) (use hi in \<open>auto simp: bit_take_bit_iff not_le [symmetric]\<close>)
  then have "unat (GetPathId fd) < 2 ^ 2"
    using take_bit_nat_less_exp [of 2 "unat (GetPathId fd)"] by (metis unsigned_take_bit_eq)
  then show "GetPathId fd \<le> 3" by (simp add: word_le_nat_alt)
qed

lemma lp_varint: "length (EncodeVarint64 n) < 2 ^ 32"
  using length_EncodeVarint64 [of n] by simp

lemma custom_step:
  assumes "CustomField t v l = (StatusOK, l')" and "t \<noteq> kTerminate" and "length v < 2 ^ 32"
  shows "CustomFields l (EncodeVarint32 t @ lp v @ r) = CustomFields l' r"
  using assms by (subst CustomFields.simps) (simp add: varint32.get_put lp_slice.get_put)

lemma custom_values:
  "CustomField kOldestAncesterTime (EncodeVarint64 n) l =
     (StatusOK, l\<lparr>fl_meta := (fl_meta l)\<lparr>fm_oldest_ancester_time := n\<rparr>\<rparr>)"
  "CustomField kFileCreationTime (EncodeVarint64 n) l =
     (StatusOK, l\<lparr>fl_meta := (fl_meta l)\<lparr>fm_file_creation_time := n\<rparr>\<rparr>)"
  "CustomField kFileChecksum v l = (StatusOK, l\<lparr>fl_meta := (fl_meta l)\<lparr>fm_file_checksum := v\<rparr>\<rparr>)"
  "CustomField kFileChecksumFuncName v l =
     (StatusOK, l\<lparr>fl_meta := (fl_meta l)\<lparr>fm_file_checksum_func_name := v\<rparr>\<rparr>)"
  "CustomField kPathId [ucast (GetPathId fd)] l = (StatusOK, l\<lparr>fl_path_id := GetPathId fd\<rparr>)"
  "CustomField kNeedCompaction [1] l =
     (StatusOK, l\<lparr>fl_meta := (fl_meta l)\<lparr>fm_marked_for_compaction := True\<rparr>\<rparr>)"
  "CustomField kMinLogNumberToKeepHack (EncodeFixed64 n) l =
     (StatusOK, l\<lparr>fl_edit := SetMinLogNumberToKeep n (fl_edit l)\<rparr>)"
  "CustomField kOldestBlobFileNumber (EncodeVarint64 n) l =
     (StatusOK, l\<lparr>fl_meta := (fl_meta l)\<lparr>fm_oldest_blob_file_number := n\<rparr>\<rparr>)"
  using varint64.get_put_nil fixed64.get_put_nil path_id_byte [of fd]
  by (simp_all add: CustomField_def custom_tag_defs Let_def not_less)

lemma custom_tags_differ:
  "kOldestAncesterTime \<noteq> kTerminate" "kFileCreationTime \<noteq> kTerminate" "kFileChecksum \<noteq> kTerminate"
  "kFileChecksumFuncName \<noteq> kTerminate" "kPathId \<noteq> kTerminate" "kNeedCompaction \<noteq> kTerminate"
  "kMinLogNumberToKeepHack \<noteq> kTerminate" "kOldestBlobFileNumber \<noteq> kTerminate"
  by (simp_all add: custom_tag_defs)

lemma custom_end: "CustomFields l (EncodeVarint32 kTerminate @ r) = FinishFile l r"
  by (subst CustomFields.simps) (simp add: varint32.get_put)

definition file_ok :: "int \<times> FileMetaData \<Rightarrow> bool" where
  "file_ok p \<longleftrightarrow>
     (case p of (level, f) \<Rightarrow>
        - (2 ^ 31) \<le> level \<and> level < 2 ^ 31 \<and>
        InternalKeyValid (fm_smallest f) \<and> InternalKeyValid (fm_largest f) \<and>
        length (fm_smallest f) < 2 ^ 32 \<and> length (fm_largest f) < 2 ^ 32 \<and>
        length (fm_file_checksum f) < 2 ^ 32 \<and> length (fm_file_checksum_func_name f) < 2 ^ 32)"

lemma level_roundtrip:
  "- (2 ^ 31) \<le> level \<Longrightarrow> level < 2 ^ 31 \<Longrightarrow> sint (word_of_int level :: u32) = level"
  by (simp add: sint_sbintrunc' signed_take_bit_int_eq_self)

lemma key_put:
  "InternalKeyValid key \<Longrightarrow> length key < 2 ^ 32 \<Longrightarrow>
   field GetInternalKey upd k l (lp key @ r) = k (upd key l) r"
  by (simp add: field_def GetInternalKey_def lp_slice.get_put)

definition new_file_body :: "int \<Rightarrow> FileMetaData \<Rightarrow> u64 option \<Rightarrow> bytes" where
  "new_file_body level f ml =
     EncodeVarint32 (word_of_int level) @ EncodeVarint64 (GetNumber (fm_fd f)) @
     EncodeVarint64 (fd_file_size (fm_fd f)) @ lp (fm_smallest f) @ lp (fm_largest f) @
     EncodeVarint64 (fd_smallest_seqno (fm_fd f)) @ EncodeVarint64 (fd_largest_seqno (fm_fd f)) @
     (EncodeVarint32 kOldestAncesterTime @ lp (EncodeVarint64 (fm_oldest_ancester_time f))) @
     (EncodeVarint32 kFileCreationTime @ lp (EncodeVarint64 (fm_file_creation_time f))) @
     (EncodeVarint32 kFileChecksum @ lp (fm_file_checksum f)) @
     (EncodeVarint32 kFileChecksumFuncName @ lp (fm_file_checksum_func_name f)) @
     (if GetPathId (fm_fd f) \<noteq> 0 then EncodeVarint32 kPathId @ lp [ucast (GetPathId (fm_fd f))] else []) @
     (if fm_marked_for_compaction f then EncodeVarint32 kNeedCompaction @ lp [1] else []) @
     (case ml of Some n \<Rightarrow> EncodeVarint32 kMinLogNumberToKeepHack @ lp (EncodeFixed64 n) | None \<Rightarrow> []) @
     (if fm_oldest_blob_file_number f \<noteq> 0
      then EncodeVarint32 kOldestBlobFileNumber @ lp (EncodeVarint64 (fm_oldest_blob_file_number f))
      else []) @ EncodeVarint32 kTerminate"

lemma EncodeNewFile4_body:
  "EncodeNewFile4 dst level f ml = dst @ EncodeVarint32 kNewFile4 @ new_file_body level f ml"
  by (simp add: EncodeNewFile4_def new_file_body_def Let_def PutTagged_def put_defs
      PutLengthPrefixedSlice_def kInvalidBlobFileNumber_def split: option.splits)

definition file_effect :: "int \<times> FileMetaData \<Rightarrow> VersionEdit \<Rightarrow> VersionEdit" where
  "file_effect p e = e\<lparr>ve_max_level := max (ve_max_level e) (fst p), ve_new_files := ve_new_files e @ [p]\<rparr>"

definition min_log_effect :: "u64 option \<Rightarrow> VersionEdit \<Rightarrow> VersionEdit" where
  "min_log_effect ml e = (case ml of Some n \<Rightarrow> SetMinLogNumberToKeep n e | None \<Rightarrow> e)"

lemma decodes_new_file:
  assumes "file_ok (level, f)"
  shows "decodes_to (EncodeVarint32 kNewFile4 @ new_file_body level f ml)
    (\<lambda>e. file_effect (level, f) (min_log_effect ml e))"
proof (rule decodes_file [OF tag_cases(9)])
  fix e r
  have ok: "sint (word_of_int level :: u32) = level" "InternalKeyValid (fm_smallest f)"
    "InternalKeyValid (fm_largest f)" "length (fm_smallest f) < 2 ^ 32" "length (fm_largest f) < 2 ^ 32"
    "length (fm_file_checksum f) < 2 ^ 32" "length (fm_file_checksum_func_name f) < 2 ^ 32"
    using assms level_roundtrip by (auto simp: file_ok_def)
  note steps = custom_step [OF custom_values(1) custom_tags_differ(1) lp_varint]
    custom_step [OF custom_values(2) custom_tags_differ(2) lp_varint]
    custom_step [OF custom_values(3) custom_tags_differ(3) ok(6)]
    custom_step [OF custom_values(4) custom_tags_differ(4) ok(7)]
    custom_step [OF custom_values(5) custom_tags_differ(5)]
    custom_step [OF custom_values(6) custom_tags_differ(6)]
    custom_step [OF custom_values(7) custom_tags_differ(7)]
    custom_step [OF custom_values(8) custom_tags_differ(8) lp_varint]
  note keys = key_put [OF ok(2,4)] key_put [OF ok(3,5)]
  let ?fd = "fm_fd f"
  have d: "NewFileDescriptor (GetNumber ?fd) (if GetPathId ?fd \<noteq> 0 then GetPathId ?fd else 0)
      (fd_file_size ?fd) (fd_smallest_seqno ?fd) (fd_largest_seqno ?fd) = ?fd"
    using descriptor_roundtrip [of ?fd] by (cases "GetPathId ?fd = 0") simp_all
  show "\<exists>l. DecodeNewFile4From (NewLocals e) (new_file_body level f ml @ r) = (StatusOK, l, r) \<and>
      fl_edit l = file_effect (level, f) (min_log_effect ml e)"
    using d
    by (cases ml; cases "fm_marked_for_compaction f"; cases "fm_oldest_blob_file_number f = 0";
        cases "GetPathId ?fd = 0")
      (simp_all add: DecodeNewFile4From_def GetLevel_def GetBoundaries_def GetSeqnos_def
        new_file_body_def varint32.field_put varint64.field_put keys ok(1) steps custom_end FinishFile_def push_new_file_def NewLocals_def NewFileMetaData_def AddFile_def
        file_effect_def min_log_effect_def SetMinLogNumberToKeep_def kInvalidBlobFileNumber_def)
qed

section \<open>The other segments\<close>

definition deleted_effect :: "int \<times> u64 \<Rightarrow> VersionEdit \<Rightarrow> VersionEdit" where
  "deleted_effect p e = VersionDeleteFile (fst p) (snd p) (e\<lparr>ve_max_level := max (ve_max_level e) (fst p)\<rparr>)"

lemma decodes_deleted:
  assumes "- (2 ^ 31) \<le> level" and "level < 2 ^ 31"
  shows "decodes_to (EncodeVarint32 kDeletedFile @ EncodeVarint32 (word_of_int level) @ EncodeVarint64 n)
    (deleted_effect (level, n))"
  by (rule decodes_file [OF tag_cases(8)])
    (simp add: DecodeDeletedFile_def GetLevel_def varint32.field_put varint64.field_put
      level_roundtrip [OF assms] NewLocals_def deleted_effect_def)

lemma decodes_log_secret:
  assumes "length (ls_unique_key s) = 32" and "length (ls_unique_hash s) = 16"
  shows "decodes_to (EncodeVarint32 kLogkeyAndHash @ EncodeFixed64 (ls_log_num s) @
      lp (ls_unique_key s) @ lp (ls_unique_hash s))
    (\<lambda>e. e\<lparr>ve_is_log_secret := True, ve_log_secret := s\<rparr>)"
  by (rule decodes_tag)
    (use assms in \<open>simp add: tag_cases DecodeLogSecret_def fixed64.get_put next_str_def lp_slice.get_put
      copy_from_def\<close>)

lemma decodes_sst_add:
  assumes "length key = 32"
  shows "decodes_to (EncodeVarint32 kSSTAdd @ EncodeFixed64 n @ lp key)
    (\<lambda>e. e\<lparr>ve_is_sst_key := True, ve_sst_file_number := n, ve_sst_key := key\<rparr>)"
  by (rule decodes_tag)
    (use assms in \<open>simp add: tag_cases DecodeSSTAdd_def fixed64.get_put next_str_def lp_slice.get_put
      copy_from_def\<close>)

lemma decodes_sst_delete:
  "decodes_to (EncodeVarint32 kSSTDelete @ EncodeFixed64 n) (DeleteSSTKey n)"
  by (rule decodes_tag)
    (simp add: tag_cases DecodeSSTDelete_def fixed64.get_put DeleteSSTKey_def)

lemma decodes_drop: "decodes_to (EncodeVarint32 kColumnFamilyDrop) DropColumnFamily"
  using decodes_tag [of kColumnFamilyDrop "[]" DropColumnFamily] by (simp add: tag_cases)

lemma decodes_atomic:
  "decodes_to (EncodeVarint32 kInAtomicGroup @ EncodeVarint32 n) (MarkAtomicGroup n)"
  by (rule decodes_tag) (simp add: tag_cases edit_field_def varint32.get_put MarkAtomicGroup_def)

text \<open>An edit that the encoding can express: what is not set has its initial value.\<close>

definition edit_ok :: "VersionEdit \<Rightarrow> VersionEdit \<Rightarrow> bool" where
  "edit_ok garbage e \<longleftrightarrow>
     length (ve_db_id e) < 2 ^ 32 \<and> length (ve_comparator e) < 2 ^ 32 \<and>
     length (ve_column_family_name e) < 2 ^ 32 \<and>
     (\<forall>p \<in> set (ve_deleted_files e). - (2 ^ 31) \<le> fst p \<and> fst p < 2 ^ 31) \<and>
     sorted_wrt (<) (ve_deleted_files e) \<and> (\<forall>p \<in> set (ve_new_files e). file_ok p) \<and>
     (\<forall>b \<in> set (ve_blob_file_additions e).
        length (ba_checksum_method b) < 2 ^ 32 \<and> length (ba_checksum_value b) < 2 ^ 32) \<and>
     (ve_has_min_log_number_to_keep e \<longrightarrow> ve_new_files e \<noteq> []) \<and>
     (\<not> ve_has_db_id e \<longrightarrow> ve_db_id e = []) \<and> (\<not> ve_has_comparator e \<longrightarrow> ve_comparator e = []) \<and>
     (\<not> ve_has_log_number e \<longrightarrow> ve_log_number e = 0) \<and>
     (\<not> ve_has_prev_log_number e \<longrightarrow> ve_prev_log_number e = 0) \<and>
     (\<not> ve_has_next_file_number e \<longrightarrow> ve_next_file_number e = 0) \<and>
     (\<not> ve_has_max_column_family e \<longrightarrow> ve_max_column_family e = 0) \<and>
     (\<not> ve_has_min_log_number_to_keep e \<longrightarrow> ve_min_log_number_to_keep e = 0) \<and>
     (\<not> ve_has_last_sequence e \<longrightarrow> ve_last_sequence e = 0) \<and>
     (\<not> ve_is_column_family_add e \<longrightarrow> ve_column_family_name e = []) \<and>
     (\<not> ve_is_in_atomic_group e \<longrightarrow> ve_remaining_entries e = 0) \<and>
     (if ve_is_log_secret e
      then length (ls_unique_key (ve_log_secret e)) = 32 \<and> length (ls_unique_hash (ve_log_secret e)) = 16
      else ve_log_secret e = ve_log_secret garbage) \<and>
     (if ve_is_sst_key e then length (ve_sst_key e) = 32
      else ve_sst_key e = ve_sst_key garbage \<and> ve_sst_file_number e = ve_sst_file_number garbage) \<and>
     (\<not> ve_is_sst_delete e \<longrightarrow> ve_sst_delete_file_number e = ve_sst_delete_file_number garbage)"

lemma edit_okD:
  assumes "edit_ok garbage e"
  shows "length (ve_db_id e) < 2 ^ 32" and "length (ve_comparator e) < 2 ^ 32"
    and "length (ve_column_family_name e) < 2 ^ 32"
    and "\<forall>p \<in> set (ve_deleted_files e). - (2 ^ 31) \<le> fst p \<and> fst p < 2 ^ 31"
    and "sorted_wrt (<) (ve_deleted_files e)" and "\<forall>p \<in> set (ve_new_files e). file_ok p"
    and "\<forall>b \<in> set (ve_blob_file_additions e).
        length (ba_checksum_method b) < 2 ^ 32 \<and> length (ba_checksum_value b) < 2 ^ 32"
    and "ve_is_log_secret e \<Longrightarrow> length (ls_unique_key (ve_log_secret e)) = 32"
    and "ve_is_log_secret e \<Longrightarrow> length (ls_unique_hash (ve_log_secret e)) = 16"
    and "ve_is_sst_key e \<Longrightarrow> length (ve_sst_key e) = 32"
  using assms unfolding edit_ok_def by (elim conjE; simp)+

text \<open>A field whose flag is not set has the value that a fresh edit gives it.\<close>

lemma edit_ok_absent:
  assumes "edit_ok garbage e"
  shows "(if ve_has_db_id e then ve_db_id e else []) = ve_db_id e"
    and "(if ve_has_comparator e then ve_comparator e else []) = ve_comparator e"
    and "(if ve_has_log_number e then ve_log_number e else 0) = ve_log_number e"
    and "(if ve_has_prev_log_number e then ve_prev_log_number e else 0) = ve_prev_log_number e"
    and "(if ve_has_next_file_number e then ve_next_file_number e else 0) = ve_next_file_number e"
    and "(if ve_has_max_column_family e then ve_max_column_family e else 0) = ve_max_column_family e"
    and "(if ve_has_last_sequence e then ve_last_sequence e else 0) = ve_last_sequence e"
    and "(if ve_is_column_family_add e then ve_column_family_name e else []) = ve_column_family_name e"
    and "(if ve_is_in_atomic_group e then ve_remaining_entries e else 0) = ve_remaining_entries e"
    and "(if ve_is_log_secret e then ve_log_secret e else ve_log_secret garbage) = ve_log_secret e"
    and "(if ve_is_sst_key e then ve_sst_key e else ve_sst_key garbage) = ve_sst_key e"
    and "(if ve_is_sst_key e then ve_sst_file_number e else ve_sst_file_number garbage) =
      ve_sst_file_number e"
    and "(if ve_is_sst_delete e then ve_sst_delete_file_number e
      else ve_sst_delete_file_number garbage) = ve_sst_delete_file_number e"
    and "ve_has_min_log_number_to_keep e \<Longrightarrow> ve_new_files e \<noteq> []"
    and "\<not> ve_has_min_log_number_to_keep e \<Longrightarrow> ve_min_log_number_to_keep e = 0"
  using assms unfolding edit_ok_def by (elim conjE; simp split: if_splits)+

text \<open>The segments of an edit, and what each part does to the edit that is decoded.\<close>

definition counter_bytes :: "VersionEdit \<Rightarrow> bytes" where
  "counter_bytes e =
     (if ve_has_db_id e then EncodeVarint32 kDbId @ lp (ve_db_id e) else []) @
     (if ve_has_comparator e then EncodeVarint32 kComparator @ lp (ve_comparator e) else []) @
     (if ve_has_log_number e then EncodeVarint32 kLogNumber @ EncodeVarint64 (ve_log_number e) else []) @
     (if ve_has_prev_log_number e
      then EncodeVarint32 kPrevLogNumber @ EncodeVarint64 (ve_prev_log_number e) else []) @
     (if ve_has_next_file_number e
      then EncodeVarint32 kNextFileNumber @ EncodeVarint64 (ve_next_file_number e) else []) @
     (if ve_has_max_column_family e
      then EncodeVarint32 kMaxColumnFamily @ EncodeVarint32 (ve_max_column_family e) else []) @
     (if ve_has_last_sequence e
      then EncodeVarint32 kLastSequence @ EncodeVarint64 (ve_last_sequence e) else []) @
     concat (map (\<lambda>(level, n). EncodeVarint32 kDeletedFile @ EncodeVarint32 (word_of_int level) @
       EncodeVarint64 n) (ve_deleted_files e))"

lemma if_put:
  "(if P then PutTagged dst t v else dst) = dst @ (if P then EncodeVarint32 t @ lp v else [])"
  "(if P then PutVarint32Varint64 dst t n else dst) =
     dst @ (if P then EncodeVarint32 t @ EncodeVarint64 n else [])"
  "(if P then PutVarint32Varint32 dst t m else dst) =
     dst @ (if P then EncodeVarint32 t @ EncodeVarint32 m else [])"
  "(if P then PutVarint32 dst t else dst) = dst @ (if P then EncodeVarint32 t else [])"
  "(if P then PutVarint32 (PutVarint32 dst t) m else dst) =
     dst @ (if P then EncodeVarint32 t @ EncodeVarint32 m else [])"
  "(if P then PutFixed64 (PutVarint32 dst t) n else dst) =
     dst @ (if P then EncodeVarint32 t @ EncodeFixed64 n else [])"
  "(if P then PutLengthPrefixedSlice (PutFixed64 (PutVarint32 dst t) n) v else dst) =
     dst @ (if P then EncodeVarint32 t @ EncodeFixed64 n @ lp v else [])"
  "(if P then PutLengthPrefixedSlice (PutLengthPrefixedSlice (PutFixed64 (PutVarint32 dst t) n) v) u
    else dst) = dst @ (if P then EncodeVarint32 t @ EncodeFixed64 n @ lp v @ lp u else [])"
  by (simp_all add: PutTagged_def put_defs PutLengthPrefixedSlice_def)

lemma foldl_appends: "foldl (\<lambda>dst x. dst @ seg x) dst xs = dst @ concat (map seg xs)"
  by (induction xs arbitrary: dst) simp_all

lemma EncodeCounters_bytes: "EncodeCounters dst e = dst @ counter_bytes e"
proof -
  have f: "(\<lambda>dst (level, n). PutVarint32Varint32Varint64 dst kDeletedFile (word_of_int level) n) =
      (\<lambda>dst p. dst @ (case p of (level, n) \<Rightarrow>
        EncodeVarint32 kDeletedFile @ EncodeVarint32 (word_of_int level) @ EncodeVarint64 n))"
    by (auto simp: put_defs)
  show ?thesis
    unfolding EncodeCounters_def f foldl_appends counter_bytes_def
    by (simp add: Let_def if_put split del: if_split)
qed

definition counters_effect :: "VersionEdit \<Rightarrow> VersionEdit \<Rightarrow> VersionEdit" where
  "counters_effect e x =
     x\<lparr>ve_has_db_id := ve_has_db_id e \<or> ve_has_db_id x,
       ve_db_id := (if ve_has_db_id e then ve_db_id e else ve_db_id x),
       ve_has_comparator := ve_has_comparator e \<or> ve_has_comparator x,
       ve_comparator := (if ve_has_comparator e then ve_comparator e else ve_comparator x),
       ve_has_log_number := ve_has_log_number e \<or> ve_has_log_number x,
       ve_log_number := (if ve_has_log_number e then ve_log_number e else ve_log_number x),
       ve_has_prev_log_number := ve_has_prev_log_number e \<or> ve_has_prev_log_number x,
       ve_prev_log_number := (if ve_has_prev_log_number e then ve_prev_log_number e else ve_prev_log_number x),
       ve_has_next_file_number := ve_has_next_file_number e \<or> ve_has_next_file_number x,
       ve_next_file_number := (if ve_has_next_file_number e then ve_next_file_number e else ve_next_file_number x),
       ve_has_max_column_family := ve_has_max_column_family e \<or> ve_has_max_column_family x,
       ve_max_column_family := (if ve_has_max_column_family e then ve_max_column_family e else ve_max_column_family x),
       ve_has_last_sequence := ve_has_last_sequence e \<or> ve_has_last_sequence x,
       ve_last_sequence := (if ve_has_last_sequence e then ve_last_sequence e else ve_last_sequence x),
       ve_deleted_files := foldl (\<lambda>s p. set_insert p s) (ve_deleted_files x) (ve_deleted_files e),
       ve_max_level := foldl max (ve_max_level x) (map fst (ve_deleted_files e))\<rparr>"

lemma deleted_fold:
  "foldl (\<lambda>e p. deleted_effect p e) x ps =
     x\<lparr>ve_deleted_files := foldl (\<lambda>s p. set_insert p s) (ve_deleted_files x) ps,
       ve_max_level := foldl max (ve_max_level x) (map fst ps)\<rparr>"
  by (induction ps arbitrary: x) (simp_all add: deleted_effect_def VersionDeleteFile_def)

lemma decodes_counters:
  assumes "edit_ok garbage e"
  shows "decodes_to (counter_bytes e) (counters_effect e)"
proof -
  have len: "length (ve_db_id e) < 2 ^ 32" "length (ve_comparator e) < 2 ^ 32"
    by (rule edit_okD [OF assms])+
  have s1: "decodes_to (if ve_has_db_id e then EncodeVarint32 kDbId @ lp (ve_db_id e) else [])
      (\<lambda>x. x\<lparr>ve_has_db_id := ve_has_db_id e \<or> ve_has_db_id x, ve_db_id := (if ve_has_db_id e then ve_db_id e else ve_db_id x)\<rparr>)"
    by (rule decodes_if [OF decodes_string [OF tag_cases(1)]]) (use len in \<open>simp_all add: SetDBId_def\<close>)
  have s2: "decodes_to (if ve_has_comparator e then EncodeVarint32 kComparator @ lp (ve_comparator e) else [])
      (\<lambda>x. x\<lparr>ve_has_comparator := ve_has_comparator e \<or> ve_has_comparator x, ve_comparator := (if ve_has_comparator e then ve_comparator e else ve_comparator x)\<rparr>)"
    by (rule decodes_if [OF decodes_string [OF tag_cases(2)]]) (use len in \<open>simp_all add: SetComparatorName_def\<close>)
  have s3: "decodes_to (if ve_has_log_number e then EncodeVarint32 kLogNumber @ EncodeVarint64 (ve_log_number e) else [])
      (\<lambda>x. x\<lparr>ve_has_log_number := ve_has_log_number e \<or> ve_has_log_number x, ve_log_number := (if ve_has_log_number e then ve_log_number e else ve_log_number x)\<rparr>)"
    by (rule decodes_if [OF decodes_field [OF varint64.codec_axioms TrueI tag_cases(3)]]) (simp_all add: SetLogNumber_def)
  have s4: "decodes_to (if ve_has_prev_log_number e then EncodeVarint32 kPrevLogNumber @ EncodeVarint64 (ve_prev_log_number e) else [])
      (\<lambda>x. x\<lparr>ve_has_prev_log_number := ve_has_prev_log_number e \<or> ve_has_prev_log_number x, ve_prev_log_number := (if ve_has_prev_log_number e then ve_prev_log_number e else ve_prev_log_number x)\<rparr>)"
    by (rule decodes_if [OF decodes_field [OF varint64.codec_axioms TrueI tag_cases(4)]]) (simp_all add: SetPrevLogNumber_def)
  have s5: "decodes_to (if ve_has_next_file_number e then EncodeVarint32 kNextFileNumber @ EncodeVarint64 (ve_next_file_number e) else [])
      (\<lambda>x. x\<lparr>ve_has_next_file_number := ve_has_next_file_number e \<or> ve_has_next_file_number x, ve_next_file_number := (if ve_has_next_file_number e then ve_next_file_number e else ve_next_file_number x)\<rparr>)"
    by (rule decodes_if [OF decodes_field [OF varint64.codec_axioms TrueI tag_cases(5)]]) (simp_all add: SetNextFile_def)
  have s6: "decodes_to (if ve_has_max_column_family e then EncodeVarint32 kMaxColumnFamily @ EncodeVarint32 (ve_max_column_family e) else [])
      (\<lambda>x. x\<lparr>ve_has_max_column_family := ve_has_max_column_family e \<or> ve_has_max_column_family x, ve_max_column_family := (if ve_has_max_column_family e then ve_max_column_family e else ve_max_column_family x)\<rparr>)"
    by (rule decodes_if [OF decodes_field [OF varint32.codec_axioms TrueI tag_cases(6)]]) (simp_all add: SetMaxColumnFamily_def)
  have s7: "decodes_to (if ve_has_last_sequence e then EncodeVarint32 kLastSequence @ EncodeVarint64 (ve_last_sequence e) else [])
      (\<lambda>x. x\<lparr>ve_has_last_sequence := ve_has_last_sequence e \<or> ve_has_last_sequence x, ve_last_sequence := (if ve_has_last_sequence e then ve_last_sequence e else ve_last_sequence x)\<rparr>)"
    by (rule decodes_if [OF decodes_field [OF varint64.codec_axioms TrueI tag_cases(7)]]) (simp_all add: SetLastSequence_def)
  have s8: "decodes_to (concat (map (\<lambda>(level, n). EncodeVarint32 kDeletedFile @
      EncodeVarint32 (word_of_int level) @ EncodeVarint64 n) (ve_deleted_files e)))
    (\<lambda>x. foldl (\<lambda>e p. deleted_effect p e) x (ve_deleted_files e))"
  proof (rule decodes_list)
    fix p assume p: "p \<in> set (ve_deleted_files e)"
    show "decodes_to (case p of (level, n) \<Rightarrow> EncodeVarint32 kDeletedFile @
        EncodeVarint32 (word_of_int level) @ EncodeVarint64 n) (deleted_effect p)"
      using edit_okD(4) [OF assms] p decodes_deleted [of "fst p" "snd p"] by (simp add: split_beta)
  qed
  show ?thesis
    unfolding counter_bytes_def
    by (rule decodes_cong [OF decodes_append [OF s1 decodes_append [OF s2 decodes_append [OF s3
        decodes_append [OF s4 decodes_append [OF s5 decodes_append [OF s6 decodes_append [OF s7 s8]]]]]]]])
      (simp add: counters_effect_def deleted_fold)
qed

text \<open>The files: the number of the oldest log is read with the first of them.\<close>

fun file_bytes :: "(int \<times> FileMetaData) list \<Rightarrow> u64 option \<Rightarrow> bytes" where
  "file_bytes [] ml = []"
| "file_bytes ((level, f) # fs) ml =
     (EncodeVarint32 kNewFile4 @ new_file_body level f ml) @ file_bytes fs None"

lemma EncodeNewFiles_bytes:
  "(\<forall>p \<in> set fs. file_ok p) \<Longrightarrow> EncodeNewFiles dst fs ml = (True, dst @ file_bytes fs ml)"
  by (induction dst fs ml rule: EncodeNewFiles.induct) (auto simp: file_ok_def EncodeNewFile4_body)

definition files_effect :: "(int \<times> FileMetaData) list \<Rightarrow> u64 option \<Rightarrow> VersionEdit \<Rightarrow> VersionEdit" where
  "files_effect fs ml x =
     x\<lparr>ve_max_level := foldl max (ve_max_level x) (map fst fs), ve_new_files := ve_new_files x @ fs,
       ve_has_min_log_number_to_keep := (fs \<noteq> [] \<and> ml \<noteq> None) \<or> ve_has_min_log_number_to_keep x,
       ve_min_log_number_to_keep := (if fs \<noteq> [] \<and> ml \<noteq> None then the ml else ve_min_log_number_to_keep x)\<rparr>"

lemma decodes_files:
  "(\<forall>p \<in> set fs. file_ok p) \<Longrightarrow> decodes_to (file_bytes fs ml) (files_effect fs ml)"
proof (induction fs ml rule: file_bytes.induct)
  case (1 ml)
  show ?case using decodes_nil by (auto simp: files_effect_def intro: decodes_cong)
next
  case (2 level f fs ml)
  have "decodes_to ((EncodeVarint32 kNewFile4 @ new_file_body level f ml) @ file_bytes fs None)
      (\<lambda>e. files_effect fs None (file_effect (level, f) (min_log_effect ml e)))"
    using 2 by (intro decodes_append decodes_new_file) auto
  then show ?case
    unfolding file_bytes.simps
    by (rule decodes_cong)
      (auto simp: files_effect_def file_effect_def min_log_effect_def SetMinLogNumberToKeep_def
        split: option.splits)
qed

definition rest_bytes :: "VersionEdit \<Rightarrow> bytes" where
  "rest_bytes e =
     concat (map (\<lambda>b. EncodeVarint32 kBlobFileAddition @ BlobFileAdditionEncodeTo [] b)
       (ve_blob_file_additions e)) @
     concat (map (\<lambda>b. EncodeVarint32 kBlobFileGarbage @ BlobFileGarbageEncodeTo [] b)
       (ve_blob_file_garbages e)) @
     concat (map (\<lambda>w. EncodeVarint32 kWalAddition @ WalAdditionEncodeTo [] w) (ve_wal_additions e)) @
     (if ve_wal_deletion e \<noteq> 0
      then EncodeVarint32 kWalDeletion @ EncodeVarint64 (ve_wal_deletion e) else []) @
     (if ve_column_family e \<noteq> 0
      then EncodeVarint32 kColumnFamily @ EncodeVarint32 (ve_column_family e) else []) @
     (if ve_is_column_family_add e
      then EncodeVarint32 kColumnFamilyAdd @ lp (ve_column_family_name e) else []) @
     (if ve_is_column_family_drop e then EncodeVarint32 kColumnFamilyDrop else []) @
     (if ve_is_in_atomic_group e
      then EncodeVarint32 kInAtomicGroup @ EncodeVarint32 (ve_remaining_entries e) else []) @
     (if ve_is_log_secret e
      then EncodeVarint32 kLogkeyAndHash @ EncodeFixed64 (ls_log_num (ve_log_secret e)) @
        lp (ls_unique_key (ve_log_secret e)) @ lp (ls_unique_hash (ve_log_secret e)) else []) @
     (if ve_is_sst_key e
      then EncodeVarint32 kSSTAdd @ EncodeFixed64 (ve_sst_file_number e) @ lp (ve_sst_key e) else []) @
     (if ve_is_sst_delete e
      then EncodeVarint32 kSSTDelete @ EncodeFixed64 (ve_sst_delete_file_number e) else [])"

lemma EncodeRest_bytes:
  "EncodeSecrets (EncodeColumnFamily (EncodeBlobsAndWals dst e) e) e = dst @ rest_bytes e"
proof -
  have f: "(\<lambda>dst b. BlobFileAdditionEncodeTo (PutVarint32 dst kBlobFileAddition) b) =
      (\<lambda>dst b. dst @ (EncodeVarint32 kBlobFileAddition @ BlobFileAdditionEncodeTo [] b))"
    "(\<lambda>dst b. BlobFileGarbageEncodeTo (PutVarint32 dst kBlobFileGarbage) b) =
      (\<lambda>dst b. dst @ (EncodeVarint32 kBlobFileGarbage @ BlobFileGarbageEncodeTo [] b))"
    "(\<lambda>dst w. WalAdditionEncodeTo (PutVarint32 dst kWalAddition) w) =
      (\<lambda>dst w. dst @ (EncodeVarint32 kWalAddition @ WalAdditionEncodeTo [] w))"
    by (subst BlobFileAdditionEncodeTo_append BlobFileGarbageEncodeTo_append
        WalAdditionEncodeTo_append, simp add: put_defs)+
  have b: "EncodeBlobsAndWals dst e = dst @
     concat (map (\<lambda>b. EncodeVarint32 kBlobFileAddition @ BlobFileAdditionEncodeTo [] b)
       (ve_blob_file_additions e)) @
     concat (map (\<lambda>b. EncodeVarint32 kBlobFileGarbage @ BlobFileGarbageEncodeTo [] b)
       (ve_blob_file_garbages e)) @
     concat (map (\<lambda>w. EncodeVarint32 kWalAddition @ WalAdditionEncodeTo [] w) (ve_wal_additions e)) @
     (if ve_wal_deletion e \<noteq> 0
      then EncodeVarint32 kWalDeletion @ EncodeVarint64 (ve_wal_deletion e) else [])" for dst
    unfolding EncodeBlobsAndWals_def f foldl_appends
    by (simp add: Let_def WalDeletionIsEmpty_def WalDeletionEncodeTo_def put_defs)
  show ?thesis
    unfolding EncodeSecrets_def EncodeColumnFamily_def b rest_bytes_def
    by (simp add: Let_def if_put split del: if_split)
qed

definition rest_effect :: "VersionEdit \<Rightarrow> VersionEdit \<Rightarrow> VersionEdit" where
  "rest_effect e x =
     x\<lparr>ve_blob_file_additions := ve_blob_file_additions x @ ve_blob_file_additions e,
       ve_blob_file_garbages := ve_blob_file_garbages x @ ve_blob_file_garbages e,
       ve_wal_additions := ve_wal_additions x @ ve_wal_additions e,
       ve_wal_deletion := (if ve_wal_deletion e \<noteq> 0 then ve_wal_deletion e else ve_wal_deletion x),
       ve_column_family := (if ve_column_family e \<noteq> 0 then ve_column_family e else ve_column_family x),
       ve_is_column_family_add := ve_is_column_family_add e \<or> ve_is_column_family_add x,
       ve_column_family_name :=
         (if ve_is_column_family_add e then ve_column_family_name e else ve_column_family_name x),
       ve_is_column_family_drop := ve_is_column_family_drop e \<or> ve_is_column_family_drop x,
       ve_is_in_atomic_group := ve_is_in_atomic_group e \<or> ve_is_in_atomic_group x,
       ve_remaining_entries :=
         (if ve_is_in_atomic_group e then ve_remaining_entries e else ve_remaining_entries x),
       ve_is_log_secret := ve_is_log_secret e \<or> ve_is_log_secret x,
       ve_log_secret := (if ve_is_log_secret e then ve_log_secret e else ve_log_secret x),
       ve_is_sst_key := ve_is_sst_key e \<or> ve_is_sst_key x,
       ve_sst_file_number := (if ve_is_sst_key e then ve_sst_file_number e else ve_sst_file_number x),
       ve_sst_key := (if ve_is_sst_key e then ve_sst_key e else ve_sst_key x),
       ve_is_sst_delete := ve_is_sst_delete e \<or> ve_is_sst_delete x,
       ve_sst_delete_file_number :=
         (if ve_is_sst_delete e then ve_sst_delete_file_number e else ve_sst_delete_file_number x)\<rparr>"

lemma object_folds:
  "foldl (\<lambda>x b. AddBlobFile b x) x bs = x\<lparr>ve_blob_file_additions := ve_blob_file_additions x @ bs\<rparr>"
  "foldl (\<lambda>x g. AddBlobFileGarbage g x) x gs = x\<lparr>ve_blob_file_garbages := ve_blob_file_garbages x @ gs\<rparr>"
  "foldl (\<lambda>x w. VersionAddWal w x) x ws = x\<lparr>ve_wal_additions := ve_wal_additions x @ ws\<rparr>"
proof -
  show "foldl (\<lambda>x b. AddBlobFile b x) x bs = x\<lparr>ve_blob_file_additions := ve_blob_file_additions x @ bs\<rparr>"
    by (induction bs arbitrary: x) (simp_all add: AddBlobFile_def)
  show "foldl (\<lambda>x g. AddBlobFileGarbage g x) x gs = x\<lparr>ve_blob_file_garbages := ve_blob_file_garbages x @ gs\<rparr>"
    by (induction gs arbitrary: x) (simp_all add: AddBlobFileGarbage_def)
  show "foldl (\<lambda>x w. VersionAddWal w x) x ws = x\<lparr>ve_wal_additions := ve_wal_additions x @ ws\<rparr>"
    by (induction ws arbitrary: x) (simp_all add: VersionAddWal_def)
qed

lemma decodes_rest:
  assumes "edit_ok garbage e"
  shows "decodes_to (rest_bytes e) (rest_effect e)"
proof -
  have r1: "decodes_to (concat (map (\<lambda>b. EncodeVarint32 kBlobFileAddition @ BlobFileAdditionEncodeTo [] b)
      (ve_blob_file_additions e))) (\<lambda>x. foldl (\<lambda>x b. AddBlobFile b x) x (ve_blob_file_additions e))"
    using edit_okD(7) [OF assms]
    by (intro decodes_list decodes_object [OF tag_cases(10)] BlobFileAddition_roundtrip) auto
  have r2: "decodes_to (concat (map (\<lambda>b. EncodeVarint32 kBlobFileGarbage @ BlobFileGarbageEncodeTo [] b)
      (ve_blob_file_garbages e))) (\<lambda>x. foldl (\<lambda>x b. AddBlobFileGarbage b x) x (ve_blob_file_garbages e))"
    by (intro decodes_list decodes_object [OF tag_cases(11)] BlobFileGarbage_roundtrip)
  have r3: "decodes_to (concat (map (\<lambda>w. EncodeVarint32 kWalAddition @ WalAdditionEncodeTo [] w)
      (ve_wal_additions e))) (\<lambda>x. foldl (\<lambda>x w. VersionAddWal w x) x (ve_wal_additions e))"
    by (intro decodes_list decodes_object [OF tag_cases(12)] WalAddition_roundtrip)
  have r4: "decodes_to (if ve_wal_deletion e \<noteq> 0
      then EncodeVarint32 kWalDeletion @ EncodeVarint64 (ve_wal_deletion e) else [])
      (\<lambda>x. x\<lparr>ve_wal_deletion := (if ve_wal_deletion e \<noteq> 0 then ve_wal_deletion e else ve_wal_deletion x)\<rparr>)"
    by (rule decodes_if [OF decodes_object [OF tag_cases(13) WalDeletion_roundtrip
          [unfolded WalDeletionEncodeTo_def put_defs append_Nil]]])
      (simp_all add: VersionDeleteWalsBefore_def)
  have r5: "decodes_to (if ve_column_family e \<noteq> 0
      then EncodeVarint32 kColumnFamily @ EncodeVarint32 (ve_column_family e) else [])
      (\<lambda>x. x\<lparr>ve_column_family := (if ve_column_family e \<noteq> 0 then ve_column_family e else ve_column_family x)\<rparr>)"
    by (rule decodes_if [OF decodes_field [OF varint32.codec_axioms TrueI tag_cases(14)]])
      (simp_all add: SetColumnFamily_def)
  have r6: "decodes_to (if ve_is_column_family_add e
      then EncodeVarint32 kColumnFamilyAdd @ lp (ve_column_family_name e) else [])
      (\<lambda>x. x\<lparr>ve_is_column_family_add := ve_is_column_family_add e \<or> ve_is_column_family_add x,
        ve_column_family_name :=
          (if ve_is_column_family_add e then ve_column_family_name e else ve_column_family_name x)\<rparr>)"
    by (rule decodes_if [OF decodes_string [OF tag_cases(15) edit_okD(3) [OF assms]]])
      (simp_all add: AddColumnFamily_def)
  have r7: "decodes_to (if ve_is_column_family_drop e then EncodeVarint32 kColumnFamilyDrop else [])
      (\<lambda>x. x\<lparr>ve_is_column_family_drop := ve_is_column_family_drop e \<or> ve_is_column_family_drop x\<rparr>)"
    by (rule decodes_if [OF decodes_drop]) (simp_all add: DropColumnFamily_def)
  have r8: "decodes_to (if ve_is_in_atomic_group e
      then EncodeVarint32 kInAtomicGroup @ EncodeVarint32 (ve_remaining_entries e) else [])
      (\<lambda>x. x\<lparr>ve_is_in_atomic_group := ve_is_in_atomic_group e \<or> ve_is_in_atomic_group x,
        ve_remaining_entries :=
          (if ve_is_in_atomic_group e then ve_remaining_entries e else ve_remaining_entries x)\<rparr>)"
    by (rule decodes_if [OF decodes_atomic]) (simp_all add: MarkAtomicGroup_def)
  have r9: "decodes_to (if ve_is_log_secret e
      then EncodeVarint32 kLogkeyAndHash @ EncodeFixed64 (ls_log_num (ve_log_secret e)) @
        lp (ls_unique_key (ve_log_secret e)) @ lp (ls_unique_hash (ve_log_secret e)) else [])
      (\<lambda>x. x\<lparr>ve_is_log_secret := ve_is_log_secret e \<or> ve_is_log_secret x,
        ve_log_secret := (if ve_is_log_secret e then ve_log_secret e else ve_log_secret x)\<rparr>)"
    by (rule decodes_if [OF decodes_log_secret [OF edit_okD(8,9) [OF assms]]]) simp_all
  have r10: "decodes_to (if ve_is_sst_key e
      then EncodeVarint32 kSSTAdd @ EncodeFixed64 (ve_sst_file_number e) @ lp (ve_sst_key e) else [])
      (\<lambda>x. x\<lparr>ve_is_sst_key := ve_is_sst_key e \<or> ve_is_sst_key x,
        ve_sst_file_number := (if ve_is_sst_key e then ve_sst_file_number e else ve_sst_file_number x),
        ve_sst_key := (if ve_is_sst_key e then ve_sst_key e else ve_sst_key x)\<rparr>)"
    by (rule decodes_if [OF decodes_sst_add [OF edit_okD(10) [OF assms]]]) simp_all
  have r11: "decodes_to (if ve_is_sst_delete e
      then EncodeVarint32 kSSTDelete @ EncodeFixed64 (ve_sst_delete_file_number e) else [])
      (\<lambda>x. x\<lparr>ve_is_sst_delete := ve_is_sst_delete e \<or> ve_is_sst_delete x,
        ve_sst_delete_file_number :=
          (if ve_is_sst_delete e then ve_sst_delete_file_number e else ve_sst_delete_file_number x)\<rparr>)"
    by (rule decodes_if [OF decodes_sst_delete]) (simp_all add: DeleteSSTKey_def)
  show ?thesis
    unfolding rest_bytes_def
    by (rule decodes_cong [OF decodes_append [OF r1 decodes_append [OF r2 decodes_append [OF r3
        decodes_append [OF r4 decodes_append [OF r5 decodes_append [OF r6 decodes_append [OF r7
        decodes_append [OF r8 decodes_append [OF r9 decodes_append [OF r10 r11]]]]]]]]]]])
      (simp add: rest_effect_def object_folds)
qed

section \<open>The round trip\<close>

lemma set_insert_last: "\<forall>y \<in> set ys. y < x \<Longrightarrow> set_insert x ys = ys @ [x]"
  by (induction ys) (auto dest: less_asym)

lemma set_insert_fold:
  "sorted_wrt (<) (ys @ xs) \<Longrightarrow> foldl (\<lambda>s p. set_insert p s) ys xs = ys @ xs"
proof (induction xs arbitrary: ys)
  case (Cons x xs)
  then have "set_insert x ys = ys @ [x]" by (intro set_insert_last) (auto simp: sorted_wrt_append)
  then show ?case using Cons by simp
qed simp

definition highest_level :: "VersionEdit \<Rightarrow> int" where
  "highest_level e = foldl max 0 (map fst (ve_deleted_files e) @ map fst (ve_new_files e))"

text \<open>What the first part of an edit leaves in a cleared one.\<close>

lemma cleared_counters:
  assumes "edit_ok garbage e"
  shows "counters_effect e (Clear (NewVersionEdit garbage)) =
    \<lparr>ve_max_level = foldl max 0 (map fst (ve_deleted_files e)), ve_db_id = ve_db_id e,
      ve_comparator = ve_comparator e, ve_log_number = ve_log_number e,
      ve_prev_log_number = ve_prev_log_number e, ve_next_file_number = ve_next_file_number e,
      ve_max_column_family = ve_max_column_family e, ve_min_log_number_to_keep = 0,
      ve_last_sequence = ve_last_sequence e, ve_has_db_id = ve_has_db_id e,
      ve_has_comparator = ve_has_comparator e, ve_has_log_number = ve_has_log_number e,
      ve_has_prev_log_number = ve_has_prev_log_number e,
      ve_has_next_file_number = ve_has_next_file_number e,
      ve_has_max_column_family = ve_has_max_column_family e,
      ve_has_min_log_number_to_keep = False, ve_has_last_sequence = ve_has_last_sequence e,
      ve_deleted_files = ve_deleted_files e, ve_new_files = [], ve_blob_file_additions = [],
      ve_blob_file_garbages = [], ve_wal_additions = [], ve_wal_deletion = 0, ve_column_family = 0,
      ve_is_column_family_drop = False, ve_is_column_family_add = False,
      ve_column_family_name = [], ve_is_in_atomic_group = False, ve_remaining_entries = 0,
      ve_is_log_secret = False, ve_log_secret = ve_log_secret garbage, ve_is_sst_key = False,
      ve_sst_key = ve_sst_key garbage, ve_sst_file_number = ve_sst_file_number garbage,
      ve_is_sst_delete = False, ve_sst_delete_file_number = ve_sst_delete_file_number garbage\<rparr>"
proof -
  have "foldl (\<lambda>s p. set_insert p s) [] (ve_deleted_files e) = ve_deleted_files e"
    using set_insert_fold [of "[]" "ve_deleted_files e"] edit_okD(5) [OF assms] by simp
  then show ?thesis
    by (cases garbage)
      (simp only: counters_effect_def Clear_def NewVersionEdit_def VersionEdit.simps if_False
        if_True simp_thms edit_ok_absent(1-13) [OF assms])
qed

text \<open>Decoding the fields of an edit into a cleared one gives the edit back.\<close>

lemma decoded_edit_fields:
  assumes "edit_ok garbage e"
  shows "rest_effect e (files_effect (ve_new_files e)
      (if ve_has_min_log_number_to_keep e then Some (ve_min_log_number_to_keep e) else None)
      (counters_effect e (Clear (NewVersionEdit garbage)))) = e\<lparr>ve_max_level := highest_level e\<rparr>"
    (is "rest_effect e (files_effect _ ?ml _) = _")
proof -
  note absent = edit_ok_absent [OF assms]
  have ml: "(ve_new_files e \<noteq> [] \<and> ?ml \<noteq> None) = ve_has_min_log_number_to_keep e"
    "(if ve_has_min_log_number_to_keep e then the ?ml else 0) = ve_min_log_number_to_keep e"
    using absent(14,15) by auto
  have nonzero: "(if w \<noteq> 0 then w else 0) = w" for w :: "'a::zero" by simp
  show ?thesis
    unfolding cleared_counters [OF assms] files_effect_def rest_effect_def
    by (rule VersionEdit.equality)
      (simp_all only: VersionEdit.simps simp_thms highest_level_def append_Nil foldl_append
        absent(1-13) ml nonzero, simp_all)
qed

lemma VersionEdit_roundtrip:
  assumes "edit_ok garbage e"
  shows "\<exists>data. VersionEditEncodeTo [] e = (True, data) \<and>
    VersionEditDecodeFrom (NewVersionEdit garbage) data = Ok (StatusOK, e\<lparr>ve_max_level := highest_level e\<rparr>)"
proof -
  let ?ml = "if ve_has_min_log_number_to_keep e then Some (ve_min_log_number_to_keep e) else None"
  let ?data = "counter_bytes e @ file_bytes (ve_new_files e) ?ml @ rest_bytes e"
  let ?f = "\<lambda>x. rest_effect e (files_effect (ve_new_files e) ?ml (counters_effect e x))"
  have enc: "VersionEditEncodeTo [] e = (True, ?data)"
    by (simp add: VersionEditEncodeTo_def EncodeNewFiles_bytes [OF edit_okD(6) [OF assms]]
        EncodeCounters_bytes EncodeRest_bytes split del: if_split)
  have "decodes_to ?data ?f"
    by (rule decodes_cong [OF decodes_append [OF decodes_counters [OF assms]
        decodes_append [OF decodes_files [OF edit_okD(6) [OF assms]] decodes_rest [OF assms]]]]) simp
  then obtain str' where "DecodeLoop (Clear (NewVersionEdit garbage)) [] (?data @ []) =
      DecodeLoop (?f (Clear (NewVersionEdit garbage))) str' []"
    unfolding decodes_to_def by blast
  moreover have "GetVarint32 [] = (None, [])"
    by (simp add: GetVarint32_def GetVarint32Ptr_def GetVarint32PtrFallback.simps)
  ultimately have dec: "VersionEditDecodeFrom (NewVersionEdit garbage) ?data =
      Ok (StatusOK, ?f (Clear (NewVersionEdit garbage)))"
    by (simp add: VersionEditDecodeFrom_def DecodeLoop.simps [of _ _ "[]"])
  have "?f (Clear (NewVersionEdit garbage)) = e\<lparr>ve_max_level := highest_level e\<rparr>"
    by (rule decoded_edit_fields [OF assms])
  then show ?thesis using enc dec by metis
qed

end
