(* ===== verification/Version_Builder.thy ===== *)
theory Version_Builder
  imports Version_Edit "HOL-Library.AList" "HOL-Library.Multiset"
begin

text \<open>
  The files of a version (\<open>VersionStorageInfo\<close> of \<open>db/version_set.h\<close> and \<open>db/version_set.cc\<close>,
  \<open>db/blob/blob_file_meta.h\<close>) and the builder that applies version edits to them
  (\<open>db/version_builder.cc\<close>). Statistics and reference counts are left out, as is the opening of the
  table files. A file of the base version and a file that an edit added are different objects, even
  under the same number.
\<close>

section \<open>The files of a version\<close>

record SharedBlobFileMetaData =
  sb_blob_file_number :: u64
  sb_total_blob_count :: u64
  sb_total_blob_bytes :: u64
  sb_checksum_method :: bytes
  sb_checksum_value :: bytes

record BlobFileMetaData =
  bm_shared_meta :: SharedBlobFileMetaData
  bm_linked_ssts :: "u64 set"
  bm_garbage_blob_count :: u64
  bm_garbage_blob_bytes :: u64

text \<open>
  The files of each level, where they are (level and position), the blob files in the order of their
  numbers, and the option that turns the checks on.
\<close>

record VersionStorageInfo =
  vs_files :: "FileMetaData list list"
  vs_file_locations :: "u64 \<rightharpoonup> nat \<times> nat"
  vs_blob_files :: "(u64 \<times> BlobFileMetaData) list"
  vs_force_consistency_checks :: bool

abbreviation file_number :: "FileMetaData \<Rightarrow> u64" where
  "file_number f \<equiv> GetNumber (fm_fd f)"

definition NewVersionStorageInfo :: "nat \<Rightarrow> bool \<Rightarrow> VersionStorageInfo" where
  "NewVersionStorageInfo levels force =
     \<lparr>vs_files = replicate levels [], vs_file_locations = Map.empty, vs_blob_files = [],
      vs_force_consistency_checks = force\<rparr>"

definition StorageAddFile :: "nat \<Rightarrow> FileMetaData \<Rightarrow> VersionStorageInfo \<Rightarrow> VersionStorageInfo" where
  "StorageAddFile level f v =
     (let level_files = vs_files v ! level @ [f]; n = file_number f
      in v\<lparr>vs_files := (vs_files v)[level := level_files],
           vs_file_locations :=
             (case vs_file_locations v n of
                None \<Rightarrow> (vs_file_locations v)(n \<mapsto> (level, length level_files - 1))
              | Some _ \<Rightarrow> vs_file_locations v)\<rparr>)"

text \<open>A map in the order of its keys: insertion that keeps what is there, and \<open>operator[]\<close>.\<close>

fun omap_insert :: "'k::linorder \<Rightarrow> 'v \<Rightarrow> ('k \<times> 'v) list \<Rightarrow> ('k \<times> 'v) list" where
  "omap_insert k v [] = [(k, v)]"
| "omap_insert k v ((k', v') # m) =
     (if k < k' then (k, v) # (k', v') # m else if k = k' then (k', v') # m
      else (k', v') # omap_insert k v m)"

fun omap_update :: "'k::linorder \<Rightarrow> ('v \<Rightarrow> 'v) \<Rightarrow> 'v \<Rightarrow> ('k \<times> 'v) list \<Rightarrow> ('k \<times> 'v) list" where
  "omap_update k upd v0 [] = [(k, upd v0)]"
| "omap_update k upd v0 ((k', v') # m) =
     (if k < k' then (k, upd v0) # (k', v') # m else if k = k' then (k', upd v') # m
      else (k', v') # omap_update k upd v0 m)"

definition StorageAddBlobFile :: "BlobFileMetaData \<Rightarrow> VersionStorageInfo \<Rightarrow> VersionStorageInfo" where
  "StorageAddBlobFile m v =
     v\<lparr>vs_blob_files := omap_insert (sb_blob_file_number (bm_shared_meta m)) m (vs_blob_files v)\<rparr>"

definition GetFileLocationLevel :: "u64 \<Rightarrow> VersionStorageInfo \<Rightarrow> int" where
  "GetFileLocationLevel n v = (case vs_file_locations v n of None \<Rightarrow> -1 | Some (level, _) \<Rightarrow> int level)"

definition GetFileMetaDataByNumber :: "u64 \<Rightarrow> VersionStorageInfo \<Rightarrow> FileMetaData option" where
  "GetFileMetaDataByNumber n v =
     (case vs_file_locations v n of
        None \<Rightarrow> None | Some (level, position) \<Rightarrow> Some (vs_files v ! level ! position))"

section \<open>The order of files\<close>

definition NewestFirstBySeqNo :: "FileMetaData \<Rightarrow> FileMetaData \<Rightarrow> bool" where
  "NewestFirstBySeqNo a b =
     (if fd_largest_seqno (fm_fd a) \<noteq> fd_largest_seqno (fm_fd b)
      then fd_largest_seqno (fm_fd a) > fd_largest_seqno (fm_fd b)
      else if fd_smallest_seqno (fm_fd a) \<noteq> fd_smallest_seqno (fm_fd b)
      then fd_smallest_seqno (fm_fd a) > fd_smallest_seqno (fm_fd b)
      else file_number a > file_number b)"

definition BySmallestKey :: "(bytes \<Rightarrow> bytes \<Rightarrow> int) \<Rightarrow> FileMetaData \<Rightarrow> FileMetaData \<Rightarrow> bool" where
  "BySmallestKey cmp a b =
     (let r = cmp (fm_smallest a) (fm_smallest b)
      in if r \<noteq> 0 then r < 0 else file_number a < file_number b)"

definition FileComparator :: "(bytes \<Rightarrow> bytes \<Rightarrow> int) \<Rightarrow> nat \<Rightarrow> FileMetaData \<Rightarrow> FileMetaData \<Rightarrow> bool" where
  "FileComparator icmp level = (if level = 0 then NewestFirstBySeqNo else BySmallestKey icmp)"

section \<open>The builder\<close>

record BlobFileMetaDataDelta =
  bd_shared_meta :: "SharedBlobFileMetaData option"
  bd_additional_garbage_count :: u64
  bd_additional_garbage_bytes :: u64
  bd_newly_linked_ssts :: "u64 set"
  bd_newly_unlinked_ssts :: "u64 set"

definition NewBlobFileMetaDataDelta :: BlobFileMetaDataDelta where
  "NewBlobFileMetaDataDelta =
     \<lparr>bd_shared_meta = None, bd_additional_garbage_count = 0, bd_additional_garbage_bytes = 0,
      bd_newly_linked_ssts = {}, bd_newly_unlinked_ssts = {}\<rparr>"

definition DeltaIsEmpty :: "BlobFileMetaDataDelta \<Rightarrow> bool" where
  "DeltaIsEmpty d \<longleftrightarrow>
     bd_shared_meta d = None \<and> bd_additional_garbage_count d = 0 \<and>
     bd_additional_garbage_bytes d = 0 \<and> bd_newly_linked_ssts d = {} \<and> bd_newly_unlinked_ssts d = {}"

definition AddGarbage :: "u64 \<Rightarrow> u64 \<Rightarrow> BlobFileMetaDataDelta \<Rightarrow> BlobFileMetaDataDelta" where
  "AddGarbage blobs size_of_blobs d =
     d\<lparr>bd_additional_garbage_count := bd_additional_garbage_count d + blobs,
       bd_additional_garbage_bytes := bd_additional_garbage_bytes d + size_of_blobs\<rparr>"

definition LinkSst :: "u64 \<Rightarrow> BlobFileMetaDataDelta \<Rightarrow> BlobFileMetaDataDelta" where
  "LinkSst n d =
     (if n \<in> bd_newly_unlinked_ssts d
      then d\<lparr>bd_newly_unlinked_ssts := bd_newly_unlinked_ssts d - {n}\<rparr>
      else d\<lparr>bd_newly_linked_ssts := insert n (bd_newly_linked_ssts d)\<rparr>)"

definition UnlinkSst :: "u64 \<Rightarrow> BlobFileMetaDataDelta \<Rightarrow> BlobFileMetaDataDelta" where
  "UnlinkSst n d =
     (if n \<in> bd_newly_linked_ssts d
      then d\<lparr>bd_newly_linked_ssts := bd_newly_linked_ssts d - {n}\<rparr>
      else d\<lparr>bd_newly_unlinked_ssts := insert n (bd_newly_unlinked_ssts d)\<rparr>)"

record LevelState =
  ls_deleted_files :: "u64 set"
  ls_added_files :: "(u64 \<times> FileMetaData) list"

record VersionBuilder =
  vb_base :: VersionStorageInfo
  vb_levels :: "LevelState list"
  vb_invalid_level_sizes :: "(int \<times> u64) list"
  vb_has_invalid_levels :: bool
  vb_table_file_levels :: "u64 \<rightharpoonup> int"
  vb_blob_deltas :: "(u64 \<times> BlobFileMetaDataDelta) list"

definition NewVersionBuilder :: "VersionStorageInfo \<Rightarrow> VersionBuilder" where
  "NewVersionBuilder base =
     \<lparr>vb_base = base,
      vb_levels = replicate (length (vs_files base)) \<lparr>ls_deleted_files = {}, ls_added_files = []\<rparr>,
      vb_invalid_level_sizes = [], vb_has_invalid_levels = False,
      vb_table_file_levels = Map.empty, vb_blob_deltas = []\<rparr>"

abbreviation num_levels :: "VersionBuilder \<Rightarrow> nat" where
  "num_levels b \<equiv> length (vb_levels b)"

definition IsBlobFileInVersion :: "u64 \<Rightarrow> VersionBuilder \<Rightarrow> bool" where
  "IsBlobFileInVersion n b \<longleftrightarrow>
     (case map_of (vb_blob_deltas b) n of Some d \<Rightarrow> bd_shared_meta d \<noteq> None | None \<Rightarrow> False) \<or>
     map_of (vs_blob_files (vb_base b)) n \<noteq> None"

subsection \<open>Consistency checks\<close>

definition UpdateExpectedLinkedSsts ::
    "FileMetaData \<Rightarrow> (u64 \<Rightarrow> u64 set) \<Rightarrow> (u64 \<Rightarrow> u64 set)" where
  "UpdateExpectedLinkedSsts f expected =
     (let blob_file_number = fm_oldest_blob_file_number f
      in if blob_file_number = kInvalidBlobFileNumber then expected
         else expected(blob_file_number := insert (file_number f) (expected blob_file_number)))"

definition CheckPair :: "(bytes \<Rightarrow> bytes \<Rightarrow> int) \<Rightarrow> nat \<Rightarrow> FileMetaData \<Rightarrow> FileMetaData \<Rightarrow> bool" where
  "CheckPair icmp level f1 f2 \<longleftrightarrow>
     FileComparator icmp level f1 f2 \<and>
     (if level = 0 then
        (if fd_smallest_seqno (fm_fd f2) = fd_largest_seqno (fm_fd f2) then
           fd_smallest_seqno (fm_fd f2) < fd_largest_seqno (fm_fd f1) \<or> fd_smallest_seqno (fm_fd f2) = 0
         else \<not> fd_smallest_seqno (fm_fd f1) \<le> fd_smallest_seqno (fm_fd f2))
      else \<not> icmp (fm_largest f1) (fm_smallest f2) \<ge> 0)"

fun CheckLevel :: "(bytes \<Rightarrow> bytes \<Rightarrow> int) \<Rightarrow> nat \<Rightarrow> FileMetaData list \<Rightarrow> (u64 \<Rightarrow> u64 set) \<Rightarrow>
    status \<times> (u64 \<Rightarrow> u64 set)" where
  "CheckLevel icmp level [] expected = (StatusOK, expected)"
| "CheckLevel icmp level [f] expected = (StatusOK, UpdateExpectedLinkedSsts f expected)"
| "CheckLevel icmp level (f1 # f2 # fs) expected =
     (if CheckPair icmp level f1 f2
      then CheckLevel icmp level (f2 # fs) (UpdateExpectedLinkedSsts f1 expected)
      else (Corruption, expected))"

fun CheckLevels :: "(bytes \<Rightarrow> bytes \<Rightarrow> int) \<Rightarrow> nat \<Rightarrow> FileMetaData list list \<Rightarrow> (u64 \<Rightarrow> u64 set) \<Rightarrow>
    status \<times> (u64 \<Rightarrow> u64 set)" where
  "CheckLevels icmp level [] expected = (StatusOK, expected)"
| "CheckLevels icmp level (fs # rest) expected =
     (case CheckLevel icmp level fs expected of
        (s, expected) \<Rightarrow>
          if s \<noteq> StatusOK then (s, expected) else CheckLevels icmp (Suc level) rest expected)"

definition CheckBlobFile :: "(u64 \<Rightarrow> u64 set) \<Rightarrow> u64 \<times> BlobFileMetaData \<Rightarrow> bool" where
  "CheckBlobFile expected p \<longleftrightarrow>
     (case p of (n, m) \<Rightarrow>
        \<not> bm_garbage_blob_count m \<ge> sb_total_blob_count (bm_shared_meta m) \<and>
        bm_linked_ssts m = expected n)"

definition CheckConsistencyDetails ::
    "(bytes \<Rightarrow> bytes \<Rightarrow> int) \<Rightarrow> nat \<Rightarrow> VersionStorageInfo \<Rightarrow> status" where
  "CheckConsistencyDetails icmp levels v =
     (case CheckLevels icmp 0 (take levels (vs_files v)) (\<lambda>_. {}) of
        (s, expected) \<Rightarrow>
          if s \<noteq> StatusOK then s
          else if list_all (CheckBlobFile expected) (vs_blob_files v) then StatusOK else Corruption)"

definition CheckConsistency ::
    "(bytes \<Rightarrow> bytes \<Rightarrow> int) \<Rightarrow> nat \<Rightarrow> VersionStorageInfo \<Rightarrow> status" where
  "CheckConsistency icmp levels v =
     (if \<not> vs_force_consistency_checks v then StatusOK else CheckConsistencyDetails icmp levels v)"

definition CheckConsistencyForNumLevels :: "VersionBuilder \<Rightarrow> bool" where
  "CheckConsistencyForNumLevels b \<longleftrightarrow>
     \<not> vb_has_invalid_levels b \<and> list_all (\<lambda>(_, level_size). level_size = 0) (vb_invalid_level_sizes b)"

subsection \<open>Applying an edit\<close>

text \<open>An early return: the next step runs only when the status is \<open>OK\<close>.\<close>

definition sbind :: "(status \<times> 'a) outcome \<Rightarrow> ('a \<Rightarrow> (status \<times> 'a) outcome) \<Rightarrow> (status \<times> 'a) outcome" where
  "sbind x f = obind x (\<lambda>(s, a). if s \<noteq> StatusOK then Ok (s, a) else f a)"

fun apply_all :: "('e \<Rightarrow> 'a \<Rightarrow> (status \<times> 'a) outcome) \<Rightarrow> 'e list \<Rightarrow> 'a \<Rightarrow> (status \<times> 'a) outcome" where
  "apply_all f [] a = Ok (StatusOK, a)"
| "apply_all f (e # es) a = sbind (f e a) (apply_all f es)"

definition update_delta :: "u64 \<Rightarrow> (BlobFileMetaDataDelta \<Rightarrow> BlobFileMetaDataDelta) \<Rightarrow>
    VersionBuilder \<Rightarrow> VersionBuilder" where
  "update_delta n upd b =
     b\<lparr>vb_blob_deltas := omap_update n upd NewBlobFileMetaDataDelta (vb_blob_deltas b)\<rparr>"

definition ApplyBlobFileAddition :: "BlobFileAddition \<Rightarrow> VersionBuilder \<Rightarrow> (status \<times> VersionBuilder) outcome" where
  "ApplyBlobFileAddition a b =
     (if IsBlobFileInVersion (ba_number a) b then Ok (Corruption, b)
      else
        (let shared_meta = \<lparr>sb_blob_file_number = ba_number a, sb_total_blob_count = ba_total_count a,
               sb_total_blob_bytes = ba_total_bytes a, sb_checksum_method = ba_checksum_method a,
               sb_checksum_value = ba_checksum_value a\<rparr>
         in Ok (StatusOK,
              update_delta (ba_number a) (\<lambda>d. d\<lparr>bd_shared_meta := Some shared_meta\<rparr>) b)))"

definition ApplyBlobFileGarbage :: "BlobFileGarbage \<Rightarrow> VersionBuilder \<Rightarrow> (status \<times> VersionBuilder) outcome" where
  "ApplyBlobFileGarbage g b =
     (if \<not> IsBlobFileInVersion (bg_number g) b then Ok (Corruption, b)
      else Ok (StatusOK, update_delta (bg_number g) (AddGarbage (bg_count g) (bg_bytes g)) b))"

definition GetCurrentLevelForTableFile :: "u64 \<Rightarrow> VersionBuilder \<Rightarrow> int" where
  "GetCurrentLevelForTableFile n b =
     (case vb_table_file_levels b n of
        Some level \<Rightarrow> level | None \<Rightarrow> GetFileLocationLevel n (vb_base b))"

text \<open>The state of a level; a level that is negative is outside the array.\<close>

definition level_state :: "int \<Rightarrow> VersionBuilder \<Rightarrow> LevelState outcome" where
  "level_state level b =
     (if 0 \<le> level \<and> level < int (num_levels b) then Ok (vb_levels b ! nat level) else Undef)"

definition GetOldestBlobFileNumberForTableFile :: "int \<Rightarrow> u64 \<Rightarrow> VersionBuilder \<Rightarrow> u64 outcome" where
  "GetOldestBlobFileNumberForTableFile level n b =
     obind (level_state level b) (\<lambda>ls.
       case map_of (ls_added_files ls) n of
         Some f \<Rightarrow> Ok (fm_oldest_blob_file_number f)
       | None \<Rightarrow>
           obind (of_opt (GetFileMetaDataByNumber n (vb_base b))) (\<lambda>f.
             Ok (fm_oldest_blob_file_number f)))"

definition invalid_level_size :: "int \<Rightarrow> VersionBuilder \<Rightarrow> u64" where
  "invalid_level_size level b =
     (case map_of (vb_invalid_level_sizes b) level of None \<Rightarrow> 0 | Some n \<Rightarrow> n)"

definition put_level :: "int \<Rightarrow> LevelState \<Rightarrow> u64 \<Rightarrow> int \<Rightarrow> VersionBuilder \<Rightarrow> VersionBuilder" where
  "put_level level ls n new_level b =
     b\<lparr>vb_levels := (vb_levels b)[nat level := ls],
       vb_table_file_levels := (vb_table_file_levels b)(n \<mapsto> new_level)\<rparr>"

definition ApplyFileDeletion :: "int \<times> u64 \<Rightarrow> VersionBuilder \<Rightarrow> (status \<times> VersionBuilder) outcome" where
  "ApplyFileDeletion p b =
     (case p of (level, n) \<Rightarrow>
        (let current_level = GetCurrentLevelForTableFile n b
         in if level \<noteq> current_level then
              Ok (Corruption,
                  if level \<ge> int (num_levels b) then b\<lparr>vb_has_invalid_levels := True\<rparr> else b)
            else if level \<ge> int (num_levels b) then
              Ok (StatusOK,
                  b\<lparr>vb_invalid_level_sizes :=
                      AList.update level (invalid_level_size level b - 1)
                        (vb_invalid_level_sizes b),
                    vb_table_file_levels := (vb_table_file_levels b)(n \<mapsto> -1)\<rparr>)
            else
              obind (GetOldestBlobFileNumberForTableFile level n b) (\<lambda>blob.
                let b = (if blob \<noteq> kInvalidBlobFileNumber \<and> IsBlobFileInVersion blob b
                         then update_delta blob (UnlinkSst n) b else b)
                in obind (level_state level b) (\<lambda>ls.
                     Ok (StatusOK,
                         put_level level
                           (ls\<lparr>ls_added_files := AList.delete n (ls_added_files ls),
                               ls_deleted_files := insert n (ls_deleted_files ls)\<rparr>) n (-1) b)))))"

definition ApplyFileAddition :: "int \<times> FileMetaData \<Rightarrow> VersionBuilder \<Rightarrow> (status \<times> VersionBuilder) outcome" where
  "ApplyFileAddition p b =
     (case p of (level, f) \<Rightarrow>
        (let n = file_number f; current_level = GetCurrentLevelForTableFile n b
         in if current_level \<noteq> -1 then
              Ok (Corruption,
                  if level \<ge> int (num_levels b) then b\<lparr>vb_has_invalid_levels := True\<rparr> else b)
            else if level \<ge> int (num_levels b) then
              Ok (StatusOK,
                  b\<lparr>vb_invalid_level_sizes :=
                      AList.update level (invalid_level_size level b + 1)
                        (vb_invalid_level_sizes b),
                    vb_table_file_levels := (vb_table_file_levels b)(n \<mapsto> level)\<rparr>)
            else
              obind (level_state level b) (\<lambda>ls.
                let added = ls_added_files ls;
                    ls = ls\<lparr>ls_deleted_files := ls_deleted_files ls - {n},
                            ls_added_files := (if map_of added n = None then (n, f) # added else added)\<rparr>;
                    blob = fm_oldest_blob_file_number f;
                    b = (if blob \<noteq> kInvalidBlobFileNumber \<and> IsBlobFileInVersion blob b
                         then update_delta blob (LinkSst n) b else b)
                in Ok (StatusOK, put_level level ls n level b))))"

definition BuilderApply ::
    "(bytes \<Rightarrow> bytes \<Rightarrow> int) \<Rightarrow> VersionEdit \<Rightarrow> VersionBuilder \<Rightarrow> (status \<times> VersionBuilder) outcome" where
  "BuilderApply icmp e b =
     sbind (Ok (CheckConsistency icmp (num_levels b) (vb_base b), b)) (\<lambda>b.
     sbind (apply_all ApplyBlobFileAddition (ve_blob_file_additions e) b) (\<lambda>b.
     sbind (apply_all ApplyBlobFileGarbage (ve_blob_file_garbages e) b) (\<lambda>b.
     sbind (apply_all ApplyFileDeletion (ve_deleted_files e) b) (\<lambda>b.
     apply_all ApplyFileAddition (ve_new_files e) b))))"

subsection \<open>Saving the result in a new version\<close>

definition ApplyLinkedSstChanges :: "u64 set \<Rightarrow> u64 set \<Rightarrow> u64 set \<Rightarrow> u64 set" where
  "ApplyLinkedSstChanges base newly_linked newly_unlinked = (base - newly_unlinked) \<union> newly_linked"

text \<open>A blob file that is new has shared metadata: a null pointer would be dereferenced.\<close>

definition CreateMetaDataForNewBlobFile :: "BlobFileMetaDataDelta \<Rightarrow> BlobFileMetaData outcome" where
  "CreateMetaDataForNewBlobFile d =
     obind (of_opt (bd_shared_meta d)) (\<lambda>shared_meta.
       Ok \<lparr>bm_shared_meta = shared_meta, bm_linked_ssts = bd_newly_linked_ssts d,
           bm_garbage_blob_count = bd_additional_garbage_count d,
           bm_garbage_blob_bytes = bd_additional_garbage_bytes d\<rparr>)"

definition GetOrCreateMetaDataForExistingBlobFile ::
    "BlobFileMetaData \<Rightarrow> BlobFileMetaDataDelta \<Rightarrow> BlobFileMetaData" where
  "GetOrCreateMetaDataForExistingBlobFile base_meta d =
     (if DeltaIsEmpty d then base_meta
      else \<lparr>bm_shared_meta = bm_shared_meta base_meta,
            bm_linked_ssts = ApplyLinkedSstChanges (bm_linked_ssts base_meta)
              (bd_newly_linked_ssts d) (bd_newly_unlinked_ssts d),
            bm_garbage_blob_count = bm_garbage_blob_count base_meta + bd_additional_garbage_count d,
            bm_garbage_blob_bytes = bm_garbage_blob_bytes base_meta + bd_additional_garbage_bytes d\<rparr>)"

text \<open>The flag says whether a blob file with linked table files has been met.\<close>

definition AddBlobFileIfNeeded ::
    "BlobFileMetaData \<Rightarrow> bool \<times> VersionStorageInfo \<Rightarrow> bool \<times> VersionStorageInfo" where
  "AddBlobFileIfNeeded m p =
     (case p of (found_first_non_empty, v) \<Rightarrow>
        if bm_linked_ssts m \<noteq> {} then (True, StorageAddBlobFile m v)
        else if \<not> found_first_non_empty \<or>
                bm_garbage_blob_count m \<ge> sb_total_blob_count (bm_shared_meta m)
        then (found_first_non_empty, v)
        else (found_first_non_empty, StorageAddBlobFile m v))"

fun SaveBlobFilesLoop :: "(u64 \<times> BlobFileMetaData) list \<Rightarrow> (u64 \<times> BlobFileMetaDataDelta) list \<Rightarrow>
    bool \<times> VersionStorageInfo \<Rightarrow> (bool \<times> VersionStorageInfo) outcome" where
  "SaveBlobFilesLoop [] [] p = Ok p"
| "SaveBlobFilesLoop ((n, m) # bs) [] p = SaveBlobFilesLoop bs [] (AddBlobFileIfNeeded m p)"
| "SaveBlobFilesLoop [] ((n, d) # ds) p =
     obind (CreateMetaDataForNewBlobFile d) (\<lambda>m. SaveBlobFilesLoop [] ds (AddBlobFileIfNeeded m p))"
| "SaveBlobFilesLoop ((n, m) # bs) ((n', d) # ds) p =
     (if n < n' then SaveBlobFilesLoop bs ((n', d) # ds) (AddBlobFileIfNeeded m p)
      else if n' < n then
        obind (CreateMetaDataForNewBlobFile d) (\<lambda>m'.
          SaveBlobFilesLoop ((n, m) # bs) ds (AddBlobFileIfNeeded m' p))
      else SaveBlobFilesLoop bs ds
             (AddBlobFileIfNeeded (GetOrCreateMetaDataForExistingBlobFile m d) p))"

definition SaveBlobFilesTo :: "VersionBuilder \<Rightarrow> VersionStorageInfo \<Rightarrow> VersionStorageInfo outcome" where
  "SaveBlobFilesTo b v =
     obind (SaveBlobFilesLoop (vs_blob_files (vb_base b)) (vb_blob_deltas b) (False, v)) (\<lambda>(_, v). Ok v)"

text \<open>
  A file of the base version gives way to an added file of its number; \<open>added\<close> tells the two kinds
  apart, as the pointers do.
\<close>

definition MaybeAddFile ::
    "LevelState \<Rightarrow> nat \<Rightarrow> bool \<Rightarrow> FileMetaData \<Rightarrow> VersionStorageInfo \<Rightarrow> VersionStorageInfo" where
  "MaybeAddFile ls level added f v =
     (if file_number f \<in> ls_deleted_files ls then v
      else if map_of (ls_added_files ls) (file_number f) \<noteq> None \<and> \<not> added then v
      else StorageAddFile level f v)"

text \<open>\<open>std::sort\<close>: the order of the files is strict and total, so that its result is unique.\<close>

fun sort_insert :: "('a \<Rightarrow> 'a \<Rightarrow> bool) \<Rightarrow> 'a \<Rightarrow> 'a list \<Rightarrow> 'a list" where
  "sort_insert lt x [] = [x]"
| "sort_insert lt x (y # ys) = (if lt y x then y # sort_insert lt x ys else x # y # ys)"

definition std_sort :: "('a \<Rightarrow> 'a \<Rightarrow> bool) \<Rightarrow> 'a list \<Rightarrow> 'a list" where
  "std_sort lt xs = foldr (sort_insert lt) xs []"

fun MergeLevel :: "(FileMetaData \<Rightarrow> FileMetaData \<Rightarrow> bool) \<Rightarrow> LevelState \<Rightarrow> nat \<Rightarrow> FileMetaData list \<Rightarrow>
    FileMetaData list \<Rightarrow> VersionStorageInfo \<Rightarrow> VersionStorageInfo" where
  "MergeLevel cmp ls level [] [] v = v"
| "MergeLevel cmp ls level (a # as) [] v = MergeLevel cmp ls level as [] (MaybeAddFile ls level True a v)"
| "MergeLevel cmp ls level [] (b # bs) v = MergeLevel cmp ls level [] bs (MaybeAddFile ls level False b v)"
| "MergeLevel cmp ls level (a # as) (b # bs) v =
     (if cmp a b then MergeLevel cmp ls level as (b # bs) (MaybeAddFile ls level True a v)
      else MergeLevel cmp ls level (a # as) bs (MaybeAddFile ls level False b v))"

definition SaveLevel ::
    "(bytes \<Rightarrow> bytes \<Rightarrow> int) \<Rightarrow> VersionBuilder \<Rightarrow> VersionStorageInfo \<Rightarrow> nat \<Rightarrow> VersionStorageInfo" where
  "SaveLevel icmp b v level =
     (let cmp = FileComparator icmp level; ls = vb_levels b ! level
      in MergeLevel cmp ls level (std_sort cmp (map snd (ls_added_files ls)))
           (vs_files (vb_base b) ! level) v)"

definition SaveTo ::
    "(bytes \<Rightarrow> bytes \<Rightarrow> int) \<Rightarrow> VersionBuilder \<Rightarrow> VersionStorageInfo \<Rightarrow> (status \<times> VersionStorageInfo) outcome" where
  "SaveTo icmp b v =
     (if length (vs_files v) < num_levels b then Undef
      else
        sbind (Ok (CheckConsistency icmp (num_levels b) (vb_base b), v)) (\<lambda>v.
        sbind (Ok (CheckConsistency icmp (num_levels b) v, v)) (\<lambda>v.
          obind (SaveBlobFilesTo b (foldl (SaveLevel icmp b) v [0..<num_levels b])) (\<lambda>v.
            Ok (CheckConsistency icmp (num_levels b) v, v)))))"

end
