(* ===== verification/Version_Refinement.thy ===== *)
theory Version_Refinement
  imports Version_Builder
begin

text \<open>
  What the builder of versions promises: an abstract specification of edits on the map from file
  numbers to levels and files, the invariant of the builder, and the proof that applying edits and
  saving the result refines the specification, with every level in its order.
\<close>

section \<open>The contract of an order of files\<close>

lemma mset_std_sort: "mset (std_sort lt xs) = mset xs"
proof -
  have "mset (sort_insert lt x ys) = add_mset x (mset ys)" for x ys by (induction ys) auto
  then show ?thesis by (induction xs) (auto simp: std_sort_def)
qed

lemma distinct_std_sort: "distinct (map f xs) \<Longrightarrow> distinct (map f (std_sort lt xs))"
  using mset_eq_imp_distinct_iff [of "map f (std_sort lt xs)" "map f xs"] by (simp add: mset_std_sort)

locale file_order =
  fixes lt :: "FileMetaData \<Rightarrow> FileMetaData \<Rightarrow> bool"
  assumes asym: "lt f g \<Longrightarrow> \<not> lt g f"
    and weak: "lt f h \<Longrightarrow> lt f g \<or> lt g h"
    and total: "file_number f \<noteq> file_number g \<Longrightarrow> lt f g \<or> lt g f"
begin

lemma trans: "lt f g \<Longrightarrow> lt g h \<Longrightarrow> lt f h"
  using weak [of f g h] asym [of g h] by blast

lemma set_sort_insert: "set (sort_insert lt x ys) = insert x (set ys)"
  by (induction ys) auto

lemma sorted_std_sort: "sorted_wrt (\<lambda>f g. \<not> lt g f) (std_sort lt xs)"
proof -
  have "sorted_wrt (\<lambda>f g. \<not> lt g f) ys \<Longrightarrow> sorted_wrt (\<lambda>f g. \<not> lt g f) (sort_insert lt x ys)" for x ys
    by (induction ys) (auto simp: set_sort_insert dest: asym weak)
  then show ?thesis by (induction xs) (auto simp: std_sort_def)
qed

text \<open>Files with different numbers in weak order are in strict order.\<close>

lemma strictly_sorted:
  "sorted_wrt (\<lambda>f g. \<not> lt g f) xs \<Longrightarrow> distinct (map file_number xs) \<Longrightarrow> sorted_wrt lt xs"
proof (induction xs)
  case (Cons x xs)
  then show ?case using total by fastforce
qed simp

lemma strict_weak: "sorted_wrt lt xs \<Longrightarrow> sorted_wrt (\<lambda>f g. \<not> lt g f) xs"
  by (rule sorted_wrt_mono_rel) (auto dest: asym)

text \<open>Whatever algorithm \<open>std::sort\<close> uses, there is one result.\<close>

lemma std_sort_unique:
  assumes "mset ys = mset xs" and "sorted_wrt (\<lambda>f g. \<not> lt g f) ys" and "distinct (map file_number xs)"
  shows "ys = std_sort lt xs"
proof -
  have "distinct (map file_number ys)"
    using assms(1,3) mset_eq_imp_distinct_iff [of "map file_number ys" "map file_number xs"] by simp
  moreover have "distinct (map file_number (std_sort lt xs))" using assms(3) by (rule distinct_std_sort)
  ultimately have s: "sorted_wrt lt ys" "sorted_wrt lt (std_sort lt xs)"
    using strictly_sorted assms(2) sorted_std_sort by blast+
  have unique: "sorted_wrt lt as \<Longrightarrow> sorted_wrt lt bs \<Longrightarrow> mset as = mset bs \<Longrightarrow> as = bs" for as bs
  proof (induction as arbitrary: bs)
    case (Cons a as)
    then obtain b bs' where bs: "bs = b # bs'" by (cases bs) auto
    have "a \<in> set bs" "b \<in> set (a # as)" using Cons.prems(3) bs by (metis list.set_intros(1) set_mset_mset)+
    then have "a = b" using Cons.prems(1,2) bs by (auto dest: asym)
    then show ?case using Cons bs by simp
  qed simp
  then show ?thesis using s assms(1) mset_std_sort by metis
qed

end

interpretation newest: file_order NewestFirstBySeqNo
  by unfold_locales (auto simp: NewestFirstBySeqNo_def split: if_splits)


lemma smallest_file_order:
  assumes "comparator icmp"
  shows "file_order (BySmallestKey icmp)"
proof
  note less_trans = comparator.less_trans [OF assms] and eq_less = comparator.eq_less [OF assms]
    and less_eq = comparator.less_eq [OF assms] and antisym = comparator.antisym [OF assms]
    and zero_sym = comparator.zero_sym [OF assms] and total = comparator.total [OF assms]
  fix f g h
  let ?c = "\<lambda>f g. icmp (fm_smallest f) (fm_smallest g)"
  show "BySmallestKey icmp f g \<Longrightarrow> \<not> BySmallestKey icmp g f"
    using antisym [of "fm_smallest f" "fm_smallest g"] zero_sym [of "fm_smallest f" "fm_smallest g"]
    by (auto simp: BySmallestKey_def Let_def split: if_splits)
  show "file_number f \<noteq> file_number g \<Longrightarrow> BySmallestKey icmp f g \<or> BySmallestKey icmp g f"
    using antisym [of "fm_smallest g" "fm_smallest f"] zero_sym [of "fm_smallest f" "fm_smallest g"]
    by (auto simp: BySmallestKey_def Let_def split: if_splits)
  show "BySmallestKey icmp f g \<or> BySmallestKey icmp g h" if fh: "BySmallestKey icmp f h"
  proof -
    consider "?c f g < 0" | "?c f g = 0" | "?c g f < 0"
      using antisym [of "fm_smallest g" "fm_smallest f"] by linarith
    then show ?thesis
    proof cases
      case 1
      then show ?thesis by (simp add: BySmallestKey_def)
    next
      case 2
      then have "?c g h < 0 \<longleftrightarrow> ?c f h < 0" by (rule eq_less)
      moreover have "?c g h = 0 \<longleftrightarrow> ?c f h = 0"
        using 2 comparator.eq_trans [OF assms] zero_sym by metis
      ultimately show ?thesis using fh 2 by (auto simp: BySmallestKey_def Let_def split: if_splits)
    next
      case 3
      have "?c f h \<le> 0" using fh by (auto simp: BySmallestKey_def Let_def split: if_splits)
      then have "?c g h < 0" by (rule comparator.less_le_trans [OF assms 3])
      then show ?thesis by (simp add: BySmallestKey_def)
    qed
  qed
qed

interpretation smallest: file_order "BySmallestKey (InternalCompare BytewiseCompare)"
  by (rule smallest_file_order [OF ibytewise.comparator_axioms])

lemma file_comparator_order: "comparator icmp \<Longrightarrow> file_order (FileComparator icmp level)"
  by (simp add: FileComparator_def smallest_file_order newest.file_order_axioms)

section \<open>Merging a level\<close>

fun merge_files :: "('a \<Rightarrow> 'a \<Rightarrow> bool) \<Rightarrow> 'a list \<Rightarrow> 'a list \<Rightarrow> (bool \<times> 'a) list" where
  "merge_files lt [] bs = map (Pair False) bs"
| "merge_files lt as [] = map (Pair True) as"
| "merge_files lt (a # as) (b # bs) =
     (if lt a b then (True, a) # merge_files lt as (b # bs) else (False, b) # merge_files lt (a # as) bs)"

lemma merge_files_Nil [simp]: "merge_files lt as [] = map (Pair True) as"
  by (cases as) auto

lemma set_merge_files: "set (merge_files lt as bs) = Pair True ` set as \<union> Pair False ` set bs"
  by (induction lt as bs rule: merge_files.induct) auto

lemma mset_merge_files: "mset (merge_files lt as bs) = mset (map (Pair True) as) + mset (map (Pair False) bs)"
  by (induction lt as bs rule: merge_files.induct) auto

context file_order begin

lemma sorted_merge_files:
  "sorted_wrt lt as \<Longrightarrow> sorted_wrt (\<lambda>f g. \<not> lt g f) bs \<Longrightarrow>
   sorted_wrt (\<lambda>p q. \<not> lt (snd q) (snd p)) (merge_files lt as bs)"
proof (induction as arbitrary: bs)
  case (Cons a as)
  note outer = Cons
  show ?case using Cons.prems(2)
  proof (induction bs)
    case Nil
    then show ?case using strict_weak [OF outer(2)] by (simp add: sorted_wrt_map)
  next
    case (Cons b bs)
    show ?case
    proof (cases "lt a b")
      case True
      have "\<not> lt x a" if "x \<in> set as \<or> x \<in> set (b # bs)" for x
        using that True outer(2) Cons.prems asym [of a x] trans [of x a b] by auto
      then show ?thesis using True outer(1) [of "b # bs"] outer(2) Cons.prems
        by (auto simp: set_merge_files)
    next
      case False
      have "\<not> lt x b" if "x \<in> set (a # as) \<or> x \<in> set bs" for x
        using that False outer(2) Cons.prems trans [of a x b] by auto
      then show ?thesis using False Cons by (auto simp: set_merge_files)
    qed
  qed
qed (simp add: sorted_wrt_map)

end

definition kept :: "LevelState \<Rightarrow> bool \<times> FileMetaData \<Rightarrow> bool" where
  "kept ls p \<longleftrightarrow>
     file_number (snd p) \<notin> ls_deleted_files ls \<and>
     (fst p \<or> map_of (ls_added_files ls) (file_number (snd p)) = None)"

lemma MaybeAddFile_kept:
  "MaybeAddFile ls level added f v = (if kept ls (added, f) then StorageAddFile level f v else v)"
  by (auto simp: MaybeAddFile_def kept_def)

definition StorageAddFiles :: "nat \<Rightarrow> FileMetaData list \<Rightarrow> VersionStorageInfo \<Rightarrow> VersionStorageInfo" where
  "StorageAddFiles level fs v = foldl (\<lambda>v f. StorageAddFile level f v) v fs"

lemma MergeLevel_adds:
  "MergeLevel cmp ls level as bs v =
   StorageAddFiles level (map snd (filter (kept ls) (merge_files cmp as bs))) v"
  by (induction cmp ls level as bs v rule: MergeLevel.induct)
    (auto simp: MaybeAddFile_kept StorageAddFiles_def)

text \<open>The files of a level after saving it.\<close>

definition saved_files :: "(bytes \<Rightarrow> bytes \<Rightarrow> int) \<Rightarrow> VersionBuilder \<Rightarrow> nat \<Rightarrow> FileMetaData list" where
  "saved_files icmp b level =
     (let cmp = FileComparator icmp level; ls = vb_levels b ! level
      in map snd (filter (kept ls)
           (merge_files cmp (std_sort cmp (map snd (ls_added_files ls))) (vs_files (vb_base b) ! level))))"

lemma SaveLevel_adds: "SaveLevel icmp b v level = StorageAddFiles level (saved_files icmp b level) v"
  by (simp add: SaveLevel_def saved_files_def Let_def MergeLevel_adds)

section \<open>Files and where they are\<close>

definition locations_ok :: "VersionStorageInfo \<Rightarrow> bool" where
  "locations_ok v \<longleftrightarrow>
     (\<forall>n l p. vs_file_locations v n = Some (l, p) \<longleftrightarrow>
        l < length (vs_files v) \<and> p < length (vs_files v ! l) \<and> file_number (vs_files v ! l ! p) = n)"

text \<open>The abstraction of a version: which file has which number, and on which level.\<close>

type_synonym lsm_files = "u64 \<rightharpoonup> nat \<times> FileMetaData"

definition version_files :: "VersionStorageInfo \<Rightarrow> lsm_files" where
  "version_files v n =
     (case vs_file_locations v n of None \<Rightarrow> None | Some (l, p) \<Rightarrow> Some (l, vs_files v ! l ! p))"

lemma version_files_iff:
  assumes "locations_ok v"
  shows "version_files v n = Some (l, f) \<longleftrightarrow>
    l < length (vs_files v) \<and> f \<in> set (vs_files v ! l) \<and> file_number f = n"
proof
  assume "version_files v n = Some (l, f)"
  then obtain p where p: "vs_file_locations v n = Some (l, p)" "f = vs_files v ! l ! p"
    by (auto simp: version_files_def split: option.splits)
  then show "l < length (vs_files v) \<and> f \<in> set (vs_files v ! l) \<and> file_number f = n"
    using assms unfolding locations_ok_def by (metis nth_mem)
next
  assume r: "l < length (vs_files v) \<and> f \<in> set (vs_files v ! l) \<and> file_number f = n"
  then obtain p where p: "p < length (vs_files v ! l)" "f = vs_files v ! l ! p"
    by (auto simp: in_set_conv_nth)
  then have "vs_file_locations v n = Some (l, p)" using assms r unfolding locations_ok_def by blast
  then show "version_files v n = Some (l, f)" using p by (simp add: version_files_def)
qed

lemma locations_number:
  "locations_ok v \<Longrightarrow> version_files v n = Some (l, f) \<Longrightarrow> file_number f = n"
  by (simp add: version_files_iff)

lemma locations_none: "vs_file_locations v n = None \<longleftrightarrow> version_files v n = None"
  by (auto simp: version_files_def split: option.splits)

lemma StorageAddFile_ok:
  assumes "locations_ok v" and "level < length (vs_files v)" and "version_files v (file_number f) = None"
  shows "locations_ok (StorageAddFile level f v)"
    and "version_files (StorageAddFile level f v) = (version_files v)(file_number f \<mapsto> (level, f))"
proof -
  have none: "vs_file_locations v (file_number f) = None" using assms(3) by (simp add: locations_none)
  note loc = assms(1) [unfolded locations_ok_def, rule_format]
  let ?n = "file_number f" and ?v = "StorageAddFile level f v"
  have files: "vs_files ?v = (vs_files v)[level := vs_files v ! level @ [f]]"
    by (simp add: StorageAddFile_def Let_def)
  have locs: "vs_file_locations ?v = (vs_file_locations v)(?n \<mapsto> (level, length (vs_files v ! level)))"
    by (simp add: StorageAddFile_def Let_def none)
  show "locations_ok ?v"
    unfolding locations_ok_def
  proof (intro allI)
    fix n l p
    have "vs_files v ! l ! p \<noteq> f" if "l < length (vs_files v)" "p < length (vs_files v ! l)"
      using loc [of "?n" l p] that none by auto
    then show "vs_file_locations ?v n = Some (l, p) \<longleftrightarrow>
        l < length (vs_files ?v) \<and> p < length (vs_files ?v ! l) \<and> file_number (vs_files ?v ! l ! p) = n"
      using loc [of n l p] loc [of ?n l p] none assms(2)
      by (auto simp: files locs nth_list_update nth_append less_Suc_eq)
  qed
  show "version_files ?v = (version_files v)(?n \<mapsto> (level, f))"
  proof
    fix n
    show "version_files ?v n = ((version_files v)(?n \<mapsto> (level, f))) n"
    proof (cases "n = ?n")
      case True
      then show ?thesis using assms(2) by (simp add: version_files_def locs files)
    next
      case False
      then show ?thesis
        using loc [of n] assms(2)
        by (auto simp: version_files_def locs files nth_list_update nth_append split: option.splits)
    qed
  qed
qed

lemma StorageAddFiles_files:
  "level < length (vs_files v) \<Longrightarrow>
   vs_files (StorageAddFiles level fs v) = (vs_files v)[level := vs_files v ! level @ fs] \<and>
   vs_blob_files (StorageAddFiles level fs v) = vs_blob_files v \<and>
   vs_force_consistency_checks (StorageAddFiles level fs v) = vs_force_consistency_checks v"
  by (induction fs arbitrary: v) (simp_all add: StorageAddFiles_def StorageAddFile_def Let_def)

lemma StorageAddFiles_ok:
  assumes "locations_ok v" and "level < length (vs_files v)" and "distinct (map file_number fs)"
    and "\<forall>f \<in> set fs. version_files v (file_number f) = None"
  shows "locations_ok (StorageAddFiles level fs v)"
  using assms
proof (induction fs arbitrary: v)
  case (Cons f fs)
  let ?v = "StorageAddFile level f v"
  have n: "version_files v (file_number f) = None" using Cons.prems(4) by simp
  have "locations_ok (StorageAddFiles level fs ?v)"
  proof (rule Cons.IH)
    show "locations_ok ?v" by (rule StorageAddFile_ok(1) [OF Cons.prems(1,2) n])
    show "level < length (vs_files ?v)" using Cons.prems(2) by (simp add: StorageAddFile_def Let_def)
    show "distinct (map file_number fs)" using Cons.prems(3) by simp
    show "\<forall>g \<in> set fs. version_files ?v (file_number g) = None"
    proof
      fix g
      assume g: "g \<in> set fs"
      then have "file_number g \<in> file_number ` set fs" by (rule imageI)
      then have "file_number g \<noteq> file_number f" using Cons.prems(3) by auto
      then show "version_files ?v (file_number g) = None"
        using Cons.prems(4) g by (simp add: StorageAddFile_ok(2) [OF Cons.prems(1,2) n])
    qed
  qed
  then show ?case by (simp add: StorageAddFiles_def)
qed (simp add: StorageAddFiles_def)

section \<open>Ordered maps\<close>

definition omap_ok :: "('k::linorder \<times> 'v) list \<Rightarrow> bool" where
  "omap_ok m \<longleftrightarrow> sorted_wrt (<) (map fst m)"

lemma omap_ok_simps [simp]:
  "omap_ok []" "omap_ok ((k, v) # m) \<longleftrightarrow> (\<forall>p \<in> set m. k < fst p) \<and> omap_ok m"
  by (auto simp: omap_ok_def)

lemma set_omap_keys [simp]:
  "fst ` set (omap_insert k v m) = insert k (fst ` set m)"
  "fst ` set (omap_update k upd v0 m) = insert k (fst ` set m)"
  by (induction k v m rule: omap_insert.induct) (simp_all add: insert_commute)

lemma omap_ok_Cons: "omap_ok ((k, v) # m) \<longleftrightarrow> (\<forall>k' \<in> fst ` set m. k < k') \<and> omap_ok m"
  by simp

lemma omap_ok_put:
  "omap_ok m \<Longrightarrow> omap_ok (omap_insert k v m)"
  "omap_ok m \<Longrightarrow> omap_ok (omap_update k upd v0 m)"
  by (induction k v m rule: omap_insert.induct)
    (simp_all add: omap_ok_Cons del: omap_ok_simps(2), auto)

lemma map_of_omap_update:
  "omap_ok m \<Longrightarrow> map_of (omap_update k upd v0 m) =
   (map_of m)(k \<mapsto> upd (case map_of m k of None \<Rightarrow> v0 | Some v \<Rightarrow> v))"
proof (induction m)
  case (Cons p m)
  obtain k' v' where p: "p = (k', v')" by (cases p)
  have "map_of m k = None" if "k < k'"
    using Cons.prems that unfolding p by (fastforce simp: map_of_eq_None_iff)
  then show ?case using Cons by (auto simp: p fun_eq_iff)
qed simp

section \<open>The specification of edits\<close>

text \<open>The files and the numbers of the blob files; a step that does not apply gives nothing.\<close>

type_synonym lsm = "lsm_files \<times> u64 set"

definition spec_blob_addition :: "BlobFileAddition \<Rightarrow> lsm \<Rightarrow> lsm option" where
  "spec_blob_addition a p =
     (if ba_number a \<in> snd p then None else Some (fst p, insert (ba_number a) (snd p)))"

definition spec_blob_garbage :: "BlobFileGarbage \<Rightarrow> lsm \<Rightarrow> lsm option" where
  "spec_blob_garbage g p = (if bg_number g \<in> snd p then Some p else None)"

definition spec_deletion :: "int \<times> u64 \<Rightarrow> lsm \<Rightarrow> lsm option" where
  "spec_deletion q p =
     (case fst p (snd q) of
        Some (l, f) \<Rightarrow> if int l = fst q then Some ((fst p)(snd q := None), snd p) else None
      | None \<Rightarrow> None)"

definition spec_addition :: "int \<times> FileMetaData \<Rightarrow> lsm \<Rightarrow> lsm option" where
  "spec_addition q p =
     (case fst p (file_number (snd q)) of
        None \<Rightarrow> Some ((fst p)(file_number (snd q) \<mapsto> (nat (fst q), snd q)), snd p)
      | Some _ \<Rightarrow> None)"

fun spec_all :: "('e \<Rightarrow> lsm \<Rightarrow> lsm option) \<Rightarrow> 'e list \<Rightarrow> lsm \<Rightarrow> lsm option" where
  "spec_all f [] p = Some p"
| "spec_all f (e # es) p = Option.bind (f e p) (spec_all f es)"

definition spec_edit :: "VersionEdit \<Rightarrow> lsm \<Rightarrow> lsm option" where
  "spec_edit e p =
     Option.bind (spec_all spec_blob_addition (ve_blob_file_additions e) p) (\<lambda>p.
     Option.bind (spec_all spec_blob_garbage (ve_blob_file_garbages e) p) (\<lambda>p.
     Option.bind (spec_all spec_deletion (ve_deleted_files e) p) (\<lambda>p.
     spec_all spec_addition (ve_new_files e) p)))"

section \<open>The invariant of the builder\<close>

text \<open>What a builder holds for one level of its base version.\<close>

definition level_ok :: "VersionBuilder \<Rightarrow> nat \<Rightarrow> bool" where
  "level_ok b l \<longleftrightarrow>
     (let ls = vb_levels b ! l in
        distinct (map fst (ls_added_files ls)) \<and>
        (\<forall>(n, f) \<in> set (ls_added_files ls). file_number f = n) \<and>
        (\<forall>n. map_of (ls_added_files ls) n \<noteq> None \<longleftrightarrow> vb_table_file_levels b n = Some (int l)) \<and>
        (\<forall>n \<in> ls_deleted_files ls. map_of (ls_added_files ls) n = None) \<and>
        (\<forall>n p. vs_file_locations (vb_base b) n = Some (l, p) \<longrightarrow>
           (vb_table_file_levels b n = None \<longleftrightarrow>
              n \<notin> ls_deleted_files ls \<and> map_of (ls_added_files ls) n = None)))"

definition blobs_ok :: "VersionBuilder \<Rightarrow> bool" where
  "blobs_ok b \<longleftrightarrow>
     omap_ok (vs_blob_files (vb_base b)) \<and> omap_ok (vb_blob_deltas b) \<and>
     (\<forall>(n, m) \<in> set (vs_blob_files (vb_base b)). sb_blob_file_number (bm_shared_meta m) = n) \<and>
     (\<forall>(n, d) \<in> set (vb_blob_deltas b).
        case bd_shared_meta d of
          None \<Rightarrow> n \<in> fst ` set (vs_blob_files (vb_base b))
        | Some m \<Rightarrow> sb_blob_file_number m = n)"

definition builder_ok :: "VersionBuilder \<Rightarrow> bool" where
  "builder_ok b \<longleftrightarrow>
     locations_ok (vb_base b) \<and> num_levels b = length (vs_files (vb_base b)) \<and>
     (\<forall>n l. vb_table_file_levels b n = Some l \<longrightarrow> l = -1 \<or> 0 \<le> l \<and> l < int (num_levels b)) \<and>
     (\<forall>l < num_levels b. level_ok b l) \<and> blobs_ok b"

text \<open>The abstraction of a builder.\<close>

definition builder_files :: "VersionBuilder \<Rightarrow> lsm_files" where
  "builder_files b n =
     (case vb_table_file_levels b n of
        None \<Rightarrow> version_files (vb_base b) n
      | Some level \<Rightarrow>
          if level < 0 then None
          else Some (nat level, the (map_of (ls_added_files (vb_levels b ! nat level)) n)))"

definition builder_blobs :: "VersionBuilder \<Rightarrow> u64 set" where
  "builder_blobs b = {n. IsBlobFileInVersion n b}"

definition builder_lsm :: "VersionBuilder \<Rightarrow> lsm" where
  "builder_lsm b = (builder_files b, builder_blobs b)"

lemma builder_okD:
  assumes "builder_ok b"
  shows "locations_ok (vb_base b)" and "num_levels b = length (vs_files (vb_base b))"
    and "vb_table_file_levels b n = Some l \<Longrightarrow> l = -1 \<or> 0 \<le> l \<and> l < int (num_levels b)"
    and "k < num_levels b \<Longrightarrow> level_ok b k" and "blobs_ok b"
  using assms unfolding builder_ok_def by blast+

lemma current_level:
  assumes "builder_ok b"
  shows "GetCurrentLevelForTableFile n b =
    (case builder_files b n of None \<Rightarrow> -1 | Some (l, _) \<Rightarrow> int l)"
  using builder_okD(3) [OF assms, of n]
  by (auto simp: GetCurrentLevelForTableFile_def builder_files_def GetFileLocationLevel_def
      version_files_def split: option.splits)

lemma builder_files_level:
  assumes "builder_ok b" and "builder_files b n = Some (l, f)"
  shows "l < num_levels b" and "file_number f = n"
    and "vb_table_file_levels b n \<noteq> None \<Longrightarrow> map_of (ls_added_files (vb_levels b ! l)) n = Some f"
proof -
  note ok = builder_okD [OF assms(1)]
  have "l < num_levels b \<and> file_number f = n \<and>
    (vb_table_file_levels b n \<noteq> None \<longrightarrow> map_of (ls_added_files (vb_levels b ! l)) n = Some f)"
  proof (cases "vb_table_file_levels b n")
    case None
    then show ?thesis using assms(2) version_files_iff [OF ok(1)] ok(2)
      by (auto simp: builder_files_def)
  next
    case (Some level)
    then have r: "0 \<le> level" "l = nat level" "level < int (num_levels b)"
      "f = the (map_of (ls_added_files (vb_levels b ! l)) n)"
      using assms(2) ok(3) [OF Some] by (auto simp: builder_files_def split: if_splits)
    then have "level_ok b l" using ok(4) by simp
    then have "map_of (ls_added_files (vb_levels b ! l)) n \<noteq> None"
      "\<forall>(n, f) \<in> set (ls_added_files (vb_levels b ! l)). file_number f = n"
      using Some r by (auto simp: level_ok_def Let_def)
    then obtain g where "map_of (ls_added_files (vb_levels b ! l)) n = Some g" "file_number g = n"
      by (auto dest: map_of_SomeD)
    then show ?thesis using r by simp
  qed
  then show "l < num_levels b" "file_number f = n"
    "vb_table_file_levels b n \<noteq> None \<Longrightarrow> map_of (ls_added_files (vb_levels b ! l)) n = Some f" by auto
qed

section \<open>Every step refines its specification\<close>

text \<open>
  A step on the builders of a base version refines a step of the specification: it is defined, keeps
  the invariant, succeeds when the specification does, and then has the specified effect.
\<close>

definition refines :: "VersionStorageInfo \<Rightarrow> (VersionBuilder \<Rightarrow> (status \<times> VersionBuilder) outcome) \<Rightarrow>
    (lsm \<Rightarrow> lsm option) \<Rightarrow> bool" where
  "refines base f spec \<longleftrightarrow>
     (\<forall>b. builder_ok b \<and> vb_base b = base \<longrightarrow>
        (\<exists>s b'. f b = Ok (s, b') \<and> builder_ok b' \<and> vb_base b' = base \<and>
           (case spec (builder_lsm b) of
              None \<Rightarrow> s \<noteq> StatusOK | Some p \<Rightarrow> s = StatusOK \<and> builder_lsm b' = p)))"

lemma refinesI:
  assumes "\<And>b. builder_ok b \<Longrightarrow> vb_base b = base \<Longrightarrow> spec (builder_lsm b) = None \<Longrightarrow>
      f b = Ok (Corruption, b)"
    and "\<And>b p. builder_ok b \<Longrightarrow> vb_base b = base \<Longrightarrow> spec (builder_lsm b) = Some p \<Longrightarrow>
      \<exists>b'. f b = Ok (StatusOK, b') \<and> builder_ok b' \<and> vb_base b' = base \<and> builder_lsm b' = p"
  shows "refines base f spec"
  unfolding refines_def
proof (intro allI impI)
  fix b
  assume b: "builder_ok b \<and> vb_base b = base"
  show "\<exists>s b'. f b = Ok (s, b') \<and> builder_ok b' \<and> vb_base b' = base \<and>
      (case spec (builder_lsm b) of None \<Rightarrow> s \<noteq> StatusOK | Some p \<Rightarrow> s = StatusOK \<and> builder_lsm b' = p)"
  proof (cases "spec (builder_lsm b)")
    case None
    then show ?thesis using assms(1) [of b] b by auto
  next
    case (Some p)
    then show ?thesis using assms(2) [of b p] b by auto
  qed
qed

lemma refinesD:
  assumes "refines base f spec" and "builder_ok b" and "vb_base b = base"
  obtains s b' where "f b = Ok (s, b')" and "builder_ok b'" and "vb_base b' = base"
    and "spec (builder_lsm b) = None \<Longrightarrow> s \<noteq> StatusOK"
    and "\<And>p. spec (builder_lsm b) = Some p \<Longrightarrow> s = StatusOK \<and> builder_lsm b' = p"
  using assms unfolding refines_def by (fastforce split: option.splits)

lemma refines_sbind:
  assumes "refines base f spec" and "refines base g spec'"
  shows "refines base (\<lambda>b. sbind (f b) g) (\<lambda>p. Option.bind (spec p) spec')"
  unfolding refines_def
proof (intro allI impI)
  fix b
  assume b: "builder_ok b \<and> vb_base b = base"
  obtain s b' where f: "f b = Ok (s, b')" "builder_ok b'" "vb_base b' = base"
    "spec (builder_lsm b) = None \<Longrightarrow> s \<noteq> StatusOK"
    "\<And>p. spec (builder_lsm b) = Some p \<Longrightarrow> s = StatusOK \<and> builder_lsm b' = p"
    using refinesD [OF assms(1)] b by metis
  show "\<exists>s b'. sbind (f b) g = Ok (s, b') \<and> builder_ok b' \<and> vb_base b' = base \<and>
      (case Option.bind (spec (builder_lsm b)) spec' of
         None \<Rightarrow> s \<noteq> StatusOK | Some p \<Rightarrow> s = StatusOK \<and> builder_lsm b' = p)"
  proof (cases "spec (builder_lsm b)")
    case None
    then show ?thesis using f by (simp add: sbind_def)
  next
    case (Some p)
    then have "s = StatusOK" "builder_lsm b' = p" using f(5) by auto
    moreover have "\<exists>s b''. g b' = Ok (s, b'') \<and> builder_ok b'' \<and> vb_base b'' = base \<and>
        (case spec' (builder_lsm b') of None \<Rightarrow> s \<noteq> StatusOK | Some p \<Rightarrow> s = StatusOK \<and> builder_lsm b'' = p)"
      using assms(2) f(2,3) unfolding refines_def by blast
    ultimately show ?thesis using Some f(1) by (simp add: sbind_def)
  qed
qed

lemma refines_all:
  "\<forall>e \<in> set es. refines base (f e) (spec e) \<Longrightarrow> refines base (apply_all f es) (spec_all spec es)"
proof (induction es)
  case Nil
  show ?case by (rule refinesI) auto
next
  case (Cons e es)
  then have "refines base (\<lambda>b. sbind (f e b) (apply_all f es))
      (\<lambda>p. Option.bind (spec e p) (spec_all spec es))"
    by (intro refines_sbind) auto
  moreover have "apply_all f (e # es) = (\<lambda>b. sbind (f e b) (apply_all f es))"
    "spec_all spec (e # es) = (\<lambda>p. Option.bind (spec e p) (spec_all spec es))" by auto
  ultimately show ?case by (simp only:)
qed

subsection \<open>Blob files\<close>

lemma update_delta_fields [simp]:
  "vb_base (update_delta n upd b) = vb_base b" "vb_levels (update_delta n upd b) = vb_levels b"
  "vb_table_file_levels (update_delta n upd b) = vb_table_file_levels b"
  "vb_blob_deltas (update_delta n upd b) = omap_update n upd NewBlobFileMetaDataDelta (vb_blob_deltas b)"
  by (simp_all add: update_delta_def)

lemma update_delta_frame [simp]:
  "builder_files (update_delta n upd b) = builder_files b"
  "level_ok (update_delta n upd b) l = level_ok b l"
  unfolding builder_files_def [abs_def] level_ok_def update_delta_fields by (rule refl)+

definition delta_of :: "u64 \<Rightarrow> VersionBuilder \<Rightarrow> BlobFileMetaDataDelta" where
  "delta_of n b = (case map_of (vb_blob_deltas b) n of None \<Rightarrow> NewBlobFileMetaDataDelta | Some d \<Rightarrow> d)"

definition delta_ok :: "VersionStorageInfo \<Rightarrow> u64 \<Rightarrow> BlobFileMetaDataDelta \<Rightarrow> bool" where
  "delta_ok base n d \<longleftrightarrow>
     (case bd_shared_meta d of
        None \<Rightarrow> n \<in> fst ` set (vs_blob_files base) | Some m \<Rightarrow> sb_blob_file_number m = n)"

lemma omap_mem: "omap_ok m \<Longrightarrow> (k, v) \<in> set m \<longleftrightarrow> map_of m k = Some v"
  by (simp add: omap_ok_def strict_sorted_iff)

lemma blobs_ok_deltas:
  "blobs_ok b \<Longrightarrow> map_of (vb_blob_deltas b) n = Some d \<Longrightarrow> delta_ok (vb_base b) n d"
  unfolding blobs_ok_def delta_ok_def by (fastforce dest: map_of_SomeD)

lemma IsBlobFileInVersion_delta:
  "IsBlobFileInVersion n b \<longleftrightarrow>
     bd_shared_meta (delta_of n b) \<noteq> None \<or> map_of (vs_blob_files (vb_base b)) n \<noteq> None"
  by (auto simp: IsBlobFileInVersion_def delta_of_def NewBlobFileMetaDataDelta_def split: option.splits)

lemma delta_of_update:
  "blobs_ok b \<Longrightarrow> delta_of k (update_delta n upd b) = (if k = n then upd (delta_of n b) else delta_of k b)"
  by (simp add: delta_of_def map_of_omap_update blobs_ok_def)

lemma blobs_ok_update:
  assumes "blobs_ok b" and "delta_ok (vb_base b) n (upd (delta_of n b))"
  shows "blobs_ok (update_delta n upd b)"
proof -
  have ok: "omap_ok (vb_blob_deltas b)" using assms(1) by (simp add: blobs_ok_def)
  have "delta_ok (vb_base b) k d" if "(k, d) \<in> set (vb_blob_deltas (update_delta n upd b))" for k d
  proof -
    have "map_of (vb_blob_deltas (update_delta n upd b)) k = Some d"
      using that ok by (simp add: omap_mem omap_ok_put)
    then show ?thesis using assms blobs_ok_deltas [OF assms(1)] ok
      by (auto simp: map_of_omap_update delta_of_def split: if_splits)
  qed
  then show ?thesis using assms(1) ok
    unfolding blobs_ok_def delta_ok_def update_delta_fields by (auto intro: omap_ok_put)
qed

lemma builder_ok_update:
  "builder_ok b \<Longrightarrow> blobs_ok (update_delta n upd b) \<Longrightarrow> builder_ok (update_delta n upd b)"
  unfolding builder_ok_def update_delta_fields update_delta_frame by blast

text \<open>A change of a delta that keeps the metadata changes nothing that the specification sees.\<close>

lemma update_delta_keeps:
  assumes "builder_ok b" and "IsBlobFileInVersion n b" and "\<And>d. bd_shared_meta (upd d) = bd_shared_meta d"
  shows "builder_ok (update_delta n upd b)" and "builder_lsm (update_delta n upd b) = builder_lsm b"
proof -
  note blobs = builder_okD(5) [OF assms(1)]
  have "delta_ok (vb_base b) n (delta_of n b)"
  proof (cases "map_of (vb_blob_deltas b) n")
    case None
    then have "n \<in> fst ` set (vs_blob_files (vb_base b))"
      using assms(2) map_of_eq_None_iff [of "vs_blob_files (vb_base b)" n]
      by (simp add: IsBlobFileInVersion_def)
    then show ?thesis using None by (simp add: delta_of_def delta_ok_def NewBlobFileMetaDataDelta_def)
  next
    case (Some d)
    then show ?thesis using blobs_ok_deltas [OF blobs Some] by (simp add: delta_of_def)
  qed
  then have "blobs_ok (update_delta n upd b)"
    using assms(3) by (intro blobs_ok_update [OF blobs]) (simp add: delta_ok_def)
  then show "builder_ok (update_delta n upd b)" by (rule builder_ok_update [OF assms(1)])
  have "IsBlobFileInVersion k (update_delta n upd b) = IsBlobFileInVersion k b" for k
    using assms(3) delta_of_update [OF blobs] by (simp add: IsBlobFileInVersion_delta)
  then show "builder_lsm (update_delta n upd b) = builder_lsm b"
    by (simp add: builder_lsm_def builder_blobs_def)
qed

lemma ApplyBlobFileAddition_refines:
  "refines base (ApplyBlobFileAddition a) (spec_blob_addition a)"
proof (rule refinesI)
  fix b p
  assume b: "builder_ok b" "vb_base b = base" and s: "spec_blob_addition a (builder_lsm b) = Some p"
  let ?m = "\<lparr>sb_blob_file_number = ba_number a, sb_total_blob_count = ba_total_count a,
      sb_total_blob_bytes = ba_total_bytes a, sb_checksum_method = ba_checksum_method a,
      sb_checksum_value = ba_checksum_value a\<rparr>"
  let ?b = "update_delta (ba_number a) (\<lambda>d. d\<lparr>bd_shared_meta := Some ?m\<rparr>) b"
  note blobs = builder_okD(5) [OF b(1)]
  have "blobs_ok ?b" by (rule blobs_ok_update [OF blobs]) (simp add: delta_ok_def)
  then have "builder_ok ?b" by (rule builder_ok_update [OF b(1)])
  moreover have "IsBlobFileInVersion k ?b \<longleftrightarrow> k = ba_number a \<or> IsBlobFileInVersion k b" for k
    using delta_of_update [OF blobs] by (simp add: IsBlobFileInVersion_delta)
  ultimately show "\<exists>b'. ApplyBlobFileAddition a b = Ok (StatusOK, b') \<and> builder_ok b' \<and> vb_base b' = base \<and>
      builder_lsm b' = p"
    using s b(2) by (intro exI [of _ ?b]) (auto simp: ApplyBlobFileAddition_def spec_blob_addition_def
        builder_lsm_def builder_blobs_def Let_def split: if_splits)
qed (auto simp: ApplyBlobFileAddition_def spec_blob_addition_def builder_lsm_def builder_blobs_def
    split: if_splits)

lemma ApplyBlobFileGarbage_refines:
  "refines base (ApplyBlobFileGarbage g) (spec_blob_garbage g)"
proof (rule refinesI)
  fix b p
  assume b: "builder_ok b" "vb_base b = base" and s: "spec_blob_garbage g (builder_lsm b) = Some p"
  then have in_version: "IsBlobFileInVersion (bg_number g) b" "p = builder_lsm b"
    by (auto simp: spec_blob_garbage_def builder_lsm_def builder_blobs_def split: if_splits)
  have "bd_shared_meta (AddGarbage x y d) = bd_shared_meta d" for x y d by (simp add: AddGarbage_def)
  from update_delta_keeps [OF b(1) in_version(1) this]
  show "\<exists>b'. ApplyBlobFileGarbage g b = Ok (StatusOK, b') \<and> builder_ok b' \<and> vb_base b' = base \<and>
      builder_lsm b' = p"
    using in_version b(2) by (simp add: ApplyBlobFileGarbage_def)
qed (auto simp: ApplyBlobFileGarbage_def spec_blob_garbage_def builder_lsm_def builder_blobs_def
    split: if_splits)

subsection \<open>Table files\<close>

lemma level_okD:
  assumes "level_ok b l"
  shows "distinct (map fst (ls_added_files (vb_levels b ! l)))"
    and "(n, f) \<in> set (ls_added_files (vb_levels b ! l)) \<Longrightarrow> file_number f = n"
    and "map_of (ls_added_files (vb_levels b ! l)) n = None \<longleftrightarrow> vb_table_file_levels b n \<noteq> Some (int l)"
    and "n \<in> ls_deleted_files (vb_levels b ! l) \<Longrightarrow> map_of (ls_added_files (vb_levels b ! l)) n = None"
    and "vs_file_locations (vb_base b) n = Some (l, p) \<Longrightarrow>
      vb_table_file_levels b n = None \<longleftrightarrow>
      n \<notin> ls_deleted_files (vb_levels b ! l) \<and> map_of (ls_added_files (vb_levels b ! l)) n = None"
proof -
  note d = assms [unfolded level_ok_def Let_def]
  show "distinct (map fst (ls_added_files (vb_levels b ! l)))" using d by blast
  show "(n, f) \<in> set (ls_added_files (vb_levels b ! l)) \<Longrightarrow> file_number f = n" using d by blast
  show "map_of (ls_added_files (vb_levels b ! l)) n = None \<longleftrightarrow> vb_table_file_levels b n \<noteq> Some (int l)"
    using d by blast
  show "n \<in> ls_deleted_files (vb_levels b ! l) \<Longrightarrow> map_of (ls_added_files (vb_levels b ! l)) n = None"
    using d by blast
  show "vs_file_locations (vb_base b) n = Some (l, p) \<Longrightarrow>
      vb_table_file_levels b n = None \<longleftrightarrow>
      n \<notin> ls_deleted_files (vb_levels b ! l) \<and> map_of (ls_added_files (vb_levels b ! l)) n = None"
    using d by blast
qed

lemma level_okI:
  assumes "distinct (map fst (ls_added_files (vb_levels b ! l)))"
    and "\<And>n f. (n, f) \<in> set (ls_added_files (vb_levels b ! l)) \<Longrightarrow> file_number f = n"
    and "\<And>n. map_of (ls_added_files (vb_levels b ! l)) n = None \<longleftrightarrow> vb_table_file_levels b n \<noteq> Some (int l)"
    and "\<And>n. n \<in> ls_deleted_files (vb_levels b ! l) \<Longrightarrow> map_of (ls_added_files (vb_levels b ! l)) n = None"
    and "\<And>n p. vs_file_locations (vb_base b) n = Some (l, p) \<Longrightarrow>
      vb_table_file_levels b n = None \<longleftrightarrow>
      n \<notin> ls_deleted_files (vb_levels b ! l) \<and> map_of (ls_added_files (vb_levels b ! l)) n = None"
  shows "level_ok b l"
proof -
  let ?ls = "vb_levels b ! l"
  have "\<forall>(n, f) \<in> set (ls_added_files ?ls). file_number f = n" using assms(2) by auto
  moreover have "\<forall>n. map_of (ls_added_files ?ls) n \<noteq> None \<longleftrightarrow> vb_table_file_levels b n = Some (int l)"
    by (simp only: assms(3) not_not) simp
  moreover have "\<forall>n \<in> ls_deleted_files ?ls. map_of (ls_added_files ?ls) n = None" using assms(4) by blast
  moreover have "\<forall>n p. vs_file_locations (vb_base b) n = Some (l, p) \<longrightarrow>
      (vb_table_file_levels b n = None \<longleftrightarrow>
       n \<notin> ls_deleted_files ?ls \<and> map_of (ls_added_files ?ls) n = None)"
    using assms(5) by blast
  ultimately show ?thesis unfolding level_ok_def Let_def using assms(1) by (intro conjI)
qed

lemma put_level_fields [simp]:
  "vb_base (put_level level ls n x b) = vb_base b"
  "vb_levels (put_level level ls n x b) = (vb_levels b)[nat level := ls]"
  "vb_table_file_levels (put_level level ls n x b) = (vb_table_file_levels b)(n \<mapsto> x)"
  "vb_blob_deltas (put_level level ls n x b) = vb_blob_deltas b"
  by (simp_all add: put_level_def)

lemma put_level_frame [simp]:
  "blobs_ok (put_level level ls n x b) = blobs_ok b"
  "builder_blobs (put_level level ls n x b) = builder_blobs b"
  unfolding blobs_ok_def builder_blobs_def IsBlobFileInVersion_def put_level_fields by (rule refl)+

text \<open>
  What a step on one file does to the levels: the other levels know the file only as deleted.
\<close>

lemma put_level_ok:
  assumes b: "builder_ok b" and l: "l < num_levels b" and x: "x = -1 \<or> x = int l"
    and others: "\<And>k. k < num_levels b \<Longrightarrow> k \<noteq> l \<Longrightarrow> vb_table_file_levels b n \<noteq> Some (int k)"
    and moved: "\<And>k p. vs_file_locations (vb_base b) n = Some (k, p) \<Longrightarrow> k \<noteq> l \<Longrightarrow>
      vb_table_file_levels b n \<noteq> None"
    and this_level: "level_ok (put_level (int l) ls n x b) l"
  shows "builder_ok (put_level (int l) ls n x b)"
proof -
  let ?b = "put_level (int l) ls n x b"
  note ok = builder_okD [OF b]
  have "level_ok ?b k" if k: "k < num_levels b" for k
  proof (cases "k = l")
    case True
    then show ?thesis using this_level by simp
  next
    case False
    note lev = level_okD [OF ok(4) [OF k]]
    have state: "vb_levels ?b ! k = vb_levels b ! k" using False by simp
    have table: "vb_table_file_levels ?b m = Some (int k) \<longleftrightarrow> vb_table_file_levels b m = Some (int k)" for m
      using others [OF k False] x False by auto
    have gone: "vb_table_file_levels ?b m = None \<longleftrightarrow> vb_table_file_levels b m = None"
      if "vs_file_locations (vb_base b) m = Some (k, p)" for m p
      using moved [of k p] that False by auto
    show ?thesis
      unfolding level_ok_def Let_def state table
      using lev gone by auto
  qed
  moreover have "\<forall>m y. vb_table_file_levels ?b m = Some y \<longrightarrow> y = -1 \<or> 0 \<le> y \<and> y < int (num_levels ?b)"
    using ok(3) x l by auto
  ultimately show ?thesis using ok(1,2,5) unfolding builder_ok_def by simp
qed

lemma builder_files_put_level:
  assumes "builder_ok b" and "l < num_levels b" and "x = -1 \<or> x = int l"
    and "\<And>m. m \<noteq> n \<Longrightarrow> map_of (ls_added_files ls) m = map_of (ls_added_files (vb_levels b ! l)) m"
  shows "builder_files (put_level (int l) ls n x b) = (builder_files b)(n :=
    if x = -1 then None else Some (l, the (map_of (ls_added_files ls) n)))"
proof
  fix m
  show "builder_files (put_level (int l) ls n x b) m = ((builder_files b)(n :=
      if x = -1 then None else Some (l, the (map_of (ls_added_files ls) n)))) m"
  proof (cases "m = n")
    case True
    then show ?thesis using assms(2,3) by (auto simp: builder_files_def)
  next
    case False
    then show ?thesis using assms(2,4) builder_okD(3) [OF assms(1), of m]
      by (auto simp: builder_files_def nth_list_update split: option.splits)
  qed
qed

lemma level_state_ok: "l < num_levels b \<Longrightarrow> level_state (int l) b = Ok (vb_levels b ! l)"
  by (simp add: level_state_def)

lemma ApplyFileDeletion_refines:
  assumes "0 \<le> level" and "level < int (length (vs_files base))"
  shows "refines base (ApplyFileDeletion (level, n)) (spec_deletion (level, n))"
proof (rule refinesI)
  fix b
  assume b: "builder_ok b" "vb_base b = base" and s: "spec_deletion (level, n) (builder_lsm b) = None"
  have "level \<noteq> GetCurrentLevelForTableFile n b"
    using s assms(1) by (auto simp: current_level [OF b(1)] spec_deletion_def builder_lsm_def
        split: option.splits if_splits)
  moreover have "\<not> level \<ge> int (num_levels b)" using assms(2) builder_okD(2) [OF b(1)] b(2) by simp
  ultimately show "ApplyFileDeletion (level, n) b = Ok (Corruption, b)"
    by (simp add: ApplyFileDeletion_def Let_def)
next
  fix b p
  assume b: "builder_ok b" "vb_base b = base" and s: "spec_deletion (level, n) (builder_lsm b) = Some p"
  then obtain l f where f: "builder_files b n = Some (l, f)" and level: "level = int l"
    and p: "p = ((builder_files b)(n := None), builder_blobs b)"
    by (auto simp: spec_deletion_def builder_lsm_def split: option.splits if_splits)
  note ok = builder_okD [OF b(1)] and lf = builder_files_level [OF b(1) f]
  have cur: "GetCurrentLevelForTableFile n b = int l" by (simp add: current_level [OF b(1)] f)
  obtain blob where blob: "GetOldestBlobFileNumberForTableFile (int l) n b = Ok blob"
  proof (cases "vb_table_file_levels b n")
    case None
    then obtain g where "GetFileMetaDataByNumber n (vb_base b) = Some g"
      using f by (auto simp: builder_files_def version_files_def GetFileMetaDataByNumber_def
          split: option.splits)
    then show ?thesis using that level_state_ok [OF lf(1)]
      by (cases "map_of (ls_added_files (vb_levels b ! l)) n")
        (simp_all add: GetOldestBlobFileNumberForTableFile_def)
  next
    case (Some x)
    then show ?thesis using that level_state_ok [OF lf(1)] lf(3)
      by (auto simp: GetOldestBlobFileNumberForTableFile_def split: option.splits)
  qed
  define c where "c = (if blob \<noteq> kInvalidBlobFileNumber \<and> IsBlobFileInVersion blob b
      then update_delta blob (UnlinkSst n) b else b)"
  have c: "builder_ok c" "builder_lsm c = builder_lsm b" "vb_base c = base" "vb_levels c = vb_levels b"
    "vb_table_file_levels c = vb_table_file_levels b"
    using b update_delta_keeps [OF b(1), of blob "UnlinkSst n"]
    by (auto simp: c_def UnlinkSst_def)
  define ls where "ls = (vb_levels b ! l)\<lparr>ls_added_files := AList.delete n (ls_added_files (vb_levels b ! l)),
      ls_deleted_files := insert n (ls_deleted_files (vb_levels b ! l))\<rparr>"
  let ?b = "put_level (int l) ls n (-1) c"
  have "ApplyFileDeletion (level, n) b = Ok (StatusOK, ?b)"
    using lf(1) level_state_ok [of l c] c
    by (simp add: ApplyFileDeletion_def cur level blob c_def [symmetric] ls_def Let_def)
  moreover have "builder_ok ?b"
  proof (rule put_level_ok [OF c(1)])
    show "l < num_levels c" using lf(1) c by simp
    show "vb_table_file_levels c n \<noteq> Some (int k)" if "k \<noteq> l" for k
      using that f by (auto simp: c builder_files_def)
    show "vb_table_file_levels c n \<noteq> None" if "vs_file_locations (vb_base c) n = Some (k, p)" "k \<noteq> l" for k p
      using that f b(2) by (cases "vb_table_file_levels b n") (auto simp: c builder_files_def version_files_def)
    have lev: "level_ok c l" using builder_okD(4) [OF c(1)] lf(1) c(4) by simp
    have sub: "set (AList.delete n xs) \<subseteq> set xs" for xs :: "(u64 \<times> FileMetaData) list"
      by (auto simp: AList.delete_eq)
    have state: "vb_levels ?b ! l = ls" using lf(1) c by simp
    note d = level_okD [OF lev, unfolded c(3,4)]
    show "level_ok ?b l"
      by (rule level_okI; unfold state)
        (use d in \<open>auto simp: ls_def c delete_conv' distinct_delete dest: subsetD [OF sub]
          simp del: map_of_eq_Some_iff not_None_eq\<close>)
  qed simp
  moreover have "builder_lsm ?b = p"
    using builder_files_put_level [OF c(1), of l "-1" n ls] c lf(1) p
    by (simp add: builder_lsm_def ls_def delete_conv')
  ultimately show "\<exists>b'. ApplyFileDeletion (level, n) b = Ok (StatusOK, b') \<and> builder_ok b' \<and>
      vb_base b' = base \<and> builder_lsm b' = p"
    using c(3) by auto
qed

lemma ApplyFileAddition_refines:
  assumes "0 \<le> level" and "level < int (length (vs_files base))"
  shows "refines base (ApplyFileAddition (level, f)) (spec_addition (level, f))"
proof (rule refinesI)
  fix b
  assume b: "builder_ok b" "vb_base b = base" and s: "spec_addition (level, f) (builder_lsm b) = None"
  have "GetCurrentLevelForTableFile (file_number f) b \<noteq> -1"
    using s by (auto simp: current_level [OF b(1)] spec_addition_def builder_lsm_def split: option.splits)
  moreover have "\<not> level \<ge> int (num_levels b)" using assms(2) builder_okD(2) [OF b(1)] b(2) by simp
  ultimately show "ApplyFileAddition (level, f) b = Ok (Corruption, b)"
    by (simp add: ApplyFileAddition_def Let_def)
next
  fix b p
  let ?n = "file_number f"
  assume b: "builder_ok b" "vb_base b = base" and s: "spec_addition (level, f) (builder_lsm b) = Some p"
  obtain l where level: "level = int l" using assms(1) by (metis nonneg_int_cases)
  have none: "builder_files b ?n = None" and p: "p = ((builder_files b)(?n \<mapsto> (l, f)), builder_blobs b)"
    using s by (auto simp: spec_addition_def builder_lsm_def level split: option.splits)
  note ok = builder_okD [OF b(1)]
  have l: "l < num_levels b" using assms(2) ok(2) b(2) level by simp
  have table: "vb_table_file_levels b ?n \<noteq> Some (int k)" for k
    using none by (auto simp: builder_files_def)
  have lev: "level_ok b l" using ok(4) l by simp
  have new: "map_of (ls_added_files (vb_levels b ! l)) ?n = None" using level_okD(3) [OF lev] table by simp
  define c where "c = (if fm_oldest_blob_file_number f \<noteq> kInvalidBlobFileNumber \<and>
        IsBlobFileInVersion (fm_oldest_blob_file_number f) b
      then update_delta (fm_oldest_blob_file_number f) (LinkSst ?n) b else b)"
  have c: "builder_ok c" "builder_lsm c = builder_lsm b" "vb_base c = base" "vb_levels c = vb_levels b"
    "vb_table_file_levels c = vb_table_file_levels b"
    using b update_delta_keeps [OF b(1), of "fm_oldest_blob_file_number f" "LinkSst ?n"]
    by (auto simp: c_def LinkSst_def)
  define ls where "ls = (vb_levels b ! l)\<lparr>ls_deleted_files := ls_deleted_files (vb_levels b ! l) - {?n},
      ls_added_files := (?n, f) # ls_added_files (vb_levels b ! l)\<rparr>"
  let ?b = "put_level (int l) ls ?n (int l) c"
  have cur: "GetCurrentLevelForTableFile ?n b = -1" by (simp add: current_level [OF b(1)] none)
  have "ApplyFileAddition (level, f) b = Ok (StatusOK, ?b)"
    using l level_state_ok [OF l] new
    by (simp add: ApplyFileAddition_def cur level c_def [symmetric] ls_def Let_def)
  moreover have "builder_ok ?b"
  proof (rule put_level_ok [OF c(1)])
    show "l < num_levels c" using l c by simp
    show "vb_table_file_levels c ?n \<noteq> Some (int k)" for k using table c by simp
    show "vb_table_file_levels c ?n \<noteq> None" if "vs_file_locations (vb_base c) ?n = Some (k, p)" "k \<noteq> l" for k p
      using that none b(2) by (cases "vb_table_file_levels b ?n") (auto simp: c builder_files_def version_files_def)
    have lev: "level_ok c l" using builder_okD(4) [OF c(1)] l c(4) by simp
    have "?n \<notin> fst ` set (ls_added_files (vb_levels b ! l))" using new by (simp add: map_of_eq_None_iff)
    moreover have state: "vb_levels ?b ! l = ls" using l c by simp
    moreover note d = level_okD [OF lev, unfolded c(3,4)]
    ultimately show "level_ok ?b l"
      by (intro level_okI; unfold state)
        (use d in \<open>auto simp: ls_def c simp del: map_of_eq_Some_iff not_None_eq\<close>)
  qed simp
  moreover have "builder_lsm ?b = p"
    using builder_files_put_level [OF c(1), of l "int l" ?n ls] c l p
    by (simp add: builder_lsm_def ls_def)
  ultimately show "\<exists>b'. ApplyFileAddition (level, f) b = Ok (StatusOK, b') \<and> builder_ok b' \<and>
      vb_base b' = base \<and> builder_lsm b' = p"
    using c(3) by auto
qed

text \<open>Levels of an edit that the base version has.\<close>

definition levels_in_range :: "nat \<Rightarrow> VersionEdit \<Rightarrow> bool" where
  "levels_in_range levels e \<longleftrightarrow>
     (\<forall>(l, n) \<in> set (ve_deleted_files e). 0 \<le> l \<and> l < int levels) \<and>
     (\<forall>(l, f) \<in> set (ve_new_files e). 0 \<le> l \<and> l < int levels)"

lemma BuilderApply_refines:
  assumes "levels_in_range (length (vs_files base)) e"
    and "CheckConsistency icmp (length (vs_files base)) base = StatusOK"
  shows "refines base (BuilderApply icmp e) (spec_edit e)"
proof -
  have "refines base (apply_all ApplyFileDeletion (ve_deleted_files e)) (spec_all spec_deletion (ve_deleted_files e))"
    using assms(1) ApplyFileDeletion_refines
    by (intro refines_all ballI) (auto simp: levels_in_range_def simp del: split_paired_All)
  moreover have "refines base (apply_all ApplyFileAddition (ve_new_files e)) (spec_all spec_addition (ve_new_files e))"
    using assms(1) ApplyFileAddition_refines
    by (intro refines_all ballI) (auto simp: levels_in_range_def simp del: split_paired_All)
  moreover have "refines base (apply_all ApplyBlobFileAddition (ve_blob_file_additions e))
      (spec_all spec_blob_addition (ve_blob_file_additions e))"
    by (intro refines_all ballI ApplyBlobFileAddition_refines)
  moreover have "refines base (apply_all ApplyBlobFileGarbage (ve_blob_file_garbages e))
      (spec_all spec_blob_garbage (ve_blob_file_garbages e))"
    by (intro refines_all ballI ApplyBlobFileGarbage_refines)
  ultimately have "refines base
      (\<lambda>b. sbind (apply_all ApplyBlobFileAddition (ve_blob_file_additions e) b) (\<lambda>b.
        sbind (apply_all ApplyBlobFileGarbage (ve_blob_file_garbages e) b) (\<lambda>b.
        sbind (apply_all ApplyFileDeletion (ve_deleted_files e) b)
          (apply_all ApplyFileAddition (ve_new_files e))))) (spec_edit e)"
    unfolding spec_edit_def by (metis (no_types) refines_sbind)
  moreover have "BuilderApply icmp e b =
      sbind (apply_all ApplyBlobFileAddition (ve_blob_file_additions e) b) (\<lambda>b.
        sbind (apply_all ApplyBlobFileGarbage (ve_blob_file_garbages e) b) (\<lambda>b.
        sbind (apply_all ApplyFileDeletion (ve_deleted_files e) b)
          (apply_all ApplyFileAddition (ve_new_files e))))"
    if "builder_ok b" "vb_base b = base" for b
    using assms(2) builder_okD(2) [OF that(1)] that(2) by (simp add: BuilderApply_def sbind_def)
  ultimately show ?thesis unfolding refines_def by simp
qed

lemma BuilderApplyAll_refines:
  assumes "\<forall>e \<in> set es. levels_in_range (length (vs_files base)) e"
    and "CheckConsistency icmp (length (vs_files base)) base = StatusOK"
  shows "refines base (apply_all (BuilderApply icmp) es) (spec_all spec_edit es)"
  using assms by (intro refines_all ballI BuilderApply_refines) auto

section \<open>Saving a builder\<close>

text \<open>The invariant of a version.\<close>

definition version_ok :: "(bytes \<Rightarrow> bytes \<Rightarrow> int) \<Rightarrow> VersionStorageInfo \<Rightarrow> bool" where
  "version_ok icmp v \<longleftrightarrow>
     locations_ok v \<and> (\<forall>l < length (vs_files v). sorted_wrt (FileComparator icmp l) (vs_files v ! l)) \<and>
     omap_ok (vs_blob_files v) \<and>
     (\<forall>(n, m) \<in> set (vs_blob_files v). sb_blob_file_number (bm_shared_meta m) = n)"

lemma version_files_location:
  "version_files v n = Some (l, f) \<Longrightarrow> \<exists>p. vs_file_locations v n = Some (l, p)"
  by (auto simp: version_files_def split: option.splits)

lemma locations_distinct:
  assumes "locations_ok v" and "l < length (vs_files v)"
  shows "distinct (map file_number (vs_files v ! l))"
  unfolding distinct_conv_nth
proof (intro allI impI)
  fix i j
  assume "i < length (map file_number (vs_files v ! l))" "j < length (map file_number (vs_files v ! l))" "i \<noteq> j"
  then show "map file_number (vs_files v ! l) ! i \<noteq> map file_number (vs_files v ! l) ! j"
    using assms unfolding locations_ok_def by (metis length_map nth_map option.inject prod.inject)
qed

lemma builder_files_cases:
  assumes "builder_ok b" and "l < num_levels b"
  shows "builder_files b n = Some (l, f) \<longleftrightarrow>
    n \<notin> ls_deleted_files (vb_levels b ! l) \<and>
    (map_of (ls_added_files (vb_levels b ! l)) n = Some f \<or>
     map_of (ls_added_files (vb_levels b ! l)) n = None \<and>
     f \<in> set (vs_files (vb_base b) ! l) \<and> file_number f = n)"
proof -
  note ok = builder_okD [OF assms(1)] and lev = level_okD [OF builder_okD(4) [OF assms]]
  have l: "l < length (vs_files (vb_base b))" using ok(2) assms(2) by simp
  show ?thesis
  proof (cases "vb_table_file_levels b n")
    case None
    then have "map_of (ls_added_files (vb_levels b ! l)) n = None" by (simp add: lev(3))
    moreover have "builder_files b n = Some (l, f) \<longleftrightarrow> f \<in> set (vs_files (vb_base b) ! l) \<and> file_number f = n"
      using None l version_files_iff [OF ok(1)] by (simp add: builder_files_def)
    moreover have "n \<notin> ls_deleted_files (vb_levels b ! l)" if "builder_files b n = Some (l, f)"
    proof -
      have "version_files (vb_base b) n = Some (l, f)" using that None by (simp add: builder_files_def)
      then show ?thesis using lev(5) None version_files_location by blast
    qed
    ultimately show ?thesis by auto
  next
    case (Some x)
    show ?thesis
    proof (cases "x = int l")
      case True
      then obtain g where "map_of (ls_added_files (vb_levels b ! l)) n = Some g"
        using lev(3) [of n] Some by auto
      then show ?thesis using lev(4) [of n] Some True by (auto simp: builder_files_def)
    next
      case False
      then have none: "map_of (ls_added_files (vb_levels b ! l)) n = None" using lev(3) Some by simp
      have "builder_files b n \<noteq> Some (l, f)"
        using ok(3) [OF Some] False Some by (auto simp: builder_files_def)
      moreover have "n \<in> ls_deleted_files (vb_levels b ! l)"
        if "f \<in> set (vs_files (vb_base b) ! l)" "file_number f = n"
      proof -
        have "version_files (vb_base b) n = Some (l, f)" using that l version_files_iff [OF ok(1)] by simp
        then show ?thesis using lev(5) none Some version_files_location by fastforce
      qed
      ultimately show ?thesis using none by auto
    qed
  qed
qed

lemma saved_files_mset:
  "mset (saved_files icmp b l) =
     mset (filter (\<lambda>f. kept (vb_levels b ! l) (True, f)) (map snd (ls_added_files (vb_levels b ! l)))) +
     mset (filter (\<lambda>f. kept (vb_levels b ! l) (False, f)) (vs_files (vb_base b) ! l))"
proof -
  have "image_mset snd (filter_mset P (image_mset (Pair t) M)) = filter_mset (\<lambda>f. P (t, f)) M"
    for P and t :: bool and M :: "FileMetaData multiset"
    by (induction M) auto
  then show ?thesis by (simp add: saved_files_def Let_def mset_merge_files mset_std_sort)
qed

lemma saved_files_spec:
  assumes "builder_ok b" and "l < num_levels b"
  shows "f \<in> set (saved_files icmp b l) \<longleftrightarrow> builder_files b (file_number f) = Some (l, f)"
    and "distinct (map file_number (saved_files icmp b l))"
proof -
  note ok = builder_okD [OF assms(1)] and lev = level_okD [OF builder_okD(4) [OF assms]]
  let ?ls = "vb_levels b ! l"
  let ?as = "filter (\<lambda>f. kept ?ls (True, f)) (map snd (ls_added_files ?ls))"
  let ?bs = "filter (\<lambda>f. kept ?ls (False, f)) (vs_files (vb_base b) ! l)"
  have added: "f \<in> snd ` set (ls_added_files ?ls) \<longleftrightarrow> map_of (ls_added_files ?ls) (file_number f) = Some f" for f
    using lev(1,2) by (auto simp: image_iff map_of_eq_Some_iff) (metis lev(2) snd_conv)
  have set: "set (saved_files icmp b l) = set ?as \<union> set ?bs"
    by (metis saved_files_mset set_mset_mset set_mset_union)
  show "f \<in> set (saved_files icmp b l) \<longleftrightarrow> builder_files b (file_number f) = Some (l, f)"
    unfolding set builder_files_cases [OF assms] by (auto simp: kept_def added)
  have "map file_number (map snd (ls_added_files ?ls)) = map fst (ls_added_files ?ls)"
    using lev(2) by (auto simp: map_eq_conv)
  then have "distinct (map file_number ?as)" using lev(1) by (metis distinct_map_filter)
  moreover have "distinct (map file_number ?bs)"
    using locations_distinct [OF ok(1)] assms(2) ok(2) by (simp add: distinct_map_filter)
  moreover have "file_number ` set ?as \<inter> file_number ` set ?bs = {}"
    using lev(2) by (auto simp: kept_def map_of_eq_None_iff image_iff)
  ultimately have "distinct (map file_number (?as @ ?bs))" by simp
  moreover have "mset (map file_number (saved_files icmp b l)) = mset (map file_number (?as @ ?bs))"
    by (simp add: saved_files_mset)
  ultimately show "distinct (map file_number (saved_files icmp b l))"
    using mset_eq_imp_distinct_iff by blast
qed

lemma saved_files_sorted:
  assumes "comparator icmp" and "builder_ok b" and "l < num_levels b"
    and "sorted_wrt (FileComparator icmp l) (vs_files (vb_base b) ! l)"
  shows "sorted_wrt (FileComparator icmp l) (saved_files icmp b l)"
proof -
  note order = file_comparator_order [OF assms(1), of l]
  note lev = level_okD [OF builder_okD(4) [OF assms(2,3)]]
  let ?as = "map snd (ls_added_files (vb_levels b ! l))" and ?lt = "FileComparator icmp l"
  have "map file_number ?as = map fst (ls_added_files (vb_levels b ! l))"
    using lev(2) by (auto simp: map_eq_conv)
  then have "distinct (map file_number ?as)" using lev(1) by metis
  then have "distinct (map file_number (std_sort ?lt ?as))" by (rule distinct_std_sort)
  then have "sorted_wrt ?lt (std_sort ?lt ?as)"
    using file_order.strictly_sorted [OF order] file_order.sorted_std_sort [OF order] by blast
  then have "sorted_wrt (\<lambda>p q. \<not> ?lt (snd q) (snd p)) (merge_files ?lt (std_sort ?lt ?as) (vs_files (vb_base b) ! l))"
    using file_order.sorted_merge_files [OF order] file_order.strict_weak [OF order assms(4)] by blast
  then have "sorted_wrt (\<lambda>f g. \<not> ?lt g f) (saved_files icmp b l)"
    by (simp add: saved_files_def Let_def sorted_wrt_map sorted_wrt_filter)
  then show ?thesis
    using file_order.strictly_sorted [OF order] saved_files_spec(2) [OF assms(2,3)] by blast
qed
lemma StorageAddFiles_length [simp]:
  "level < length (vs_files v) \<Longrightarrow> length (vs_files (StorageAddFiles level fs v)) = length (vs_files v)"
  by (simp add: StorageAddFiles_files)

lemma SaveLevels_files:
  assumes "k \<le> m"
  shows "vs_files (foldl (SaveLevel icmp b) (NewVersionStorageInfo m force) [0..<k]) =
      map (saved_files icmp b) [0..<k] @ replicate (m - k) [] \<and>
    vs_blob_files (foldl (SaveLevel icmp b) (NewVersionStorageInfo m force) [0..<k]) = [] \<and>
    vs_force_consistency_checks (foldl (SaveLevel icmp b) (NewVersionStorageInfo m force) [0..<k]) = force"
  using assms
proof (induction k)
  case (Suc k)
  have "m - k = Suc (m - Suc k)" using Suc.prems by simp
  then have "(replicate (m - k) [])[0 := x] = x # replicate (m - Suc k) []" for x :: "FileMetaData list"
    by (simp only: replicate_Suc list_update_code)
  then show ?case using Suc
    by (simp add: SaveLevel_adds StorageAddFiles_files nth_append list_update_append)
qed (simp add: NewVersionStorageInfo_def)

lemma SaveLevels_locations:
  assumes "builder_ok b" and "k \<le> num_levels b"
  shows "locations_ok (foldl (SaveLevel icmp b) (NewVersionStorageInfo (num_levels b) force) [0..<k])"
  using assms(2)
proof (induction k)
  case 0
  then show ?case by (simp add: NewVersionStorageInfo_def locations_ok_def cong: conj_cong)
next
  case (Suc k)
  let ?v = "foldl (SaveLevel icmp b) (NewVersionStorageInfo (num_levels b) force) [0..<k]"
  have files: "vs_files ?v = map (saved_files icmp b) [0..<k] @ replicate (num_levels b - k) []"
    using SaveLevels_files [of k "num_levels b"] Suc.prems by simp
  have ok: "locations_ok ?v" using Suc by simp
  have "version_files ?v (file_number f) = None" if "f \<in> set (saved_files icmp b k)" for f
  proof (rule ccontr)
    assume "version_files ?v (file_number f) \<noteq> None"
    then obtain l g where g: "version_files ?v (file_number f) = Some (l, g)" by auto
    then have "l < length (vs_files ?v)" "g \<in> set (vs_files ?v ! l)" "file_number g = file_number f"
      using version_files_iff [OF ok] by auto
    then have "l < k" "g \<in> set (saved_files icmp b l)"
      by (auto simp: files nth_append split: if_splits)
    then have "builder_files b (file_number f) = Some (l, g)"
      using saved_files_spec(1) [OF assms(1), of l g icmp] Suc.prems \<open>file_number g = file_number f\<close> by simp
    then show False
      using saved_files_spec(1) [OF assms(1), of k f icmp] Suc.prems that \<open>l < k\<close> by simp
  qed
  moreover have "k < length (vs_files ?v)" using Suc.prems by (simp add: files)
  moreover have "distinct (map file_number (saved_files icmp b k))"
    using saved_files_spec(2) [OF assms(1)] Suc.prems by simp
  ultimately have "locations_ok (StorageAddFiles k (saved_files icmp b k) ?v)"
    by (intro StorageAddFiles_ok [OF ok]) auto
  then show ?case by (simp add: SaveLevel_adds [of _ _ ?v])
qed

text \<open>What the merge of the blob files does: it changes nothing else, and it never lacks metadata.\<close>

definition only_blobs_changed :: "u64 set \<Rightarrow> VersionStorageInfo \<Rightarrow> VersionStorageInfo \<Rightarrow> bool" where
  "only_blobs_changed ns v v' \<longleftrightarrow>
     vs_files v' = vs_files v \<and> vs_file_locations v' = vs_file_locations v \<and>
     vs_force_consistency_checks v' = vs_force_consistency_checks v \<and>
     (omap_ok (vs_blob_files v) \<longrightarrow> omap_ok (vs_blob_files v')) \<and>
     (\<forall>(n, m) \<in> set (vs_blob_files v').
        (n, m) \<in> set (vs_blob_files v) \<or> sb_blob_file_number (bm_shared_meta m) = n \<and> n \<in> ns)"

lemma omap_insert_mem: "p \<in> set (omap_insert k v m) \<Longrightarrow> p \<in> set m \<or> p = (k, v)"
  by (induction m) (auto split: if_splits)

lemma only_blobs_changed_add:
  assumes "only_blobs_changed ns v v'" and "sb_blob_file_number (bm_shared_meta m) \<in> ns"
  shows "only_blobs_changed ns v (snd (AddBlobFileIfNeeded m (found, v')))"
proof -
  let ?n = "sb_blob_file_number (bm_shared_meta m)"
  have "only_blobs_changed ns v (StorageAddBlobFile m v')"
    unfolding only_blobs_changed_def
  proof (intro conjI ballI)
    fix p
    assume "p \<in> set (vs_blob_files (StorageAddBlobFile m v'))"
    then have "p \<in> set (vs_blob_files v') \<or> p = (?n, m)"
      using omap_insert_mem [of p ?n m] by (simp add: StorageAddBlobFile_def)
    then show "case p of (n, m) \<Rightarrow> (n, m) \<in> set (vs_blob_files v) \<or>
        sb_blob_file_number (bm_shared_meta m) = n \<and> n \<in> ns"
      using assms unfolding only_blobs_changed_def by auto
  qed (use assms(1) in \<open>auto simp: only_blobs_changed_def StorageAddBlobFile_def intro: omap_ok_put\<close>)
  then show ?thesis using assms(1) by (simp add: AddBlobFileIfNeeded_def)
qed

lemma SaveBlobFilesLoop_ok:
  assumes "omap_ok bs" and "omap_ok ds" and "only_blobs_changed ns v (snd p)"
    and "\<forall>(n, m) \<in> set bs. sb_blob_file_number (bm_shared_meta m) = n \<and> n \<in> ns"
    and "\<forall>(n, d) \<in> set ds. n \<in> ns \<and>
      (case bd_shared_meta d of None \<Rightarrow> n \<in> fst ` set bs | Some m \<Rightarrow> sb_blob_file_number m = n)"
  shows "\<exists>p'. SaveBlobFilesLoop bs ds p = Ok p' \<and> only_blobs_changed ns v (snd p')"
  using assms
proof (induction bs ds p rule: SaveBlobFilesLoop.induct)
  case (1 p)
  then show ?case by simp
next
  case (2 n m bs p)
  then show ?case using only_blobs_changed_add [of ns v "snd p" m "fst p"] by simp
next
  case (3 n d ds p)
  then obtain m where "bd_shared_meta d = Some m" "sb_blob_file_number m = n" by (auto split: option.splits)
  then obtain m' where m': "CreateMetaDataForNewBlobFile d = Ok m'" "sb_blob_file_number (bm_shared_meta m') = n"
    by (auto simp: CreateMetaDataForNewBlobFile_def)
  then show ?case using 3 only_blobs_changed_add [of ns v "snd p" m' "fst p"] by simp
next
  case (4 n m bs n' d ds p)
  note add = only_blobs_changed_add [of ns v "snd p" _ "fst p", simplified]
  have keys: "\<forall>k \<in> fst ` set bs. n < k" "\<forall>k \<in> fst ` set ds. n' < k" "omap_ok bs" "omap_ok ds"
    using 4(4,5) by auto
  have bs: "sb_blob_file_number (bm_shared_meta m) = n" "n \<in> ns"
    "\<forall>(n, m) \<in> set bs. sb_blob_file_number (bm_shared_meta m) = n \<and> n \<in> ns"
    using 4(7) by auto
  have ds: "k \<in> ns \<and> (case bd_shared_meta x of
      None \<Rightarrow> k \<in> insert n (fst ` set bs) | Some m \<Rightarrow> sb_blob_file_number m = k)"
    if "(k, x) \<in> set ((n', d) # ds)" for k x
    using bspec [OF 4(8) that] by (simp split: option.splits)
  consider "n < n'" | "n' < n" | "n = n'" by fastforce
  then show ?case
  proof cases
    case 1
    have "\<forall>(k, x) \<in> set ((n', d) # ds). k \<in> ns \<and> (case bd_shared_meta x of
        None \<Rightarrow> k \<in> fst ` set bs | Some m \<Rightarrow> sb_blob_file_number m = k)"
      using ds keys(2) 1 by (fastforce split: option.splits)
    then show ?thesis using 4(1) [OF 1 keys(3) 4(5)] add [OF 4(6)] bs 1 by simp
  next
    case 2
    have "n' \<notin> insert n (fst ` set bs)" using keys(1) 2 by auto
    then obtain m' where "bd_shared_meta d = Some m'" "sb_blob_file_number m' = n'"
      using ds [of n' d] by (auto split: option.splits)
    then obtain m' where m': "CreateMetaDataForNewBlobFile d = Ok m'"
      "sb_blob_file_number (bm_shared_meta m') = n'" "n' \<in> ns"
      using ds [of n' d] by (auto simp: CreateMetaDataForNewBlobFile_def)
    have "\<forall>(k, x) \<in> set ds. k \<in> ns \<and> (case bd_shared_meta x of
        None \<Rightarrow> k \<in> fst ` set ((n, m) # bs) | Some m \<Rightarrow> sb_blob_file_number m = k)"
      using ds by (fastforce split: option.splits)
    then show ?thesis using 4(2) [OF _ 2 m'(1) 4(4) keys(4)] add [OF 4(6)] m' 2 4(7) by auto
  next
    case 3
    have "\<forall>(k, x) \<in> set ds. k \<in> ns \<and> (case bd_shared_meta x of
        None \<Rightarrow> k \<in> fst ` set bs | Some m \<Rightarrow> sb_blob_file_number m = k)"
      using ds keys(2) 3 by (fastforce split: option.splits)
    moreover have "bm_shared_meta (GetOrCreateMetaDataForExistingBlobFile m d) = bm_shared_meta m"
      by (simp add: GetOrCreateMetaDataForExistingBlobFile_def)
    ultimately show ?thesis using 4(3) [OF _ _ keys(3,4)] add [OF 4(6)] bs 3 by simp
  qed
qed

lemma CheckConsistency_new: "CheckConsistency icmp k (NewVersionStorageInfo m force) = StatusOK"
proof -
  have "CheckLevels icmp l (replicate n []) expected = (StatusOK, expected)" for l n expected
    by (induction n arbitrary: l) auto
  then show ?thesis
    by (simp add: CheckConsistency_def CheckConsistencyDetails_def NewVersionStorageInfo_def)
qed

lemma builder_blobs_keys:
  assumes "builder_ok b" and "n \<in> fst ` set (vs_blob_files (vb_base b)) \<union> fst ` set (vb_blob_deltas b)"
  shows "n \<in> builder_blobs b"
proof -
  note blobs = builder_okD(5) [OF assms(1)]
  have base: "n \<in> builder_blobs b" if "n \<in> fst ` set (vs_blob_files (vb_base b))"
    using that map_of_eq_None_iff [of "vs_blob_files (vb_base b)" n]
    by (simp add: builder_blobs_def IsBlobFileInVersion_def)
  show ?thesis
  proof (cases "map_of (vb_blob_deltas b) n")
    case None
    then show ?thesis using assms(2) base map_of_eq_None_iff [of "vb_blob_deltas b" n] by auto
  next
    case (Some d)
    then show ?thesis using blobs_ok_deltas [OF blobs Some] base
      by (cases "bd_shared_meta d") (auto simp: delta_ok_def builder_blobs_def IsBlobFileInVersion_def)
  qed
qed

lemma SaveTo_saves:
  assumes "comparator icmp" and "builder_ok b" and "version_ok icmp (vb_base b)"
    and "CheckConsistency icmp (num_levels b) (vb_base b) = StatusOK"
  shows "\<exists>v. SaveTo icmp b (NewVersionStorageInfo (num_levels b) force) =
      Ok (CheckConsistency icmp (num_levels b) v, v) \<and> version_ok icmp v \<and>
    length (vs_files v) = num_levels b \<and> vs_force_consistency_checks v = force \<and>
    version_files v = builder_files b \<and> fst ` set (vs_blob_files v) \<subseteq> builder_blobs b"
proof -
  note ok = builder_okD [OF assms(2)]
  let ?v = "foldl (SaveLevel icmp b) (NewVersionStorageInfo (num_levels b) force) [0..<num_levels b]"
  have files: "vs_files ?v = map (saved_files icmp b) [0..<num_levels b]" "vs_blob_files ?v = []"
    "vs_force_consistency_checks ?v = force"
    using SaveLevels_files [of "num_levels b" "num_levels b" icmp b force] by auto
  have loc: "locations_ok ?v" by (rule SaveLevels_locations [OF assms(2)]) simp
  have "\<forall>(n, m) \<in> set (vs_blob_files (vb_base b)).
      sb_blob_file_number (bm_shared_meta m) = n \<and> n \<in> builder_blobs b"
    using ok(5) builder_blobs_keys [OF assms(2)] unfolding blobs_ok_def by force
  moreover have "\<forall>(n, d) \<in> set (vb_blob_deltas b). n \<in> builder_blobs b \<and>
      (case bd_shared_meta d of None \<Rightarrow> n \<in> fst ` set (vs_blob_files (vb_base b))
       | Some m \<Rightarrow> sb_blob_file_number m = n)"
    using ok(5) builder_blobs_keys [OF assms(2)] unfolding blobs_ok_def by force
  moreover have "only_blobs_changed (builder_blobs b) ?v (snd (False, ?v))"
    unfolding only_blobs_changed_def by auto
  ultimately obtain p where "SaveBlobFilesLoop (vs_blob_files (vb_base b)) (vb_blob_deltas b) (False, ?v) = Ok p"
    "only_blobs_changed (builder_blobs b) ?v (snd p)"
    using ok(5) SaveBlobFilesLoop_ok unfolding blobs_ok_def by blast
  then obtain v where v: "SaveBlobFilesTo b ?v = Ok v" "only_blobs_changed (builder_blobs b) ?v v"
    by (cases p) (auto simp: SaveBlobFilesTo_def)
  have same: "vs_files v = vs_files ?v" "vs_file_locations v = vs_file_locations ?v"
    "vs_force_consistency_checks v = force" "omap_ok (vs_blob_files v)"
    using v(2) files unfolding only_blobs_changed_def by auto
  have blobs: "\<forall>(n, m) \<in> set (vs_blob_files v). sb_blob_file_number (bm_shared_meta m) = n \<and> n \<in> builder_blobs b"
    using v(2) files(2) unfolding only_blobs_changed_def by auto
  have loc': "locations_ok v" using loc same unfolding locations_ok_def by simp
  have "sorted_wrt (FileComparator icmp l) (vs_files v ! l)" if "l < length (vs_files v)" for l
  proof -
    have l: "l < num_levels b" "vs_files v ! l = saved_files icmp b l" using that by (simp_all add: same files)
    then have "sorted_wrt (FileComparator icmp l) (vs_files (vb_base b) ! l)"
      using assms(3) ok(2) unfolding version_ok_def by metis
    then show ?thesis using saved_files_sorted [OF assms(1,2) l(1)] l(2) by simp
  qed
  then have "version_ok icmp v" using loc' same(4) blobs unfolding version_ok_def by auto
  moreover have "version_files v = builder_files b"
  proof
    fix n
    have "version_files v n = Some (l, f) \<longleftrightarrow> builder_files b n = Some (l, f)" for l f
      using version_files_iff [OF loc', of n l f] saved_files_spec(1) [OF assms(2), of l f icmp]
        builder_files_level(1,2) [OF assms(2), of n l f]
      by (auto simp: same files)
    then show "version_files v n = builder_files b n"
      by (metis option.exhaust surj_pair)
  qed
  moreover have "SaveTo icmp b (NewVersionStorageInfo (num_levels b) force) =
      Ok (CheckConsistency icmp (num_levels b) v, v)"
    using v(1) assms(4) CheckConsistency_new [of icmp "num_levels b" "num_levels b" force]
    by (simp add: SaveTo_def sbind_def) (simp add: NewVersionStorageInfo_def)
  moreover have "fst ` set (vs_blob_files v) \<subseteq> builder_blobs b" using blobs by auto
  ultimately show ?thesis using same files by auto
qed

section \<open>From a version to the next\<close>

lemma NewVersionBuilder_ok:
  assumes "version_ok icmp base"
  shows "builder_ok (NewVersionBuilder base)"
    and "builder_lsm (NewVersionBuilder base) = (version_files base, fst ` set (vs_blob_files base))"
proof -
  let ?b = "NewVersionBuilder base"
  have fields: "vb_base ?b = base" "num_levels ?b = length (vs_files base)"
    "vb_table_file_levels ?b = Map.empty" "vb_blob_deltas ?b = []"
    by (simp_all add: NewVersionBuilder_def)
  have "level_ok ?b l" if "l < num_levels ?b" for l
  proof -
    have "vb_levels ?b ! l = \<lparr>ls_deleted_files = {}, ls_added_files = []\<rparr>"
      using that by (simp add: NewVersionBuilder_def)
    then show ?thesis by (intro level_okI) (simp_all add: fields)
  qed
  then show "builder_ok ?b"
    using assms unfolding builder_ok_def blobs_ok_def fields version_ok_def by simp
  show "builder_lsm ?b = (version_files base, fst ` set (vs_blob_files base))"
    using map_of_eq_None_iff [of "vs_blob_files base"]
    by (auto simp: builder_lsm_def builder_files_def [abs_def] builder_blobs_def IsBlobFileInVersion_def fields
        simp del: not_None_eq)
qed

text \<open>
  The contract of the builder: the edits apply exactly when the specification has a result, and then
  the saved version has the specified files, in order, and satisfies the invariant again.
\<close>

lemma builder_saves_specified:
  assumes "comparator icmp" and "version_ok icmp base"
    and "CheckConsistency icmp (length (vs_files base)) base = StatusOK"
    and "\<forall>e \<in> set es. levels_in_range (length (vs_files base)) e"
  shows "\<exists>s b v. apply_all (BuilderApply icmp) es (NewVersionBuilder base) = Ok (s, b) \<and>
    (case spec_all spec_edit es (version_files base, fst ` set (vs_blob_files base)) of
       None \<Rightarrow> s \<noteq> StatusOK
     | Some (files, blobs) \<Rightarrow>
         s = StatusOK \<and>
         SaveTo icmp b (NewVersionStorageInfo (length (vs_files base)) force) =
           Ok (CheckConsistency icmp (length (vs_files base)) v, v) \<and>
         version_ok icmp v \<and> length (vs_files v) = length (vs_files base) \<and>
         version_files v = files \<and> fst ` set (vs_blob_files v) \<subseteq> blobs)"
proof -
  note new = NewVersionBuilder_ok [OF assms(2)]
  have "vb_base (NewVersionBuilder base) = base" by (simp add: NewVersionBuilder_def)
  from refinesD [OF BuilderApplyAll_refines [OF assms(4,3)] new(1) this]
  obtain s b where b: "apply_all (BuilderApply icmp) es (NewVersionBuilder base) = Ok (s, b)"
    "builder_ok b" "vb_base b = base"
    "spec_all spec_edit es (builder_lsm (NewVersionBuilder base)) = None \<Longrightarrow> s \<noteq> StatusOK"
    "\<And>p. spec_all spec_edit es (builder_lsm (NewVersionBuilder base)) = Some p \<Longrightarrow>
      s = StatusOK \<and> builder_lsm b = p"
    by metis
  have levels: "num_levels b = length (vs_files base)" using builder_okD(2) [OF b(2)] b(3) by simp
  obtain v where "SaveTo icmp b (NewVersionStorageInfo (length (vs_files base)) force) =
      Ok (CheckConsistency icmp (length (vs_files base)) v, v)" "version_ok icmp v"
    "length (vs_files v) = length (vs_files base)" "version_files v = builder_files b"
    "fst ` set (vs_blob_files v) \<subseteq> builder_blobs b"
    using SaveTo_saves [OF assms(1) b(2), of force] assms(2,3) b(3) unfolding levels by auto
  moreover note spec = b(4,5) [unfolded new(2)]
  ultimately show ?thesis
    using b(1) by (intro exI [of _ s] exI [of _ b] exI [of _ v])
      (auto simp: builder_lsm_def dest: spec split: option.splits)
qed

text \<open>What the consistency check guarantees: on a level above 0, two files never overlap.\<close>

lemma CheckLevels_level:
  "CheckLevels icmp k fss expected = (StatusOK, expected') \<Longrightarrow> l < length fss \<Longrightarrow>
   \<exists>x x'. CheckLevel icmp (k + l) (fss ! l) x = (StatusOK, x')"
proof (induction fss arbitrary: k l expected)
  case (Cons fs fss)
  then show ?case
    by (cases l) (fastforce split: prod.splits if_splits)+
qed simp

lemma CheckLevel_pairs:
  "CheckLevel icmp k fs expected = (StatusOK, expected') \<Longrightarrow> Suc i < length fs \<Longrightarrow>
   CheckPair icmp k (fs ! i) (fs ! Suc i)"
proof (induction icmp k fs expected arbitrary: i rule: CheckLevel.induct)
  case (3 icmp level f1 f2 fs expected)
  then show ?case by (cases i) (auto split: if_splits)
qed auto

lemma checked_level_disjoint:
  assumes "comparator icmp" and "CheckConsistency icmp (length (vs_files v)) v = StatusOK"
    and "vs_force_consistency_checks v" and "0 < l" and "l < length (vs_files v)"
    and "\<forall>f \<in> set (vs_files v ! l). icmp (fm_smallest f) (fm_largest f) \<le> 0"
  shows "sorted_wrt (\<lambda>f g. icmp (fm_largest f) (fm_smallest g) < 0) (vs_files v ! l)"
proof -
  let ?fs = "vs_files v ! l" and ?R = "\<lambda>f g. icmp (fm_largest f) (fm_smallest g) < 0"
  obtain x x' where "CheckLevel icmp l ?fs x = (StatusOK, x')"
    using assms(2,3,5) CheckLevels_level [of icmp 0 "vs_files v" "\<lambda>_. {}"]
    by (fastforce simp: CheckConsistency_def CheckConsistencyDetails_def split: prod.splits if_splits)
  then have next_to: "?R (?fs ! i) (?fs ! Suc i)" if "Suc i < length ?fs" for i
    using CheckLevel_pairs [OF _ that] assms(4) by (fastforce simp: CheckPair_def)
  have "?R (?fs ! i) (?fs ! (i + Suc d))" if "i + Suc d < length ?fs" for i d
    using that
  proof (induction d)
    case 0
    then show ?case using next_to by simp
  next
    case (Suc d)
    then have "?R (?fs ! i) (?fs ! (i + Suc d))"
      "icmp (fm_smallest (?fs ! (i + Suc d))) (fm_largest (?fs ! (i + Suc d))) \<le> 0"
      "?R (?fs ! (i + Suc d)) (?fs ! Suc (i + Suc d))"
      using assms(6) next_to [of "i + Suc d"] by auto
    then show ?case
      using comparator.less_le_trans [OF assms(1)] comparator.less_trans [OF assms(1)]
      by (metis add_Suc_right)
  qed
  then show ?thesis
    by (intro sorted_wrt_iff_nth_less [THEN iffD2] allI impI) (metis less_imp_Suc_add add_Suc_right)
qed

end
