(* ===== verification/Version_Set.thy ===== *)
theory Version_Set
  imports Version_Refinement Version_Codec Log_Reader Enc_Dec
begin

text \<open>
  The version set (\<open>db/version_set.h\<close>, \<open>db/version_set.cc\<close>) with its column families
  (\<open>db/column_family.cc\<close>): the counters of the database, the current version of every family, the
  set of logs and the secrets of the logs, and the writing of the manifest. Several writers wait in
  a queue, and the first one writes the edits of as many as it can. What the file system and the
  table readers answer is a parameter (\<open>manifest_io\<close>); the file that \<open>CURRENT\<close> names is the one of
  \<open>vset_manifest_file_number\<close>.
\<close>

section \<open>Column families\<close>

text \<open>The options of a family, after \<open>SanitizeOptions\<close>.\<close>

record cf_options =
  co_comparator_name :: bytes
  co_compare :: "bytes \<Rightarrow> bytes \<Rightarrow> int"
  co_num_levels :: nat
  co_force_consistency_checks :: bool

record ColumnFamilyData =
  cfd_id :: u32
  cfd_name :: bytes
  cfd_options :: cf_options
  cfd_log_number :: u64
  cfd_current :: VersionStorageInfo
  cfd_dropped :: bool

abbreviation cfd_icmp :: "ColumnFamilyData \<Rightarrow> bytes \<Rightarrow> bytes \<Rightarrow> int" where
  "cfd_icmp cfd \<equiv> InternalCompare (co_compare (cfd_options cfd))"

text \<open>A new \<open>Version\<close> of a family: no files, with the options of the family.\<close>

definition NewVersion :: "cf_options \<Rightarrow> VersionStorageInfo" where
  "NewVersion options =
     NewVersionStorageInfo (co_num_levels options) (co_force_consistency_checks options)"

text \<open>
  The families are in the order of their linked list. A family that was dropped stays in the list
  while it is referenced, but is not found by its number any more.
\<close>

record VersionSet =
  vset_families :: "ColumnFamilyData list"
  vset_max_column_family :: u32
  vset_wals :: wal_set
  vset_log_secret :: "u64 \<rightharpoonup> LogSecret"
  vset_db_id :: bytes
  vset_next_file_number :: u64
  vset_manifest_file_number :: u64
  vset_pending_manifest_file_number :: u64
  vset_last_sequence :: u64
  vset_last_allocated_sequence :: u64
  vset_last_published_sequence :: u64
  vset_prev_log_number :: u64
  vset_min_log_number_to_keep_2pc :: u64
  vset_manifest_file_size :: u64
  vset_descriptor_log :: "Writer option"
  vset_obsolete_manifests :: "u64 list"
  vset_io_status :: status

definition NewVersionSet :: VersionSet where
  "NewVersionSet =
     \<lparr>vset_families = [], vset_max_column_family = 0, vset_wals = [], vset_log_secret = Map.empty,
      vset_db_id = [], vset_next_file_number = 2, vset_manifest_file_number = 0,
      vset_pending_manifest_file_number = 0, vset_last_sequence = 0,
      vset_last_allocated_sequence = 0, vset_last_published_sequence = 0, vset_prev_log_number = 0,
      vset_min_log_number_to_keep_2pc = 0, vset_manifest_file_size = 0,
      vset_descriptor_log = None, vset_obsolete_manifests = [], vset_io_status = StatusOK\<rparr>"

text \<open>\<open>Reset\<close> leaves the secrets of the logs and the I/O status.\<close>

definition VersionSetReset :: "VersionSet \<Rightarrow> VersionSet" where
  "VersionSetReset vs =
     NewVersionSet\<lparr>vset_log_secret := vset_log_secret vs, vset_io_status := vset_io_status vs\<rparr>"

definition GetColumnFamily :: "u32 \<Rightarrow> VersionSet \<Rightarrow> ColumnFamilyData option" where
  "GetColumnFamily n vs = find (\<lambda>c. cfd_id c = n \<and> \<not> cfd_dropped c) (vset_families vs)"

definition UpdateMaxColumnFamily :: "u32 \<Rightarrow> VersionSet \<Rightarrow> VersionSet" where
  "UpdateMaxColumnFamily n vs = vs\<lparr>vset_max_column_family := max n (vset_max_column_family vs)\<rparr>"

definition GetNextColumnFamilyID :: "VersionSet \<Rightarrow> u32 \<times> VersionSet" where
  "GetNextColumnFamilyID vs =
     (vset_max_column_family vs + 1,
      vs\<lparr>vset_max_column_family := vset_max_column_family vs + 1\<rparr>)"

text \<open>The family of \<open>VersionSet::CreateColumnFamily\<close>, and its place in the set.\<close>

definition CreateColumnFamily :: "cf_options \<Rightarrow> VersionEdit \<Rightarrow> VersionSet \<Rightarrow> VersionSet" where
  "CreateColumnFamily options e vs =
     (let new_cfd = \<lparr>cfd_id = ve_column_family e, cfd_name = ve_column_family_name e,
            cfd_options = options, cfd_log_number = ve_log_number e,
            cfd_current = NewVersion options, cfd_dropped = False\<rparr>
      in UpdateMaxColumnFamily (ve_column_family e)
           (vs\<lparr>vset_families := vset_families vs @ [new_cfd]\<rparr>))"

definition upd_family :: "u32 \<Rightarrow> (ColumnFamilyData \<Rightarrow> ColumnFamilyData) \<Rightarrow> VersionSet \<Rightarrow> VersionSet" where
  "upd_family n upd vs =
     vs\<lparr>vset_families := map (\<lambda>c. if cfd_id c = n \<and> \<not> cfd_dropped c then upd c else c) (vset_families vs)\<rparr>"

definition SetDropped :: "u32 \<Rightarrow> VersionSet \<Rightarrow> VersionSet" where
  "SetDropped n vs = upd_family n (\<lambda>c. c\<lparr>cfd_dropped := True\<rparr>) vs"

text \<open>The last reference to a family that is not dropped goes: it leaves the set and the list.\<close>

definition RemoveColumnFamily :: "u32 \<Rightarrow> VersionSet \<Rightarrow> VersionSet" where
  "RemoveColumnFamily n vs =
     vs\<lparr>vset_families := filter (\<lambda>c. \<not> (cfd_id c = n \<and> \<not> cfd_dropped c)) (vset_families vs)\<rparr>"

definition AppendVersion :: "u32 \<Rightarrow> VersionStorageInfo \<Rightarrow> VersionSet \<Rightarrow> VersionSet" where
  "AppendVersion n v vs = upd_family n (\<lambda>c. c\<lparr>cfd_current := v\<rparr>) vs"

definition CfdSetLogNumber :: "u32 \<Rightarrow> u64 \<Rightarrow> VersionSet \<Rightarrow> VersionSet" where
  "CfdSetLogNumber n log_number vs = upd_family n (\<lambda>c. c\<lparr>cfd_log_number := log_number\<rparr>) vs"

section \<open>Counters and secrets\<close>

definition NewFileNumber :: "VersionSet \<Rightarrow> u64 \<times> VersionSet" where
  "NewFileNumber vs =
     (vset_next_file_number vs, vs\<lparr>vset_next_file_number := vset_next_file_number vs + 1\<rparr>)"

definition MarkFileNumberUsed :: "u64 \<Rightarrow> VersionSet \<Rightarrow> VersionSet" where
  "MarkFileNumberUsed number vs =
     (if vset_next_file_number vs \<le> number then vs\<lparr>vset_next_file_number := number + 1\<rparr> else vs)"

definition MarkMinLogNumberToKeep2PC :: "u64 \<Rightarrow> VersionSet \<Rightarrow> VersionSet" where
  "MarkMinLogNumberToKeep2PC number vs =
     (if vset_min_log_number_to_keep_2pc vs < number
      then vs\<lparr>vset_min_log_number_to_keep_2pc := number\<rparr> else vs)"

text \<open>\<open>std::map::insert\<close>: a secret that is there stays. A number that is not found is an iterator at the
  end, which is read.\<close>

definition AddReadSecret :: "u64 \<Rightarrow> LogSecret \<Rightarrow> VersionSet \<Rightarrow> VersionSet" where
  "AddReadSecret log_n sc vs =
     (case vset_log_secret vs log_n of
        None \<Rightarrow> vs\<lparr>vset_log_secret := (vset_log_secret vs)(log_n \<mapsto> sc)\<rparr> | Some _ \<Rightarrow> vs)"

definition RetrieveSecret :: "u64 \<Rightarrow> VersionSet \<Rightarrow> LogSecret outcome" where
  "RetrieveSecret log_n vs = of_opt (vset_log_secret vs log_n)"

definition DeleteSecret :: "VersionSet \<Rightarrow> VersionSet" where
  "DeleteSecret vs = vs\<lparr>vset_log_secret := Map.empty\<rparr>"

definition IsColumnFamilyManipulation :: "VersionEdit \<Rightarrow> bool" where
  "IsColumnFamilyManipulation e \<longleftrightarrow> ve_is_column_family_add e \<or> ve_is_column_family_drop e"

definition IsWalManipulation :: "VersionEdit \<Rightarrow> bool" where
  "IsWalManipulation e \<longleftrightarrow>
     NumEntries e > 0 \<and>
     (NumEntries e = length (ve_wal_additions e) \<or>
      NumEntries e = (if WalDeletionIsEmpty (ve_wal_deletion e) then 0 else 1))"

section \<open>Groups of edits that take effect together\<close>

record AtomicGroupReadBuffer =
  ag_read_edits :: u64
  ag_replay_buffer :: "VersionEdit list"

definition NewReadBuffer :: AtomicGroupReadBuffer where
  "NewReadBuffer = \<lparr>ag_read_edits = 0, ag_replay_buffer = []\<rparr>"

text \<open>
  The size of the buffer is a 32-bit sum, the number of edits has 64 bits. The test keeps the write
  inside the buffer.
\<close>

definition AddEdit :: "VersionEdit \<Rightarrow> VersionEdit \<Rightarrow> AtomicGroupReadBuffer \<Rightarrow>
    (status \<times> AtomicGroupReadBuffer) outcome" where
  "AddEdit garbage e b =
     (if ve_is_in_atomic_group e then
        (let b = (if ag_replay_buffer b = []
                  then b\<lparr>ag_replay_buffer :=
                    replicate (unat (ve_remaining_entries e + 1)) (NewVersionEdit garbage)\<rparr>
                  else b);
             b = b\<lparr>ag_read_edits := ag_read_edits b + 1\<rparr>
         in if ag_read_edits b + ucast (ve_remaining_entries e) \<noteq>
               ucast (word_of_nat (length (ag_replay_buffer b)) :: u32)
            then Ok (Corruption, b)
            else if unat (ag_read_edits b - 1) < length (ag_replay_buffer b) then
              Ok (StatusOK,
                  b\<lparr>ag_replay_buffer := (ag_replay_buffer b)[unat (ag_read_edits b - 1) := e]\<rparr>)
            else Undef)
      else if ag_replay_buffer b \<noteq> [] then Ok (Corruption, b) else Ok (StatusOK, b))"

definition IsFull :: "AtomicGroupReadBuffer \<Rightarrow> bool" where
  "IsFull b \<longleftrightarrow> ag_read_edits b = word_of_nat (length (ag_replay_buffer b))"

definition ReadBufferClear :: "AtomicGroupReadBuffer \<Rightarrow> AtomicGroupReadBuffer" where
  "ReadBufferClear b = \<lparr>ag_read_edits = 0, ag_replay_buffer = []\<rparr>"

end
