(* ===== verification/Manifest_Handler.thy ===== *)
theory Manifest_Handler
  imports Version_Set
begin

text \<open>
  Reading the manifest (\<open>db/version_edit_handler.h\<close>, \<open>db/version_edit_handler.cc\<close>, \<open>Recover\<close> and its
  variants in \<open>db/version_set.cc\<close>): every record is an edit that is handed to a handler. The handlers
  are the one that rebuilds the version set, its variant that looks for a version without missing
  files, the one that lists the column families, and the one that collects checksums
  (\<open>util/file_checksum_helper.cc\<close>).
\<close>

section \<open>Iterating over the records\<close>

text \<open>
  The virtual functions of a handler with state \<open>'h\<close>. A \<open>ColumnFamilyData **\<close> is the number of the
  family, or \<open>None\<close> for a null pointer, and is returned.
\<close>

record 'h handler_class =
  hc_initialize :: "'h \<Rightarrow> (status \<times> 'h) outcome"
  hc_apply :: "VersionEdit \<Rightarrow> u32 option \<Rightarrow> 'h \<Rightarrow> (status \<times> u32 option \<times> 'h) outcome"
  hc_check_result :: "Reader \<Rightarrow> status \<Rightarrow> 'h \<Rightarrow> (status \<times> 'h) outcome"

definition GetReadOffset :: "Reader \<Rightarrow> u64" where
  "GetReadOffset r = end_of_buffer_offset r"

text \<open>The reporter keeps the status of the first report.\<close>

definition drop_status :: "drop_reason \<Rightarrow> status" where
  "drop_status reason = (case reason of ReadFailed s \<Rightarrow> s | _ \<Rightarrow> Corruption)"

definition log_read_status :: "Reader \<Rightarrow> status" where
  "log_read_status r = (if reports r = [] then StatusOK else drop_status (snd (last (reports r))))"

fun ApplyGroup :: "'h handler_class \<Rightarrow> VersionEdit list \<Rightarrow> u32 option \<Rightarrow> 'h \<Rightarrow> (status \<times> 'h) outcome" where
  "ApplyGroup hc [] cfd h = Ok (StatusOK, h)"
| "ApplyGroup hc (e # es) cfd h =
     obind (hc_apply hc e cfd h) (\<lambda>(s, cfd, h).
       if s \<noteq> StatusOK then Ok (s, h) else ApplyGroup hc es cfd h)"

text \<open>
  One edit, and the record it comes from: the status, whether the loop is left, the read buffer and
  the handler.
\<close>

definition IterateEdit :: "'h handler_class \<Rightarrow> VersionEdit \<Rightarrow> VersionEdit \<Rightarrow> AtomicGroupReadBuffer \<Rightarrow> 'h \<Rightarrow>
    (status \<times> bool \<times> AtomicGroupReadBuffer \<times> 'h) outcome" where
  "IterateEdit hc garbage e b h =
     obind (AddEdit garbage e b) (\<lambda>(s, b).
       if s \<noteq> StatusOK then Ok (s, True, b, h)
       else if ve_is_in_atomic_group e then
         (if IsFull b then
            obind (ApplyGroup hc (ag_replay_buffer b) None h) (\<lambda>(s, h).
              if s \<noteq> StatusOK then Ok (s, True, b, h) else Ok (s, False, ReadBufferClear b, h))
          else Ok (s, False, b, h))
       else obind (hc_apply hc e None h) (\<lambda>(s, _, h). Ok (s, False, b, h)))"

definition IterateRecord :: "'h handler_class \<Rightarrow> VersionEdit \<Rightarrow> bytes \<Rightarrow> AtomicGroupReadBuffer \<Rightarrow> 'h \<Rightarrow>
    (status \<times> bool \<times> AtomicGroupReadBuffer \<times> 'h) outcome" where
  "IterateRecord hc garbage edit_record b h =
     obind (VersionEditDecodeFrom (NewVersionEdit garbage) edit_record) (\<lambda>(s, e).
       if s \<noteq> StatusOK then Ok (s, True, b, h) else IterateEdit hc garbage e b h)"

partial_function (option) IterateLoop :: "openssl \<Rightarrow> 'h handler_class \<Rightarrow> VersionEdit \<Rightarrow> u64 \<Rightarrow> status \<Rightarrow>
    AtomicGroupReadBuffer \<Rightarrow> Reader \<Rightarrow> 'h \<Rightarrow> (status \<times> Reader \<times> 'h) run" where
  "IterateLoop ssl hc garbage max_size s b r h =
     (if \<not> LastRecordEnd r < max_size \<or> s \<noteq> StatusOK then Some (Ok (s, r, h))
      else
        (case ReadRecord ssl kTolerateCorruptedTailRecords r of
           None \<Rightarrow> None
         | Some Exit \<Rightarrow> Some Exit
         | Some Undef \<Rightarrow> Some Undef
         | Some (Ok (x, r)) \<Rightarrow>
             (case x of
                None \<Rightarrow> Some (Ok (s, r, h))
              | Some edit_record \<Rightarrow>
                  if log_read_status r \<noteq> StatusOK then Some (Ok (s, r, h))
                  else
                    (case IterateRecord hc garbage edit_record b h of
                       Exit \<Rightarrow> Some Exit
                     | Undef \<Rightarrow> Some Undef
                     | Ok (s, left_loop, b, h) \<Rightarrow>
                         if left_loop then Some (Ok (s, r, h))
                         else IterateLoop ssl hc garbage max_size s b r h))))"

definition Iterate :: "openssl \<Rightarrow> 'h handler_class \<Rightarrow> VersionEdit \<Rightarrow> u64 \<Rightarrow> Reader \<Rightarrow> 'h \<Rightarrow>
    (status \<times> Reader \<times> 'h) run" where
  "Iterate ssl hc garbage max_size r h =
     rbind (Some (hc_initialize hc h)) (\<lambda>(s, h).
     rbind (IterateLoop ssl hc garbage max_size s NewReadBuffer r h) (\<lambda>(s, r, h).
       let s = (if log_read_status r \<noteq> StatusOK then log_read_status r else s)
       in Some (obind (hc_check_result hc r s h) (\<lambda>(s, h). Ok (s, r, h)))))"

text \<open>A handler class that keeps the default of what it does not need.\<close>

definition simple_handler ::
    "(VersionEdit \<Rightarrow> 'h \<Rightarrow> status \<times> 'h) \<Rightarrow> 'h handler_class" where
  "simple_handler apply_edit =
     \<lparr>hc_initialize = \<lambda>h. Ok (StatusOK, h),
      hc_apply = \<lambda>e cfd h. case apply_edit e h of (s, h) \<Rightarrow> Ok (s, cfd, h),
      hc_check_result = \<lambda>r s h. Ok (s, h)\<rparr>"

section \<open>The names of the column families\<close>

definition kDefaultColumnFamilyName :: bytes where
  "kDefaultColumnFamilyName = [100, 101, 102, 97, 117, 108, 116]"

definition kPersistentStatsColumnFamilyName :: bytes where
  "kPersistentStatsColumnFamilyName =
     [95, 95, 95, 114, 111, 99, 107, 115, 100, 98, 95, 115, 116, 97, 116, 115, 95, 104, 105, 115,
      116, 111, 114, 121, 95, 95, 95]"

type_synonym family_names = "(u32 \<times> bytes) list"

definition NewFamilyNames :: family_names where
  "NewFamilyNames = [(0, kDefaultColumnFamilyName)]"

definition ListFamiliesApply :: "VersionEdit \<Rightarrow> family_names \<Rightarrow> status \<times> family_names" where
  "ListFamiliesApply e names =
     (if ve_is_column_family_add e then
        (if map_of names (ve_column_family e) \<noteq> None then (Corruption, names)
         else (StatusOK, omap_insert (ve_column_family e) (ve_column_family_name e) names))
      else if ve_is_column_family_drop e then
        (if map_of names (ve_column_family e) = None then (Corruption, names)
         else (StatusOK, AList.delete (ve_column_family e) names))
      else (StatusOK, names))"

section \<open>Checksums\<close>

type_synonym checksum_list = "u64 \<rightharpoonup> bytes \<times> bytes"

definition InsertOneFileChecksum :: "u64 \<Rightarrow> bytes \<Rightarrow> bytes \<Rightarrow> checksum_list \<Rightarrow> status \<times> checksum_list" where
  "InsertOneFileChecksum n checksum func_name cl = (StatusOK, cl(n \<mapsto> (checksum, func_name)))"

definition RemoveOneFileChecksum :: "u64 \<Rightarrow> checksum_list \<Rightarrow> status \<times> checksum_list" where
  "RemoveOneFileChecksum n cl =
     (case cl n of None \<Rightarrow> (NotFound, cl) | Some _ \<Rightarrow> (StatusOK, cl(n := None)))"

definition SearchOneFileChecksum :: "u64 \<Rightarrow> checksum_list \<Rightarrow> status \<times> (bytes \<times> bytes) option" where
  "SearchOneFileChecksum n cl =
     (case cl n of None \<Rightarrow> (NotFound, None) | Some p \<Rightarrow> (StatusOK, Some p))"

definition ChecksumApply :: "VersionEdit \<Rightarrow> checksum_list \<Rightarrow> status \<times> checksum_list" where
  "ChecksumApply e cl =
     (let cl = fold (\<lambda>p cl. snd (RemoveOneFileChecksum (snd p) cl)) (ve_deleted_files e) cl;
          cl = fold (\<lambda>p cl. snd (InsertOneFileChecksum (file_number (snd p))
                 (fm_file_checksum (snd p)) (fm_file_checksum_func_name (snd p)) cl))
                 (ve_new_files e) cl
      in (StatusOK, cl))"

section \<open>The handler that rebuilds the version set\<close>

text \<open>
  The list of the keys of table files is global, and the handler changes it with the version set.
  \<open>h_missing\<close> and \<open>h_versions\<close> belong to the variant that looks for a point in time.
\<close>

record handler =
  h_vset :: VersionSet
  h_keys :: key_list
  h_builders :: "(u32 \<times> VersionBuilder) list"
  h_not_found :: "(u32 \<times> bytes) list"
  h_params :: VersionEdit
  h_missing :: "(u32 \<times> u64 set) list"
  h_versions :: "(u32 \<times> VersionStorageInfo) list"
  h_initialized :: bool

text \<open>
  What is fixed while a manifest is read: the options of the caller, the answers of the table
  readers and of the file system for each family.
\<close>

record handler_config =
  hf_read_only :: bool
  hf_column_families :: "(bytes \<times> cf_options) list"
  hf_persistent_stats :: cf_options
  hf_point_in_time :: bool
  hf_track_missing_files :: bool
  hf_no_error_if_table_files_missing :: bool
  hf_skip_load_table_files :: bool
  hf_paranoid_checks :: bool
  hf_load_tables :: "u32 \<Rightarrow> status"
  hf_file_size :: "u32 \<Rightarrow> u64 \<Rightarrow> status \<times> u64"

definition NewHandler :: "VersionEdit \<Rightarrow> key_list \<Rightarrow> VersionSet \<Rightarrow> handler" where
  "NewHandler garbage keys vs =
     \<lparr>h_vset = vs, h_keys = keys, h_builders = [], h_not_found = [],
      h_params = NewVersionEdit garbage, h_missing = [], h_versions = [], h_initialized = False\<rparr>"

definition CreateCfAndInit :: "handler_config \<Rightarrow> cf_options \<Rightarrow> VersionEdit \<Rightarrow> handler \<Rightarrow> handler" where
  "CreateCfAndInit cfg options e h =
     (let n = ve_column_family e
      in h\<lparr>h_vset := CreateColumnFamily options e (h_vset h),
           h_builders := (if map_of (h_builders h) n = None
             then (n, NewVersionBuilder (NewVersion options)) # h_builders h else h_builders h),
           h_missing := (if hf_track_missing_files cfg \<and> map_of (h_missing h) n = None
             then (n, {}) # h_missing h else h_missing h)\<rparr>)"

definition DestroyCfAndCleanup :: "handler_config \<Rightarrow> VersionEdit \<Rightarrow> handler \<Rightarrow> handler outcome" where
  "DestroyCfAndCleanup cfg e h =
     (let n = ve_column_family e
      in obind (of_opt (map_of (h_builders h) n)) (\<lambda>_.
         obind (if hf_track_missing_files cfg
                then obind (of_opt (map_of (h_missing h) n)) (\<lambda>_. Ok (AList.delete n (h_missing h)))
                else Ok (h_missing h)) (\<lambda>missing.
         obind (of_opt (GetColumnFamily n (h_vset h))) (\<lambda>_.
           Ok (h\<lparr>h_builders := AList.delete n (h_builders h), h_missing := missing,
                 h_vset := RemoveColumnFamily n (h_vset h),
                 h_versions := (if hf_point_in_time cfg then AList.delete n (h_versions h)
                   else h_versions h)\<rparr>)))))"

text \<open>A version with what the builder of the family has now.\<close>

definition BuildVersion :: "u32 \<Rightarrow> handler \<Rightarrow> (status \<times> VersionStorageInfo) outcome" where
  "BuildVersion n h =
     obind (of_opt (GetColumnFamily n (h_vset h))) (\<lambda>cfd.
     obind (of_opt (map_of (h_builders h) n)) (\<lambda>b.
       SaveTo (cfd_icmp cfd) b (NewVersion (cfd_options cfd))))"

definition VerifyFileMetadata :: "handler_config \<Rightarrow> u32 \<Rightarrow> FileMetaData \<Rightarrow> status" where
  "VerifyFileMetadata cfg n meta =
     (case hf_file_size cfg n (file_number meta) of
        (s, fsize) \<Rightarrow>
          if s = StatusOK \<and> fsize \<noteq> fd_file_size (fm_fd meta) then Corruption else s)"

text \<open>The new files of an edit that are not there; another error ends the search.\<close>

fun FindMissing :: "handler_config \<Rightarrow> u32 \<Rightarrow> (int \<times> FileMetaData) list \<Rightarrow> u64 set \<Rightarrow> status \<times> u64 set" where
  "FindMissing cfg n [] missing = (StatusOK, missing)"
| "FindMissing cfg n ((_, meta) # fs) missing =
     (let s = VerifyFileMetadata cfg n meta
      in if s = PathNotFound \<or> s = NotFound \<or> s = Corruption
         then FindMissing cfg n fs (insert (file_number meta) missing)
         else if s \<noteq> StatusOK then (s, missing)
         else FindMissing cfg n fs missing)"

definition missing_info :: "handler \<Rightarrow> bool" where
  "missing_info h \<longleftrightarrow>
     \<not> ve_has_log_number (h_params h) \<or> \<not> ve_has_next_file_number (h_params h) \<or>
     \<not> ve_has_last_sequence (h_params h)"

text \<open>\<open>MaybeCreateVersion\<close> of the base class and of the point in time.\<close>

definition BaseMaybeCreateVersion :: "u32 \<Rightarrow> bool \<Rightarrow> handler \<Rightarrow> (status \<times> handler) outcome" where
  "BaseMaybeCreateVersion n force_create_version h =
     (if force_create_version then
        obind (BuildVersion n h) (\<lambda>(s, v).
          Ok (s, if s = StatusOK then h\<lparr>h_vset := AppendVersion n v (h_vset h)\<rparr> else h))
      else Ok (StatusOK, h))"

definition PointInTimeMaybeCreateVersion ::
    "handler_config \<Rightarrow> VersionEdit \<Rightarrow> u32 \<Rightarrow> bool \<Rightarrow> handler \<Rightarrow> (status \<times> handler) outcome" where
  "PointInTimeMaybeCreateVersion cfg e n force_create_version h =
     obind (of_opt (map_of (h_missing h) n)) (\<lambda>missing0.
       let prev_has_missing_files = (missing0 \<noteq> {});
           missing1 = missing0 - snd ` set (ve_deleted_files e);
           found = FindMissing cfg n (ve_new_files e) missing1;
           s = fst found; missing2 = snd found;
           h = h\<lparr>h_missing := AList.update n missing2 (h_missing h)\<rparr>
       in if s = StatusOK \<and> \<not> missing_info h \<and>
             (missing2 \<noteq> {} \<and> \<not> prev_has_missing_files \<or> missing2 = {} \<and> force_create_version)
          then
            obind (BuildVersion n h) (\<lambda>(s, v).
              Ok (s, if s = StatusOK then h\<lparr>h_versions := AList.update n v (h_versions h)\<rparr> else h))
          else Ok (s, h))"

definition MaybeCreateVersion ::
    "handler_config \<Rightarrow> VersionEdit \<Rightarrow> u32 \<Rightarrow> bool \<Rightarrow> handler \<Rightarrow> (status \<times> handler) outcome" where
  "MaybeCreateVersion cfg e n force_create_version h =
     (if hf_point_in_time cfg
      then PointInTimeMaybeCreateVersion cfg e n force_create_version h
      else BaseMaybeCreateVersion n force_create_version h)"

subsection \<open>One edit\<close>

definition CheckColumnFamilyId :: "VersionEdit \<Rightarrow> handler \<Rightarrow> bool \<times> bool" where
  "CheckColumnFamilyId e h =
     (map_of (h_not_found h) (ve_column_family e) \<noteq> None,
      map_of (h_builders h) (ve_column_family e) \<noteq> None)"

definition name_to_options :: "handler_config \<Rightarrow> bytes \<rightharpoonup> cf_options" where
  "name_to_options cfg = map_of (hf_column_families cfg)"

definition OnColumnFamilyAdd :: "handler_config \<Rightarrow> VersionEdit \<Rightarrow> handler \<Rightarrow> status \<times> u32 option \<times> handler" where
  "OnColumnFamilyAdd cfg e h =
     (case CheckColumnFamilyId e h of
        (cf_in_not_found, cf_in_builders) \<Rightarrow>
          if cf_in_builders \<or> cf_in_not_found then (Corruption, None, h)
          else if ve_column_family_name e = kPersistentStatsColumnFamilyName then
            (StatusOK, Some (ve_column_family e), CreateCfAndInit cfg (hf_persistent_stats cfg) e h)
          else
            (case name_to_options cfg (ve_column_family_name e) of
               None \<Rightarrow>
                 (StatusOK, None,
                  h\<lparr>h_not_found := (ve_column_family e, ve_column_family_name e) # h_not_found h\<rparr>)
             | Some options \<Rightarrow>
                 (StatusOK, Some (ve_column_family e), CreateCfAndInit cfg options e h)))"

definition OnColumnFamilyDrop ::
    "handler_config \<Rightarrow> VersionEdit \<Rightarrow> handler \<Rightarrow> (status \<times> u32 option \<times> handler) outcome" where
  "OnColumnFamilyDrop cfg e h =
     (case CheckColumnFamilyId e h of
        (cf_in_not_found, cf_in_builders) \<Rightarrow>
          if cf_in_builders then obind (DestroyCfAndCleanup cfg e h) (\<lambda>h. Ok (StatusOK, None, h))
          else if cf_in_not_found then
            Ok (StatusOK, None, h\<lparr>h_not_found := AList.delete (ve_column_family e) (h_not_found h)\<rparr>)
          else Ok (Corruption, None, h))"

definition set_wals :: "status \<times> wal_set \<Rightarrow> handler \<Rightarrow> status \<times> handler" where
  "set_wals p h = (fst p, h\<lparr>h_vset := (h_vset h)\<lparr>vset_wals := snd p\<rparr>\<rparr>)"

definition OnWalAddition :: "VersionEdit \<Rightarrow> handler \<Rightarrow> status \<times> handler" where
  "OnWalAddition e h = set_wals (AddWals (ve_wal_additions e) (vset_wals (h_vset h))) h"

definition OnWalDeletion :: "VersionEdit \<Rightarrow> handler \<Rightarrow> status \<times> handler" where
  "OnWalDeletion e h = set_wals (DeleteWalsBefore (ve_wal_deletion e) (vset_wals (h_vset h))) h"

definition OnNonCfOperation ::
    "handler_config \<Rightarrow> VersionEdit \<Rightarrow> handler \<Rightarrow> (status \<times> u32 option \<times> handler) outcome" where
  "OnNonCfOperation cfg e h =
     (case CheckColumnFamilyId e h of
        (cf_in_not_found, cf_in_builders) \<Rightarrow>
          if cf_in_not_found then Ok (StatusOK, None, h)
          else if \<not> cf_in_builders then Ok (Corruption, None, h)
          else
            (let n = ve_column_family e
             in obind (of_opt (GetColumnFamily n (h_vset h))) (\<lambda>cfd.
                obind (MaybeCreateVersion cfg e n False h) (\<lambda>(s, h).
                  if s \<noteq> StatusOK then Ok (s, Some n, h)
                  else
                    obind (of_opt (map_of (h_builders h) n)) (\<lambda>b.
                    obind (BuilderApply (cfd_icmp cfd) e b) (\<lambda>(s, b).
                      Ok (s, Some n, h\<lparr>h_builders := AList.update n b (h_builders h)\<rparr>)))))))"

text \<open>The counters of an edit; a smaller log number is ignored.\<close>

definition take_counters :: "VersionEdit \<Rightarrow> VersionEdit \<Rightarrow> VersionEdit" where
  "take_counters e p =
     (let p = (if ve_has_prev_log_number e then SetPrevLogNumber (ve_prev_log_number e) p else p);
          p = (if ve_has_next_file_number e then SetNextFile (ve_next_file_number e) p else p);
          p = (if ve_has_max_column_family e then SetMaxColumnFamily (ve_max_column_family e) p else p);
          p = (if ve_has_min_log_number_to_keep e
               then p\<lparr>ve_min_log_number_to_keep :=
                      max (ve_min_log_number_to_keep p) (ve_min_log_number_to_keep e)\<rparr> else p);
          p = (if ve_has_last_sequence e then SetLastSequence (ve_last_sequence e) p else p)
      in if \<not> ve_has_prev_log_number p then SetPrevLogNumber 0 p else p)"

definition ExtractInfoFromVersionEdit ::
    "u32 option \<Rightarrow> VersionEdit \<Rightarrow> handler \<Rightarrow> (status \<times> handler) outcome" where
  "ExtractInfoFromVersionEdit cfd e h =
     (let h = (if ve_has_db_id e
               then h\<lparr>h_vset := (h_vset h)\<lparr>vset_db_id := ve_db_id e\<rparr>,
                      h_params := SetDBId (ve_db_id e) (h_params h)\<rparr> else h)
      in obind
           (case cfd of
              None \<Rightarrow> Ok (StatusOK, h)
            | Some n \<Rightarrow>
                obind (of_opt (GetColumnFamily n (h_vset h))) (\<lambda>c.
                  Ok (if ve_has_comparator e \<and> ve_comparator e \<noteq> co_comparator_name (cfd_options c)
                      then InvalidArgument else StatusOK,
                      if ve_has_log_number e \<and> \<not> cfd_log_number c > ve_log_number e
                      then h\<lparr>h_vset := CfdSetLogNumber n (ve_log_number e) (h_vset h),
                             h_params := SetLogNumber (ve_log_number e) (h_params h)\<rparr>
                      else h))) (\<lambda>(s, h).
           Ok (s, if s = StatusOK then h\<lparr>h_params := take_counters e (h_params h)\<rparr> else h)))"

text \<open>The members of the fork, which take effect first and whatever follows.\<close>

definition TakeSecrets :: "VersionEdit \<Rightarrow> handler \<Rightarrow> handler" where
  "TakeSecrets e h =
     (let h = (if ve_is_log_secret e
               then h\<lparr>h_vset := AddReadSecret (ls_log_num (ve_log_secret e)) (ve_log_secret e) (h_vset h)\<rparr>
               else h);
          h = (if ve_is_sst_key e
               then h\<lparr>h_keys := AddSSTKeyToList (ve_sst_file_number e) (ve_sst_key e) (h_keys h)\<rparr>
               else h)
      in if ve_is_sst_delete e
         then h\<lparr>h_keys := DeleteSSTKeyFromList (ve_sst_delete_file_number e) (h_keys h)\<rparr> else h)"

definition ApplyVersionEdit ::
    "handler_config \<Rightarrow> VersionEdit \<Rightarrow> u32 option \<Rightarrow> handler \<Rightarrow> (status \<times> u32 option \<times> handler) outcome" where
  "ApplyVersionEdit cfg e cfd h =
     (let h = TakeSecrets e h
      in obind
           (if ve_is_column_family_add e then Ok (OnColumnFamilyAdd cfg e h)
            else if ve_is_column_family_drop e then OnColumnFamilyDrop cfg e h
            else if IsWalAddition e then
              (case OnWalAddition e h of (s, h) \<Rightarrow> Ok (s, cfd, h))
            else if IsWalDeletion e then
              (case OnWalDeletion e h of (s, h) \<Rightarrow> Ok (s, cfd, h))
            else OnNonCfOperation cfg e h) (\<lambda>(s, cfd, h).
         if s \<noteq> StatusOK then Ok (s, cfd, h)
         else obind (ExtractInfoFromVersionEdit cfd e h) (\<lambda>(s, h). Ok (s, cfd, h))))"

definition Initialize :: "handler_config \<Rightarrow> VersionEdit \<Rightarrow> handler \<Rightarrow> (status \<times> handler) outcome" where
  "Initialize cfg garbage h =
     (if h_initialized h then Ok (StatusOK, h)
      else
        (case name_to_options cfg kDefaultColumnFamilyName of
           None \<Rightarrow> Ok (InvalidArgument, h)
         | Some options \<Rightarrow>
             Ok (StatusOK,
                 (CreateCfAndInit cfg options
                    (SetColumnFamily 0 (AddColumnFamily kDefaultColumnFamilyName (NewVersionEdit garbage)))
                    h)\<lparr>h_initialized := True\<rparr>)))"

subsection \<open>At the end of the manifest\<close>

text \<open>Every family has to have a builder, with no files above the levels that it has.\<close>

fun CheckNumLevels :: "(u32 \<times> VersionBuilder) list \<Rightarrow> ColumnFamilyData list \<Rightarrow> status outcome" where
  "CheckNumLevels builders [] = Ok StatusOK"
| "CheckNumLevels builders (cfd # cfds) =
     obind (of_opt (map_of builders (cfd_id cfd))) (\<lambda>b.
       if \<not> CheckConsistencyForNumLevels b then Ok InvalidArgument
       else CheckNumLevels builders cfds)"

definition LoadTables :: "handler_config \<Rightarrow> u32 \<Rightarrow> status" where
  "LoadTables cfg n =
     (if hf_skip_load_table_files cfg then StatusOK
      else
        (let s = hf_load_tables cfg n;
             s = (if (s = PathNotFound \<or> s = Corruption) \<and> hf_no_error_if_table_files_missing cfg
                  then StatusOK else s)
         in if s \<noteq> StatusOK \<and> \<not> hf_paranoid_checks cfg then StatusOK else s))"

fun LoadFamilies :: "handler_config \<Rightarrow> ColumnFamilyData list \<Rightarrow> status" where
  "LoadFamilies cfg [] = StatusOK"
| "LoadFamilies cfg (cfd # cfds) =
     (if cfd_dropped cfd then LoadFamilies cfg cfds
      else
        (let s = LoadTables cfg (cfd_id cfd)
         in if s = StatusOK then LoadFamilies cfg cfds
            else if s = PathNotFound then Corruption else s))"

fun CreateVersions ::
    "handler_config \<Rightarrow> VersionEdit \<Rightarrow> ColumnFamilyData list \<Rightarrow> handler \<Rightarrow> (status \<times> handler) outcome" where
  "CreateVersions cfg garbage [] h = Ok (StatusOK, h)"
| "CreateVersions cfg garbage (cfd # cfds) h =
     (if cfd_dropped cfd then CreateVersions cfg garbage cfds h
      else
        obind (MaybeCreateVersion cfg (NewVersionEdit garbage) (cfd_id cfd) True h) (\<lambda>(s, h).
          if s \<noteq> StatusOK then Ok (s, h) else CreateVersions cfg garbage cfds h))"

definition FinishCounters :: "u64 \<Rightarrow> handler \<Rightarrow> handler" where
  "FinishCounters read_offset h =
     (let p = h_params h
      in h\<lparr>h_vset := (h_vset h)\<lparr>vset_manifest_file_size := read_offset,
             vset_next_file_number := ve_next_file_number p + 1,
             vset_last_allocated_sequence := ve_last_sequence p,
             vset_last_published_sequence := ve_last_sequence p,
             vset_last_sequence := ve_last_sequence p,
             vset_prev_log_number := ve_prev_log_number p\<rparr>\<rparr>)"

definition MarkNumbers :: "VersionEdit \<Rightarrow> VersionSet \<Rightarrow> VersionSet" where
  "MarkNumbers p vs =
     MarkFileNumberUsed (ve_log_number p)
       (MarkFileNumberUsed (ve_prev_log_number p)
         (MarkMinLogNumberToKeep2PC (ve_min_log_number_to_keep p)
           (UpdateMaxColumnFamily (ve_max_column_family p) vs)))"

definition BaseCheckIterationResult :: "handler_config \<Rightarrow> VersionEdit \<Rightarrow> u64 \<Rightarrow> status \<Rightarrow> handler \<Rightarrow>
    (status \<times> handler) outcome" where
  "BaseCheckIterationResult cfg garbage read_offset s h =
     (if s \<noteq> StatusOK then Ok (s, h)
      else if missing_info h then Ok (Corruption, h)
      else if \<not> hf_read_only cfg \<and> h_not_found h \<noteq> [] then Ok (InvalidArgument, h)
      else
        (let h = h\<lparr>h_vset := MarkNumbers (h_params h) (h_vset h)\<rparr>
         in obind (CheckNumLevels (h_builders h) (vset_families (h_vset h))) (\<lambda>s.
            let s = (if s = StatusOK then LoadFamilies cfg (vset_families (h_vset h)) else s)
            in if s \<noteq> StatusOK then Ok (s, h)
               else obind (CreateVersions cfg garbage (vset_families (h_vset h)) h) (\<lambda>(s, h).
                      Ok (s, if s = StatusOK then FinishCounters read_offset h else h)))))"

text \<open>The point in time: the versions that were kept become current.\<close>

definition InstallKept :: "ColumnFamilyData \<Rightarrow> handler \<Rightarrow> handler" where
  "InstallKept cfd h =
     (if cfd_dropped cfd then h
      else
        (case map_of (h_versions h) (cfd_id cfd) of
           None \<Rightarrow> h
         | Some v \<Rightarrow>
             h\<lparr>h_vset := AppendVersion (cfd_id cfd) v (h_vset h),
               h_versions := AList.delete (cfd_id cfd) (h_versions h)\<rparr>))"

definition CheckIterationResult :: "handler_config \<Rightarrow> VersionEdit \<Rightarrow> u64 \<Rightarrow> status \<Rightarrow> handler \<Rightarrow>
    (status \<times> handler) outcome" where
  "CheckIterationResult cfg garbage read_offset s h =
     obind (BaseCheckIterationResult cfg garbage read_offset s h) (\<lambda>(s, h).
       Ok (s, if s = StatusOK \<and> hf_point_in_time cfg
              then fold InstallKept (vset_families (h_vset h)) h else h))"

definition edit_handler :: "handler_config \<Rightarrow> VersionEdit \<Rightarrow> handler handler_class" where
  "edit_handler cfg garbage =
     \<lparr>hc_initialize = Initialize cfg garbage, hc_apply = ApplyVersionEdit cfg,
      hc_check_result = \<lambda>r. CheckIterationResult cfg garbage (GetReadOffset r)\<rparr>"

definition HasMissingFiles :: "handler \<Rightarrow> bool" where
  "HasMissingFiles h \<longleftrightarrow> (\<exists>p \<in> set (h_missing h). snd p \<noteq> {})"

section \<open>Reading a manifest\<close>

text \<open>
  The contents of the file that \<open>CURRENT\<close> names are given. Only \<open>Recover\<close> tells the reader that it
  reads a manifest: in the other functions its key and hash are what was in memory (\<open>secret\<close>).
\<close>

definition Recover :: "openssl \<Rightarrow> bytes \<Rightarrow> bytes \<Rightarrow> bytes \<Rightarrow> bytes \<times> bytes \<Rightarrow> handler_config \<Rightarrow>
    VersionEdit \<Rightarrow> bytes \<Rightarrow> key_list \<Rightarrow> VersionSet \<Rightarrow> (status \<times> key_list \<times> VersionSet) run" where
  "Recover ssl mk mh junk secret cfg garbage contents keys vs =
     (let cfg = cfg\<lparr>hf_point_in_time := False, hf_track_missing_files := False,
                    hf_no_error_if_table_files_missing := False, hf_skip_load_table_files := False\<rparr>
      in rbind (Iterate ssl (edit_handler cfg garbage) garbage (2 ^ 64 - 1)
                  (NewReader contents junk True 0 True mk mh secret) (NewHandler garbage keys vs))
           (\<lambda>(s, r, h).
           Some (Ok (s, h_keys h,
             if s = StatusOK
             then (h_vset h)\<lparr>vset_manifest_file_size := GetReadOffset r\<rparr> else h_vset h))))"

definition TryRecoverFromOneManifest :: "openssl \<Rightarrow> bytes \<Rightarrow> bytes \<Rightarrow> bytes \<Rightarrow> bytes \<times> bytes \<Rightarrow>
    handler_config \<Rightarrow> VersionEdit \<Rightarrow> bytes \<Rightarrow> key_list \<Rightarrow> VersionSet \<Rightarrow>
    (status \<times> bool \<times> key_list \<times> VersionSet) run" where
  "TryRecoverFromOneManifest ssl mk mh junk secret cfg garbage contents keys vs =
     (let cfg = cfg\<lparr>hf_point_in_time := True, hf_track_missing_files := True,
                    hf_no_error_if_table_files_missing := True, hf_skip_load_table_files := False\<rparr>
      in rbind (Iterate ssl (edit_handler cfg garbage) garbage (2 ^ 64 - 1)
                  (NewReader contents junk True 0 False mk mh secret) (NewHandler garbage keys vs))
           (\<lambda>(s, r, h). Some (Ok (s, HasMissingFiles h, h_keys h, h_vset h))))"

definition ListColumnFamilies :: "openssl \<Rightarrow> bytes \<Rightarrow> bytes \<Rightarrow> bytes \<Rightarrow> bytes \<times> bytes \<Rightarrow>
    VersionEdit \<Rightarrow> bytes \<Rightarrow> (status \<times> bytes list) run" where
  "ListColumnFamilies ssl mk mh junk secret garbage contents =
     rbind (Iterate ssl (simple_handler ListFamiliesApply) garbage (2 ^ 64 - 1)
              (NewReader contents junk True 0 False mk mh secret) NewFamilyNames)
       (\<lambda>(s, r, names). Some (Ok (s, if s = StatusOK then map snd names else [])))"

definition GetFileChecksumsFromManifest :: "openssl \<Rightarrow> bytes \<Rightarrow> bytes \<Rightarrow> bytes \<Rightarrow> bytes \<times> bytes \<Rightarrow>
    VersionEdit \<Rightarrow> u64 \<Rightarrow> bytes \<Rightarrow> (status \<times> checksum_list) run" where
  "GetFileChecksumsFromManifest ssl mk mh junk secret garbage manifest_file_size contents =
     rbind (Iterate ssl (simple_handler ChecksumApply) garbage manifest_file_size
              (NewReader contents junk True 0 False mk mh secret) Map.empty)
       (\<lambda>(s, r, cl). Some (Ok (s, cl)))"

end
