(* ===== verification/Manifest_Writer.thy ===== *)
theory Manifest_Writer
  imports Version_Set
begin

text \<open>
  Committing version edits (\<open>LogAndApply\<close> and \<open>ProcessManifestWrites\<close> of \<open>db/version_set.cc\<close>): the
  edits of the waiting writers are applied to new versions and written to the manifest, in a new
  file behind a snapshot of the current state when there is none or it has become too large; then
  the versions are installed. The mutex is released while the manifest is written, but only the
  writer at the head of the queue is at work: the model runs it as one step.
\<close>

section \<open>The snapshot at the start of a manifest\<close>

text \<open>\<open>EncodeTo\<close> and \<open>AddRecord\<close>: the status, the I/O status and the log.\<close>

definition AddEditRecord ::
    "openssl \<Rightarrow> VersionEdit \<Rightarrow> Writer \<Rightarrow> (status \<times> status \<times> Writer) outcome" where
  "AddEditRecord ssl e w =
     (case VersionEditEncodeTo [] e of
        (False, _) \<Rightarrow> Ok (Corruption, StatusOK, w)
      | (True, edit_record) \<Rightarrow> obind (AddRecord ssl edit_record w) (\<lambda>(io_s, w). Ok (io_s, io_s, w)))"

fun AddEditRecords ::
    "openssl \<Rightarrow> VersionEdit list \<Rightarrow> Writer \<Rightarrow> (status \<times> status \<times> Writer) outcome" where
  "AddEditRecords ssl [] w = Ok (StatusOK, StatusOK, w)"
| "AddEditRecords ssl (e # es) w =
     obind (AddEditRecord ssl e w) (\<lambda>(s, io_s, w).
       if s \<noteq> StatusOK then Ok (s, io_s, w) else AddEditRecords ssl es w)"

text \<open>The file that an edit gets from the members of another file.\<close>

definition AddFileOf :: "int \<Rightarrow> FileMetaData \<Rightarrow> VersionEdit \<Rightarrow> VersionEdit" where
  "AddFileOf level f e =
     AddFile level
       \<lparr>fm_fd = NewFileDescriptor (GetNumber (fm_fd f)) (GetPathId (fm_fd f)) (fd_file_size (fm_fd f))
          (fd_smallest_seqno (fm_fd f)) (fd_largest_seqno (fm_fd f)),
        fm_smallest = fm_smallest f, fm_largest = fm_largest f,
        fm_marked_for_compaction = fm_marked_for_compaction f,
        fm_oldest_blob_file_number = fm_oldest_blob_file_number f,
        fm_oldest_ancester_time = fm_oldest_ancester_time f,
        fm_file_creation_time = fm_file_creation_time f,
        fm_file_checksum = fm_file_checksum f,
        fm_file_checksum_func_name = fm_file_checksum_func_name f\<rparr> e"

definition SnapshotBlobFile :: "u64 \<times> BlobFileMetaData \<Rightarrow> VersionEdit \<Rightarrow> VersionEdit" where
  "SnapshotBlobFile p e =
     (case p of (blob_file_number, meta) \<Rightarrow>
        (let sm = bm_shared_meta meta;
             e = AddBlobFile \<lparr>ba_number = blob_file_number, ba_total_count = sb_total_blob_count sm,
                   ba_total_bytes = sb_total_blob_bytes sm, ba_checksum_method = sb_checksum_method sm,
                   ba_checksum_value = sb_checksum_value sm\<rparr> e
         in if bm_garbage_blob_count meta > 0
            then AddBlobFileGarbage \<lparr>bg_number = blob_file_number,
                   bg_count = bm_garbage_blob_count meta, bg_bytes = bm_garbage_blob_bytes meta\<rparr> e
            else e))"

definition SnapshotFamily :: "VersionEdit \<Rightarrow> ColumnFamilyData \<Rightarrow> VersionEdit" where
  "SnapshotFamily garbage cfd =
     (let e = NewVersionEdit garbage;
          e = (if cfd_id cfd \<noteq> 0
               then SetColumnFamily (cfd_id cfd) (AddColumnFamily (cfd_name cfd) e) else e)
      in SetComparatorName (co_comparator_name (cfd_options cfd)) e)"

definition SnapshotFiles :: "VersionEdit \<Rightarrow> u64 \<Rightarrow> ColumnFamilyData \<Rightarrow> VersionEdit" where
  "SnapshotFiles garbage log_number cfd =
     (let e = SetColumnFamily (cfd_id cfd) (NewVersionEdit garbage);
          e = fold (\<lambda>level. fold (AddFileOf (int level)) (vs_files (cfd_current cfd) ! level))
                [0..<co_num_levels (cfd_options cfd)] e;
          e = fold SnapshotBlobFile (vs_blob_files (cfd_current cfd)) e
      in SetLogNumber log_number e)"

text \<open>The families one after the other; \<open>curr_state\<close> has the numbers of their logs.\<close>

fun SnapshotFamilies :: "openssl \<Rightarrow> VersionEdit \<Rightarrow> (u32 \<rightharpoonup> u64) \<Rightarrow> ColumnFamilyData list \<Rightarrow> Writer \<Rightarrow>
    (status \<times> status \<times> Writer) outcome" where
  "SnapshotFamilies ssl garbage curr_state [] w = Ok (StatusOK, StatusOK, w)"
| "SnapshotFamilies ssl garbage curr_state (cfd # cfds) w =
     (if cfd_dropped cfd then SnapshotFamilies ssl garbage curr_state cfds w
      else
        obind (AddEditRecord ssl (SnapshotFamily garbage cfd) w) (\<lambda>(s, io_s, w).
          if s \<noteq> StatusOK then Ok (s, io_s, w)
          else
            obind (of_opt (curr_state (cfd_id cfd))) (\<lambda>log_number.
            obind (AddEditRecord ssl (SnapshotFiles garbage log_number cfd) w) (\<lambda>(s, io_s, w).
              if s \<noteq> StatusOK then Ok (s, io_s, w)
              else SnapshotFamilies ssl garbage curr_state cfds w))))"

record db_options =
  db_two_write_queues :: bool
  db_paranoid_checks :: bool
  db_max_manifest_file_size :: u64
  db_write_dbid_to_manifest :: bool

definition WriteCurrentStateToManifest :: "openssl \<Rightarrow> db_options \<Rightarrow> VersionEdit \<Rightarrow> VersionSet \<Rightarrow>
    (u32 \<rightharpoonup> u64) \<Rightarrow> VersionEdit \<Rightarrow> Writer \<Rightarrow> (status \<times> status \<times> Writer) outcome" where
  "WriteCurrentStateToManifest ssl opts garbage vs curr_state wal_additions w =
     obind (AddEditRecords ssl
       (if db_write_dbid_to_manifest opts then [SetDBId (vset_db_id vs) (NewVersionEdit garbage)] else [])
       w) (\<lambda>(s, io_s, w).
     if s \<noteq> StatusOK then Ok (s, io_s, w)
     else
       obind (AddEditRecords ssl (if ve_wal_additions wal_additions \<noteq> [] then [wal_additions] else []) w)
         (\<lambda>(s, io_s, w).
       if s \<noteq> StatusOK then Ok (s, io_s, w)
       else SnapshotFamilies ssl garbage curr_state (vset_families vs) w))"

section \<open>The edits of a group of writers\<close>

text \<open>
  A writer waits with the edits for one family; \<open>None\<close> is the null pointer of a family that is to be
  created.
\<close>

record ManifestWriter =
  mw_address :: nat
  mw_cfd :: "u32 option"
  mw_edit_list :: "VersionEdit list"

definition IsAllWalEdits :: "ManifestWriter \<Rightarrow> bool" where
  "IsAllWalEdits w \<longleftrightarrow> list_all IsWalManipulation (mw_edit_list w)"

definition first_edit :: "ManifestWriter \<Rightarrow> VersionEdit outcome" where
  "first_edit w = (case mw_edit_list w of [] \<Rightarrow> Undef | e # _ \<Rightarrow> Ok e)"

definition writer_last_sequence :: "db_options \<Rightarrow> VersionSet \<Rightarrow> u64" where
  "writer_last_sequence opts vs =
     (if db_two_write_queues opts then vset_last_allocated_sequence vs else vset_last_sequence vs)"

definition LogAndApplyCFHelper :: "db_options \<Rightarrow> VersionSet \<Rightarrow> VersionEdit \<Rightarrow> VersionEdit" where
  "LogAndApplyCFHelper opts vs e =
     (let e = SetNextFile (vset_next_file_number vs) e;
          e = SetLastSequence (writer_last_sequence opts vs) e
      in if ve_is_column_family_drop e
         then SetMaxColumnFamily (vset_max_column_family vs) e else e)"

definition LogAndApplyHelper :: "db_options \<Rightarrow> VersionSet \<Rightarrow> (bytes \<Rightarrow> bytes \<Rightarrow> int) \<Rightarrow>
    VersionBuilder option \<Rightarrow> VersionEdit \<Rightarrow> (status \<times> VersionBuilder option \<times> VersionEdit) outcome" where
  "LogAndApplyHelper opts vs icmp builder e =
     (let e = (if \<not> ve_has_prev_log_number e then SetPrevLogNumber (vset_prev_log_number vs) e else e);
          e = SetNextFile (vset_next_file_number vs) e;
          e = SetLastSequence (writer_last_sequence opts vs) e
      in case builder of
           None \<Rightarrow> Ok (StatusOK, None, e)
         | Some b \<Rightarrow> obind (BuilderApply icmp e b) (\<lambda>(s, b). Ok (s, Some b, e)))"

text \<open>
  The group so far: its edits, the builders of the new versions by family, where the last atomic
  group begins, and how many writers it has taken from the queue.
\<close>

record manifest_batch =
  mb_edits :: "VersionEdit list"
  mb_builders :: "(u32 \<times> VersionBuilder) list"
  mb_group_start :: "nat option"
  mb_taken :: nat

text \<open>The edits of a dropped family that belong to an atomic group are not written.\<close>

fun group_entries :: "VersionEdit list \<Rightarrow> nat" where
  "group_entries [] = 0"
| "group_entries (e # es) =
     (if \<not> ve_is_in_atomic_group e then 0 else if ve_remaining_entries e = 0 then 1
      else Suc (group_entries es))"

definition ShrinkAtomicGroup :: "VersionEdit list \<Rightarrow> manifest_batch \<Rightarrow> manifest_batch" where
  "ShrinkAtomicGroup edit_list mb =
     (if mb_edits mb \<noteq> [] \<and> ve_is_in_atomic_group (last (mb_edits mb)) \<and>
         ve_remaining_entries (last (mb_edits mb)) > 0
      then
        (let k = group_entries edit_list;
             i = (case mb_group_start mb of Some i \<Rightarrow> i | None \<Rightarrow> length (mb_edits mb))
         in mb\<lparr>mb_edits := take i (mb_edits mb) @
              map (\<lambda>e. e\<lparr>ve_remaining_entries := ve_remaining_entries e - word_of_nat k\<rparr>)
                (drop i (mb_edits mb))\<rparr>)
      else mb)"

definition next_group_start :: "VersionEdit \<Rightarrow> manifest_batch \<Rightarrow> nat option" where
  "next_group_start e mb =
     (if ve_is_in_atomic_group e then
        (if mb_edits mb = [] \<or> \<not> ve_is_in_atomic_group (last (mb_edits mb)) \<or>
            ve_remaining_entries (last (mb_edits mb)) = 0
         then Some (length (mb_edits mb)) else mb_group_start mb)
      else None)"

fun BatchEdits :: "db_options \<Rightarrow> VersionSet \<Rightarrow> (bytes \<Rightarrow> bytes \<Rightarrow> int) \<Rightarrow> VersionEdit list \<Rightarrow>
    VersionBuilder option \<Rightarrow> manifest_batch \<Rightarrow> (status \<times> VersionBuilder option \<times> manifest_batch) outcome" where
  "BatchEdits opts vs icmp [] builder mb = Ok (StatusOK, builder, mb)"
| "BatchEdits opts vs icmp (e # es) builder mb =
     (let mb = mb\<lparr>mb_group_start := next_group_start e mb\<rparr>
      in obind (LogAndApplyHelper opts vs icmp builder e) (\<lambda>(s, builder, e).
           if s \<noteq> StatusOK then Ok (s, builder, mb)
           else BatchEdits opts vs icmp es builder (mb\<lparr>mb_edits := mb_edits mb @ [e]\<rparr>)))"

text \<open>
  One writer of a family that is not dropped; a new version, and its builder, are made for the first
  edits of the family unless they are all about logs.
\<close>

definition BatchWriter :: "db_options \<Rightarrow> VersionSet \<Rightarrow> ColumnFamilyData \<Rightarrow> ManifestWriter \<Rightarrow>
    manifest_batch \<Rightarrow> (status \<times> manifest_batch) outcome" where
  "BatchWriter opts vs cfd w mb =
     (let n = cfd_id cfd;
          builder = (case map_of (mb_builders mb) n of
                       Some b \<Rightarrow> Some b
                     | None \<Rightarrow> if IsAllWalEdits w then None
                              else Some (NewVersionBuilder (cfd_current cfd)))
      in obind (BatchEdits opts vs (cfd_icmp cfd) (mw_edit_list w) builder mb) (\<lambda>(s, builder, mb).
           Ok (s, case builder of
                    None \<Rightarrow> mb | Some b \<Rightarrow> mb\<lparr>mb_builders := AList.update n b (mb_builders mb)\<rparr>)))"

definition find_family :: "u32 option \<Rightarrow> VersionSet \<Rightarrow> ColumnFamilyData outcome" where
  "find_family c vs =
     (case c of None \<Rightarrow> Undef | Some n \<Rightarrow> of_opt (find (\<lambda>cfd. cfd_id cfd = n) (vset_families vs)))"

fun BatchWriters :: "db_options \<Rightarrow> VersionSet \<Rightarrow> ManifestWriter list \<Rightarrow> manifest_batch \<Rightarrow>
    (status \<times> manifest_batch) outcome" where
  "BatchWriters opts vs [] mb = Ok (StatusOK, mb)"
| "BatchWriters opts vs (w # ws) mb =
     obind (first_edit w) (\<lambda>e.
       if IsColumnFamilyManipulation e then Ok (StatusOK, mb)
       else
         obind (find_family (mw_cfd w) vs) (\<lambda>cfd.
           let mb = mb\<lparr>mb_taken := Suc (mb_taken mb)\<rparr>
           in if cfd_dropped cfd then BatchWriters opts vs ws (ShrinkAtomicGroup (mw_edit_list w) mb)
              else sbind (BatchWriter opts vs cfd w mb) (BatchWriters opts vs ws)))"

fun SaveVersions :: "VersionSet \<Rightarrow> (u32 \<times> VersionBuilder) list \<Rightarrow>
    (status \<times> (u32 \<times> VersionStorageInfo) list) outcome" where
  "SaveVersions vs [] = Ok (StatusOK, [])"
| "SaveVersions vs ((n, b) # bs) =
     obind (find_family (Some n) vs) (\<lambda>cfd.
     obind (SaveTo (cfd_icmp cfd) b (NewVersion (cfd_options cfd))) (\<lambda>(s, v).
       if s \<noteq> StatusOK then Ok (s, [])
       else obind (SaveVersions vs bs) (\<lambda>(s, versions). Ok (s, (n, v) # versions))))"

section \<open>Writing the group\<close>

text \<open>
  The answers of the environment: of the table readers, of the file system (creating the manifest, the
  appends to a new one, its synchronisation, the change of \<open>CURRENT\<close>), and the secrets of manifests.
\<close>

record manifest_io =
  mio_load_tables :: "status list"
  mio_new_file :: status
  mio_new_dest :: "status list"
  mio_sync :: status
  mio_set_current :: status
  mio_manifest_key :: bytes
  mio_manifest_hash :: bytes

text \<open>The edits of the group: the head writer's alone if it creates or drops a family.\<close>

definition CollectBatch :: "db_options \<Rightarrow> VersionSet \<Rightarrow> ManifestWriter list \<Rightarrow>
    (status \<times> manifest_batch \<times> (u32 \<times> VersionStorageInfo) list) outcome" where
  "CollectBatch opts vs queue =
     (case queue of
        [] \<Rightarrow> Undef
      | first_writer # _ \<Rightarrow>
          obind (first_edit first_writer) (\<lambda>e.
            if IsColumnFamilyManipulation e then
              Ok (StatusOK, \<lparr>mb_edits = [LogAndApplyCFHelper opts vs e], mb_builders = [],
                             mb_group_start = None, mb_taken = 1\<rparr>, [])
            else
              obind (BatchWriters opts vs queue \<lparr>mb_edits = [], mb_builders = [],
                       mb_group_start = None, mb_taken = 0\<rparr>) (\<lambda>(s, mb).
                if s \<noteq> StatusOK then Ok (s, mb, [])
                else obind (SaveVersions vs (mb_builders mb)) (\<lambda>(s, versions).
                       Ok (s, mb, versions)))))"

text \<open>\<open>LoadTableHandlers\<close> of every new version, which only paranoid checks listen to.\<close>

fun LoadVersions :: "db_options \<Rightarrow> status list \<Rightarrow> (u32 \<times> VersionStorageInfo) list \<Rightarrow> status" where
  "LoadVersions opts answers [] = StatusOK"
| "LoadVersions opts [] (v # versions) = StatusOK"
| "LoadVersions opts (s # answers) (v # versions) =
     (if s \<noteq> StatusOK \<and> db_paranoid_checks opts then s else LoadVersions opts answers versions)"

text \<open>
  A new manifest gets the next file number, and the group's edits record the counters; whether the
  head writer's first edit is among them depends on its family. What is returned is the number,
  the edits, and the snapshot's numbers of logs and set of logs.
\<close>

definition NeedNewManifest :: "db_options \<Rightarrow> bool \<Rightarrow> VersionSet \<Rightarrow> bool" where
  "NeedNewManifest opts new_descriptor_log vs \<longleftrightarrow>
     vset_descriptor_log vs = None \<or>
     vset_manifest_file_size vs > db_max_manifest_file_size opts \<or> new_descriptor_log"

definition StartManifest :: "VersionEdit \<Rightarrow> bool \<Rightarrow> VersionEdit list \<Rightarrow> VersionSet \<Rightarrow>
    (VersionEdit list \<times> (u32 \<rightharpoonup> u64) \<times> VersionEdit \<times> VersionSet) outcome" where
  "StartManifest garbage first_in_batch edits vs =
     (case NewFileNumber vs of
        (n, vs) \<Rightarrow>
          (let vs = vs\<lparr>vset_pending_manifest_file_number := n\<rparr>
           in if edits = [] then Undef
              else
                (let edits = butlast edits @ [SetNextFile (vset_next_file_number vs) (last edits)];
                     edits = (if vset_max_column_family vs > 0 \<and> first_in_batch
                              then SetMaxColumnFamily (vset_max_column_family vs) (hd edits) # tl edits
                              else edits)
                 in Ok (edits,
                        map_of (rev (map (\<lambda>c. (cfd_id c, cfd_log_number c)) (vset_families vs))),
                        fold (\<lambda>(n, sz). VersionAddWal \<lparr>wa_number = n, wa_synced_size_bytes = sz\<rparr>)
                          (vset_wals vs) (NewVersionEdit garbage),
                        vs))))"

text \<open>Creating the file and writing the snapshot into it.\<close>

definition OpenManifest :: "openssl \<Rightarrow> db_options \<Rightarrow> manifest_io \<Rightarrow> VersionEdit \<Rightarrow> (u32 \<rightharpoonup> u64) \<Rightarrow>
    VersionEdit \<Rightarrow> VersionSet \<Rightarrow> (status \<times> status \<times> VersionSet) outcome" where
  "OpenManifest ssl opts io garbage curr_state wal_additions vs =
     (if mio_new_file io \<noteq> StatusOK then Ok (mio_new_file io, mio_new_file io, vs)
      else
        obind (NewWriter 0 False False True (mio_manifest_key io) (mio_manifest_hash io) (1, []) (1, []))
          (\<lambda>w.
        obind (WriteCurrentStateToManifest ssl opts garbage vs curr_state wal_additions
                 (w\<lparr>dest_io := mio_new_dest io\<rparr>)) (\<lambda>(s, io_s, w).
          Ok (s, io_s, vs\<lparr>vset_descriptor_log := Some w\<rparr>))))"

text \<open>Writing the edits, and synchronising the file.\<close>

definition WriteBatchRecords :: "openssl \<Rightarrow> manifest_io \<Rightarrow> VersionEdit list \<Rightarrow> VersionSet \<Rightarrow>
    (status \<times> status \<times> VersionSet) outcome" where
  "WriteBatchRecords ssl io edits vs =
     obind (of_opt (vset_descriptor_log vs)) (\<lambda>w.
     obind (AddEditRecords ssl edits w) (\<lambda>(s, io_s, w).
       let io_s = (if s = StatusOK then mio_sync io else io_s);
           s = (if io_s \<noteq> StatusOK then io_s else s)
       in Ok (s, io_s, vs\<lparr>vset_descriptor_log := Some w\<rparr>)))"

fun ApplyWalEdits :: "VersionEdit list \<Rightarrow> wal_set \<Rightarrow> status \<times> wal_set" where
  "ApplyWalEdits [] wals = (StatusOK, wals)"
| "ApplyWalEdits (e # es) wals =
     (case (if IsWalAddition e then AddWals (ve_wal_additions e) wals
            else if IsWalDeletion e then DeleteWalsBefore (ve_wal_deletion e) wals
            else (StatusOK, wals)) of
        (s, wals) \<Rightarrow> if s \<noteq> StatusOK then (s, wals) else ApplyWalEdits es wals)"

text \<open>The log numbers of the families, the oldest log to keep, and the new versions.\<close>

definition batch_log_number :: "VersionEdit list \<Rightarrow> u32 \<Rightarrow> u64" where
  "batch_log_number edits n =
     fold (\<lambda>e m. if ve_has_log_number e \<and> ve_column_family e = n then max m (ve_log_number e) else m)
       edits 0"

definition batch_min_log_number :: "VersionEdit list \<Rightarrow> u64" where
  "batch_min_log_number edits =
     fold (\<lambda>e m. if ve_has_min_log_number_to_keep e then max m (ve_min_log_number_to_keep e) else m)
       edits 0"

definition InstallVersions :: "VersionEdit list \<Rightarrow> (u32 \<times> VersionStorageInfo) list \<Rightarrow> VersionSet \<Rightarrow> VersionSet" where
  "InstallVersions edits versions vs =
     (let vs = fold (\<lambda>(n, v) vs. let m = batch_log_number edits n
                 in if m \<noteq> 0 then CfdSetLogNumber n m vs else vs) versions vs;
          m = batch_min_log_number edits;
          vs = (if m \<noteq> 0 then MarkMinLogNumberToKeep2PC m vs else vs)
      in fold (\<lambda>(n, v). AppendVersion n v) versions vs)"

text \<open>The effect of a group that was written; \<open>first\<close> is the first edit of the head writer.\<close>

definition InstallBatch :: "bool \<Rightarrow> cf_options option \<Rightarrow> ManifestWriter \<Rightarrow> VersionEdit \<Rightarrow>
    VersionEdit list \<Rightarrow> (u32 \<times> VersionStorageInfo) list \<Rightarrow> VersionSet \<Rightarrow> VersionSet outcome" where
  "InstallBatch new_manifest new_cf_options first_writer first edits versions vs =
     (let vs = (if new_manifest
                then vs\<lparr>vset_obsolete_manifests :=
                       vset_obsolete_manifests vs @ [vset_manifest_file_number vs]\<rparr> else vs)
      in obind
           (if ve_is_column_family_add first then
              obind (of_opt new_cf_options) (\<lambda>options. Ok (CreateColumnFamily options first vs))
            else if ve_is_column_family_drop first then
              obind (of_opt (mw_cfd first_writer)) (\<lambda>n. Ok (SetDropped n vs))
            else Ok (InstallVersions edits versions vs)) (\<lambda>vs.
         Ok (vs\<lparr>vset_manifest_file_number := vset_pending_manifest_file_number vs,
                vset_manifest_file_size :=
                  (case vset_descriptor_log vs of
                     Some w \<Rightarrow> word_of_nat (length (dest w)) | None \<Rightarrow> 0),
                vset_prev_log_number := ve_prev_log_number first\<rparr>)))"

text \<open>From the choice of the manifest to the end of writing.\<close>

definition WriteManifest :: "openssl \<Rightarrow> db_options \<Rightarrow> manifest_io \<Rightarrow> VersionEdit \<Rightarrow> bool \<Rightarrow> bool \<Rightarrow> bool \<Rightarrow>
    VersionEdit list \<Rightarrow> (u32 \<times> VersionStorageInfo) list \<Rightarrow> VersionSet \<Rightarrow>
    (status \<times> status \<times> VersionEdit list \<times> VersionSet) outcome" where
  "WriteManifest ssl opts io garbage new_manifest family_edit first_in_batch edits versions vs =
     obind (if new_manifest then StartManifest garbage first_in_batch edits vs
            else Ok (edits, Map.empty, NewVersionEdit garbage,
              vs\<lparr>vset_pending_manifest_file_number := vset_manifest_file_number vs\<rparr>))
       (\<lambda>(edits, curr_state, wal_additions, vs).
     let s = (if family_edit then StatusOK else LoadVersions opts (mio_load_tables io) versions)
     in obind (if s = StatusOK \<and> new_manifest
               then OpenManifest ssl opts io garbage curr_state wal_additions vs
               else Ok (s, StatusOK, vs)) (\<lambda>(s, io_s, vs).
        obind (if s = StatusOK then WriteBatchRecords ssl io edits vs else Ok (s, io_s, vs))
          (\<lambda>(s, io_s, vs).
          if s = StatusOK \<and> new_manifest then
            Ok (mio_set_current io, mio_set_current io, edits, vs)
          else Ok (s, io_s, edits, vs))))"

text \<open>
  The whole step: the status of the writers that were taken, the queue that is left, and the state.
  Where an edit cannot be applied or the new version is inconsistent, the early return leaves the
  queue as it is.
\<close>

definition ProcessManifestWrites :: "openssl \<Rightarrow> db_options \<Rightarrow> manifest_io \<Rightarrow> VersionEdit \<Rightarrow> bool \<Rightarrow>
    cf_options option \<Rightarrow> ManifestWriter list \<Rightarrow> VersionSet \<Rightarrow>
    (status \<times> ManifestWriter list \<times> VersionSet) outcome" where
  "ProcessManifestWrites ssl opts io garbage new_descriptor_log new_cf_options queue vs =
     obind (CollectBatch opts vs queue) (\<lambda>(s, mb, versions).
     if s \<noteq> StatusOK then Ok (s, queue, vs)
     else
       obind (first_edit (hd queue)) (\<lambda>first.
       let new_manifest = NeedNewManifest opts new_descriptor_log vs;
           family_edit = IsColumnFamilyManipulation first
       in obind (if family_edit then Ok False
                 else obind (find_family (mw_cfd (hd queue)) vs) (\<lambda>cfd. Ok (cfd_dropped cfd)))
            (\<lambda>first_dropped.
          obind (WriteManifest ssl opts io garbage new_manifest family_edit (\<not> first_dropped)
                   (mb_edits mb) versions vs) (\<lambda>(s, io_s, edits, vs).
          let first = (if first_dropped then first else hd edits);
              applied = (if s = StatusOK then ApplyWalEdits edits (vset_wals vs) else (s, vset_wals vs));
              s = fst applied;
              vs = vs\<lparr>vset_wals := snd applied,
                     vset_io_status := (if io_s \<noteq> StatusOK then
                         (if vset_io_status vs = StatusOK then io_s else vset_io_status vs)
                       else StatusOK)\<rparr>
          in obind (if s = StatusOK
                    then InstallBatch new_manifest new_cf_options (hd queue) first edits versions vs
                    else Ok (vs\<lparr>vset_descriptor_log := None\<rparr>)) (\<lambda>vs.
               Ok (s, drop (mb_taken mb) queue, vs\<lparr>vset_pending_manifest_file_number := 0\<rparr>))))))"

end
