(* ===== verification/Manifest_Replay.thy ===== *)
theory Manifest_Replay
  imports Manifest_Handler Manifest_Writer
begin

text \<open>
  A manifest that was written by \<open>Manifest_Writer\<close> and is read by \<open>Manifest_Handler\<close>: the reader hands
  the edits to the handler in order, those of an atomic group together, and stops at the end of the
  file.
\<close>

section \<open>Where the reader is in its file\<close>

text \<open>
  The offset behind the buffer counts what has been read of a file of \<open>sz\<close> bytes; at most \<open>lim\<close> are
  left.
\<close>

definition tracks :: "nat \<Rightarrow> nat \<Rightarrow> Reader \<Rightarrow> bool" where
  "tracks lim sz r \<longleftrightarrow>
     length (r_file r) \<le> lim \<and> lim \<le> sz \<and> end_of_buffer_offset r = word_of_nat (sz - length (r_file r))"

lemma tracks_same:
  "r_file r' = r_file r \<Longrightarrow> end_of_buffer_offset r' = end_of_buffer_offset r \<Longrightarrow>
   tracks lim sz r' = tracks lim sz r"
  by (simp add: tracks_def)

lemma tracks_frame [simp]:
  "tracks lim sz (write_buf i bs r) = tracks lim sz r"
  "tracks lim sz (clear_buffer r) = tracks lim sz r"
  "tracks lim sz (remove_prefix n r) = tracks lim sz r"
  "tracks lim sz (ReportDrop n reason r) = tracks lim sz r"
  "tracks lim sz (r\<lparr>buf_len := l\<rparr>) = tracks lim sz r"
  "tracks lim sz (r\<lparr>r_eof := x\<rparr>) = tracks lim sz r"
  "tracks lim sz (r\<lparr>read_error := x\<rparr>) = tracks lim sz r"
  "tracks lim sz (r\<lparr>eof_offset := l\<rparr>) = tracks lim sz r"
  "tracks lim sz (r\<lparr>recycled := x\<rparr>) = tracks lim sz r"
  "tracks lim sz (r\<lparr>r_previous_mac := m\<rparr>) = tracks lim sz r"
  "tracks lim sz (r\<lparr>last_record_offset := q\<rparr>) = tracks lim sz r"
  by (rule tracks_same; simp add: clear_buffer_def remove_prefix_def ReportDrop_def)+

lemma tracks_read:
  assumes "tracks lim sz r" and "k \<le> length (r_file r)"
    and "r_file r' = drop k (r_file r)"
    and "end_of_buffer_offset r' = end_of_buffer_offset r + word_of_nat k"
  shows "tracks lim sz r'"
proof -
  have len: "length (r_file r) \<le> lim" "lim \<le> sz" using assms(1) unfolding tracks_def by blast+
  then have "sz - length (r_file r') = (sz - length (r_file r)) + k" using assms(2,3) by simp
  then have "end_of_buffer_offset r' = word_of_nat (sz - length (r_file r'))"
    using assms(1,4) by (simp only: tracks_def of_nat_add)
  moreover have "length (r_file r') \<le> lim" using len(1) assms(3) by simp
  ultimately show ?thesis using len(2) unfolding tracks_def by blast
qed

lemma seq_read_file:
  assumes "seq_read n r = (s, data, r')"
  shows "length data \<le> length (r_file r)" and "r_file r' = drop (length data) (r_file r)"
    and "end_of_buffer_offset r' = end_of_buffer_offset r"
  using assms by (auto simp: seq_read_def min_def Let_def split: list.splits prod.splits)

lemma ReadMore_tracks:
  assumes "ReadMore r = (x, r')" and "tracks lim sz r"
  shows "tracks lim sz r'"
proof (cases "r_eof r \<or> read_error r")
  case True
  then show ?thesis using assms by (auto simp: ReadMore_def split: if_split_asm)
next
  case False
  obtain s data r1 where sr: "seq_read kBlockSize (clear_buffer r) = (s, data, r1)"
    by (cases "seq_read kBlockSize (clear_buffer r)")
  note f = seq_read_file [OF sr]
  have "tracks lim sz (write_buf 0 data r1\<lparr>buf_len := length data,
      end_of_buffer_offset := end_of_buffer_offset r1 + word_of_nat (length data)\<rparr>)"
    using tracks_read [of lim sz r "length data"] f assms(2) by (simp add: clear_buffer_def)
  then show ?thesis using assms(1) False sr
    by (auto simp: ReadMore_def Let_def split: if_split_asm)
qed

lemma TakeFragment_tracks:
  "TakeFragment hs len t r = Ok (p, r') \<Longrightarrow> tracks lim sz r' = tracks lim sz r"
  by (auto simp: TakeFragment_def Let_def obind_eq_Ok split: if_split_asm)

lemma ParseType_tracks:
  assumes "ParseType len t r = Ok (p, r')" and "tracks lim sz r"
  shows "tracks lim sz r'"
  using assms
  by (auto simp: ParseType_def Let_def obind_eq_Ok TakeFragment_tracks
      split: if_split_asm prod.splits option.splits dest!: ReadMore_tracks [where lim = lim and sz = sz])

lemma ParsePhysical_tracks:
  assumes "ParsePhysical ssl r = Ok (p, r')" and "tracks lim sz r"
  shows "tracks lim sz r'"
proof -
  obtain n h r1 t where d: "DecryptFragment ssl n (write_buf 0 h r) = Ok r1"
    and t: "ParseType n t r1 = Ok (p, r')"
    using assms(1) unfolding ParsePhysical_def Let_def obind_eq_Ok by blast
  have "tracks lim sz r1" using d assms(2) by (auto simp: DecryptFragment_def obind_eq_Ok)
  then show ?thesis using t ParseType_tracks by blast
qed

lemma ReadPhysicalRecord_tracks:
  "ReadPhysicalRecord ssl r = Ok (p, r') \<Longrightarrow> tracks lim sz r \<Longrightarrow> tracks lim sz r'"
proof (induction ssl r rule: ReadPhysicalRecord.induct)
  case (1 ssl r)
  show ?case
  proof (cases "buf_len r < kHeaderSize + 16")
    case True
    obtain x r1 where m: "ReadMore r = (x, r1)" by (cases "ReadMore r")
    note t = ReadMore_tracks [OF m "1.prems"(2)]
    have "ReadPhysicalRecord ssl r = (case x of Some (e, n) \<Rightarrow> Ok (special e n, r1)
        | None \<Rightarrow> ReadPhysicalRecord ssl r1)"
      using True m by (subst ReadPhysicalRecord.simps) simp
    then show ?thesis using "1.prems"(1) "1.IH"(1) [OF True m [symmetric]] t
      by (cases x) (auto split: prod.splits)
  next
    case False
    then have "obind (ParsePhysical ssl r) (\<lambda>(p, r'). case p of Some p \<Rightarrow> Ok (p, r')
        | None \<Rightarrow> ReadPhysicalRecord ssl r') = Ok (p, r')"
      using "1.prems"(1) by (subst (asm) ReadPhysicalRecord.simps) simp
    then obtain q r1 where q: "ParsePhysical ssl r = Ok (q, r1)"
      and c: "(case q of Some p \<Rightarrow> Ok (p, r1) | None \<Rightarrow> ReadPhysicalRecord ssl r1) = Ok (p, r')"
      by (auto simp: obind_eq_Ok)
    note t = ParsePhysical_tracks [OF q "1.prems"(2)]
    show ?thesis using c t "1.IH"(2) [OF False, of "(q, r1)" q r1] q
      by (cases q) auto
  qed
qed

lemma report_tracks [simp]:
  "tracks lim sz (tail_report mode in_frag scratch r) = tracks lim sz r"
  "tracks lim sz (middle_report in_frag scratch r) = tracks lim sz r"
  by (simp_all add: tail_report_def middle_report_def)

definition keeps_track :: "nat \<Rightarrow> nat \<Rightarrow> Reader \<Rightarrow> (bytes option \<times> Reader) outcome \<Rightarrow> bool" where
  "keeps_track lim sz r y \<longleftrightarrow> (tracks lim sz r \<longrightarrow> (case y of Ok (x, r') \<Rightarrow> tracks lim sz r' | _ \<Rightarrow> True))"

lemma ReadRecordLoop_tracks:
  assumes "ReadRecordLoop ssl mode in_frag scratch frag offset r = Some y"
  shows "keeps_track lim sz r y"
apply (rule ReadRecordLoop.raw_induct [where P = "\<lambda>_ _ _ _ _ _ r y. keeps_track lim sz r y", OF _ assms])
  subgoal premises prems for loop ssl mode in_frag scratch frag offset r y
  proof (cases "ReadPhysicalRecord ssl r")
    case (Ok q)
    obtain p r1 where q: "q = (p, r1)" by (cases q)
    have t: "tracks lim sz r1 \<or> \<not> tracks lim sz r"
      using ReadPhysicalRecord_tracks [of ssl r p r1 lim sz] Ok q by auto
    show ?thesis using prems(2) t unfolding Ok q Let_def
      by (simp split: if_split_asm) (auto simp: keeps_track_def dest: prems(1))
  qed (use prems(2) in \<open>auto simp: Let_def keeps_track_def\<close>)
  done

lemma ReadRecord_tracks:
  assumes "ReadRecord ssl mode r = Some (Ok (x, r'))" and "tracks lim sz r"
  shows "tracks lim sz r'"
  using ReadRecordLoop_tracks [OF assms(1) [unfolded ReadRecord_def], of lim sz] assms(2)
  by (simp add: keeps_track_def)

lemma LastRecordEnd_inside:
  assumes "reader_at key mac off T r" and "tracks lim sz r" and "length T \<le> sz" and "sz < 2 ^ 64 - 1"
  shows "LastRecordEnd r < 2 ^ 64 - 1"
proof -
  obtain n where "buf_len r = length (take n T)" "r_file r = drop n T"
    using assms(1) unfolding reader_at_def by blast
  then have "buf_len r + length (r_file r) = length T" by (simp add: min_def)
  then have e: "sz - length (r_file r) = (sz - length T) + buf_len r" using assms(3) by simp
  have "LastRecordEnd r = word_of_nat (sz - length T)"
    using assms(2) unfolding LastRecordEnd_def tracks_def e by simp
  moreover have "(word_of_nat (sz - length T) :: u64) < 2 ^ 64 - 1"
    using assms(4) by (simp add: word_less_nat_alt unat_of_nat)
  ultimately show ?thesis by simp
qed

section \<open>Replaying records\<close>

fun ReplayRecords :: "'h handler_class \<Rightarrow> VersionEdit \<Rightarrow> status \<Rightarrow> AtomicGroupReadBuffer \<Rightarrow> bytes list \<Rightarrow>
    'h \<Rightarrow> (status \<times> 'h) outcome" where
  "ReplayRecords hc garbage s b [] h = Ok (s, h)"
| "ReplayRecords hc garbage s b (x # xs) h =
     (if s \<noteq> StatusOK then Ok (s, h)
      else
        obind (IterateRecord hc garbage x b h) (\<lambda>(s, left_loop, b, h).
          if left_loop then Ok (s, h) else ReplayRecords hc garbage s b xs h))"

lemma IterateRecord_left:
  "IterateRecord hc garbage x b h = Ok (s, True, b', h') \<Longrightarrow> s \<noteq> StatusOK"
  by (auto simp: IterateRecord_def IterateEdit_def obind_eq_Ok split: if_split_asm)

lemma IterateLoop_written:
  assumes "openssl_ok ssl" and "length key = 32" and "length mac = 16"
    and "reader_at key mac off (encode_log ssl key off mac (concat fss)) r"
    and "frags_fit off (concat fss)" and "frags_of rs fss" and "tracks lim sz r"
    and "length (encode_log ssl key off mac (concat fss)) \<le> sz" and "sz < 2 ^ 64 - 1"
  shows "\<exists>r'. IterateLoop ssl hc garbage (2 ^ 64 - 1) s b r h =
      Some (obind (ReplayRecords hc garbage s b rs h) (\<lambda>(s, h). Ok (s, r', h))) \<and>
    reports r' = [] \<and>
    ((\<exists>h'. ReplayRecords hc garbage s b rs h = Ok (StatusOK, h')) \<longrightarrow>
      end_of_buffer_offset r' = word_of_nat sz)"
  using assms(3-8)
proof (induction rs arbitrary: fss mac off r s b h lim)
  case Nil
  have rep: "reports r = []" using Nil.prems(2) by (simp add: reader_at_def)
  have T: "concat fss = []" using Nil.prems(4) by (simp add: frags_of_def)
  have last: "LastRecordEnd r < 2 ^ 64 - 1"
    using LastRecordEnd_inside [OF Nil.prems(2,5,6) assms(9)] .
  have "reader_at key mac off [] r" using Nil.prems(2) T by simp
  from ReadPhysicalRecord_end [OF this, of ssl]
  obtain r1 where p: "ReadPhysicalRecord ssl r = Ok (special kEof 0, r1)" "reports r1 = []" by blast
  then have rr: "ReadRecord ssl m r = Some (Ok (None, r1))" for m
    unfolding ReadRecord_def
    by (subst ReadRecordLoop.simps)
      (simp add: Let_def special_def special_defs is_type_def record_type_defs tail_report_def)
  have "tracks 0 sz r" using Nil.prems(2,5) T by (simp add: reader_at_def tracks_def)
  then have "tracks 0 sz r1" using rr ReadRecord_tracks by blast
  then show ?case using last rr p(2) rep
    by (subst IterateLoop.simps) (auto simp: tracks_def)
next
  case (Cons x rs)
  have rep: "reports r = []" using Cons.prems(2) by (simp add: reader_at_def)
  have last: "LastRecordEnd r < 2 ^ 64 - 1"
    using LastRecordEnd_inside [OF Cons.prems(2,5,6) assms(9)] .
  obtain fs gss where fss: "fss = fs # gss" "concat (map snd fs) = x" "frags_shape True fs"
    "frags_of rs gss"
    using Cons.prems(4) by (auto simp: frags_of_def list_all2_Cons1)
  obtain r1 where r1: "ReadRecord ssl kTolerateCorruptedTailRecords r = Some (Ok (Some x, r1))"
    "reader_at key (end_mac ssl key mac fs) (end_offset off fs)
      (encode_log ssl key (end_offset off fs) (end_mac ssl key mac fs) (concat gss)) r1"
    using ReadRecordLoop_record [OF assms(1,2) Cons.prems(1), of off fs "concat gss" r True "[]"
        kTolerateCorruptedTailRecords "[]" 0] Cons.prems(2,3) fss
    by (auto simp: ReadRecord_def)
  have mac16: "length (end_mac ssl key m gs) = 16" if "length m = 16" for m gs
    using that assms(1) by (induction gs arbitrary: m) auto
  have m: "length (end_mac ssl key mac fs) = 16" "frags_fit (end_offset off fs) (concat gss)"
    "length (encode_log ssl key (end_offset off fs) (end_mac ssl key mac fs) (concat gss)) \<le> sz"
    using mac16 [OF Cons.prems(1)] Cons.prems(3,6) fss(1)
    by (simp_all add: frags_fit_append encode_log_append)
  note IH = Cons.IH [OF m(1) r1(2) m(2) fss(4) ReadRecord_tracks [OF r1(1) Cons.prems(5)] m(3)]
  have no_reports: "reports r1 = []" using r1(2) by (simp add: reader_at_def)
  then have rep1: "log_read_status r1 = StatusOK" by (simp add: log_read_status_def)
  show ?case
  proof (cases "s = StatusOK")
    case False
    then show ?thesis using rep last by (subst IterateLoop.simps) auto
  next
    case True
    note unf = IterateLoop.simps [of ssl hc garbage _ s b r h]
    show ?thesis
    proof (cases "IterateRecord hc garbage x b h")
      case (Ok q)
      obtain s' left_loop b' h' where q: "q = (s', left_loop, b', h')" by (cases q)
      show ?thesis
        using last r1(1) rep1 no_reports True Ok q IH [of s' b' h']
          IterateRecord_left [of hc garbage x b h s' b' h']
        by (subst unf) auto
    qed (use last r1(1) rep1 no_reports True in \<open>subst unf; auto\<close>)+
  qed
qed

text \<open>The same for edits that have been decoded.\<close>

fun ReplayEdits :: "'h handler_class \<Rightarrow> VersionEdit \<Rightarrow> status \<Rightarrow> AtomicGroupReadBuffer \<Rightarrow>
    VersionEdit list \<Rightarrow> 'h \<Rightarrow> (status \<times> 'h) outcome" where
  "ReplayEdits hc garbage s b [] h = Ok (s, h)"
| "ReplayEdits hc garbage s b (e # es) h =
     (if s \<noteq> StatusOK then Ok (s, h)
      else
        obind (IterateEdit hc garbage e b h) (\<lambda>(s, left_loop, b, h).
          if left_loop then Ok (s, h) else ReplayEdits hc garbage s b es h))"

lemma ReplayRecords_decoded:
  assumes "list_all2 (\<lambda>x e. VersionEditDecodeFrom (NewVersionEdit garbage) x = Ok (StatusOK, e)) rs es"
  shows "ReplayRecords hc garbage s b rs h = ReplayEdits hc garbage s b es h"
  using assms
  by (induction rs es arbitrary: s b h rule: list_all2_induct)
    (auto simp: IterateRecord_def intro!: arg_cong2 [where f = obind])

section \<open>Atomic groups\<close>

text \<open>
  A unit of the manifest is an edit by itself, or the edits of an atomic group, which count down how
  many are to come.
\<close>

definition atomic_group :: "VersionEdit list \<Rightarrow> bool" where
  "atomic_group es \<longleftrightarrow>
     es \<noteq> [] \<and> length es < 2 ^ 32 \<and>
     (\<forall>i < length es. ve_is_in_atomic_group (es ! i) \<and>
       ve_remaining_entries (es ! i) = word_of_nat (length es - 1 - i))"

definition edit_unit :: "VersionEdit list \<Rightarrow> bool" where
  "edit_unit es \<longleftrightarrow> atomic_group es \<or> (\<exists>e. es = [e] \<and> \<not> ve_is_in_atomic_group e)"

text \<open>The state of the read buffer behind the first \<open>i\<close> edits of a group, and its next step.\<close>

definition group_buffer :: "VersionEdit \<Rightarrow> VersionEdit list \<Rightarrow> nat \<Rightarrow> AtomicGroupReadBuffer" where
  "group_buffer garbage es i =
     (if i = 0 then NewReadBuffer
      else \<lparr>ag_read_edits = word_of_nat i,
            ag_replay_buffer = take i es @ replicate (length es - i) (NewVersionEdit garbage)\<rparr>)"

lemma ucast_word_of_nat:
  "k < 2 ^ 32 \<Longrightarrow> ucast (word_of_nat k :: u32) = (word_of_nat k :: u64)"
  by (rule word_unat_eq_iff [THEN iffD2]) (simp add: unat_ucast_up unat_of_nat)

lemma AddEdit_group:
  assumes "atomic_group es" and "i < length es"
  shows "AddEdit garbage (es ! i) (group_buffer garbage es i) =
    Ok (StatusOK, group_buffer garbage es (Suc i))"
proof -
  let ?n = "length es"
  have n: "?n < 2 ^ 32" "es \<noteq> []" and e: "ve_is_in_atomic_group (es ! i)"
    "ve_remaining_entries (es ! i) = word_of_nat (?n - 1 - i)"
    using assms by (auto simp: atomic_group_def)
  let ?b = "if ag_replay_buffer (group_buffer garbage es i) = []
    then (group_buffer garbage es i)\<lparr>ag_replay_buffer :=
      replicate (unat (ve_remaining_entries (es ! i) + 1)) (NewVersionEdit garbage)\<rparr>
    else group_buffer garbage es i"
  have b: "?b = \<lparr>ag_read_edits = word_of_nat i,
      ag_replay_buffer = take i es @ replicate (?n - i) (NewVersionEdit garbage)\<rparr>"
  proof (cases "i = 0")
    case True
    have "unat (word_of_nat (?n - 1) + 1 :: u32) = ?n"
      using n by (simp add: unat_word_ariths unat_of_nat)
    then show ?thesis using True e(2) by (simp add: group_buffer_def NewReadBuffer_def)
  next
    case False
    then show ?thesis using assms(2) n(2) by (auto simp: group_buffer_def)
  qed
  have c: "word_of_nat i + 1 + ucast (word_of_nat (?n - 1 - i) :: u32) = (word_of_nat ?n :: u64)"
    "ucast (word_of_nat ?n :: u32) = (word_of_nat ?n :: u64)"
    "unat (word_of_nat i :: u64) = i"
  proof -
    have "i + 1 + (?n - 1 - i) = ?n" using assms(2) by simp
    then have "(word_of_nat i + 1 + word_of_nat (?n - 1 - i) :: u64) = word_of_nat ?n"
      by (metis of_nat_add of_nat_1)
    then show "word_of_nat i + 1 + ucast (word_of_nat (?n - 1 - i) :: u32) = (word_of_nat ?n :: u64)"
      using n(1) by (simp add: ucast_word_of_nat)
    show "ucast (word_of_nat ?n :: u32) = (word_of_nat ?n :: u64)"
      using n(1) by (simp add: ucast_word_of_nat)
    show "unat (word_of_nat i :: u64) = i" using assms(2) n(1) by (simp add: unat_of_nat)
  qed
  have t: "(take i es @ replicate (?n - i) (NewVersionEdit garbage))[i := es ! i] =
      take (Suc i) es @ replicate (?n - Suc i) (NewVersionEdit garbage)"
    using assms(2)
    by (simp add: list_update_append take_Suc_conv_app_nth Suc_diff_Suc [symmetric] replicate_Suc)
  show ?thesis
    unfolding AddEdit_def Let_def b using e(1) c t assms(2)
    by (simp add: e(2) group_buffer_def add.commute)
qed

lemma IsFull_group:
  assumes "atomic_group es" and "i < length es"
  shows "IsFull (group_buffer garbage es (Suc i)) \<longleftrightarrow> Suc i = length es"
proof -
  have "(word_of_nat (Suc i) = (word_of_nat (length es) :: u64)) = (Suc i = length es)"
    using assms by (subst word_unat_eq_iff) (simp add: unat_of_nat atomic_group_def del: of_nat_Suc)
  moreover have "length (take (Suc i) es @ replicate (length es - Suc i) (NewVersionEdit garbage)) = length es"
    using assms(2) by simp
  ultimately show ?thesis by (simp add: IsFull_def group_buffer_def del: of_nat_Suc)
qed

lemma ReplayEdits_group_from:
  assumes "atomic_group es" and "i < length es"
  shows "ReplayEdits hc garbage StatusOK (group_buffer garbage es i) (drop i es @ rest_edits) h =
    obind (ApplyGroup hc es None h) (\<lambda>(s, h).
      if s \<noteq> StatusOK then Ok (s, h) else ReplayEdits hc garbage StatusOK NewReadBuffer rest_edits h)"
  using assms(2)
proof (induction "length es - i" arbitrary: i)
  case 0
  then show ?case by simp
next
  case (Suc k)
  have d: "drop i es = es ! i # drop (Suc i) es" using Suc.prems by (simp add: Cons_nth_drop_Suc)
  have a: "ve_is_in_atomic_group (es ! i)" using assms(1) Suc.prems by (simp add: atomic_group_def)
  note step = AddEdit_group [OF assms(1) Suc.prems] IsFull_group [OF assms(1) Suc.prems]
  show ?case
  proof (cases "Suc i = length es")
    case True
    then have "ag_replay_buffer (group_buffer garbage es (Suc i)) = es"
      by (cases es) (simp_all add: group_buffer_def)
    then show ?thesis using True d a step
      by (auto simp: IterateEdit_def ReadBufferClear_def NewReadBuffer_def obind_def
          split: outcome.splits)
  next
    case False
    then have "ReplayEdits hc garbage StatusOK (group_buffer garbage es (Suc i)) (drop (Suc i) es @ rest_edits) h =
        obind (ApplyGroup hc es None h) (\<lambda>(s, h).
          if s \<noteq> StatusOK then Ok (s, h) else ReplayEdits hc garbage StatusOK NewReadBuffer rest_edits h)"
      using Suc.hyps(2) Suc.prems by (intro Suc.hyps(1)) auto
    then show ?thesis using False d a step by (simp add: IterateEdit_def)
  qed
qed

lemma ReplayEdits_unfinished_from:
  assumes "atomic_group es" and "i + j < length es"
  shows "ReplayEdits hc garbage StatusOK (group_buffer garbage es i) (take j (drop i es)) h = Ok (StatusOK, h)"
  using assms(2)
proof (induction j arbitrary: i)
  case (Suc j)
  then have i: "i < length es" "Suc i \<noteq> length es" by simp_all
  have "take (Suc j) (drop i es) = es ! i # take j (drop (Suc i) es)"
    using i by (simp add: Cons_nth_drop_Suc [symmetric])
  moreover have "ve_is_in_atomic_group (es ! i)" using assms(1) i by (simp add: atomic_group_def)
  ultimately show ?case
    using AddEdit_group [OF assms(1) i(1)] IsFull_group [OF assms(1) i(1)] i Suc
    by (simp add: IterateEdit_def)
qed simp

text \<open>
  The effect of a manifest: its units one after the other. Edits of a group that is cut off have no
  effect.
\<close>

fun ApplyUnits :: "'h handler_class \<Rightarrow> VersionEdit list list \<Rightarrow> 'h \<Rightarrow> (status \<times> 'h) outcome" where
  "ApplyUnits hc [] h = Ok (StatusOK, h)"
| "ApplyUnits hc (u # us) h =
     obind (ApplyGroup hc u None h) (\<lambda>(s, h). if s \<noteq> StatusOK then Ok (s, h) else ApplyUnits hc us h)"

definition unfinished :: "VersionEdit list \<Rightarrow> bool" where
  "unfinished es \<longleftrightarrow> (\<exists>g k. atomic_group g \<and> k < length g \<and> es = take k g)"

lemma unfinished_Nil: "unfinished []"
  unfolding unfinished_def
  by (rule exI [of _ "[NewVersionEdit undefined\<lparr>ve_is_in_atomic_group := True, ve_remaining_entries := 0\<rparr>]"])
    (auto simp: atomic_group_def)

lemma ReplayEdits_units:
  assumes "\<forall>u \<in> set us. edit_unit u" and "unfinished rest"
  shows "ReplayEdits hc garbage StatusOK NewReadBuffer (concat us @ rest) h = ApplyUnits hc us h"
  using assms(1)
proof (induction us arbitrary: h)
  case Nil
  obtain g k where "atomic_group g" "k < length g" "rest = take k g"
    using assms(2) by (auto simp: unfinished_def)
  then show ?case using ReplayEdits_unfinished_from [of g 0 k hc garbage h]
    by (simp add: group_buffer_def)
next
  case (Cons u us)
  consider "atomic_group u" | e where "u = [e]" "\<not> ve_is_in_atomic_group e"
    using Cons.prems by (auto simp: edit_unit_def)
  then show ?case
  proof cases
    case 1
    then have "0 < length u" by (auto simp: atomic_group_def)
    then show ?thesis using ReplayEdits_group_from [OF 1, of 0 hc garbage "concat us @ rest" h]
        Cons.IH Cons.prems
      by (auto simp: group_buffer_def obind_def split: outcome.splits)
  next
    case 2
    have b: "ag_replay_buffer NewReadBuffer = []" by (simp add: NewReadBuffer_def)
    have stop: "ReplayEdits hc garbage s b' es h' = Ok (s, h')" if "s \<noteq> StatusOK" for s b' es h'
      using that by (cases es) auto
    show ?thesis using 2 b Cons.IH Cons.prems stop
      by (auto simp: IterateEdit_def AddEdit_def obind_def split: outcome.splits)
  qed
qed

section \<open>From the log of a manifest to the version set\<close>

text \<open>What a record decodes to, for an edit that the format can hold.\<close>

definition decoded :: "VersionEdit \<Rightarrow> VersionEdit" where
  "decoded e = e\<lparr>ve_max_level := highest_level e\<rparr>"

definition edit_bytes :: "VersionEdit \<Rightarrow> bytes" where
  "edit_bytes e = snd (VersionEditEncodeTo [] e)"

lemma edit_bytes_decode:
  assumes "edit_ok garbage e"
  shows "VersionEditEncodeTo [] e = (True, edit_bytes e)"
    and "VersionEditDecodeFrom (NewVersionEdit garbage) (edit_bytes e) = Ok (StatusOK, decoded e)"
  using VersionEdit_roundtrip [OF assms] by (auto simp: edit_bytes_def decoded_def)

lemma AddEditRecords_written:
  assumes "openssl_ok ssl" and "writer_ok w" and "\<forall>e \<in> set es. edit_ok garbage e"
  shows "\<exists>w'. AddEditRecords ssl es w = Ok (StatusOK, StatusOK, w') \<and> writer_ok w' \<and>
    AddRecords ssl (map edit_bytes es) w = Ok (StatusOK, w')"
  using assms(2,3)
proof (induction es arbitrary: w)
  case (Cons e es)
  obtain w1 where w1: "AddRecord ssl (edit_bytes e) w = Ok (StatusOK, w1)" "writer_ok w1"
    using AddRecord_spec [OF assms(1) Cons.prems(1), of "edit_bytes e"] by blast
  then show ?case using Cons.IH [OF w1(2)] Cons.prems(2) edit_bytes_decode(1) [of garbage e]
    by (simp add: AddEditRecord_def)
qed simp

text \<open>The decoded units of a manifest, replayed on a handler.\<close>

definition ReplayManifest ::
    "handler_config \<Rightarrow> VersionEdit \<Rightarrow> u64 \<Rightarrow> VersionEdit list list \<Rightarrow> handler \<Rightarrow> (status \<times> handler) outcome" where
  "ReplayManifest cfg garbage read_offset us h =
     obind (Initialize cfg garbage h) (\<lambda>(s, h).
     obind (if s = StatusOK then ApplyUnits (edit_handler cfg garbage) us h else Ok (s, h)) (\<lambda>(s, h).
       CheckIterationResult cfg garbage read_offset s h))"

lemma CheckIterationResult_error:
  "s \<noteq> StatusOK \<Longrightarrow> CheckIterationResult cfg garbage n s h = Ok (s, h)"
  by (simp add: CheckIterationResult_def BaseCheckIterationResult_def)

lemma CheckIterationResult_ok:
  assumes "CheckIterationResult cfg garbage n s h = Ok (StatusOK, h')"
  shows "s = StatusOK"
  using assms by (cases "s = StatusOK") (auto simp: CheckIterationResult_error)

definition manifest_log :: "openssl \<Rightarrow> bytes \<Rightarrow> bytes \<Rightarrow> VersionEdit list \<Rightarrow> bytes \<Rightarrow> bool" where
  "manifest_log ssl mk mh es contents \<longleftrightarrow>
     (\<exists>w w'. NewWriter 0 False False True mk mh (1, []) (1, []) = Ok w \<and>
       AddEditRecords ssl es w = Ok (StatusOK, StatusOK, w') \<and> contents = dest w')"

lemma Iterate_manifest:
  assumes "openssl_ok ssl" and "32 \<le> length mk" and "16 \<le> length mh" and "length junk = kBlockSize"
    and "manifest_log ssl mk mh (concat us @ rest) contents" and "length contents < 2 ^ 64 - 1"
    and "\<forall>e \<in> set (concat us @ rest). edit_ok garbage e"
    and "\<forall>u \<in> set us. edit_unit (map decoded u)" and "unfinished (map decoded rest)"
  shows "\<exists>r. Iterate ssl (edit_handler cfg garbage) garbage (2 ^ 64 - 1)
      (NewReader contents junk True 0 True mk mh secret) h =
    Some (obind (ReplayManifest cfg garbage (word_of_nat (length contents)) (map (map decoded) us) h)
      (\<lambda>(s, h). Ok (s, r, h))) \<and>
    (\<forall>h'. ReplayManifest cfg garbage (word_of_nat (length contents)) (map (map decoded) us) h =
      Ok (StatusOK, h') \<longrightarrow> GetReadOffset r = word_of_nat (length contents))"
proof -
  let ?es = "concat us @ rest" and ?hc = "edit_handler cfg garbage" and ?sz = "length contents"
  let ?key = "take 32 mk" and ?mac = "take 16 mh"
  define r0 where "r0 = NewReader contents junk True 0 True mk mh secret"
  obtain w w' where w: "NewWriter 0 False False True mk mh (1, []) (1, []) = Ok w"
    "AddEditRecords ssl ?es w = Ok (StatusOK, StatusOK, w')" "contents = dest w'"
    using assms(5) by (auto simp: manifest_log_def)
  have wk: "writer_ok w" "w_unique_key w = ?key" "w_previous_mac w = ?mac" "block_offset w = 0"
    "dest w = []"
    using w(1) assms(2,3) by (auto simp: NewWriter_def writer_ok_def Let_def)
  obtain fss where fss: "frags_of (map edit_bytes ?es) fss" "frags_fit 0 (concat fss)"
    "contents = encode_log ssl ?key 0 ?mac (concat fss)"
    using AddEditRecords_written [OF assms(1) wk(1) assms(7)]
      AddRecords_spec [OF assms(1) wk(1), of "map edit_bytes ?es"] w wk by auto
  have at: "reader_at ?key ?mac kBlockSize contents r0"
    using assms(2-4) by (simp add: r0_def reader_at_def NewReader_def buffer_def)
  have tr: "tracks ?sz ?sz r0" by (simp add: tracks_def r0_def NewReader_def)
  note start = encode_log_start(1) [OF fss(2), of ssl ?key ?mac] encode_log_start(2) [OF fss(2)]
  have dec: "list_all2 (\<lambda>x e. VersionEditDecodeFrom (NewVersionEdit garbage) x = Ok (StatusOK, e))
      (map edit_bytes ?es) (map decoded ?es)"
    using assms(7) edit_bytes_decode(2) [of garbage]
    unfolding list_all2_map1 list_all2_map2 list_all2_same by blast
  have units: "ReplayRecords ?hc garbage StatusOK NewReadBuffer (map edit_bytes ?es) h =
      ApplyUnits ?hc (map (map decoded) us) h" for h
  proof -
    have "ReplayRecords ?hc garbage StatusOK NewReadBuffer (map edit_bytes ?es) h =
        ReplayEdits ?hc garbage StatusOK NewReadBuffer (map decoded ?es) h"
      by (rule ReplayRecords_decoded [OF dec])
    then show ?thesis
      using ReplayEdits_units [of "map (map decoded) us" "map decoded rest" ?hc garbage h] assms(8,9)
      by (simp add: map_concat)
  qed
  have loop: "\<exists>r'. IterateLoop ssl ?hc garbage (2 ^ 64 - 1) s NewReadBuffer r0 h =
      Some (obind (if s = StatusOK then ApplyUnits ?hc (map (map decoded) us) h else Ok (s, h))
        (\<lambda>(s, h). Ok (s, r', h))) \<and> log_read_status r' = StatusOK \<and>
      (\<forall>h'. s = StatusOK \<longrightarrow> ApplyUnits ?hc (map (map decoded) us) h = Ok (StatusOK, h') \<longrightarrow>
        GetReadOffset r' = word_of_nat ?sz)" for s h
  proof (cases "s = StatusOK")
    case True
    have mac: "length ?mac = 16" "length ?key = 32" using assms(2,3) by simp_all
    obtain r' where r': "IterateLoop ssl ?hc garbage (2 ^ 64 - 1) StatusOK NewReadBuffer r0 h =
        Some (obind (ReplayRecords ?hc garbage StatusOK NewReadBuffer (map edit_bytes ?es) h)
          (\<lambda>(s, h). Ok (s, r', h)))" "reports r' = []"
      "(\<exists>h'. ReplayRecords ?hc garbage StatusOK NewReadBuffer (map edit_bytes ?es) h = Ok (StatusOK, h'))
        \<longrightarrow> end_of_buffer_offset r' = word_of_nat ?sz"
    proof -
      have "length (encode_log ssl ?key kBlockSize ?mac (concat fss)) \<le> ?sz"
        "reader_at ?key ?mac kBlockSize (encode_log ssl ?key kBlockSize ?mac (concat fss)) r0"
        using at start(1) fss(3) by simp_all
      from IterateLoop_written [OF assms(1) mac(2,1) this(2) start(2) fss(1) tr this(1) assms(6),
          where hc = ?hc and garbage = garbage and s = StatusOK and b = NewReadBuffer and h = h]
      show ?thesis using that by blast
    qed
    show ?thesis
      by (rule exI [of _ r']) (use r' [unfolded units] True in \<open>simp add: log_read_status_def GetReadOffset_def\<close>)
  next
    case False
    then have "IterateLoop ssl ?hc garbage (2 ^ 64 - 1) s NewReadBuffer r0 h = Some (Ok (s, r0, h))"
      by (subst IterateLoop.simps) simp
    moreover have "log_read_status r0 = StatusOK"
      by (simp add: r0_def NewReader_def log_read_status_def)
    ultimately show ?thesis using False by auto
  qed
  show ?thesis
  proof (cases "Initialize cfg garbage h")
    case (Ok q)
    obtain s h1 where q: "q = (s, h1)" by (cases q)
    obtain r' where r': "IterateLoop ssl ?hc garbage (2 ^ 64 - 1) s NewReadBuffer r0 h1 =
        Some (obind (if s = StatusOK then ApplyUnits ?hc (map (map decoded) us) h1 else Ok (s, h1))
          (\<lambda>(s, h). Ok (s, r', h)))" "log_read_status r' = StatusOK"
      "\<And>h'. s = StatusOK \<Longrightarrow> ApplyUnits ?hc (map (map decoded) us) h1 = Ok (StatusOK, h') \<Longrightarrow>
        GetReadOffset r' = word_of_nat ?sz"
      using loop by blast
    let ?X = "if s = StatusOK then ApplyUnits ?hc (map (map decoded) us) h1 else Ok (s, h1)"
    have it: "Iterate ssl ?hc garbage (2 ^ 64 - 1) r0 h =
        Some (obind ?X (\<lambda>(s, h). obind (CheckIterationResult cfg garbage (GetReadOffset r') s h)
          (\<lambda>(s, h). Ok (s, r', h))))"
      using Ok q r'(1,2)
      by (cases ?X) (auto simp: Iterate_def edit_handler_def rbind_def split: prod.splits if_splits)
    have off: "CheckIterationResult cfg garbage (GetReadOffset r') s2 h2 =
        CheckIterationResult cfg garbage (word_of_nat ?sz) s2 h2" if "?X = Ok (s2, h2)" for s2 h2
      using that r'(3) by (cases "s2 = StatusOK") (auto simp: CheckIterationResult_error split: if_splits)
    have rep: "ReplayManifest cfg garbage (word_of_nat ?sz) (map (map decoded) us) h =
        obind ?X (\<lambda>(s, h). CheckIterationResult cfg garbage (word_of_nat ?sz) s h)"
      using Ok q by (simp add: ReplayManifest_def)
    show ?thesis
    proof (intro exI [of _ r'] conjI allI impI)
      show "Iterate ssl ?hc garbage (2 ^ 64 - 1) (NewReader contents junk True 0 True mk mh secret) h =
          Some (obind (ReplayManifest cfg garbage (word_of_nat ?sz) (map (map decoded) us) h)
            (\<lambda>(s, h). Ok (s, r', h)))"
        using it off unfolding rep r0_def by (cases ?X) auto
      fix h' assume "ReplayManifest cfg garbage (word_of_nat ?sz) (map (map decoded) us) h = Ok (StatusOK, h')"
      then obtain h2 where "?X = Ok (StatusOK, h2)"
        unfolding rep using CheckIterationResult_ok by (fastforce simp: obind_eq_Ok)
      then show "GetReadOffset r' = word_of_nat ?sz" using r'(3) by (auto split: if_splits)
    qed
  next
    case Exit
    then show ?thesis by (simp add: Iterate_def ReplayManifest_def edit_handler_def rbind_def)
  next
    case Undef
    then show ?thesis by (simp add: Iterate_def ReplayManifest_def edit_handler_def rbind_def)
  qed
qed

text \<open>\<open>Recover\<close> of such a manifest, possibly cut off inside an atomic group.\<close>

definition recover_config :: "handler_config \<Rightarrow> handler_config" where
  "recover_config cfg = cfg\<lparr>hf_point_in_time := False, hf_track_missing_files := False,
     hf_no_error_if_table_files_missing := False, hf_skip_load_table_files := False\<rparr>"

definition recovered :: "u64 \<Rightarrow> (status \<times> handler) outcome \<Rightarrow> (status \<times> key_list \<times> VersionSet) outcome" where
  "recovered n x =
     obind x (\<lambda>(s, h). Ok (s, h_keys h,
       if s = StatusOK then (h_vset h)\<lparr>vset_manifest_file_size := n\<rparr> else h_vset h))"

lemma Recover_manifest:
  assumes "openssl_ok ssl" and "32 \<le> length mk" and "16 \<le> length mh" and "length junk = kBlockSize"
    and "manifest_log ssl mk mh (concat us @ rest) contents" and "length contents < 2 ^ 64 - 1"
    and "\<forall>e \<in> set (concat us @ rest). edit_ok garbage e"
    and "\<forall>u \<in> set us. edit_unit (map decoded u)" and "unfinished (map decoded rest)"
  shows "Recover ssl mk mh junk secret cfg garbage contents keys vs =
    Some (recovered (word_of_nat (length contents))
      (ReplayManifest (recover_config cfg) garbage (word_of_nat (length contents))
        (map (map decoded) us) (NewHandler garbage keys vs)))"
proof -
  let ?h = "NewHandler garbage keys vs"
  let ?R = "ReplayManifest (recover_config cfg) garbage (word_of_nat (length contents))
    (map (map decoded) us) ?h"
  obtain r where r: "Iterate ssl (edit_handler (recover_config cfg) garbage) garbage (2 ^ 64 - 1)
      (NewReader contents junk True 0 True mk mh secret) ?h = Some (obind ?R (\<lambda>(s, h). Ok (s, r, h)))"
    "\<forall>h'. ?R = Ok (StatusOK, h') \<longrightarrow> GetReadOffset r = word_of_nat (length contents)"
    using Iterate_manifest [OF assms] by blast
  then show ?thesis
    unfolding Recover_def Let_def recover_config_def [symmetric] r(1)
    by (cases ?R) (auto simp: rbind_def recovered_def)
qed

subsection \<open>Small manifests\<close>

text \<open>A manifest whose edits fit in one block: one fragment each.\<close>

lemma AddRecord_small:
  assumes "openssl_ok ssl" and "writer_ok w" and "block_offset w + log_overhead + length data \<le> kBlockSize"
  shows "\<exists>w'. AddRecord ssl data w = Ok (StatusOK, w') \<and> writer_ok w' \<and>
    block_offset w' = block_offset w + log_overhead + length data \<and>
    length (dest w') = length (dest w) + log_overhead + length data"
proof -
  let ?off = "block_offset w"
  have "\<not> kBlockSize - ?off < log_overhead" using assms(3) by linarith
  then have start: "frag_pad ?off = []" "frag_start ?off = ?off"
    by (simp_all add: frag_pad_def frag_start_def)
  have sw: "SwitchBlock w = (StatusOK, w)" using SwitchBlock_ok [OF assms(2)] start by simp
  have rec: "\<not> recycle_log_files w" using assms(2) by (simp add: writer_ok_def)
  have avail: "kBlockSize - ?off - log_header_size w \<ge> length data"
    using assms(3) rec by (simp add: log_header_size_def log_overhead_def)
  define ty where "ty = fragment_type False True True"
  have ty: "ty < kRecyclableFullType" by (simp add: ty_def fragment_type_recyclable)
  let ?w = "w\<lparr>dest := dest w @ frag_bytes ssl (w_unique_key w) (w_previous_mac w) (ty, data),
      block_offset := block_offset w + log_overhead + length data,
      w_previous_mac := frag_mac ssl (w_unique_key w) (w_previous_mac w) data\<rparr>"
  note emit = EmitPhysicalRecord_ok [OF assms(1,2) ty, of data]
  have loop: "AddRecordLoop ssl True data w = Ok (StatusOK, ?w)"
  proof (cases "length data < kBlockSize - ?off - log_header_size w")
    case True
    then show ?thesis by (subst AddRecordLoop.simps) (simp add: sw Let_def rec emit ty_def [symmetric])
  next
    case False
    then have "kBlockSize - (?off + log_header_size w) = length data" using avail by simp
    then show ?thesis by (subst AddRecordLoop.simps) (simp add: sw Let_def rec emit ty_def [symmetric])
  qed
  have ok: "writer_ok ?w" using assms by (simp add: writer_ok_def)
  then have "AddRecord ssl data w = Ok (StatusOK, ?w)" using loop by (simp add: AddRecord_def writer_ok_def)
  moreover have "length (frag_bytes ssl (w_unique_key w) (w_previous_mac w) (ty, data)) = log_overhead + length data"
    using assms(1) ty by (simp add: frag_bytes_def length_record_header log_overhead_def kHeaderSize_def)
  ultimately show ?thesis using ok by (intro exI [of _ ?w]) simp
qed

definition manifest_size :: "VersionEdit list \<Rightarrow> nat" where
  "manifest_size es = (\<Sum>e\<leftarrow>es. log_overhead + length (edit_bytes e))"

lemma AddEditRecords_small:
  assumes "openssl_ok ssl" and "writer_ok w" and "\<forall>e \<in> set es. edit_ok garbage e"
    and "block_offset w + manifest_size es \<le> kBlockSize"
  shows "\<exists>w'. AddEditRecords ssl es w = Ok (StatusOK, StatusOK, w') \<and>
    length (dest w') = length (dest w) + manifest_size es"
  using assms(2-4)
proof (induction es arbitrary: w)
  case (Cons e es)
  have "block_offset w + log_overhead + length (edit_bytes e) \<le> kBlockSize"
    using Cons.prems(3) by (simp add: manifest_size_def)
  then obtain w1 where w1: "AddRecord ssl (edit_bytes e) w = Ok (StatusOK, w1)" "writer_ok w1"
    "block_offset w1 = block_offset w + log_overhead + length (edit_bytes e)"
    "length (dest w1) = length (dest w) + log_overhead + length (edit_bytes e)"
    using AddRecord_small [OF assms(1) Cons.prems(1)] by blast
  then show ?case
    using Cons.IH [OF w1(2)] Cons.prems(2,3) edit_bytes_decode(1) [of garbage e]
    by (simp add: AddEditRecord_def manifest_size_def add.assoc)
qed (simp add: manifest_size_def)

lemma small_manifest:
  assumes "openssl_ok ssl" and "32 \<le> length mk" and "16 \<le> length mh" and "\<forall>e \<in> set es. edit_ok garbage e"
    and "manifest_size es \<le> kBlockSize"
  shows "\<exists>contents. manifest_log ssl mk mh es contents"
    and "manifest_log ssl mk mh es contents \<Longrightarrow> length contents < 2 ^ 64 - 1"
proof -
  obtain w where w: "NewWriter 0 False False True mk mh (1, []) (1, []) = Ok w" "writer_ok w"
    "block_offset w = 0" "dest w = []"
    using assms(2,3) by (simp add: NewWriter_def writer_ok_def Let_def)
  obtain w' where w': "AddEditRecords ssl es w = Ok (StatusOK, StatusOK, w')" "length (dest w') = manifest_size es"
    using AddEditRecords_small [OF assms(1) w(2) assms(4)] assms(5) w(3,4) by auto
  show "\<exists>contents. manifest_log ssl mk mh es contents" using w(1) w'(1) unfolding manifest_log_def by blast
  assume "manifest_log ssl mk mh es contents"
  then have "contents = dest w'" using w(1) w'(1) by (auto simp: manifest_log_def)
  then show "length contents < 2 ^ 64 - 1" using w'(2) assms(5) by (simp add: log_sizes)
qed

end
