(* ===== verification/Manifest_Secrets.thy ===== *)
theory Manifest_Secrets
  imports Manifest_Replay
begin

text \<open>
  What the handler of \<open>Manifest_Handler\<close> makes of the secrets and keys in a manifest: they are those of
  its edits, one after the other, whatever else the edits do.
\<close>

section \<open>Keys and secrets\<close>

text \<open>The keys of table files and the secrets of logs that a handler has collected.\<close>

definition collected :: "handler \<Rightarrow> key_list \<times> (u64 \<rightharpoonup> LogSecret)" where
  "collected h = (h_keys h, vset_log_secret (h_vset h))"

definition collect :: "VersionEdit \<Rightarrow> key_list \<times> (u64 \<rightharpoonup> LogSecret) \<Rightarrow> key_list \<times> (u64 \<rightharpoonup> LogSecret)" where
  "collect e p =
     (let keys = (if ve_is_sst_key e then AddSSTKeyToList (ve_sst_file_number e) (ve_sst_key e) (fst p)
                  else fst p);
          n = ls_log_num (ve_log_secret e)
      in (if ve_is_sst_delete e then DeleteSSTKeyFromList (ve_sst_delete_file_number e) keys else keys,
          if ve_is_log_secret e \<and> snd p n = None then (snd p)(n \<mapsto> ve_log_secret e) else snd p))"

lemma collected_TakeSecrets: "collected (TakeSecrets e h) = collect e (collected h)"
  by (auto simp: collected_def collect_def TakeSecrets_def AddReadSecret_def Let_def split: option.splits)

lemma vset_log_secret_frame [simp]:
  "vset_log_secret (upd_family n f vs) = vset_log_secret vs"
  "vset_log_secret (AppendVersion n v vs) = vset_log_secret vs"
  "vset_log_secret (CfdSetLogNumber n x vs) = vset_log_secret vs"
  "vset_log_secret (RemoveColumnFamily n vs) = vset_log_secret vs"
  "vset_log_secret (CreateColumnFamily opts e vs) = vset_log_secret vs"
  "vset_log_secret (MarkNumbers p vs) = vset_log_secret vs"
  by (simp_all add: upd_family_def AppendVersion_def CfdSetLogNumber_def RemoveColumnFamily_def
      CreateColumnFamily_def UpdateMaxColumnFamily_def MarkNumbers_def MarkFileNumberUsed_def
      MarkMinLogNumberToKeep2PC_def Let_def)

lemma collected_frame [simp]:
  "collected (CreateCfAndInit cfg opts e h) = collected h"
  "collected (h\<lparr>h_builders := bs\<rparr>) = collected h"
  "collected (h\<lparr>h_not_found := nf\<rparr>) = collected h"
  "collected (h\<lparr>h_params := p\<rparr>) = collected h"
  "collected (h\<lparr>h_missing := m\<rparr>) = collected h"
  "collected (h\<lparr>h_versions := vs\<rparr>) = collected h"
  "collected (h\<lparr>h_initialized := i\<rparr>) = collected h"
  "collected (snd (set_wals q h)) = collected h"
  "collected (InstallKept c h) = collected h"
  "collected (h\<lparr>h_vset := CfdSetLogNumber k x (h_vset h)\<rparr>) = collected h"
  "collected (h\<lparr>h_vset := (h_vset h)\<lparr>vset_db_id := d\<rparr>\<rparr>) = collected h"
  "collected (h\<lparr>h_vset := MarkNumbers ps (h_vset h)\<rparr>) = collected h"
  "collected (FinishCounters n h) = collected h"
  by (simp_all add: collected_def CreateCfAndInit_def set_wals_def InstallKept_def FinishCounters_def
      Let_def split: option.splits)

lemma collected_MaybeCreateVersion:
  "MaybeCreateVersion cfg e n forced h = Ok (s, h') \<Longrightarrow> collected h' = collected h"
  by (auto simp: MaybeCreateVersion_def PointInTimeMaybeCreateVersion_def BaseMaybeCreateVersion_def
      obind_eq_Ok Let_def collected_def split: if_split_asm prod.splits)

lemma collected_ApplyVersionEdit:
  assumes "ApplyVersionEdit cfg e cfd h = Ok (s, cfd', h')"
  shows "collected h' = collect e (collected h)"
proof -
  let ?h = "TakeSecrets e h"
  have info: "collected h2 = collected h1"
    if "ExtractInfoFromVersionEdit c e h1 = Ok (s2, h2)" for c h1 s2 h2
  proof -
    note prem = that
    define h3 where "h3 = (if ve_has_db_id e
      then h1\<lparr>h_vset := (h_vset h1)\<lparr>vset_db_id := ve_db_id e\<rparr>,
             h_params := SetDBId (ve_db_id e) (h_params h1)\<rparr> else h1)"
    have "collected h3 = collected h1" by (simp add: h3_def)
    moreover have "collected h2 = collected h3"
    proof (cases c)
      case None
      then show ?thesis using prem unfolding ExtractInfoFromVersionEdit_def Let_def h3_def [symmetric]
        by auto
    next
      case (Some n)
      then obtain cf where "GetColumnFamily n (h_vset h3) = Some cf"
        using prem Some unfolding ExtractInfoFromVersionEdit_def Let_def h3_def [symmetric]
        by (cases "GetColumnFamily n (h_vset h3)") simp_all
      then show ?thesis
        using prem Some unfolding ExtractInfoFromVersionEdit_def Let_def h3_def [symmetric]
        by (auto split: if_split_asm)
    qed
    ultimately show ?thesis by simp
  qed
  have wal: "collected (snd (OnWalAddition e h1)) = collected h1"
    "collected (snd (OnWalDeletion e h1)) = collected h1" for h1
    by (simp_all add: OnWalAddition_def OnWalDeletion_def)
  have add: "collected (snd (snd (OnColumnFamilyAdd cfg e h1))) = collected h1" for h1
    by (simp add: OnColumnFamilyAdd_def CheckColumnFamilyId_def split: option.splits)
  have drop: "collected h2 = collected h1" if "OnColumnFamilyDrop cfg e h1 = Ok (s2, c, h2)" for h1 s2 c h2
    using that by (auto simp: OnColumnFamilyDrop_def CheckColumnFamilyId_def DestroyCfAndCleanup_def
        obind_eq_Ok Let_def collected_def split: if_split_asm)
  have other: "collected h2 = collected h1" if "OnNonCfOperation cfg e h1 = Ok (s2, c, h2)" for h1 s2 c h2
    using that by (auto simp: OnNonCfOperation_def CheckColumnFamilyId_def obind_eq_Ok Let_def
        dest: collected_MaybeCreateVersion split: if_split_asm)
  obtain s1 c1 h1 where h1: "(if ve_is_column_family_add e then Ok (OnColumnFamilyAdd cfg e ?h)
      else if ve_is_column_family_drop e then OnColumnFamilyDrop cfg e ?h
      else if IsWalAddition e then (case OnWalAddition e ?h of (s, h) \<Rightarrow> Ok (s, cfd, h))
      else if IsWalDeletion e then (case OnWalDeletion e ?h of (s, h) \<Rightarrow> Ok (s, cfd, h))
      else OnNonCfOperation cfg e ?h) = Ok (s1, c1, h1)"
    and h': "h' = h1 \<or> (\<exists>s. ExtractInfoFromVersionEdit c1 e h1 = Ok (s, h'))"
    using assms unfolding ApplyVersionEdit_def Let_def obind_eq_Ok
    by (fastforce split: if_split_asm simp: obind_eq_Ok)
  have "collected h1 = collected ?h"
    using h1 add [of ?h] wal [of ?h] drop other by (auto split: if_split_asm prod.splits)
  then show ?thesis using h' info collected_TakeSecrets by metis
qed

lemma collected_ApplyUnits:
  assumes "ApplyUnits (edit_handler cfg garbage) us h = Ok (StatusOK, h')"
  shows "collected h' = fold collect (concat us) (collected h)"
  using assms
proof (induction us arbitrary: h)
  case (Cons u us)
  have group: "collected h2 = fold collect u (collected h1)"
    if "ApplyGroup (edit_handler cfg garbage) u c h1 = Ok (StatusOK, h2)" for c h1 h2
    using that
  proof (induction u arbitrary: c h1)
    case (Cons e u)
    then obtain s c' h3 where "ApplyVersionEdit cfg e c h1 = Ok (s, c', h3)"
      "ApplyGroup (edit_handler cfg garbage) u c' h3 = Ok (StatusOK, h2)"
      by (cases "ApplyVersionEdit cfg e c h1") (auto simp: edit_handler_def split: if_split_asm)
    then show ?case using Cons.IH collected_ApplyVersionEdit by (metis fold_simps(2))
  qed simp
  obtain h1 where "ApplyGroup (edit_handler cfg garbage) u None h = Ok (StatusOK, h1)"
    "ApplyUnits (edit_handler cfg garbage) us h1 = Ok (StatusOK, h')"
    using Cons.prems by (auto simp: obind_eq_Ok split: if_split_asm)
  then show ?case using Cons.IH group by fastforce
qed simp

lemma collected_CheckIterationResult:
  assumes "CheckIterationResult cfg garbage n s h = Ok (s', h')"
  shows "collected h' = collected h"
proof -
  have create: "collected h2 = collected h1" if "CreateVersions cfg garbage cfds h1 = Ok (s2, h2)"
    for cfds h1 s2 h2
    using that by (induction cfg garbage cfds h1 rule: CreateVersions.induct)
      (auto simp: obind_eq_Ok dest: collected_MaybeCreateVersion split: if_split_asm)
  have fold: "collected (fold InstallKept cfds h1) = collected h1" for cfds h1
    by (induction cfds arbitrary: h1) auto
  have base: "collected h2 = collected h1"
    if "BaseCheckIterationResult cfg garbage n s1 h1 = Ok (s2, h2)" for s1 h1 s2 h2
    using that by (auto simp: BaseCheckIterationResult_def obind_eq_Ok Let_def
        dest!: create split: if_split_asm)
  show ?thesis using assms fold base
    by (auto simp: CheckIterationResult_def obind_eq_Ok split: if_split_asm)
qed

lemma collected_ReplayManifest:
  assumes "ReplayManifest cfg garbage n us h = Ok (StatusOK, h')"
  shows "collected h' = fold collect (concat us) (collected h)"
proof -
  obtain s h1 s2 h2 where i: "Initialize cfg garbage h = Ok (s, h1)"
    and u: "(if s = StatusOK then ApplyUnits (edit_handler cfg garbage) us h1 else Ok (s, h1)) = Ok (s2, h2)"
    and c: "CheckIterationResult cfg garbage n s2 h2 = Ok (StatusOK, h')"
    using assms by (auto simp: ReplayManifest_def obind_eq_Ok)
  have "s2 = StatusOK" using CheckIterationResult_ok [OF c] .
  moreover have "collected h1 = collected h"
    using i by (auto simp: Initialize_def split: if_split_asm option.splits)
  ultimately show ?thesis
    using u collected_ApplyUnits collected_CheckIterationResult [OF c] by (auto split: if_split_asm)
qed

end
