(* ===== verification/Manifest_Spec.thy ===== *)
theory Manifest_Spec
  imports Manifest_Secrets
begin

text \<open>
  What a manifest means: the families, the files of each, and the logs, after a list of edits. The
  handler that recovers implements this specification, up to the versions that it builds at the end.
\<close>

section \<open>The specification\<close>

record family_spec =
  fs_id :: u32
  fs_name :: bytes
  fs_options :: cf_options
  fs_log_number :: u64
  fs_lsm :: lsm

text \<open>The counters are those that the edits have set; recovery needs them all.\<close>

record manifest_spec =
  ms_families :: "family_spec list"
  ms_wals :: wal_set
  ms_logged :: bool
  ms_next_file :: "u64 option"
  ms_last_sequence :: "u64 option"

definition spec_family :: "u32 \<Rightarrow> manifest_spec \<Rightarrow> family_spec option" where
  "spec_family n ms = find (\<lambda>f. fs_id f = n) (ms_families ms)"

definition options_for :: "handler_config \<Rightarrow> bytes \<Rightarrow> cf_options option" where
  "options_for cfg name =
     (if name = kPersistentStatsColumnFamilyName then Some (hf_persistent_stats cfg)
      else name_to_options cfg name)"

definition comparator_fits :: "VersionEdit \<Rightarrow> cf_options \<Rightarrow> bool" where
  "comparator_fits e options \<longleftrightarrow>
     (ve_has_comparator e \<longrightarrow> ve_comparator e = co_comparator_name options)"

text \<open>An edit of a family that is there; a log number only grows.\<close>

definition takes_log :: "VersionEdit \<Rightarrow> family_spec \<Rightarrow> bool" where
  "takes_log e f \<longleftrightarrow> ve_has_log_number e \<and> fs_log_number f \<le> ve_log_number e"

definition spec_change :: "VersionEdit \<Rightarrow> lsm \<Rightarrow> family_spec \<Rightarrow> family_spec" where
  "spec_change e p f = f\<lparr>fs_lsm := p,
     fs_log_number := (if takes_log e f then ve_log_number e else fs_log_number f)\<rparr>"

definition spec_add :: "handler_config \<Rightarrow> VersionEdit \<Rightarrow> manifest_spec \<Rightarrow> manifest_spec option" where
  "spec_add cfg e ms =
     (case (spec_family (ve_column_family e) ms, options_for cfg (ve_column_family_name e)) of
        (None, Some options) \<Rightarrow>
          if comparator_fits e options
          then Some (ms\<lparr>ms_families := ms_families ms @
            [\<lparr>fs_id = ve_column_family e, fs_name = ve_column_family_name e, fs_options = options,
              fs_log_number = ve_log_number e, fs_lsm = (Map.empty, {})\<rparr>],
            ms_logged := ms_logged ms \<or> ve_has_log_number e\<rparr>)
          else None
      | _ \<Rightarrow> None)"

definition spec_drop :: "VersionEdit \<Rightarrow> manifest_spec \<Rightarrow> manifest_spec option" where
  "spec_drop e ms =
     (if spec_family (ve_column_family e) ms = None then None
      else Some (ms\<lparr>ms_families := filter (\<lambda>f. fs_id f \<noteq> ve_column_family e) (ms_families ms)\<rparr>))"

definition spec_wals :: "status \<times> wal_set \<Rightarrow> VersionEdit \<Rightarrow> manifest_spec \<Rightarrow> manifest_spec option" where
  "spec_wals p e ms =
     (if fst p = StatusOK \<and> \<not> ve_has_comparator e \<and> \<not> ve_has_log_number e
      then Some (ms\<lparr>ms_wals := snd p\<rparr>) else None)"

definition spec_files :: "VersionEdit \<Rightarrow> manifest_spec \<Rightarrow> manifest_spec option" where
  "spec_files e ms =
     (case spec_family (ve_column_family e) ms of
        None \<Rightarrow> None
      | Some f \<Rightarrow>
          if levels_in_range (co_num_levels (fs_options f)) e \<and> comparator_fits e (fs_options f) then
            Option.bind (spec_edit e (fs_lsm f)) (\<lambda>p.
              Some (ms\<lparr>ms_families := map (\<lambda>g. if fs_id g = ve_column_family e
                then spec_change e p g else g) (ms_families ms),
                ms_logged := ms_logged ms \<or> takes_log e f\<rparr>))
          else None)"

definition spec_counters :: "VersionEdit \<Rightarrow> manifest_spec \<Rightarrow> manifest_spec" where
  "spec_counters e ms = ms
     \<lparr>ms_next_file := (if ve_has_next_file_number e then Some (ve_next_file_number e) else ms_next_file ms),
      ms_last_sequence := (if ve_has_last_sequence e then Some (ve_last_sequence e) else ms_last_sequence ms)\<rparr>"

definition spec_manifest_edit ::
    "handler_config \<Rightarrow> VersionEdit \<Rightarrow> manifest_spec \<Rightarrow> manifest_spec option" where
  "spec_manifest_edit cfg e ms = map_option (spec_counters e)
     (if ve_is_column_family_add e then spec_add cfg e ms
      else if ve_is_column_family_drop e then spec_drop e ms
      else if IsWalAddition e then spec_wals (AddWals (ve_wal_additions e) (ms_wals ms)) e ms
      else if IsWalDeletion e then spec_wals (DeleteWalsBefore (ve_wal_deletion e) (ms_wals ms)) e ms
      else spec_files e ms)"

fun spec_manifest ::
    "handler_config \<Rightarrow> VersionEdit list \<Rightarrow> manifest_spec \<Rightarrow> manifest_spec option" where
  "spec_manifest cfg [] ms = Some ms"
| "spec_manifest cfg (e # es) ms = Option.bind (spec_manifest_edit cfg e ms) (spec_manifest cfg es)"

text \<open>A manifest starts with the default family.\<close>

definition spec_start :: "handler_config \<Rightarrow> manifest_spec option" where
  "spec_start cfg =
     Option.bind (name_to_options cfg kDefaultColumnFamilyName) (\<lambda>options.
       Some \<lparr>ms_families = [\<lparr>fs_id = 0, fs_name = kDefaultColumnFamilyName, fs_options = options,
               fs_log_number = 0, fs_lsm = (Map.empty, {})\<rparr>],
             ms_wals = [], ms_logged = False, ms_next_file = None, ms_last_sequence = None\<rparr>)"

section \<open>The handler shows the specified state\<close>

lemma NewVersion_ok:
  "version_ok icmp (NewVersion opts)" "length (vs_files (NewVersion opts)) = co_num_levels opts"
  "version_files (NewVersion opts) = Map.empty" "vs_blob_files (NewVersion opts) = []"
  "CheckConsistency icmp k (NewVersion opts) = StatusOK"
  using CheckConsistency_new
  by (auto simp: NewVersion_def NewVersionStorageInfo_def version_ok_def locations_ok_def
      version_files_def [abs_def] omap_ok_def)

definition no_invalid :: "nat \<Rightarrow> VersionBuilder \<Rightarrow> bool" where
  "no_invalid levels b \<longleftrightarrow>
     num_levels b = levels \<and> vb_invalid_level_sizes b = [] \<and> \<not> vb_has_invalid_levels b"

lemma apply_all_keeps:
  assumes "apply_all f es b = Ok (StatusOK, b')" and "P b"
    and "\<And>e b b'. e \<in> set es \<Longrightarrow> P b \<Longrightarrow> f e b = Ok (StatusOK, b') \<Longrightarrow> P b'"
  shows "P b'"
  using assms
proof (induction es arbitrary: b)
  case (Cons e es)
  obtain b1 where "f e b = Ok (StatusOK, b1)" "apply_all f es b1 = Ok (StatusOK, b')"
    using Cons.prems(1) by (auto simp: sbind_def obind_eq_Ok split: if_split_asm)
  then show ?case using Cons.IH [of b1] Cons.prems(2,3) by (meson list.set_intros)
qed simp

lemma no_invalid_frame [simp]:
  "no_invalid k (update_delta n d b) = no_invalid k b"
  "no_invalid k (put_level l ls n x b) = no_invalid k b"
  by (simp_all add: no_invalid_def update_delta_def put_level_def)

lemma ApplyFile_no_invalid:
  "ApplyFileAddition (l, f) b = Ok (StatusOK, b') \<Longrightarrow> no_invalid k b \<Longrightarrow> l < int k \<Longrightarrow> no_invalid k b'"
  "ApplyFileDeletion (l, n) b = Ok (StatusOK, b') \<Longrightarrow> no_invalid k b \<Longrightarrow> l < int k \<Longrightarrow> no_invalid k b'"
proof -
  assume k: "no_invalid k b" and l: "l < int k"
  then have nl: "\<not> l \<ge> int (num_levels b)" by (simp add: no_invalid_def)
  show "no_invalid k b'" if "ApplyFileAddition (l, f) b = Ok (StatusOK, b')"
    using that k nl unfolding ApplyFileAddition_def Let_def by (auto simp: obind_eq_Ok split: if_split_asm)
  show "no_invalid k b'" if "ApplyFileDeletion (l, n) b = Ok (StatusOK, b')"
    using that k nl unfolding ApplyFileDeletion_def Let_def by (auto simp: obind_eq_Ok split: if_split_asm)
qed

lemma ApplyBlob_no_invalid:
  "ApplyBlobFileAddition a b = Ok (StatusOK, b') \<Longrightarrow> no_invalid k b \<Longrightarrow> no_invalid k b'"
  "ApplyBlobFileGarbage g b = Ok (StatusOK, b') \<Longrightarrow> no_invalid k b \<Longrightarrow> no_invalid k b'"
  by (auto simp: ApplyBlobFileAddition_def ApplyBlobFileGarbage_def Let_def split: if_split_asm)

lemma BuilderApply_no_invalid:
  assumes "BuilderApply icmp e b = Ok (StatusOK, b')" and "no_invalid k b" and "levels_in_range k e"
  shows "no_invalid k b'"
proof -
  obtain b1 b2 b3 where steps: "apply_all ApplyBlobFileAddition (ve_blob_file_additions e) b = Ok (StatusOK, b1)"
    "apply_all ApplyBlobFileGarbage (ve_blob_file_garbages e) b1 = Ok (StatusOK, b2)"
    "apply_all ApplyFileDeletion (ve_deleted_files e) b2 = Ok (StatusOK, b3)"
    "apply_all ApplyFileAddition (ve_new_files e) b3 = Ok (StatusOK, b')"
    using assms(1) unfolding BuilderApply_def by (auto simp: sbind_def obind_eq_Ok split: if_split_asm)
  have "no_invalid k b1" using apply_all_keeps [OF steps(1), of "no_invalid k"] assms(2) ApplyBlob_no_invalid(1) by blast
  then have "no_invalid k b2" using apply_all_keeps [OF steps(2), of "no_invalid k"] ApplyBlob_no_invalid(2) by blast
  then have "no_invalid k b3"
    using apply_all_keeps [OF steps(3), of "no_invalid k"] ApplyFile_no_invalid(2) assms(3)
    unfolding levels_in_range_def by fastforce
  then show ?thesis
    using apply_all_keeps [OF steps(4), of "no_invalid k"] ApplyFile_no_invalid(1) assms(3)
    unfolding levels_in_range_def by fastforce
qed


definition shown :: "family_spec \<Rightarrow> ColumnFamilyData" where
  "shown f = \<lparr>cfd_id = fs_id f, cfd_name = fs_name f, cfd_options = fs_options f,
     cfd_log_number = fs_log_number f, cfd_current = NewVersion (fs_options f), cfd_dropped = False\<rparr>"

definition builder_shows :: "family_spec \<Rightarrow> VersionBuilder \<Rightarrow> bool" where
  "builder_shows f b \<longleftrightarrow>
     builder_ok b \<and> vb_base b = NewVersion (fs_options f) \<and>
     no_invalid (co_num_levels (fs_options f)) b \<and> builder_lsm b = fs_lsm f"

definition counters_shown :: "manifest_spec \<Rightarrow> VersionEdit \<Rightarrow> bool" where
  "counters_shown ms p \<longleftrightarrow>
     (ms_logged ms \<longrightarrow> ve_has_log_number p) \<and>
     (\<forall>n. ms_next_file ms = Some n \<longrightarrow> ve_has_next_file_number p \<and> ve_next_file_number p = n) \<and>
     (\<forall>n. ms_last_sequence ms = Some n \<longrightarrow> ve_has_last_sequence p \<and> ve_last_sequence p = n)"

definition depicts :: "manifest_spec \<Rightarrow> handler \<Rightarrow> bool" where
  "depicts ms h \<longleftrightarrow>
     vset_families (h_vset h) = map shown (ms_families ms) \<and> vset_wals (h_vset h) = ms_wals ms \<and>
     distinct (map fs_id (ms_families ms)) \<and> h_not_found h = [] \<and>
     (\<forall>f \<in> set (ms_families ms). \<exists>b. map_of (h_builders h) (fs_id f) = Some b \<and> builder_shows f b) \<and>
     fst ` set (h_builders h) = fs_id ` set (ms_families ms) \<and>
     counters_shown ms (h_params h)"

lemma shown_fields [simp]:
  "cfd_id (shown f) = fs_id f" "cfd_name (shown f) = fs_name f" "cfd_options (shown f) = fs_options f"
  "cfd_log_number (shown f) = fs_log_number f" "\<not> cfd_dropped (shown f)"
  "cfd_current (shown f) = NewVersion (fs_options f)"
  by (simp_all add: shown_def)

lemma find_map_shown:
  "find (\<lambda>c. cfd_id c = n \<and> \<not> cfd_dropped c) (map shown fs) = map_option shown (find (\<lambda>f. fs_id f = n) fs)"
  by (induction fs) auto

lemma depictsD:
  assumes "depicts ms h"
  shows "vset_families (h_vset h) = map shown (ms_families ms)" and "vset_wals (h_vset h) = ms_wals ms"
    and "distinct (map fs_id (ms_families ms))" and "h_not_found h = []"
    and "f \<in> set (ms_families ms) \<Longrightarrow> \<exists>b. map_of (h_builders h) (fs_id f) = Some b \<and> builder_shows f b"
    and "fst ` set (h_builders h) = fs_id ` set (ms_families ms)" and "counters_shown ms (h_params h)"
  using assms unfolding depicts_def by blast+

lemma depicts_family:
  "depicts ms h \<Longrightarrow> GetColumnFamily n (h_vset h) = map_option shown (spec_family n ms)"
  unfolding GetColumnFamily_def spec_family_def depictsD(1) find_map_shown ..

lemma spec_family_Some:
  "spec_family n ms = Some f \<Longrightarrow> f \<in> set (ms_families ms) \<and> fs_id f = n"
  unfolding spec_family_def by (auto simp: find_Some_iff)

lemma spec_family_None:
  "spec_family n ms = None \<longleftrightarrow> n \<notin> fs_id ` set (ms_families ms)"
  unfolding spec_family_def by (auto simp: find_None_iff)

lemma depicts_builder:
  assumes "depicts ms h"
  shows "map_of (h_builders h) n = None \<longleftrightarrow> spec_family n ms = None"
  using depictsD(6) [OF assms] by (simp add: spec_family_None map_of_eq_None_iff)

lemma TakeSecrets_frame [simp]:
  "h_builders (TakeSecrets e h) = h_builders h" "h_not_found (TakeSecrets e h) = h_not_found h"
  "h_params (TakeSecrets e h) = h_params h"
  "vset_families (h_vset (TakeSecrets e h)) = vset_families (h_vset h)"
  "vset_wals (h_vset (TakeSecrets e h)) = vset_wals (h_vset h)"
  by (simp_all add: TakeSecrets_def AddReadSecret_def Let_def split: option.splits)

lemma depicts_TakeSecrets [simp]: "depicts ms (TakeSecrets e h) = depicts ms h"
  unfolding depicts_def by simp

lemma take_counters_shown:
  "counters_shown ms p \<Longrightarrow> counters_shown (spec_counters e ms) (take_counters e p)"
  by (auto simp: counters_shown_def spec_counters_def take_counters_def Let_def SetPrevLogNumber_def
      SetNextFile_def SetMaxColumnFamily_def SetLastSequence_def)


text \<open>The end of an edit: the log number of the family, and the counters.\<close>

definition spec_log :: "u32 \<Rightarrow> VersionEdit \<Rightarrow> family_spec \<Rightarrow> manifest_spec \<Rightarrow> manifest_spec" where
  "spec_log n e f ms = ms
     \<lparr>ms_families := map (\<lambda>g. if fs_id g = n then spec_change e (fs_lsm g) g else g) (ms_families ms),
      ms_logged := ms_logged ms \<or> takes_log e f\<rparr>"

lemma map_fs_id: "(\<And>g. fs_id (F g) = fs_id g) \<Longrightarrow> map (fs_id \<circ> F) gs = map fs_id gs"
  by simp

lemma spec_change_fields [simp]:
  "fs_id (spec_change e p g) = fs_id g" "fs_name (spec_change e p g) = fs_name g"
  "fs_options (spec_change e p g) = fs_options g" "fs_lsm (spec_change e p g) = p"
  by (simp_all add: spec_change_def)

lemma builder_shows_change [simp]: "builder_shows (spec_change e (fs_lsm g) g) b = builder_shows g b"
  by (simp add: builder_shows_def)

lemma counters_shown_log:
  "counters_shown ms p \<Longrightarrow> (l \<Longrightarrow> ve_has_log_number q) \<Longrightarrow>
   (ve_has_log_number p \<Longrightarrow> ve_has_log_number q) \<Longrightarrow>
   ve_has_next_file_number q = ve_has_next_file_number p \<Longrightarrow> ve_next_file_number q = ve_next_file_number p \<Longrightarrow>
   ve_has_last_sequence q = ve_has_last_sequence p \<Longrightarrow> ve_last_sequence q = ve_last_sequence p \<Longrightarrow>
   counters_shown (ms\<lparr>ms_families := fs, ms_logged := ms_logged ms \<or> l\<rparr>) q"
  by (auto simp: counters_shown_def)

lemma ExtractInfo_none:
  assumes "depicts ms h"
  shows "\<exists>h'. ExtractInfoFromVersionEdit None e h = Ok (StatusOK, h') \<and> depicts (spec_counters e ms) h'"
proof -
  have "counters_shown ms (SetDBId d (h_params h))" for d
    using depictsD(7) [OF assms] by (simp add: counters_shown_def SetDBId_def)
  then show ?thesis using assms take_counters_shown
    by (auto simp: ExtractInfoFromVersionEdit_def Let_def depicts_def)
       (auto simp: spec_counters_def)
qed

lemma ExtractInfo_some:
  assumes "depicts ms h" and "spec_family n ms = Some f" and "comparator_fits e (fs_options f)"
  shows "\<exists>h'. ExtractInfoFromVersionEdit (Some n) e h = Ok (StatusOK, h') \<and>
    depicts (spec_counters e (spec_log n e f ms)) h'"
proof -
  define h1 where "h1 = (if ve_has_db_id e
    then h\<lparr>h_vset := (h_vset h)\<lparr>vset_db_id := ve_db_id e\<rparr>, h_params := SetDBId (ve_db_id e) (h_params h)\<rparr>
    else h)"
  define h2 where "h2 = (if takes_log e f
    then h1\<lparr>h_vset := CfdSetLogNumber n (ve_log_number e) (h_vset h1),
            h_params := SetLogNumber (ve_log_number e) (h_params h1)\<rparr> else h1)"
  have h1: "depicts ms h1"
    using assms(1) by (auto simp: h1_def depicts_def counters_shown_def SetDBId_def)
  note fam = spec_family_Some [OF assms(2)] and d = depictsD [OF h1]
  have same: "f = g" if "g \<in> set (ms_families ms)" "fs_id g = n" for g
    using that d(3) fam by (auto simp: distinct_map dest: inj_onD)
  have fams: "vset_families (h_vset h2) = map shown (ms_families (spec_log n e f ms))"
  proof (cases "takes_log e f")
    case True
    have "(if fs_id g = n then (shown g)\<lparr>cfd_log_number := ve_log_number e\<rparr> else shown g) =
        shown (if fs_id g = n then spec_change e (fs_lsm g) g else g)" if "g \<in> set (ms_families ms)" for g
      using same [OF that] True by (auto simp: shown_def spec_change_def)
    then show ?thesis using True d(1)
      by (simp add: h2_def spec_log_def CfdSetLogNumber_def upd_family_def comp_def)
  next
    case False
    have "spec_change e (fs_lsm g) g = g" if "g \<in> set (ms_families ms)" "fs_id g = n" for g
      using same [OF that] False by (simp add: spec_change_def)
    then have "map shown (ms_families ms) =
        map (\<lambda>g. shown (if fs_id g = n then spec_change e (fs_lsm g) g else g)) (ms_families ms)"
      by simp
    then show ?thesis using False d(1) by (simp add: h2_def spec_log_def comp_def)
  qed
  have ids: "map fs_id (ms_families (spec_log n e f ms)) = map fs_id (ms_families ms)"
    unfolding spec_log_def by (simp add: comp_def if_distrib cong: if_cong)
  have frame: "vset_wals (h_vset h2) = ms_wals ms" "h_not_found h2 = []" "h_builders h2 = h_builders h1"
    using d(2,4) by (simp_all add: h2_def CfdSetLogNumber_def upd_family_def)
  have "counters_shown (spec_log n e f ms) (h_params h2)"
    unfolding spec_log_def using d(7)
    by (rule counters_shown_log) (auto simp: h2_def SetLogNumber_def)
  then have "depicts (spec_log n e f ms) h2"
    unfolding depicts_def fams ids ids [THEN arg_cong, of set, unfolded set_map] frame
    using d(3,5,6) by (auto simp: spec_log_def)
  moreover have "ExtractInfoFromVersionEdit (Some n) e h =
      Ok (StatusOK, h2\<lparr>h_params := take_counters e (h_params h2)\<rparr>)"
  proof -
    have "GetColumnFamily n (h_vset h1) = Some (shown f)" using depicts_family [OF h1] assms(2) by simp
    then show ?thesis
      unfolding ExtractInfoFromVersionEdit_def Let_def h1_def [symmetric]
      using assms(3) by (auto simp: h2_def takes_log_def comparator_fits_def not_less)
  qed
  moreover have "depicts (spec_counters e ms') (h2\<lparr>h_params := take_counters e (h_params h2)\<rparr>)"
    if "depicts ms' h2" for ms'
    using that take_counters_shown by (auto simp: depicts_def) (auto simp: spec_counters_def)
  ultimately show ?thesis by blast
qed


section \<open>Every edit keeps it shown\<close>

definition recovering :: "handler_config \<Rightarrow> bool" where
  "recovering cfg \<longleftrightarrow> \<not> hf_point_in_time cfg \<and> \<not> hf_track_missing_files cfg"

definition shown_cfd :: "u32 option \<Rightarrow> manifest_spec \<Rightarrow> bool" where
  "shown_cfd cfd ms \<longleftrightarrow> (\<forall>n. cfd = Some n \<longrightarrow> spec_family n ms \<noteq> None)"

lemma spec_counters_family [simp]:
  "spec_family n (spec_counters e ms) = spec_family n ms"
  "ms_families (spec_counters e ms) = ms_families ms" "ms_wals (spec_counters e ms) = ms_wals ms"
  by (simp_all add: spec_counters_def spec_family_def)

lemma depicts_add:
  assumes "depicts ms h" and "spec_family n ms = None" and "\<not> hf_track_missing_files cfg"
    and "ve_column_family e = n"
  shows "depicts (ms\<lparr>ms_families := ms_families ms @
      [\<lparr>fs_id = n, fs_name = ve_column_family_name e, fs_options = options,
        fs_log_number = ve_log_number e, fs_lsm = (Map.empty, {})\<rparr>]\<rparr>) (CreateCfAndInit cfg options e h)"
proof -
  note d = depictsD [OF assms(1)]
  let ?f = "\<lparr>fs_id = n, fs_name = ve_column_family_name e, fs_options = options,
      fs_log_number = ve_log_number e, fs_lsm = (Map.empty, {})\<rparr>"
  let ?h = "CreateCfAndInit cfg options e h"
  have new: "n \<notin> fs_id ` set (ms_families ms)" using assms(2) spec_family_None by simp
  have b: "map_of (h_builders h) n = None" using depicts_builder [OF assms(1)] assms(2) by simp
  have h: "vset_families (h_vset ?h) = map shown (ms_families ms) @ [shown ?f]"
    "vset_wals (h_vset ?h) = ms_wals ms" "h_not_found ?h = []" "h_params ?h = h_params h"
    "h_builders ?h = (n, NewVersionBuilder (NewVersion options)) # h_builders h"
    using d(1,2,4) b assms(3,4)
    by (simp_all add: CreateCfAndInit_def Let_def CreateColumnFamily_def UpdateMaxColumnFamily_def shown_def)
  have "builder_shows ?f (NewVersionBuilder (NewVersion options))"
    using NewVersionBuilder_ok [OF NewVersion_ok(1) [of _ options]]
    by (simp add: builder_shows_def NewVersion_ok no_invalid_def) (simp add: NewVersionBuilder_def NewVersion_ok)
  moreover have "counters_shown (ms\<lparr>ms_families := fs\<rparr>) p = counters_shown ms p" for fs p
    by (simp add: counters_shown_def)
  ultimately show ?thesis
    using d(3,5,6,7) new unfolding depicts_def h by auto
qed

lemma depicts_drop:
  assumes "depicts ms h" and "spec_family n ms \<noteq> None" and "recovering cfg" and "ve_column_family e = n"
  shows "\<exists>h'. DestroyCfAndCleanup cfg e h = Ok h' \<and>
    depicts (ms\<lparr>ms_families := filter (\<lambda>f. fs_id f \<noteq> n) (ms_families ms)\<rparr>) h'"
proof -
  note d = depictsD [OF assms(1)]
  let ?ms = "ms\<lparr>ms_families := filter (\<lambda>f. fs_id f \<noteq> n) (ms_families ms)\<rparr>"
  obtain f where f: "spec_family n ms = Some f" using assms(2) by auto
  obtain b where b: "map_of (h_builders h) n = Some b"
    using depicts_builder [OF assms(1), of n] assms(2) by fastforce
  let ?h = "h\<lparr>h_builders := AList.delete n (h_builders h), h_vset := RemoveColumnFamily n (h_vset h)\<rparr>"
  have "DestroyCfAndCleanup cfg e h = Ok ?h"
    using assms(3,4) b f depicts_family [OF assms(1), of n]
    by (simp add: DestroyCfAndCleanup_def recovering_def Let_def)
  moreover have "depicts ?ms ?h"
  proof -
    have "vset_families (h_vset ?h) = map shown (ms_families ?ms)"
      using d(1) by (simp add: RemoveColumnFamily_def filter_map comp_def)
    moreover have "fst ` set (AList.delete n (h_builders h)) = fs_id ` set (ms_families ?ms)"
    proof -
      have "fst ` set (AList.delete n (h_builders h)) = fst ` set (h_builders h) - {n}"
        using arg_cong [OF AList.delete_keys [of n "h_builders h"], of set] by simp
      then show ?thesis unfolding d(6) by auto
    qed
    moreover have "counters_shown ?ms (h_params h)" using d(7) by (simp add: counters_shown_def)
    ultimately show ?thesis
      using d(2,3,4,5) by (auto simp: depicts_def RemoveColumnFamily_def AList.delete_conv' distinct_map_filter)
  qed
  ultimately show ?thesis by blast
qed

lemma depicts_wals: "depicts ms h \<Longrightarrow> depicts (ms\<lparr>ms_wals := w\<rparr>) (snd (set_wals (s, w) h))"
  unfolding set_wals_def depicts_def counters_shown_def by simp

lemma depicts_files:
  assumes "depicts ms h" and "spec_family n ms = Some f" and "spec_edit e (fs_lsm f) = Some p"
    and "levels_in_range (co_num_levels (fs_options f)) e" and "ve_column_family e = n" and "recovering cfg"
  shows "\<exists>h'. OnNonCfOperation cfg e h = Ok (StatusOK, Some n, h') \<and>
    depicts (ms\<lparr>ms_families := map (\<lambda>g. if fs_id g = n then g\<lparr>fs_lsm := p\<rparr> else g) (ms_families ms)\<rparr>) h'"
proof -
  note d = depictsD [OF assms(1)] and fam = spec_family_Some [OF assms(2)]
  let ?ms = "ms\<lparr>ms_families := map (\<lambda>g. if fs_id g = n then g\<lparr>fs_lsm := p\<rparr> else g) (ms_families ms)\<rparr>"
  have same: "g = f" if "g \<in> set (ms_families ms)" "fs_id g = n" for g
    using that d(3) fam by (auto simp: distinct_map dest: inj_onD)
  obtain b where b: "map_of (h_builders h) n = Some b" "builder_shows f b" using d(5) fam by blast
  let ?icmp = "cfd_icmp (shown f)" and ?base = "NewVersion (fs_options f)"
  have "refines ?base (BuilderApply ?icmp e) (spec_edit e)"
    using assms(4) by (intro BuilderApply_refines) (simp_all add: NewVersion_ok)
  then obtain b' where b': "BuilderApply ?icmp e b = Ok (StatusOK, b')" "builder_ok b'" "vb_base b' = ?base"
    "builder_lsm b' = p"
    using b(2) assms(3) unfolding builder_shows_def by (metis refinesD)
  have shows': "builder_shows (f\<lparr>fs_lsm := p\<rparr>) b'"
    using b' BuilderApply_no_invalid [OF b'(1) _ assms(4)] b(2) by (simp add: builder_shows_def)
  let ?h = "h\<lparr>h_builders := AList.update n b' (h_builders h)\<rparr>"
  have fams: "map shown (ms_families ?ms) = map shown (ms_families ms)"
    by (simp add: shown_def)
  have ids: "map fs_id (ms_families ?ms) = map fs_id (ms_families ms)" by simp
  have "\<exists>b. map_of (h_builders ?h) (fs_id g) = Some b \<and> builder_shows g b" if "g \<in> set (ms_families ?ms)" for g
  proof (cases "fs_id g = n")
    case True
    then have "g = f\<lparr>fs_lsm := p\<rparr>" using that same by (auto split: if_split_asm)
    then show ?thesis using True shows' by (simp add: AList.update_conv')
  next
    case False
    then have "g \<in> set (ms_families ms)" using that by (auto split: if_split_asm)
    then show ?thesis using False d(5) by (simp add: AList.update_conv')
  qed
  moreover have "fst ` set (h_builders ?h) = fs_id ` set (ms_families ms)"
  proof -
    have "n \<in> fst ` set (h_builders h)" using d(6) fam by auto
    then show ?thesis using d(6) by (simp add: AList.dom_update insert_absorb)
  qed
  moreover have "counters_shown ?ms (h_params h)" using d(7) by (simp add: counters_shown_def)
  ultimately have "depicts ?ms ?h"
    unfolding depicts_def fams ids ids [THEN arg_cong, of set, unfolded set_map] using d(1-4) by simp
  moreover have "OnNonCfOperation cfg e h = Ok (StatusOK, Some n, ?h)"
    using assms(2,5,6) b'(1) b(1) d(4) depicts_family [OF assms(1), of n]
    by (simp add: OnNonCfOperation_def CheckColumnFamilyId_def Let_def MaybeCreateVersion_def
        BaseMaybeCreateVersion_def recovering_def)
  ultimately show ?thesis by blast
qed


lemma find_map_same: "(\<And>x. P (F x) = P x) \<Longrightarrow> find P (map F xs) = map_option F (find P xs)"
  by (induction xs) auto

lemma ApplyVersionEdit_depicts:
  assumes "recovering cfg" and "depicts ms h" and "spec_manifest_edit cfg e ms = Some ms'"
    and "shown_cfd cfd ms"
  shows "\<exists>cfd' h'. ApplyVersionEdit cfg e cfd h = Ok (StatusOK, cfd', h') \<and> depicts ms' h' \<and>
    shown_cfd cfd' ms'"
proof -
  let ?n = "ve_column_family e"
  define h0 where "h0 = TakeSecrets e h"
  have h0: "depicts ms h0" using assms(2) by (simp add: h0_def)
  have finish: "\<exists>h'. obind (ExtractInfoFromVersionEdit (Some n) e h1) (\<lambda>(s, h). Ok (s, Some n, h)) =
      Ok (StatusOK, Some n, h') \<and> depicts (spec_counters e (spec_log n e f ms1)) h'"
    if "depicts ms1 h1" "spec_family n ms1 = Some f" "comparator_fits e (fs_options f)" for n ms1 h1 f
    using ExtractInfo_some [OF that] by auto
  let ?step = "if ve_is_column_family_add e then Ok (OnColumnFamilyAdd cfg e h0)
    else if ve_is_column_family_drop e then OnColumnFamilyDrop cfg e h0
    else if IsWalAddition e then (case OnWalAddition e h0 of (s, h) \<Rightarrow> Ok (s, cfd, h))
    else if IsWalDeletion e then (case OnWalDeletion e h0 of (s, h) \<Rightarrow> Ok (s, cfd, h))
    else OnNonCfOperation cfg e h0"
  have whole: ?thesis
    if "?step = Ok (StatusOK, c, h1)" and "shown_cfd c ms'"
      and "\<exists>h'. obind (ExtractInfoFromVersionEdit c e h1) (\<lambda>(s, h). Ok (s, c, h)) = Ok (StatusOK, c, h') \<and>
        depicts ms' h'" for c h1
    using that unfolding ApplyVersionEdit_def Let_def h0_def [symmetric] by auto
  consider (add) "ve_is_column_family_add e" | (drop) "\<not> ve_is_column_family_add e" "ve_is_column_family_drop e"
    | (wal) "\<not> ve_is_column_family_add e" "\<not> ve_is_column_family_drop e" "IsWalAddition e \<or> IsWalDeletion e"
    | (files) "\<not> ve_is_column_family_add e" "\<not> ve_is_column_family_drop e" "\<not> IsWalAddition e" "\<not> IsWalDeletion e"
    by blast
  then show ?thesis
  proof cases
    case add
    let ?new = "\<lambda>options. \<lparr>fs_id = ?n, fs_name = ve_column_family_name e, fs_options = options,
      fs_log_number = ve_log_number e, fs_lsm = (Map.empty, {})\<rparr>"
    obtain options where o: "spec_family ?n ms = None" "options_for cfg (ve_column_family_name e) = Some options"
      "comparator_fits e options"
      "ms' = spec_counters e (ms\<lparr>ms_families := ms_families ms @ [?new options],
        ms_logged := ms_logged ms \<or> ve_has_log_number e\<rparr>)"
      using assms(3) add by (auto simp: spec_manifest_edit_def spec_add_def split: option.splits if_split_asm)
    let ?ms = "ms\<lparr>ms_families := ms_families ms @ [?new options]\<rparr>"
    have d: "depicts ?ms (CreateCfAndInit cfg options e h0)"
      using depicts_add [OF h0 o(1)] assms(1) by (simp add: recovering_def)
    have on: "OnColumnFamilyAdd cfg e h0 = (StatusOK, Some ?n, CreateCfAndInit cfg options e h0)"
      using depicts_builder [OF h0, of ?n] depictsD(4) [OF h0] o(1,2)
      by (auto simp: OnColumnFamilyAdd_def CheckColumnFamilyId_def options_for_def split: if_split_asm)
    have f: "spec_family ?n ?ms = Some (?new options)"
      using o(1) by (simp add: spec_family_def find_append)
    have "spec_log ?n e (?new options) ?ms = ms\<lparr>ms_families := ms_families ms @ [?new options],
        ms_logged := ms_logged ms \<or> ve_has_log_number e\<rparr>"
    proof -
      have "map (\<lambda>g. if fs_id g = ?n then spec_change e (fs_lsm g) g else g) (ms_families ms) = ms_families ms"
        using o(1) unfolding spec_family_None by (intro map_idI) (metis imageI)
      then show ?thesis by (auto simp: spec_log_def takes_log_def spec_change_def)
    qed
    moreover have "shown_cfd (Some ?n) ms'" using f o(4) by (simp add: shown_cfd_def spec_family_def)
    ultimately show ?thesis using finish [OF d f] o(3,4) on add by (intro whole) simp_all
  next
    case drop
    then have s: "spec_family ?n ms \<noteq> None"
      "ms' = spec_counters e (ms\<lparr>ms_families := filter (\<lambda>f. fs_id f \<noteq> ?n) (ms_families ms)\<rparr>)"
      using assms(3) by (auto simp: spec_manifest_edit_def spec_drop_def split: if_split_asm)
    obtain h1 where h1: "DestroyCfAndCleanup cfg e h0 = Ok h1"
      "depicts (ms\<lparr>ms_families := filter (\<lambda>f. fs_id f \<noteq> ?n) (ms_families ms)\<rparr>) h1"
      using depicts_drop [OF h0 s(1) assms(1) refl] by blast
    have "map_of (h_builders h0) ?n \<noteq> None" using depicts_builder [OF h0, of ?n] s(1) by simp
    then have "OnColumnFamilyDrop cfg e h0 = Ok (StatusOK, None, h1)"
      using h1(1) by (simp add: OnColumnFamilyDrop_def CheckColumnFamilyId_def)
    then show ?thesis
      using drop s(2) ExtractInfo_none [OF h1(2), of e] by (intro whole) (auto simp: shown_cfd_def)
  next
    case wal
    define q where "q = (if IsWalAddition e then AddWals (ve_wal_additions e) (ms_wals ms)
      else DeleteWalsBefore (ve_wal_deletion e) (ms_wals ms))"
    have q: "fst q = StatusOK" "\<not> ve_has_comparator e" "\<not> ve_has_log_number e"
      "ms' = spec_counters e (ms\<lparr>ms_wals := snd q\<rparr>)"
      using assms(3) wal by (auto simp: q_def spec_manifest_edit_def spec_wals_def split: if_split_asm)
    let ?ms = "ms\<lparr>ms_wals := snd q\<rparr>" and ?h = "snd (set_wals q h0)"
    have d: "depicts ?ms ?h" using depicts_wals [OF h0, of "snd q"] q(1) by (cases q) simp
    have on: "(if IsWalAddition e then OnWalAddition e h0 else OnWalDeletion e h0) = (StatusOK, ?h)"
      using depictsD(2) [OF h0] q(1)
      by (simp add: q_def OnWalAddition_def OnWalDeletion_def set_wals_def split: if_split_asm)
    have "\<exists>h'. obind (ExtractInfoFromVersionEdit cfd e ?h) (\<lambda>(s, h). Ok (s, cfd, h)) =
        Ok (StatusOK, cfd, h') \<and> depicts ms' h'"
    proof (cases cfd)
      case None
      then show ?thesis using ExtractInfo_none [OF d, of e] q(4) by auto
    next
      case (Some n)
      then obtain f where f: "spec_family n ms = Some f" using assms(4) by (auto simp: shown_cfd_def)
      then have "spec_family n ?ms = Some f" by (simp add: spec_family_def)
      moreover have "spec_log n e f ?ms = ?ms"
        using q(3) by (simp add: spec_log_def takes_log_def spec_change_def cong: if_cong)
      ultimately show ?thesis using finish [OF d, of n f] q(2,4) Some by (auto simp: comparator_fits_def)
    qed
    moreover have "shown_cfd cfd ms'" using assms(4) q(4) by (auto simp: shown_cfd_def spec_family_def)
    ultimately show ?thesis using wal on by (intro whole) (auto split: if_split_asm)
  next
    case files
    obtain f p where f: "spec_family ?n ms = Some f" "levels_in_range (co_num_levels (fs_options f)) e"
      "comparator_fits e (fs_options f)" "spec_edit e (fs_lsm f) = Some p"
      "ms' = spec_counters e (ms\<lparr>ms_families := map (\<lambda>g. if fs_id g = ?n then spec_change e p g else g)
         (ms_families ms), ms_logged := ms_logged ms \<or> takes_log e f\<rparr>)"
      using assms(3) files
      by (auto simp: spec_manifest_edit_def spec_files_def bind_eq_Some_conv split: option.splits if_split_asm)
    let ?ms = "ms\<lparr>ms_families := map (\<lambda>g. if fs_id g = ?n then g\<lparr>fs_lsm := p\<rparr> else g) (ms_families ms)\<rparr>"
    obtain h1 where h1: "OnNonCfOperation cfg e h0 = Ok (StatusOK, Some ?n, h1)" "depicts ?ms h1"
      using depicts_files [OF h0 f(1,4,2) refl assms(1)] by blast
    have f1: "spec_family ?n ?ms = Some (f\<lparr>fs_lsm := p\<rparr>)"
      using f(1) spec_family_Some [OF f(1)] by (simp add: spec_family_def find_map_same)
    have "spec_log ?n e (f\<lparr>fs_lsm := p\<rparr>) ?ms =
        ms\<lparr>ms_families := map (\<lambda>g. if fs_id g = ?n then spec_change e p g else g) (ms_families ms),
           ms_logged := ms_logged ms \<or> takes_log e f\<rparr>"
      by (auto simp: spec_log_def spec_change_def takes_log_def)
    moreover have "shown_cfd (Some ?n) ms'"
      using f(1,5) by (simp add: shown_cfd_def spec_family_def find_map_same)
    ultimately show ?thesis using finish [OF h1(2) f1] f(3,5) h1(1) files by (intro whole) simp_all
  qed
qed


lemma ApplyGroup_depicts:
  assumes "recovering cfg" and "depicts ms h" and "spec_manifest cfg es ms = Some ms'" and "shown_cfd cfd ms"
  shows "\<exists>h'. ApplyGroup (edit_handler cfg garbage) es cfd h = Ok (StatusOK, h') \<and> depicts ms' h'"
  using assms(2-4)
proof (induction es arbitrary: ms h cfd)
  case (Cons e es)
  obtain ms1 where ms1: "spec_manifest_edit cfg e ms = Some ms1" "spec_manifest cfg es ms1 = Some ms'"
    using Cons.prems(2) by (auto simp: bind_eq_Some_conv)
  obtain cfd1 h1 where "ApplyVersionEdit cfg e cfd h = Ok (StatusOK, cfd1, h1)" "depicts ms1 h1" "shown_cfd cfd1 ms1"
    using ApplyVersionEdit_depicts [OF assms(1) Cons.prems(1) ms1(1) Cons.prems(3)] by blast
  then show ?case using Cons.IH [OF _ ms1(2)] by (simp add: edit_handler_def)
qed simp

lemma spec_manifest_append:
  "spec_manifest cfg (es @ es') ms = Option.bind (spec_manifest cfg es ms) (spec_manifest cfg es')"
  by (induction es arbitrary: ms) (simp_all split: bind_split)

lemma ApplyUnits_depicts:
  assumes "recovering cfg" and "depicts ms h" and "spec_manifest cfg (concat us) ms = Some ms'"
  shows "\<exists>h'. ApplyUnits (edit_handler cfg garbage) us h = Ok (StatusOK, h') \<and> depicts ms' h'"
  using assms(2,3)
proof (induction us arbitrary: ms h)
  case (Cons u us)
  obtain ms1 where ms1: "spec_manifest cfg u ms = Some ms1" "spec_manifest cfg (concat us) ms1 = Some ms'"
    using Cons.prems(2) by (auto simp: spec_manifest_append bind_eq_Some_conv)
  obtain h1 where "ApplyGroup (edit_handler cfg garbage) u None h = Ok (StatusOK, h1)" "depicts ms1 h1"
    using ApplyGroup_depicts [OF assms(1) Cons.prems(1) ms1(1), of None] by (auto simp: shown_cfd_def)
  then show ?case using Cons.IH [OF _ ms1(2)] by simp
qed simp

section \<open>The recovered families\<close>

text \<open>A version that has the specified files, and when it is sure to pass the consistency check.\<close>

definition saved_family :: "family_spec \<Rightarrow> VersionStorageInfo \<Rightarrow> bool" where
  "saved_family f v \<longleftrightarrow>
     version_ok (InternalCompare (co_compare (fs_options f))) v \<and>
     length (vs_files v) = co_num_levels (fs_options f) \<and>
     vs_force_consistency_checks v = co_force_consistency_checks (fs_options f) \<and>
     version_files v = fst (fs_lsm f) \<and> fst ` set (vs_blob_files v) \<subseteq> snd (fs_lsm f)"

definition consistent_family :: "family_spec \<Rightarrow> bool" where
  "consistent_family f \<longleftrightarrow>
     comparator (InternalCompare (co_compare (fs_options f))) \<and>
     (\<forall>v. saved_family f v \<longrightarrow>
        CheckConsistency (InternalCompare (co_compare (fs_options f))) (co_num_levels (fs_options f)) v = StatusOK)"

definition recovered_family :: "family_spec \<Rightarrow> ColumnFamilyData \<Rightarrow> bool" where
  "recovered_family f c \<longleftrightarrow>
     c = (shown f)\<lparr>cfd_current := cfd_current c\<rparr> \<and> saved_family f (cfd_current c)"

lemma recovered_familyD:
  "recovered_family f c \<Longrightarrow> cfd_id c = fs_id f \<and> \<not> cfd_dropped c"
  unfolding recovered_family_def shown_def by (metis ColumnFamilyData.select_convs(1,6) ColumnFamilyData.update_convs(5))

lemma builder_saves:
  assumes "builder_shows f b" and "consistent_family f"
  shows "\<exists>v. SaveTo (InternalCompare (co_compare (fs_options f))) b (NewVersion (fs_options f)) =
    Ok (StatusOK, v) \<and> saved_family f v"
proof -
  let ?icmp = "InternalCompare (co_compare (fs_options f))"
  have b: "builder_ok b" "vb_base b = NewVersion (fs_options f)"
    "num_levels b = co_num_levels (fs_options f)" "builder_lsm b = fs_lsm f"
    using assms(1) by (simp_all add: builder_shows_def no_invalid_def)
  obtain v where v: "SaveTo ?icmp b (NewVersionStorageInfo (num_levels b) (co_force_consistency_checks (fs_options f))) =
      Ok (CheckConsistency ?icmp (num_levels b) v, v)" "version_ok ?icmp v" "length (vs_files v) = num_levels b"
    "vs_force_consistency_checks v = co_force_consistency_checks (fs_options f)"
    "version_files v = builder_files b" "fst ` set (vs_blob_files v) \<subseteq> builder_blobs b"
    using SaveTo_saves [OF _ b(1), of ?icmp "co_force_consistency_checks (fs_options f)"] assms(2) b(2)
    by (auto simp: consistent_family_def NewVersion_ok)
  have "saved_family f v"
    using v b(3) b(4) [symmetric] by (simp add: saved_family_def builder_lsm_def)
  then show ?thesis
    using v(1) assms(2) b(3) by (auto simp: NewVersion_def consistent_family_def)
qed

lemma CreateVersions_recovered:
  assumes "recovering cfg" and "vset_families (h_vset h) = cs @ map shown fs"
    and "list_all2 recovered_family gs cs" and "distinct (map fs_id (gs @ fs))"
    and "\<forall>f \<in> set fs. consistent_family f \<and> (\<exists>b. map_of (h_builders h) (fs_id f) = Some b \<and> builder_shows f b)"
  shows "\<exists>cs'. CreateVersions cfg garbage (map shown fs) h =
      Ok (StatusOK, h\<lparr>h_vset := (h_vset h)\<lparr>vset_families := cs'\<rparr>\<rparr>) \<and> list_all2 recovered_family (gs @ fs) cs'"
  using assms(2-5)
proof (induction fs arbitrary: h cs gs)
  case Nil
  then show ?case by (intro exI [of _ cs]) simp
next
  case (Cons f fs)
  let ?n = "fs_id f"
  have other: "cfd_id c \<noteq> ?n" if "c \<in> set cs" for c
  proof -
    note mem = that
    obtain i where i: "i < length cs" "c = cs ! i" using mem by (auto simp: in_set_conv_nth)
    then have "recovered_family (gs ! i) c" "gs ! i \<in> set gs"
      using Cons.prems(2) by (simp_all add: list_all2_conv_all_nth)
    then show ?thesis using Cons.prems(3) recovered_familyD [of "gs ! i" c] by (auto dest: sym)
  qed
  have later: "fs_id g \<noteq> ?n" if "g \<in> set fs" for g using that Cons.prems(3) by (auto simp: image_iff)
  have "find (\<lambda>c. cfd_id c = ?n \<and> \<not> cfd_dropped c) cs = None" using other by (auto simp: find_None_iff)
  then have get: "GetColumnFamily ?n (h_vset h) = Some (shown f)"
    using Cons.prems(1) by (simp add: GetColumnFamily_def find_append)
  obtain b v where b: "map_of (h_builders h) ?n = Some b"
    and v: "SaveTo (InternalCompare (co_compare (fs_options f))) b (NewVersion (fs_options f)) = Ok (StatusOK, v)"
    "saved_family f v"
    using Cons.prems(4) builder_saves by (metis list.set_intros(1))
  let ?c = "(shown f)\<lparr>cfd_current := v\<rparr>"
  let ?h = "h\<lparr>h_vset := AppendVersion ?n v (h_vset h)\<rparr>"
  have made: "MaybeCreateVersion cfg (NewVersionEdit garbage) ?n True h = Ok (StatusOK, ?h)"
    using assms(1) get b v(1)
    by (simp add: MaybeCreateVersion_def recovering_def BaseMaybeCreateVersion_def BuildVersion_def)
  have fams: "vset_families (h_vset ?h) = (cs @ [?c]) @ map shown fs"
  proof -
    have "map (\<lambda>c. if cfd_id c = ?n \<and> \<not> cfd_dropped c then c\<lparr>cfd_current := v\<rparr> else c) cs = cs"
      using other by (intro map_idI) simp
    moreover have "map (\<lambda>c. if cfd_id c = ?n \<and> \<not> cfd_dropped c then c\<lparr>cfd_current := v\<rparr> else c) (map shown fs) =
        map shown fs"
      using later by (intro map_idI) auto
    ultimately show ?thesis using Cons.prems(1) by (simp add: AppendVersion_def upd_family_def)
  qed
  have rec: "list_all2 recovered_family (gs @ [f]) (cs @ [?c])"
  proof -
    have "recovered_family f ?c" using v(2) by (simp add: recovered_family_def)
    then show ?thesis using Cons.prems(2) by (simp add: list_all2_appendI)
  qed
  have "\<exists>cs'. CreateVersions cfg garbage (map shown fs) ?h =
      Ok (StatusOK, ?h\<lparr>h_vset := (h_vset ?h)\<lparr>vset_families := cs'\<rparr>\<rparr>) \<and>
      list_all2 recovered_family ((gs @ [f]) @ fs) cs'"
    using Cons.prems(3,4) by (intro Cons.IH [OF fams rec]) auto
  then show ?case using made by (auto simp: AppendVersion_def upd_family_def)
qed


text \<open>The whole manifest; the answers of the table readers are positive.\<close>

definition counters_known :: "manifest_spec \<Rightarrow> u64 \<Rightarrow> u64 \<Rightarrow> bool" where
  "counters_known ms n q \<longleftrightarrow> ms_logged ms \<and> ms_next_file ms = Some n \<and> ms_last_sequence ms = Some q"

lemma Initialize_depicts:
  assumes "recovering cfg" and "spec_start cfg = Some ms" and "vset_families vs = []" and "vset_wals vs = []"
  shows "\<exists>h. Initialize cfg garbage (NewHandler garbage keys vs) = Ok (StatusOK, h) \<and> depicts ms h"
proof -
  obtain options where o: "name_to_options cfg kDefaultColumnFamilyName = Some options"
    "ms = \<lparr>ms_families = [\<lparr>fs_id = 0, fs_name = kDefaultColumnFamilyName, fs_options = options,
        fs_log_number = 0, fs_lsm = (Map.empty, {})\<rparr>],
      ms_wals = [], ms_logged = False, ms_next_file = None, ms_last_sequence = None\<rparr>"
    using assms(2) by (auto simp: spec_start_def bind_eq_Some_conv)
  let ?ms = "\<lparr>ms_families = [], ms_wals = [], ms_logged = False, ms_next_file = None, ms_last_sequence = None\<rparr>"
  let ?e = "SetColumnFamily 0 (AddColumnFamily kDefaultColumnFamilyName (NewVersionEdit garbage))"
  have "depicts ?ms (NewHandler garbage keys vs)"
    using assms(3,4) by (simp add: depicts_def NewHandler_def counters_shown_def)
  from depicts_add [OF this, of 0 cfg ?e options]
  have "depicts ms (CreateCfAndInit cfg options ?e (NewHandler garbage keys vs))"
    using assms(1) o(2) by (simp add: spec_family_def recovering_def SetColumnFamily_def AddColumnFamily_def
        NewVersionEdit_def Clear_def)
  then have "depicts ms ((CreateCfAndInit cfg options ?e (NewHandler garbage keys vs))\<lparr>h_initialized := True\<rparr>)"
    by (simp add: depicts_def)
  then show ?thesis using o(1) by (simp add: Initialize_def NewHandler_def)
qed

lemma CheckNumLevels_shown:
  assumes "\<forall>f \<in> set fs. \<exists>b. map_of bs (fs_id f) = Some b \<and> builder_shows f b"
  shows "CheckNumLevels bs (map shown fs) = Ok StatusOK"
  using assms
  by (induction fs) (auto simp: builder_shows_def no_invalid_def CheckConsistencyForNumLevels_def)

lemma LoadFamilies_ok:
  "(\<And>n. hf_load_tables cfg n = StatusOK) \<Longrightarrow> LoadFamilies cfg cs = StatusOK"
  by (induction cs) (simp_all add: LoadTables_def Let_def)

lemma MarkNumbers_frame [simp]:
  "vset_families (MarkNumbers p vs) = vset_families vs" "vset_wals (MarkNumbers p vs) = vset_wals vs"
  by (simp_all add: MarkNumbers_def MarkFileNumberUsed_def MarkMinLogNumberToKeep2PC_def UpdateMaxColumnFamily_def)

lemma CheckIterationResult_recovers:
  assumes "recovering cfg" and "depicts ms h" and "counters_known ms n q"
    and "\<forall>f \<in> set (ms_families ms). consistent_family f" and "\<And>n. hf_load_tables cfg n = StatusOK"
  shows "\<exists>h'. CheckIterationResult cfg garbage off StatusOK h = Ok (StatusOK, h') \<and>
    list_all2 recovered_family (ms_families ms) (vset_families (h_vset h')) \<and>
    vset_wals (h_vset h') = ms_wals ms \<and> vset_next_file_number (h_vset h') = n + 1 \<and>
    vset_last_sequence (h_vset h') = q"
proof -
  note d = depictsD [OF assms(2)]
  have c: "ve_has_log_number (h_params h)" "ve_has_next_file_number (h_params h)"
    "ve_next_file_number (h_params h) = n" "ve_has_last_sequence (h_params h)" "ve_last_sequence (h_params h) = q"
    using d(7) assms(3) by (simp_all add: counters_shown_def counters_known_def)
  let ?h = "h\<lparr>h_vset := MarkNumbers (h_params h) (h_vset h)\<rparr>"
  have fams: "vset_families (h_vset ?h) = [] @ map shown (ms_families ms)" using d(1) by simp
  have builders: "\<forall>f \<in> set (ms_families ms). \<exists>b. map_of (h_builders ?h) (fs_id f) = Some b \<and> builder_shows f b"
    using d(5) by simp
  have "\<exists>cs'. CreateVersions cfg garbage (map shown (ms_families ms)) ?h =
      Ok (StatusOK, ?h\<lparr>h_vset := (h_vset ?h)\<lparr>vset_families := cs'\<rparr>\<rparr>) \<and>
      list_all2 recovered_family ([] @ ms_families ms) cs'"
    by (rule CreateVersions_recovered [OF assms(1) fams]) (use builders assms(4) d(3) in simp_all)
  then obtain cs' where cs': "CreateVersions cfg garbage (map shown (ms_families ms)) ?h =
      Ok (StatusOK, ?h\<lparr>h_vset := (h_vset ?h)\<lparr>vset_families := cs'\<rparr>\<rparr>)"
    "list_all2 recovered_family (ms_families ms) cs'" by auto
  have nm: "\<not> missing_info h" using c by (simp add: missing_info_def)
  have "CheckNumLevels (h_builders h) (map shown (ms_families ms)) = Ok StatusOK"
    by (rule CheckNumLevels_shown) (use builders in simp)
  then have "CheckIterationResult cfg garbage off StatusOK h =
      Ok (StatusOK, FinishCounters off (?h\<lparr>h_vset := (h_vset ?h)\<lparr>vset_families := cs'\<rparr>\<rparr>))"
    using nm d(1,4) cs'(1) assms(1) LoadFamilies_ok [OF assms(5)]
    by (simp add: CheckIterationResult_def BaseCheckIterationResult_def Let_def recovering_def)
  then show ?thesis using cs'(2) d(2) c by (simp add: FinishCounters_def Let_def)
qed

lemma ReplayManifest_specified:
  assumes "recovering cfg" and "spec_start cfg = Some ms0" and "spec_manifest cfg (concat us) ms0 = Some ms"
    and "counters_known ms n q" and "\<forall>f \<in> set (ms_families ms). consistent_family f"
    and "\<And>n. hf_load_tables cfg n = StatusOK" and "vset_families vs = []" and "vset_wals vs = []"
  shows "\<exists>h'. ReplayManifest cfg garbage off us (NewHandler garbage keys vs) = Ok (StatusOK, h') \<and>
    list_all2 recovered_family (ms_families ms) (vset_families (h_vset h')) \<and>
    vset_wals (h_vset h') = ms_wals ms \<and> vset_next_file_number (h_vset h') = n + 1 \<and>
    vset_last_sequence (h_vset h') = q"
proof -
  obtain h1 where h1: "Initialize cfg garbage (NewHandler garbage keys vs) = Ok (StatusOK, h1)" "depicts ms0 h1"
    using Initialize_depicts [OF assms(1,2,7,8)] by blast
  obtain h2 where h2: "ApplyUnits (edit_handler cfg garbage) us h1 = Ok (StatusOK, h2)" "depicts ms h2"
    using ApplyUnits_depicts [OF assms(1) h1(2) assms(3)] by blast
  show ?thesis
    using CheckIterationResult_recovers [OF assms(1) h2(2) assms(4,5,6)] h1(1) h2(1)
    by (simp add: ReplayManifest_def)
qed

end
