(* ===== verification/Manifest_Snapshot.thy ===== *)
theory Manifest_Snapshot
  imports Manifest_Spec
begin

text \<open>
  What the snapshot at the start of a manifest holds (\<open>WriteCurrentStateToManifest\<close>): by the
  specification of \<open>Manifest_Spec\<close>, its edits stand for the families with their files, and the logs, of
  the version set that wrote it.
\<close>

section \<open>The edits of a snapshot\<close>

definition family_edits :: "VersionEdit \<Rightarrow> (u32 \<rightharpoonup> u64) \<Rightarrow> ColumnFamilyData \<Rightarrow> VersionEdit list" where
  "family_edits garbage curr_state cfd =
     (if cfd_dropped cfd then []
      else [SnapshotFamily garbage cfd, SnapshotFiles garbage (the (curr_state (cfd_id cfd))) cfd])"

definition snapshot_edits ::
    "db_options \<Rightarrow> VersionEdit \<Rightarrow> VersionSet \<Rightarrow> (u32 \<rightharpoonup> u64) \<Rightarrow> VersionEdit \<Rightarrow> VersionEdit list" where
  "snapshot_edits opts garbage vs curr_state wal_additions =
     (if db_write_dbid_to_manifest opts then [SetDBId (vset_db_id vs) (NewVersionEdit garbage)] else []) @
     (if ve_wal_additions wal_additions \<noteq> [] then [wal_additions] else []) @
     concat (map (family_edits garbage curr_state) (vset_families vs))"

lemma AddEditRecords_append:
  "AddEditRecords ssl (xs @ ys) w =
   obind (AddEditRecords ssl xs w) (\<lambda>(s, io_s, w).
     if s \<noteq> StatusOK then Ok (s, io_s, w) else AddEditRecords ssl ys w)"
proof (induction xs arbitrary: w)
  case (Cons e xs)
  show ?case
  proof (cases "AddEditRecord ssl e w")
    case (Ok q)
    obtain s io_s w1 where "q = (s, io_s, w1)" by (cases q)
    then show ?thesis using Ok Cons.IH [of w1] by simp
  qed simp_all
qed simp

lemma SnapshotFamilies_edits:
  assumes "\<forall>c \<in> set cfds. curr_state (cfd_id c) \<noteq> None"
  shows "SnapshotFamilies ssl garbage curr_state cfds w =
    AddEditRecords ssl (concat (map (family_edits garbage curr_state) cfds)) w"
  using assms
proof (induction cfds arbitrary: w)
  case (Cons c cfds)
  then obtain n where n: "curr_state (cfd_id c) = Some n" by auto
  show ?case using Cons n
    by (auto simp: family_edits_def obind_def split: outcome.splits)
qed simp

lemma WriteCurrentStateToManifest_edits:
  assumes "\<forall>c \<in> set (vset_families vs). curr_state (cfd_id c) \<noteq> None"
  shows "WriteCurrentStateToManifest ssl opts garbage vs curr_state wal_additions w =
    AddEditRecords ssl (snapshot_edits opts garbage vs curr_state wal_additions) w"
proof -
  show ?thesis
    unfolding WriteCurrentStateToManifest_def snapshot_edits_def AddEditRecords_append
      SnapshotFamilies_edits [OF assms] by simp
qed

section \<open>The files of a snapshot\<close>

lemma NewFileDescriptor_same:
  "NewFileDescriptor (GetNumber fd) (GetPathId fd) (fd_file_size fd) (fd_smallest_seqno fd)
     (fd_largest_seqno fd) = fd"
proof -
  have m: "kFileNumberMask + 1 = 2 ^ 62" "kFileNumberMask = mask 62"
    by (simp_all add: kFileNumberMask_def mask_eq_exp_minus_1)
  have "unat (fd_packed fd div 2 ^ 62) < 2 ^ 32"
    using unat_less_2p [of "fd_packed fd"] by (simp add: unat_div less_mult_imp_div_less)
  then have p: "ucast (GetPathId fd) = fd_packed fd div 2 ^ 62"
    unfolding GetPathId_def m(1) by (simp add: word_unat_eq_iff unsigned_ucast_eq unsigned_take_bit_eq take_bit_nat_eq_self)
  have d: "fd_packed fd div 2 ^ 62 * 2 ^ 62 = push_bit 62 (drop_bit 62 (fd_packed fd))"
    by (simp add: push_bit_eq_mult drop_bit_eq_div)
  have "PackFileNumberAndPathId (GetNumber fd) (ucast (GetPathId fd)) = fd_packed fd"
    unfolding PackFileNumberAndPathId_def p m(1) d GetNumber_def
    unfolding m(2) take_bit_eq_mask [symmetric] by (rule take_bit_or_push_bit_drop)
  then show ?thesis by (simp add: NewFileDescriptor_def)
qed

lemma AddFileOf_same: "AddFileOf level f e = AddFile level f e"
  by (cases f) (simp add: AddFileOf_def NewFileDescriptor_same)

definition snapshot_files :: "nat \<Rightarrow> VersionStorageInfo \<Rightarrow> (int \<times> FileMetaData) list" where
  "snapshot_files levels v = concat (map (\<lambda>l. map (Pair (int l)) (vs_files v ! l)) [0..<levels])"

definition blob_addition :: "u64 \<times> BlobFileMetaData \<Rightarrow> BlobFileAddition" where
  "blob_addition p =
     (let sm = bm_shared_meta (snd p)
      in \<lparr>ba_number = fst p, ba_total_count = sb_total_blob_count sm,
          ba_total_bytes = sb_total_blob_bytes sm, ba_checksum_method = sb_checksum_method sm,
          ba_checksum_value = sb_checksum_value sm\<rparr>)"

definition blob_garbage :: "u64 \<times> BlobFileMetaData \<Rightarrow> BlobFileGarbage list" where
  "blob_garbage p =
     (if bm_garbage_blob_count (snd p) > 0
      then [\<lparr>bg_number = fst p, bg_count = bm_garbage_blob_count (snd p),
             bg_bytes = bm_garbage_blob_bytes (snd p)\<rparr>] else [])"

lemma fold_AddFile:
  "fold (AddFileOf level) fs e = e\<lparr>ve_new_files := ve_new_files e @ map (Pair level) fs\<rparr>"
  by (induction fs arbitrary: e) (simp_all add: AddFileOf_same AddFile_def)

lemma fold_levels:
  "fold (\<lambda>level. fold (AddFileOf (int level)) (vs_files v ! level)) [0..<k] e =
   e\<lparr>ve_new_files := ve_new_files e @ snapshot_files k v\<rparr>"
  by (induction k) (simp_all add: snapshot_files_def fold_AddFile)

lemma fold_blobs:
  "fold SnapshotBlobFile bs e =
   e\<lparr>ve_blob_file_additions := ve_blob_file_additions e @ map blob_addition bs,
     ve_blob_file_garbages := ve_blob_file_garbages e @ concat (map blob_garbage bs)\<rparr>"
  by (induction bs arbitrary: e)
    (auto simp: SnapshotBlobFile_def AddBlobFile_def AddBlobFileGarbage_def blob_addition_def
      blob_garbage_def Let_def)

lemma SnapshotFiles_edit:
  "SnapshotFiles garbage n cfd = (NewVersionEdit garbage)
     \<lparr>ve_new_files := snapshot_files (co_num_levels (cfd_options cfd)) (cfd_current cfd),
      ve_blob_file_additions := map blob_addition (vs_blob_files (cfd_current cfd)),
      ve_blob_file_garbages := concat (map blob_garbage (vs_blob_files (cfd_current cfd))),
      ve_column_family := cfd_id cfd, ve_has_log_number := True, ve_log_number := n\<rparr>"
  unfolding SnapshotFiles_def Let_def fold_levels fold_blobs
  by (simp add: SetColumnFamily_def SetLogNumber_def NewVersionEdit_def Clear_def)

lemma SnapshotFamily_edit:
  "SnapshotFamily garbage cfd = (NewVersionEdit garbage)
     \<lparr>ve_has_comparator := True, ve_comparator := co_comparator_name (cfd_options cfd),
      ve_column_family := cfd_id cfd, ve_is_column_family_add := (cfd_id cfd \<noteq> 0),
      ve_column_family_name := (if cfd_id cfd \<noteq> 0 then cfd_name cfd else [])\<rparr>"
  by (simp add: SnapshotFamily_def Let_def SetColumnFamily_def AddColumnFamily_def
      SetComparatorName_def NewVersionEdit_def Clear_def)

lemma set_snapshot_files:
  "set (snapshot_files k v) = {(int l, f) | l f. l < k \<and> f \<in> set (vs_files v ! l)}"
  by (auto simp: snapshot_files_def)

lemma snapshot_files_Suc:
  "snapshot_files (Suc k) v = snapshot_files k v @ map (Pair (int k)) (vs_files v ! k)"
  by (simp add: snapshot_files_def)

lemma distinct_snapshot_files:
  assumes "locations_ok v" and "k \<le> length (vs_files v)"
  shows "distinct (map (\<lambda>p. file_number (snd p)) (snapshot_files k v))"
  using assms(2)
proof (induction k)
  case (Suc k)
  have d: "distinct (map file_number (vs_files v ! k))"
    using locations_distinct [OF assms(1)] Suc.prems by simp
  have "file_number f \<noteq> file_number g" if "f \<in> set (vs_files v ! k)" "(l, g) \<in> set (snapshot_files k v)" for f g l
  proof
    assume eq: "file_number f = file_number g"
    note mem = that
    obtain j where j: "j < k" "g \<in> set (vs_files v ! j)" using mem(2) by (auto simp: set_snapshot_files)
    have "version_files v (file_number f) = Some (k, f)"
      using version_files_iff [OF assms(1)] mem(1) Suc.prems by simp
    moreover have "version_files v (file_number f) = Some (j, g)"
      using version_files_iff [OF assms(1)] j Suc.prems eq by simp
    ultimately show False using j(1) by simp
  qed
  then show ?case using Suc d by (force simp: snapshot_files_Suc comp_def)
qed (simp add: snapshot_files_def)

lemma spec_additions:
  assumes "distinct (map (\<lambda>p. file_number (snd p)) fs)" and "\<forall>p \<in> set fs. m (file_number (snd p)) = None"
  shows "spec_all spec_addition fs (m, B) =
    Some (m ++ map_of (map (\<lambda>p. (file_number (snd p), (nat (fst p), snd p))) fs), B)"
  using assms
proof (induction fs arbitrary: m)
  case (Cons p fs)
  let ?kv = "\<lambda>p. (file_number (snd p), (nat (fst p), snd p))"
  have other: "file_number (snd q) \<noteq> file_number (snd p)" if "q \<in> set fs" for q
  proof -
    have "file_number (snd p) \<notin> (\<lambda>p. file_number (snd p)) ` set fs" using Cons.prems(1) by simp
    then show ?thesis using that by (metis imageI)
  qed
  have "spec_all spec_addition fs (m(file_number (snd p) \<mapsto> (nat (fst p), snd p)), B) =
      Some (m(file_number (snd p) \<mapsto> (nat (fst p), snd p)) ++ map_of (map ?kv fs), B)"
    using Cons.prems other by (intro Cons.IH) simp_all
  moreover have "file_number (snd p) \<notin> dom (map_of (map ?kv fs))"
    using Cons.prems(1) by (simp add: dom_map_of_conv_image_fst image_image)
  then have "m(file_number (snd p) \<mapsto> (nat (fst p), snd p)) ++ map_of (map ?kv fs) =
      m ++ map_of (map ?kv (p # fs))"
    by (simp add: map_add_upd_left)
  moreover have "spec_addition p (m, B) = Some (m(file_number (snd p) \<mapsto> (nat (fst p), snd p)), B)"
    using Cons.prems(2) by (simp add: spec_addition_def)
  ultimately show ?case by (simp only: spec_all.simps Option.bind.bind_lunit)
qed simp

lemma spec_blob_additions:
  assumes "distinct (map fst bs)" and "B \<inter> fst ` set bs = {}"
  shows "spec_all spec_blob_addition (map blob_addition bs) (m, B) = Some (m, B \<union> fst ` set bs)"
  using assms
proof (induction bs arbitrary: B)
  case (Cons p bs)
  have "spec_all spec_blob_addition (map blob_addition bs) (m, insert (fst p) B) =
      Some (m, insert (fst p) B \<union> fst ` set bs)"
    using Cons.prems by (intro Cons.IH) auto
  moreover have "spec_blob_addition (blob_addition p) (m, B) = Some (m, insert (fst p) B)"
    using Cons.prems by (simp add: spec_blob_addition_def blob_addition_def Let_def)
  ultimately show ?case by simp
qed simp

lemma spec_blob_garbages:
  assumes "\<forall>g \<in> set gs. bg_number g \<in> snd p"
  shows "spec_all spec_blob_garbage gs p = Some p"
  using assms by (induction gs) (auto simp: spec_blob_garbage_def)

lemma omap_ok_distinct: "omap_ok m \<Longrightarrow> distinct (map fst m)"
  by (simp add: omap_ok_def strict_sorted_iff)

lemma snapshot_files_map:
  assumes "locations_ok v" and "length (vs_files v) = k"
  shows "map_of (map (\<lambda>p. (file_number (snd p), (nat (fst p), snd p))) (snapshot_files k v)) = version_files v"
proof
  fix n
  let ?kvs = "map (\<lambda>p. (file_number (snd p), (nat (fst p), snd p))) (snapshot_files k v)"
  have d: "distinct (map fst ?kvs)" using distinct_snapshot_files [OF assms(1), of k] assms(2)
    by (simp add: comp_def)
  have iff: "map_of ?kvs n = Some (l, f) \<longleftrightarrow> version_files v n = Some (l, f)" for l f
  proof -
    have "(n, l, f) \<in> set ?kvs \<longleftrightarrow> l < k \<and> f \<in> set (vs_files v ! l) \<and> file_number f = n"
      unfolding set_map set_snapshot_files by (auto intro: image_eqI [where x = "(int l, f)"])
    then show ?thesis
      unfolding map_of_eq_Some_iff [OF d] version_files_iff [OF assms(1)] assms(2) .
  qed
  have "a = b" if "\<And>l f. a = Some (l, f) \<longleftrightarrow> b = Some (l, f)" for a b :: "(nat \<times> FileMetaData) option"
    using that by (cases a; cases b) auto
  from this [OF iff] show "map_of ?kvs n = version_files v n" .
qed

lemma spec_snapshot:
  assumes "version_ok icmp (cfd_current cfd)"
    and "length (vs_files (cfd_current cfd)) = co_num_levels (cfd_options cfd)"
  shows "spec_edit (SnapshotFiles garbage n cfd) (Map.empty, {}) =
    Some (version_files (cfd_current cfd), fst ` set (vs_blob_files (cfd_current cfd)))"
proof -
  let ?v = "cfd_current cfd"
  have ok: "locations_ok ?v" "omap_ok (vs_blob_files ?v)"
    using assms(1) unfolding version_ok_def by simp_all
  have g: "spec_all spec_blob_garbage (concat (map blob_garbage (vs_blob_files ?v)))
      (Map.empty, fst ` set (vs_blob_files ?v)) = Some (Map.empty, fst ` set (vs_blob_files ?v))"
    by (rule spec_blob_garbages) (auto simp: blob_garbage_def)
  have f: "spec_all spec_addition (snapshot_files (co_num_levels (cfd_options cfd)) ?v)
      (Map.empty, fst ` set (vs_blob_files ?v)) =
      Some (version_files ?v, fst ` set (vs_blob_files ?v))"
    using spec_additions [OF distinct_snapshot_files [OF ok(1)], of "co_num_levels (cfd_options cfd)" Map.empty]
      snapshot_files_map [OF ok(1) assms(2)] assms(2) by simp
  have b: "spec_all spec_blob_addition (map blob_addition (vs_blob_files ?v)) (Map.empty, {}) =
      Some (Map.empty, fst ` set (vs_blob_files ?v))"
    using spec_blob_additions [OF omap_ok_distinct [OF ok(2)], of "{}" Map.empty] by simp
  have e: "ve_blob_file_additions (SnapshotFiles garbage n cfd) = map blob_addition (vs_blob_files ?v)"
    "ve_blob_file_garbages (SnapshotFiles garbage n cfd) = concat (map blob_garbage (vs_blob_files ?v))"
    "ve_deleted_files (SnapshotFiles garbage n cfd) = []"
    "ve_new_files (SnapshotFiles garbage n cfd) = snapshot_files (co_num_levels (cfd_options cfd)) ?v"
    unfolding SnapshotFiles_edit by (simp_all add: NewVersionEdit_def Clear_def)
  show ?thesis unfolding spec_edit_def e b by (simp add: g f)
qed


section \<open>What the snapshot stands for\<close>

lemma decoded_frame [simp]:
  "IsWalAddition (decoded e) = IsWalAddition e" "IsWalDeletion (decoded e) = IsWalDeletion e"
  "ve_is_column_family_add (decoded e) = ve_is_column_family_add e"
  "ve_is_column_family_drop (decoded e) = ve_is_column_family_drop e"
  "ve_wal_additions (decoded e) = ve_wal_additions e" "ve_wal_deletion (decoded e) = ve_wal_deletion e"
  "ve_column_family (decoded e) = ve_column_family e"
  "ve_column_family_name (decoded e) = ve_column_family_name e"
  "ve_has_comparator (decoded e) = ve_has_comparator e" "ve_comparator (decoded e) = ve_comparator e"
  "ve_has_log_number (decoded e) = ve_has_log_number e" "ve_log_number (decoded e) = ve_log_number e"
  "ve_has_next_file_number (decoded e) = ve_has_next_file_number e"
  "ve_next_file_number (decoded e) = ve_next_file_number e"
  "ve_has_last_sequence (decoded e) = ve_has_last_sequence e"
  "ve_last_sequence (decoded e) = ve_last_sequence e"
  "ve_new_files (decoded e) = ve_new_files e" "ve_deleted_files (decoded e) = ve_deleted_files e"
  "ve_blob_file_additions (decoded e) = ve_blob_file_additions e"
  "ve_blob_file_garbages (decoded e) = ve_blob_file_garbages e"
  by (simp_all add: decoded_def IsWalAddition_def IsWalDeletion_def)

lemma decoded_spec [simp]:
  "comparator_fits (decoded e) = comparator_fits e" "levels_in_range k (decoded e) = levels_in_range k e"
  "takes_log (decoded e) = takes_log e" "spec_edit (decoded e) = spec_edit e"
  by (simp_all add: comparator_fits_def levels_in_range_def takes_log_def spec_edit_def fun_eq_iff)

lemma spec_manifest_decoded [simp]: "spec_manifest cfg (map decoded es) ms = spec_manifest cfg es ms"
proof -
  have c: "spec_change (decoded e) = spec_change e" "spec_counters (decoded e) = spec_counters e" for e
    unfolding spec_change_def [abs_def] spec_counters_def [abs_def] decoded_frame decoded_spec by simp_all
  have "spec_manifest_edit cfg (decoded e) ms = spec_manifest_edit cfg e ms" for e ms
    unfolding spec_manifest_edit_def spec_add_def spec_drop_def spec_wals_def spec_files_def
      decoded_frame decoded_spec c ..
  then show ?thesis by (induction es arbitrary: ms) (simp_all split: bind_split)
qed

definition abs_family :: "ColumnFamilyData \<Rightarrow> family_spec" where
  "abs_family c = \<lparr>fs_id = cfd_id c, fs_name = cfd_name c, fs_options = cfd_options c,
     fs_log_number = cfd_log_number c,
     fs_lsm = (version_files (cfd_current c), fst ` set (vs_blob_files (cfd_current c)))\<rparr>"

definition blank_family :: "ColumnFamilyData \<Rightarrow> family_spec" where
  "blank_family c = (abs_family c)\<lparr>fs_log_number := 0, fs_lsm := (Map.empty, {})\<rparr>"

lemma abs_family_fields [simp]:
  "fs_id (abs_family c) = cfd_id c" "fs_options (abs_family c) = cfd_options c"
  "fs_id (blank_family c) = cfd_id c" "fs_options (blank_family c) = cfd_options c"
  "fs_log_number (blank_family c) = 0" "fs_lsm (blank_family c) = (Map.empty, {})"
  by (simp_all add: abs_family_def blank_family_def)

definition version_fits :: "ColumnFamilyData \<Rightarrow> bool" where
  "version_fits c \<longleftrightarrow> version_ok (cfd_icmp c) (cfd_current c) \<and>
     length (vs_files (cfd_current c)) = co_num_levels (cfd_options c)"

lemma spec_family_last:
  "ms_families ms = map F cs @ [f] \<Longrightarrow> fs_id f = n \<Longrightarrow> (\<And>c. fs_id (F c) = cfd_id c) \<Longrightarrow>
   n \<notin> cfd_id ` set cs \<Longrightarrow> spec_family n ms = Some f"
proof -
  assume a: "ms_families ms = map F cs @ [f]" "fs_id f = n" "\<And>c. fs_id (F c) = cfd_id c"
    "n \<notin> cfd_id ` set cs"
  then have "find (\<lambda>f. fs_id f = n) (map F cs) = None" by (auto simp: find_None_iff image_iff)
  then show "spec_family n ms = Some f" using a by (simp add: spec_family_def find_append)
qed

lemma spec_files_last:
  assumes "ms_families ms = map abs_family cs @ [f]" and "fs_id f = ve_column_family e"
    and "ve_column_family e \<notin> cfd_id ` set cs"
    and "levels_in_range (co_num_levels (fs_options f)) e" and "comparator_fits e (fs_options f)"
    and "spec_edit e (fs_lsm f) = Some p"
  shows "spec_files e ms = Some (ms\<lparr>ms_families := map abs_family cs @ [spec_change e p f],
    ms_logged := ms_logged ms \<or> takes_log e f\<rparr>)"
proof -
  have "map (\<lambda>g. if fs_id g = ve_column_family e then spec_change e p g else g) (map abs_family cs) = map abs_family cs"
    using assms(3) by (intro map_idI) (auto simp: image_iff)
  then show ?thesis
    using spec_family_last [OF assms(1,2) _ assms(3)] assms(1,2,4-6) by (simp add: spec_files_def)
qed

text \<open>The two edits of a family.\<close>

lemma new_edit [simp]:
  "ve_has_next_file_number (NewVersionEdit g) = False" "ve_has_last_sequence (NewVersionEdit g) = False"
  "ve_is_column_family_add (NewVersionEdit g) = False" "ve_is_column_family_drop (NewVersionEdit g) = False"
  "ve_wal_additions (NewVersionEdit g) = []" "ve_wal_deletion (NewVersionEdit g) = 0"
  "ve_has_log_number (NewVersionEdit g) = False" "ve_log_number (NewVersionEdit g) = 0"
  "ve_has_comparator (NewVersionEdit g) = False" "ve_deleted_files (NewVersionEdit g) = []"
  "ve_new_files (NewVersionEdit g) = []" "ve_blob_file_additions (NewVersionEdit g) = []"
  "ve_blob_file_garbages (NewVersionEdit g) = []" "ve_column_family (NewVersionEdit g) = 0"
  by (simp_all add: NewVersionEdit_def Clear_def)

lemma spec_edit_nothing:
  "ve_blob_file_additions e = [] \<Longrightarrow> ve_blob_file_garbages e = [] \<Longrightarrow> ve_deleted_files e = [] \<Longrightarrow>
   ve_new_files e = [] \<Longrightarrow> spec_edit e p = Some p"
  by (simp add: spec_edit_def)

lemma spec_SnapshotFiles:
  assumes "version_fits c" and "ms_families ms = map abs_family cs @ [blank_family c]"
    and "cfd_id c \<notin> cfd_id ` set cs"
  shows "spec_manifest_edit cfg (SnapshotFiles garbage (cfd_log_number c) c) ms =
    Some (ms\<lparr>ms_families := map abs_family (cs @ [c]), ms_logged := True\<rparr>)"
proof -
  let ?e = "SnapshotFiles garbage (cfd_log_number c) c"
  have e: "ve_column_family ?e = cfd_id c" "ve_has_log_number ?e" "ve_log_number ?e = cfd_log_number c"
    "\<not> ve_has_comparator ?e" "\<not> ve_is_column_family_add ?e" "\<not> ve_is_column_family_drop ?e"
    "\<not> IsWalAddition ?e" "\<not> IsWalDeletion ?e" "spec_counters ?e = id"
    "ve_deleted_files ?e = []" "ve_new_files ?e = snapshot_files (co_num_levels (cfd_options c)) (cfd_current c)"
    unfolding SnapshotFiles_edit
    by (simp_all add: IsWalAddition_def IsWalDeletion_def WalDeletionIsEmpty_def spec_counters_def fun_eq_iff)
  have range: "levels_in_range (co_num_levels (cfd_options c)) ?e"
    unfolding levels_in_range_def e by (auto simp: set_snapshot_files)
  have spec: "spec_edit ?e (Map.empty, {}) =
      Some (version_files (cfd_current c), fst ` set (vs_blob_files (cfd_current c)))"
    using spec_snapshot [of "cfd_icmp c" c garbage] assms(1) by (simp add: version_fits_def)
  have "spec_files ?e ms = Some (ms\<lparr>ms_families := map abs_family cs @
      [spec_change ?e (version_files (cfd_current c), fst ` set (vs_blob_files (cfd_current c))) (blank_family c)],
      ms_logged := ms_logged ms \<or> takes_log ?e (blank_family c)\<rparr>)"
    using assms(3) range spec by (intro spec_files_last [OF assms(2)]) (simp_all add: e comparator_fits_def)
  moreover have "takes_log ?e (blank_family c)" by (simp add: takes_log_def e)
  moreover have "spec_change ?e (version_files (cfd_current c), fst ` set (vs_blob_files (cfd_current c)))
      (blank_family c) = abs_family c"
    by (simp add: spec_change_def takes_log_def e) (simp add: blank_family_def abs_family_def)
  ultimately show ?thesis using e by (simp add: spec_manifest_edit_def)
qed


lemma spec_SnapshotFamily:
  assumes "cfd_id c \<noteq> 0" and "ms_families ms = map abs_family cs" and "cfd_id c \<notin> cfd_id ` set cs"
    and "options_for cfg (cfd_name c) = Some (cfd_options c)"
  shows "spec_manifest_edit cfg (SnapshotFamily garbage c) ms =
    Some (ms\<lparr>ms_families := map abs_family cs @ [blank_family c]\<rparr>)"
proof -
  let ?e = "SnapshotFamily garbage c"
  have e: "ve_column_family ?e = cfd_id c" "\<not> ve_has_log_number ?e" "ve_log_number ?e = 0"
    "comparator_fits ?e (cfd_options c)" "ve_is_column_family_add ?e" "ve_column_family_name ?e = cfd_name c"
    "spec_counters ?e = id"
    using assms(1) unfolding SnapshotFamily_edit
    by (simp_all add: comparator_fits_def spec_counters_def fun_eq_iff)
  have "spec_family (cfd_id c) ms = None" using assms(2,3) by (auto simp: spec_family_None)
  then show ?thesis
    using assms(2,4) e by (simp add: spec_manifest_edit_def spec_add_def) (simp add: blank_family_def abs_family_def)
qed

text \<open>An edit of the default family without files changes nothing.\<close>

lemma spec_same:
  assumes "spec_family (ve_column_family e) ms = Some f" and "\<not> ve_is_column_family_add e"
    and "\<not> ve_is_column_family_drop e" and "ve_wal_additions e = []" and "ve_wal_deletion e = 0"
    and "ve_blob_file_additions e = []" and "ve_blob_file_garbages e = []" and "ve_deleted_files e = []"
    and "ve_new_files e = []" and "comparator_fits e (fs_options f)" and "\<not> ve_has_log_number e"
    and "distinct (map fs_id (ms_families ms))"
  shows "spec_manifest_edit cfg e ms = Some (spec_counters e ms)"
proof -
  note fam = spec_family_Some [OF assms(1)]
  have "g = f" if "g \<in> set (ms_families ms)" "fs_id g = ve_column_family e" for g
    using that assms(12) fam unfolding distinct_map by (metis inj_onD)
  then have "map (\<lambda>g. if fs_id g = ve_column_family e then spec_change e (fs_lsm f) g else g) (ms_families ms) =
      ms_families ms"
    using assms(11) by (intro map_idI) (auto simp: spec_change_def takes_log_def)
  then have "spec_files e ms = Some ms"
    using assms(1,10,11) spec_edit_nothing [OF assms(6-9)] assms(8,9)
    by (simp add: spec_files_def levels_in_range_def takes_log_def)
  then show ?thesis
    using assms(2-5) by (simp add: spec_manifest_edit_def IsWalAddition_def IsWalDeletion_def WalDeletionIsEmpty_def)
qed

lemma spec_family_edits:
  assumes "\<forall>c \<in> set cs'. version_fits c \<and> \<not> cfd_dropped c \<and> cfd_id c \<noteq> 0 \<and>
      options_for cfg (cfd_name c) = Some (cfd_options c) \<and> curr_state (cfd_id c) = Some (cfd_log_number c)"
    and "ms_families ms = map abs_family cs" and "distinct (map cfd_id (cs @ cs'))" and "ms_logged ms"
  shows "spec_manifest cfg (concat (map (family_edits garbage curr_state) cs')) ms =
    Some (ms\<lparr>ms_families := map abs_family (cs @ cs')\<rparr>)"
  using assms
proof (induction cs' arbitrary: cs ms)
  case (Cons c cs')
  let ?ms1 = "ms\<lparr>ms_families := map abs_family cs @ [blank_family c]\<rparr>"
  let ?ms2 = "ms\<lparr>ms_families := map abs_family (cs @ [c])\<rparr>"
  have new: "cfd_id c \<notin> cfd_id ` set cs" using Cons.prems(3) by auto
  have "spec_manifest_edit cfg (SnapshotFamily garbage c) ms = Some ?ms1"
    using Cons.prems(1) by (intro spec_SnapshotFamily [OF _ Cons.prems(2) new]) simp_all
  moreover have "spec_manifest_edit cfg (SnapshotFiles garbage (cfd_log_number c) c) ?ms1 = Some ?ms2"
    using spec_SnapshotFiles [OF _ _ new, of ?ms1 cfg garbage] Cons.prems(1,4) by simp
  moreover have "spec_manifest cfg (concat (map (family_edits garbage curr_state) cs')) ?ms2 =
      Some (?ms2\<lparr>ms_families := map abs_family ((cs @ [c]) @ cs')\<rparr>)"
    using Cons.prems by (intro Cons.IH) auto
  moreover have "family_edits garbage curr_state c =
      [SnapshotFamily garbage c, SnapshotFiles garbage (cfd_log_number c) c]"
    using Cons.prems(1) by (simp add: family_edits_def)
  ultimately show ?case by simp
qed simp

text \<open>The set of logs, which the addition of its logs one after the other rebuilds.\<close>

definition wal_edit :: "VersionEdit \<Rightarrow> wal_set \<Rightarrow> VersionEdit" where
  "wal_edit garbage wals =
     fold (\<lambda>(n, sz). VersionAddWal \<lparr>wa_number = n, wa_synced_size_bytes = sz\<rparr>) wals (NewVersionEdit garbage)"

lemma fold_AddWal:
  "fold (\<lambda>(n, sz). VersionAddWal \<lparr>wa_number = n, wa_synced_size_bytes = sz\<rparr>) wals e =
   e\<lparr>ve_wal_additions := ve_wal_additions e @
     map (\<lambda>(n, sz). \<lparr>wa_number = n, wa_synced_size_bytes = sz\<rparr>) wals\<rparr>"
  by (induction wals arbitrary: e) (auto simp: VersionAddWal_def)

lemma AddWal_last:
  assumes "\<forall>(m, _) \<in> set wals. m < n"
  shows "AddWal \<lparr>wa_number = n, wa_synced_size_bytes = sz\<rparr> wals = (StatusOK, wals @ [(n, sz)])"
proof -
  have "wals_below n wals = wals" "wals_from n wals = []"
    using assms by (auto simp: wals_below_def wals_from_def takeWhile_eq_all_conv dropWhile_eq_Nil_conv)
  then show ?thesis by (simp add: AddWal_def Let_def)
qed

lemma AddWals_rebuild:
  "sorted_wrt (\<lambda>p q. fst p < fst q) (wals @ wals') \<Longrightarrow>
   AddWals (map (\<lambda>(n, sz). \<lparr>wa_number = n, wa_synced_size_bytes = sz\<rparr>) wals') wals = (StatusOK, wals @ wals')"
proof (induction wals' arbitrary: wals)
  case (Cons p wals')
  have "AddWal \<lparr>wa_number = fst p, wa_synced_size_bytes = snd p\<rparr> wals = (StatusOK, wals @ [(fst p, snd p)])"
    using Cons.prems by (intro AddWal_last) (auto simp: sorted_wrt_append)
  then show ?case using Cons.IH [of "wals @ [p]"] Cons.prems by (cases p) simp
qed simp


text \<open>What a version set has to satisfy for its snapshot to be recovered with the options \<open>cfg\<close>.\<close>

definition live_families :: "VersionSet \<Rightarrow> ColumnFamilyData list" where
  "live_families vs = filter (\<lambda>c. \<not> cfd_dropped c) (vset_families vs)"

definition family_known :: "handler_config \<Rightarrow> ColumnFamilyData \<Rightarrow> bool" where
  "family_known cfg c \<longleftrightarrow>
     version_fits c \<and>
     (if cfd_id c = 0
      then cfd_name c = kDefaultColumnFamilyName \<and>
           name_to_options cfg kDefaultColumnFamilyName = Some (cfd_options c)
      else options_for cfg (cfd_name c) = Some (cfd_options c))"

definition recoverable :: "handler_config \<Rightarrow> VersionSet \<Rightarrow> bool" where
  "recoverable cfg vs \<longleftrightarrow>
     map cfd_id (take 1 (live_families vs)) = [0] \<and> distinct (map cfd_id (vset_families vs)) \<and>
     (\<forall>c \<in> set (live_families vs). family_known cfg c) \<and>
     sorted_wrt (\<lambda>p q. fst p < fst q) (vset_wals vs)"

definition curr_logs :: "VersionSet \<Rightarrow> u32 \<rightharpoonup> u64" where
  "curr_logs vs = map_of (rev (map (\<lambda>c. (cfd_id c, cfd_log_number c)) (vset_families vs)))"

lemma curr_logs_family:
  assumes "distinct (map cfd_id (vset_families vs))" and "c \<in> set (vset_families vs)"
  shows "curr_logs vs (cfd_id c) = Some (cfd_log_number c)"
  unfolding curr_logs_def by (rule map_of_is_SomeI)
    (use assms in \<open>auto simp: rev_map [symmetric] comp_def\<close>)

definition snapshot_spec :: "VersionSet \<Rightarrow> manifest_spec \<Rightarrow> bool" where
  "snapshot_spec vs ms \<longleftrightarrow>
     ms_families ms = map abs_family (live_families vs) \<and> ms_wals ms = vset_wals vs \<and> ms_logged ms"

lemma snapshot_specified:
  assumes "recoverable cfg vs"
  shows "\<exists>ms0 ms. spec_start cfg = Some ms0 \<and> snapshot_spec vs ms \<and>
    spec_manifest cfg (snapshot_edits opts garbage vs (curr_logs vs) (wal_edit garbage (vset_wals vs))) ms0 = Some ms"
proof -
  obtain c cs where live: "live_families vs = c # cs" "cfd_id c = 0"
    using assms by (cases "live_families vs") (simp_all add: recoverable_def)
  have ids: "distinct (map cfd_id (c # cs))"
    using assms unfolding recoverable_def live(1) [symmetric] live_families_def by (simp add: distinct_map_filter)
  have known: "family_known cfg c'" if "c' \<in> set (c # cs)" for c'
    using that assms live(1) by (auto simp: recoverable_def)
  have mem: "c' \<in> set (vset_families vs) \<and> \<not> cfd_dropped c'" if "c' \<in> set (c # cs)" for c'
    using that unfolding live(1) [symmetric] live_families_def by simp
  have rest: "\<forall>c' \<in> set cs. version_fits c' \<and> \<not> cfd_dropped c' \<and> cfd_id c' \<noteq> 0 \<and>
      options_for cfg (cfd_name c') = Some (cfd_options c') \<and> curr_logs vs (cfd_id c') = Some (cfd_log_number c')"
  proof
    fix c' assume m: "c' \<in> set cs"
    then have "cfd_id c' \<noteq> 0" using ids live(2) by (auto simp: image_iff)
    moreover have "c' \<in> set (vset_families vs)" "\<not> cfd_dropped c'"
      using mem [of c'] m by simp_all
    ultimately show "version_fits c' \<and> \<not> cfd_dropped c' \<and> cfd_id c' \<noteq> 0 \<and>
        options_for cfg (cfd_name c') = Some (cfd_options c') \<and> curr_logs vs (cfd_id c') = Some (cfd_log_number c')"
      using known [of c'] m assms curr_logs_family by (simp add: family_known_def recoverable_def)
  qed
  have c: "c \<in> set (vset_families vs)" "\<not> cfd_dropped c" "version_fits c"
    "cfd_name c = kDefaultColumnFamilyName" "name_to_options cfg kDefaultColumnFamilyName = Some (cfd_options c)"
    using mem [of c] known [of c] live(2) by (simp_all add: family_known_def)
  let ?ms0 = "\<lparr>ms_families = [blank_family c], ms_wals = [], ms_logged = False,
    ms_next_file = None, ms_last_sequence = None\<rparr>"
  have start: "spec_start cfg = Some ?ms0"
    using c(4,5) live(2) by (simp add: spec_start_def blank_family_def abs_family_def)
  let ?e1 = "SetDBId (vset_db_id vs) (NewVersionEdit garbage)"
  have e1: "spec_manifest_edit cfg ?e1 ?ms0 = Some ?ms0"
    using spec_same [of ?e1 ?ms0 "blank_family c" cfg] live(2)
    by (simp add: spec_family_def SetDBId_def comparator_fits_def spec_counters_def)
  let ?e2 = "wal_edit garbage (vset_wals vs)" and ?ms1 = "?ms0\<lparr>ms_wals := vset_wals vs\<rparr>"
  have e2: "ve_wal_additions ?e2 = [] \<longleftrightarrow> vset_wals vs = []"
    "vset_wals vs \<noteq> [] \<Longrightarrow> spec_manifest_edit cfg ?e2 ?ms0 = Some ?ms1"
  proof -
    have f: "ve_wal_additions ?e2 = map (\<lambda>(n, sz). \<lparr>wa_number = n, wa_synced_size_bytes = sz\<rparr>) (vset_wals vs)"
      "\<not> ve_is_column_family_add ?e2" "\<not> ve_is_column_family_drop ?e2" "\<not> ve_has_comparator ?e2"
      "\<not> ve_has_log_number ?e2" "spec_counters ?e2 = id"
      by (simp_all add: wal_edit_def fold_AddWal spec_counters_def fun_eq_iff)
    show "ve_wal_additions ?e2 = [] \<longleftrightarrow> vset_wals vs = []" by (simp add: f)
    assume "vset_wals vs \<noteq> []"
    then have "IsWalAddition ?e2" by (simp add: IsWalAddition_def f)
    moreover have "AddWals (ve_wal_additions ?e2) [] = (StatusOK, vset_wals vs)"
      using AddWals_rebuild [of "[]"] assms by (simp add: f recoverable_def)
    ultimately show "spec_manifest_edit cfg ?e2 ?ms0 = Some ?ms1"
      using f by (simp add: spec_manifest_edit_def spec_wals_def)
  qed
  let ?e3 = "SnapshotFamily garbage c" and ?ms2 = "?ms1\<lparr>ms_families := map abs_family ([] @ [c]), ms_logged := True\<rparr>"
  have e3: "spec_manifest_edit cfg ?e3 ?ms1 = Some ?ms1"
    using spec_same [of ?e3 ?ms1 "blank_family c" cfg] live(2)
    unfolding SnapshotFamily_edit by (simp add: spec_family_def comparator_fits_def spec_counters_def)
  have e4: "spec_manifest_edit cfg (SnapshotFiles garbage (cfd_log_number c) c) ?ms1 = Some ?ms2"
    using spec_SnapshotFiles [OF c(3), of ?ms1 "[]" cfg garbage] by simp
  let ?whole = "?ms2\<lparr>ms_families := map abs_family ([c] @ cs)\<rparr>"
  have e5: "spec_manifest cfg (concat (map (family_edits garbage (curr_logs vs)) cs)) ?ms2 = Some ?whole"
    using ids by (intro spec_family_edits [OF rest]) simp_all
  have first: "family_edits garbage (curr_logs vs) c = [?e3, SnapshotFiles garbage (cfd_log_number c) c]"
    using c(1,2) curr_logs_family assms by (simp add: family_edits_def recoverable_def)
  have skip: "concat (map (family_edits garbage (curr_logs vs)) cs) =
      concat (map (family_edits garbage (curr_logs vs)) (filter (\<lambda>c. \<not> cfd_dropped c) cs))" for cs
    by (induction cs) (simp_all add: family_edits_def)
  have all: "concat (map (family_edits garbage (curr_logs vs)) (vset_families vs)) =
      family_edits garbage (curr_logs vs) c @ concat (map (family_edits garbage (curr_logs vs)) cs)"
    using live(1) unfolding skip [of "vset_families vs"] live_families_def by simp
  have "spec_manifest cfg (snapshot_edits opts garbage vs (curr_logs vs) ?e2) ?ms0 = Some ?whole"
  proof -
    have "spec_manifest cfg (if db_write_dbid_to_manifest opts then [?e1] else []) ?ms0 = Some ?ms0"
      using e1 by simp
    moreover have "spec_manifest cfg (if ve_wal_additions ?e2 \<noteq> [] then [?e2] else []) ?ms0 = Some ?ms1"
      using e2 by (cases "vset_wals vs = []") simp_all
    moreover have "spec_manifest cfg [?e3, SnapshotFiles garbage (cfd_log_number c) c] ?ms1 = Some ?ms2"
      using e3 e4 by simp
    ultimately show ?thesis
      unfolding snapshot_edits_def all first using e5
      by (simp only: spec_manifest_append Option.bind.bind_lunit)
  qed
  moreover have "snapshot_spec vs ?whole" using live(1) by (simp add: snapshot_spec_def)
  ultimately show ?thesis using start by blast
qed

end
