(* ===== verification/Manifest_Commit.thy ===== *)
theory Manifest_Commit
  imports Manifest_Snapshot
begin

text \<open>
  Committing an edit with a new manifest (\<open>ProcessManifestWrites\<close>) and recovering from it
  (\<open>Recover\<close>): what comes back are the families, files, logs and counters that the writer installed,
  but only the keys and secrets of the last edit.
\<close>

section \<open>A version is determined by its files\<close>

lemma same_levels:
  assumes "comparator icmp" and "version_ok icmp v" and "version_ok icmp v'"
    and "length (vs_files v) = length (vs_files v')" and "version_files v = version_files v'"
  shows "vs_files v = vs_files v'"
proof (rule nth_equalityI [OF assms(4)])
  fix l assume l: "l < length (vs_files v)"
  let ?lt = "FileComparator icmp l"
  have loc: "locations_ok v" "locations_ok v'" and l': "l < length (vs_files v')"
    using assms(2-4) l by (simp_all add: version_ok_def)
  have "f \<in> set (vs_files v ! l) \<longleftrightarrow> f \<in> set (vs_files v' ! l)" for f
    using version_files_iff [OF loc(1), of "file_number f" l f] version_files_iff [OF loc(2), of "file_number f" l f]
      assms(5) l l' by simp
  then have s: "set (vs_files v ! l) = set (vs_files v' ! l)" by blast
  have d: "distinct (map file_number (vs_files v ! l))" "distinct (map file_number (vs_files v' ! l))"
    using locations_distinct loc l l' by blast+
  then have "distinct (vs_files v ! l)" "distinct (vs_files v' ! l)" by (simp_all add: distinct_map)
  then have m: "mset (vs_files v ! l) = mset (vs_files v' ! l)" using s set_eq_iff_mset_eq_distinct by blast
  have sorted: "sorted_wrt (\<lambda>f g. \<not> ?lt g f) (vs_files v ! l)" "sorted_wrt (\<lambda>f g. \<not> ?lt g f) (vs_files v' ! l)"
    using assms(2,3) l l' file_order.strict_weak [OF file_comparator_order [OF assms(1)]]
    unfolding version_ok_def by blast+
  note unique = file_order.std_sort_unique [OF file_comparator_order [OF assms(1)]]
  show "vs_files v ! l = vs_files v' ! l"
    using unique [OF m sorted(1) d(2)] unique [OF refl sorted(2) d(2)] by simp
qed

section \<open>What the writer does\<close>

text \<open>The edit that is written into the manifest.\<close>

definition helped_edit :: "db_options \<Rightarrow> VersionSet \<Rightarrow> VersionEdit \<Rightarrow> VersionEdit" where
  "helped_edit opts vs e =
     SetLastSequence (writer_last_sequence opts vs) (SetNextFile (vset_next_file_number vs)
       (if \<not> ve_has_prev_log_number e then SetPrevLogNumber (vset_prev_log_number vs) e else e))"

definition committed_edit :: "db_options \<Rightarrow> VersionSet \<Rightarrow> VersionEdit \<Rightarrow> VersionEdit" where
  "committed_edit opts vs e =
     (let e = SetNextFile (vset_next_file_number vs + 1) (helped_edit opts vs e)
      in if vset_max_column_family vs > 0 then SetMaxColumnFamily (vset_max_column_family vs) e else e)"

text \<open>An edit of a family: not about families or logs, and not part of an atomic group.\<close>

definition file_edit :: "VersionEdit \<Rightarrow> bool" where
  "file_edit e \<longleftrightarrow>
     \<not> ve_is_column_family_add e \<and> \<not> ve_is_column_family_drop e \<and> ve_wal_additions e = [] \<and>
     ve_wal_deletion e = 0 \<and> \<not> ve_is_in_atomic_group e"

definition all_well :: "manifest_io \<Rightarrow> bool" where
  "all_well io \<longleftrightarrow> mio_load_tables io = [] \<and> mio_new_file io = StatusOK \<and> mio_new_dest io = [] \<and>
     mio_sync io = StatusOK \<and> mio_set_current io = StatusOK"

text \<open>What the snapshot is taken of: the state with the next file number and the number of the new manifest.\<close>

definition numbered :: "VersionSet \<Rightarrow> VersionSet" where
  "numbered vs = vs\<lparr>vset_next_file_number := vset_next_file_number vs + 1,
     vset_pending_manifest_file_number := vset_next_file_number vs\<rparr>"

definition committed_edits :: "db_options \<Rightarrow> VersionEdit \<Rightarrow> VersionSet \<Rightarrow> VersionEdit \<Rightarrow> VersionEdit list" where
  "committed_edits opts garbage vs e =
     snapshot_edits opts garbage vs (curr_logs vs) (wal_edit garbage (vset_wals vs)) @ [committed_edit opts vs e]"

lemma committed_edit_frame [simp]:
  "ve_column_family (committed_edit opts vs e) = ve_column_family e"
  "ve_is_column_family_add (committed_edit opts vs e) = ve_is_column_family_add e"
  "ve_is_column_family_drop (committed_edit opts vs e) = ve_is_column_family_drop e"
  "ve_wal_additions (committed_edit opts vs e) = ve_wal_additions e"
  "ve_wal_deletion (committed_edit opts vs e) = ve_wal_deletion e"
  "ve_is_in_atomic_group (committed_edit opts vs e) = ve_is_in_atomic_group e"
  "ve_has_log_number (committed_edit opts vs e) = ve_has_log_number e"
  "ve_log_number (committed_edit opts vs e) = ve_log_number e"
  "ve_has_comparator (committed_edit opts vs e) = ve_has_comparator e"
  "ve_comparator (committed_edit opts vs e) = ve_comparator e"
  "ve_new_files (committed_edit opts vs e) = ve_new_files e"
  "ve_deleted_files (committed_edit opts vs e) = ve_deleted_files e"
  "ve_blob_file_additions (committed_edit opts vs e) = ve_blob_file_additions e"
  "ve_blob_file_garbages (committed_edit opts vs e) = ve_blob_file_garbages e"
  "ve_has_min_log_number_to_keep (committed_edit opts vs e) = ve_has_min_log_number_to_keep e"
  "ve_min_log_number_to_keep (committed_edit opts vs e) = ve_min_log_number_to_keep e"
  "ve_has_next_file_number (committed_edit opts vs e)" "ve_has_last_sequence (committed_edit opts vs e)"
  "ve_next_file_number (committed_edit opts vs e) = vset_next_file_number vs + 1"
  "ve_last_sequence (committed_edit opts vs e) = writer_last_sequence opts vs"
  by (simp_all add: committed_edit_def helped_edit_def Let_def SetPrevLogNumber_def SetNextFile_def SetLastSequence_def
      SetMaxColumnFamily_def)


text \<open>The family that the edit changes, before and after.\<close>

definition edited_family :: "VersionEdit \<Rightarrow> ColumnFamilyData \<Rightarrow> lsm \<Rightarrow> bool" where
  "edited_family e c p \<longleftrightarrow>
     cfd_id c = ve_column_family e \<and> \<not> cfd_dropped c \<and> version_fits c \<and>
     CheckConsistency (cfd_icmp c) (co_num_levels (cfd_options c)) (cfd_current c) = StatusOK \<and>
     levels_in_range (co_num_levels (cfd_options c)) e \<and> comparator_fits e (cfd_options c) \<and>
     spec_edit e (version_files (cfd_current c), fst ` set (vs_blob_files (cfd_current c))) = Some p \<and>
     (ve_has_log_number e \<longrightarrow> cfd_log_number c \<le> ve_log_number e) \<and>
     consistent_family (spec_change e p (abs_family c))"

definition family_after :: "VersionEdit \<Rightarrow> VersionStorageInfo \<Rightarrow> ColumnFamilyData \<Rightarrow> ColumnFamilyData" where
  "family_after e v c =
     (if cfd_id c = ve_column_family e
      then c\<lparr>cfd_log_number := (if ve_has_log_number e then ve_log_number e else cfd_log_number c),
             cfd_current := v\<rparr>
      else c)"

definition waiting :: "VersionEdit \<Rightarrow> ManifestWriter" where
  "waiting e = \<lparr>mw_address = 0, mw_cfd = Some (ve_column_family e), mw_edit_list = [e]\<rparr>"

lemma find_family_live:
  assumes "distinct (map cfd_id (vset_families vs))" and "c \<in> set (vset_families vs)"
  shows "find_family (Some (cfd_id c)) vs = Ok c"
proof -
  have "find (\<lambda>cfd. cfd_id cfd = cfd_id c) cs = Some c" if "distinct (map cfd_id cs)" "c \<in> set cs" for cs
    using that by (induction cs) (auto simp: image_iff)
  then show ?thesis using assms by (simp add: find_family_def)
qed

lemma CollectBatch_single:
  assumes "file_edit e" and "edited_family e c p" and "distinct (map cfd_id (vset_families vs))"
    and "c \<in> set (vset_families vs)"
  shows "\<exists>v mb. CollectBatch opts vs [waiting e] = Ok (StatusOK, mb, [(ve_column_family e, v)]) \<and>
    mb_edits mb = [helped_edit opts vs e] \<and> mb_taken mb = 1 \<and> saved_family (spec_change e p (abs_family c)) v"
proof -
  note ef = assms(2) [unfolded edited_family_def]
  let ?icmp = "cfd_icmp c" and ?base = "cfd_current c"
  let ?levels = "co_num_levels (cfd_options c)" and ?force = "co_force_consistency_checks (cfd_options c)"
  have fits: "version_ok ?icmp ?base" "length (vs_files ?base) = ?levels" "comparator ?icmp"
    using ef by (simp_all add: version_fits_def consistent_family_def)
  note new = NewVersionBuilder_ok [OF fits(1)]
  have base: "vb_base (NewVersionBuilder ?base) = ?base" by (simp add: NewVersionBuilder_def)
  have "refines ?base (BuilderApply ?icmp e) (spec_edit e)"
    using ef fits(2) by (intro BuilderApply_refines) simp_all
  then obtain b where b: "BuilderApply ?icmp e (NewVersionBuilder ?base) = Ok (StatusOK, b)" "builder_ok b"
    "vb_base b = ?base" "builder_lsm b = p"
    using refinesD [OF _ new(1) base] ef unfolding new(2) by metis
  have levels: "num_levels b = ?levels" using builder_okD(2) [OF b(2)] b(3) fits(2) by simp
  obtain v where v: "SaveTo ?icmp b (NewVersionStorageInfo ?levels ?force) =
      Ok (CheckConsistency ?icmp ?levels v, v)" "version_ok ?icmp v" "length (vs_files v) = ?levels"
    "vs_force_consistency_checks v = ?force" "version_files v = builder_files b"
    "fst ` set (vs_blob_files v) \<subseteq> builder_blobs b"
    using SaveTo_saves [OF fits(3) b(2), of ?force] ef fits(1) b(3) unfolding levels by auto
  have saved: "saved_family (spec_change e p (abs_family c)) v"
    using v b(4) [symmetric] by (simp add: saved_family_def builder_lsm_def)
  then have ok: "CheckConsistency ?icmp ?levels v = StatusOK"
    using ef unfolding consistent_family_def by simp
  have wal: "\<not> IsAllWalEdits (waiting e)"
    using assms(1) by (auto simp: IsAllWalEdits_def waiting_def IsWalManipulation_def file_edit_def WalDeletionIsEmpty_def)
  have find: "find_family (Some (ve_column_family e)) vs = Ok c"
    using find_family_live [OF assms(3,4)] ef by simp
  have first: "first_edit (waiting e) = Ok e" by (simp add: first_edit_def waiting_def)
  let ?e0 = "if \<not> ve_has_prev_log_number e then SetPrevLogNumber (vset_prev_log_number vs) e else e"
  have same: "BuilderApply ?icmp (helped_edit opts vs e) b0 = BuilderApply ?icmp e b0" for b0
    by (simp add: BuilderApply_def helped_edit_def SetLastSequence_def SetNextFile_def SetPrevLogNumber_def)
  have helper: "LogAndApplyHelper opts vs ?icmp (Some b0) e =
      obind (BuilderApply ?icmp e b0) (\<lambda>(s, b). Ok (s, Some b, helped_edit opts vs e))" for b0
    unfolding LogAndApplyHelper_def Let_def helped_edit_def [symmetric] by (simp add: same)
  let ?mb = "\<lparr>mb_edits = [], mb_builders = [], mb_group_start = None, mb_taken = 0\<rparr>"
  define mb where "mb = \<lparr>mb_edits = [helped_edit opts vs e], mb_builders = [(ve_column_family e, b)],
    mb_group_start = None, mb_taken = 1\<rparr>"
  have id: "cfd_id c = ve_column_family e" "\<not> cfd_dropped c" using ef by simp_all
  have "next_group_start e (?mb\<lparr>mb_taken := 1\<rparr>) = None"
    using assms(1) by (simp add: next_group_start_def file_edit_def)
  then have "BatchWriter opts vs c (waiting e) (?mb\<lparr>mb_taken := 1\<rparr>) = Ok (StatusOK, mb)"
    using wal b(1) id by (simp add: BatchWriter_def helper mb_def) (simp add: waiting_def helper)
  then have mb: "BatchWriters opts vs [waiting e] ?mb = Ok (StatusOK, mb)"
    "mb_edits mb = [helped_edit opts vs e]" "mb_taken mb = 1" "mb_builders mb = [(ve_column_family e, b)]"
    using assms(1) first find id
    by (simp_all add: IsColumnFamilyManipulation_def file_edit_def sbind_def mb_def) (simp add: waiting_def sbind_def)
  have "SaveVersions vs (mb_builders mb) = Ok (StatusOK, [(ve_column_family e, v)])"
    using find v(1) ok mb(4) by (simp add: NewVersion_def)
  then show ?thesis
    using assms(1) first mb saved
    by (simp add: CollectBatch_def IsColumnFamilyManipulation_def file_edit_def)
qed


text \<open>The commit as a whole.\<close>

definition commit_possible ::
    "db_options \<Rightarrow> VersionEdit \<Rightarrow> VersionSet \<Rightarrow> VersionEdit \<Rightarrow> ColumnFamilyData \<Rightarrow> lsm \<Rightarrow> bool" where
  "commit_possible opts garbage vs e c p \<longleftrightarrow>
     file_edit e \<and> edited_family e c p \<and> distinct (map cfd_id (vset_families vs)) \<and>
     c \<in> set (vset_families vs) \<and> (\<forall>e' \<in> set (committed_edits opts garbage vs e). edit_ok garbage e')"

lemma snapshot_edits_numbered [simp]:
  "snapshot_edits opts garbage (numbered vs) cs w = snapshot_edits opts garbage vs cs w"
  "vset_families (numbered vs) = vset_families vs" "vset_wals (numbered vs) = vset_wals vs"
  "vset_next_file_number (numbered vs) = vset_next_file_number vs + 1"
  "vset_max_column_family (numbered vs) = vset_max_column_family vs"
  by (simp_all add: numbered_def snapshot_edits_def)

lemma StartManifest_single:
  "StartManifest garbage True [helped_edit opts vs e] vs =
   Ok ([committed_edit opts vs e], curr_logs vs, wal_edit garbage (vset_wals vs), numbered vs)"
  by (simp add: StartManifest_def NewFileNumber_def Let_def committed_edit_def curr_logs_def wal_edit_def
      numbered_def)

lemma WriteManifest_single:
  assumes "openssl_ok ssl" and "32 \<le> length (mio_manifest_key io)" and "16 \<le> length (mio_manifest_hash io)"
    and "all_well io" and "\<forall>e' \<in> set (committed_edits opts garbage vs e). edit_ok garbage e'"
    and "distinct (map cfd_id (vset_families vs))"
  shows "\<exists>w. WriteManifest ssl opts io garbage True False True [helped_edit opts vs e] versions vs =
      Ok (StatusOK, StatusOK, [committed_edit opts vs e], (numbered vs)\<lparr>vset_descriptor_log := Some w\<rparr>) \<and>
    manifest_log ssl (mio_manifest_key io) (mio_manifest_hash io) (committed_edits opts garbage vs e) (dest w)"
proof -
  let ?mk = "mio_manifest_key io" and ?mh = "mio_manifest_hash io"
  let ?snap = "snapshot_edits opts garbage vs (curr_logs vs) (wal_edit garbage (vset_wals vs))"
  obtain w0 where w0: "NewWriter 0 False False True ?mk ?mh (1, []) (1, []) = Ok w0" "writer_ok w0"
    "w0\<lparr>dest_io := []\<rparr> = w0"
    using assms(2,3) by (simp add: NewWriter_def writer_ok_def Let_def)
  obtain w1 where w1: "AddEditRecords ssl ?snap w0 = Ok (StatusOK, StatusOK, w1)" "writer_ok w1"
    using AddEditRecords_written [OF assms(1) w0(2), of ?snap] assms(5) by (auto simp: committed_edits_def)
  obtain w2 where w2: "AddEditRecords ssl [committed_edit opts vs e] w1 = Ok (StatusOK, StatusOK, w2)"
    using AddEditRecords_written [OF assms(1) w1(2), of "[committed_edit opts vs e]"] assms(5)
    by (auto simp: committed_edits_def simp del: AddEditRecords.simps)
  have "\<forall>c \<in> set (vset_families vs). curr_logs vs (cfd_id c) \<noteq> None"
    using curr_logs_family [OF assms(6)] by auto
  then have "WriteCurrentStateToManifest ssl opts garbage (numbered vs) (curr_logs vs)
      (wal_edit garbage (vset_wals vs)) w0 = Ok (StatusOK, StatusOK, w1)"
    using WriteCurrentStateToManifest_edits [of "numbered vs"] w1(1) by simp
  then have "OpenManifest ssl opts io garbage (curr_logs vs) (wal_edit garbage (vset_wals vs)) (numbered vs) =
      Ok (StatusOK, StatusOK, (numbered vs)\<lparr>vset_descriptor_log := Some w1\<rparr>)"
    using assms(4) w0 by (simp add: OpenManifest_def all_well_def)
  moreover have "WriteBatchRecords ssl io [committed_edit opts vs e] ((numbered vs)\<lparr>vset_descriptor_log := Some w1\<rparr>) =
      Ok (StatusOK, StatusOK, (numbered vs)\<lparr>vset_descriptor_log := Some w2\<rparr>)"
    using assms(4) w2 by (simp add: WriteBatchRecords_def all_well_def Let_def del: AddEditRecords.simps)
  moreover have "LoadVersions opts (mio_load_tables io) versions = StatusOK"
    using assms(4) by (cases versions) (simp_all add: all_well_def)
  ultimately have "WriteManifest ssl opts io garbage True False True [helped_edit opts vs e] versions vs =
      Ok (StatusOK, StatusOK, [committed_edit opts vs e], (numbered vs)\<lparr>vset_descriptor_log := Some w2\<rparr>)"
    using assms(4) by (simp add: WriteManifest_def StartManifest_single all_well_def)
  moreover have "AddEditRecords ssl (committed_edits opts garbage vs e) w0 = Ok (StatusOK, StatusOK, w2)"
    unfolding committed_edits_def AddEditRecords_append using w1(1) w2 by simp
  ultimately show ?thesis using w0(1) unfolding manifest_log_def by blast
qed

lemma upd_family_distinct:
  assumes "distinct (map cfd_id (vset_families vs))" and "c \<in> set (vset_families vs)" and "\<not> cfd_dropped c"
    and "cfd_id c = n"
  shows "vset_families (upd_family n f vs) = map (\<lambda>c. if cfd_id c = n then f c else c) (vset_families vs)"
proof -
  have "c' = c" if "c' \<in> set (vset_families vs)" "cfd_id c' = n" for c'
    using that assms unfolding distinct_map by (metis inj_onD)
  then show ?thesis using assms(3) by (auto simp: upd_family_def)
qed


lemma InstallBatch_single:
  assumes "file_edit e" and "edited_family e c p" and "distinct (map cfd_id (vset_families vs))"
    and "c \<in> set (vset_families vs)"
  shows "\<exists>vs'. InstallBatch True None (waiting e) (committed_edit opts vs0 e) [committed_edit opts vs0 e]
      [(ve_column_family e, v)] vs = Ok vs' \<and>
    vset_families vs' = map (family_after e v) (vset_families vs) \<and> vset_wals vs' = vset_wals vs \<and>
    vset_descriptor_log vs' = vset_descriptor_log vs \<and> vset_next_file_number vs' = vset_next_file_number vs"
proof -
  let ?n = "ve_column_family e" and ?e = "committed_edit opts vs0 e"
  note ef = assms(2) [unfolded edited_family_def]
  have c: "\<not> cfd_dropped c" "cfd_id c = ?n" using ef by simp_all
  let ?m = "batch_log_number [?e] ?n" and ?k = "batch_min_log_number [?e]"
  let ?vs1 = "vs\<lparr>vset_obsolete_manifests := vset_obsolete_manifests vs @ [vset_manifest_file_number vs]\<rparr>"
  let ?vs2 = "if ?m \<noteq> 0 then CfdSetLogNumber ?n ?m ?vs1 else ?vs1"
  let ?vs3 = "if ?k \<noteq> 0 then MarkMinLogNumberToKeep2PC ?k ?vs2 else ?vs2"
  let ?vs4 = "AppendVersion ?n v ?vs3"
  have m: "?m = (if ve_has_log_number e then ve_log_number e else 0)" by (simp add: batch_log_number_def)
  have mark: "vset_families (if P then MarkMinLogNumberToKeep2PC k vs else vs) = vset_families vs" for P k vs
    by (simp add: MarkMinLogNumberToKeep2PC_def)
  have f2: "vset_families ?vs2 = map (\<lambda>c. if cfd_id c = ?n
      then c\<lparr>cfd_log_number := (if ve_has_log_number e then ve_log_number e else cfd_log_number c)\<rparr> else c)
      (vset_families vs)"
  proof (cases "?m = 0")
    case True
    have "cfd_log_number c' = (if ve_has_log_number e then ve_log_number e else cfd_log_number c')"
      if "c' \<in> set (vset_families vs)" "cfd_id c' = ?n" for c'
    proof -
      have "c' = c" using that assms(3,4) c(2) unfolding distinct_map by (metis inj_onD)
      then show ?thesis using ef True m by auto
    qed
    then show ?thesis using True by (auto intro!: map_idI [symmetric])
  next
    case False
    then have "ve_has_log_number e" "?m = ve_log_number e" using m by (simp_all split: if_split_asm)
    then show ?thesis
      using upd_family_distinct [of ?vs1, OF _ _ c] assms(3,4) False by (simp add: CfdSetLogNumber_def)
  qed
  have "vset_families ?vs4 = map (\<lambda>c. if cfd_id c = ?n then c\<lparr>cfd_current := v\<rparr> else c) (vset_families ?vs3)"
  proof -
    let ?c = "c\<lparr>cfd_log_number := (if ve_has_log_number e then ve_log_number e else cfd_log_number c)\<rparr>"
    have "?c \<in> set (vset_families ?vs3)" unfolding mark f2 using assms(4) c(2) by (auto intro!: image_eqI [of _ _ c])
    moreover have "map cfd_id (vset_families ?vs3) = map cfd_id (vset_families vs)" unfolding mark f2 by simp
    ultimately show ?thesis unfolding AppendVersion_def
      using upd_family_distinct [of ?vs3 ?c] assms(3) c by simp
  qed
  also have "\<dots> = map (family_after e v) (vset_families vs)"
    unfolding mark f2 by (auto simp: family_after_def)
  finally have fams: "vset_families ?vs4 = map (family_after e v) (vset_families vs)" .
  have frame: "vset_wals ?vs4 = vset_wals vs" "vset_descriptor_log ?vs4 = vset_descriptor_log vs"
    "vset_next_file_number ?vs4 = vset_next_file_number vs"
    by (simp_all add: AppendVersion_def upd_family_def MarkMinLogNumberToKeep2PC_def CfdSetLogNumber_def)
  have "InstallVersions [?e] [(?n, v)] ?vs1 = ?vs4" by (simp add: InstallVersions_def Let_def)
  then show ?thesis
    using assms(1) fams frame by (simp add: InstallBatch_def file_edit_def Let_def)
qed

lemma Process_single:
  assumes "openssl_ok ssl" and "32 \<le> length (mio_manifest_key io)" and "16 \<le> length (mio_manifest_hash io)"
    and "all_well io" and "commit_possible opts garbage vs e c p" and "NeedNewManifest opts new_descriptor_log vs"
  shows "\<exists>vs' v w. ProcessManifestWrites ssl opts io garbage new_descriptor_log None [waiting e] vs =
      Ok (StatusOK, [], vs') \<and>
    vset_families vs' = map (family_after e v) (vset_families vs) \<and> vset_wals vs' = vset_wals vs \<and>
    vset_descriptor_log vs' = Some w \<and> vset_next_file_number vs' = vset_next_file_number vs + 1 \<and>
    saved_family (spec_change e p (abs_family c)) v \<and>
    manifest_log ssl (mio_manifest_key io) (mio_manifest_hash io) (committed_edits opts garbage vs e) (dest w)"
proof -
  note possible = assms(5) [unfolded commit_possible_def]
  obtain v mb where cb: "CollectBatch opts vs [waiting e] = Ok (StatusOK, mb, [(ve_column_family e, v)])"
    "mb_edits mb = [helped_edit opts vs e]" "mb_taken mb = 1" "saved_family (spec_change e p (abs_family c)) v"
    using CollectBatch_single [of e c p vs opts] possible by blast
  obtain w where w: "WriteManifest ssl opts io garbage True False True [helped_edit opts vs e]
      [(ve_column_family e, v)] vs =
      Ok (StatusOK, StatusOK, [committed_edit opts vs e], (numbered vs)\<lparr>vset_descriptor_log := Some w\<rparr>)"
    "manifest_log ssl (mio_manifest_key io) (mio_manifest_hash io) (committed_edits opts garbage vs e) (dest w)"
    using WriteManifest_single [OF assms(1-4)] possible by blast
  let ?vs = "(numbered vs)\<lparr>vset_descriptor_log := Some w, vset_io_status := StatusOK\<rparr>"
  obtain vs' where vs': "InstallBatch True None (waiting e) (committed_edit opts vs e) [committed_edit opts vs e]
      [(ve_column_family e, v)] ?vs = Ok vs'" "vset_families vs' = map (family_after e v) (vset_families vs)"
    "vset_wals vs' = vset_wals vs" "vset_descriptor_log vs' = Some w"
    "vset_next_file_number vs' = vset_next_file_number vs + 1"
    using InstallBatch_single [of e c p ?vs opts vs v] possible by auto
  have dropped: "find_family (mw_cfd (waiting e)) vs = Ok c" "\<not> cfd_dropped c"
    using find_family_live [of vs c] possible by (auto simp: waiting_def edited_family_def)
  have "first_edit (waiting e) = Ok e" by (simp add: first_edit_def waiting_def)
  then have "ProcessManifestWrites ssl opts io garbage new_descriptor_log None [waiting e] vs =
      Ok (StatusOK, [], vs'\<lparr>vset_pending_manifest_file_number := 0\<rparr>)"
    using cb w(1) vs'(1) dropped assms(6) possible
    by (simp add: ProcessManifestWrites_def Let_def IsColumnFamilyManipulation_def file_edit_def
        IsWalAddition_def IsWalDeletion_def WalDeletionIsEmpty_def)
  then show ?thesis using vs' cb(4) w(2)
    by (intro exI [of _ "vs'\<lparr>vset_pending_manifest_file_number := 0\<rparr>"] exI [of _ v] exI [of _ w]) simp
qed


section \<open>What is recovered\<close>

definition same_family :: "ColumnFamilyData \<Rightarrow> ColumnFamilyData \<Rightarrow> bool" where
  "same_family c c' \<longleftrightarrow>
     cfd_id c' = cfd_id c \<and> cfd_name c' = cfd_name c \<and> cfd_options c' = cfd_options c \<and>
     cfd_log_number c' = cfd_log_number c \<and> \<not> cfd_dropped c' \<and>
     vs_files (cfd_current c') = vs_files (cfd_current c)"

lemma recovered_same:
  assumes "recovered_family f c'" and "consistent_family f" and "saved_family f v"
    and "cfd_id c = fs_id f" and "cfd_name c = fs_name f" and "cfd_options c = fs_options f"
    and "cfd_log_number c = fs_log_number f" and "cfd_current c = v"
  shows "same_family c c'"
proof -
  have c': "c' = (shown f)\<lparr>cfd_current := cfd_current c'\<rparr>" "saved_family f (cfd_current c')"
    using assms(1) by (simp_all add: recovered_family_def)
  have "vs_files (cfd_current c') = vs_files v"
    using c'(2) assms(2,3) unfolding saved_family_def consistent_family_def by (intro same_levels) auto
  then show ?thesis
    by (subst c'(1)) (simp add: same_family_def assms(4-8) shown_def)
qed

lemma abs_family_saved:
  assumes "version_fits c" and "vs_force_consistency_checks (cfd_current c) = co_force_consistency_checks (cfd_options c)"
  shows "saved_family (abs_family c) (cfd_current c)"
  using assms by (simp add: saved_family_def version_fits_def abs_family_def)

definition bare_edit :: "VersionEdit \<Rightarrow> bool" where
  "bare_edit e \<longleftrightarrow>
     \<not> ve_is_in_atomic_group e \<and> \<not> ve_is_log_secret e \<and> \<not> ve_is_sst_key e \<and> \<not> ve_is_sst_delete e"

lemma bare_snapshot:
  assumes "e \<in> set (snapshot_edits opts garbage vs curr_state (wal_edit garbage wals))"
  shows "bare_edit e"
proof -
  have "bare_edit (SetDBId d (NewVersionEdit garbage))" for d
    by (simp add: bare_edit_def SetDBId_def NewVersionEdit_def Clear_def)
  moreover have "bare_edit (wal_edit garbage wals)"
    unfolding wal_edit_def fold_AddWal by (simp add: bare_edit_def NewVersionEdit_def Clear_def)
  moreover have "bare_edit (SnapshotFamily garbage c)" for c
    unfolding SnapshotFamily_edit by (simp add: bare_edit_def NewVersionEdit_def Clear_def)
  moreover have "bare_edit (SnapshotFiles garbage n c)" for n c
    unfolding SnapshotFiles_edit by (simp add: bare_edit_def NewVersionEdit_def Clear_def)
  ultimately show ?thesis
    using assms by (auto simp: snapshot_edits_def family_edits_def split: if_split_asm)
qed

lemma snapshot_no_secrets:
  "fold collect (snapshot_edits opts garbage vs curr_state (wal_edit garbage wals)) x = x"
proof -
  have "fold collect es x = x" if "\<forall>e \<in> set es. bare_edit e" for es
    using that by (induction es arbitrary: x) (auto simp: collect_def bare_edit_def Let_def)
  then show ?thesis using bare_snapshot by blast
qed

lemma collect_same:
  "collect (decoded e) = collect e" "collect (committed_edit opts vs e) = collect e"
  unfolding collect_def [abs_def] by (simp_all add: decoded_def committed_edit_def helped_edit_def Let_def
      SetPrevLogNumber_def SetNextFile_def SetLastSequence_def SetMaxColumnFamily_def cong: if_cong)

text \<open>The specification of the whole new manifest.\<close>

lemma committed_specified:
  assumes "recoverable cfg vs" and "commit_possible opts garbage vs e c p"
  shows "\<exists>ms0 ms. spec_start cfg = Some ms0 \<and>
    spec_manifest cfg (committed_edits opts garbage vs e) ms0 = Some ms \<and>
    ms_families ms = map (\<lambda>f. if fs_id f = ve_column_family e then spec_change e p f else f)
      (map abs_family (live_families vs)) \<and>
    ms_wals ms = vset_wals vs \<and> counters_known ms (vset_next_file_number vs + 1) (writer_last_sequence opts vs)"
proof -
  let ?n = "ve_column_family e" and ?e = "committed_edit opts vs e"
  note possible = assms(2) [unfolded commit_possible_def] 
  note ef = possible [THEN conjunct2, THEN conjunct1, unfolded edited_family_def]
  obtain ms0 ms where ms: "spec_start cfg = Some ms0" "snapshot_spec vs ms"
    "spec_manifest cfg (snapshot_edits opts garbage vs (curr_logs vs) (wal_edit garbage (vset_wals vs))) ms0 = Some ms"
    using snapshot_specified [OF assms(1)] by blast
  have live: "c \<in> set (live_families vs)" using possible ef by (simp add: live_families_def)
  have ids: "distinct (map cfd_id (live_families vs))"
    using possible by (simp add: live_families_def distinct_map_filter)
  have "find (\<lambda>f. fs_id f = cfd_id c) (map abs_family cs) = Some (abs_family c)"
    if "distinct (map cfd_id cs)" "c \<in> set cs" for cs
    using that by (induction cs) (auto simp: image_iff)
  then have find: "spec_family ?n ms = Some (abs_family c)"
    using ms(2) live ids ef by (simp add: spec_family_def snapshot_spec_def)
  have spec: "spec_edit ?e = spec_edit e" by (simp add: spec_edit_def fun_eq_iff)
  have change: "spec_change ?e = spec_change e" "takes_log ?e = takes_log e"
    by (simp_all add: spec_change_def takes_log_def fun_eq_iff)
  let ?ms = "spec_counters ?e (ms\<lparr>ms_families := map (\<lambda>g. if fs_id g = ?n then spec_change e p g else g) (ms_families ms),
    ms_logged := ms_logged ms \<or> takes_log e (abs_family c)\<rparr>)"
  have "levels_in_range (co_num_levels (cfd_options c)) ?e" "comparator_fits ?e (cfd_options c)"
    using ef by (simp_all add: levels_in_range_def comparator_fits_def)
  moreover have "spec_edit e (fs_lsm (abs_family c)) = Some p" using ef by (simp add: abs_family_def)
  ultimately have "spec_manifest_edit cfg ?e ms = Some ?ms"
    using possible find spec change
    by (simp add: spec_manifest_edit_def spec_files_def file_edit_def IsWalAddition_def IsWalDeletion_def
        WalDeletionIsEmpty_def cong: if_cong)
  then have "spec_manifest cfg (committed_edits opts garbage vs e) ms0 = Some ?ms"
    using ms(3) by (simp add: committed_edits_def spec_manifest_append)
  moreover have "counters_known ?ms (vset_next_file_number vs + 1) (writer_last_sequence opts vs)"
    using ms(2) by (simp add: counters_known_def spec_counters_def snapshot_spec_def)
  ultimately show ?thesis using ms(1,2) by (auto simp: snapshot_spec_def)
qed

definition families_fit :: "VersionSet \<Rightarrow> bool" where
  "families_fit vs \<longleftrightarrow> (\<forall>c \<in> set (live_families vs).
     consistent_family (abs_family c) \<and>
     vs_force_consistency_checks (cfd_current c) = co_force_consistency_checks (cfd_options c))"

lemma after_same:
  assumes "commit_possible opts garbage vs e c p" and "recoverable cfg vs" and "families_fit vs"
    and "saved_family (spec_change e p (abs_family c)) v" and "c1 \<in> set (live_families vs)"
    and "recovered_family (if cfd_id c1 = ve_column_family e then spec_change e p (abs_family c1)
      else abs_family c1) c2"
  shows "same_family (family_after e v c1) c2"
proof -
  have c: "distinct (map cfd_id (vset_families vs))" "c \<in> set (vset_families vs)" "edited_family e c p"
    "c1 \<in> set (vset_families vs)"
    using assms(1,5) by (simp_all add: commit_possible_def live_families_def)
  have fit: "consistent_family (abs_family c1)" "version_fits c1"
    "vs_force_consistency_checks (cfd_current c1) = co_force_consistency_checks (cfd_options c1)"
    using assms(2,3,5) by (simp_all add: families_fit_def recoverable_def family_known_def)
  show ?thesis
  proof (cases "cfd_id c1 = ve_column_family e")
    case True
    moreover have "cfd_id c = ve_column_family e" using c(3) by (simp add: edited_family_def)
    ultimately have "c1 = c" using c unfolding distinct_map by (metis inj_onD)
    moreover have "takes_log e (abs_family c) = ve_has_log_number e"
      using c(3) by (auto simp: takes_log_def edited_family_def abs_family_def)
    ultimately show ?thesis
      using assms(4,6) c(3) True
      by (intro recovered_same [of "spec_change e p (abs_family c)" _ v])
        (auto simp: edited_family_def family_after_def spec_change_def abs_family_def)
  next
    case False
    then show ?thesis
      using assms(6) fit abs_family_saved [OF fit(2,3)]
      by (intro recovered_same [of "abs_family c1" _ "cfd_current c1"])
        (auto simp: family_after_def abs_family_def)
  qed
qed


lemma recover_config_frame [simp]:
  "recovering (recover_config cfg)" "recoverable (recover_config cfg) vs = recoverable cfg vs"
  "hf_load_tables (recover_config cfg) = hf_load_tables cfg"
  by (simp_all add: recover_config_def recovering_def recoverable_def family_known_def [abs_def]
      options_for_def name_to_options_def)

text \<open>The options of the handler that \<open>Recover\<close> sets do not matter to the specification.\<close>

lemma recover_config_spec [simp]:
  "name_to_options (recover_config cfg) = name_to_options cfg"
  "options_for (recover_config cfg) = options_for cfg"
  "spec_start (recover_config cfg) = spec_start cfg"
  "spec_manifest (recover_config cfg) es ms = spec_manifest cfg es ms"
proof -
  show opts: "name_to_options (recover_config cfg) = name_to_options cfg"
    "options_for (recover_config cfg) = options_for cfg"
    by (simp_all add: recover_config_def name_to_options_def options_for_def [abs_def] fun_eq_iff)
  then show "spec_start (recover_config cfg) = spec_start cfg" by (simp add: spec_start_def)
  have "spec_manifest_edit (recover_config cfg) e ms = spec_manifest_edit cfg e ms" for e ms
    unfolding spec_manifest_edit_def spec_add_def opts ..
  then show "spec_manifest (recover_config cfg) es ms = spec_manifest cfg es ms"
    by (induction es arbitrary: ms) (simp_all split: bind_split)
qed

lemma decoded_units:
  "edit_unit u \<Longrightarrow> edit_unit (map decoded u)" "unfinished us \<Longrightarrow> unfinished (map decoded us)"
proof -
  have g: "atomic_group (map decoded es)" if "atomic_group es" for es
    using that by (auto simp: atomic_group_def decoded_def)
  show "edit_unit u \<Longrightarrow> edit_unit (map decoded u)" using g by (auto simp: edit_unit_def decoded_def)
  show "unfinished us \<Longrightarrow> unfinished (map decoded us)"
    unfolding unfinished_def using g by (metis length_map take_map)
qed

text \<open>
  \<open>Recover\<close> of a manifest, possibly cut off inside an atomic group: what the specification says of
  its whole units, and all their keys and secrets.
\<close>

lemma Recover_specified:
  assumes "openssl_ok ssl" and "32 \<le> length mk" and "16 \<le> length mh" and "length junk = kBlockSize"
    and "manifest_log ssl mk mh (concat us @ rest) contents" and "length contents < 2 ^ 64 - 1"
    and "\<forall>e \<in> set (concat us @ rest). edit_ok garbage e"
    and "\<forall>u \<in> set us. edit_unit u" and "unfinished rest"
    and "spec_start cfg = Some ms0" and "spec_manifest cfg (concat us) ms0 = Some ms"
    and "counters_known ms n q" and "\<forall>f \<in> set (ms_families ms). consistent_family f"
    and "\<And>n. hf_load_tables cfg n = StatusOK" and "vset_families vs = []" and "vset_wals vs = []"
  shows "\<exists>keys' vs'. Recover ssl mk mh junk secret cfg garbage contents keys vs =
      Some (Ok (StatusOK, keys', vs')) \<and>
    list_all2 recovered_family (ms_families ms) (vset_families vs') \<and> vset_wals vs' = ms_wals ms \<and>
    vset_next_file_number vs' = n + 1 \<and> vset_last_sequence vs' = q \<and>
    (keys', vset_log_secret vs') = fold collect (concat us) (keys, vset_log_secret vs)"
proof -
  let ?off = "word_of_nat (length contents)"
  have flat: "concat (map (map decoded) us) = map decoded (concat us)" by (simp add: map_concat)
  have rec: "Recover ssl mk mh junk secret cfg garbage contents keys vs =
      Some (recovered ?off (ReplayManifest (recover_config cfg) garbage ?off (map (map decoded) us)
        (NewHandler garbage keys vs)))"
    by (rule Recover_manifest [OF assms(1-7)]) (use assms(8,9) decoded_units in blast)+
  obtain h where h: "ReplayManifest (recover_config cfg) garbage ?off (map (map decoded) us)
      (NewHandler garbage keys vs) = Ok (StatusOK, h)"
    "list_all2 recovered_family (ms_families ms) (vset_families (h_vset h))" "vset_wals (h_vset h) = ms_wals ms"
    "vset_next_file_number (h_vset h) = n + 1" "vset_last_sequence (h_vset h) = q"
    using ReplayManifest_specified [of "recover_config cfg" ms0 "map (map decoded) us" ms n q vs garbage ?off keys]
      assms(10-16) by (auto simp: flat)
  have "fold collect (concat (map (map decoded) us)) x = fold collect (concat us) x" for x
    unfolding flat fold_map by (simp add: comp_def collect_same)
  then show ?thesis using collected_ReplayManifest [OF h(1)] h(2-5)
    unfolding rec h(1) by (simp add: recovered_def collected_def NewHandler_def)
qed

lemma Recover_committed:
  assumes "openssl_ok ssl" and "32 \<le> length mk" and "16 \<le> length mh" and "length junk = kBlockSize"
    and "manifest_log ssl mk mh (committed_edits opts garbage vs e) contents" and "length contents < 2 ^ 64 - 1"
    and "recoverable cfg vs" and "commit_possible opts garbage vs e c p" and "families_fit vs"
    and "\<And>n. hf_load_tables cfg n = StatusOK" and "vset_families vs0 = []" and "vset_wals vs0 = []"
    and "saved_family (spec_change e p (abs_family c)) v"
  shows "\<exists>keys' vs2. Recover ssl mk mh junk secret cfg garbage contents keys vs0 = Some (Ok (StatusOK, keys', vs2)) \<and>
    list_all2 same_family (map (family_after e v) (live_families vs)) (vset_families vs2) \<and>
    vset_wals vs2 = vset_wals vs \<and> vset_last_sequence vs2 = writer_last_sequence opts vs \<and>
    vset_next_file_number vs2 = vset_next_file_number vs + 2 \<and>
    (keys', vset_log_secret vs2) = collect e (keys, vset_log_secret vs0)"
proof -
  let ?es = "committed_edits opts garbage vs e"
  let ?us = "map (\<lambda>e. [e]) ?es"
  have flat: "concat ?us = ?es" by simp
  have single: "\<not> ve_is_in_atomic_group e'" if "e' \<in> set ?es" for e'
    using that assms(8) bare_snapshot
    by (auto simp: committed_edits_def commit_possible_def file_edit_def bare_edit_def)
  obtain ms0 ms where ms: "spec_start cfg = Some ms0" "spec_manifest cfg ?es ms0 = Some ms"
    "ms_families ms = map (\<lambda>f. if fs_id f = ve_column_family e then spec_change e p f else f)
      (map abs_family (live_families vs))" "ms_wals ms = vset_wals vs"
    "counters_known ms (vset_next_file_number vs + 1) (writer_last_sequence opts vs)"
    using committed_specified [of "recover_config cfg" vs opts garbage e c p] assms(7,8) by auto
  have fit: "\<forall>f \<in> set (ms_families ms). consistent_family f"
  proof -
    have "consistent_family (if fs_id f = ve_column_family e then spec_change e p f else f)"
      if "f = abs_family c1" "c1 \<in> set (live_families vs)" for f c1
    proof (cases "cfd_id c1 = ve_column_family e")
      case id: True
      then have "cfd_id c1 = ve_column_family e" .
      moreover have "cfd_id c = ve_column_family e" "distinct (map cfd_id (vset_families vs))"
        "c \<in> set (vset_families vs)" "c1 \<in> set (vset_families vs)"
        using that(2) assms(8) by (simp_all add: commit_possible_def edited_family_def live_families_def)
      ultimately have "c1 = c" unfolding distinct_map by (metis inj_onD)
      then show ?thesis using that id assms(8) by (simp add: commit_possible_def edited_family_def)
    next
      case False
      then show ?thesis using that assms(9) by (simp add: families_fit_def)
    qed
    then show ?thesis unfolding ms(3) by (auto simp only: set_map image_iff)
  qed
  obtain keys' vs2 where r: "Recover ssl mk mh junk secret cfg garbage contents keys vs0 =
      Some (Ok (StatusOK, keys', vs2))" "list_all2 recovered_family (ms_families ms) (vset_families vs2)"
    "vset_wals vs2 = ms_wals ms" "vset_next_file_number vs2 = vset_next_file_number vs + 1 + 1"
    "vset_last_sequence vs2 = writer_last_sequence opts vs"
    "(keys', vset_log_secret vs2) = fold collect ?es (keys, vset_log_secret vs0)"
  proof -
    have log: "manifest_log ssl mk mh (concat ?us @ []) contents" "\<forall>e \<in> set (concat ?us @ []). edit_ok garbage e"
      unfolding flat using assms(5,8) by (simp_all add: commit_possible_def)
    have units: "\<forall>u \<in> set ?us. edit_unit u" using single by (auto simp: edit_unit_def)
    have spec: "spec_manifest cfg (concat ?us) ms0 = Some ms" unfolding flat by (rule ms(2))
    show ?thesis
      using that Recover_specified [OF assms(1-4) log(1) assms(6) log(2) units unfinished_Nil ms(1) spec ms(5)
          fit assms(10-12)] unfolding flat by blast
  qed
  have "list_all2 same_family (map (family_after e v) (live_families vs)) (vset_families vs2)"
    using r(2) after_same [OF assms(8,7,9,13)] unfolding ms(3)
    by (auto simp: list_all2_conv_all_nth split: if_split_asm)
  moreover have "fold collect ?es x = collect e x" for x
    by (simp add: committed_edits_def snapshot_no_secrets collect_same)
  ultimately show ?thesis using r ms(4) by (auto simp: add.assoc)
qed

end
