(* ===== verification/Manifest_Queue.thy ===== *)
theory Manifest_Queue
  imports Manifest_Writer
begin

text \<open>
  The calls of \<open>VersionSet::LogAndApply\<close> that wait in the queue of manifest writers
  (\<open>db/version_set.cc\<close>), as steps: a call enters with its writers, and the call whose writer is at the
  front of the queue does the work of all the writers that it can take. The status of a writer that is
  done is the result of its call. A writer lives in the \<open>deque\<close> of its call: when the call has returned,
  its place in memory is free and may be the place of the writer of a later call.
\<close>

section \<open>Calls and their writers\<close>

record apply_call =
  ac_writer_at :: "nat \<Rightarrow> nat"
  ac_cfds :: "u32 option list"
  ac_edit_lists :: "VersionEdit list list"
  ac_new_descriptor_log :: bool
  ac_new_cf_options :: "cf_options option"

record manifest_queue =
  mq_writers :: "(nat \<times> ManifestWriter) list"
  mq_calls :: "nat \<rightharpoonup> apply_call"
  mq_returned :: "nat \<rightharpoonup> status"
  mq_vset :: VersionSet

definition call_writers :: "apply_call \<Rightarrow> ManifestWriter list" where
  "call_writers call =
     map (\<lambda>(a, c, es). \<lparr>mw_address = a, mw_cfd = c, mw_edit_list = es\<rparr>)
       (zip (map (ac_writer_at call) [0..<length (ac_cfds call)]) (zip (ac_cfds call) (ac_edit_lists call)))"

text \<open>A call without edits returns at once.\<close>

definition LogAndApplyEnter :: "nat \<Rightarrow> apply_call \<Rightarrow> manifest_queue \<Rightarrow> manifest_queue" where
  "LogAndApplyEnter t call q =
     (if concat (ac_edit_lists call) = []
      then q\<lparr>mq_calls := (mq_calls q)(t \<mapsto> call), mq_returned := (mq_returned q)(t \<mapsto> StatusOK)\<rparr>
      else q\<lparr>mq_calls := (mq_calls q)(t \<mapsto> call),
             mq_writers := mq_writers q @ map (Pair t) (call_writers call)\<rparr>)"

text \<open>A family that is to be created (a null pointer), or one that is not dropped.\<close>

definition undropped :: "VersionSet \<Rightarrow> u32 option \<Rightarrow> bool" where
  "undropped vs c \<longleftrightarrow>
     (case c of
        None \<Rightarrow> True
      | Some n \<Rightarrow>
          (case find (\<lambda>cfd. cfd_id cfd = n) (vset_families vs) of
             None \<Rightarrow> True | Some cfd \<Rightarrow> \<not> cfd_dropped cfd))"

text \<open>
  The test of the loop that waits, \<open>&first_writer == manifest_writers_.front()\<close>: writers that live are
  the same if their calls are (the first writer of a call is at the front before its others). A writer
  whose call has returned is destroyed: the pointer at the front is equal to that of any writer that
  was allocated at its address since.
\<close>

definition destroyed :: "manifest_queue \<Rightarrow> nat \<times> ManifestWriter \<Rightarrow> bool" where
  "destroyed q p \<longleftrightarrow> mq_returned q (fst p) \<noteq> None"

definition at_front :: "nat \<Rightarrow> apply_call \<Rightarrow> manifest_queue \<Rightarrow> bool" where
  "at_front t call q \<longleftrightarrow> mq_writers q \<noteq> [] \<and>
     (let front = hd (mq_writers q)
      in if destroyed q front then mw_address (snd front) = ac_writer_at call 0 else fst front = t)"

text \<open>
  What the call does that has passed the test. To signal a writer that was destroyed, or to read its
  edits, is undefined.
\<close>

definition LogAndApplyHead :: "openssl \<Rightarrow> db_options \<Rightarrow> manifest_io \<Rightarrow> VersionEdit \<Rightarrow> nat \<Rightarrow> apply_call \<Rightarrow>
    manifest_queue \<Rightarrow> manifest_queue outcome" where
  "LogAndApplyHead ssl opts io garbage t call q =
     (if \<not> list_ex (undropped (mq_vset q)) (ac_cfds call) then
        (let rest = drop (length (ac_cfds call)) (mq_writers q)
         in if rest \<noteq> [] \<and> destroyed q (hd rest) then Undef
            else Ok (q\<lparr>mq_writers := rest, mq_returned := (mq_returned q)(t \<mapsto> ColumnFamilyDropped)\<rparr>))
      else if destroyed q (hd (mq_writers q)) then Undef
      else
        obind (ProcessManifestWrites ssl opts io garbage (ac_new_descriptor_log call)
                 (ac_new_cf_options call) (map snd (mq_writers q)) (mq_vset q)) (\<lambda>(s, rest, vs).
          let ready = take (length (mq_writers q) - length rest) (mq_writers q)
          in Ok (q\<lparr>mq_writers := drop (length ready) (mq_writers q),
                   mq_returned := (\<lambda>u. if u = t \<or> u \<in> fst ` set ready then Some s else mq_returned q u),
                   mq_vset := vs\<rparr>)))"

datatype queue_step = Enters nat apply_call | Heads nat manifest_io

text \<open>
  A call that has returned is not there any more to do its part. The calls have as many lists of edits
  as families. The steps do not follow a call that passes the test by the address of a writer that was
  destroyed: it meets undefined behaviour, or, if all its families are dropped, takes the destroyed
  writers off the queue.
\<close>

inductive queue_moves :: "openssl \<Rightarrow> db_options \<Rightarrow> VersionEdit \<Rightarrow> queue_step \<Rightarrow> manifest_queue \<Rightarrow>
    manifest_queue \<Rightarrow> bool" for ssl opts garbage where
  enters: "queue_moves ssl opts garbage (Enters t call) q (LogAndApplyEnter t call q)"
    if "mq_calls q t = None" and "mq_returned q t = None" and "ac_cfds call \<noteq> []" and "length (ac_cfds call) = length (ac_edit_lists call)"
| heads: "queue_moves ssl opts garbage (Heads t io) q q'"
    if "at_front t call q" and "\<not> destroyed q (hd (mq_writers q))" and "mq_returned q t = None"
      and "mq_calls q t = Some call" and "LogAndApplyHead ssl opts io garbage t call q = Ok q'"

inductive_cases EntersE [elim!]: "queue_moves ssl opts garbage (Enters t call) q q'"
inductive_cases HeadsE [elim!]: "queue_moves ssl opts garbage (Heads t io) q q'"

inductive queue_runs :: "openssl \<Rightarrow> db_options \<Rightarrow> VersionEdit \<Rightarrow> queue_step list \<Rightarrow> manifest_queue \<Rightarrow>
    manifest_queue \<Rightarrow> bool" for ssl opts garbage where
  stop: "queue_runs ssl opts garbage [] q q"
| go: "queue_runs ssl opts garbage (m # ms) q q''"
    if "queue_moves ssl opts garbage m q q'" and "queue_runs ssl opts garbage ms q' q''"

inductive_cases stopE [elim!]: "queue_runs ssl opts garbage [] q q'"
inductive_cases goE [elim!]: "queue_runs ssl opts garbage (m # ms) q q'"

section \<open>What one step takes from the queue\<close>

lemma BatchWriters_taken:
  "BatchWriters opts vs ws mb = Ok (StatusOK, mb') \<Longrightarrow>
   mb_taken mb \<le> mb_taken mb' \<and> mb_taken mb' \<le> mb_taken mb + length ws \<and>
   (ws \<noteq> [] \<and> \<not> IsColumnFamilyManipulation (hd (mw_edit_list (hd ws))) \<longrightarrow> mb_taken mb < mb_taken mb')"
proof (induction ws arbitrary: mb)
  case (Cons w ws)
  obtain e where e: "first_edit w = Ok e" "hd (mw_edit_list w) = e"
    using Cons.prems by (cases "mw_edit_list w") (auto simp: first_edit_def)
  show ?case
  proof (cases "IsColumnFamilyManipulation e")
    case True
    then show ?thesis using Cons.prems e by simp
  next
    case False
    let ?mb = "mb\<lparr>mb_taken := Suc (mb_taken mb)\<rparr>"
    obtain cfd where cfd: "find_family (mw_cfd w) vs = Ok cfd"
      using Cons.prems e False by (cases "find_family (mw_cfd w) vs") simp_all
    have edits: "mb_taken mb2 = mb_taken mb1"
      if "BatchEdits opts vs icmp es builder mb1 = Ok (s, builder', mb2)" for icmp es builder mb1 s builder' mb2
      using that by (induction opts vs icmp es builder mb1 rule: BatchEdits.induct)
        (auto simp: obind_eq_Ok Let_def split: if_split_asm)
    have shrink: "mb_taken (ShrinkAtomicGroup es mb1) = mb_taken mb1" for es mb1
      by (simp add: ShrinkAtomicGroup_def Let_def)
    have writer: "mb_taken mb2 = mb_taken mb1"
      if "BatchWriter opts vs cfd w mb1 = Ok (s, mb2)" for mb1 s mb2
      using that edits by (fastforce simp: BatchWriter_def Let_def obind_eq_Ok split: option.splits)
    obtain mb1 where "BatchWriters opts vs ws mb1 = Ok (StatusOK, mb')" "mb_taken mb1 = Suc (mb_taken mb)"
    proof (cases "cfd_dropped cfd")
      case True
      then show ?thesis
        using that [of "ShrinkAtomicGroup (mw_edit_list w) ?mb"] Cons.prems e False cfd shrink by simp
    next
      case live: False
      then obtain mb1 where "BatchWriter opts vs cfd w ?mb = Ok (StatusOK, mb1)"
        "BatchWriters opts vs ws mb1 = Ok (StatusOK, mb')"
        using Cons.prems e False cfd by (auto simp: sbind_def obind_eq_Ok Let_def split: if_split_asm)
      then show ?thesis using that [of mb1] writer by fastforce
    qed
    then show ?thesis using Cons.IH [of mb1] by auto
  qed
qed simp

lemma CollectBatch_taken:
  assumes "CollectBatch opts vs queue = Ok (StatusOK, mb, versions)"
  shows "0 < mb_taken mb" and "mb_taken mb \<le> length queue"
proof -
  obtain w ws where q: "queue = w # ws" using assms by (cases queue) (simp_all add: CollectBatch_def)
  obtain e where e: "first_edit w = Ok e" "hd (mw_edit_list w) = e"
    using assms q by (cases "mw_edit_list w") (auto simp: CollectBatch_def first_edit_def)
  let ?mb = "\<lparr>mb_edits = [], mb_builders = [], mb_group_start = None, mb_taken = 0\<rparr>"
  have "0 < mb_taken mb \<and> mb_taken mb \<le> length queue"
  proof (cases "IsColumnFamilyManipulation e")
    case True
    then show ?thesis using assms q e by (auto simp: CollectBatch_def)
  next
    case False
    then have "BatchWriters opts vs queue ?mb = Ok (StatusOK, mb)"
      using assms q e by (auto simp: CollectBatch_def obind_eq_Ok split: if_split_asm)
    from BatchWriters_taken [OF this] show ?thesis using q e False by auto
  qed
  then show "0 < mb_taken mb" "mb_taken mb \<le> length queue" by simp_all
qed

lemma obind_OkE: "obind x f = Ok b \<Longrightarrow> (\<And>a. x = Ok a \<Longrightarrow> f a = Ok b \<Longrightarrow> P) \<Longrightarrow> P"
  by (auto simp: obind_eq_Ok)

text \<open>Either at least one writer is done, or the early return has left everything as it was.\<close>

lemma ProcessManifestWrites_takes:
  assumes "ProcessManifestWrites ssl opts io garbage nd new_cf queue vs = Ok (s, rest, vs')"
  shows "(\<exists>k > 0. k \<le> length queue \<and> rest = drop k queue) \<or>
    (s \<noteq> StatusOK \<and> rest = queue \<and> vs' = vs \<and> (\<exists>mb versions. CollectBatch opts vs queue = Ok (s, mb, versions)))"
proof -
  obtain s0 mb versions where cb: "CollectBatch opts vs queue = Ok (s0, mb, versions)"
    using assms by (cases "CollectBatch opts vs queue") (auto simp: ProcessManifestWrites_def)
  show ?thesis
  proof (cases "s0 = StatusOK")
    case True
    have "rest = drop (mb_taken mb) queue"
      using assms unfolding ProcessManifestWrites_def cb True Let_def
      by (simp only: obind_simps split_conv simp_thms if_False)
        (elim obind_OkE, simp only: split_beta, elim obind_OkE, simp only: outcome.inject prod.inject)
    moreover have "0 < mb_taken mb" "mb_taken mb \<le> length queue"
      using CollectBatch_taken [OF cb [unfolded True]] by simp_all
    ultimately show ?thesis by metis
  next
    case False
    then show ?thesis using assms cb by (auto simp: ProcessManifestWrites_def)
  qed
qed


section \<open>Every call returns, unless one fails early\<close>

text \<open>The writers of a call that has not returned stand together, and all of them are there.\<close>

definition whole_calls :: "manifest_queue \<Rightarrow> bool" where
  "whole_calls q \<longleftrightarrow>
     (\<forall>p \<in> set (mq_writers q). mq_calls q (fst p) \<noteq> None) \<and>
     (\<forall>t call. mq_calls q t = Some call \<and> mq_returned q t = None \<longrightarrow>
        ac_cfds call \<noteq> [] \<and> length (ac_cfds call) = length (ac_edit_lists call) \<and>
        (\<exists>pre post. mq_writers q = pre @ map (Pair t) (call_writers call) @ post \<and>
           t \<notin> fst ` set pre \<union> fst ` set post))"

lemma whole_callsD:
  assumes "whole_calls q" and "mq_calls q t = Some call" and "mq_returned q t = None"
  obtains pre post where "mq_writers q = pre @ map (Pair t) (call_writers call) @ post"
    and "t \<notin> fst ` set pre" and "t \<notin> fst ` set post" and "ac_cfds call \<noteq> []"
    and "length (call_writers call) = length (ac_cfds call)" and "length (ac_cfds call) = length (ac_edit_lists call)"
proof -
  obtain pre post where "mq_writers q = pre @ map (Pair t) (call_writers call) @ post \<and>
      t \<notin> fst ` set pre \<union> fst ` set post"
    using assms unfolding whole_calls_def by blast
  moreover have "ac_cfds call \<noteq> []" "length (ac_cfds call) = length (ac_edit_lists call)"
    using assms unfolding whole_calls_def by blast+
  ultimately show ?thesis using that by (simp add: call_writers_def)
qed

lemma front_call:
  assumes "whole_calls q" and "mq_writers q \<noteq> []" and "fst (hd (mq_writers q)) = t"
    and "mq_calls q t = Some call" and "mq_returned q t = None"
  shows "take (length (ac_cfds call)) (mq_writers q) = map (Pair t) (call_writers call)" and "ac_cfds call \<noteq> []"
proof -
  obtain pre post where p: "mq_writers q = pre @ map (Pair t) (call_writers call) @ post"
    "t \<notin> fst ` set pre" "ac_cfds call \<noteq> []" "length (call_writers call) = length (ac_cfds call)"
    using whole_callsD [OF assms(1,4,5)] by metis
  have "pre = []" using p(1,2) assms(3) by (cases pre) auto
  then show "take (length (ac_cfds call)) (mq_writers q) = map (Pair t) (call_writers call)" "ac_cfds call \<noteq> []"
    using p by simp_all
qed

lemma whole_calls_enters:
  assumes "whole_calls q" and "mq_calls q t = None" and "ac_cfds call \<noteq> []"
    and "length (ac_cfds call) = length (ac_edit_lists call)" and "mq_returned q t = None"
  shows "whole_calls (LogAndApplyEnter t call q)"
proof -
  have new: "t \<notin> fst ` set (mq_writers q)" using assms(1,2) by (fastforce simp: whole_calls_def)
  show ?thesis
  proof (cases "concat (ac_edit_lists call) = []")
    case True
    then show ?thesis using assms(1) by (auto simp: whole_calls_def LogAndApplyEnter_def)
  next
    case False
    let ?q = "LogAndApplyEnter t call q"
    have q: "mq_writers ?q = mq_writers q @ map (Pair t) (call_writers call)"
      "mq_calls ?q = (mq_calls q)(t \<mapsto> call)" "mq_returned ?q = mq_returned q"
      using False by (auto simp: LogAndApplyEnter_def)
    have "\<exists>pre post. mq_writers ?q = pre @ map (Pair u) (call_writers c) @ post \<and> u \<notin> fst ` set pre \<union> fst ` set post"
      if "mq_calls ?q u = Some c" "mq_returned ?q u = None" for u c
    proof (cases "u = t")
      case True
      then show ?thesis using new that q by (intro exI [of _ "mq_writers q"] exI [of _ "[]"]) auto
    next
      case False
      then have u: "mq_calls q u = Some c" "mq_returned q u = None" using that q by simp_all
      obtain pre post where p: "mq_writers q = pre @ map (Pair u) (call_writers c) @ post"
        "u \<notin> fst ` set pre" "u \<notin> fst ` set post"
        using whole_callsD [OF assms(1) u] by metis
      have "mq_writers ?q = pre @ map (Pair u) (call_writers c) @ (post @ map (Pair t) (call_writers call))"
        using q(1) p(1) by simp
      moreover have "u \<notin> fst ` set (post @ map (Pair t) (call_writers call))" using p(3) False by auto
      ultimately show ?thesis using p(2) by blast
    qed
    then show ?thesis using assms(1,3,4) unfolding whole_calls_def q by (auto split: if_split_asm)
  qed
qed

text \<open>What a step does to the calls: a call enters, or some writers of the front leave with their calls.\<close>

definition front_leaves :: "manifest_queue \<Rightarrow> nat \<Rightarrow> manifest_queue \<Rightarrow> bool" where
  "front_leaves q k q' \<longleftrightarrow>
     mq_writers q' = drop k (mq_writers q) \<and> mq_calls q' = mq_calls q \<and>
     (\<forall>u. mq_returned q u \<noteq> None \<or> u \<in> fst ` set (take k (mq_writers q)) \<longrightarrow> mq_returned q' u \<noteq> None)"

lemma whole_calls_leaves:
  assumes "whole_calls q" and "front_leaves q k q'"
  shows "whole_calls q'"
proof -
  note l = assms(2) [unfolded front_leaves_def]
  have "\<exists>pre post. mq_writers q' = pre @ map (Pair u) (call_writers c) @ post \<and> u \<notin> fst ` set pre \<union> fst ` set post"
    if "mq_calls q' u = Some c" "mq_returned q' u = None" for u c
  proof -
    have u: "mq_calls q u = Some c" "mq_returned q u = None" "u \<notin> fst ` set (take k (mq_writers q))"
      using that l by auto
    obtain pre post where p: "mq_writers q = pre @ map (Pair u) (call_writers c) @ post"
      "u \<notin> fst ` set pre" "u \<notin> fst ` set post" "ac_cfds c \<noteq> []" "length (call_writers c) = length (ac_cfds c)"
      using whole_callsD [OF assms(1) u(1,2)] by metis
    have "k \<le> length pre"
    proof (rule ccontr)
      assume "\<not> k \<le> length pre"
      moreover obtain w ws where "call_writers c = w # ws" using p(4,5) by (cases "call_writers c") auto
      ultimately have "(u, w) \<in> set (take k (mq_writers q))"
        using p(1) by (cases "k - length pre") auto
      then show False using u(3) by force
    qed
    then have "mq_writers q' = drop k pre @ map (Pair u) (call_writers c) @ post" using l p(1) by simp
    moreover have "u \<notin> fst ` set (drop k pre)" using p(2) set_drop_subset [of k pre] by blast
    ultimately show ?thesis using p(3) by blast
  qed
  moreover have "mq_calls q' (fst p) \<noteq> None" if "p \<in> set (mq_writers q')" for p
    using that l assms(1) in_set_dropD unfolding whole_calls_def by metis
  moreover have "ac_cfds c \<noteq> [] \<and> length (ac_cfds c) = length (ac_edit_lists c)"
    if "mq_calls q' u = Some c" "mq_returned q' u = None" for u c
    using that l assms(1) unfolding whole_calls_def by metis
  ultimately show ?thesis unfolding whole_calls_def by blast
qed


text \<open>The early return of \<open>ProcessManifestWrites\<close>: the call is over, but its writers stay.\<close>

definition fails_early :: "nat \<Rightarrow> manifest_queue \<Rightarrow> manifest_queue \<Rightarrow> bool" where
  "fails_early t q q' \<longleftrightarrow>
     (\<exists>s. s \<noteq> StatusOK \<and> q' = q\<lparr>mq_returned := (mq_returned q)(t \<mapsto> s)\<rparr>)"

lemma heads_front:
  assumes "queue_moves ssl opts garbage (Heads t io) q q'"
  obtains call where "mq_writers q \<noteq> []" and "fst (hd (mq_writers q)) = t"
    and "\<not> destroyed q (hd (mq_writers q))" and "mq_returned q t = None" and "mq_calls q t = Some call"
    and "LogAndApplyHead ssl opts io garbage t call q = Ok q'"
  using assms by (fastforce simp: at_front_def Let_def)

lemma LogAndApplyHead_takes:
  assumes "LogAndApplyHead ssl opts io garbage t call q = Ok q'" and "ac_cfds call \<noteq> []"
    and "take (length (ac_cfds call)) (mq_writers q) = map (Pair t) ws"
  shows "\<exists>k. front_leaves q k q' \<and> (0 < k \<or> fails_early t q q')"
proof (cases "list_ex (undropped (mq_vset q)) (ac_cfds call)")
  case False
  have "front_leaves q (length (ac_cfds call)) q'"
    using assms False by (auto simp: LogAndApplyHead_def Let_def front_leaves_def split: if_split_asm)
  then show ?thesis using assms(2) by blast
next
  case True
  obtain s rest vs where p: "ProcessManifestWrites ssl opts io garbage (ac_new_descriptor_log call)
      (ac_new_cf_options call) (map snd (mq_writers q)) (mq_vset q) = Ok (s, rest, vs)"
    using assms(1) True
    by (cases "ProcessManifestWrites ssl opts io garbage (ac_new_descriptor_log call)
      (ac_new_cf_options call) (map snd (mq_writers q)) (mq_vset q)")
      (auto simp: LogAndApplyHead_def split: if_split_asm)
  define k where "k = length (mq_writers q) - length rest"
  note taken = ProcessManifestWrites_takes [OF p, unfolded length_map]
  have "length (take k (mq_writers q)) = k" by (simp add: k_def)
  then have q': "q' = q\<lparr>mq_writers := drop k (mq_writers q),
      mq_returned := (\<lambda>u. if u = t \<or> u \<in> fst ` set (take k (mq_writers q)) then Some s else mq_returned q u),
      mq_vset := vs\<rparr>"
    using assms(1) True p by (simp add: LogAndApplyHead_def Let_def k_def split: if_split_asm)
  have "front_leaves q k q'" by (auto simp: q' front_leaves_def)
  moreover have "0 < k \<or> fails_early t q q'"
  proof (cases "s \<noteq> StatusOK \<and> rest = map snd (mq_writers q) \<and> vs = mq_vset q")
    case True
    then have "k = 0" by (simp add: k_def)
    then have "q' = q\<lparr>mq_returned := (mq_returned q)(t \<mapsto> s)\<rparr>" using True by (simp add: q' fun_upd_def)
    then show ?thesis using True unfolding fails_early_def by blast
  next
    case False
    then obtain j where "0 < j" "j \<le> length (mq_writers q)" "rest = drop j (map snd (mq_writers q))"
      using taken by blast
    then have "k = j" by (simp add: k_def)
    then show ?thesis using \<open>0 < j\<close> by simp
  qed
  ultimately show ?thesis by blast
qed

lemma heads_leaves:
  assumes "whole_calls q" and "queue_moves ssl opts garbage (Heads t io) q q'"
  shows "\<exists>k. front_leaves q k q' \<and> (0 < k \<or> fails_early t q q')"
proof -
  obtain call where c: "mq_writers q \<noteq> []" "fst (hd (mq_writers q)) = t" "mq_returned q t = None"
    "mq_calls q t = Some call" "LogAndApplyHead ssl opts io garbage t call q = Ok q'"
    using heads_front [OF assms(2)] by metis
  show ?thesis
    by (rule LogAndApplyHead_takes [OF c(5) front_call(2) front_call(1)])
      (rule assms(1) c(1) c(2) c(4) c(3))+
qed

definition is_head :: "queue_step \<Rightarrow> bool" where
  "is_head m = (case m of Heads t io \<Rightarrow> True | Enters t call \<Rightarrow> False)"

lemma is_head_simps [simp]: "is_head (Heads t io)" "\<not> is_head (Enters t call)"
  by (simp_all add: is_head_def)

lemma returned_stays:
  assumes "queue_moves ssl opts garbage m q q'" and "whole_calls q" and "mq_returned q u \<noteq> None"
  shows "mq_returned q' u \<noteq> None"
proof (cases m)
  case (Enters t call)
  then show ?thesis using assms by (auto simp: LogAndApplyEnter_def split: if_split_asm)
next
  case (Heads t io)
  then obtain k where "front_leaves q k q'" using heads_leaves [OF assms(2)] assms(1) by metis
  then show ?thesis using assms(3) unfolding front_leaves_def by blast
qed

lemma whole_calls_moves:
  assumes "queue_moves ssl opts garbage m q q'" and "whole_calls q"
  shows "whole_calls q'"
proof (cases m)
  case (Enters t call)
  then show ?thesis using assms whole_calls_enters by blast
next
  case (Heads t io)
  then show ?thesis using heads_leaves [OF assms(2)] assms whole_calls_leaves by metis
qed

lemma runs_returned:
  "queue_runs ssl opts garbage ms q q' \<Longrightarrow> whole_calls q \<Longrightarrow> mq_returned q u \<noteq> None \<Longrightarrow>
   mq_returned q' u \<noteq> None"
proof (induction rule: queue_runs.induct)
  case (go m q q' ms q'')
  show ?case
    using go.IH [OF whole_calls_moves [OF go.hyps(1) go.prems(1)] returned_stays [OF go.hyps(1) go.prems]] .
qed simp

text \<open>
  A waiting call returns when as many front calls have worked as there are writers up to its first,
  unless one of them has failed early.
\<close>

definition failure_in :: "openssl \<Rightarrow> db_options \<Rightarrow> VersionEdit \<Rightarrow> queue_step list \<Rightarrow> manifest_queue \<Rightarrow> bool" where
  "failure_in ssl opts garbage ms q \<longleftrightarrow>
     (\<exists>ms1 t io ms2 q1 q2. ms = ms1 @ Heads t io # ms2 \<and> queue_runs ssl opts garbage ms1 q q1 \<and>
        queue_moves ssl opts garbage (Heads t io) q1 q2 \<and> fails_early t q1 q2)"

lemma failure_inI:
  assumes "ms = ms1 @ Heads t io # ms2" and "queue_runs ssl opts garbage ms1 q q1"
    and "queue_moves ssl opts garbage (Heads t io) q1 q2" and "fails_early t q1 q2"
  shows "failure_in ssl opts garbage ms q"
  unfolding failure_in_def using assms by (intro exI conjI)

lemma failure_later:
  assumes "queue_moves ssl opts garbage m q q'" and "failure_in ssl opts garbage ms q'"
  shows "failure_in ssl opts garbage (m # ms) q"
proof -
  obtain ms1 t io ms2 q1 q2 where f: "ms = ms1 @ Heads t io # ms2" "queue_runs ssl opts garbage ms1 q' q1"
    "queue_moves ssl opts garbage (Heads t io) q1 q2" "fails_early t q1 q2"
    using assms(2) unfolding failure_in_def by (elim exE conjE)
  have eq: "m # ms = (m # ms1) @ Heads t io # ms2" using f(1) by simp
  show ?thesis by (rule failure_inI [OF eq queue_runs.go [OF assms(1) f(2)] f(3,4)])
qed

lemma waiting_returns:
  assumes "queue_runs ssl opts garbage ms q q'" and "whole_calls q" and "i < length (mq_writers q)"
    and "fst (mq_writers q ! i) = u" and "i < length (filter is_head ms)"
  shows "mq_returned q' u \<noteq> None \<or> failure_in ssl opts garbage ms q"
  using assms
proof (induction arbitrary: i rule: queue_runs.induct)
  case (go m q q' ms q'')
  note whole = whole_calls_moves [OF go.hyps(1) go.prems(1)]
  show ?case
  proof (cases m)
    case (Enters t call)
    have "\<exists>ws. mq_writers q' = mq_writers q @ ws"
      using go.hyps(1) Enters by (auto simp: LogAndApplyEnter_def)
    then have "i < length (mq_writers q')" "fst (mq_writers q' ! i) = u"
      using go.prems(2,3) by (auto simp: nth_append)
    moreover have "i < length (filter is_head ms)" using go.prems(4) Enters by simp
    ultimately show ?thesis using go.IH [OF whole, of i] failure_later [OF go.hyps(1)] by blast
  next
    case (Heads t io)
    obtain k where k: "front_leaves q k q'" "0 < k \<or> fails_early t q q'"
      using heads_leaves [OF go.prems(1)] go.hyps(1) Heads by metis
    consider (early) "fails_early t q q'" | (taken) "i < k" | (later) "0 < k" "k \<le> i" using k(2) by linarith
    then show ?thesis
    proof cases
      case early
      have "queue_runs ssl opts garbage [] q q" by (rule queue_runs.stop)
      then have "failure_in ssl opts garbage (m # ms) q"
        using failure_inI [of "m # ms" "[]" t io ms] early go.hyps(1) Heads by simp
      then show ?thesis by blast
    next
      case taken
      then have "mq_writers q ! i \<in> set (take k (mq_writers q))"
        using go.prems(2) by (simp add: in_set_conv_nth) (metis nth_take)
      then have "mq_returned q' u \<noteq> None"
        using k(1) go.prems(3) unfolding front_leaves_def by blast
      then show ?thesis using runs_returned [OF go.hyps(2) whole] by blast
    next
      case later
      then have "i - k < length (mq_writers q')" "fst (mq_writers q' ! (i - k)) = u"
        using k(1) go.prems(2,3) by (simp_all add: front_leaves_def)
      moreover have "i - k < length (filter is_head ms)" using go.prems(4) Heads later by simp
      ultimately show ?thesis using go.IH [OF whole, of "i - k"] failure_later [OF go.hyps(1)] by blast
    qed
  qed
qed simp

section \<open>A call that fails early blocks the queue\<close>

text \<open>The pointer at the front is one to a writer that was destroyed.\<close>

definition blocked :: "manifest_queue \<Rightarrow> bool" where
  "blocked q \<longleftrightarrow> mq_writers q \<noteq> [] \<and> destroyed q (hd (mq_writers q))"

lemma blocked_head:
  "blocked q \<Longrightarrow> list_ex (undropped (mq_vset q)) (ac_cfds call) \<Longrightarrow>
   LogAndApplyHead ssl opts io garbage t call q = Undef"
  by (simp add: blocked_def LogAndApplyHead_def)

lemma blocked_no_head: "blocked q \<Longrightarrow> \<not> queue_moves ssl opts garbage (Heads t io) q q'"
  by (fastforce simp: blocked_def elim: heads_front)

lemma blocked_enters:
  assumes "queue_moves ssl opts garbage (Enters t call) q q'" and "blocked q"
  shows "blocked q'" and "hd (mq_writers q') = hd (mq_writers q)" and "mq_vset q' = mq_vset q"
    and "mq_calls q u = Some c \<Longrightarrow> mq_calls q' u = Some c"
    and "(\<And>c. mq_calls q' u = Some c \<Longrightarrow> concat (ac_edit_lists c) \<noteq> []) \<Longrightarrow> mq_returned q' u = mq_returned q u"
proof -
  have q': "q' = LogAndApplyEnter t call q" "mq_calls q t = None" "mq_returned q t = None"
    using assms(1) by auto
  show "blocked q'" "hd (mq_writers q') = hd (mq_writers q)" "mq_vset q' = mq_vset q"
    using assms(2) q' by (auto simp: blocked_def destroyed_def LogAndApplyEnter_def)
  show "mq_calls q u = Some c \<Longrightarrow> mq_calls q' u = Some c"
    using q' by (auto simp: LogAndApplyEnter_def)
  show "(\<And>c. mq_calls q' u = Some c \<Longrightarrow> concat (ac_edit_lists c) \<noteq> []) \<Longrightarrow> mq_returned q' u = mq_returned q u"
    using q' by (cases "u = t") (auto simp: LogAndApplyEnter_def)
qed

lemma blocked_stays:
  "queue_runs ssl opts garbage ms q q' \<Longrightarrow> blocked q \<Longrightarrow>
   filter is_head ms = [] \<and> blocked q' \<and> hd (mq_writers q') = hd (mq_writers q) \<and> mq_vset q' = mq_vset q \<and>
   (\<forall>u c. mq_calls q u = Some c \<longrightarrow> mq_calls q' u = Some c) \<and>
   (\<forall>u c. mq_calls q' u = Some c \<and> concat (ac_edit_lists c) \<noteq> [] \<longrightarrow> mq_returned q' u = mq_returned q u)"
proof (induction rule: queue_runs.induct)
  case (go m q q' ms q'')
  obtain t call where m: "m = Enters t call"
    using go.hyps(1) blocked_no_head [OF go.prems] by (cases m) auto
  note e = blocked_enters [OF go.hyps(1) [unfolded m] go.prems]
  note IH = go.IH [OF e(1)]
  have "mq_returned q'' u = mq_returned q u"
    if "mq_calls q'' u = Some c" "concat (ac_edit_lists c) \<noteq> []" for u c
  proof -
    have "c' = c" if "mq_calls q' u = Some c'" for c' using IH that \<open>mq_calls q'' u = Some c\<close> by auto
    then have "mq_returned q' u = mq_returned q u" using that(2) by (intro e(5)) auto
    then show ?thesis using IH that by auto
  qed
  then show ?case using IH e m by auto
qed simp

lemma failed_head:
  assumes "queue_moves ssl opts garbage (Heads t io) q q'"
    and "CollectBatch opts (mq_vset q) (map snd (mq_writers q)) = Ok (s, mb, versions)" and "s \<noteq> StatusOK"
    and "mq_calls q t = Some call" and "list_ex (undropped (mq_vset q)) (ac_cfds call)"
  shows "q' = q\<lparr>mq_returned := (mq_returned q)(t \<mapsto> s)\<rparr>" and "blocked q'"
proof -
  have h: "LogAndApplyHead ssl opts io garbage t call q = Ok q'" "mq_writers q \<noteq> []"
    "fst (hd (mq_writers q)) = t" "\<not> destroyed q (hd (mq_writers q))"
    using heads_front [OF assms(1)] assms(4) by (metis option.inject)+
  show "q' = q\<lparr>mq_returned := (mq_returned q)(t \<mapsto> s)\<rparr>"
    using h(1) assms(2,3,5) h(4)
    by (simp add: LogAndApplyHead_def ProcessManifestWrites_def Let_def fun_upd_def cong: if_cong)
  then show "blocked q'" using h(2,3) by (simp add: blocked_def destroyed_def)
qed

end
