(* ===== verification/Manifest_Invariant.thy ===== *)
theory Manifest_Invariant
  imports Manifest_Commit Manifest_Queue
begin

text \<open>
  The well-formedness of a version set, which every commit keeps: the families have different numbers,
  and the version of each has the levels of its options, its files in order and where they are said to be.
\<close>

section \<open>Well-formed version sets\<close>

definition family_wf :: "ColumnFamilyData \<Rightarrow> bool" where
  "family_wf c \<longleftrightarrow> comparator (cfd_icmp c) \<and> version_fits c \<and>
     vs_force_consistency_checks (cfd_current c) = co_force_consistency_checks (cfd_options c)"

definition vset_wf :: "VersionSet \<Rightarrow> bool" where
  "vset_wf vs \<longleftrightarrow> distinct (map cfd_id (vset_families vs)) \<and> (\<forall>c \<in> set (vset_families vs). family_wf c)"

text \<open>What the writers in the queue may ask for.\<close>

definition writer_fits :: "VersionSet \<Rightarrow> cf_options option \<Rightarrow> ManifestWriter \<Rightarrow> bool" where
  "writer_fits vs new_cf_options w \<longleftrightarrow>
     (\<forall>e \<in> set (mw_edit_list w).
        (\<forall>c \<in> set (vset_families vs). mw_cfd w = Some (cfd_id c) \<longrightarrow>
           levels_in_range (co_num_levels (cfd_options c)) e) \<and>
        (ve_is_column_family_add e \<longrightarrow> ve_column_family e \<notin> cfd_id ` set (vset_families vs))) \<and>
     (\<forall>options. new_cf_options = Some options \<longrightarrow> comparator (InternalCompare (co_compare options)))"

definition builder_fits :: "VersionSet \<Rightarrow> u32 \<times> VersionBuilder \<Rightarrow> bool" where
  "builder_fits vs p \<longleftrightarrow>
     (\<exists>c \<in> set (vset_families vs). cfd_id c = fst p \<and> builder_ok (snd p) \<and> vb_base (snd p) = cfd_current c)"

definition version_of_family :: "VersionSet \<Rightarrow> u32 \<times> VersionStorageInfo \<Rightarrow> bool" where
  "version_of_family vs p \<longleftrightarrow>
     (\<forall>c \<in> set (vset_families vs). cfd_id c = fst p \<longrightarrow> family_wf (c\<lparr>cfd_current := snd p\<rparr>))"

lemma same_id:
  "distinct (map cfd_id cs) \<Longrightarrow> c \<in> set cs \<Longrightarrow> c' \<in> set cs \<Longrightarrow> cfd_id c = cfd_id c' \<Longrightarrow> c = c'"
  unfolding distinct_map by (metis inj_onD)

lemma find_familyD:
  assumes "find_family c vs = Ok cfd"
  shows "cfd \<in> set (vset_families vs)" and "c = Some (cfd_id cfd)"
  using assms by (auto simp: find_family_def find_Some_iff of_opt_def split: option.splits)

section \<open>The builders of a group\<close>

lemma BuilderApply_keeps:
  assumes "BuilderApply icmp e b = Ok (StatusOK, b')" and "builder_ok b" and "vb_base b = base"
    and "levels_in_range (length (vs_files base)) e"
  shows "builder_ok b' \<and> vb_base b' = base"
proof -
  have levels: "num_levels b = length (vs_files base)" using builder_okD(2) [OF assms(2)] assms(3) by simp
  have "CheckConsistency icmp (num_levels b) (vb_base b) = StatusOK"
    using assms(1) by (auto simp: BuilderApply_def sbind_def split: if_split_asm)
  then have "refines base (BuilderApply icmp e) (spec_edit e)"
    using assms(3,4) levels by (intro BuilderApply_refines) simp_all
  then show ?thesis using assms(1-3) by (elim refinesD) auto
qed

lemma BuilderApply_counters:
  "ve_new_files e' = ve_new_files e \<Longrightarrow> ve_deleted_files e' = ve_deleted_files e \<Longrightarrow>
   ve_blob_file_additions e' = ve_blob_file_additions e \<Longrightarrow>
   ve_blob_file_garbages e' = ve_blob_file_garbages e \<Longrightarrow> BuilderApply icmp e' b = BuilderApply icmp e b"
  by (simp add: BuilderApply_def)

lemma LogAndApplyHelper_keeps:
  assumes "LogAndApplyHelper opts vs icmp (Some b) e = Ok (StatusOK, b', e')" and "builder_ok b"
    and "vb_base b = base" and "levels_in_range (length (vs_files base)) e"
  shows "\<exists>b1. b' = Some b1 \<and> builder_ok b1 \<and> vb_base b1 = base"
proof -
  obtain b1 where "BuilderApply icmp (helped_edit opts vs e) b = Ok (StatusOK, b1)" "b' = Some b1"
    using assms(1) unfolding LogAndApplyHelper_def Let_def helped_edit_def [symmetric]
    by (auto simp: obind_eq_Ok)
  moreover have "BuilderApply icmp (helped_edit opts vs e) b = BuilderApply icmp e b"
    by (rule BuilderApply_counters)
      (simp_all add: helped_edit_def SetLastSequence_def SetNextFile_def SetPrevLogNumber_def)
  ultimately show ?thesis using BuilderApply_keeps [OF _ assms(2-4)] by simp
qed

lemma BatchEdits_keeps:
  assumes "BatchEdits opts vs icmp es builder mb = Ok (StatusOK, builder', mb')"
    and "\<forall>e \<in> set es. levels_in_range (length (vs_files base)) e"
    and "\<forall>b. builder = Some b \<longrightarrow> builder_ok b \<and> vb_base b = base"
  shows "(\<forall>b. builder' = Some b \<longrightarrow> builder_ok b \<and> vb_base b = base) \<and> mb_builders mb' = mb_builders mb"
  using assms
proof (induction es arbitrary: builder mb)
  case (Cons e es)
  let ?mb = "mb\<lparr>mb_group_start := next_group_start e mb\<rparr>"
  obtain b1 e1 where h: "LogAndApplyHelper opts vs icmp builder e = Ok (StatusOK, b1, e1)"
    "BatchEdits opts vs icmp es b1 (?mb\<lparr>mb_edits := mb_edits ?mb @ [e1]\<rparr>) = Ok (StatusOK, builder', mb')"
    using Cons.prems(1) unfolding BatchEdits.simps Let_def
    by (elim obind_OkE) (auto split: if_split_asm)
  have "\<forall>b. b1 = Some b \<longrightarrow> builder_ok b \<and> vb_base b = base"
  proof (cases builder)
    case None
    then show ?thesis using h(1) by (auto simp: LogAndApplyHelper_def Let_def)
  next
    case (Some b)
    have "builder_ok b" "vb_base b = base" "levels_in_range (length (vs_files base)) e"
      using Some Cons.prems(2,3) by simp_all
    from LogAndApplyHelper_keeps [OF h(1) [unfolded Some] this] show ?thesis by auto
  qed
  moreover have "\<forall>e \<in> set es. levels_in_range (length (vs_files base)) e" using Cons.prems(2) by simp
  ultimately have "(\<forall>b. builder' = Some b \<longrightarrow> builder_ok b \<and> vb_base b = base) \<and>
      mb_builders mb' = mb_builders (?mb\<lparr>mb_edits := mb_edits ?mb @ [e1]\<rparr>)"
    using Cons.IH [OF h(2)] by blast
  then show ?case by simp
qed simp


lemma BatchWriter_keeps:
  assumes "vset_wf vs" and "cfd \<in> set (vset_families vs)" and "\<forall>p \<in> set (mb_builders mb). builder_fits vs p"
    and "\<forall>e \<in> set (mw_edit_list w). levels_in_range (co_num_levels (cfd_options cfd)) e"
    and "BatchWriter opts vs cfd w mb = Ok (StatusOK, mb')"
  shows "\<forall>p \<in> set (mb_builders mb'). builder_fits vs p"
proof -
  define builder where "builder = (case map_of (mb_builders mb) (cfd_id cfd) of
      Some b \<Rightarrow> Some b | None \<Rightarrow> if IsAllWalEdits w then None else Some (NewVersionBuilder (cfd_current cfd)))"
  have wf: "family_wf cfd" using assms(1,2) by (simp add: vset_wf_def)
  have start: "\<forall>b. builder = Some b \<longrightarrow> builder_ok b \<and> vb_base b = cfd_current cfd"
  proof (intro allI impI)
    fix b assume b: "builder = Some b"
    show "builder_ok b \<and> vb_base b = cfd_current cfd"
    proof (cases "map_of (mb_builders mb) (cfd_id cfd)")
      case None
      then have "b = NewVersionBuilder (cfd_current cfd)" using b by (simp add: builder_def split: if_split_asm)
      moreover have "builder_ok (NewVersionBuilder (cfd_current cfd))"
        using wf NewVersionBuilder_ok(1) [of "cfd_icmp cfd"] by (simp add: family_wf_def version_fits_def)
      moreover have "vb_base (NewVersionBuilder (cfd_current cfd)) = cfd_current cfd"
        by (simp add: NewVersionBuilder_def)
      ultimately show ?thesis by simp
    next
      case (Some b0)
      then have "builder_fits vs (cfd_id cfd, b0)" "b = b0"
        using assms(3) map_of_SomeD b by (fastforce simp: builder_def)+
      then show ?thesis using same_id assms(1,2) unfolding builder_fits_def vset_wf_def by (metis fst_conv snd_conv)
    qed
  qed
  obtain builder' mb1 where e: "BatchEdits opts vs (cfd_icmp cfd) (mw_edit_list w) builder mb = Ok (StatusOK, builder', mb1)"
    and mb': "mb' = (case builder' of None \<Rightarrow> mb1
      | Some b \<Rightarrow> mb1\<lparr>mb_builders := AList.update (cfd_id cfd) b (mb_builders mb1)\<rparr>)"
    using assms(5) unfolding BatchWriter_def Let_def builder_def [symmetric]
    by (elim obind_OkE) (auto split: prod.splits)
  have "length (vs_files (cfd_current cfd)) = co_num_levels (cfd_options cfd)"
    using wf by (simp add: family_wf_def version_fits_def)
  then have keep: "\<forall>b. builder' = Some b \<longrightarrow> builder_ok b \<and> vb_base b = cfd_current cfd"
    "mb_builders mb1 = mb_builders mb"
    using BatchEdits_keeps [OF e _ start] assms(4) by simp_all
  show ?thesis
  proof (cases builder')
    case None
    then show ?thesis using mb' keep(2) assms(3) by simp
  next
    case (Some b)
    have "builder_fits vs (cfd_id cfd, b)" using keep(1) Some assms(2) by (auto simp: builder_fits_def)
    moreover have "set (AList.update k x ps) \<subseteq> insert (k, x) (set ps)" for k x and ps :: "(u32 \<times> VersionBuilder) list"
      by (induction ps) auto
    ultimately show ?thesis using mb' Some keep(2) assms(3) by auto blast
  qed
qed

lemma BatchWriters_keeps:
  assumes "vset_wf vs" and "\<forall>w \<in> set ws. writer_fits vs new_cf w" and "\<forall>p \<in> set (mb_builders mb). builder_fits vs p"
    and "BatchWriters opts vs ws mb = Ok (StatusOK, mb')"
  shows "\<forall>p \<in> set (mb_builders mb'). builder_fits vs p"
  using assms(2-4)
proof (induction ws arbitrary: mb)
  case (Cons w ws)
  obtain e where e: "first_edit w = Ok e" using Cons.prems(3) by (cases "first_edit w") simp_all
  show ?case
  proof (cases "IsColumnFamilyManipulation e")
    case True
    then show ?thesis using Cons.prems e by simp
  next
    case False
    then obtain cfd where cfd: "find_family (mw_cfd w) vs = Ok cfd"
      using Cons.prems(3) e by (cases "find_family (mw_cfd w) vs") simp_all
    let ?mb = "mb\<lparr>mb_taken := Suc (mb_taken mb)\<rparr>"
    show ?thesis
    proof (cases "cfd_dropped cfd")
      case True
      let ?mb1 = "ShrinkAtomicGroup (mw_edit_list w) ?mb"
      have "mb_builders ?mb1 = mb_builders mb" by (simp add: ShrinkAtomicGroup_def Let_def)
      moreover have "BatchWriters opts vs ws ?mb1 = Ok (StatusOK, mb')"
        using Cons.prems(3) e False cfd True by simp
      ultimately show ?thesis using Cons.IH [of ?mb1] Cons.prems(1,2) by simp
    next
      case live: False
      then obtain mb1 where m: "BatchWriter opts vs cfd w ?mb = Ok (StatusOK, mb1)"
        "BatchWriters opts vs ws mb1 = Ok (StatusOK, mb')"
        using Cons.prems(3) e False cfd by (auto simp: sbind_def obind_eq_Ok Let_def split: if_split_asm)
      have "\<forall>e \<in> set (mw_edit_list w). levels_in_range (co_num_levels (cfd_options cfd)) e"
        using Cons.prems(1) find_familyD [OF cfd] by (auto simp: writer_fits_def)
      then have "\<forall>p \<in> set (mb_builders mb1). builder_fits vs p"
        using BatchWriter_keeps [OF assms(1) find_familyD(1) [OF cfd] _ _ m(1)] Cons.prems(2) by simp
      then show ?thesis using Cons.IH [OF _ _ m(2)] Cons.prems(1) by simp
    qed
  qed
qed simp

lemma SaveVersions_wf:
  assumes "vset_wf vs" and "\<forall>p \<in> set bs. builder_fits vs p" and "SaveVersions vs bs = Ok (StatusOK, versions)"
  shows "\<forall>p \<in> set versions. version_of_family vs p"
  using assms(2,3)
proof (induction bs arbitrary: versions)
  case (Cons p bs)
  obtain n b where p: "p = (n, b)" by (cases p)
  obtain cfd v versions' where s: "find_family (Some n) vs = Ok cfd"
    "SaveTo (cfd_icmp cfd) b (NewVersion (cfd_options cfd)) = Ok (StatusOK, v)"
    "SaveVersions vs bs = Ok (StatusOK, versions')" "versions = (n, v) # versions'"
    using Cons.prems(2) unfolding p SaveVersions.simps
    by (elim obind_OkE) (auto simp: obind_eq_Ok split: if_split_asm)
  have cfd: "cfd \<in> set (vset_families vs)" "cfd_id cfd = n" using find_familyD [OF s(1)] by auto
  have b: "builder_ok b" "vb_base b = cfd_current cfd"
    using Cons.prems(1) cfd same_id assms(1) unfolding p builder_fits_def vset_wf_def
    by (metis fst_conv list.set_intros(1) snd_conv)+
  have wf: "family_wf cfd" using cfd(1) assms(1) by (simp add: vset_wf_def)
  have levels: "num_levels b = co_num_levels (cfd_options cfd)"
    using builder_okD(2) [OF b(1)] b(2) wf by (simp add: family_wf_def version_fits_def)
  have "CheckConsistency (cfd_icmp cfd) (num_levels b) (vb_base b) = StatusOK"
    using s(2) by (auto simp: SaveTo_def sbind_def split: if_split_asm)
  then obtain v' where v': "SaveTo (cfd_icmp cfd) b (NewVersionStorageInfo (num_levels b)
      (co_force_consistency_checks (cfd_options cfd))) = Ok (CheckConsistency (cfd_icmp cfd) (num_levels b) v', v')"
    "version_ok (cfd_icmp cfd) v'" "length (vs_files v') = num_levels b"
    "vs_force_consistency_checks v' = co_force_consistency_checks (cfd_options cfd)"
    using SaveTo_saves [of "cfd_icmp cfd" b "co_force_consistency_checks (cfd_options cfd)"] b wf
    by (auto simp: family_wf_def version_fits_def)
  then have "v' = v" using s(2) levels by (simp add: NewVersion_def)
  then have "family_wf (cfd\<lparr>cfd_current := v\<rparr>)"
    using v' wf levels by (simp add: family_wf_def version_fits_def)
  then have "version_of_family vs (n, v)"
    using same_id cfd assms(1) unfolding version_of_family_def vset_wf_def by (metis fst_conv snd_conv)
  then show ?case using Cons.IH [OF _ s(3)] Cons.prems(1) s(4) by simp
qed simp


section \<open>Committing keeps the version set well-formed\<close>

lemma CollectBatch_wf:
  assumes "vset_wf vs" and "\<forall>w \<in> set queue. writer_fits vs new_cf w"
    and "CollectBatch opts vs queue = Ok (StatusOK, mb, versions)"
  shows "\<forall>p \<in> set versions. version_of_family vs p"
proof -
  obtain w ws where q: "queue = w # ws" using assms(3) by (cases queue) (simp_all add: CollectBatch_def)
  obtain e where e: "first_edit w = Ok e" using assms(3) q by (cases "first_edit w") (simp_all add: CollectBatch_def)
  show ?thesis
  proof (cases "IsColumnFamilyManipulation e")
    case True
    then show ?thesis using assms(3) q e by (simp add: CollectBatch_def)
  next
    case False
    then obtain mb1 where m: "BatchWriters opts vs queue \<lparr>mb_edits = [], mb_builders = [], mb_group_start = None,
        mb_taken = 0\<rparr> = Ok (StatusOK, mb1)" "SaveVersions vs (mb_builders mb1) = Ok (StatusOK, versions)"
      using assms(3) q e by (auto simp: CollectBatch_def obind_eq_Ok split: if_split_asm)
    have "\<forall>p \<in> set (mb_builders mb1). builder_fits vs p"
      using BatchWriters_keeps [OF assms(1,2) _ m(1)] by simp
    then show ?thesis using SaveVersions_wf [OF assms(1) _ m(2)] by blast
  qed
qed

lemma family_wf_frame [simp]:
  "family_wf (c\<lparr>cfd_log_number := n\<rparr>) = family_wf c" "family_wf (c\<lparr>cfd_dropped := d\<rparr>) = family_wf c"
  "family_wf (c\<lparr>cfd_log_number := n, cfd_current := v\<rparr>) = family_wf (c\<lparr>cfd_current := v\<rparr>)"
  by (simp_all add: family_wf_def version_fits_def)

lemma map_upd_ids [simp]:
  "(\<And>c. cfd_id (f c) = cfd_id c) \<Longrightarrow> map cfd_id (vset_families (upd_family n f vs)) = map cfd_id (vset_families vs)"
  by (simp add: upd_family_def)

lemma vset_wf_upd:
  assumes "vset_wf vs" and "\<And>c. cfd_id (f c) = cfd_id c"
    and "\<And>c. c \<in> set (vset_families vs) \<Longrightarrow> cfd_id c = n \<Longrightarrow> family_wf (f c)"
  shows "vset_wf (upd_family n f vs)"
  using assms unfolding vset_wf_def map_upd_ids [OF assms(2)] by (auto simp: upd_family_def)

lemma vset_wf_frame:
  "vset_families vs' = vset_families vs \<Longrightarrow> vset_wf vs' = vset_wf vs"
  by (simp add: vset_wf_def)

text \<open>A version that fits a family still fits when only log numbers and versions have changed.\<close>

definition same_shape :: "VersionSet \<Rightarrow> VersionSet \<Rightarrow> bool" where
  "same_shape vs vs' \<longleftrightarrow>
     map (\<lambda>c. (cfd_id c, cfd_options c)) (vset_families vs') = map (\<lambda>c. (cfd_id c, cfd_options c)) (vset_families vs)"

lemma same_shape_upd:
  "(\<And>c. cfd_id (f c) = cfd_id c \<and> cfd_options (f c) = cfd_options c) \<Longrightarrow> same_shape vs (upd_family n f vs)"
  by (simp add: same_shape_def upd_family_def)

lemma same_shape_trans: "same_shape vs1 vs2 \<Longrightarrow> same_shape vs2 vs3 \<Longrightarrow> same_shape vs1 vs3"
  by (simp add: same_shape_def)

lemma version_of_family_shape:
  assumes "same_shape vs vs'" and "version_of_family vs p"
  shows "version_of_family vs' p"
  unfolding version_of_family_def
proof (intro ballI impI)
  fix c' assume c': "c' \<in> set (vset_families vs')" "cfd_id c' = fst p"
  have "(cfd_id c', cfd_options c') \<in> set (map (\<lambda>c. (cfd_id c, cfd_options c)) (vset_families vs))"
    using assms(1) c'(1) unfolding same_shape_def by (metis (no_types, lifting) image_eqI set_map)
  then obtain c where "c \<in> set (vset_families vs)" "cfd_id c = cfd_id c'" "cfd_options c = cfd_options c'" by auto
  then show "family_wf (c'\<lparr>cfd_current := snd p\<rparr>)"
    using assms(2) c'(2) by (auto simp: version_of_family_def family_wf_def version_fits_def)
qed

lemma fold_upd_keeps:
  assumes "vset_wf vs" and "\<forall>p \<in> set versions. version_of_family vs p"
    and "\<And>p vs. vset_wf vs \<Longrightarrow> version_of_family vs p \<Longrightarrow> vset_wf (F p vs) \<and> same_shape vs (F p vs)"
  shows "vset_wf (fold F versions vs) \<and> same_shape vs (fold F versions vs)"
  using assms(1,2)
proof (induction versions arbitrary: vs)
  case (Cons p versions)
  have f: "vset_wf (F p vs)" "same_shape vs (F p vs)" using assms(3) Cons.prems by simp_all
  have later: "version_of_family (F p vs) q" if "q \<in> set versions" for q
    by (rule version_of_family_shape [OF f(2)]) (use Cons.prems(2) that in \<open>metis list.set_intros(2)\<close>)
  have "vset_wf (fold F versions (F p vs)) \<and> same_shape (F p vs) (fold F versions (F p vs))"
    by (intro Cons.IH [OF f(1)] ballI later)
  then show ?case using same_shape_trans [OF f(2)] by simp
qed (simp add: same_shape_def)

lemma InstallVersions_wf:
  assumes "vset_wf vs" and "\<forall>p \<in> set versions. version_of_family vs p"
  shows "vset_wf (InstallVersions edits versions vs)"
proof -
  let ?F = "\<lambda>(n, v) vs. let m = batch_log_number edits n in if m \<noteq> 0 then CfdSetLogNumber n m vs else vs"
  let ?G = "\<lambda>(n, v). AppendVersion n v"
  let ?vs1 = "fold ?F versions vs"
  let ?vs2 = "if batch_min_log_number edits \<noteq> 0 then MarkMinLogNumberToKeep2PC (batch_min_log_number edits) ?vs1 else ?vs1"
  have F: "vset_wf (?F p vs) \<and> same_shape vs (?F p vs)" if "vset_wf vs" for p vs
  proof -
    have "vset_wf (CfdSetLogNumber n m vs)" for n m
      unfolding CfdSetLogNumber_def by (rule vset_wf_upd [OF that]) (use that in \<open>simp_all add: vset_wf_def\<close>)
    moreover have "same_shape vs (CfdSetLogNumber n m vs)" for n m
      unfolding CfdSetLogNumber_def by (rule same_shape_upd) simp
    moreover have "same_shape vs vs" by (simp add: same_shape_def)
    ultimately show ?thesis using that by (auto simp: Let_def split: prod.splits)
  qed
  have one: "vset_wf ?vs1 \<and> same_shape vs ?vs1"
    by (rule fold_upd_keeps [OF assms]) (rule F)
  have fams: "vset_families ?vs2 = vset_families ?vs1" by (simp add: MarkMinLogNumberToKeep2PC_def)
  then have two: "vset_wf ?vs2" "same_shape vs ?vs2"
    using one by (simp_all add: vset_wf_def same_shape_def)
  have G: "vset_wf (?G p vs) \<and> same_shape vs (?G p vs)" if "vset_wf vs" "version_of_family vs p" for p vs
  proof -
    obtain n v where p: "p = (n, v)" by (cases p)
    have "vset_wf (AppendVersion n v vs)"
      unfolding AppendVersion_def
      by (rule vset_wf_upd [OF that(1)]) (use that(2) p in \<open>simp_all add: version_of_family_def\<close>)
    moreover have "same_shape vs (AppendVersion n v vs)"
      unfolding AppendVersion_def by (rule same_shape_upd) simp
    ultimately show ?thesis using p by simp
  qed
  have "\<forall>p \<in> set versions. version_of_family ?vs2 p"
    using assms(2) version_of_family_shape [OF two(2)] by blast
  then have "vset_wf (fold ?G versions ?vs2) \<and> same_shape ?vs2 (fold ?G versions ?vs2)"
    by (intro fold_upd_keeps [OF two(1)]) (blast, rule G)
  then show ?thesis unfolding InstallVersions_def Let_def by blast
qed


text \<open>The edits of a group: an edit that creates a family has a new number.\<close>

definition add_fresh :: "VersionSet \<Rightarrow> VersionEdit \<Rightarrow> bool" where
  "add_fresh vs e \<longleftrightarrow> (ve_is_column_family_add e \<longrightarrow> ve_column_family e \<notin> cfd_id ` set (vset_families vs))"

lemma add_fresh_frame [simp]:
  "add_fresh vs (SetNextFile n e) = add_fresh vs e" "add_fresh vs (SetMaxColumnFamily m e) = add_fresh vs e"
  "add_fresh vs (SetLastSequence q e) = add_fresh vs e" "add_fresh vs (SetPrevLogNumber n e) = add_fresh vs e"
  "add_fresh vs (e\<lparr>ve_remaining_entries := x\<rparr>) = add_fresh vs e"
  by (simp_all add: add_fresh_def SetNextFile_def SetMaxColumnFamily_def SetLastSequence_def SetPrevLogNumber_def)

definition edits_fresh :: "VersionSet \<Rightarrow> VersionEdit list \<Rightarrow> bool" where
  "edits_fresh vs es \<longleftrightarrow> (\<forall>e \<in> set es. add_fresh vs e)"

lemma BatchEdits_fresh:
  assumes "BatchEdits opts vs icmp es builder mb = Ok (StatusOK, builder', mb')"
    and "\<forall>e \<in> set es. add_fresh vs e" and "edits_fresh vs (mb_edits mb)"
  shows "edits_fresh vs (mb_edits mb') \<and> (es \<noteq> [] \<or> mb_edits mb \<noteq> [] \<longrightarrow> mb_edits mb' \<noteq> [])"
  using assms
proof (induction es arbitrary: builder mb)
  case (Cons e es)
  let ?mb = "mb\<lparr>mb_group_start := next_group_start e mb\<rparr>"
  obtain b1 e1 where h: "LogAndApplyHelper opts vs icmp builder e = Ok (StatusOK, b1, e1)"
    "BatchEdits opts vs icmp es b1 (?mb\<lparr>mb_edits := mb_edits ?mb @ [e1]\<rparr>) = Ok (StatusOK, builder', mb')"
    using Cons.prems(1) unfolding BatchEdits.simps Let_def
    by (elim obind_OkE) (auto split: if_split_asm)
  have "e1 = helped_edit opts vs e"
    using h(1) unfolding LogAndApplyHelper_def Let_def helped_edit_def [symmetric]
    by (auto simp: obind_eq_Ok split: option.splits)
  then have "add_fresh vs e1" using Cons.prems(2) by (simp add: helped_edit_def)
  then have "edits_fresh vs (mb_edits (?mb\<lparr>mb_edits := mb_edits ?mb @ [e1]\<rparr>))"
    using Cons.prems(3) by (auto simp: edits_fresh_def)
  moreover have "\<forall>e \<in> set es. add_fresh vs e" using Cons.prems(2) by simp
  ultimately have "edits_fresh vs (mb_edits mb') \<and>
      (es \<noteq> [] \<or> mb_edits (?mb\<lparr>mb_edits := mb_edits ?mb @ [e1]\<rparr>) \<noteq> [] \<longrightarrow> mb_edits mb' \<noteq> [])"
    using Cons.IH [OF h(2)] by blast
  then show ?case by simp
qed simp

lemma BatchWriter_fresh:
  assumes "BatchWriter opts vs cfd w mb = Ok (StatusOK, mb')"
    and "\<forall>e \<in> set (mw_edit_list w). add_fresh vs e" and "edits_fresh vs (mb_edits mb)"
  shows "edits_fresh vs (mb_edits mb') \<and> (mw_edit_list w \<noteq> [] \<or> mb_edits mb \<noteq> [] \<longrightarrow> mb_edits mb' \<noteq> [])"
proof -
  obtain builder builder' mb1 where e: "BatchEdits opts vs (cfd_icmp cfd) (mw_edit_list w) builder mb = Ok (StatusOK, builder', mb1)"
    and mb': "mb' = (case builder' of None \<Rightarrow> mb1
      | Some b \<Rightarrow> mb1\<lparr>mb_builders := AList.update (cfd_id cfd) b (mb_builders mb1)\<rparr>)"
    using assms(1) unfolding BatchWriter_def Let_def
    by (elim obind_OkE) (auto split: prod.splits)
  have "mb_edits mb' = mb_edits mb1" using mb' by (cases builder') simp_all
  then show ?thesis using BatchEdits_fresh [OF e assms(2,3)] by simp
qed

lemma ShrinkAtomicGroup_fresh:
  assumes "edits_fresh vs (mb_edits mb)"
  shows "edits_fresh vs (mb_edits (ShrinkAtomicGroup es mb))"
    and "mb_edits (ShrinkAtomicGroup es mb) = [] \<longleftrightarrow> mb_edits mb = []"
proof -
  show "edits_fresh vs (mb_edits (ShrinkAtomicGroup es mb))"
    using assms by (auto simp: ShrinkAtomicGroup_def Let_def edits_fresh_def dest: in_set_takeD in_set_dropD split: option.splits)
  show "mb_edits (ShrinkAtomicGroup es mb) = [] \<longleftrightarrow> mb_edits mb = []"
    by (auto simp: ShrinkAtomicGroup_def Let_def split: option.splits)
qed

lemma BatchWriters_fresh:
  assumes "\<forall>w \<in> set ws. writer_fits vs new_cf w" and "edits_fresh vs (mb_edits mb)"
    and "BatchWriters opts vs ws mb = Ok (StatusOK, mb')"
  shows "edits_fresh vs (mb_edits mb') \<and> (mb_edits mb \<noteq> [] \<longrightarrow> mb_edits mb' \<noteq> []) \<and>
    (\<forall>w ws' e cfd. ws = w # ws' \<and> first_edit w = Ok e \<and> \<not> IsColumnFamilyManipulation e \<and>
       find_family (mw_cfd w) vs = Ok cfd \<and> \<not> cfd_dropped cfd \<longrightarrow> mb_edits mb' \<noteq> [])"
  using assms
proof (induction ws arbitrary: mb)
  case (Cons w ws)
  obtain e where e: "first_edit w = Ok e" using Cons.prems(3) by (cases "first_edit w") simp_all
  have fresh: "\<forall>e \<in> set (mw_edit_list w). add_fresh vs e"
    using Cons.prems(1) by (simp add: writer_fits_def add_fresh_def)
  have some: "mw_edit_list w \<noteq> []" using e by (auto simp: first_edit_def)
  show ?case
  proof (cases "IsColumnFamilyManipulation e")
    case True
    then show ?thesis using Cons.prems(2,3) e by simp
  next
    case False
    then obtain cfd where cfd: "find_family (mw_cfd w) vs = Ok cfd"
      using Cons.prems(3) e by (cases "find_family (mw_cfd w) vs") simp_all
    let ?mb = "mb\<lparr>mb_taken := Suc (mb_taken mb)\<rparr>"
    have m: "edits_fresh vs (mb_edits ?mb)" using Cons.prems(2) by simp
    have ws: "\<forall>w \<in> set ws. writer_fits vs new_cf w" using Cons.prems(1) by simp
    show ?thesis
    proof (cases "cfd_dropped cfd")
      case True
      have "BatchWriters opts vs ws (ShrinkAtomicGroup (mw_edit_list w) ?mb) = Ok (StatusOK, mb')"
        using Cons.prems(3) e False cfd True by simp
      from Cons.IH [OF ws ShrinkAtomicGroup_fresh(1) [OF m] this] show ?thesis
        using ShrinkAtomicGroup_fresh(2) [OF m] e cfd True by auto
    next
      case live: False
      then obtain mb1 where w1: "BatchWriter opts vs cfd w ?mb = Ok (StatusOK, mb1)"
        "BatchWriters opts vs ws mb1 = Ok (StatusOK, mb')"
        using Cons.prems(3) e False cfd by (auto simp: sbind_def obind_eq_Ok Let_def split: if_split_asm)
      have m1: "edits_fresh vs (mb_edits mb1)" "mb_edits mb1 \<noteq> []"
        using BatchWriter_fresh [OF w1(1) fresh m] some by simp_all
      from Cons.IH [OF ws m1(1) w1(2)] show ?thesis using m1(2) by simp
    qed
  qed
qed simp


lemma CollectBatch_fresh:
  assumes "\<forall>w \<in> set queue. writer_fits vs new_cf w" and "CollectBatch opts vs queue = Ok (StatusOK, mb, versions)"
    and "first_edit (hd queue) = Ok e"
  shows "edits_fresh vs (mb_edits mb)"
    and "IsColumnFamilyManipulation e \<Longrightarrow> mb_edits mb \<noteq> []"
    and "find_family (mw_cfd (hd queue)) vs = Ok cfd \<Longrightarrow> \<not> cfd_dropped cfd \<Longrightarrow> mb_edits mb \<noteq> []"
proof -
  obtain w ws where q: "queue = w # ws" using assms(2) by (cases queue) (simp_all add: CollectBatch_def)
  have "e \<in> set (mw_edit_list w)" using assms(3) q by (auto simp: first_edit_def split: list.splits)
  then have fresh: "add_fresh vs e" using assms(1) q by (simp add: writer_fits_def add_fresh_def)
  have all: "edits_fresh vs (mb_edits mb) \<and> (IsColumnFamilyManipulation e \<longrightarrow> mb_edits mb \<noteq> []) \<and>
      (find_family (mw_cfd (hd queue)) vs = Ok cfd \<and> \<not> cfd_dropped cfd \<longrightarrow> mb_edits mb \<noteq> [])" for cfd
  proof (cases "IsColumnFamilyManipulation e")
    case True
    then have "mb_edits mb = [LogAndApplyCFHelper opts vs e]" using assms(2,3) q by (auto simp: CollectBatch_def)
    then show ?thesis using fresh by (simp add: edits_fresh_def LogAndApplyCFHelper_def Let_def)
  next
    case False
    then have "BatchWriters opts vs queue \<lparr>mb_edits = [], mb_builders = [], mb_group_start = None,
        mb_taken = 0\<rparr> = Ok (StatusOK, mb)"
      using assms(2,3) q by (auto simp: CollectBatch_def obind_eq_Ok split: if_split_asm)
    from BatchWriters_fresh [OF assms(1) _ this] show ?thesis
      using False assms(3) q by (auto simp: edits_fresh_def)
  qed
  show "edits_fresh vs (mb_edits mb)" "IsColumnFamilyManipulation e \<Longrightarrow> mb_edits mb \<noteq> []"
    "find_family (mw_cfd (hd queue)) vs = Ok cfd \<Longrightarrow> \<not> cfd_dropped cfd \<Longrightarrow> mb_edits mb \<noteq> []"
    using all [of cfd] by simp_all
qed

lemma OpenManifest_families:
  "OpenManifest ssl opts io garbage cs wa vs = Ok (s, io_s, vs') \<Longrightarrow> vset_families vs' = vset_families vs"
  unfolding OpenManifest_def by (auto simp: obind_eq_Ok split: if_split_asm)

lemma WriteBatchRecords_families:
  "WriteBatchRecords ssl io edits vs = Ok (s, io_s, vs') \<Longrightarrow> vset_families vs' = vset_families vs"
  unfolding WriteBatchRecords_def Let_def by (auto simp: obind_eq_Ok)

lemma WriteManifest_frame:
  assumes "WriteManifest ssl opts io garbage new_manifest family_edit first_in_batch edits versions vs =
      Ok (s, io_s, edits', vs')"
  shows "vset_families vs' = vset_families vs"
    and "edits_fresh vs0 edits \<Longrightarrow> edits_fresh vs0 edits'" and "edits' = [] \<longleftrightarrow> edits = []"
proof -
  let ?s = "if family_edit then StatusOK else LoadVersions opts (mio_load_tables io) versions"
  let ?start = "if new_manifest then StartManifest garbage first_in_batch edits vs
      else Ok (edits, Map.empty, NewVersionEdit garbage,
        vs\<lparr>vset_pending_manifest_file_number := vset_manifest_file_number vs\<rparr>)"
  obtain es cs wa vs1 where start: "?start = Ok (es, cs, wa, vs1)"
    using assms by (cases ?start) (simp_all add: WriteManifest_def split: prod.splits)
  let ?opened = "if ?s = StatusOK \<and> new_manifest then OpenManifest ssl opts io garbage cs wa vs1
      else Ok (?s, StatusOK, vs1)"
  obtain s2 io2 vs2 where opened: "?opened = Ok (s2, io2, vs2)"
    using assms start by (cases ?opened) (simp_all add: WriteManifest_def split: prod.splits)
  let ?written = "if s2 = StatusOK then WriteBatchRecords ssl io es vs2 else Ok (s2, io2, vs2)"
  obtain s3 io3 vs3 where written: "?written = Ok (s3, io3, vs3)"
    using assms start opened by (cases ?written) (simp_all add: WriteManifest_def split: prod.splits)
  have e: "es = edits'" "vs3 = vs'"
    using assms unfolding WriteManifest_def start Let_def obind_simps split_conv opened written
    by (simp_all split: if_split_asm)
  have rest: "vset_families vs' = vset_families vs1"
    using opened written OpenManifest_families WriteBatchRecords_families e(2)
    by (metis (no_types, lifting) outcome.inject prod.inject)
  note start = start [unfolded e(1)]
  have "vset_families vs1 = vset_families vs \<and> (edits_fresh vs0 edits \<longrightarrow> edits_fresh vs0 edits') \<and>
      (edits' = [] \<longleftrightarrow> edits = [])"
  proof (cases new_manifest)
    case True
    then obtain e es where edits: "edits \<noteq> []"
      "edits' = (let es = butlast edits @ [SetNextFile (vset_next_file_number vs + 1) (last edits)]
         in if vset_max_column_family vs > 0 \<and> first_in_batch
            then SetMaxColumnFamily (vset_max_column_family vs) (hd es) # tl es else es)"
      "vset_families vs1 = vset_families vs"
      using start by (auto simp: StartManifest_def NewFileNumber_def Let_def split: if_split_asm)
    have "edits_fresh vs0 (butlast edits @ [SetNextFile n (last edits)])" if "edits_fresh vs0 edits" for n
      using that edits(1) by (auto simp: edits_fresh_def dest: in_set_butlastD)
    moreover have "edits_fresh vs0 (SetMaxColumnFamily m (hd es) # tl es)" if "edits_fresh vs0 es" "es \<noteq> []" for m es
      using that by (cases es) (simp_all add: edits_fresh_def)
    ultimately show ?thesis using edits by (simp add: Let_def)
  next
    case False
    then show ?thesis using start by auto
  qed
  then show "vset_families vs' = vset_families vs" "edits_fresh vs0 edits \<Longrightarrow> edits_fresh vs0 edits'"
    "edits' = [] \<longleftrightarrow> edits = []"
    using rest by simp_all
qed

lemma InstallBatch_wf:
  assumes "vset_wf vs" and "add_fresh vs first" and "\<forall>p \<in> set versions. version_of_family vs p"
    and "\<And>options. new_cf = Some options \<Longrightarrow> comparator (InternalCompare (co_compare options))"
    and "InstallBatch new_manifest new_cf w first edits versions vs = Ok vs'"
  shows "vset_wf vs'"
proof -
  define vs1 where "vs1 = (if new_manifest
    then vs\<lparr>vset_obsolete_manifests := vset_obsolete_manifests vs @ [vset_manifest_file_number vs]\<rparr> else vs)"
  have vs1: "vset_families vs1 = vset_families vs" by (simp add: vs1_def)
  then have wf1: "vset_wf vs1" "\<forall>p \<in> set versions. version_of_family vs1 p" "add_fresh vs1 first"
    using assms(1-3) by (simp_all add: vset_wf_def version_of_family_def add_fresh_def)
  have created: "vset_wf (CreateColumnFamily options first vs1)"
    if "ve_is_column_family_add first" "comparator (InternalCompare (co_compare options))" for options
    using that wf1(1,3) NewVersion_ok
    by (auto simp: CreateColumnFamily_def UpdateMaxColumnFamily_def Let_def vset_wf_def add_fresh_def
        family_wf_def version_fits_def NewVersion_def NewVersionStorageInfo_def)
  have dropped: "vset_wf (SetDropped n vs1)" for n
    unfolding SetDropped_def by (rule vset_wf_upd [OF wf1(1)]) (use wf1(1) in \<open>simp_all add: vset_wf_def\<close>)
  obtain vs2 where vs2: "(if ve_is_column_family_add first then
        obind (of_opt new_cf) (\<lambda>options. Ok (CreateColumnFamily options first vs1))
      else if ve_is_column_family_drop first then obind (of_opt (mw_cfd w)) (\<lambda>n. Ok (SetDropped n vs1))
      else Ok (InstallVersions edits versions vs1)) = Ok vs2" "vset_families vs' = vset_families vs2"
    using assms(5) unfolding InstallBatch_def Let_def vs1_def [symmetric] by (elim obind_OkE) auto
  have "vset_wf vs2"
    using vs2(1) created dropped InstallVersions_wf [OF wf1(1,2)] assms(4)
    by (auto simp: obind_eq_Ok of_opt_def split: if_split_asm option.splits)
  then show ?thesis using vs2(2) by (simp add: vset_wf_def)
qed

lemma ProcessManifestWrites_wf:
  assumes "vset_wf vs" and "\<forall>w \<in> set queue. writer_fits vs new_cf w"
    and "ProcessManifestWrites ssl opts io garbage new_descriptor_log new_cf queue vs = Ok (s, rest, vs')"
  shows "vset_wf vs'"
proof -
  obtain s0 mb versions where cb: "CollectBatch opts vs queue = Ok (s0, mb, versions)"
    using assms(3) by (cases "CollectBatch opts vs queue") (auto simp: ProcessManifestWrites_def)
  show ?thesis
  proof (cases "s0 = StatusOK")
    case False
    then show ?thesis using assms(1,3) cb by (auto simp: ProcessManifestWrites_def)
  next
    case True
    note cb = cb [unfolded True]
    obtain e where e: "first_edit (hd queue) = Ok e"
      using assms(3) cb by (cases "first_edit (hd queue)") (auto simp: ProcessManifestWrites_def)
    let ?nm = "NeedNewManifest opts new_descriptor_log vs" and ?fe = "IsColumnFamilyManipulation e"
    let ?fd = "if ?fe then Ok False else obind (find_family (mw_cfd (hd queue)) vs) (\<lambda>cfd. Ok (cfd_dropped cfd))"
    note unfolded = assms(3) [unfolded ProcessManifestWrites_def cb Let_def obind_simps split_conv e, simplified]
    obtain fd where fd: "?fd = Ok fd" using unfolded by (cases ?fd) simp_all
    let ?wm = "WriteManifest ssl opts io garbage ?nm ?fe (\<not> fd) (mb_edits mb) versions vs"
    obtain s1 io_s edits vs1 where wm: "?wm = Ok (s1, io_s, edits, vs1)"
      using unfolded fd by (cases ?wm) (simp_all split: prod.splits)
    note frame = WriteManifest_frame [OF wm] and fresh = CollectBatch_fresh [OF assms(2) cb e]
    have wf1: "vset_wf vs1" using assms(1) frame(1) by (simp add: vset_wf_def)
    let ?applied = "if s1 = StatusOK then ApplyWalEdits edits (vset_wals vs1) else (s1, vset_wals vs1)"
    let ?vs2 = "vs1\<lparr>vset_wals := snd ?applied, vset_io_status := (if io_s \<noteq> StatusOK then
        (if vset_io_status vs1 = StatusOK then io_s else vset_io_status vs1) else StatusOK)\<rparr>"
    let ?first = "if fd then e else hd edits"
    have fams: "vset_families ?vs2 = vset_families vs" using frame(1) by simp
    have wf2: "vset_wf ?vs2" "\<forall>p \<in> set versions. version_of_family ?vs2 p"
      using assms(1) CollectBatch_wf [OF assms(1,2) cb] fams
      by (simp_all add: vset_wf_def version_of_family_def)
    have first: "add_fresh ?vs2 ?first"
    proof (cases fd)
      case True
      have "e \<in> set (mw_edit_list (hd queue))" using e by (auto simp: first_edit_def split: list.splits)
      moreover have "hd queue \<in> set queue" using cb by (cases queue) (simp_all add: CollectBatch_def)
      ultimately show ?thesis using assms(2) True fams by (simp add: add_fresh_def writer_fits_def)
    next
      case False
      have "mb_edits mb \<noteq> []"
      proof (cases ?fe)
        case True
        then show ?thesis using fresh(2) by simp
      next
        case nofe: False
        then obtain cfd where "find_family (mw_cfd (hd queue)) vs = Ok cfd" "\<not> cfd_dropped cfd"
          using fd False by (auto simp: obind_eq_Ok)
        then show ?thesis using fresh(3) by simp
      qed
      then have "edits \<noteq> []" "edits_fresh vs edits" using frame(2,3) fresh(1) by simp_all
      then show ?thesis using False fams by (cases edits) (simp_all add: edits_fresh_def add_fresh_def)
    qed
    show ?thesis
    proof (cases "fst ?applied = StatusOK")
      case True
      obtain vs3 where vs3: "InstallBatch ?nm new_cf (hd queue) ?first edits versions ?vs2 = Ok vs3"
        "vs' = vs3\<lparr>vset_pending_manifest_file_number := 0\<rparr>"
        using unfolded fd wm True
        by (cases "InstallBatch ?nm new_cf (hd queue) ?first edits versions ?vs2") simp_all
      have "comparator (InternalCompare (co_compare options))" if "new_cf = Some options" for options
      proof -
        have "hd queue \<in> set queue" using cb by (cases queue) (simp_all add: CollectBatch_def)
        then show ?thesis using assms(2) that unfolding writer_fits_def by blast
      qed
      then have "vset_wf vs3" using InstallBatch_wf [OF wf2(1) first wf2(2) _ vs3(1)] by blast
      then show ?thesis using vs3(2) by (simp add: vset_wf_def)
    next
      case False
      then have "vset_families vs' = vset_families ?vs2" using unfolded fd wm by auto
      then show ?thesis using wf2(1) by (simp add: vset_wf_def)
    qed
  qed
qed

end
