(* ===== verification/Skip_List.thy ===== *)
theory Skip_List
  imports Slices
begin

text \<open>
  The skip list of the MemTable (\<open>memtable/inlineskiplist.h\<close>): nodes allocated with a height, the
  links of each level, look-up, iteration and the insertion that caches the place of the last
  insertion in a splice. Nodes are numbered in the order of their allocation, the head is node 0;
  a node is the bytes of its key and its array of links, in which a fresh node keeps its height.
  The order is an argument, \<open>comparator\<close> is what the lemmas need of it. Concurrent insertion
  (\<open>UseCAS\<close>) and the memory order of the links are left out.
\<close>

section \<open>Nodes and links\<close>

text \<open>What a link of a node's array holds: nothing yet, the stashed height, or a pointer.\<close>

datatype cell = Garbage | Stash nat | Link "nat option"

record Node =
  nd_key :: bytes
  nd_next :: "cell list"

record Splice =
  sp_height :: nat
  sp_prev :: "nat list"
  sp_next :: "nat option list"

record InlineSkipList =
  sl_kMaxHeight :: nat
  sl_kBranching :: nat
  sl_kScaledInverseBranching :: u32
  sl_nodes :: "Node list"
  sl_max_height :: nat
  sl_seq_splice :: Splice

definition kMaxPossibleHeight :: nat where
  "kMaxPossibleHeight = 32"

definition kMaxNext :: u32 where
  "kMaxNext = 2147483647"

definition StashHeight :: "nat \<Rightarrow> Node \<Rightarrow> Node" where
  "StashHeight height x = x\<lparr>nd_next := (nd_next x)[0 := Stash height]\<rparr>"

definition UnstashHeight :: "InlineSkipList \<Rightarrow> nat \<Rightarrow> nat outcome" where
  "UnstashHeight s x =
     (if x < length (sl_nodes s) \<and> nd_next (sl_nodes s ! x) \<noteq> [] then
        (case nd_next (sl_nodes s ! x) ! 0 of Stash h \<Rightarrow> Ok h | _ \<Rightarrow> Undef)
      else Undef)"

text \<open>The head has no key.\<close>

definition NodeKey :: "InlineSkipList \<Rightarrow> nat \<Rightarrow> bytes outcome" where
  "NodeKey s x = (if 0 < x \<and> x < length (sl_nodes s) then Ok (nd_key (sl_nodes s ! x)) else Undef)"

definition NodeNext :: "InlineSkipList \<Rightarrow> nat \<Rightarrow> nat \<Rightarrow> nat option outcome" where
  "NodeNext s x n =
     (if x < length (sl_nodes s) \<and> n < length (nd_next (sl_nodes s ! x)) then
        (case nd_next (sl_nodes s ! x) ! n of Link y \<Rightarrow> Ok y | _ \<Rightarrow> Undef)
      else Undef)"

definition NodeSetNext ::
    "InlineSkipList \<Rightarrow> nat \<Rightarrow> nat \<Rightarrow> nat option \<Rightarrow> InlineSkipList outcome" where
  "NodeSetNext s x n y =
     (if x < length (sl_nodes s) \<and> n < length (nd_next (sl_nodes s ! x)) then
        Ok (s\<lparr>sl_nodes := (sl_nodes s)
              [x := (sl_nodes s ! x)\<lparr>nd_next := (nd_next (sl_nodes s ! x))[n := Link y]\<rparr>]\<rparr>)
      else Undef)"

section \<open>Allocation and construction\<close>

text \<open>One draw of the random generator per level; \<open>draws\<close> are its results.\<close>

function RandomHeightLoop :: "nat \<Rightarrow> u32 \<Rightarrow> (nat \<Rightarrow> u32) \<Rightarrow> nat \<Rightarrow> nat" where
  "RandomHeightLoop kMaxHeight scaled draws height =
     (if height < kMaxHeight \<and> height < kMaxPossibleHeight \<and> draws height < scaled
      then RandomHeightLoop kMaxHeight scaled draws (height + 1) else height)"
  by pat_completeness auto
termination by (relation "measure (\<lambda>(k, _, _, h). k - h)") auto

declare RandomHeightLoop.simps [simp del]

definition RandomHeight :: "InlineSkipList \<Rightarrow> (nat \<Rightarrow> u32) \<Rightarrow> nat" where
  "RandomHeight s draws =
     RandomHeightLoop (sl_kMaxHeight s) (sl_kScaledInverseBranching s) draws 1"

text \<open>A new node is the last of the list; \<open>key\<close> is what the caller writes into its buffer.\<close>

definition AllocateNode :: "bytes \<Rightarrow> nat \<Rightarrow> InlineSkipList \<Rightarrow> nat \<times> InlineSkipList" where
  "AllocateNode key height s =
     (length (sl_nodes s),
      s\<lparr>sl_nodes := sl_nodes s @
          [StashHeight height \<lparr>nd_key = key, nd_next = replicate height Garbage\<rparr>]\<rparr>)"

definition AllocateKey :: "bytes \<Rightarrow> (nat \<Rightarrow> u32) \<Rightarrow> InlineSkipList \<Rightarrow> nat \<times> InlineSkipList" where
  "AllocateKey key draws s = AllocateNode key (RandomHeight s draws) s"

text \<open>The arrays of a splice are not initialised: \<open>garbage\<close> is what the memory held.\<close>

definition AllocateSplice ::
    "InlineSkipList \<Rightarrow> (nat \<Rightarrow> nat) \<times> (nat \<Rightarrow> nat option) \<Rightarrow> Splice" where
  "AllocateSplice s garbage =
     \<lparr>sp_height = 0, sp_prev = map (fst garbage) [0..<sl_kMaxHeight s + 1],
      sp_next = map (snd garbage) [0..<sl_kMaxHeight s + 1]\<rparr>"

definition MakeInlineSkipList ::
    "nat \<Rightarrow> nat \<Rightarrow> (nat \<Rightarrow> nat) \<times> (nat \<Rightarrow> nat option) \<Rightarrow> InlineSkipList" where
  "MakeInlineSkipList max_height branching_factor garbage =
     (let s = \<lparr>sl_kMaxHeight = max_height, sl_kBranching = branching_factor,
               sl_kScaledInverseBranching = (kMaxNext + 1) div word_of_nat branching_factor,
               sl_nodes = [], sl_max_height = 1,
               sl_seq_splice = \<lparr>sp_height = 0, sp_prev = [], sp_next = []\<rparr>\<rparr>;
          s = snd (AllocateNode [] max_height s);
          s = s\<lparr>sl_seq_splice := AllocateSplice s garbage\<rparr>
      in s\<lparr>sl_nodes := [(sl_nodes s ! 0)\<lparr>nd_next := replicate max_height (Link None)\<rparr>]\<rparr>)"

section \<open>Look-up\<close>

definition KeyIsAfterNode ::
    "(bytes \<Rightarrow> bytes \<Rightarrow> int) \<Rightarrow> InlineSkipList \<Rightarrow> bytes \<Rightarrow> nat option \<Rightarrow> bool outcome" where
  "KeyIsAfterNode cmp s key n =
     (case n of None \<Rightarrow> Ok False | Some y \<Rightarrow> obind (NodeKey s y) (\<lambda>k. Ok (cmp k key < 0)))"

text \<open>The comparison of one round, which a link seen on the level above saves.\<close>

definition CompareNext ::
    "(bytes \<Rightarrow> bytes \<Rightarrow> int) \<Rightarrow> InlineSkipList \<Rightarrow> bytes \<Rightarrow> nat option \<Rightarrow> nat option \<Rightarrow> int outcome" where
  "CompareNext cmp s key last_bigger n =
     (case n of None \<Rightarrow> Ok 1
      | Some y \<Rightarrow> if n = last_bigger then Ok 1 else obind (NodeKey s y) (\<lambda>k. Ok (cmp k key)))"

partial_function (option) FindGreaterOrEqualLoop ::
    "(bytes \<Rightarrow> bytes \<Rightarrow> int) \<Rightarrow> InlineSkipList \<Rightarrow> bytes \<Rightarrow> nat \<Rightarrow> nat \<Rightarrow> nat option \<Rightarrow> nat option run" where
  "FindGreaterOrEqualLoop cmp s key x level last_bigger =
     (case NodeNext s x level of
        Undef \<Rightarrow> Some Undef | Exit \<Rightarrow> Some Exit
      | Ok n \<Rightarrow>
        (case CompareNext cmp s key last_bigger n of
           Undef \<Rightarrow> Some Undef | Exit \<Rightarrow> Some Exit
         | Ok c \<Rightarrow>
           (if c = 0 \<or> 0 < c \<and> level = 0 then Some (Ok n)
            else if c < 0 then FindGreaterOrEqualLoop cmp s key (the n) level last_bigger
            else FindGreaterOrEqualLoop cmp s key x (level - 1) n)))"

definition FindGreaterOrEqual ::
    "(bytes \<Rightarrow> bytes \<Rightarrow> int) \<Rightarrow> InlineSkipList \<Rightarrow> bytes \<Rightarrow> nat option run" where
  "FindGreaterOrEqual cmp s key = FindGreaterOrEqualLoop cmp s key 0 (sl_max_height s - 1) None"

text \<open>The array \<open>prev\<close> of the caller, when there is one.\<close>

definition StorePrev :: "nat list option \<Rightarrow> nat \<Rightarrow> nat \<Rightarrow> nat list option outcome" where
  "StorePrev prev level x =
     (case prev of None \<Rightarrow> Ok None
      | Some p \<Rightarrow> if level < length p then Ok (Some (p[level := x])) else Undef)"

partial_function (option) FindLessThanLoop ::
    "(bytes \<Rightarrow> bytes \<Rightarrow> int) \<Rightarrow> InlineSkipList \<Rightarrow> bytes \<Rightarrow> nat list option \<Rightarrow> nat \<Rightarrow> nat \<Rightarrow> nat \<Rightarrow>
     nat option \<Rightarrow> (nat \<times> nat list option) run" where
  "FindLessThanLoop cmp s key prev bottom_level x level last_not_after =
     (case NodeNext s x level of
        Undef \<Rightarrow> Some Undef | Exit \<Rightarrow> Some Exit
      | Ok n \<Rightarrow>
        (case (if n \<noteq> last_not_after then KeyIsAfterNode cmp s key n else Ok False) of
           Undef \<Rightarrow> Some Undef | Exit \<Rightarrow> Some Exit
         | Ok after \<Rightarrow>
           (if after then
              FindLessThanLoop cmp s key prev bottom_level (the n) level last_not_after
            else
              (case StorePrev prev level x of
                 Undef \<Rightarrow> Some Undef | Exit \<Rightarrow> Some Exit
               | Ok prev \<Rightarrow>
                 (if level = bottom_level then Some (Ok (x, prev))
                  else FindLessThanLoop cmp s key prev bottom_level x (level - 1) n)))))"

definition FindLessThanFrom ::
    "(bytes \<Rightarrow> bytes \<Rightarrow> int) \<Rightarrow> InlineSkipList \<Rightarrow> bytes \<Rightarrow> nat list option \<Rightarrow> nat \<Rightarrow> nat \<Rightarrow> nat \<Rightarrow>
     (nat \<times> nat list option) run" where
  "FindLessThanFrom cmp s key prev start top_level bottom_level =
     FindLessThanLoop cmp s key prev bottom_level start (top_level - 1) None"

definition FindLessThan ::
    "(bytes \<Rightarrow> bytes \<Rightarrow> int) \<Rightarrow> InlineSkipList \<Rightarrow> bytes \<Rightarrow> nat list option \<Rightarrow>
     (nat \<times> nat list option) run" where
  "FindLessThan cmp s key prev = FindLessThanFrom cmp s key prev 0 (sl_max_height s) 0"

partial_function (option) FindLastLoop :: "InlineSkipList \<Rightarrow> nat \<Rightarrow> nat \<Rightarrow> nat run" where
  "FindLastLoop s x level =
     (case NodeNext s x level of
        Undef \<Rightarrow> Some Undef | Exit \<Rightarrow> Some Exit
      | Ok None \<Rightarrow> (if level = 0 then Some (Ok x) else FindLastLoop s x (level - 1))
      | Ok (Some n) \<Rightarrow> FindLastLoop s n level)"

definition FindLast :: "InlineSkipList \<Rightarrow> nat run" where
  "FindLast s = FindLastLoop s 0 (sl_max_height s - 1)"

partial_function (option) EstimateCountLoop ::
    "(bytes \<Rightarrow> bytes \<Rightarrow> int) \<Rightarrow> InlineSkipList \<Rightarrow> bytes \<Rightarrow> nat \<Rightarrow> nat \<Rightarrow> u64 \<Rightarrow> u64 run" where
  "EstimateCountLoop cmp s key x level count =
     (case NodeNext s x level of
        Undef \<Rightarrow> Some Undef | Exit \<Rightarrow> Some Exit
      | Ok n \<Rightarrow>
        (case (case n of None \<Rightarrow> Ok True
                | Some y \<Rightarrow> obind (NodeKey s y) (\<lambda>k. Ok (0 \<le> cmp k key))) of
           Undef \<Rightarrow> Some Undef | Exit \<Rightarrow> Some Exit
         | Ok stop \<Rightarrow>
           (if stop then
              (if level = 0 then Some (Ok count)
               else EstimateCountLoop cmp s key x (level - 1) (count * word_of_nat (sl_kBranching s)))
            else EstimateCountLoop cmp s key (the n) level (count + 1))))"

definition EstimateCount ::
    "(bytes \<Rightarrow> bytes \<Rightarrow> int) \<Rightarrow> InlineSkipList \<Rightarrow> bytes \<Rightarrow> u64 run" where
  "EstimateCount cmp s key = EstimateCountLoop cmp s key 0 (sl_max_height s - 1) 0"

definition ListContains ::
    "(bytes \<Rightarrow> bytes \<Rightarrow> int) \<Rightarrow> InlineSkipList \<Rightarrow> bytes \<Rightarrow> bool run" where
  "ListContains cmp s key =
     rbind (FindGreaterOrEqual cmp s key) (\<lambda>x.
       case x of None \<Rightarrow> Some (Ok False)
       | Some y \<Rightarrow> Some (obind (NodeKey s y) (\<lambda>k. Ok (cmp key k = 0))))"


section \<open>The iterator\<close>

text \<open>An iterator is its node, \<open>None\<close> when it is not valid.\<close>

definition IterNext :: "InlineSkipList \<Rightarrow> nat option \<Rightarrow> nat option outcome" where
  "IterNext s node = (case node of None \<Rightarrow> Undef | Some x \<Rightarrow> NodeNext s x 0)"

definition IterNodeKey :: "InlineSkipList \<Rightarrow> nat option \<Rightarrow> bytes outcome" where
  "IterNodeKey s node = (case node of None \<Rightarrow> Undef | Some x \<Rightarrow> NodeKey s x)"

definition IterPrev ::
    "(bytes \<Rightarrow> bytes \<Rightarrow> int) \<Rightarrow> InlineSkipList \<Rightarrow> nat option \<Rightarrow> nat option run" where
  "IterPrev cmp s node =
     rbind (Some (IterNodeKey s node)) (\<lambda>key.
     rbind (FindLessThan cmp s key None) (\<lambda>(x, _). Some (Ok (if x = 0 then None else Some x))))"

definition IterSeek ::
    "(bytes \<Rightarrow> bytes \<Rightarrow> int) \<Rightarrow> InlineSkipList \<Rightarrow> bytes \<Rightarrow> nat option run" where
  "IterSeek cmp s target = FindGreaterOrEqual cmp s target"

definition IterSeekToFirst :: "InlineSkipList \<Rightarrow> nat option outcome" where
  "IterSeekToFirst s = NodeNext s 0 0"

definition IterSeekToLast :: "InlineSkipList \<Rightarrow> nat option run" where
  "IterSeekToLast s = rbind (FindLast s) (\<lambda>x. Some (Ok (if x = 0 then None else Some x)))"

partial_function (option) IterRetreat ::
    "(bytes \<Rightarrow> bytes \<Rightarrow> int) \<Rightarrow> InlineSkipList \<Rightarrow> bytes \<Rightarrow> nat option \<Rightarrow> nat option run" where
  "IterRetreat cmp s target node =
     (case node of None \<Rightarrow> Some (Ok None)
      | Some x \<Rightarrow>
        (case NodeKey s x of
           Undef \<Rightarrow> Some Undef | Exit \<Rightarrow> Some Exit
         | Ok k \<Rightarrow>
           (if cmp target k < 0 then
              (case IterPrev cmp s node of
                 None \<Rightarrow> None | Some Undef \<Rightarrow> Some Undef | Some Exit \<Rightarrow> Some Exit
               | Some (Ok node) \<Rightarrow> IterRetreat cmp s target node)
            else Some (Ok node))))"

definition IterSeekForPrev ::
    "(bytes \<Rightarrow> bytes \<Rightarrow> int) \<Rightarrow> InlineSkipList \<Rightarrow> bytes \<Rightarrow> nat option run" where
  "IterSeekForPrev cmp s target =
     rbind (IterSeek cmp s target) (\<lambda>node.
     rbind (if node = None then IterSeekToLast s else Some (Ok node)) (IterRetreat cmp s target))"

section \<open>Insertion\<close>

definition array_at :: "'a list \<Rightarrow> nat \<Rightarrow> 'a outcome" where
  "array_at xs i = (if i < length xs then Ok (xs ! i) else Undef)"

definition SpliceSet :: "nat \<Rightarrow> nat \<Rightarrow> nat option \<Rightarrow> Splice \<Rightarrow> Splice outcome" where
  "SpliceSet i p n sp =
     (if i < length (sp_prev sp) \<and> i < length (sp_next sp)
      then Ok (sp\<lparr>sp_prev := (sp_prev sp)[i := p], sp_next := (sp_next sp)[i := n]\<rparr>)
      else Undef)"

partial_function (option) FindSpliceForLevel ::
    "(bytes \<Rightarrow> bytes \<Rightarrow> int) \<Rightarrow> InlineSkipList \<Rightarrow> bytes \<Rightarrow> nat \<Rightarrow> nat option \<Rightarrow> nat \<Rightarrow>
     (nat \<times> nat option) run" where
  "FindSpliceForLevel cmp s key before after level =
     (case NodeNext s before level of
        Undef \<Rightarrow> Some Undef | Exit \<Rightarrow> Some Exit
      | Ok n \<Rightarrow>
        (case (if n = after then Ok False else KeyIsAfterNode cmp s key n) of
           Undef \<Rightarrow> Some Undef | Exit \<Rightarrow> Some Exit
         | Ok go \<Rightarrow>
           (if go then FindSpliceForLevel cmp s key (the n) after level
            else Some (Ok (before, n)))))"

text \<open>The levels below \<open>recompute_level\<close>, from the highest down.\<close>

fun RecomputeSpliceLevels ::
    "(bytes \<Rightarrow> bytes \<Rightarrow> int) \<Rightarrow> InlineSkipList \<Rightarrow> bytes \<Rightarrow> nat \<Rightarrow> Splice \<Rightarrow> Splice run" where
  "RecomputeSpliceLevels cmp s key 0 sp = Some (Ok sp)"
| "RecomputeSpliceLevels cmp s key (Suc i) sp =
     rbind (Some (array_at (sp_prev sp) (i + 1))) (\<lambda>before.
     rbind (Some (array_at (sp_next sp) (i + 1))) (\<lambda>after.
     rbind (FindSpliceForLevel cmp s key before after i) (\<lambda>(p, n).
     rbind (Some (SpliceSet i p n sp)) (RecomputeSpliceLevels cmp s key i))))"

text \<open>Skip the levels that hold the same node.\<close>

function SkipSame :: "'a list \<Rightarrow> 'a \<Rightarrow> nat \<Rightarrow> nat outcome" where
  "SkipSame xs bad i =
     (if i < length xs then (if xs ! i = bad then SkipSame xs bad (i + 1) else Ok i) else Undef)"
  by pat_completeness auto
termination by (relation "measure (\<lambda>(xs, _, i). length xs - i)") auto

declare SkipSame.simps [simp del]

text \<open>
  One round of the search for a level whose splice brackets the key: \<open>None\<close> when this one does,
  otherwise the level to go on at.
\<close>

definition BracketStep ::
    "(bytes \<Rightarrow> bytes \<Rightarrow> int) \<Rightarrow> InlineSkipList \<Rightarrow> bytes \<Rightarrow> Splice \<Rightarrow> bool \<Rightarrow> nat \<Rightarrow>
     nat option outcome" where
  "BracketStep cmp s key sp allow_partial_splice_fix i =
     obind (array_at (sp_prev sp) i) (\<lambda>p.
     obind (array_at (sp_next sp) i) (\<lambda>q.
     obind (NodeNext s p i) (\<lambda>n.
       if n \<noteq> q then Ok (Some (i + 1))
       else
         obind (if p \<noteq> 0 then KeyIsAfterNode cmp s key (Some p) else Ok True) (\<lambda>after_prev.
         if \<not> after_prev then
           (if allow_partial_splice_fix then obind (SkipSame (sp_prev sp) p i) (\<lambda>i. Ok (Some i))
            else Ok (Some (sl_max_height s)))
         else
           obind (KeyIsAfterNode cmp s key q) (\<lambda>after_next.
           if after_next then
             (if allow_partial_splice_fix then obind (SkipSame (sp_next sp) q i) (\<lambda>i. Ok (Some i))
              else Ok (Some (sl_max_height s)))
           else Ok None)))))"

partial_function (option) BracketLoop ::
    "(bytes \<Rightarrow> bytes \<Rightarrow> int) \<Rightarrow> InlineSkipList \<Rightarrow> bytes \<Rightarrow> Splice \<Rightarrow> bool \<Rightarrow> nat \<Rightarrow> nat run" where
  "BracketLoop cmp s key sp allow_partial_splice_fix recompute_height =
     (if recompute_height < sl_max_height s then
        (case BracketStep cmp s key sp allow_partial_splice_fix recompute_height of
           Undef \<Rightarrow> Some Undef | Exit \<Rightarrow> Some Exit
         | Ok None \<Rightarrow> Some (Ok recompute_height)
         | Ok (Some i) \<Rightarrow> BracketLoop cmp s key sp allow_partial_splice_fix i)
      else Some (Ok recompute_height))"

text \<open>
  The splice before its levels are recomputed, with how many of them are: a splice of an older
  height starts again from the top.
\<close>

definition PrepareSplice ::
    "(bytes \<Rightarrow> bytes \<Rightarrow> int) \<Rightarrow> InlineSkipList \<Rightarrow> bytes \<Rightarrow> bool \<Rightarrow> Splice \<Rightarrow> (nat \<times> Splice) run" where
  "PrepareSplice cmp s key allow_partial_splice_fix sp =
     (let max_height = sl_max_height s in
      if sp_height sp < max_height then
        rbind (Some (SpliceSet max_height 0 None sp)) (\<lambda>sp.
          Some (Ok (max_height, sp\<lparr>sp_height := max_height\<rparr>)))
      else rbind (BracketLoop cmp s key sp allow_partial_splice_fix 0) (\<lambda>r. Some (Ok (r, sp))))"

text \<open>Does the key of the new node equal its neighbour's on the lowest level?\<close>

definition DuplicateKey ::
    "(bytes \<Rightarrow> bytes \<Rightarrow> int) \<Rightarrow> InlineSkipList \<Rightarrow> bytes \<Rightarrow> nat \<Rightarrow> nat option \<Rightarrow> bool outcome" where
  "DuplicateKey cmp s key p n =
     obind (case n of None \<Rightarrow> Ok False | Some y \<Rightarrow> obind (NodeKey s y) (\<lambda>k. Ok (0 \<le> cmp key k)))
       (\<lambda>next_dup.
         if next_dup then Ok True
         else if p = 0 then Ok False
         else obind (NodeKey s p) (\<lambda>k. Ok (0 \<le> cmp k key)))"

text \<open>
  The splice of a level above the recomputed ones, which may have become stale: insertions with
  another splice put nodes into it.
\<close>

definition FixLevel ::
    "(bytes \<Rightarrow> bytes \<Rightarrow> int) \<Rightarrow> InlineSkipList \<Rightarrow> bytes \<Rightarrow> nat \<Rightarrow> nat \<Rightarrow> Splice \<Rightarrow>
     (nat \<times> nat option) run" where
  "FixLevel cmp s key recompute_height i sp =
     rbind (Some (array_at (sp_prev sp) i)) (\<lambda>p.
     rbind (Some (array_at (sp_next sp) i)) (\<lambda>q.
       if recompute_height \<le> i then
         rbind (Some (NodeNext s p i)) (\<lambda>nx.
           if nx \<noteq> q then FindSpliceForLevel cmp s key p None i else Some (Ok (p, q)))
       else Some (Ok (p, q))))"

text \<open>
  The links of the new node \<open>x\<close> on \<open>n\<close> levels from level \<open>i\<close> on; false when its key is there
  already.
\<close>

fun LinkLevels ::
    "(bytes \<Rightarrow> bytes \<Rightarrow> int) \<Rightarrow> bytes \<Rightarrow> nat \<Rightarrow> nat \<Rightarrow> nat \<Rightarrow> nat \<Rightarrow> InlineSkipList \<Rightarrow> Splice \<Rightarrow>
     (bool \<times> InlineSkipList \<times> Splice) run" where
  "LinkLevels cmp key x recompute_height 0 i s sp = Some (Ok (True, s, sp))"
| "LinkLevels cmp key x recompute_height (Suc n) i s sp =
     rbind (FixLevel cmp s key recompute_height i sp) (\<lambda>(p, q).
     rbind (Some (SpliceSet i p q sp)) (\<lambda>sp.
     rbind (if i = 0 then Some (DuplicateKey cmp s key p q) else Some (Ok False)) (\<lambda>dup.
       if dup then Some (Ok (False, s, sp))
       else
         rbind (Some (NodeSetNext s x i q)) (\<lambda>s.
         rbind (Some (NodeSetNext s p i (Some x))) (\<lambda>s.
           LinkLevels cmp key x recompute_height n (i + 1) s sp)))))"

definition InsertSplice ::
    "(bytes \<Rightarrow> bytes \<Rightarrow> int) \<Rightarrow> nat \<Rightarrow> bool \<Rightarrow> InlineSkipList \<Rightarrow> Splice \<Rightarrow>
     (bool \<times> InlineSkipList \<times> Splice) run" where
  "InsertSplice cmp x allow_partial_splice_fix s sp =
     rbind (Some (NodeKey s x)) (\<lambda>key.
     rbind (Some (UnstashHeight s x)) (\<lambda>height.
     let s = (if sl_max_height s < height then s\<lparr>sl_max_height := height\<rparr> else s) in
     rbind (PrepareSplice cmp s key allow_partial_splice_fix sp) (\<lambda>(recompute_height, sp).
     rbind (RecomputeSpliceLevels cmp s key recompute_height sp) (\<lambda>sp.
     rbind (LinkLevels cmp key x recompute_height height 0 s sp) (\<lambda>(inserted, s, sp).
       if \<not> inserted then Some (Ok (False, s, sp))
       else if length (sp_prev sp) < height then Some Undef
       else Some (Ok (True, s,
              sp\<lparr>sp_prev := replicate height x @ drop height (sp_prev sp)\<rparr>)))))))"

definition ListInsert ::
    "(bytes \<Rightarrow> bytes \<Rightarrow> int) \<Rightarrow> nat \<Rightarrow> InlineSkipList \<Rightarrow> (bool \<times> InlineSkipList) run" where
  "ListInsert cmp x s =
     rbind (InsertSplice cmp x False s (sl_seq_splice s)) (\<lambda>(res, s, sp).
       Some (Ok (res, s\<lparr>sl_seq_splice := sp\<rparr>)))"

text \<open>\<open>hint\<close> is the caller's splice; the first insertion allocates it.\<close>

definition ListInsertWithHint ::
    "(bytes \<Rightarrow> bytes \<Rightarrow> int) \<Rightarrow> (nat \<Rightarrow> nat) \<times> (nat \<Rightarrow> nat option) \<Rightarrow> nat \<Rightarrow> Splice option \<Rightarrow>
     InlineSkipList \<Rightarrow> (bool \<times> InlineSkipList \<times> Splice) run" where
  "ListInsertWithHint cmp garbage x hint s =
     InsertSplice cmp x True s (case hint of None \<Rightarrow> AllocateSplice s garbage | Some sp \<Rightarrow> sp)"


section \<open>The invariant\<close>

definition node_height :: "InlineSkipList \<Rightarrow> nat \<Rightarrow> nat" where
  "node_height s x = length (nd_next (sl_nodes s ! x))"

definition node_key :: "InlineSkipList \<Rightarrow> nat \<Rightarrow> bytes" where
  "node_key s x = nd_key (sl_nodes s ! x)"

text \<open>The nodes \<open>xs\<close> behind the head: their heights, their number and the order of their keys.\<close>

definition list_ok :: "(bytes \<Rightarrow> bytes \<Rightarrow> int) \<Rightarrow> InlineSkipList \<Rightarrow> nat list \<Rightarrow> bool" where
  "list_ok cmp s xs \<longleftrightarrow>
     0 < length (sl_nodes s) \<and> node_height s 0 = sl_kMaxHeight s \<and>
     1 \<le> sl_max_height s \<and> sl_max_height s \<le> sl_kMaxHeight s \<and>
     distinct (0 # xs) \<and>
     (\<forall>x\<in>set xs. x < length (sl_nodes s) \<and> 1 \<le> node_height s x \<and>
        node_height s x \<le> sl_max_height s) \<and>
     sorted_wrt (\<lambda>x y. cmp (node_key s x) (node_key s y) < 0) xs"

text \<open>Level \<open>l\<close> links the nodes of \<open>0 # xs\<close> that are higher than \<open>l\<close>, in their order.\<close>

definition linked_at :: "InlineSkipList \<Rightarrow> nat \<Rightarrow> nat list \<Rightarrow> bool" where
  "linked_at s l xs \<longleftrightarrow>
     (\<forall>us x vs. 0 # xs = us @ x # vs \<and> l < node_height s x \<longrightarrow>
        NodeNext s x l = Ok (find (\<lambda>y. l < node_height s y) vs))"

definition skip_list :: "(bytes \<Rightarrow> bytes \<Rightarrow> int) \<Rightarrow> InlineSkipList \<Rightarrow> nat list \<Rightarrow> bool" where
  "skip_list cmp s xs \<longleftrightarrow> list_ok cmp s xs \<and> (\<forall>l < sl_kMaxHeight s. linked_at s l xs)"

text \<open>The order on the ends of a splice: the head is before, the null pointer after all nodes.\<close>

definition prev_le :: "(bytes \<Rightarrow> bytes \<Rightarrow> int) \<Rightarrow> InlineSkipList \<Rightarrow> nat \<Rightarrow> nat \<Rightarrow> bool" where
  "prev_le cmp s x y \<longleftrightarrow> x = 0 \<or> y \<noteq> 0 \<and> cmp (node_key s x) (node_key s y) \<le> 0"

definition next_le ::
    "(bytes \<Rightarrow> bytes \<Rightarrow> int) \<Rightarrow> InlineSkipList \<Rightarrow> nat option \<Rightarrow> nat option \<Rightarrow> bool" where
  "next_le cmp s x y \<longleftrightarrow>
     (case y of None \<Rightarrow> True
      | Some b \<Rightarrow> (case x of None \<Rightarrow> False | Some a \<Rightarrow> cmp (node_key s a) (node_key s b) \<le> 0))"

text \<open>A splice between insertions: its ends are nodes of their levels, wider from level to level.\<close>

definition splice_ok ::
    "(bytes \<Rightarrow> bytes \<Rightarrow> int) \<Rightarrow> InlineSkipList \<Rightarrow> nat list \<Rightarrow> Splice \<Rightarrow> bool" where
  "splice_ok cmp s xs sp \<longleftrightarrow>
     length (sp_prev sp) = sl_kMaxHeight s + 1 \<and> length (sp_next sp) = sl_kMaxHeight s + 1 \<and>
     sp_height sp \<le> sl_max_height s \<and>
     (0 < sp_height sp \<longrightarrow>
        sp_prev sp ! sp_height sp = 0 \<and> sp_next sp ! sp_height sp = None) \<and>
     (\<forall>i < sp_height sp.
        sp_prev sp ! i \<in> set (0 # xs) \<and> i < node_height s (sp_prev sp ! i) \<and>
        (\<forall>y. sp_next sp ! i = Some y \<longrightarrow> y \<in> set xs \<and> i < node_height s y) \<and>
        prev_le cmp s (sp_prev sp ! (i + 1)) (sp_prev sp ! i) \<and>
        next_le cmp s (sp_next sp ! i) (sp_next sp ! (i + 1)))"

lemma find_in_set: "find P xs = Some y \<Longrightarrow> y \<in> set xs \<and> P y"
  by (induction xs) (auto split: if_splits)

lemma find_split: "find P xs = Some y \<Longrightarrow> \<exists>us vs. xs = us @ y # vs \<and> (\<forall>u\<in>set us. \<not> P u)"
proof (induction xs)
  case (Cons a xs)
  show ?case
  proof (cases "P a")
    case True
    then have "a # xs = [] @ y # xs \<and> (\<forall>u\<in>set []. \<not> P u)" using Cons.prems by simp
    then show ?thesis by blast
  next
    case False
    then obtain us vs where "xs = us @ y # vs \<and> (\<forall>u\<in>set us. \<not> P u)"
      using Cons by auto
    then have "a # xs = (a # us) @ y # vs \<and> (\<forall>u\<in>set (a # us). \<not> P u)" using False by simp
    then show ?thesis by blast
  qed
qed simp

lemma find_None_iff_all: "find P xs = None \<longleftrightarrow> (\<forall>x\<in>set xs. \<not> P x)"
  by (induction xs) auto

lemma find_all: "(\<And>x. x \<in> set xs \<Longrightarrow> P x) \<Longrightarrow> find P xs = (case xs of [] \<Rightarrow> None | x # _ \<Rightarrow> Some x)"
  by (cases xs) auto

lemma last_filter_split:
  assumes "P x" and "\<forall>v\<in>set vs. \<not> P v"
  shows "last (filter P (us @ x # vs)) = x"
proof -
  have "filter P vs = []" using assms(2) by (simp add: filter_empty_conv)
  then show ?thesis using assms(1) by simp
qed

lemma list_okD:
  assumes "list_ok cmp s xs"
  shows "0 < length (sl_nodes s)" and "node_height s 0 = sl_kMaxHeight s"
    and "1 \<le> sl_max_height s" and "sl_max_height s \<le> sl_kMaxHeight s"
    and "distinct xs" and "0 \<notin> set xs"
    and "\<And>x. x \<in> set xs \<Longrightarrow> x < length (sl_nodes s)"
    and "\<And>x. x \<in> set xs \<Longrightarrow> 1 \<le> node_height s x"
    and "\<And>x. x \<in> set xs \<Longrightarrow> node_height s x \<le> sl_max_height s"
    and "sorted_wrt (\<lambda>x y. cmp (node_key s x) (node_key s y) < 0) xs"
  using assms by (auto simp: list_ok_def)

lemma NodeKey_list:
  assumes "list_ok cmp s xs" and "x \<in> set xs"
  shows "NodeKey s x = Ok (node_key s x)"
  using list_okD [OF assms(1)] assms(2) by (cases "x = 0") (auto simp: NodeKey_def node_key_def)

lemma linked_atD:
  assumes "linked_at s l xs" and "0 # xs = us @ x # vs" and "l < node_height s x"
  shows "NodeNext s x l = Ok (find (\<lambda>y. l < node_height s y) vs)"
  using assms by (auto simp: linked_at_def)

text \<open>The nodes before a key, and the rest.\<close>

definition before_key ::
    "(bytes \<Rightarrow> bytes \<Rightarrow> int) \<Rightarrow> InlineSkipList \<Rightarrow> bytes \<Rightarrow> nat list \<Rightarrow> nat list" where
  "before_key cmp s key xs = takeWhile (\<lambda>x. cmp (node_key s x) key < 0) xs"

definition from_key ::
    "(bytes \<Rightarrow> bytes \<Rightarrow> int) \<Rightarrow> InlineSkipList \<Rightarrow> bytes \<Rightarrow> nat list \<Rightarrow> nat list" where
  "from_key cmp s key xs = dropWhile (\<lambda>x. cmp (node_key s x) key < 0) xs"

text \<open>\<open>as\<close> are the nodes of \<open>as @ bs\<close> before the key.\<close>

definition parted ::
    "(bytes \<Rightarrow> bytes \<Rightarrow> int) \<Rightarrow> InlineSkipList \<Rightarrow> bytes \<Rightarrow> nat list \<Rightarrow> nat list \<Rightarrow> bool" where
  "parted cmp s key as bs \<longleftrightarrow>
     list_ok cmp s (as @ bs) \<and> (\<forall>x\<in>set as. cmp (node_key s x) key < 0) \<and>
     (\<forall>x\<in>set bs. 0 \<le> cmp (node_key s x) key)"

lemma partedD:
  assumes "parted cmp s key as bs"
  shows "list_ok cmp s (as @ bs)"
    and "\<And>x. x \<in> set as \<Longrightarrow> cmp (node_key s x) key < 0"
    and "\<And>x. x \<in> set bs \<Longrightarrow> 0 \<le> cmp (node_key s x) key"
    and "\<And>x. x \<in> set as \<Longrightarrow> NodeKey s x = Ok (node_key s x)"
    and "\<And>x. x \<in> set bs \<Longrightarrow> NodeKey s x = Ok (node_key s x)"
    and "\<And>x. x \<in> set as \<Longrightarrow> x \<notin> set bs"
    and "0 \<notin> set as" and "0 \<notin> set bs"
    and "\<And>x. x \<in> set bs \<Longrightarrow> 0 < node_height s x"
proof -
  show l: "list_ok cmp s (as @ bs)" using assms by (simp add: parted_def)
  note d = list_okD [OF l]
  show "\<And>x. x \<in> set as \<Longrightarrow> cmp (node_key s x) key < 0"
    and "\<And>x. x \<in> set bs \<Longrightarrow> 0 \<le> cmp (node_key s x) key"
    using assms by (simp_all add: parted_def)
  show "\<And>x. x \<in> set as \<Longrightarrow> NodeKey s x = Ok (node_key s x)"
    and "\<And>x. x \<in> set bs \<Longrightarrow> NodeKey s x = Ok (node_key s x)"
    using NodeKey_list [OF l] by simp_all
  show "\<And>x. x \<in> set as \<Longrightarrow> x \<notin> set bs" using d(5) by auto
  show "0 \<notin> set as" and "0 \<notin> set bs" using d(6) by auto
  show "\<And>x. x \<in> set bs \<Longrightarrow> 0 < node_height s x" using d(8) by (simp add: Suc_le_eq)
qed

text \<open>What the search at level \<open>l\<close> finds: the last node before the key, the first one after it.\<close>

definition prev_at :: "InlineSkipList \<Rightarrow> nat list \<Rightarrow> nat \<Rightarrow> nat" where
  "prev_at s as l = last (filter (\<lambda>x. l < node_height s x) (0 # as))"

definition next_at :: "InlineSkipList \<Rightarrow> nat list \<Rightarrow> nat \<Rightarrow> nat option" where
  "next_at s bs l = find (\<lambda>x. l < node_height s x) bs"

text \<open>The array \<open>prev\<close> after a search from level \<open>high\<close> down to \<open>bottom\<close>.\<close>

definition prev_filled ::
    "InlineSkipList \<Rightarrow> nat list \<Rightarrow> nat \<Rightarrow> nat \<Rightarrow> nat list option \<Rightarrow> nat list option \<Rightarrow> bool" where
  "prev_filled s as bottom high prev prev' \<longleftrightarrow>
     (case (prev, prev') of
        (None, None) \<Rightarrow> True
      | (Some p, Some p') \<Rightarrow> length p' = length p \<and>
          (\<forall>l. bottom \<le> l \<and> l \<le> high \<longrightarrow> p' ! l = prev_at s as l) \<and>
          (\<forall>l. high < l \<longrightarrow> p' ! l = p ! l)
      | _ \<Rightarrow> False)"

lemma StorePrev_filled:
  assumes "\<And>p. prev = Some p \<Longrightarrow> level < length p" and "prev_at s as level = x"
  shows "\<exists>prev'. StorePrev prev level x = Ok prev' \<and> prev_filled s as level level prev prev' \<and>
    (\<forall>p. prev' = Some p \<longrightarrow> level < length p)"
proof (cases prev)
  case (Some p)
  have "p[level := x] ! l = x" if "level \<le> l \<and> l \<le> level" for l
    using that assms(1) [OF Some] by (cases "l = level") simp_all
  then show ?thesis using assms Some by (auto simp: StorePrev_def prev_filled_def)
qed (simp add: StorePrev_def prev_filled_def)

lemma prev_filled_step:
  assumes "prev_filled s as level level p q" and "prev_filled s as bottom (level - 1) q r"
    and "0 < level"
  shows "prev_filled s as bottom level p r"
proof -
  have "l = level \<or> l \<le> level - 1" if "l \<le> level" for l using that assms(3) by linarith
  then show ?thesis
    using assms
    by (fastforce simp: prev_filled_def split: option.splits)
qed

text \<open>The order of the list, as the list relies on it.\<close>

locale list_order = comparator cmp for cmp :: "bytes \<Rightarrow> bytes \<Rightarrow> int"
begin

lemma parted_split:
  assumes "list_ok cmp s xs"
  shows "parted cmp s key (before_key cmp s key xs) (from_key cmp s key xs)"
  unfolding parted_def
proof (intro conjI)
  let ?b = "\<lambda>x. cmp (node_key s x) key < 0"
  have e: "before_key cmp s key xs @ from_key cmp s key xs = xs"
    by (simp add: before_key_def from_key_def)
  show "list_ok cmp s (before_key cmp s key xs @ from_key cmp s key xs)" using assms e by simp
  show "\<forall>x\<in>set (before_key cmp s key xs). ?b x"
    by (auto simp: before_key_def dest: set_takeWhileD)
  show "\<forall>x\<in>set (from_key cmp s key xs). 0 \<le> cmp (node_key s x) key"
  proof (cases "from_key cmp s key xs")
    case (Cons b bs)
    have nb: "\<not> ?b b" using Cons hd_dropWhile [of ?b xs] by (simp add: from_key_def)
    have "sorted_wrt (\<lambda>x y. cmp (node_key s x) (node_key s y) < 0) (b # bs)"
      using list_okD(10) [OF assms] e Cons by (metis sorted_wrt_append)
    then have "\<not> ?b x" if "x \<in> set bs" for x
      using nb that less_trans [of "node_key s b" "node_key s x" key] by auto
    then show ?thesis using nb Cons by (auto simp: not_less)
  qed simp
qed

text \<open>One step along a level, from a node before the key.\<close>

lemma NodeNext_parted:
  assumes p: "parted cmp s key as bs" and l: "linked_at s l (as @ bs)"
    and e: "0 # as = us @ x # vs" and h: "l < node_height s x"
  obtains (before) y vs1 vs2 where "NodeNext s x l = Ok (Some y)" and "vs = vs1 @ y # vs2"
      and "y \<in> set as" and "l < node_height s y"
    | (behind) "NodeNext s x l = Ok (next_at s bs l)" and "\<forall>v\<in>set vs. \<not> l < node_height s v"
      and "prev_at s as l = x"
proof (cases "find (\<lambda>y. l < node_height s y) vs")
  case None
  have "0 # as @ bs = us @ x # (vs @ bs)" using e by (metis append_Cons append_assoc)
  then have "NodeNext s x l = Ok (find (\<lambda>y. l < node_height s y) (vs @ bs))"
    using linked_atD [OF l _ h] by blast
  then have "NodeNext s x l = Ok (next_at s bs l)" using None by (simp add: find_append next_at_def)
  moreover have n: "\<forall>v\<in>set vs. \<not> l < node_height s v" using None by (simp add: find_None_iff_all)
  moreover have "prev_at s as l = x"
    unfolding prev_at_def e by (rule last_filter_split) (use h n in auto)
  ultimately show thesis by (rule behind)
next
  case (Some y)
  have "0 # as @ bs = us @ x # (vs @ bs)" using e by (metis append_Cons append_assoc)
  then have "NodeNext s x l = Ok (find (\<lambda>y. l < node_height s y) (vs @ bs))"
    using linked_atD [OF l _ h] by blast
  then have 1: "NodeNext s x l = Ok (Some y)" using Some by (simp add: find_append)
  obtain v1 v2 where v: "vs = v1 @ y # v2" using find_split [OF Some] by blast
  have "y \<in> set (0 # as)" unfolding e v by simp
  moreover have "y \<in> set (tl (0 # as))" unfolding e v by (cases us) auto
  ultimately have "y \<in> set as" by simp
  with 1 v find_in_set [OF Some] show thesis by (intro before) auto
qed

lemma find_from_bs:
  assumes "parted cmp s key as bs" and "next_at s bs l = Some y"
  shows "y \<in> set bs" and "l < node_height s y" and "NodeKey s y = Ok (node_key s y)"
    and "0 \<le> cmp (node_key s y) key"
  using find_in_set [OF assms(2) [unfolded next_at_def]] partedD [OF assms(1)] by auto

lemma KeyIsAfterNode_parted:
  assumes "parted cmp s key as bs"
  shows "y \<in> set as \<Longrightarrow> KeyIsAfterNode cmp s key (Some y) = Ok True"
    and "y \<in> set bs \<Longrightarrow> KeyIsAfterNode cmp s key (Some y) = Ok False"
    and "KeyIsAfterNode cmp s key (next_at s bs l) = Ok False"
proof -
  show bs: "KeyIsAfterNode cmp s key (Some y) = Ok False" if "y \<in> set bs" for y
    using that partedD(3) [OF assms that] partedD(5) [OF assms that]
    by (simp add: KeyIsAfterNode_def)
  show "y \<in> set as \<Longrightarrow> KeyIsAfterNode cmp s key (Some y) = Ok True"
    using partedD(2,4) [OF assms] by (auto simp: KeyIsAfterNode_def)
  show "KeyIsAfterNode cmp s key (next_at s bs l) = Ok False"
    using bs find_from_bs(1) [OF assms]
    by (cases "next_at s bs l") (auto simp: KeyIsAfterNode_def)
qed

lemma next_at_0:
  assumes "parted cmp s key as bs"
  shows "next_at s bs 0 = (case bs of [] \<Rightarrow> None | b # _ \<Rightarrow> Some b)"
  unfolding next_at_def using partedD(9) [OF assms] by (rule find_all)

lemma equal_is_first:
  assumes p: "parted cmp s key as bs" and y: "y \<in> set bs" and 0: "cmp (node_key s y) key = 0"
  shows "next_at s bs 0 = Some y"
proof -
  obtain b bs' where bs: "bs = b # bs'" using y by (cases bs) auto
  have "y = b"
  proof (rule ccontr)
    assume "y \<noteq> b"
    then have "y \<in> set bs'" using y bs by simp
    moreover have "sorted_wrt (\<lambda>x y. cmp (node_key s x) (node_key s y) < 0) bs"
      using list_okD(10) [OF partedD(1) [OF p]] by (simp add: sorted_wrt_append)
    ultimately have "cmp (node_key s b) (node_key s y) < 0" using bs by simp
    then have "cmp (node_key s b) key < 0" using less_eq [OF 0] by simp
    then show False using partedD(3) [OF p, of b] bs by simp
  qed
  then show ?thesis using next_at_0 [OF p] bs by simp
qed

lemma FindGreaterOrEqualLoop_parted:
  assumes "parted cmp s key as bs" and "\<And>l. l \<le> level \<Longrightarrow> linked_at s l (as @ bs)"
    and "0 # as = us @ x # vs" and "level < node_height s x"
    and "\<And>b. lb = Some b \<Longrightarrow> b \<in> set bs"
  shows "FindGreaterOrEqualLoop cmp s key x level lb = Some (Ok (next_at s bs 0))"
  using assms
proof (induction "level + length vs" arbitrary: us x vs level lb rule: less_induct)
  case less
  note p = less.prems(1)
  have lk: "linked_at s level (as @ bs)" by (rule less.prems(2)) simp
  from p lk less.prems(3,4) show ?case
  proof (cases rule: NodeNext_parted)
    case (before y vs1 vs2)
    have "Some y \<noteq> lb" using partedD(6) [OF p before(3)] less.prems(5) by auto
    then have c: "CompareNext cmp s key lb (Some y) = Ok (cmp (node_key s y) key)"
      using partedD(4) [OF p before(3)] by (simp add: CompareNext_def)
    have "0 # as = (us @ x # vs1) @ y # vs2" using less.prems(3) before(2) by simp
    then have "FindGreaterOrEqualLoop cmp s key y level lb = Some (Ok (next_at s bs 0))"
      using less.hyps [of level vs2 "us @ x # vs1" y lb] less.prems before by simp
    then show ?thesis
      using before(1) c partedD(2) [OF p before(3)]
      by (subst FindGreaterOrEqualLoop.simps) simp
  next
    case behind
    obtain c where c: "CompareNext cmp s key lb (next_at s bs level) = Ok c" and "0 \<le> c"
      and z: "c = 0 \<Longrightarrow> next_at s bs level = next_at s bs 0"
    proof (cases "next_at s bs level")
      case None
      then show ?thesis by (intro that [of 1]) (simp_all add: CompareNext_def)
    next
      case (Some b)
      note b = find_from_bs [OF p Some]
      show ?thesis
      proof (cases "Some b = lb")
        case True
        then show ?thesis
          using Some by (intro that [of 1]) (simp_all add: CompareNext_def True [symmetric])
      next
        case False
        then show ?thesis using Some b equal_is_first [OF p b(1)]
          by (intro that [of "cmp (node_key s b) key"]) (simp_all add: CompareNext_def)
      qed
    qed
    show ?thesis
    proof (cases "c = 0 \<or> level = 0")
      case True
      then show ?thesis
        using behind(1) c z \<open>0 \<le> c\<close> by (subst FindGreaterOrEqualLoop.simps) auto
    next
      case False
      then have "FindGreaterOrEqualLoop cmp s key x (level - 1) (next_at s bs level) =
        Some (Ok (next_at s bs 0))"
        using less.prems find_from_bs(1) [OF p] by (intro less.hyps [of _ vs us]) auto
      then show ?thesis
        using behind(1) c False \<open>0 \<le> c\<close> by (subst FindGreaterOrEqualLoop.simps) auto
    qed
  qed
qed

lemma FindLessThanLoop_parted:
  assumes "parted cmp s key as bs"
    and "\<And>l. bottom \<le> l \<Longrightarrow> l \<le> level \<Longrightarrow> linked_at s l (as @ bs)"
    and "0 # as = us @ x # vs" and "level < node_height s x"
    and "\<And>b. lb = Some b \<Longrightarrow> b \<in> set bs" and "bottom \<le> level"
    and "\<And>p. prev = Some p \<Longrightarrow> level < length p"
  shows "\<exists>prev'. FindLessThanLoop cmp s key prev bottom x level lb =
      Some (Ok (prev_at s as bottom, prev')) \<and> prev_filled s as bottom level prev prev'"
  using assms
proof (induction "level + length vs" arbitrary: us x vs level lb prev rule: less_induct)
  case less
  note p = less.prems(1)
  have lk: "linked_at s level (as @ bs)" by (rule less.prems(2)) (use less.prems(6) in auto)
  from p lk less.prems(3,4) show ?case
  proof (cases rule: NodeNext_parted)
    case (before y vs1 vs2)
    have ne: "Some y \<noteq> lb" using partedD(6) [OF p before(3)] less.prems(5) by auto
    have "0 # as = (us @ x # vs1) @ y # vs2" using less.prems(3) before(2) by simp
    then show ?thesis
      using less.hyps [of level vs2 "us @ x # vs1" y lb prev] less.prems before ne
        KeyIsAfterNode_parted(1) [OF p before(3)]
      by (subst FindLessThanLoop.simps) simp
  next
    case behind
    obtain prev' where s: "StorePrev prev level x = Ok prev'"
      and f: "prev_filled s as level level prev prev'"
      and l: "\<And>p. prev' = Some p \<Longrightarrow> level < length p"
      using StorePrev_filled [OF less.prems(7) behind(3)] by blast
    have a: "(if next_at s bs level \<noteq> lb then KeyIsAfterNode cmp s key (next_at s bs level)
      else Ok False) = Ok False"
      using KeyIsAfterNode_parted(3) [OF p] by simp
    show ?thesis
    proof (cases "level = bottom")
      case True
      then show ?thesis
        using behind s f a by (subst FindLessThanLoop.simps) auto
    next
      case False
      have "\<exists>prev''. FindLessThanLoop cmp s key prev' bottom x (level - 1) (next_at s bs level) =
          Some (Ok (prev_at s as bottom, prev'')) \<and>
        prev_filled s as bottom (level - 1) prev' prev''"
      proof (rule less.hyps [of _ vs us])
        show "level - 1 < length p" if "prev' = Some p" for p using l [OF that] by simp
      qed (use less.prems False find_from_bs(1) [OF p] in auto)
      then obtain prev'' where r: "FindLessThanLoop cmp s key prev' bottom x (level - 1)
          (next_at s bs level) = Some (Ok (prev_at s as bottom, prev''))"
        and "prev_filled s as bottom (level - 1) prev' prev''"
        by (elim exE conjE)
      then have "prev_filled s as bottom level prev prev''"
        using prev_filled_step [OF f] False less.prems(6) by simp
      moreover have "FindLessThanLoop cmp s key prev bottom x level lb =
        Some (Ok (prev_at s as bottom, prev''))"
        using behind(1) a s False r by (subst FindLessThanLoop.simps) simp
      ultimately show ?thesis by (intro exI conjI)
    qed
  qed
qed

lemma FindSpliceForLevel_parted:
  assumes "parted cmp s key as bs" and "linked_at s l (as @ bs)"
    and "0 # as = us @ x # vs" and "l < node_height s x"
    and "\<And>b. after = Some b \<Longrightarrow> b \<in> set bs"
  shows "FindSpliceForLevel cmp s key x after l = Some (Ok (prev_at s as l, next_at s bs l))"
  using assms
proof (induction "length vs" arbitrary: us x vs rule: less_induct)
  case less
  note p = less.prems(1)
  from p less.prems(2-4) show ?case
  proof (cases rule: NodeNext_parted)
    case (before y vs1 vs2)
    have ne: "Some y \<noteq> after" using partedD(6) [OF p before(3)] less.prems(5) by auto
    have "0 # as = (us @ x # vs1) @ y # vs2" using less.prems(3) before(2) by simp
    then have "FindSpliceForLevel cmp s key y after l =
      Some (Ok (prev_at s as l, next_at s bs l))"
      using less.hyps [of vs2 "us @ x # vs1" y] less.prems before by simp
    then show ?thesis
      using before(1) ne KeyIsAfterNode_parted(1) [OF p before(3)]
      by (subst FindSpliceForLevel.simps) simp
  next
    case behind
    then show ?thesis
      using KeyIsAfterNode_parted(3) [OF p, of l] by (subst FindSpliceForLevel.simps) simp
  qed
qed

end

lemma FindLastLoop_list:
  assumes "\<And>l. l \<le> level \<Longrightarrow> linked_at s l xs" and "0 # xs = us @ x # vs"
    and "level < node_height s x" and "\<And>x. x \<in> set xs \<Longrightarrow> 1 \<le> node_height s x"
  shows "FindLastLoop s x level = Some (Ok (last (0 # xs)))"
  using assms
proof (induction "level + length vs" arbitrary: us x vs level rule: less_induct)
  case less
  have n: "NodeNext s x level = Ok (find (\<lambda>y. level < node_height s y) vs)"
    using linked_atD [OF less.prems(1) [OF order_refl] less.prems(2,3)] .
  show ?case
  proof (cases "find (\<lambda>y. level < node_height s y) vs")
    case (Some y)
    then obtain v1 v2 where v: "vs = v1 @ y # v2" using find_split by fast
    have "0 # xs = (us @ x # v1) @ y # v2" using less.prems(2) v by simp
    then have "FindLastLoop s y level = Some (Ok (last (0 # xs)))"
      using less.hyps [of level v2 "us @ x # v1" y] less.prems v find_in_set [OF Some] by simp
    then show ?thesis using n Some by (subst FindLastLoop.simps) simp
  next
    case None
    show ?thesis
    proof (cases level)
      case 0
      have "set vs \<subseteq> set xs" using less.prems(2) by (cases us) auto
      then have "vs = []" using None 0 less.prems(4) by (cases vs) (auto simp: Suc_le_eq)
      then show ?thesis using n None 0 less.prems(2) by (subst FindLastLoop.simps) simp
    next
      case (Suc k)
      then have "FindLastLoop s x k = Some (Ok (last (0 # xs)))"
        using less.prems by (intro less.hyps [of k vs us]) auto
      then show ?thesis using n None Suc by (subst FindLastLoop.simps) simp
    qed
  qed
qed


section \<open>Insertion\<close>

subsection \<open>Writing a link\<close>

text \<open>Lists that differ in their links only.\<close>

definition equal_shape :: "InlineSkipList \<Rightarrow> InlineSkipList \<Rightarrow> bool" where
  "equal_shape s s' \<longleftrightarrow>
     sl_kMaxHeight s' = sl_kMaxHeight s \<and> sl_max_height s' = sl_max_height s \<and>
     sl_kBranching s' = sl_kBranching s \<and>
     sl_kScaledInverseBranching s' = sl_kScaledInverseBranching s \<and>
     length (sl_nodes s') = length (sl_nodes s) \<and>
     node_height s' = node_height s \<and> node_key s' = node_key s"

lemma equal_shape_refl: "equal_shape s s"
  by (simp add: equal_shape_def)

lemma equal_shape_trans: "equal_shape s t \<Longrightarrow> equal_shape t u \<Longrightarrow> equal_shape s u"
  by (simp add: equal_shape_def)

lemma equal_shapeD:
  assumes "equal_shape s s'"
  shows "sl_kMaxHeight s' = sl_kMaxHeight s" and "sl_max_height s' = sl_max_height s"
    and "length (sl_nodes s') = length (sl_nodes s)"
    and "node_height s' = node_height s" and "node_key s' = node_key s"
  using assms by (simp_all add: equal_shape_def)

lemma equal_shape_transfer:
  assumes "equal_shape s s'"
  shows "list_ok cmp s' xs = list_ok cmp s xs" and "parted cmp s' key as bs = parted cmp s key as bs"
    and "splice_ok cmp s' xs sp = splice_ok cmp s xs sp"
    and "prev_at s' as l = prev_at s as l" and "next_at s' bs l = next_at s bs l"
    and "prev_le cmp s' = prev_le cmp s" and "next_le cmp s' = next_le cmp s"
    and "NodeKey s' x = NodeKey s x"
proof -
  note e = equal_shapeD [OF assms]
  show l: "list_ok cmp s' xs = list_ok cmp s xs" for xs by (simp add: list_ok_def e)
  show p: "prev_le cmp s' = prev_le cmp s" by (intro ext) (simp add: prev_le_def e)
  show n: "next_le cmp s' = next_le cmp s" by (intro ext) (auto simp: next_le_def e split: option.splits)
  show "parted cmp s' key as bs = parted cmp s key as bs" by (simp add: parted_def l e)
  show "splice_ok cmp s' xs sp = splice_ok cmp s xs sp" by (simp add: splice_ok_def e p n)
  show "prev_at s' as l = prev_at s as l" "next_at s' bs l = next_at s bs l"
    by (simp_all add: prev_at_def next_at_def e)
  show "NodeKey s' x = NodeKey s x" using fun_cong [OF e(5), of x] by (simp add: NodeKey_def node_key_def e(3))
qed

lemma NodeSetNext_Ok:
  assumes "x < length (sl_nodes s)" and "n < node_height s x"
  shows "\<exists>s'. NodeSetNext s x n y = Ok s' \<and> equal_shape s s' \<and>
    (\<forall>z l. NodeNext s' z l = (if z = x \<and> l = n then Ok y else NodeNext s z l))"
proof -
  let ?s = "s\<lparr>sl_nodes := (sl_nodes s)
              [x := (sl_nodes s ! x)\<lparr>nd_next := (nd_next (sl_nodes s ! x))[n := Link y]\<rparr>]\<rparr>"
  have n: "n < length (nd_next (sl_nodes s ! x))" using assms(2) by (simp add: node_height_def)
  have "NodeSetNext s x n y = Ok ?s" using assms(1) n by (simp add: NodeSetNext_def)
  moreover have "equal_shape s ?s"
    unfolding equal_shape_def
  proof (intro conjI ext)
    show "node_height ?s z = node_height s z" for z
      using assms(1) by (cases "z = x") (simp_all add: node_height_def)
    show "node_key ?s z = node_key s z" for z
      using assms(1) by (cases "z = x") (simp_all add: node_key_def)
  qed simp_all
  moreover have "NodeNext ?s z l = (if z = x \<and> l = n then Ok y else NodeNext s z l)" for z l
    using assms(1) n by (cases "z = x"; cases "l = n") (simp_all add: NodeNext_def)
  ultimately show ?thesis by blast
qed

lemma linked_at_other:
  assumes "linked_at s l xs" and "equal_shape s s'" and "\<And>z. NodeNext s' z l = NodeNext s z l"
  shows "linked_at s' l xs"
  using assms(1) by (simp add: linked_at_def assms(3) equal_shapeD [OF assms(2)])

lemma split_at_other:
  assumes "as @ x # bs = us @ y # vs" and "y \<noteq> x"
  obtains (left) ws where "as = us @ y # ws" and "vs = ws @ x # bs"
    | (right) ws where "us = as @ x # ws" and "bs = ws @ y # vs"
proof -
  obtain w where "as = us @ w \<and> w @ x # bs = y # vs \<or> as @ w = us \<and> x # bs = w @ y # vs"
    using assms(1) unfolding append_eq_append_conv2 by blast
  then show thesis
  proof (elim disjE conjE)
    assume "as = us @ w" and w: "w @ x # bs = y # vs"
    then show thesis using assms(2) left by (cases w) auto
  next
    assume "as @ w = us" and w: "x # bs = w @ y # vs"
    then show thesis using assms(2) right by (cases w) auto
  qed
qed

lemma split_at_same:
  assumes "as @ x # bs = us @ x # vs" and "x \<notin> set as" and "x \<notin> set bs"
  shows "us = as" and "vs = bs"
  using assms append_Cons_eq_iff [of x as bs us vs] by auto

text \<open>A node that does not reach a level does not change it.\<close>

lemma linked_at_skip:
  assumes l: "linked_at s l (as @ bs)" and x: "\<not> l < node_height s x"
  shows "linked_at s l (as @ x # bs)"
  unfolding linked_at_def
proof (intro allI impI)
  fix us y vs
  assume "0 # as @ x # bs = us @ y # vs \<and> l < node_height s y"
  then have e: "(0 # as) @ x # bs = us @ y # vs" and h: "l < node_height s y" and "y \<noteq> x"
    using x by auto
  show "NodeNext s y l = Ok (find (\<lambda>y. l < node_height s y) vs)"
    using e \<open>y \<noteq> x\<close>
  proof (cases rule: split_at_other)
    case (left ws)
    then have "0 # as @ bs = us @ y # (ws @ bs)" by (metis append_Cons append_assoc)
    then have "NodeNext s y l = Ok (find (\<lambda>y. l < node_height s y) (ws @ bs))"
      by (rule linked_atD [OF l _ h])
    with left x show ?thesis by (simp add: find_append split: option.splits)
  next
    case (right ws)
    then have "0 # as @ bs = ((0 # as) @ ws) @ y # vs" by simp
    then show ?thesis using linked_atD [OF l _ h] by blast
  qed
qed

text \<open>Linking \<open>x\<close> in at one level.\<close>

lemma linked_at_insert:
  assumes l: "linked_at s l (as @ bs)" and fresh: "x \<notin> set (0 # as @ bs)" and d: "distinct (0 # as @ bs)"
    and x: "l < node_height s x" and h0: "l < node_height s 0"
    and sh: "equal_shape s s'"
    and nx: "\<And>z. NodeNext s' z l = (if z = prev_at s as l then Ok (Some x)
        else if z = x then Ok (next_at s bs l) else NodeNext s z l)"
  shows "linked_at s' l (as @ x # bs)"
  unfolding linked_at_def
proof (intro allI impI)
  let ?P = "\<lambda>y. l < node_height s y"
  have P: "node_height s' = node_height s" using equal_shapeD(4) [OF sh] .
  have ne: "filter ?P (0 # as) \<noteq> []" using h0 by simp
  have pin: "prev_at s as l \<in> set (0 # as)"
    using last_in_set [OF ne] by (auto simp: prev_at_def simp del: filter.simps)
  fix us y vs
  assume "0 # as @ x # bs = us @ y # vs \<and> l < node_height s' y"
  then have e: "(0 # as) @ x # bs = us @ y # vs" and h: "?P y" using P by (auto dest: fun_cong)
  consider "y = x" "vs = bs" | ws where "0 # as = us @ y # ws" "vs = ws @ x # bs" "y \<noteq> x"
    | ws where "us = (0 # as) @ x # ws" "bs = ws @ y # vs" "y \<noteq> x"
  proof (cases "y = x")
    case True
    then show ?thesis using split_at_same [of "0 # as" x bs us vs] e fresh that(1) by simp
  next
    case False
    with e show ?thesis by (rule split_at_other) (use False that(2,3) in blast)+
  qed
  then have "NodeNext s' y l = Ok (find ?P vs)"
  proof cases
    case 1
    then show ?thesis using nx [of x] pin fresh by (auto simp: next_at_def)
  next
    case 2
    show ?thesis
    proof (cases "find ?P ws")
      case None
      then have "prev_at s as l = y"
        unfolding prev_at_def 2(1) by (intro last_filter_split) (use h in \<open>auto simp: find_None_iff_all\<close>)
      then show ?thesis using nx [of y] 2 None x by (simp add: find_append)
    next
      case (Some w)
      have "prev_at s as l \<in> set ws"
      proof -
        have "filter ?P ws \<noteq> []" using Some find_in_set [OF Some] by (auto simp: filter_empty_conv)
        then have "prev_at s as l = last (filter ?P ws)" unfolding prev_at_def 2(1) using h by simp
        then show ?thesis using last_in_set [OF \<open>filter ?P ws \<noteq> []\<close>] by auto
      qed
      moreover have "y \<notin> set ws" using d 2(1) by (metis append_Cons distinct_append distinct.simps(2))
      ultimately have "NodeNext s' y l = NodeNext s y l" using nx [of y] 2(3) by auto
      moreover have "0 # as @ bs = us @ y # (ws @ bs)" using 2 by (metis append_Cons append_assoc)
      ultimately show ?thesis using linked_atD [OF l _ h] 2 Some by (simp add: find_append)
    qed
  next
    case 3
    then have "y \<notin> set (0 # as)" using d by auto
    then have "NodeNext s' y l = NodeNext s y l" using nx [of y] 3 pin by auto
    moreover have "0 # as @ bs = ((0 # as) @ ws) @ y # vs" using 3 by simp
    ultimately show ?thesis using linked_atD [OF l _ h] by simp
  qed
  then show "NodeNext s' y l = Ok (find (\<lambda>y. l < node_height s' y) vs)" by (simp add: P)
qed


subsection \<open>The splice during an insertion\<close>

text \<open>
  Level \<open>i\<close> of the splice is exactly the place of the key, or brackets it; from level \<open>j\<close> on the
  splice brackets the key, between \<open>lo\<close> and \<open>j\<close> it is exact.
\<close>

definition brackets :: "InlineSkipList \<Rightarrow> nat list \<Rightarrow> nat list \<Rightarrow> Splice \<Rightarrow> nat \<Rightarrow> bool" where
  "brackets s as bs sp i \<longleftrightarrow>
     sp_prev sp ! i \<in> set (0 # as) \<and> (sp_prev sp ! i \<noteq> 0 \<longrightarrow> i < node_height s (sp_prev sp ! i)) \<and>
     (\<forall>y. sp_next sp ! i = Some y \<longrightarrow> y \<in> set bs \<and> i < node_height s y)"

definition exact :: "InlineSkipList \<Rightarrow> nat list \<Rightarrow> nat list \<Rightarrow> Splice \<Rightarrow> nat \<Rightarrow> bool" where
  "exact s as bs sp i \<longleftrightarrow>
     sp_prev sp ! i = prev_at s as i \<and> sp_next sp ! i = next_at s bs i"

definition splice_sized :: "InlineSkipList \<Rightarrow> Splice \<Rightarrow> bool" where
  "splice_sized s sp \<longleftrightarrow>
     length (sp_prev sp) = sl_kMaxHeight s + 1 \<and> length (sp_next sp) = sl_kMaxHeight s + 1 \<and>
     sp_height sp = sl_max_height s \<and>
     sp_prev sp ! sl_max_height s = 0 \<and> sp_next sp ! sl_max_height s = None"

definition ordered_at ::
    "(bytes \<Rightarrow> bytes \<Rightarrow> int) \<Rightarrow> InlineSkipList \<Rightarrow> Splice \<Rightarrow> nat \<Rightarrow> bool" where
  "ordered_at cmp s sp i \<longleftrightarrow>
     prev_le cmp s (sp_prev sp ! (i + 1)) (sp_prev sp ! i) \<and>
     next_le cmp s (sp_next sp ! i) (sp_next sp ! (i + 1))"

definition mid_splice ::
    "(bytes \<Rightarrow> bytes \<Rightarrow> int) \<Rightarrow> InlineSkipList \<Rightarrow> nat list \<Rightarrow> nat list \<Rightarrow> Splice \<Rightarrow> nat \<Rightarrow> nat \<Rightarrow>
     bool" where
  "mid_splice cmp s as bs sp lo j \<longleftrightarrow>
     splice_sized s sp \<and> j \<le> sl_max_height s \<and>
     (\<forall>i. lo \<le> i \<and> i < j \<longrightarrow> exact s as bs sp i) \<and>
     (\<forall>i. j \<le> i \<and> i \<le> sl_max_height s \<longrightarrow> brackets s as bs sp i) \<and>
     (\<forall>i. j \<le> i \<and> i < sl_max_height s \<longrightarrow> ordered_at cmp s sp i)"

lemma SpliceSet_at:
  assumes "splice_sized s sp" and "i < sl_max_height s" and "sl_max_height s \<le> sl_kMaxHeight s"
  shows "\<exists>sp'. SpliceSet i p n sp = Ok sp' \<and> splice_sized s sp' \<and>
    sp_prev sp' = (sp_prev sp)[i := p] \<and> sp_next sp' = (sp_next sp)[i := n]"
  using assms by (auto simp: SpliceSet_def splice_sized_def)

lemma SkipSame_stops:
  assumes "i \<le> n" and "n < length xs" and "xs ! n \<noteq> bad"
  shows "\<exists>j. SkipSame xs bad i = Ok j \<and> i \<le> j \<and> j \<le> n \<and> (xs ! i = bad \<longrightarrow> i < j)"
  using assms
proof (induction "n - i" arbitrary: i)
  case 0
  then have "i = n" by simp
  then show ?case using 0 by (subst SkipSame.simps) simp
next
  case (Suc d)
  show ?case
  proof (cases "xs ! i = bad")
    case True
    then have "i \<noteq> n" using Suc.prems by auto
    then have "\<exists>j. SkipSame xs bad (i + 1) = Ok j \<and> i + 1 \<le> j \<and> j \<le> n \<and>
        (xs ! (i + 1) = bad \<longrightarrow> i + 1 < j)"
      using Suc by (intro Suc.hyps(1)) auto
    then obtain j where "SkipSame xs bad (i + 1) = Ok j" "i + 1 \<le> j" "j \<le> n" by blast
    then show ?thesis using True Suc.prems by (subst SkipSame.simps) auto
  next
    case False
    then show ?thesis using Suc.prems by (subst SkipSame.simps) simp
  qed
qed

context list_order
begin

lemma prev_at_in:
  assumes "list_ok cmp s (as @ bs)" and "i < sl_kMaxHeight s"
  shows "prev_at s as i \<in> set (0 # as)" and "i < node_height s (prev_at s as i)"
proof -
  have "filter (\<lambda>x. i < node_height s x) (0 # as) \<noteq> []"
    using list_okD(2) [OF assms(1)] assms(2) by simp
  from last_in_set [OF this]
  show "prev_at s as i \<in> set (0 # as)" "i < node_height s (prev_at s as i)"
    unfolding prev_at_def by (auto simp del: filter.simps)
qed

lemma exact_brackets:
  assumes "parted cmp s key as bs" and "i < sl_kMaxHeight s" and "exact s as bs sp i"
  shows "brackets s as bs sp i"
  using prev_at_in [OF partedD(1) [OF assms(1)] assms(2)] find_from_bs(1,2) [OF assms(1)] assms(3)
  by (simp add: brackets_def exact_def)

lemma prev_le_prev_at:
  assumes p: "parted cmp s key as bs" and i: "i < sl_kMaxHeight s"
    and x: "x \<in> set (0 # as)" and h: "x \<noteq> 0 \<Longrightarrow> i < node_height s x"
  shows "prev_le cmp s x (prev_at s as i)"
proof (cases "x = 0 \<or> prev_at s as i = x")
  case True
  then show ?thesis by (auto simp: prev_le_def refl)
next
  case False
  then have "x \<in> set as" using x by simp
  then obtain u v where e: "as = u @ x # v" by (meson split_list)
  let ?f = "filter (\<lambda>x. i < node_height s x)"
  have f: "?f (0 # as) = ?f (0 # u) @ x # ?f v" using False h e by simp
  then have ne: "?f v \<noteq> []" using False unfolding prev_at_def by auto
  then have "prev_at s as i = last (?f v)" unfolding prev_at_def f by simp
  then have y: "prev_at s as i \<in> set v" using last_in_set [OF ne] by auto
  have "sorted_wrt (\<lambda>x y. cmp (node_key s x) (node_key s y) < 0) as"
    using list_okD(10) [OF partedD(1) [OF p]] by (simp add: sorted_wrt_append)
  then have "cmp (node_key s x) (node_key s (prev_at s as i)) < 0"
    using y e by (simp add: sorted_wrt_append)
  moreover have "set v \<subseteq> set as" using e by auto
  then have "prev_at s as i \<in> set as" using y by blast
  then have "prev_at s as i \<noteq> 0" using partedD(7) [OF p] by metis
  ultimately show ?thesis by (simp add: prev_le_def)
qed

lemma next_le_next_at:
  assumes p: "parted cmp s key as bs"
    and n: "\<And>y. n = Some y \<Longrightarrow> y \<in> set bs \<and> i < node_height s y"
  shows "next_le cmp s (next_at s bs i) n"
proof (cases n)
  case (Some y)
  then have y: "y \<in> set bs" "i < node_height s y" using n by auto
  then obtain z where z: "next_at s bs i = Some z"
    unfolding next_at_def by (cases "find (\<lambda>x. i < node_height s x) bs") (auto simp: find_None_iff_all)
  then obtain u v where e: "bs = u @ z # v" and u: "\<forall>w\<in>set u. \<not> i < node_height s w"
    using find_split unfolding next_at_def by fast
  then have "y = z \<or> y \<in> set v" using y by auto
  moreover have "sorted_wrt (\<lambda>x y. cmp (node_key s x) (node_key s y) < 0) bs"
    using list_okD(10) [OF partedD(1) [OF p]] by (simp add: sorted_wrt_append)
  then have "y \<in> set v \<Longrightarrow> cmp (node_key s z) (node_key s y) < 0"
    using e by (simp add: sorted_wrt_append)
  ultimately show ?thesis using z Some refl by (auto simp: next_le_def)
qed (simp add: next_le_def)

text \<open>An exact level below one that brackets the key is in order with it.\<close>

lemma exact_ordered:
  assumes p: "parted cmp s key as bs" and i: "i < sl_kMaxHeight s"
    and e: "exact s as bs sp i" and b: "brackets s as bs sp (i + 1)"
  shows "ordered_at cmp s sp i"
proof -
  have "prev_le cmp s (sp_prev sp ! (i + 1)) (prev_at s as i)"
    using b by (intro prev_le_prev_at [OF p i]) (auto simp: brackets_def)
  moreover have "next_le cmp s (next_at s bs i) (sp_next sp ! (i + 1))"
    using b by (intro next_le_next_at [OF p]) (auto simp: brackets_def)
  ultimately show ?thesis using e by (simp add: ordered_at_def exact_def)
qed

text \<open>What brackets the key does so on all higher levels.\<close>

lemma brackets_up:
  assumes p: "parted cmp s key as bs" and b: "brackets s as bs sp i" and o: "ordered_at cmp s sp i"
    and q: "sp_prev sp ! (i + 1) \<in> set (0 # as @ bs)"
      "sp_prev sp ! (i + 1) \<noteq> 0 \<Longrightarrow> i + 1 < node_height s (sp_prev sp ! (i + 1))"
    and n: "\<And>y. sp_next sp ! (i + 1) = Some y \<Longrightarrow> y \<in> set (as @ bs) \<and> i + 1 < node_height s y"
  shows "brackets s as bs sp (i + 1)"
  unfolding brackets_def
proof (intro conjI allI impI)
  let ?q = "sp_prev sp ! (i + 1)" and ?p = "sp_prev sp ! i"
  show "?q \<in> set (0 # as)"
  proof (cases "?q = 0")
    case False
    then have "?p \<noteq> 0" and le: "cmp (node_key s ?q) (node_key s ?p) \<le> 0"
      using o by (auto simp: ordered_at_def prev_le_def)
    then have "?p \<in> set as" using b by (simp add: brackets_def)
    then have "cmp (node_key s ?q) key < 0"
      using partedD(2) [OF p] le_less_trans [OF le] by blast
    then have "?q \<notin> set bs" using partedD(3) [OF p] by fastforce
    then show ?thesis using q by auto
  qed simp
  show "?q \<noteq> 0 \<Longrightarrow> i + 1 < node_height s ?q" by (rule q(2))
  fix y
  assume y: "sp_next sp ! (i + 1) = Some y"
  then obtain z where z: "sp_next sp ! i = Some z" and le: "cmp (node_key s z) (node_key s y) \<le> 0"
    using o by (auto simp: ordered_at_def next_le_def split: option.splits)
  then have "0 \<le> cmp (node_key s z) key" using b partedD(3) [OF p] by (auto simp: brackets_def)
  then have "\<not> cmp (node_key s y) key < 0"
    using le_less_trans [OF le] by fastforce
  then have "y \<notin> set as" using partedD(2) [OF p] by blast
  then show "y \<in> set bs" and "i + 1 < node_height s y" using n [OF y] by auto
qed

end


context list_order
begin

text \<open>A splice of full height whose level \<open>i\<close> brackets the key does so from there on.\<close>

lemma brackets_from:
  assumes p: "parted cmp s key as bs" and sp: "splice_ok cmp s (as @ bs) sp"
    and h: "sp_height sp = sl_max_height s" and b: "brackets s as bs sp i"
    and "i \<le> j" and "j \<le> sl_max_height s"
  shows "brackets s as bs sp j"
  using \<open>i \<le> j\<close> \<open>j \<le> sl_max_height s\<close>
proof (induction j rule: dec_induct)
  case base
  show ?case by (rule b)
next
  case (step j)
  then have b: "brackets s as bs sp j" and j: "j < sp_height sp" using h by simp_all
  have o: "ordered_at cmp s sp j" using sp j by (simp add: splice_ok_def ordered_at_def)
  show ?case
  proof (cases "Suc j = sp_height sp")
    case True
    then show ?thesis using sp by (simp add: brackets_def splice_ok_def)
  next
    case False
    then have "Suc j < sp_height sp" using j by simp
    then have "sp_prev sp ! Suc j \<in> set (0 # as @ bs) \<and> Suc j < node_height s (sp_prev sp ! Suc j) \<and>
        (\<forall>y. sp_next sp ! Suc j = Some y \<longrightarrow> y \<in> set (as @ bs) \<and> Suc j < node_height s y)"
      using sp by (simp add: splice_ok_def)
    then show ?thesis using brackets_up [OF p b o] by simp
  qed
qed

lemma mid_splice_from:
  assumes p: "parted cmp s key as bs" and sp: "splice_ok cmp s (as @ bs) sp"
    and h: "sp_height sp = sl_max_height s" and b: "r < sl_max_height s \<Longrightarrow> brackets s as bs sp r"
    and r: "r \<le> sl_max_height s"
  shows "mid_splice cmp s as bs sp r r"
proof -
  have hm: "1 \<le> sl_max_height s" using list_okD(3) [OF partedD(1) [OF p]] .
  have "brackets s as bs sp r"
  proof (cases "r < sl_max_height s")
    case False
    then show ?thesis using r sp h hm by (simp add: brackets_def splice_ok_def)
  qed (rule b)
  then have "brackets s as bs sp i" if "r \<le> i" "i \<le> sl_max_height s" for i
    using brackets_from [OF p sp h _ that] by blast
  moreover have "ordered_at cmp s sp i" if "i < sl_max_height s" for i
    using sp h that by (simp add: splice_ok_def ordered_at_def)
  ultimately show ?thesis
    using sp h hm r by (auto simp: mid_splice_def splice_sized_def splice_ok_def)
qed

lemma BracketStep_ok:
  assumes p: "parted cmp s key as bs" and lk: "linked_at s i (as @ bs)"
    and sp: "splice_ok cmp s (as @ bs) sp" and h: "sp_height sp = sl_max_height s"
    and i: "i < sl_max_height s"
  shows "(BracketStep cmp s key sp allow i = Ok None \<and> brackets s as bs sp i) \<or>
    (\<exists>j. BracketStep cmp s key sp allow i = Ok (Some j) \<and> i < j \<and> j \<le> sl_max_height s)"
proof -
  let ?p = "sp_prev sp ! i" and ?q = "sp_next sp ! i" and ?h = "sl_max_height s"
  note ok = partedD(1) [OF p]
  have len: "length (sp_prev sp) = sl_kMaxHeight s + 1" "length (sp_next sp) = sl_kMaxHeight s + 1"
    and tops: "sp_prev sp ! ?h = 0" "sp_next sp ! ?h = None"
    and pin: "?p \<in> set (0 # as @ bs)" "i < node_height s ?p"
    and qin: "\<And>y. ?q = Some y \<Longrightarrow> y \<in> set (as @ bs) \<and> i < node_height s y"
    using sp h i by (auto simp: splice_ok_def)
  have i': "i < length (sp_prev sp)" "i < length (sp_next sp)" "?h < length (sp_prev sp)"
    "?h < length (sp_next sp)"
    using i len list_okD(4) [OF ok] by auto
  obtain us vs where "0 # as @ bs = us @ ?p # vs" using pin(1) by (meson split_list)
  then obtain n where n: "NodeNext s ?p i = Ok n" using linked_atD [OF lk _ pin(2)] by blast
  define a where "a = (?p = 0 \<or> ?p \<in> set as)"
  have a: "(if ?p \<noteq> 0 then KeyIsAfterNode cmp s key (Some ?p) else Ok True) = Ok a"
    using pin(1) KeyIsAfterNode_parted(1,2) [OF p] partedD(6) [OF p] by (auto simp: a_def)
  define b where "b = (\<exists>y\<in>set as. ?q = Some y)"
  have b: "KeyIsAfterNode cmp s key ?q = Ok b"
  proof (cases ?q)
    case (Some y)
    then show ?thesis
      using qin KeyIsAfterNode_parted(1,2) [OF p] partedD(6) [OF p] by (fastforce simp: b_def)
  qed (simp add: b_def KeyIsAfterNode_def)
  have skip_p: "\<exists>j. SkipSame (sp_prev sp) ?p i = Ok j \<and> i < j \<and> j \<le> ?h" if "?p \<noteq> 0"
    using SkipSame_stops [of i ?h "sp_prev sp" ?p] i i' that tops by auto
  have skip_q: "\<exists>j. SkipSame (sp_next sp) ?q i = Ok j \<and> i < j \<and> j \<le> ?h" if b
    using SkipSame_stops [of i ?h "sp_next sp" ?q] i i' that tops by (auto simp: b_def)
  have "brackets s as bs sp i" if a "\<not> b"
    using that pin qin by (auto simp: a_def b_def brackets_def)
  moreover have "BracketStep cmp s key sp allow i =
      (if n \<noteq> ?q then Ok (Some (i + 1))
       else if \<not> a then
         (if allow then obind (SkipSame (sp_prev sp) ?p i) (\<lambda>i. Ok (Some i)) else Ok (Some ?h))
       else if b then
         (if allow then obind (SkipSame (sp_next sp) ?q i) (\<lambda>i. Ok (Some i)) else Ok (Some ?h))
       else Ok None)"
    by (simp only: BracketStep_def array_at_def i' if_True obind_simps n a b)
  moreover have "\<not> a \<Longrightarrow> ?p \<noteq> 0" by (simp add: a_def)
  ultimately show ?thesis using i skip_p skip_q
    by (cases "n = ?q"; cases a; cases b; cases allow) (auto split: if_splits)
qed

lemma BracketLoop_ok:
  assumes p: "parted cmp s key as bs" and lk: "\<And>l. l < sl_kMaxHeight s \<Longrightarrow> linked_at s l (as @ bs)"
    and sp: "splice_ok cmp s (as @ bs) sp" and h: "sp_height sp = sl_max_height s"
    and i: "i \<le> sl_max_height s"
  shows "\<exists>r. BracketLoop cmp s key sp allow i = Some (Ok r) \<and> r \<le> sl_max_height s \<and>
    (r < sl_max_height s \<longrightarrow> brackets s as bs sp r)"
  using i
proof (induction "sl_max_height s - i" arbitrary: i rule: less_induct)
  case less
  show ?case
  proof (cases "i < sl_max_height s")
    case True
    then have "i < sl_kMaxHeight s" using list_okD(4) [OF partedD(1) [OF p]] by simp
    from BracketStep_ok [OF p lk [OF this] sp h True, of allow] show ?thesis
    proof (elim disjE exE conjE)
      fix j
      assume "BracketStep cmp s key sp allow i = Ok (Some j)" and j: "i < j" "j \<le> sl_max_height s"
      moreover have "sl_max_height s - j < sl_max_height s - i" using j True by simp
      ultimately show ?thesis
        using less.hyps [of j] True j by (subst BracketLoop.simps) simp
    next
      assume "BracketStep cmp s key sp allow i = Ok None" and "brackets s as bs sp i"
      then show ?thesis using True by (subst BracketLoop.simps) simp
    qed
  next
    case False
    then show ?thesis using less.prems by (subst BracketLoop.simps) simp
  qed
qed

lemma PrepareSplice_ok:
  assumes p: "parted cmp s key as bs" and lk: "\<And>l. l < sl_kMaxHeight s \<Longrightarrow> linked_at s l (as @ bs)"
    and sp: "splice_ok cmp s (as @ bs) sp"
  shows "\<exists>r sp'. PrepareSplice cmp s key allow sp = Some (Ok (r, sp')) \<and>
    mid_splice cmp s as bs sp' r r"
proof (cases "sp_height sp < sl_max_height s")
  case True
  let ?h = "sl_max_height s"
  let ?sp = "sp\<lparr>sp_prev := (sp_prev sp)[?h := 0], sp_next := (sp_next sp)[?h := None], sp_height := ?h\<rparr>"
  have hk: "?h \<le> sl_kMaxHeight s" using list_okD(4) [OF partedD(1) [OF p]] .
  then have "PrepareSplice cmp s key allow sp = Some (Ok (?h, ?sp))"
    using True sp by (simp add: PrepareSplice_def SpliceSet_def splice_ok_def Let_def)
  moreover have "mid_splice cmp s as bs ?sp ?h ?h"
    using sp hk by (auto simp: mid_splice_def splice_sized_def splice_ok_def brackets_def)
  ultimately show ?thesis by blast
next
  case False
  then have h: "sp_height sp = sl_max_height s" using sp by (simp add: splice_ok_def)
  obtain r where "BracketLoop cmp s key sp allow 0 = Some (Ok r)" "r \<le> sl_max_height s"
    "r < sl_max_height s \<longrightarrow> brackets s as bs sp r"
    using BracketLoop_ok [OF p lk sp h, of 0 allow] by auto
  then show ?thesis
    using False mid_splice_from [OF p sp h] by (auto simp: PrepareSplice_def)
qed

end


subsection \<open>Recomputing the splice and linking the node\<close>

lemma mid_splice_equal_shape:
  assumes "equal_shape s s'"
  shows "mid_splice cmp s' as bs sp lo j = mid_splice cmp s as bs sp lo j"
proof -
  note e = equal_shapeD [OF assms]
  have "exact s' as bs sp i = exact s as bs sp i" "brackets s' as bs sp i = brackets s as bs sp i"
    "ordered_at cmp s' sp i = ordered_at cmp s sp i" "splice_sized s' sp = splice_sized s sp" for i
    by (simp_all add: exact_def brackets_def ordered_at_def splice_sized_def e
        equal_shape_transfer [OF assms])
  then show ?thesis by (simp add: mid_splice_def e)
qed

lemma mid_splice_set:
  assumes m: "mid_splice cmp s as bs sp lo j" and i: "i < sl_max_height s"
    and k: "sl_max_height s \<le> sl_kMaxHeight s" and ij: "lo = Suc i \<and> j' = j \<and> i < j \<and> lo' = i \<or> lo' = lo \<and> j = i \<and> j' = Suc i"
  shows "\<exists>sp'. SpliceSet i (prev_at s as i) (next_at s bs i) sp = Ok sp' \<and>
    mid_splice cmp s as bs sp' lo' j'"
proof -
  have sz: "splice_sized s sp" using m by (simp add: mid_splice_def)
  obtain sp' where s: "SpliceSet i (prev_at s as i) (next_at s bs i) sp = Ok sp'"
    and z: "splice_sized s sp'"
    and u: "sp_prev sp' = (sp_prev sp)[i := prev_at s as i]" "sp_next sp' = (sp_next sp)[i := next_at s bs i]"
    using SpliceSet_at [OF sz i k] by blast
  have len: "i < length (sp_prev sp)" "i < length (sp_next sp)" using sz i k by (auto simp: splice_sized_def)
  have e: "exact s as bs sp' i" using u len by (simp add: exact_def)
  have o: "exact s as bs sp' l = exact s as bs sp l" "brackets s as bs sp' l = brackets s as bs sp l"
    if "l \<noteq> i" for l using u that by (simp_all add: exact_def brackets_def)
  have oo: "ordered_at cmp s sp' l = ordered_at cmp s sp l" if "l \<noteq> i" "l + 1 \<noteq> i" for l
    using u that by (simp add: ordered_at_def)
  have "exact s as bs sp' l" if l: "lo' \<le> l" "l < j'" for l
  proof (cases "l = i")
    case False
    then have "lo \<le> l \<and> l < j" using ij l by auto
    then show ?thesis using m o(1) [OF False] by (simp add: mid_splice_def)
  qed (simp add: e)
  moreover have "brackets s as bs sp' l" if "j' \<le> l" "l \<le> sl_max_height s" for l
  proof -
    have "l \<noteq> i \<and> j \<le> l" using ij that by auto
    then show ?thesis using m o(2) [of l] that by (simp add: mid_splice_def)
  qed
  moreover have "ordered_at cmp s sp' l" if "j' \<le> l" "l < sl_max_height s" for l
  proof -
    have "l \<noteq> i \<and> l + 1 \<noteq> i \<and> j \<le> l" using ij that by auto
    then show ?thesis using m oo [of l] that by (simp add: mid_splice_def)
  qed
  moreover have "j' \<le> sl_max_height s" using m ij i by (auto simp: mid_splice_def)
  ultimately show ?thesis using s z by (auto simp: mid_splice_def)
qed

text \<open>The state while the new node \<open>x\<close> is linked in on the levels below \<open>i\<close>.\<close>

definition linking ::
    "(bytes \<Rightarrow> bytes \<Rightarrow> int) \<Rightarrow> bytes \<Rightarrow> InlineSkipList \<Rightarrow> nat \<Rightarrow> nat list \<Rightarrow> nat list \<Rightarrow> nat \<Rightarrow> bool" where
  "linking cmp key s x as bs i \<longleftrightarrow>
     parted cmp s key as bs \<and> x < length (sl_nodes s) \<and> x \<notin> set (0 # as @ bs) \<and>
     (\<forall>l<i. linked_at s l (as @ x # bs)) \<and>
     (\<forall>l. i \<le> l \<and> l < sl_kMaxHeight s \<longrightarrow> linked_at s l (as @ bs))"

context list_order
begin

lemma RecomputeSpliceLevels_ok:
  assumes p: "parted cmp s key as bs" and lk: "\<And>l. l < sl_kMaxHeight s \<Longrightarrow> linked_at s l (as @ bs)"
    and m: "mid_splice cmp s as bs sp r j" and r: "r \<le> j"
  shows "\<exists>sp'. RecomputeSpliceLevels cmp s key r sp = Some (Ok sp') \<and>
    mid_splice cmp s as bs sp' 0 j"
  using m r
proof (induction r arbitrary: sp)
  case (Suc i)
  note k = list_okD(4) [OF partedD(1) [OF p]]
  have j: "j \<le> sl_max_height s" using Suc.prems(1) by (simp add: mid_splice_def)
  have i: "i < sl_max_height s" "i < sl_kMaxHeight s" using Suc.prems(2) j k by auto
  have b: "brackets s as bs sp (Suc i)"
  proof (cases "Suc i = j")
    case True
    then show ?thesis using Suc.prems(1) j by (simp add: mid_splice_def)
  next
    case False
    then have "exact s as bs sp (Suc i)" and "Suc i < sl_kMaxHeight s"
      using Suc.prems j k by (auto simp: mid_splice_def)
    then show ?thesis by (intro exact_brackets [OF p])
  qed
  let ?p = "sp_prev sp ! Suc i" and ?q = "sp_next sp ! Suc i"
  obtain us vs where us: "0 # as = us @ ?p # vs" using b unfolding brackets_def by (meson split_list)
  have h: "i < node_height s ?p"
    using b i list_okD(2) [OF partedD(1) [OF p]] by (cases "?p = 0") (auto simp: brackets_def)
  have F: "FindSpliceForLevel cmp s key ?p ?q i = Some (Ok (prev_at s as i, next_at s bs i))"
    by (rule FindSpliceForLevel_parted [OF p lk [OF i(2)] us h]) (use b in \<open>simp add: brackets_def\<close>)
  obtain sp1 where S: "SpliceSet i (prev_at s as i) (next_at s bs i) sp = Ok sp1"
    and m1: "mid_splice cmp s as bs sp1 i j"
    using mid_splice_set [OF Suc.prems(1) i(1) k, of j i] Suc.prems(2) by auto
  have "Suc i < length (sp_prev sp)" "Suc i < length (sp_next sp)"
    using Suc.prems(1) i(2) by (auto simp: mid_splice_def splice_sized_def)
  then show ?case using F S Suc.IH [OF m1] Suc.prems(2) by (simp add: array_at_def)
qed simp

text \<open>What is found at one level before the node is linked in there.\<close>

lemma LinkLevel_place:
  assumes L: "linking cmp key s x as bs i" and m: "mid_splice cmp s as bs sp 0 (max r i)"
    and i: "i < sl_max_height s"
  shows "FixLevel cmp s key r i sp = Some (Ok (prev_at s as i, next_at s bs i))"
    and "\<exists>sp'. SpliceSet i (prev_at s as i) (next_at s bs i) sp = Ok sp' \<and>
    mid_splice cmp s as bs sp' 0 (max r (Suc i))"
proof -
  have p: "parted cmp s key as bs" using L by (simp add: linking_def)
  note ok = partedD(1) [OF p]
  note k = list_okD(4) [OF ok]
  have ik: "i < sl_kMaxHeight s" using i k by simp
  have lk: "linked_at s i (as @ bs)" using L ik by (simp add: linking_def)
  let ?p = "sp_prev sp ! i" and ?q = "sp_next sp ! i"
  have len: "i < length (sp_prev sp)" "i < length (sp_next sp)"
    using m ik by (auto simp: mid_splice_def splice_sized_def)
  have "FixLevel cmp s key r i sp = Some (Ok (prev_at s as i, next_at s bs i)) \<and>
    (\<exists>sp'. SpliceSet i (prev_at s as i) (next_at s bs i) sp = Ok sp' \<and>
      mid_splice cmp s as bs sp' 0 (max r (Suc i)))"
  proof (cases "r \<le> i")
    case False
    then have e: "exact s as bs sp i" and mx: "max r i = r" "max r (Suc i) = r"
      using m by (auto simp: mid_splice_def)
    have pe: "prev_at s as i = ?p" "next_at s bs i = ?q" using e by (simp_all add: exact_def)
    then have "SpliceSet i (prev_at s as i) (next_at s bs i) sp = Ok sp"
      using len by (simp add: SpliceSet_def)
    then show ?thesis using False m mx pe len by (simp add: FixLevel_def array_at_def)
  next
    case True
    then have mx: "max r i = i" "max r (Suc i) = Suc i" by auto
    have b: "brackets s as bs sp i" using m mx i by (simp add: mid_splice_def)
    obtain us vs where us: "0 # as = us @ ?p # vs" using b unfolding brackets_def by (meson split_list)
    have h: "i < node_height s ?p"
      using b ik list_okD(2) [OF ok] by (cases "?p = 0") (auto simp: brackets_def)
    have F: "FindSpliceForLevel cmp s key ?p None i = Some (Ok (prev_at s as i, next_at s bs i))"
      by (rule FindSpliceForLevel_parted [OF p lk us h]) simp
    have "rbind (Some (NodeNext s ?p i)) (\<lambda>nx. if nx \<noteq> ?q then FindSpliceForLevel cmp s key ?p None i
        else Some (Ok (?p, ?q))) = Some (Ok (prev_at s as i, next_at s bs i))"
      using p lk us h
    proof (cases rule: NodeNext_parted)
      case (before y vs1 vs2)
      have "?q \<noteq> Some y" using b partedD(6) [OF p before(3)] unfolding brackets_def by blast
      then show ?thesis using before(1) F by auto
    next
      case behind
      then show ?thesis using F by simp
    qed
    moreover obtain sp' where "SpliceSet i (prev_at s as i) (next_at s bs i) sp = Ok sp'"
      and "mid_splice cmp s as bs sp' 0 (Suc i)"
      using mid_splice_set [OF m i k, of "Suc i" 0] mx by auto
    ultimately show ?thesis using True mx len by (simp add: FixLevel_def array_at_def)
  qed
  then show "FixLevel cmp s key r i sp = Some (Ok (prev_at s as i, next_at s bs i))"
    and "\<exists>sp'. SpliceSet i (prev_at s as i) (next_at s bs i) sp = Ok sp' \<and>
      mid_splice cmp s as bs sp' 0 (max r (Suc i))" by auto
qed

lemma DuplicateKey_ok:
  assumes p: "parted cmp s key as bs"
  shows "DuplicateKey cmp s key (prev_at s as 0) (next_at s bs 0) =
    Ok (\<exists>y\<in>set bs. cmp (node_key s y) key = 0)"
proof -
  note ok = partedD(1) [OF p]
  have "0 < sl_kMaxHeight s" using list_okD(3,4) [OF ok] by simp
  then have pin: "prev_at s as 0 = 0 \<or> prev_at s as 0 \<in> set as" using prev_at_in [OF ok] by auto
  have pc: "(if prev_at s as 0 = 0 then Ok False
      else obind (NodeKey s (prev_at s as 0)) (\<lambda>k. Ok (0 \<le> cmp k key))) = Ok False"
    using pin partedD(2,4) [OF p] by fastforce
  show ?thesis
  proof (cases "next_at s bs 0")
    case None
    then have "bs = []" using next_at_0 [OF p] by (cases bs) auto
    then show ?thesis using pc None by (simp add: DuplicateKey_def)
  next
    case (Some y)
    note y = find_from_bs [OF p Some]
    have "(\<exists>y\<in>set bs. cmp (node_key s y) key = 0) \<longleftrightarrow> cmp (node_key s y) key = 0"
    proof
      assume "\<exists>y\<in>set bs. cmp (node_key s y) key = 0"
      then obtain z where "z \<in> set bs" and z: "cmp (node_key s z) key = 0" by blast
      then have "next_at s bs 0 = Some z" by (intro equal_is_first [OF p])
      then show "cmp (node_key s y) key = 0" using z Some by simp
    qed (use y(1) in blast)
    moreover have "0 \<le> cmp key (node_key s y) \<longleftrightarrow> cmp (node_key s y) key = 0"
      using y(4) le_iff [of "node_key s y" key] by auto
    ultimately show ?thesis using pc Some y(3) by (simp add: DuplicateKey_def)
  qed
qed

end


context list_order
begin

lemma link_one_level:
  assumes L: "linking cmp key s x as bs i" and i: "i < node_height s x" "i < sl_kMaxHeight s"
  shows "\<exists>s1 s2. NodeSetNext s x i (next_at s bs i) = Ok s1 \<and>
    NodeSetNext s1 (prev_at s as i) i (Some x) = Ok s2 \<and> equal_shape s s2 \<and>
    linking cmp key s2 x as bs (Suc i)"
proof -
  have p: "parted cmp s key as bs" and x: "x < length (sl_nodes s)" "x \<notin> set (0 # as @ bs)"
    and below: "\<And>l. l < i \<Longrightarrow> linked_at s l (as @ x # bs)"
    and above: "\<And>l. i \<le> l \<Longrightarrow> l < sl_kMaxHeight s \<Longrightarrow> linked_at s l (as @ bs)"
    using L by (auto simp: linking_def)
  note ok = partedD(1) [OF p]
  have pin: "prev_at s as i \<in> set (0 # as)" "i < node_height s (prev_at s as i)"
    using prev_at_in [OF ok i(2)] by auto
  have plen: "prev_at s as i < length (sl_nodes s)"
    using pin(1) list_okD(1,7) [OF ok] by auto
  have px: "prev_at s as i \<noteq> x" using pin(1) x(2) by auto
  obtain s1 where s1: "NodeSetNext s x i (next_at s bs i) = Ok s1" "equal_shape s s1"
    "\<And>z l. NodeNext s1 z l = (if z = x \<and> l = i then Ok (next_at s bs i) else NodeNext s z l)"
    using NodeSetNext_Ok [OF x(1) i(1)] by blast
  obtain s2 where s2: "NodeSetNext s1 (prev_at s as i) i (Some x) = Ok s2" "equal_shape s1 s2"
    "\<And>z l. NodeNext s2 z l = (if z = prev_at s as i \<and> l = i then Ok (Some x) else NodeNext s1 z l)"
    using NodeSetNext_Ok [of "prev_at s as i" s1 i "Some x"] plen pin(2) equal_shapeD [OF s1(2)] by auto
  have sh: "equal_shape s s2" using equal_shape_trans s1(2) s2(2) by blast
  have nx: "NodeNext s2 z i = (if z = prev_at s as i then Ok (Some x)
      else if z = x then Ok (next_at s bs i) else NodeNext s z i)" for z
    by (simp add: s2(3) s1(3))
  have other: "NodeNext s2 z l = NodeNext s z l" if "l \<noteq> i" for z l
    using that by (simp add: s2(3) s1(3))
  have d: "distinct (0 # as @ bs)" using list_okD(5,6) [OF ok] by simp
  have h0: "i < node_height s 0" using list_okD(2) [OF ok] i(2) by simp
  have "linked_at s2 i (as @ x # bs)"
    by (rule linked_at_insert [OF above [OF order_refl i(2)] x(2) d i(1) h0 sh nx])
  moreover have "linked_at s2 l ys" if "l \<noteq> i" "linked_at s l ys" for l ys
    using linked_at_other [OF that(2) sh] other that(1) by blast
  ultimately have "linking cmp key s2 x as bs (Suc i)"
    using p x below above equal_shape_transfer(2) [OF sh] equal_shapeD [OF sh]
    by (auto simp: linking_def less_Suc_eq)
  then show ?thesis using s1(1) s2(1) sh by blast
qed

lemma LinkLevels_ok:
  assumes "linking cmp key s x as bs i" and "mid_splice cmp s as bs sp 0 (max r i)"
    and "i + n \<le> node_height s x" and "node_height s x \<le> sl_max_height s"
    and "i = 0 \<Longrightarrow> \<forall>y\<in>set bs. cmp (node_key s y) key \<noteq> 0"
  shows "\<exists>s' sp'. LinkLevels cmp key x r n i s sp = Some (Ok (True, s', sp')) \<and>
    equal_shape s s' \<and> linking cmp key s' x as bs (i + n) \<and>
    mid_splice cmp s as bs sp' 0 (max r (i + n))"
  using assms
proof (induction n arbitrary: i s sp)
  case 0
  then show ?case using equal_shape_refl by auto
next
  case (Suc n)
  note L = Suc.prems(1)
  have p: "parted cmp s key as bs" using L by (simp add: linking_def)
  have i: "i < node_height s x" "i < sl_max_height s" "i < sl_kMaxHeight s"
    using Suc.prems list_okD(4) [OF partedD(1) [OF p]] by auto
  note F = LinkLevel_place(1) [OF L Suc.prems(2) i(2)]
  obtain sp1 where S: "SpliceSet i (prev_at s as i) (next_at s bs i) sp = Ok sp1"
    and m1: "mid_splice cmp s as bs sp1 0 (max r (Suc i))"
    using LinkLevel_place(2) [OF L Suc.prems(2) i(2)] by blast
  obtain s1 s2 where N: "NodeSetNext s x i (next_at s bs i) = Ok s1"
      "NodeSetNext s1 (prev_at s as i) i (Some x) = Ok s2"
    and sh: "equal_shape s s2" and L2: "linking cmp key s2 x as bs (Suc i)"
    using link_one_level [OF L i(1,3)] by blast
  have "\<exists>s' sp'. LinkLevels cmp key x r n (Suc i) s2 sp1 = Some (Ok (True, s', sp')) \<and>
      equal_shape s2 s' \<and> linking cmp key s' x as bs (Suc i + n) \<and>
      mid_splice cmp s2 as bs sp' 0 (max r (Suc i + n))"
    by (rule Suc.IH [OF L2]) (use m1 Suc.prems equal_shapeD [OF sh] mid_splice_equal_shape [OF sh] in auto)
  then obtain s' sp' where "LinkLevels cmp key x r n (Suc i) s2 sp1 = Some (Ok (True, s', sp'))"
    and "equal_shape s s'" and "linking cmp key s' x as bs (i + Suc n)"
    and "mid_splice cmp s as bs sp' 0 (max r (i + Suc n))"
    using equal_shape_trans [OF sh] mid_splice_equal_shape [OF sh] by auto
  moreover have "LinkLevels cmp key x r (Suc n) i s sp = LinkLevels cmp key x r n (Suc i) s2 sp1"
    using F S N DuplicateKey_ok [OF p] Suc.prems(5) by (cases "i = 0") simp_all
  ultimately show ?case by auto
qed

lemma LinkLevels_duplicate:
  assumes L: "linking cmp key s x as bs 0" and m: "mid_splice cmp s as bs sp 0 r"
    and n: "0 < n" and dup: "\<exists>y\<in>set bs. cmp (node_key s y) key = 0"
  shows "\<exists>sp'. LinkLevels cmp key x r n 0 s sp = Some (Ok (False, s, sp')) \<and>
    mid_splice cmp s as bs sp' 0 (max r 1)"
proof -
  have p: "parted cmp s key as bs" using L by (simp add: linking_def)
  have h: "0 < sl_max_height s" "0 < sl_kMaxHeight s" using list_okD(3,4) [OF partedD(1) [OF p]] by auto
  have m: "mid_splice cmp s as bs sp 0 (max r 0)" using m by simp
  note F = LinkLevel_place(1) [OF L m h(1)]
  obtain sp1 where S: "SpliceSet 0 (prev_at s as 0) (next_at s bs 0) sp = Ok sp1"
    and m1: "mid_splice cmp s as bs sp1 0 (max r (Suc 0))"
    using LinkLevel_place(2) [OF L m h(1)] by blast
  obtain k where k: "n = Suc k" using n by (cases n) auto
  have "LinkLevels cmp key x r n 0 s sp = Some (Ok (False, s, sp1))"
    using S DuplicateKey_ok [OF p] dup by (simp add: k F)
  then show ?thesis using m1 by simp
qed

end


subsection \<open>The insertion as a whole\<close>

definition RaiseHeight :: "nat \<Rightarrow> InlineSkipList \<Rightarrow> InlineSkipList" where
  "RaiseHeight height s =
     (if sl_max_height s < height then s\<lparr>sl_max_height := height\<rparr> else s)"

lemma RaiseHeight_simps [simp]:
  "sl_nodes (RaiseHeight h s) = sl_nodes s" "sl_kMaxHeight (RaiseHeight h s) = sl_kMaxHeight s"
  "sl_kBranching (RaiseHeight h s) = sl_kBranching s"
  "sl_kScaledInverseBranching (RaiseHeight h s) = sl_kScaledInverseBranching s"
  "sl_max_height (RaiseHeight h s) = max (sl_max_height s) h"
  "node_height (RaiseHeight h s) = node_height s" "node_key (RaiseHeight h s) = node_key s"
  "NodeNext (RaiseHeight h s) = NodeNext s" "NodeKey (RaiseHeight h s) = NodeKey s"
  by (auto simp: RaiseHeight_def node_height_def node_key_def NodeNext_def NodeKey_def fun_eq_iff)

lemma skip_list_RaiseHeight:
  assumes "skip_list cmp s xs" and "h \<le> sl_kMaxHeight s"
  shows "skip_list cmp (RaiseHeight h s) xs"
  using assms by (fastforce simp: skip_list_def list_ok_def linked_at_def)

lemma prev_le_eq: "node_key s' = node_key s \<Longrightarrow> prev_le cmp s' = prev_le cmp s"
  by (simp add: prev_le_def fun_eq_iff)

lemma next_le_eq: "node_key s' = node_key s \<Longrightarrow> next_le cmp s' = next_le cmp s"
  by (simp add: next_le_def fun_eq_iff split: option.splits)

text \<open>Splices outlive the insertions made with other splices.\<close>

lemma splice_ok_mono:
  assumes "splice_ok cmp s xs sp" and "sl_kMaxHeight s' = sl_kMaxHeight s"
    and "sl_max_height s \<le> sl_max_height s'" and "node_height s' = node_height s"
    and "node_key s' = node_key s" and "set xs \<subseteq> set ys"
  shows "splice_ok cmp s' ys sp"
  using assms by (auto simp: splice_ok_def prev_le_eq [OF assms(5)] next_le_eq [OF assms(5)])

text \<open>The list with \<open>x\<close> at its place, or unchanged when its key is there already.\<close>

definition has_key :: "(bytes \<Rightarrow> bytes \<Rightarrow> int) \<Rightarrow> InlineSkipList \<Rightarrow> bytes \<Rightarrow> nat list \<Rightarrow> bool" where
  "has_key cmp s key xs \<longleftrightarrow> (\<exists>y\<in>set xs. cmp (node_key s y) key = 0)"

definition insert_node ::
    "(bytes \<Rightarrow> bytes \<Rightarrow> int) \<Rightarrow> InlineSkipList \<Rightarrow> nat \<Rightarrow> nat list \<Rightarrow> nat list" where
  "insert_node cmp s x xs =
     (if has_key cmp s (node_key s x) xs then xs
      else before_key cmp s (node_key s x) xs @ x # from_key cmp s (node_key s x) xs)"

text \<open>A node that was allocated and not linked yet.\<close>

definition fresh_node :: "InlineSkipList \<Rightarrow> nat list \<Rightarrow> nat \<Rightarrow> bool" where
  "fresh_node s xs x \<longleftrightarrow>
     x < length (sl_nodes s) \<and> x \<notin> set (0 # xs) \<and> 1 \<le> node_height s x \<and>
     node_height s x \<le> sl_kMaxHeight s \<and>
     nd_next (sl_nodes s ! x) ! 0 = Stash (node_height s x)"

definition same_nodes :: "InlineSkipList \<Rightarrow> InlineSkipList \<Rightarrow> bool" where
  "same_nodes s s' \<longleftrightarrow>
     sl_kMaxHeight s' = sl_kMaxHeight s \<and> sl_max_height s \<le> sl_max_height s' \<and>
     sl_kBranching s' = sl_kBranching s \<and>
     sl_kScaledInverseBranching s' = sl_kScaledInverseBranching s \<and>
     length (sl_nodes s') = length (sl_nodes s) \<and>
     node_height s' = node_height s \<and> node_key s' = node_key s"

context list_order
begin

lemma mid_splice_all:
  assumes p: "parted cmp s key as bs" and m: "mid_splice cmp s as bs sp 0 j"
  shows "i \<le> sl_max_height s \<Longrightarrow> brackets s as bs sp i"
    and "i < sl_max_height s \<Longrightarrow> ordered_at cmp s sp i"
proof -
  note k = list_okD(4) [OF partedD(1) [OF p]]
  have j: "j \<le> sl_max_height s" using m by (simp add: mid_splice_def)
  show b: "brackets s as bs sp i" if "i \<le> sl_max_height s" for i
    using that m j k exact_brackets [OF p, of i sp]
    by (cases "i < j") (auto simp: mid_splice_def)
  show "ordered_at cmp s sp i" if i: "i < sl_max_height s"
  proof (cases "i < j")
    case True
    then show ?thesis using m i k b [of "i + 1"] exact_ordered [OF p, of i sp] by (simp add: mid_splice_def)
  next
    case False
    then show ?thesis using m i by (simp add: mid_splice_def)
  qed
qed

lemma mid_splice_ok:
  assumes p: "parted cmp s key as bs" and m: "mid_splice cmp s as bs sp 0 j"
  shows "splice_ok cmp s (as @ bs) sp"
proof -
  note ok = partedD(1) [OF p]
  have z: "splice_sized s sp" using m by (simp add: mid_splice_def)
  have "brackets s as bs sp i \<and> ordered_at cmp s sp i" if "i < sp_height sp" for i
    using mid_splice_all [OF p m, of i] that z by (simp add: splice_sized_def)
  moreover have "i < node_height s 0" if "i < sp_height sp" for i
    using that z list_okD(2,4) [OF ok] by (simp add: splice_sized_def)
  ultimately show ?thesis
    using z by (fastforce simp: splice_ok_def splice_sized_def brackets_def ordered_at_def)
qed

text \<open>The splice after the insertion: the new node is the place of the last insertion.\<close>

lemma final_splice_ok:
  assumes p: "parted cmp s (node_key s x) as bs" and m: "mid_splice cmp s as bs sp 0 j"
    and h: "1 \<le> node_height s x" "node_height s x \<le> sl_max_height s" and x: "x \<noteq> 0"
  shows "splice_ok cmp s (as @ x # bs)
    (sp\<lparr>sp_prev := replicate (node_height s x) x @ drop (node_height s x) (sp_prev sp)\<rparr>)"
proof -
  let ?n = "node_height s x" and ?h = "sl_max_height s"
  let ?pr = "replicate ?n x @ drop ?n (sp_prev sp)"
  note ok = partedD(1) [OF p]
  have z: "splice_sized s sp" using m by (simp add: mid_splice_def)
  have len: "length (sp_prev sp) = sl_kMaxHeight s + 1" using z by (simp add: splice_sized_def)
  have lp: "length ?pr = length (sp_prev sp)" using len h list_okD(4) [OF ok] by simp
  have pr: "?pr ! i = (if i < ?n then x else sp_prev sp ! i)" if "i < length (sp_prev sp)" for i
    using that h len list_okD(4) [OF ok] by (simp add: nth_append)
  have hl: "?h < length (sp_prev sp)" using len list_okD(4) [OF ok] by simp
  have "?pr ! i \<in> set (0 # as @ x # bs) \<and> i < node_height s (?pr ! i) \<and>
      (\<forall>y. sp_next sp ! i = Some y \<longrightarrow> y \<in> set (as @ x # bs) \<and> i < node_height s y) \<and>
      prev_le cmp s (?pr ! (i + 1)) (?pr ! i) \<and> next_le cmp s (sp_next sp ! i) (sp_next sp ! (i + 1))"
    if i: "i < ?h" for i
  proof -
    have b: "brackets s as bs sp i" "brackets s as bs sp (i + 1)" and o: "ordered_at cmp s sp i"
      using mid_splice_all [OF p m] i by simp_all
    have h0: "i < node_height s 0" using i list_okD(2,4) [OF ok] by simp
    have "prev_le cmp s (sp_prev sp ! (i + 1)) x"
      using b(2) partedD(2) [OF p] x by (fastforce simp: prev_le_def brackets_def)
    moreover have "prev_le cmp s x x" using x by (simp add: prev_le_def refl)
    moreover have "prev_le cmp s (sp_prev sp ! (i + 1)) (sp_prev sp ! i)"
      using o by (simp add: ordered_at_def)
    ultimately have "prev_le cmp s (?pr ! (i + 1)) (?pr ! i)"
      using pr [of i] pr [of "i + 1"] i hl by simp
    then show ?thesis using b(1) o h0 pr [of i] i hl by (auto simp: brackets_def ordered_at_def)
  qed
  moreover have "?pr ! ?h = 0" using pr [OF hl] h z by (simp add: splice_sized_def)
  ultimately show ?thesis using z lp by (simp add: splice_ok_def splice_sized_def)
qed

lemma linking_list:
  assumes L: "linking cmp (node_key s x) s x as bs (node_height s x)"
    and h: "1 \<le> node_height s x" "node_height s x \<le> sl_max_height s"
    and nd: "\<forall>y\<in>set bs. cmp (node_key s y) (node_key s x) \<noteq> 0"
  shows "skip_list cmp s (as @ x # bs)"
proof -
  have p: "parted cmp s (node_key s x) as bs" and x: "x < length (sl_nodes s)" "x \<notin> set (0 # as @ bs)"
    using L by (auto simp: linking_def)
  note ok = partedD(1) [OF p]
  have gt: "cmp (node_key s x) (node_key s y) < 0" if "y \<in> set bs" for y
    using partedD(3) [OF p that] nd that antisym [of "node_key s x" "node_key s y"] by force
  have "list_ok cmp s (as @ x # bs)"
    using ok x h gt partedD(2) [OF p] by (fastforce simp: list_ok_def sorted_wrt_append)
  moreover have "linked_at s l (as @ x # bs)" if "l < sl_kMaxHeight s" for l
  proof (cases "l < node_height s x")
    case True
    then show ?thesis using L by (simp add: linking_def)
  next
    case False
    then show ?thesis using L that by (intro linked_at_skip) (auto simp: linking_def)
  qed
  ultimately show ?thesis by (simp add: skip_list_def)
qed

end


lemma same_nodes_refl: "same_nodes s s"
  by (simp add: same_nodes_def)

lemma same_nodes_trans: "same_nodes s t \<Longrightarrow> same_nodes t u \<Longrightarrow> same_nodes s u"
  by (simp add: same_nodes_def)

lemma insert_node_set: "set xs \<subseteq> set (insert_node cmp s x xs)"
proof -
  have "set xs = set (takeWhile P xs) \<union> set (dropWhile P xs)" for P
    by (metis set_append takeWhile_dropWhile_id)
  then show ?thesis by (auto simp: insert_node_def before_key_def from_key_def)
qed

context list_order
begin

lemma has_key_parted:
  assumes p: "parted cmp s key as bs"
  shows "has_key cmp s key (as @ bs) \<longleftrightarrow> (\<exists>y\<in>set bs. cmp (node_key s y) key = 0)"
  using partedD(2) [OF p] by (fastforce simp: has_key_def)

text \<open>
  The insertion returns, whether the splice is fresh, that of the last insertion or a stale one:
  it refuses a key that is there and puts any other one at its place.
\<close>

lemma InsertSplice_ok:
  assumes sl: "skip_list cmp s xs" and fr: "fresh_node s xs x" and sp: "splice_ok cmp s xs sp"
  shows "\<exists>s' sp'. InsertSplice cmp x allow s sp =
      Some (Ok (\<not> has_key cmp s (node_key s x) xs, s', sp')) \<and> same_nodes s s' \<and>
    skip_list cmp s' (insert_node cmp s x xs) \<and> splice_ok cmp s' (insert_node cmp s x xs) sp'"
proof -
  define key where "key = node_key s x"
  define H where "H = node_height s x"
  define t where "t = RaiseHeight H s"
  define as where "as = before_key cmp s key xs"
  define bs where "bs = from_key cmp s key xs"
  have xs: "xs = as @ bs" by (simp add: as_def bs_def before_key_def from_key_def)
  have x: "x < length (sl_nodes s)" "x \<notin> set (0 # as @ bs)" "1 \<le> H" "H \<le> sl_kMaxHeight s"
    and st: "nd_next (sl_nodes s ! x) ! 0 = Stash H"
    using fr xs by (auto simp: fresh_node_def H_def)
  have t: "node_height t = node_height s" "node_key t = node_key s" "sl_nodes t = sl_nodes s"
    "sl_kMaxHeight t = sl_kMaxHeight s" "sl_max_height t = max (sl_max_height s) H"
    by (simp_all add: t_def)
  have tt: "(if sl_max_height s < H then s\<lparr>sl_max_height := H\<rparr> else s) = t"
    by (simp add: t_def RaiseHeight_def)
  have slt: "skip_list cmp t xs" unfolding t_def by (rule skip_list_RaiseHeight [OF sl x(4)])
  have K: "NodeKey s x = Ok key" using x by (simp add: NodeKey_def key_def node_key_def)
  have U: "UnstashHeight s x = Ok H"
    using x st by (auto simp: UnstashHeight_def H_def node_height_def)
  have "parted cmp t key (before_key cmp t key xs) (from_key cmp t key xs)"
    using parted_split slt by (simp add: skip_list_def)
  then have p: "parted cmp t key as bs" by (simp add: as_def bs_def before_key_def from_key_def t)
  have lk: "linked_at t l (as @ bs)" if "l < sl_kMaxHeight t" for l
    using slt that xs by (simp add: skip_list_def)
  have "splice_ok cmp t (as @ bs) sp" using splice_ok_mono [OF sp] t xs by simp
  from PrepareSplice_ok [OF p lk this, of allow]
  obtain r sp1 where P: "PrepareSplice cmp t key allow sp = Some (Ok (r, sp1))"
    and m1: "mid_splice cmp t as bs sp1 r r" by blast
  from RecomputeSpliceLevels_ok [OF p lk m1 order_refl]
  obtain sp2 where R: "RecomputeSpliceLevels cmp t key r sp1 = Some (Ok sp2)"
    and m2: "mid_splice cmp t as bs sp2 0 r" by blast
  have L: "linking cmp key t x as bs 0" using p x lk t by (simp add: linking_def)
  have hk: "has_key cmp s key xs \<longleftrightarrow> (\<exists>y\<in>set bs. cmp (node_key s y) key = 0)"
    using has_key_parted [OF p] by (simp add: has_key_def t xs)
  have ts: "same_nodes s t" by (simp add: same_nodes_def t_def)
  have kn: "node_key s x = key" by (simp add: key_def)
  show ?thesis
  proof (cases "has_key cmp s key xs")
    case True
    then have dup: "\<exists>y\<in>set bs. cmp (node_key t y) key = 0" using hk t by simp
    obtain sp3 where "LinkLevels cmp key x r H 0 t sp2 = Some (Ok (False, t, sp3))"
      and m3: "mid_splice cmp t as bs sp3 0 (max r 1)"
      using LinkLevels_duplicate [OF L m2 _ dup, of H] x(3) by auto
    then have "InsertSplice cmp x allow s sp = Some (Ok (False, t, sp3))"
      using K U P R by (simp add: InsertSplice_def Let_def tt)
    moreover have "insert_node cmp s x xs = xs" using True kn by (simp add: insert_node_def)
    moreover have "splice_ok cmp t xs sp3" using mid_splice_ok [OF p m3] xs by simp
    ultimately show ?thesis using True ts slt kn by auto
  next
    case False
    then have nd: "\<forall>y\<in>set bs. cmp (node_key t y) key \<noteq> 0" using hk t by simp
    have Hm: "node_height t x \<le> sl_max_height t" using t by (simp add: H_def)
    obtain u sp3 where LL: "LinkLevels cmp key x r H 0 t sp2 = Some (Ok (True, u, sp3))"
      and sh: "equal_shape t u" and L3: "linking cmp key u x as bs H"
      and m3: "mid_splice cmp t as bs sp3 0 (max r H)"
      using LinkLevels_ok [OF L, of sp2 r H] m2 Hm nd t by (auto simp: H_def)
    note u = equal_shapeD [OF sh]
    have m3u: "mid_splice cmp u as bs sp3 0 (max r H)" using m3 mid_splice_equal_shape [OF sh] by simp
    have pu: "parted cmp u (node_key u x) as bs"
      using p equal_shape_transfer(2) [OF sh] u t by (simp add: key_def)
    have hu: "node_height u x = H" "1 \<le> node_height u x" "node_height u x \<le> sl_max_height u"
      using u t x by (simp_all add: H_def)
    have "length (sp_prev sp3) = sl_kMaxHeight s + 1"
      using m3 t by (simp add: mid_splice_def splice_sized_def)
    then have "InsertSplice cmp x allow s sp =
        Some (Ok (True, u, sp3\<lparr>sp_prev := replicate H x @ drop H (sp_prev sp3)\<rparr>))"
      using K U P R LL x(4) by (simp add: InsertSplice_def Let_def tt)
    moreover have ins: "insert_node cmp s x xs = as @ x # bs"
      using False kn by (simp add: insert_node_def as_def bs_def)
    moreover have "skip_list cmp u (as @ x # bs)"
      by (rule linking_list) (use L3 hu nd u t in \<open>simp_all add: key_def\<close>)
    moreover have "splice_ok cmp u (as @ x # bs)
        (sp3\<lparr>sp_prev := replicate H x @ drop H (sp_prev sp3)\<rparr>)"
      using final_splice_ok [OF pu m3u hu(2,3)] x(2) hu(1) by simp
    moreover have "same_nodes s u"
      using u t sh by (simp add: same_nodes_def equal_shape_def t_def)
    ultimately show ?thesis using False kn by auto
  qed
qed

text \<open>The searches on a list that satisfies the invariant.\<close>

lemma skip_list_parted:
  assumes "skip_list cmp s xs"
  shows "parted cmp s key (before_key cmp s key xs) (from_key cmp s key xs)"
    and "l < sl_kMaxHeight s \<Longrightarrow> linked_at s l (before_key cmp s key xs @ from_key cmp s key xs)"
    and "sl_max_height s - 1 < node_height s 0"
    and "l \<le> sl_max_height s - 1 \<Longrightarrow> l < sl_kMaxHeight s"
  using assms parted_split [of s xs key]
  by (auto simp: skip_list_def list_ok_def before_key_def from_key_def)

lemma FindGreaterOrEqual_ok:
  assumes sl: "skip_list cmp s xs"
  shows "FindGreaterOrEqual cmp s key =
    Some (Ok (case from_key cmp s key xs of [] \<Rightarrow> None | y # _ \<Rightarrow> Some y))"
proof -
  note p = skip_list_parted(1) [OF sl, where key = key] skip_list_parted(2) [OF sl, where key = key]
    skip_list_parted(3,4) [OF sl]
  have "FindGreaterOrEqualLoop cmp s key 0 (sl_max_height s - 1) None =
      Some (Ok (next_at s (from_key cmp s key xs) 0))"
    by (rule FindGreaterOrEqualLoop_parted [OF p(1) _ _ p(3), where us = "[]"]) (use p(2,4) in auto)
  then show ?thesis using next_at_0 [OF p(1)] by (simp add: FindGreaterOrEqual_def)
qed

lemma FindLessThan_ok:
  assumes sl: "skip_list cmp s xs"
  shows "FindLessThan cmp s key None = Some (Ok (last (0 # before_key cmp s key xs), None))"
proof -
  note p = skip_list_parted(1) [OF sl, where key = key] skip_list_parted(2) [OF sl, where key = key]
    skip_list_parted(3,4) [OF sl]
  let ?as = "before_key cmp s key xs"
  have "\<exists>prev'. FindLessThanLoop cmp s key None 0 0 (sl_max_height s - 1) None =
      Some (Ok (prev_at s ?as 0, prev')) \<and> prev_filled s ?as 0 (sl_max_height s - 1) None prev'"
    by (rule FindLessThanLoop_parted [OF p(1) _ _ p(3), where us = "[]"]) (use p(2,4) in auto)
  moreover have "prev_at s ?as 0 = last (0 # ?as)"
  proof -
    have "\<forall>x\<in>set (0 # ?as). 0 < node_height s x"
      using p(3) list_okD(8) [OF partedD(1) [OF p(1)]] by (auto simp: Suc_le_eq)
    then have "filter (\<lambda>x. 0 < node_height s x) (0 # ?as) = 0 # ?as" by (simp add: filter_id_conv)
    then show ?thesis by (simp only: prev_at_def)
  qed
  ultimately show ?thesis
    by (auto simp: FindLessThan_def FindLessThanFrom_def prev_filled_def split: option.splits)
qed

lemma ListContains_ok:
  assumes sl: "skip_list cmp s xs"
  shows "ListContains cmp s key = Some (Ok (has_key cmp s key xs))"
proof -
  note p = skip_list_parted(1) [OF sl, where key = key]
  have hk: "has_key cmp s key xs \<longleftrightarrow> (\<exists>y\<in>set (from_key cmp s key xs). cmp (node_key s y) key = 0)"
    using has_key_parted [OF p] by (simp add: before_key_def from_key_def)
  show ?thesis
  proof (cases "from_key cmp s key xs")
    case Nil
    then show ?thesis using FindGreaterOrEqual_ok [OF sl] hk by (simp add: ListContains_def)
  next
    case (Cons y ys)
    then have y: "y \<in> set (from_key cmp s key xs)" by simp
    have "has_key cmp s key xs \<longleftrightarrow> cmp key (node_key s y) = 0"
    proof
      assume "has_key cmp s key xs"
      then obtain z where z: "z \<in> set (from_key cmp s key xs)" "cmp (node_key s z) key = 0"
        using hk by blast
      then have "z = y" using equal_is_first [OF p z] next_at_0 [OF p] Cons by simp
      then show "cmp key (node_key s y) = 0" using z zero_sym by blast
    qed (use hk y zero_sym in blast)
    then show ?thesis
      using FindGreaterOrEqual_ok [OF sl] partedD(5) [OF p y] Cons by (simp add: ListContains_def)
  qed
qed

end


section \<open>Construction and allocation\<close>

lemma RandomHeightLoop_bounds:
  "1 \<le> h \<Longrightarrow> h \<le> k \<Longrightarrow> h \<le> RandomHeightLoop k scaled draws h \<and> RandomHeightLoop k scaled draws h \<le> k"
proof (induction k scaled draws h rule: RandomHeightLoop.induct)
  case (1 k scaled draws h)
  then show ?case
    by (subst (1 2) RandomHeightLoop.simps) (auto intro: order_trans [of h "h + 1"])
qed

lemma RandomHeight_bounds:
  assumes "1 \<le> sl_kMaxHeight s"
  shows "1 \<le> RandomHeight s draws" and "RandomHeight s draws \<le> sl_kMaxHeight s"
  using RandomHeightLoop_bounds [of 1 "sl_kMaxHeight s" "sl_kScaledInverseBranching s" draws] assms
  by (simp_all add: RandomHeight_def)

lemma MakeInlineSkipList_ok:
  assumes "1 \<le> max_height"
  shows "skip_list cmp (MakeInlineSkipList max_height branching garbage) []"
    and "splice_ok cmp (MakeInlineSkipList max_height branching garbage) []
      (sl_seq_splice (MakeInlineSkipList max_height branching garbage))"
proof -
  let ?s = "MakeInlineSkipList max_height branching garbage"
  have n: "sl_nodes ?s = [\<lparr>nd_key = [], nd_next = replicate max_height (Link None)\<rparr>]"
    and k: "sl_kMaxHeight ?s = max_height" "sl_max_height ?s = 1"
    and sp: "sl_seq_splice ?s = AllocateSplice ?s garbage"
    by (simp_all add: MakeInlineSkipList_def AllocateNode_def StashHeight_def AllocateSplice_def Let_def)
  have "linked_at ?s l []" if "l < max_height" for l
    using that n by (auto simp: linked_at_def NodeNext_def Cons_eq_append_conv)
  then show "skip_list cmp ?s []"
    using assms n k by (simp add: skip_list_def list_ok_def node_height_def)
  show "splice_ok cmp ?s [] (sl_seq_splice ?s)"
    unfolding sp by (simp add: splice_ok_def AllocateSplice_def k)
qed

text \<open>Lists that agree on the nodes of \<open>0 # xs\<close>.\<close>

definition agree_on :: "InlineSkipList \<Rightarrow> InlineSkipList \<Rightarrow> nat list \<Rightarrow> bool" where
  "agree_on s s' xs \<longleftrightarrow>
     sl_kMaxHeight s' = sl_kMaxHeight s \<and> sl_max_height s' = sl_max_height s \<and>
     length (sl_nodes s) \<le> length (sl_nodes s') \<and>
     (\<forall>y\<in>set (0 # xs). y < length (sl_nodes s) \<and> sl_nodes s' ! y = sl_nodes s ! y)"

lemma agree_onD:
  assumes "agree_on s s' xs" and "y \<in> set (0 # xs)"
  shows "node_height s' y = node_height s y" and "node_key s' y = node_key s y"
    and "NodeNext s' y l = NodeNext s y l"
  using assms by (auto simp: agree_on_def node_height_def node_key_def NodeNext_def)

lemma find_cong_set: "(\<And>x. x \<in> set xs \<Longrightarrow> P x = Q x) \<Longrightarrow> find P xs = find Q xs"
  by (induction xs) auto

lemma skip_list_agree:
  assumes "skip_list cmp s xs" and ag: "agree_on s s' xs"
  shows "skip_list cmp s' xs"
proof -
  note e = agree_onD [OF ag]
  have ok: "list_ok cmp s xs" using assms(1) by (simp add: skip_list_def)
  have "sorted_wrt (\<lambda>x y. cmp (node_key s' x) (node_key s' y) < 0) xs"
    using list_okD(10) [OF ok] by (rule sorted_wrt_mono_rel [rotated]) (simp add: e)
  then have "list_ok cmp s' xs"
    using ok ag e(1) [of 0] by (fastforce simp: list_ok_def agree_on_def e)
  moreover have "linked_at s' l xs" if "l < sl_kMaxHeight s" for l
    unfolding linked_at_def
  proof (intro allI impI)
    fix us x vs
    assume "0 # xs = us @ x # vs \<and> l < node_height s' x"
    then have u: "0 # xs = us @ x # vs" and h: "l < node_height s' x" by simp_all
    have x: "x \<in> set (0 # xs)" unfolding u by simp
    have sub: "set vs \<subseteq> set (0 # xs)" unfolding u by auto
    have "node_height s' y = node_height s y" if "y \<in> set vs" for y
      by (rule e(1) [OF subsetD [OF sub that]])
    then have "find (\<lambda>y. l < node_height s' y) vs = find (\<lambda>y. l < node_height s y) vs"
      by (intro find_cong_set) simp
    moreover have "linked_at s l xs" using assms(1) that by (simp add: skip_list_def)
    ultimately show "NodeNext s' x l = Ok (find (\<lambda>y. l < node_height s' y) vs)"
      using linked_atD [OF _ u] h e(1,3) [OF x] by simp
  qed
  moreover have "sl_kMaxHeight s' = sl_kMaxHeight s" using ag by (simp add: agree_on_def)
  ultimately show ?thesis by (simp add: skip_list_def)
qed

lemma splice_ok_agree:
  assumes sp: "splice_ok cmp s xs sp" and ag: "agree_on s s' xs"
  shows "splice_ok cmp s' xs sp"
proof -
  note e = agree_onD [OF ag]
  have m: "sl_kMaxHeight s' = sl_kMaxHeight s" "sl_max_height s' = sl_max_height s"
    using ag by (simp_all add: agree_on_def)
  have pin: "sp_prev sp ! i \<in> set (0 # xs)" if "i \<le> sp_height sp" "0 < sp_height sp" for i
    using sp that by (cases "i = sp_height sp") (auto simp: splice_ok_def)
  have nin: "y \<in> set (0 # xs)" if "i \<le> sp_height sp" "0 < sp_height sp" "sp_next sp ! i = Some y" for i y
  proof (cases "i = sp_height sp")
    case False
    then have "i < sp_height sp" using that(1) by simp
    then show ?thesis using sp that(3) by (simp add: splice_ok_def)
  qed (use sp that in \<open>simp add: splice_ok_def\<close>)
  have "sp_prev sp ! i \<in> set (0 # xs) \<and> i < node_height s' (sp_prev sp ! i) \<and>
      (\<forall>y. sp_next sp ! i = Some y \<longrightarrow> y \<in> set xs \<and> i < node_height s' y) \<and>
      prev_le cmp s' (sp_prev sp ! (i + 1)) (sp_prev sp ! i) \<and>
      next_le cmp s' (sp_next sp ! i) (sp_next sp ! (i + 1))" if i: "i < sp_height sp" for i
  proof -
    have p: "sp_prev sp ! i \<in> set (0 # xs)" "sp_prev sp ! (i + 1) \<in> set (0 # xs)"
      using pin [of i] pin [of "i + 1"] i by auto
    have n: "\<And>y. sp_next sp ! i = Some y \<Longrightarrow> y \<in> set (0 # xs)"
      "\<And>y. sp_next sp ! (i + 1) = Some y \<Longrightarrow> y \<in> set (0 # xs)"
      using nin [of i] nin [of "i + 1"] i by auto
    have "prev_le cmp s' (sp_prev sp ! (i + 1)) (sp_prev sp ! i) =
        prev_le cmp s (sp_prev sp ! (i + 1)) (sp_prev sp ! i)"
      unfolding prev_le_def e(2) [OF p(1)] e(2) [OF p(2)] ..
    moreover have "next_le cmp s' (sp_next sp ! i) (sp_next sp ! (i + 1)) =
        next_le cmp s (sp_next sp ! i) (sp_next sp ! (i + 1))"
      using e(2) [OF n(1)] e(2) [OF n(2)] by (auto simp: next_le_def split: option.splits)
    ultimately show ?thesis
      using sp i e(1) [OF p(1)] e(1) [OF n(1)] by (auto simp: splice_ok_def)
  qed
  then show ?thesis using sp m by (simp add: splice_ok_def)
qed

lemma AllocateNode_ok:
  assumes sl: "skip_list cmp s xs" and h: "1 \<le> height" "height \<le> sl_kMaxHeight s"
    and a: "AllocateNode key height s = (x, s')"
  shows "agree_on s s' xs" and "skip_list cmp s' xs" and "fresh_node s' xs x" and "node_key s' x = key"
    and "node_height s' x = height"
proof -
  have ok: "list_ok cmp s xs" using sl by (simp add: skip_list_def)
  have x: "x = length (sl_nodes s)"
    and s': "s' = s\<lparr>sl_nodes := sl_nodes s @
      [StashHeight height \<lparr>nd_key = key, nd_next = replicate height Garbage\<rparr>]\<rparr>"
    using a by (simp_all add: AllocateNode_def)
  have at: "sl_nodes s' ! x = StashHeight height \<lparr>nd_key = key, nd_next = replicate height Garbage\<rparr>"
    unfolding x s' by simp
  show ag: "agree_on s s' xs"
    using list_okD(1,7) [OF ok] unfolding s' by (auto simp: agree_on_def nth_append)
  show "skip_list cmp s' xs" by (rule skip_list_agree [OF sl ag])
  show k: "node_key s' x = key" and hh: "node_height s' x = height"
    using at by (simp_all add: node_key_def node_height_def StashHeight_def)
  have "x \<notin> set (0 # xs)" using list_okD(1,7) [OF ok] x by auto
  then show "fresh_node s' xs x"
    using hh h at x by (simp add: fresh_node_def StashHeight_def s')
qed

section \<open>The list_keys of the list\<close>

definition list_keys :: "InlineSkipList \<Rightarrow> nat list \<Rightarrow> bytes list" where
  "list_keys s xs = map (node_key s) xs"

text \<open>The abstract list: the keys in their order, one of each class of equal ones.\<close>

definition keys_before :: "(bytes \<Rightarrow> bytes \<Rightarrow> int) \<Rightarrow> bytes \<Rightarrow> bytes list \<Rightarrow> bytes list" where
  "keys_before cmp key ks = takeWhile (\<lambda>k. cmp k key < 0) ks"

definition keys_from :: "(bytes \<Rightarrow> bytes \<Rightarrow> int) \<Rightarrow> bytes \<Rightarrow> bytes list \<Rightarrow> bytes list" where
  "keys_from cmp key ks = dropWhile (\<lambda>k. cmp k key < 0) ks"

definition holds_key :: "(bytes \<Rightarrow> bytes \<Rightarrow> int) \<Rightarrow> bytes \<Rightarrow> bytes list \<Rightarrow> bool" where
  "holds_key cmp key ks \<longleftrightarrow> (\<exists>k\<in>set ks. cmp k key = 0)"

definition insert_key :: "(bytes \<Rightarrow> bytes \<Rightarrow> int) \<Rightarrow> bytes \<Rightarrow> bytes list \<Rightarrow> bytes list" where
  "insert_key cmp key ks =
     (if holds_key cmp key ks then ks else keys_before cmp key ks @ key # keys_from cmp key ks)"

lemma list_keys_parts:
  "list_keys s (before_key cmp s key xs) = keys_before cmp key (list_keys s xs)"
  "list_keys s (from_key cmp s key xs) = keys_from cmp key (list_keys s xs)"
  "has_key cmp s key xs = holds_key cmp key (list_keys s xs)"
  by (simp_all add: list_keys_def before_key_def keys_before_def from_key_def keys_from_def
      takeWhile_map dropWhile_map o_def has_key_def holds_key_def)

lemma list_keys_insert:
  "list_keys s (insert_node cmp s x xs) = insert_key cmp (node_key s x) (list_keys s xs)"
  by (simp add: insert_node_def insert_key_def list_keys_parts [symmetric]) (simp add: list_keys_def)

lemma list_keys_agree: "agree_on s s' xs \<Longrightarrow> list_keys s' xs = list_keys s xs"
  using agree_onD(2) by (simp add: list_keys_def)

text \<open>A list in a state: its nodes, its splice, and its keys.\<close>

definition list_state ::
    "(bytes \<Rightarrow> bytes \<Rightarrow> int) \<Rightarrow> InlineSkipList \<Rightarrow> bytes list \<Rightarrow> bool" where
  "list_state cmp s ks \<longleftrightarrow>
     (\<exists>xs. skip_list cmp s xs \<and> splice_ok cmp s xs (sl_seq_splice s) \<and> list_keys s xs = ks)"


lemma list_stateI:
  "skip_list cmp s xs \<Longrightarrow> splice_ok cmp s xs (sl_seq_splice s) \<Longrightarrow> list_keys s xs = ks \<Longrightarrow>
   list_state cmp s ks"
  by (auto simp: list_state_def)

lemma skip_list_seq_splice [simp]:
  "skip_list cmp (s\<lparr>sl_seq_splice := sp\<rparr>) xs = skip_list cmp s xs"
  "splice_ok cmp (s\<lparr>sl_seq_splice := sp\<rparr>) xs sp' = splice_ok cmp s xs sp'"
  "list_keys (s\<lparr>sl_seq_splice := sp\<rparr>) xs = list_keys s xs"
  "fresh_node (s\<lparr>sl_seq_splice := sp\<rparr>) xs x = fresh_node s xs x"
proof -
  have n: "node_height (s\<lparr>sl_seq_splice := sp\<rparr>) = node_height s"
    "node_key (s\<lparr>sl_seq_splice := sp\<rparr>) = node_key s" "NodeNext (s\<lparr>sl_seq_splice := sp\<rparr>) = NodeNext s"
    by (simp_all add: node_height_def node_key_def NodeNext_def fun_eq_iff)
  show "skip_list cmp (s\<lparr>sl_seq_splice := sp\<rparr>) xs = skip_list cmp s xs"
    by (simp add: skip_list_def list_ok_def linked_at_def n)
  show "splice_ok cmp (s\<lparr>sl_seq_splice := sp\<rparr>) xs sp' = splice_ok cmp s xs sp'"
    by (simp add: splice_ok_def n prev_le_eq [OF n(2)] next_le_eq [OF n(2)])
  show "list_keys (s\<lparr>sl_seq_splice := sp\<rparr>) xs = list_keys s xs" by (simp add: list_keys_def n)
  show "fresh_node (s\<lparr>sl_seq_splice := sp\<rparr>) xs x = fresh_node s xs x"
    by (simp add: fresh_node_def n)
qed

context list_order
begin

lemma ListInsert_ok:
  assumes sl: "skip_list cmp s xs" and fr: "fresh_node s xs x"
    and sp: "splice_ok cmp s xs (sl_seq_splice s)"
  shows "\<exists>s'. ListInsert cmp x s =
      Some (Ok (\<not> holds_key cmp (node_key s x) (list_keys s xs), s')) \<and> same_nodes s s' \<and>
    skip_list cmp s' (insert_node cmp s x xs) \<and>
    splice_ok cmp s' (insert_node cmp s x xs) (sl_seq_splice s')"
proof -
  obtain s' sp' where "InsertSplice cmp x False s (sl_seq_splice s) =
      Some (Ok (\<not> has_key cmp s (node_key s x) xs, s', sp'))" and "same_nodes s s'"
    and "skip_list cmp s' (insert_node cmp s x xs)" and "splice_ok cmp s' (insert_node cmp s x xs) sp'"
    using InsertSplice_ok [OF sl fr sp] by blast
  moreover have "same_nodes s (s'\<lparr>sl_seq_splice := sp'\<rparr>)" if "same_nodes s s'"
    using that by (simp add: same_nodes_def node_height_def node_key_def fun_eq_iff)
  ultimately show ?thesis by (simp add: ListInsert_def list_keys_parts)
qed

text \<open>Allocating a node for a key and inserting it is the insertion into the sorted list.\<close>

lemma insert_refines:
  assumes st: "list_state cmp s ks" and a: "AllocateKey key draws s = (x, s1)"
  shows "\<exists>s2. ListInsert cmp x s1 = Some (Ok (\<not> holds_key cmp key ks, s2)) \<and>
    list_state cmp s2 (insert_key cmp key ks)"
proof -
  obtain xs where sl: "skip_list cmp s xs" and sp: "splice_ok cmp s xs (sl_seq_splice s)"
    and ks: "list_keys s xs = ks" using st by (auto simp: list_state_def)
  have k: "1 \<le> sl_kMaxHeight s" using sl by (auto simp: skip_list_def list_ok_def)
  note h = RandomHeight_bounds [OF k, of draws]
  have a: "AllocateNode key (RandomHeight s draws) s = (x, s1)" using a by (simp add: AllocateKey_def)
  note n = AllocateNode_ok [OF sl h a]
  have sq: "sl_seq_splice s1 = sl_seq_splice s" using a by (auto simp: AllocateNode_def)
  have sp1: "splice_ok cmp s1 xs (sl_seq_splice s1)" unfolding sq by (rule splice_ok_agree [OF sp n(1)])
  have c: "list_keys s1 xs = ks" using list_keys_agree [OF n(1)] ks by simp
  obtain s2 where "ListInsert cmp x s1 = Some (Ok (\<not> holds_key cmp key ks, s2))"
    and sn: "same_nodes s1 s2" and s2: "skip_list cmp s2 (insert_node cmp s1 x xs)"
    "splice_ok cmp s2 (insert_node cmp s1 x xs) (sl_seq_splice s2)"
    using ListInsert_ok [OF n(2,3) sp1] c n(4) by auto
  moreover have "list_keys s2 (insert_node cmp s1 x xs) = insert_key cmp key ks"
    using list_keys_insert [of s1 cmp x xs] sn n(4) c by (simp add: list_keys_def same_nodes_def)
  ultimately show ?thesis using list_stateI by blast
qed

text \<open>The same with a caller's splice, which other insertions may have left behind.\<close>

lemma hint_refines:
  assumes sl: "skip_list cmp s xs" and fr: "fresh_node s xs x"
    and sp: "\<And>sp. hint = Some sp \<Longrightarrow> splice_ok cmp s xs sp"
    and sq: "splice_ok cmp s xs (sl_seq_splice s)"
  shows "\<exists>s' sp'. ListInsertWithHint cmp garbage x hint s =
      Some (Ok (\<not> holds_key cmp (node_key s x) (list_keys s xs), s', sp')) \<and>
    skip_list cmp s' (insert_node cmp s x xs) \<and> splice_ok cmp s' (insert_node cmp s x xs) sp' \<and>
    splice_ok cmp s' (insert_node cmp s x xs) (sl_seq_splice s)"
proof -
  have "splice_ok cmp s xs (AllocateSplice s garbage)"
    using sl by (simp add: splice_ok_def AllocateSplice_def skip_list_def list_ok_def)
  then have "splice_ok cmp s xs (case hint of None \<Rightarrow> AllocateSplice s garbage | Some sp \<Rightarrow> sp)"
    using sp by (simp split: option.split)
  from InsertSplice_ok [OF sl fr this, of True] obtain s' sp' where
    I: "InsertSplice cmp x True s (case hint of None \<Rightarrow> AllocateSplice s garbage | Some sp \<Rightarrow> sp) =
      Some (Ok (\<not> has_key cmp s (node_key s x) xs, s', sp'))"
    and sn: "same_nodes s s'" and r: "skip_list cmp s' (insert_node cmp s x xs)"
      "splice_ok cmp s' (insert_node cmp s x xs) sp'" by blast
  have "splice_ok cmp s' (insert_node cmp s x xs) (sl_seq_splice s)"
    using splice_ok_mono [OF sq _ _ _ _ insert_node_set] sn by (simp add: same_nodes_def)
  then show ?thesis using I r by (simp add: ListInsertWithHint_def list_keys_parts)
qed

text \<open>The iterator: a node of the list is a place in the list of the keys.\<close>

lemma IterNext_ok:
  assumes sl: "skip_list cmp s xs" and e: "xs = us @ x # vs"
  shows "IterNext s (Some x) = Ok (case vs of [] \<Rightarrow> None | y # _ \<Rightarrow> Some y)"
proof -
  have ok: "list_ok cmp s xs" and k: "0 < sl_kMaxHeight s"
    using sl by (auto simp: skip_list_def list_ok_def)
  have lk: "linked_at s 0 xs" using sl k by (simp add: skip_list_def)
  have "0 # xs = (0 # us) @ x # vs" using e by simp
  moreover have "0 < node_height s x" using list_okD(8) [OF ok, of x] e by auto
  ultimately have "NodeNext s x 0 = Ok (find (\<lambda>y. 0 < node_height s y) vs)"
    using linked_atD [OF lk] by blast
  moreover have "0 < node_height s y" if "y \<in> set vs" for y
    using list_okD(8) [OF ok, of y] that e by auto
  then have "find (\<lambda>y. 0 < node_height s y) vs = (case vs of [] \<Rightarrow> None | y # _ \<Rightarrow> Some y)"
    by (rule find_all)
  ultimately show ?thesis by (simp add: IterNext_def)
qed

lemma IterSeekToFirst_ok:
  assumes sl: "skip_list cmp s xs"
  shows "IterSeekToFirst s = Ok (case xs of [] \<Rightarrow> None | y # _ \<Rightarrow> Some y)"
proof -
  have ok: "list_ok cmp s xs" and k: "0 < sl_kMaxHeight s"
    using sl by (auto simp: skip_list_def list_ok_def)
  have lk: "linked_at s 0 xs" using sl k by (simp add: skip_list_def)
  have "NodeNext s 0 0 = Ok (find (\<lambda>y. 0 < node_height s y) xs)"
    using linked_atD [OF lk, of "[]" 0 xs] list_okD(2) [OF ok] k by simp
  moreover have "0 < node_height s y" if "y \<in> set xs" for y
    using list_okD(8) [OF ok that] by simp
  then have "find (\<lambda>y. 0 < node_height s y) xs = (case xs of [] \<Rightarrow> None | y # _ \<Rightarrow> Some y)"
    by (rule find_all)
  ultimately show ?thesis by (simp add: IterSeekToFirst_def)
qed

lemma IterSeekToLast_ok:
  assumes sl: "skip_list cmp s xs"
  shows "IterSeekToLast s = Some (Ok (if xs = [] then None else Some (last xs)))"
proof -
  have ok: "list_ok cmp s xs" using sl by (simp add: skip_list_def)
  note p = skip_list_parted(3,4) [OF sl]
  have "FindLastLoop s 0 (sl_max_height s - 1) = Some (Ok (last (0 # xs)))"
    by (rule FindLastLoop_list [where us = "[]"]) (use sl p list_okD(8) [OF ok] in \<open>auto simp: skip_list_def\<close>)
  moreover have "xs \<noteq> [] \<Longrightarrow> last xs \<noteq> 0" using list_okD(6) [OF ok] last_in_set [of xs] by metis
  ultimately show ?thesis by (cases "xs = []") (simp_all add: IterSeekToLast_def FindLast_def)
qed

lemma sorted_before_node:
  assumes sl: "skip_list cmp s (us @ x # vs)"
  shows "before_key cmp s (node_key s x) (us @ x # vs) = us"
    and "from_key cmp s (node_key s x) (us @ x # vs) = x # vs"
proof -
  have "sorted_wrt (\<lambda>x y. cmp (node_key s x) (node_key s y) < 0) (us @ x # vs)"
    using sl by (simp add: skip_list_def list_ok_def)
  then have b: "\<And>y. y \<in> set us \<Longrightarrow> cmp (node_key s y) (node_key s x) < 0"
    by (simp add: sorted_wrt_append)
  have n: "\<not> cmp (node_key s x) (node_key s x) < 0" by (simp add: refl)
  show "before_key cmp s (node_key s x) (us @ x # vs) = us"
    using b n by (simp add: before_key_def takeWhile_append2)
  show "from_key cmp s (node_key s x) (us @ x # vs) = x # vs"
    using b n by (simp add: from_key_def dropWhile_append2)
qed

lemma IterPrev_ok:
  assumes sl: "skip_list cmp s xs" and e: "xs = us @ x # vs"
  shows "IterPrev cmp s (Some x) = Some (Ok (if us = [] then None else Some (last us)))"
proof -
  have ok: "list_ok cmp s xs" using sl by (simp add: skip_list_def)
  have "NodeKey s x = Ok (node_key s x)" using NodeKey_list [OF ok] e by simp
  moreover have "before_key cmp s (node_key s x) xs = us"
    using sorted_before_node(1) sl e by simp
  moreover have "us \<noteq> [] \<Longrightarrow> last us \<noteq> 0"
    using list_okD(6) [OF ok] e last_in_set [of us] by (metis Un_iff set_append)
  ultimately show ?thesis
    using FindLessThan_ok [OF sl, of "node_key s x"]
    by (cases "us = []") (simp_all add: IterPrev_def IterNodeKey_def)
qed

end


context list_order
begin

text \<open>The last node with a key at most the target: one step back at most.\<close>

lemma IterSeekForPrev_ok:
  assumes sl: "skip_list cmp s xs"
  shows "IterSeekForPrev cmp s target =
    Some (Ok (case from_key cmp s target xs of
        y # _ \<Rightarrow> if cmp target (node_key s y) = 0 then Some y
                 else if before_key cmp s target xs = [] then None
                 else Some (last (before_key cmp s target xs))
      | [] \<Rightarrow> if xs = [] then None else Some (last xs)))"
proof -
  let ?as = "before_key cmp s target xs" and ?bs = "from_key cmp s target xs"
  have xs: "xs = ?as @ ?bs" by (simp add: before_key_def from_key_def)
  have p: "parted cmp s target ?as ?bs" by (rule skip_list_parted(1) [OF sl])
  have stop: "IterRetreat cmp s target (Some x) = Some (Ok (Some x))" if "x \<in> set ?as" for x
  proof -
    have "\<not> cmp target (node_key s x) < 0"
      using partedD(2) [OF p that] antisym [of target "node_key s x"] by linarith
    then show ?thesis using partedD(4) [OF p that] by (subst IterRetreat.simps) simp
  qed
  show ?thesis
  proof (cases ?bs)
    case Nil
    then have "?as = xs" using xs by simp
    then have "xs \<noteq> [] \<Longrightarrow> IterRetreat cmp s target (Some (last xs)) = Some (Ok (Some (last xs)))"
      using stop by simp
    moreover have "IterRetreat cmp s target None = Some (Ok None)"
      by (subst IterRetreat.simps) simp
    ultimately show ?thesis
      using FindGreaterOrEqual_ok [OF sl, of target] IterSeekToLast_ok [OF sl] Nil
      by (simp add: IterSeekForPrev_def IterSeek_def)
  next
    case (Cons y ys)
    then have y: "y \<in> set ?bs" by simp
    have e: "xs = ?as @ y # ys" using xs Cons by simp
    have le: "cmp target (node_key s y) \<le> 0" using partedD(3) [OF p y] le_iff by simp
    have "IterRetreat cmp s target (Some y) =
        Some (Ok (if cmp target (node_key s y) = 0 then Some y
          else if ?as = [] then None else Some (last ?as)))"
    proof (cases "cmp target (node_key s y) = 0")
      case True
      then show ?thesis using partedD(5) [OF p y] by (subst IterRetreat.simps) simp
    next
      case False
      have "IterRetreat cmp s target (if ?as = [] then None else Some (last ?as)) =
          Some (Ok (if ?as = [] then None else Some (last ?as)))"
        using stop by (auto simp: IterRetreat.simps [of cmp s target None])
      then show ?thesis
        using False le partedD(5) [OF p y] IterPrev_ok [OF sl e] by (subst IterRetreat.simps) simp
    qed
    then show ?thesis
      using FindGreaterOrEqual_ok [OF sl, of target] Cons by (simp add: IterSeekForPrev_def IterSeek_def)
  qed
qed

text \<open>The estimate is computed in one pass, too.\<close>

lemma EstimateCountLoop_returns:
  assumes "parted cmp s key as bs" and "\<And>l. l \<le> level \<Longrightarrow> linked_at s l (as @ bs)"
    and "0 # as = us @ x # vs" and "level < node_height s x"
  shows "\<exists>c. EstimateCountLoop cmp s key x level count = Some (Ok c)"
  using assms
proof (induction "level + length vs" arbitrary: us x vs level count rule: less_induct)
  case less
  note p = less.prems(1)
  have lk: "linked_at s level (as @ bs)" by (rule less.prems(2)) simp
  from p lk less.prems(3,4) show ?case
  proof (cases rule: NodeNext_parted)
    case (before y vs1 vs2)
    have "0 # as = (us @ x # vs1) @ y # vs2" using less.prems(3) before(2) by simp
    then have "\<exists>c. EstimateCountLoop cmp s key y level (count + 1) = Some (Ok c)"
      using less.prems before by (intro less.hyps [of level vs2 "us @ x # vs1" y]) auto
    moreover have "\<not> 0 \<le> cmp (node_key s y) key" using partedD(2) [OF p before(3)] by simp
    ultimately show ?thesis
      using before(1) partedD(4) [OF p before(3)] by (subst EstimateCountLoop.simps) simp
  next
    case behind
    have st: "(case next_at s bs level of None \<Rightarrow> Ok True
        | Some y \<Rightarrow> obind (NodeKey s y) (\<lambda>k. Ok (0 \<le> cmp k key))) = Ok True"
      using find_from_bs(3,4) [OF p] by (cases "next_at s bs level") auto
    show ?thesis
    proof (cases "level = 0")
      case True
      then show ?thesis using behind(1) st by (subst EstimateCountLoop.simps) simp
    next
      case False
      then have "\<exists>c. EstimateCountLoop cmp s key x (level - 1)
          (count * word_of_nat (sl_kBranching s)) = Some (Ok c)"
        using less.prems by (intro less.hyps [of "level - 1" vs us]) auto
      then show ?thesis using behind(1) st False by (subst EstimateCountLoop.simps) simp
    qed
  qed
qed

lemma EstimateCount_returns:
  assumes sl: "skip_list cmp s xs"
  shows "\<exists>c. EstimateCount cmp s key = Some (Ok c)"
  unfolding EstimateCount_def
  by (rule EstimateCountLoop_returns [where us = "[]"])
    (use skip_list_parted(1,2) [OF sl, where key = key] skip_list_parted(3,4) [OF sl] in auto)

end

end
