(* ===== verification/Arena.thy ===== *)
theory Arena
  imports Prelude
begin

text \<open>
  The arenas of a MemTable: \<open>Arena\<close> (\<open>memory/arena.cc\<close>) for the nodes of the skip list inside the
  enclave, \<open>Untrusted_Arena\<close> (\<open>memory/untrusted_arena.cc\<close>) for the encrypted values outside of it, and
  the \<open>ConcurrentArena\<close> around either (\<open>memory/concurrent_arena.h\<close>,
  \<open>memory/untrusted_concurrent_arena.h\<close>), which serves a request from the arena or from the shard
  of a core. Addresses are natural numbers; \<open>malloc\<close>, an argument, gives the address of a new
  block from the blocks in use and its size. Every allocation is one step, as its lock makes it.
  Huge pages, allocation trackers and statistics are left out.
\<close>

section \<open>Blocks\<close>

definition kAlignUnit :: nat where
  "kAlignUnit = 16"

definition kMinBlockSize :: nat where
  "kMinBlockSize = 4096"

definition kMaxBlockSize :: nat where
  "kMaxBlockSize = 2147483648"

definition kInlineSize :: nat where
  "kInlineSize = 2048"

definition OptimizeBlockSize :: "nat \<Rightarrow> nat" where
  "OptimizeBlockSize block_size =
     (let block_size = max kMinBlockSize block_size;
          block_size = min kMaxBlockSize block_size
      in if block_size mod kAlignUnit \<noteq> 0 then (1 + block_size div kAlignUnit) * kAlignUnit
         else block_size)"

text \<open>A region is its first address and its length.\<close>

type_synonym region = "nat \<times> nat"

record Arena =
  ar_kBlockSize :: nat
  ar_blocks :: "region list"
  ar_irregular_block_num :: nat
  ar_unaligned_alloc_ptr :: nat
  ar_aligned_alloc_ptr :: nat
  ar_alloc_bytes_remaining :: nat
  ar_blocks_memory :: nat

type_synonym malloc = "region list \<Rightarrow> nat \<Rightarrow> nat"

text \<open>The arena in the enclave starts in a block of its own object, at \<open>inline_block\<close>.\<close>

definition MakeArena :: "nat \<Rightarrow> nat \<Rightarrow> Arena" where
  "MakeArena inline_block block_size =
     \<lparr>ar_kBlockSize = OptimizeBlockSize block_size, ar_blocks = [],
      ar_irregular_block_num = 0, ar_unaligned_alloc_ptr = inline_block + kInlineSize,
      ar_aligned_alloc_ptr = inline_block, ar_alloc_bytes_remaining = kInlineSize,
      ar_blocks_memory = kInlineSize\<rparr>"

definition MakeUntrusted_Arena :: "nat \<Rightarrow> Arena" where
  "MakeUntrusted_Arena block_size =
     \<lparr>ar_kBlockSize = OptimizeBlockSize block_size, ar_blocks = [],
      ar_irregular_block_num = 0, ar_unaligned_alloc_ptr = 0, ar_aligned_alloc_ptr = 0,
      ar_alloc_bytes_remaining = 0, ar_blocks_memory = 0\<rparr>"

definition AllocateNewBlock :: "malloc \<Rightarrow> nat \<Rightarrow> Arena \<Rightarrow> nat \<times> Arena" where
  "AllocateNewBlock malloc block_bytes a =
     (let block = malloc (ar_blocks a) block_bytes in
      (block, a\<lparr>ar_blocks := ar_blocks a @ [(block, block_bytes)],
                ar_blocks_memory := ar_blocks_memory a + block_bytes\<rparr>))"

text \<open>The block becomes the current one; what was left of the last one is wasted.\<close>

definition UseBlock :: "nat \<Rightarrow> nat \<Rightarrow> nat \<Rightarrow> bool \<Rightarrow> Arena \<Rightarrow> nat \<times> Arena" where
  "UseBlock block_head block_size bytes aligned a =
     (let a = a\<lparr>ar_alloc_bytes_remaining := block_size - bytes\<rparr> in
      if aligned then
        (block_head, a\<lparr>ar_aligned_alloc_ptr := block_head + bytes,
                       ar_unaligned_alloc_ptr := block_head + block_size\<rparr>)
      else
        (block_head + block_size - bytes,
         a\<lparr>ar_aligned_alloc_ptr := block_head,
           ar_unaligned_alloc_ptr := block_head + block_size - bytes\<rparr>))"

type_synonym fallback = "nat \<Rightarrow> bool \<Rightarrow> Arena \<Rightarrow> (nat \<times> Arena) outcome"

definition ArenaFallback :: "malloc \<Rightarrow> fallback" where
  "ArenaFallback malloc bytes aligned a =
     (if ar_kBlockSize a div 4 < bytes then
        Ok (AllocateNewBlock malloc bytes
              (a\<lparr>ar_irregular_block_num := ar_irregular_block_num a + 1\<rparr>))
      else
        (let (block_head, a) = AllocateNewBlock malloc (ar_kBlockSize a) a
         in Ok (UseBlock block_head (ar_kBlockSize a) bytes aligned a)))"

text \<open>Outside of the enclave, a request that no block can hold ends the process.\<close>

definition UntrustedFallback :: "malloc \<Rightarrow> fallback" where
  "UntrustedFallback malloc bytes aligned a =
     (if ar_kBlockSize a < bytes then Exit
      else
        (let (block_head, a) = AllocateNewBlock malloc (ar_kBlockSize a) a
         in Ok (UseBlock block_head (ar_kBlockSize a) bytes aligned a)))"

text \<open>The two arenas share the rest of their code.\<close>

definition ArenaAllocate :: "fallback \<Rightarrow> nat \<Rightarrow> Arena \<Rightarrow> (nat \<times> Arena) outcome" where
  "ArenaAllocate fallback bytes a =
     (if bytes \<le> ar_alloc_bytes_remaining a then
        (let p = ar_unaligned_alloc_ptr a - bytes in
         Ok (p, a\<lparr>ar_unaligned_alloc_ptr := p,
                  ar_alloc_bytes_remaining := ar_alloc_bytes_remaining a - bytes\<rparr>))
      else fallback bytes False a)"

definition ArenaAllocateAligned :: "fallback \<Rightarrow> nat \<Rightarrow> Arena \<Rightarrow> (nat \<times> Arena) outcome" where
  "ArenaAllocateAligned fallback bytes a =
     (let current_mod = ar_aligned_alloc_ptr a mod kAlignUnit;
          slop = (if current_mod = 0 then 0 else kAlignUnit - current_mod);
          needed = bytes + slop
      in if needed \<le> ar_alloc_bytes_remaining a then
           Ok (ar_aligned_alloc_ptr a + slop,
               a\<lparr>ar_aligned_alloc_ptr := ar_aligned_alloc_ptr a + needed,
                 ar_alloc_bytes_remaining := ar_alloc_bytes_remaining a - needed\<rparr>)
         else fallback bytes True a)"

section \<open>Shards\<close>

text \<open>A shard is its free part: \<open>free_begin_\<close> and \<open>allocated_and_unused_\<close>.\<close>

record ConcurrentArena =
  ca_shard_block_size :: nat
  ca_shards :: "region list"
  ca_arena :: Arena

definition kMaxShardBlockSize :: nat where
  "kMaxShardBlockSize = 131072"

definition MakeConcurrentArena :: "nat \<Rightarrow> nat \<Rightarrow> Arena \<Rightarrow> ConcurrentArena" where
  "MakeConcurrentArena cores block_size a =
     \<lparr>ca_shard_block_size = min kMaxShardBlockSize (block_size div 8),
      ca_shards = replicate cores (0, 0), ca_arena = a\<rparr>"

text \<open>
  \<open>direct\<close> tells whether the caller runs on core 0 with an unused shard and gets the lock of the
  arena at once; otherwise \<open>core\<close> is the core whose shard it locks.
\<close>

definition AllocateImpl ::
    "fallback \<Rightarrow> (fallback \<Rightarrow> nat \<Rightarrow> Arena \<Rightarrow> (nat \<times> Arena) outcome) \<Rightarrow> nat \<Rightarrow> bool \<Rightarrow> nat \<Rightarrow>
     ConcurrentArena \<Rightarrow> (nat \<times> ConcurrentArena) outcome" where
  "AllocateImpl fallback func bytes direct core c =
     (let from_arena = obind (func fallback bytes (ca_arena c)) (\<lambda>(rv, a).
                         Ok (rv, c\<lparr>ca_arena := a\<rparr>));
          from_shard = (\<lambda>free_begin avail c.
            let avail' = avail - bytes in
            if bytes mod 8 = 0
            then Ok (free_begin,
                     c\<lparr>ca_shards := (ca_shards c)[core := (free_begin + bytes, avail')]\<rparr>)
            else Ok (free_begin + avail - bytes,
                     c\<lparr>ca_shards := (ca_shards c)[core := (free_begin, avail')]\<rparr>))
      in if ca_shard_block_size c div 4 < bytes \<or> direct then from_arena
         else
           (let (free_begin, avail) = ca_shards c ! core in
            if avail < bytes then
              (let exact = ar_alloc_bytes_remaining (ca_arena c) in
               if bytes \<le> exact \<and> ar_blocks (ca_arena c) = [] then from_arena
               else
                 (let avail = (if ca_shard_block_size c div 2 \<le> exact \<and>
                                  exact < ca_shard_block_size c * 2
                               then exact else ca_shard_block_size c)
                  in obind (ArenaAllocateAligned fallback avail (ca_arena c)) (\<lambda>(free_begin, a).
                       from_shard free_begin avail (c\<lparr>ca_arena := a\<rparr>))))
            else from_shard free_begin avail c))"

definition ConcurrentAllocate ::
    "fallback \<Rightarrow> nat \<Rightarrow> bool \<Rightarrow> nat \<Rightarrow> ConcurrentArena \<Rightarrow> (nat \<times> ConcurrentArena) outcome" where
  "ConcurrentAllocate fallback bytes direct core c =
     AllocateImpl fallback ArenaAllocate bytes direct core c"

definition RoundUp :: "u64 \<Rightarrow> u64" where
  "RoundUp bytes = ((bytes - 1) OR 7) + 1"

definition ConcurrentAllocateAligned ::
    "fallback \<Rightarrow> u64 \<Rightarrow> bool \<Rightarrow> nat \<Rightarrow> ConcurrentArena \<Rightarrow> (nat \<times> ConcurrentArena) outcome" where
  "ConcurrentAllocateAligned fallback bytes direct core c =
     AllocateImpl fallback ArenaAllocateAligned (unat (RoundUp bytes)) direct core c"


section \<open>Disjoint allocations\<close>

definition disj :: "region \<Rightarrow> region \<Rightarrow> bool" where
  "disj r s \<longleftrightarrow> snd r = 0 \<or> snd s = 0 \<or> fst r + snd r \<le> fst s \<or> fst s + snd s \<le> fst r"

definition inner :: "region \<Rightarrow> region \<Rightarrow> bool" where
  "inner r s \<longleftrightarrow> fst s \<le> fst r \<and> fst r + snd r \<le> fst s + snd s"

definition apart :: "region list \<Rightarrow> bool" where
  "apart rs \<longleftrightarrow> sorted_wrt disj rs"

lemma disj_sym: "disj r s \<Longrightarrow> disj s r"
  by (auto simp: disj_def)

lemma disj_inner: "disj r s \<Longrightarrow> inner r' r \<Longrightarrow> inner s' s \<Longrightarrow> disj r' s'"
  unfolding disj_def inner_def by linarith

lemma inner_refl [simp]: "inner r r"
  by (simp add: inner_def)

lemma inner_trans: "inner r s \<Longrightarrow> inner s t \<Longrightarrow> inner r t"
  by (auto simp: inner_def)

lemma apart_append:
  "apart (xs @ ys) \<longleftrightarrow> apart xs \<and> apart ys \<and> (\<forall>x\<in>set xs. \<forall>y\<in>set ys. disj x y)"
  by (simp add: apart_def sorted_wrt_append)

lemma apart_Cons: "apart (x # xs) \<longleftrightarrow> (\<forall>y\<in>set xs. disj x y) \<and> apart xs"
  by (simp add: apart_def)

lemma apart_front: "apart (xs @ y # zs) \<longleftrightarrow> apart (y # xs @ zs)"
  by (auto simp: apart_append apart_Cons intro: disj_sym)

lemma apart_update:
  assumes "i < length fs"
  shows "apart (gs @ fs[i := f]) \<longleftrightarrow> apart (f # gs @ take i fs @ drop (Suc i) fs)"
proof -
  have "gs @ fs[i := f] = (gs @ take i fs) @ f # drop (Suc i) fs"
    using assms by (simp add: upd_conv_take_nth_drop)
  then have "apart (gs @ fs[i := f]) = apart (f # (gs @ take i fs) @ drop (Suc i) fs)"
    by (simp only: apart_front)
  then show ?thesis by simp
qed

lemma apart_nth:
  assumes "i < length fs"
  shows "apart (gs @ fs) \<longleftrightarrow> apart (fs ! i # gs @ take i fs @ drop (Suc i) fs)"
  using apart_update [OF assms, of gs "fs ! i"] by simp

text \<open>The free part of an arena and of the shards.\<close>

definition arena_free :: "Arena \<Rightarrow> region" where
  "arena_free a = (ar_aligned_alloc_ptr a, ar_alloc_bytes_remaining a)"

definition arena_wf :: "Arena \<Rightarrow> bool" where
  "arena_wf a \<longleftrightarrow>
     ar_unaligned_alloc_ptr a = ar_aligned_alloc_ptr a + ar_alloc_bytes_remaining a"

text \<open>
  \<open>home\<close> is the block inside of the arena's object, if it has one. Every region lies in a block,
  if it is not empty.
\<close>

definition in_block :: "region list \<Rightarrow> region \<Rightarrow> bool" where
  "in_block bs r \<longleftrightarrow> snd r = 0 \<or> (\<exists>b\<in>set bs. inner r b)"

definition arena_inv :: "region list \<Rightarrow> ConcurrentArena \<Rightarrow> region list \<Rightarrow> bool" where
  "arena_inv home c given \<longleftrightarrow>
     arena_wf (ca_arena c) \<and>
     apart (given @ arena_free (ca_arena c) # ca_shards c) \<and>
     (\<forall>r\<in>set (given @ arena_free (ca_arena c) # ca_shards c).
        in_block (home @ ar_blocks (ca_arena c)) r)"

text \<open>What \<open>malloc\<close> promises: a new block does not overlap the ones in use.\<close>

definition malloc_ok :: "region list \<Rightarrow> malloc \<Rightarrow> bool" where
  "malloc_ok home malloc \<longleftrightarrow>
     (\<forall>live n. \<forall>b\<in>set (home @ live). disj b (malloc live n, n))"

text \<open>What an allocation of \<open>bytes\<close> does to an arena: a region of its own, cut off the free part
  or off a new block.\<close>

definition grants :: "region list \<Rightarrow> Arena \<Rightarrow> nat \<Rightarrow> nat \<Rightarrow> Arena \<Rightarrow> bool" where
  "grants home a bytes p a' \<longleftrightarrow>
     arena_wf a' \<and> disj (p, bytes) (arena_free a') \<and>
     (inner (p, bytes) (arena_free a) \<and> inner (arena_free a') (arena_free a) \<and>
        ar_blocks a' = ar_blocks a \<or>
      (\<exists>b. ar_blocks a' = ar_blocks a @ [b] \<and> (\<forall>b'\<in>set (home @ ar_blocks a). disj b' b) \<and>
         inner (p, bytes) b \<and> (inner (arena_free a') b \<or> arena_free a' = arena_free a)))"

lemma in_block_disj:
  assumes "in_block bs r" and "\<forall>b'\<in>set bs. disj b' b"
  shows "disj r b"
proof (cases "snd r = 0")
  case False
  then obtain b' where "b' \<in> set bs" and i: "inner r b'" using assms(1) by (auto simp: in_block_def)
  then have "disj b' b" using assms(2) by blast
  then show ?thesis using i inner_refl by (rule disj_inner)
qed (simp add: disj_def)

lemma in_block_mono: "in_block bs r \<Longrightarrow> set bs \<subseteq> set cs \<Longrightarrow> in_block cs r"
  by (auto simp: in_block_def)

lemma in_block_inner: "in_block bs r \<Longrightarrow> inner r' r \<Longrightarrow> in_block bs r'"
  using inner_trans [of r' r] unfolding in_block_def by (fastforce simp: inner_def)

text \<open>Granting a region keeps the regions disjoint and in their blocks.\<close>

lemma grants_inv:
  assumes inv: "arena_inv home c given" and g: "grants home (ca_arena c) bytes p a'"
  shows "arena_inv home (c\<lparr>ca_arena := a'\<rparr>) ((p, bytes) # given)"
proof -
  let ?f = "arena_free (ca_arena c)" and ?f' = "arena_free a'" and ?r = "(p, bytes)"
  let ?bs = "home @ ar_blocks (ca_arena c)" and ?bs' = "home @ ar_blocks a'"
  have ap: "apart (?f # given @ ca_shards c)"
    and ib: "\<And>r. r \<in> set (given @ ?f # ca_shards c) \<Longrightarrow> in_block ?bs r"
    using inv apart_front [of given ?f "ca_shards c"] by (auto simp: arena_inv_def)
  have wf': "arena_wf a'" and rf: "disj ?r ?f'" using g by (auto simp: grants_def)
  have sub: "set ?bs \<subseteq> set ?bs'" using g by (auto simp: grants_def)
  have "(\<forall>y\<in>set (given @ ca_shards c). disj ?r y \<and> disj ?f' y) \<and> in_block ?bs' ?r \<and> in_block ?bs' ?f'"
    using g unfolding grants_def
  proof (elim conjE disjE exE)
    assume w: "inner ?r ?f" "inner ?f' ?f" and b: "ar_blocks a' = ar_blocks (ca_arena c)"
    have "disj ?r y \<and> disj ?f' y" if "y \<in> set (given @ ca_shards c)" for y
      using ap that disj_inner [OF _ w(1) inner_refl] disj_inner [OF _ w(2) inner_refl]
      by (auto simp: apart_Cons)
    moreover have "in_block ?bs' ?f" using ib [of ?f] b by simp
    ultimately show ?thesis using in_block_inner w by blast
  next
    fix b
    assume b: "ar_blocks a' = ar_blocks (ca_arena c) @ [b]" "\<forall>b'\<in>set ?bs. disj b' b"
      and w: "inner ?r b" "inner ?f' b"
    have "disj ?r y \<and> disj ?f' y" if "y \<in> set (given @ ca_shards c)" for y
    proof -
      have "disj b y" using disj_sym in_block_disj [OF ib b(2)] that by auto
      then show ?thesis using disj_inner w inner_refl by blast
    qed
    then show ?thesis using b w by (auto simp: in_block_def)
  next
    fix b
    assume b: "ar_blocks a' = ar_blocks (ca_arena c) @ [b]" "\<forall>b'\<in>set ?bs. disj b' b"
      and w: "inner ?r b" and e: "?f' = ?f"
    have "disj ?r y \<and> disj ?f' y" if "y \<in> set (given @ ca_shards c)" for y
    proof -
      have "disj b y" using disj_sym in_block_disj [OF ib b(2)] that by auto
      then show ?thesis using disj_inner [OF _ w inner_refl] ap that e by (auto simp: apart_Cons)
    qed
    moreover have "in_block ?bs' ?f'" using in_block_mono [OF ib [of ?f] sub] e by simp
    ultimately show ?thesis using b w by (auto simp: in_block_def)
  qed
  moreover have "apart (((p, bytes) # given) @ ?f' # ca_shards c) \<longleftrightarrow>
      apart (?f' # ?r # given @ ca_shards c)"
    using apart_front [of "?r # given" ?f' "ca_shards c"] by simp
  moreover have "in_block ?bs' r" if "r \<in> set (given @ ca_shards c)" for r
    using in_block_mono [OF ib sub] that by auto
  ultimately show ?thesis
    using wf' rf ap disj_sym [OF rf] by (auto simp: arena_inv_def apart_Cons)
qed


text \<open>A fallback is only called for what the free part cannot hold.\<close>

definition fallback_ok :: "region list \<Rightarrow> fallback \<Rightarrow> bool" where
  "fallback_ok home fallback \<longleftrightarrow>
     (\<forall>bytes aligned a p a'. arena_wf a \<longrightarrow> in_block (home @ ar_blocks a) (arena_free a) \<longrightarrow>
        fallback bytes aligned a = Ok (p, a') \<longrightarrow> grants home a bytes p a')"

lemma UseBlock_grants:
  assumes m: "malloc_ok home malloc" and le: "bytes \<le> ar_kBlockSize a"
    and u: "(case AllocateNewBlock malloc (ar_kBlockSize a) a of (block_head, a1) \<Rightarrow>
      UseBlock block_head (ar_kBlockSize a) bytes aligned a1) = (p, a')"
  shows "grants home a bytes p a'"
proof -
  let ?h = "malloc (ar_blocks a) (ar_kBlockSize a)"
  let ?b = "(?h, ar_kBlockSize a)"
  have "\<forall>b'\<in>set (home @ ar_blocks a). disj b' ?b" using m by (simp add: malloc_ok_def)
  moreover have "ar_blocks a' = ar_blocks a @ [?b]" "arena_wf a'" "inner (p, bytes) ?b"
    "inner (arena_free a') ?b" "disj (p, bytes) (arena_free a')"
    using u le by (auto simp: AllocateNewBlock_def UseBlock_def Let_def arena_wf_def arena_free_def
        inner_def disj_def split: if_splits)
  ultimately show ?thesis unfolding grants_def by blast
qed

lemma UntrustedFallback_ok:
  assumes "malloc_ok home malloc"
  shows "fallback_ok home (UntrustedFallback malloc)"
  unfolding fallback_ok_def
proof (intro allI impI)
  fix bytes aligned a p a'
  assume "UntrustedFallback malloc bytes aligned a = Ok (p, a')"
  then have "bytes \<le> ar_kBlockSize a" and
    "(case AllocateNewBlock malloc (ar_kBlockSize a) a of (block_head, a1) \<Rightarrow>
      UseBlock block_head (ar_kBlockSize a) bytes aligned a1) = (p, a')"
    by (auto simp: UntrustedFallback_def AllocateNewBlock_def Let_def split: if_splits)
  then show "grants home a bytes p a'" by (rule UseBlock_grants [OF assms])
qed

lemma ArenaFallback_ok:
  assumes m: "malloc_ok home malloc"
  shows "fallback_ok home (ArenaFallback malloc)"
  unfolding fallback_ok_def
proof (intro allI impI)
  fix bytes aligned a p a'
  assume wf: "arena_wf a" and ib: "in_block (home @ ar_blocks a) (arena_free a)"
    and e: "ArenaFallback malloc bytes aligned a = Ok (p, a')"
  show "grants home a bytes p a'"
  proof (cases "ar_kBlockSize a div 4 < bytes")
    case True
    let ?b = "(malloc (ar_blocks a) bytes, bytes)"
    have p: "p = malloc (ar_blocks a) bytes" and b: "ar_blocks a' = ar_blocks a @ [?b]"
      and f: "arena_free a' = arena_free a" and wf': "arena_wf a'"
      using e True wf by (auto simp: ArenaFallback_def AllocateNewBlock_def Let_def arena_free_def arena_wf_def)
    have d: "\<forall>b'\<in>set (home @ ar_blocks a). disj b' ?b" using m by (simp add: malloc_ok_def)
    have "disj (p, bytes) (arena_free a')" using in_block_disj [OF ib d] p f disj_sym by simp
    then show ?thesis using p b d f wf' unfolding grants_def by auto
  next
    case False
    then have "bytes \<le> ar_kBlockSize a" by simp
    moreover have "(case AllocateNewBlock malloc (ar_kBlockSize a) a of (block_head, a1) \<Rightarrow>
      UseBlock block_head (ar_kBlockSize a) bytes aligned a1) = (p, a')"
      using e False by (auto simp: ArenaFallback_def AllocateNewBlock_def Let_def)
    ultimately show ?thesis by (rule UseBlock_grants [OF m])
  qed
qed

lemma ArenaAllocate_grants:
  assumes fb: "fallback_ok home fallback" and wf: "arena_wf a"
    and ib: "in_block (home @ ar_blocks a) (arena_free a)"
  shows "ArenaAllocate fallback bytes a = Ok (p, a') \<Longrightarrow> grants home a bytes p a'"
    and "ArenaAllocateAligned fallback bytes a = Ok (p, a') \<Longrightarrow> grants home a bytes p a'"
proof -
  show "ArenaAllocate fallback bytes a = Ok (p, a') \<Longrightarrow> grants home a bytes p a'"
  proof (cases "bytes \<le> ar_alloc_bytes_remaining a")
    case True
    assume "ArenaAllocate fallback bytes a = Ok (p, a')"
    then show ?thesis using True wf
      by (auto simp: ArenaAllocate_def grants_def arena_wf_def arena_free_def inner_def disj_def Let_def)
  next
    case False
    assume "ArenaAllocate fallback bytes a = Ok (p, a')"
    then show ?thesis using False fb wf ib by (auto simp: ArenaAllocate_def fallback_ok_def)
  qed
  define slop where "slop = (if ar_aligned_alloc_ptr a mod kAlignUnit = 0 then 0
    else kAlignUnit - ar_aligned_alloc_ptr a mod kAlignUnit)"
  have e: "ArenaAllocateAligned fallback bytes a =
    (if bytes + slop \<le> ar_alloc_bytes_remaining a then
       Ok (ar_aligned_alloc_ptr a + slop,
           a\<lparr>ar_aligned_alloc_ptr := ar_aligned_alloc_ptr a + (bytes + slop),
             ar_alloc_bytes_remaining := ar_alloc_bytes_remaining a - (bytes + slop)\<rparr>)
     else fallback bytes True a)"
    by (simp add: ArenaAllocateAligned_def Let_def slop_def)
  assume "ArenaAllocateAligned fallback bytes a = Ok (p, a')"
  then show "grants home a bytes p a'"
    using fb wf ib unfolding e
    by (auto simp: grants_def fallback_ok_def arena_wf_def arena_free_def inner_def disj_def
        split: if_splits)
qed

text \<open>Cutting a request off the free part of a shard.\<close>

lemma shard_inv:
  assumes inv: "arena_inv home c given" and core: "core < length (ca_shards c)"
    and ap: "apart (f # given @ arena_free (ca_arena c) #
      take core (ca_shards c) @ drop (Suc core) (ca_shards c))"
    and ib: "in_block (home @ ar_blocks (ca_arena c)) f"
    and w: "inner r f" "inner f' f" "disj r f'"
  shows "arena_inv home (c\<lparr>ca_shards := (ca_shards c)[core := f']\<rparr>) (r # given)"
proof -
  let ?rest = "given @ arena_free (ca_arena c) # take core (ca_shards c) @ drop (Suc core) (ca_shards c)"
  have "disj r y \<and> disj f' y" if "y \<in> set ?rest" for y
  proof -
    have "disj f y" using ap that unfolding apart_Cons by blast
    then show ?thesis using disj_inner [OF _ w(1) inner_refl] disj_inner [OF _ w(2) inner_refl] by blast
  qed
  then have "apart (f' # r # ?rest)"
    using ap disj_sym [OF w(3)] unfolding apart_Cons [of _ "r # ?rest"] apart_Cons [of _ ?rest] by simp
  then have "apart ((r # given @ [arena_free (ca_arena c)]) @ (ca_shards c)[core := f'])"
    using apart_update [OF core, of "r # given @ [arena_free (ca_arena c)]" f'] by simp
  moreover have "in_block (home @ ar_blocks (ca_arena c)) y"
    if "y \<in> set ((r # given @ [arena_free (ca_arena c)]) @ (ca_shards c)[core := f'])" for y
  proof -
    have "set ((ca_shards c)[core := f']) \<subseteq> insert f' (set (ca_shards c))" by (rule set_update_subset_insert)
    then have "y = r \<or> y = f' \<or> y \<in> set (given @ arena_free (ca_arena c) # ca_shards c)"
      using that by auto
    then show ?thesis using inv in_block_inner [OF ib w(1)] in_block_inner [OF ib w(2)]
      by (auto simp: arena_inv_def)
  qed
  ultimately show ?thesis using inv by (simp add: arena_inv_def)
qed


text \<open>
  Every allocation, direct or through a shard, hands out a region of its own, in a block; a
  request the arena cannot serve ends the process.
\<close>

lemma AllocateImpl_ok:
  assumes fb: "fallback_ok home fallback" and inv: "arena_inv home c given"
    and func: "func = ArenaAllocate \<or> func = ArenaAllocateAligned"
    and core: "core < length (ca_shards c)"
    and e: "AllocateImpl fallback func bytes direct core c = Ok (p, c')"
  shows "arena_inv home c' ((p, bytes) # given) \<and> length (ca_shards c') = length (ca_shards c) \<and>
    ca_shard_block_size c' = ca_shard_block_size c"
proof -
  let ?a = "ca_arena c"
  have wf: "arena_wf ?a" and ib: "in_block (home @ ar_blocks ?a) (arena_free ?a)"
    using inv by (auto simp: arena_inv_def)
  have gr: "grants home ?a n q a'" if "func fallback n ?a = Ok (q, a')" for n q a'
    using ArenaAllocate_grants [OF fb wf ib] func that by auto
  have direct: ?thesis if "obind (func fallback bytes ?a) (\<lambda>(rv, a). Ok (rv, c\<lparr>ca_arena := a\<rparr>)) = Ok (p, c')"
    using that grants_inv [OF inv gr] by (auto simp: obind_eq_Ok)
  define shard where "shard = (\<lambda>free_begin avail (c :: ConcurrentArena).
            let avail' = avail - bytes in
            if bytes mod 8 = 0
            then Ok (free_begin,
                     c\<lparr>ca_shards := (ca_shards c)[core := (free_begin + bytes, avail')]\<rparr>)
            else Ok (free_begin + avail - bytes,
                     c\<lparr>ca_shards := (ca_shards c)[core := (free_begin, avail')]\<rparr>))"
  have cut: "arena_inv home c' ((p, bytes) # given) \<and> length (ca_shards c') = length (ca_shards d) \<and>
      ca_shard_block_size c' = ca_shard_block_size d"
    if "arena_inv home d given" and "core < length (ca_shards d)" and "bytes \<le> avail"
      and "apart ((fb, avail) # given @ arena_free (ca_arena d) #
        take core (ca_shards d) @ drop (Suc core) (ca_shards d))"
      and "in_block (home @ ar_blocks (ca_arena d)) (fb, avail)"
      and "shard fb avail d = Ok (p, c')" for d fb avail
  proof -
    note t = that
    obtain f' where c': "c' = d\<lparr>ca_shards := (ca_shards d)[core := f']\<rparr>"
      and w: "inner (p, bytes) (fb, avail)" "inner f' (fb, avail)" "disj (p, bytes) f'"
      using t(3,6) by (auto simp: shard_def Let_def inner_def disj_def split: if_splits)
    then show ?thesis using shard_inv [OF t(1,2,4,5) w] by simp
  qed
  obtain fb avail where sh: "ca_shards c ! core = (fb, avail)" by (cases "ca_shards c ! core")
  have E: "AllocateImpl fallback func bytes direct core c =
     (if ca_shard_block_size c div 4 < bytes \<or> direct \<or>
         avail < bytes \<and> bytes \<le> ar_alloc_bytes_remaining ?a \<and> ar_blocks ?a = []
      then obind (func fallback bytes ?a) (\<lambda>(rv, a). Ok (rv, c\<lparr>ca_arena := a\<rparr>))
      else if avail < bytes then
        (let n = (if ca_shard_block_size c div 2 \<le> ar_alloc_bytes_remaining ?a \<and>
                     ar_alloc_bytes_remaining ?a < ca_shard_block_size c * 2
                  then ar_alloc_bytes_remaining ?a else ca_shard_block_size c)
         in obind (ArenaAllocateAligned fallback n ?a) (\<lambda>(fb, a). shard fb n (c\<lparr>ca_arena := a\<rparr>)))
      else shard fb avail c)"
    by (simp add: AllocateImpl_def sh shard_def Let_def)
  show ?thesis
  proof (cases "ca_shard_block_size c div 4 < bytes \<or> direct \<or>
         avail < bytes \<and> bytes \<le> ar_alloc_bytes_remaining ?a \<and> ar_blocks ?a = []")
    case True
    then show ?thesis using e unfolding E by (simp only: if_True direct)
  next
    case F: False
    show ?thesis
    proof (cases "avail < bytes")
      case False
      have ap: "apart ((fb, avail) # given @ arena_free ?a # take core (ca_shards c) @ drop (Suc core) (ca_shards c))"
        using inv apart_nth [OF core, of "given @ [arena_free ?a]"] sh by (simp add: arena_inv_def)
      have "(fb, avail) \<in> set (ca_shards c)" using core sh by (metis nth_mem)
      then have "in_block (home @ ar_blocks ?a) (fb, avail)" using inv by (auto simp: arena_inv_def)
      moreover have "shard fb avail c = Ok (p, c')" using e F False unfolding E by auto
      ultimately show ?thesis using cut [OF inv core _ ap] False by simp
    next
      case True
      define n where "n = (if ca_shard_block_size c div 2 \<le> ar_alloc_bytes_remaining ?a \<and>
                     ar_alloc_bytes_remaining ?a < ca_shard_block_size c * 2
                  then ar_alloc_bytes_remaining ?a else ca_shard_block_size c)"
      have le: "bytes \<le> n" using F by (auto simp: n_def)
      obtain q a' where q: "ArenaAllocateAligned fallback n ?a = Ok (q, a')"
        and s: "shard q n (c\<lparr>ca_arena := a'\<rparr>) = Ok (p, c')"
        using e F True unfolding E by (auto simp: n_def Let_def obind_eq_Ok)
      have i': "arena_inv home (c\<lparr>ca_arena := a'\<rparr>) ((q, n) # given)"
        using grants_inv [OF inv ArenaAllocate_grants(2) [OF fb wf ib q]] .
      then have i1: "arena_inv home (c\<lparr>ca_arena := a'\<rparr>) given"
        by (auto simp: arena_inv_def apart_Cons)
      have "apart (((q, n) # given @ [arena_free a']) @ ca_shards c)"
        using i' by (simp add: arena_inv_def)
      then have "apart ((q, n) # given @ arena_free a' #
          take core (ca_shards c) @ drop (Suc core) (ca_shards c))"
        using apart_nth [OF core, of "(q, n) # given @ [arena_free a']"] by (auto simp: apart_Cons)
      moreover have "in_block (home @ ar_blocks a') (q, n)" using i' by (simp add: arena_inv_def)
      ultimately show ?thesis using cut [OF i1 _ le _ _ s] core by simp
    qed
  qed
qed

section \<open>Sequences of allocations\<close>

text \<open>
  The states an arena can get into, with the regions it has handed out so far: every allocation
  is one step, from any core.
\<close>

inductive arena_reach ::
    "fallback \<Rightarrow> ConcurrentArena \<Rightarrow> ConcurrentArena \<Rightarrow> region list \<Rightarrow> bool"
  for fallback :: fallback and c0 :: ConcurrentArena where
  start: "arena_reach fallback c0 c0 []"
| aligned: "arena_reach fallback c0 c given \<Longrightarrow> core < length (ca_shards c) \<Longrightarrow>
    ConcurrentAllocateAligned fallback bytes direct core c = Ok (p, c') \<Longrightarrow>
    arena_reach fallback c0 c' ((p, unat (RoundUp bytes)) # given)"
| unaligned: "arena_reach fallback c0 c given \<Longrightarrow> core < length (ca_shards c) \<Longrightarrow>
    ConcurrentAllocate fallback bytes direct core c = Ok (p, c') \<Longrightarrow>
    arena_reach fallback c0 c' ((p, bytes) # given)"

inductive_cases arena_reach_Cons: "arena_reach fallback c0 c (r # given)"

lemma arena_reach_inv:
  assumes "arena_reach fallback c0 c given" and "fallback_ok home fallback" and "arena_inv home c0 []"
  shows "arena_inv home c given"
  using assms(1)
proof induction
  case start
  show ?case by (rule assms(3))
next
  case (aligned c given core bytes direct p c')
  show ?case
    using AllocateImpl_ok [OF assms(2) aligned.IH _ aligned.hyps(2)
      aligned.hyps(3) [unfolded ConcurrentAllocateAligned_def]] by simp
next
  case (unaligned c given core bytes direct p c')
  show ?case
    using AllocateImpl_ok [OF assms(2) unaligned.IH _ unaligned.hyps(2)
      unaligned.hyps(3) [unfolded ConcurrentAllocate_def]] by simp
qed

lemma apart_empty: "(\<And>r. r \<in> set rs \<Longrightarrow> snd r = 0) \<Longrightarrow> apart rs"
  by (induction rs) (auto simp: apart_Cons disj_def, simp add: apart_def)

lemma MakeConcurrentArena_inv:
  shows "arena_inv [] (MakeConcurrentArena cores n (MakeUntrusted_Arena n)) []"
    and "arena_inv [(inline_block, kInlineSize)]
      (MakeConcurrentArena cores n (MakeArena inline_block n)) []"
proof -
  show "arena_inv [] (MakeConcurrentArena cores n (MakeUntrusted_Arena n)) []"
    by (auto simp: arena_inv_def MakeConcurrentArena_def MakeUntrusted_Arena_def arena_wf_def
        arena_free_def in_block_def intro!: apart_empty)
  have "apart (replicate cores (0, 0))" by (rule apart_empty) simp
  then show "arena_inv [(inline_block, kInlineSize)]
      (MakeConcurrentArena cores n (MakeArena inline_block n)) []"
    by (auto simp: arena_inv_def MakeConcurrentArena_def MakeArena_def arena_wf_def
        arena_free_def in_block_def inner_def apart_Cons disj_def)
qed

text \<open>Rounding up to the size of a pointer; the empty request stays empty.\<close>

lemma RoundUp_eq:
  assumes "unat bytes \<le> 2 ^ 64 - 8"
  shows "unat (RoundUp bytes) = (unat bytes + 7) div 8 * 8"
proof (cases "bytes = 0")
  case True
  then show ?thesis by (simp add: RoundUp_def)
next
  case False
  then have p: "0 < unat bytes" by (simp add: unat_gt_0)
  have m: "unat (bytes - 1) = unat bytes - 1" using False by (simp add: unat_minus_one)
  have m7: "(7 :: 64 word) = mask 3" by (simp add: mask_eq_exp_minus_1)
  have "(bytes - 1) OR 7 = push_bit 3 (drop_bit 3 (bytes - 1)) OR 7"
    unfolding m7 by (rule bit_word_eqI) (auto simp: bit_simps)
  also have "\<dots> = push_bit 3 (drop_bit 3 (bytes - 1)) + 7"
    unfolding m7 by (rule disjunctive_add [symmetric]) (auto simp: bit_simps)
  finally have "RoundUp bytes = push_bit 3 (drop_bit 3 (bytes - 1)) + 8" by (simp add: RoundUp_def)
  also have "push_bit 3 (drop_bit 3 (bytes - 1)) = word_of_nat ((unat bytes - 1) div 8 * 8)"
  proof -
    have "drop_bit 3 (bytes - 1) = word_of_nat (unat (drop_bit 3 (bytes - 1)))" by simp
    also have "unat (drop_bit 3 (bytes - 1)) = (unat bytes - 1) div 8"
      by (simp add: unat_drop_bit_div m)
    finally show ?thesis by (simp add: push_bit_eq_mult)
  qed
  finally have e: "RoundUp bytes = word_of_nat ((unat bytes - 1) div 8 * 8 + 8)" by simp
  obtain k where k: "unat bytes = Suc k" using p by (cases "unat bytes") auto
  have d: "(unat bytes - 1) div 8 * 8 + 8 = (unat bytes + 7) div 8 * 8"
    unfolding k using div_add_self2 [of 8 k] by (simp add: add.commute)
  have "(unat bytes + 7) div 8 * 8 \<le> unat bytes + 7" by simp
  then have "(unat bytes + 7) div 8 * 8 < 2 ^ 64" using assms by simp
  then show ?thesis unfolding e d unsigned_of_nat by (simp add: take_bit_nat_eq_self)
qed

section \<open>The untrusted arena returns, and only grows\<close>

text \<open>One operation of the untrusted arena takes at most one new block.\<close>

definition arena_step :: "malloc \<Rightarrow> Arena \<Rightarrow> Arena \<Rightarrow> bool" where
  "arena_step malloc a a' \<longleftrightarrow>
     ar_kBlockSize a' = ar_kBlockSize a \<and>
     (ar_blocks a' = ar_blocks a \<or>
      ar_blocks a' = ar_blocks a @ [(malloc (ar_blocks a) (ar_kBlockSize a), ar_kBlockSize a)]) \<and>
     (ar_alloc_bytes_remaining a \<le> ar_kBlockSize a \<longrightarrow>
        ar_alloc_bytes_remaining a' \<le> ar_kBlockSize a)"

lemma UntrustedFallback_step:
  "UntrustedFallback malloc bytes aligned a = Ok (p, a') \<Longrightarrow> arena_step malloc a a'"
  by (auto simp: UntrustedFallback_def AllocateNewBlock_def UseBlock_def Let_def arena_step_def
      split: if_splits)

lemma arena_step_ops:
  shows "ArenaAllocate (UntrustedFallback malloc) bytes a = Ok (p, a') \<Longrightarrow> arena_step malloc a a'"
    and "ArenaAllocateAligned (UntrustedFallback malloc) bytes a = Ok (p, a') \<Longrightarrow> arena_step malloc a a'"
proof -
  show "ArenaAllocate (UntrustedFallback malloc) bytes a = Ok (p, a') \<Longrightarrow> arena_step malloc a a'"
    by (auto simp: ArenaAllocate_def Let_def arena_step_def split: if_splits)
      (auto dest!: UntrustedFallback_step simp: arena_step_def)
  show "ArenaAllocateAligned (UntrustedFallback malloc) bytes a = Ok (p, a') \<Longrightarrow> arena_step malloc a a'"
    unfolding ArenaAllocateAligned_def Let_def
    by (split if_splits) (auto simp: arena_step_def dest!: UntrustedFallback_step split: if_splits)
qed

lemma AllocateImpl_step:
  assumes func: "func = ArenaAllocate \<or> func = ArenaAllocateAligned"
    and e: "AllocateImpl (UntrustedFallback malloc) func bytes direct core c = Ok (p, c')"
  shows "arena_step malloc (ca_arena c) (ca_arena c') \<or> ca_arena c' = ca_arena c"
proof -
  obtain fb avail where sh: "ca_shards c ! core = (fb, avail)" by (cases "ca_shards c ! core")
  have f: "func (UntrustedFallback malloc) bytes a = Ok (q, a') \<Longrightarrow> arena_step malloc a a'" for a a' q
    using func arena_step_ops by auto
  show ?thesis
    using e unfolding AllocateImpl_def sh
    by (auto simp: Let_def obind_eq_Ok split: if_splits dest: f arena_step_ops(2))
qed

text \<open>Requests that fit into a block are always served, larger ones end the process.\<close>

lemma AllocateAligned_returns:
  assumes "bytes \<le> ar_kBlockSize a"
  shows "\<exists>p a'. ArenaAllocateAligned (UntrustedFallback malloc) bytes a = Ok (p, a')"
  using assms
  by (auto simp: ArenaAllocateAligned_def UntrustedFallback_def AllocateNewBlock_def Let_def
      split: prod.split)

lemma AllocateImpl_returns:
  assumes "bytes \<le> ar_kBlockSize (ca_arena c)"
    and "2 * ca_shard_block_size c \<le> ar_kBlockSize (ca_arena c)"
  shows "\<exists>p c'. AllocateImpl (UntrustedFallback malloc) ArenaAllocateAligned bytes direct core c =
    Ok (p, c')"
proof -
  obtain fb avail where sh: "ca_shards c ! core = (fb, avail)" by (cases "ca_shards c ! core")
  obtain p a' where d: "ArenaAllocateAligned (UntrustedFallback malloc) bytes (ca_arena c) = Ok (p, a')"
    using AllocateAligned_returns [OF assms(1)] by blast
  have r: "\<exists>p a'. ArenaAllocateAligned (UntrustedFallback malloc) n (ca_arena c) = Ok (p, a')"
    if "n \<le> 2 * ca_shard_block_size c" for n
    using AllocateAligned_returns [of n "ca_arena c" malloc] that assms(2) by simp
  define exact where "exact = ar_alloc_bytes_remaining (ca_arena c)"
  define n where "n = (if ca_shard_block_size c div 2 \<le> exact \<and> exact < ca_shard_block_size c * 2
    then exact else ca_shard_block_size c)"
  have "n \<le> 2 * ca_shard_block_size c" by (auto simp: n_def)
  then obtain q b where "ArenaAllocateAligned (UntrustedFallback malloc) n (ca_arena c) = Ok (q, b)"
    using r by blast
  then show ?thesis
    using d by (auto simp: AllocateImpl_def sh Let_def n_def exact_def split: if_splits)
qed

lemma AllocateImpl_exits:
  assumes "ar_kBlockSize (ca_arena c) < bytes"
    and "ar_alloc_bytes_remaining (ca_arena c) \<le> ar_kBlockSize (ca_arena c)"
    and "2 * ca_shard_block_size c \<le> ar_kBlockSize (ca_arena c)"
  shows "AllocateImpl (UntrustedFallback malloc) ArenaAllocateAligned bytes direct core c = Exit"
proof -
  have "ca_shard_block_size c div 4 < bytes" using assms(1,3) by simp
  moreover have "ArenaAllocateAligned (UntrustedFallback malloc) bytes (ca_arena c) = Exit"
    using assms(1,2) by (simp add: ArenaAllocateAligned_def UntrustedFallback_def Let_def)
  ultimately show ?thesis by (simp add: AllocateImpl_def Let_def)
qed

text \<open>The arena of a MemTable: its sizes are the default ones.\<close>

definition u_arena_ok :: "ConcurrentArena \<Rightarrow> region list \<Rightarrow> bool" where
  "u_arena_ok c given \<longleftrightarrow>
     arena_inv [] c given \<and> ar_kBlockSize (ca_arena c) = kMinBlockSize \<and>
     ca_shard_block_size c = 512 \<and> ar_alloc_bytes_remaining (ca_arena c) \<le> kMinBlockSize \<and>
     (\<forall>b\<in>set (ar_blocks (ca_arena c)). fst b + snd b \<le> 2 ^ 64)"

text \<open>A block that \<open>malloc\<close> would hand out now lies in the address space.\<close>

definition block_below :: "malloc \<Rightarrow> ConcurrentArena \<Rightarrow> bool" where
  "block_below malloc c \<longleftrightarrow> malloc (ar_blocks (ca_arena c)) kMinBlockSize + kMinBlockSize \<le> 2 ^ 64"

text \<open>What an allocation keeps: the shards, and all blocks but a new one of \<open>malloc\<close>.\<close>

definition arena_after :: "malloc \<Rightarrow> ConcurrentArena \<Rightarrow> ConcurrentArena \<Rightarrow> bool" where
  "arena_after malloc c c' \<longleftrightarrow>
     length (ca_shards c') = length (ca_shards c) \<and>
     (ar_blocks (ca_arena c') = ar_blocks (ca_arena c) \<or>
      ar_blocks (ca_arena c') = ar_blocks (ca_arena c) @
        [(malloc (ar_blocks (ca_arena c)) kMinBlockSize, kMinBlockSize)])"

lemma u_arena_start: "u_arena_ok (MakeConcurrentArena cores kMinBlockSize (MakeUntrusted_Arena kMinBlockSize)) []"
  using MakeConcurrentArena_inv(1) [of cores kMinBlockSize]
  by (simp add: u_arena_ok_def MakeConcurrentArena_def MakeUntrusted_Arena_def OptimizeBlockSize_def
      kMinBlockSize_def kMaxBlockSize_def kAlignUnit_def kMaxShardBlockSize_def)

lemma u_arena_allocate:
  assumes m: "malloc_ok [] malloc" and ok: "u_arena_ok c given" and core: "core < length (ca_shards c)"
    and b: "block_below malloc c" and n: "unat (RoundUp bytes) \<le> kMinBlockSize"
  shows "\<exists>p c'. ConcurrentAllocateAligned (UntrustedFallback malloc) bytes direct core c = Ok (p, c') \<and>
    u_arena_ok c' ((p, unat (RoundUp bytes)) # given) \<and> arena_after malloc c c' \<and>
    (0 < unat (RoundUp bytes) \<longrightarrow> p + unat (RoundUp bytes) \<le> 2 ^ 64)"
proof -
  let ?n = "unat (RoundUp bytes)"
  have sz: "ar_kBlockSize (ca_arena c) = kMinBlockSize" "ca_shard_block_size c = 512"
    using ok by (simp_all add: u_arena_ok_def)
  obtain p c' where e: "AllocateImpl (UntrustedFallback malloc) ArenaAllocateAligned ?n direct core c = Ok (p, c')"
    using AllocateImpl_returns [of ?n c malloc direct core] n sz by (auto simp: kMinBlockSize_def)
  have inv: "arena_inv [] c given" using ok by (simp add: u_arena_ok_def)
  note r = AllocateImpl_ok [OF UntrustedFallback_ok [OF m] inv _ core e]
  have st: "arena_step malloc (ca_arena c) (ca_arena c') \<or> ca_arena c' = ca_arena c"
    by (rule AllocateImpl_step [OF _ e]) simp
  have ok': "u_arena_ok c' ((p, ?n) # given)"
    using r st ok b by (auto simp: u_arena_ok_def arena_step_def block_below_def)
  have "p + ?n \<le> 2 ^ 64" if pos: "0 < ?n"
  proof -
    obtain b where "b \<in> set (ar_blocks (ca_arena c'))" and "inner (p, ?n) b"
      using r pos by (auto simp: arena_inv_def in_block_def)
    then show ?thesis using ok' by (force simp: u_arena_ok_def inner_def)
  qed
  moreover have "arena_after malloc c c'"
    using r st sz(1) by (auto simp: arena_after_def arena_step_def)
  ultimately show ?thesis using e ok' by (auto simp: ConcurrentAllocateAligned_def)
qed

end
