(* ===== verification/Memtable.thy ===== *)
theory Memtable
  imports Skip_List Arena Enc_Dec Internal_Key
begin

text \<open>
  The MemTable (\<open>db/memtable.cc\<close>, \<open>db/merge_context.h\<close>, \<open>memtable/skiplistrep.cc\<close>) as built with
  \<open>MEMTABLE\<close>: an entry in the enclave holds the internal key and a descriptor of the value, its
  size, its tag and the address of its ciphertext in untrusted memory. The memory outside of the
  enclave is a function from addresses to bytes. Bloom filters, timestamps, concurrent insertion
  and the decision to flush are left out; the answer of the range tombstones is an argument.
\<close>

section \<open>Entries\<close>

text \<open>A length-prefixed slice at an address: its bytes, and those behind it.\<close>

definition SliceAt :: "bytes \<Rightarrow> bytes" where
  "SliceAt data = (case GetVarint32Ptr data of None \<Rightarrow> [] | Some (len, p) \<Rightarrow> take (unat len) p)"

definition BehindSlice :: "bytes \<Rightarrow> bytes" where
  "BehindSlice data = (case GetVarint32Ptr data of None \<Rightarrow> [] | Some (len, p) \<Rightarrow> drop (unat len) p)"

definition KeyComparator :: "(bytes \<Rightarrow> bytes \<Rightarrow> int) \<Rightarrow> bytes \<Rightarrow> bytes \<Rightarrow> int" where
  "KeyComparator ucmp a b = CompareKeySeq ucmp (SliceAt a) (SliceAt b)"

definition RepUserKey :: "bytes \<Rightarrow> bytes" where
  "RepUserKey key = (let slice = SliceAt key in take (length slice - 8) slice)"

definition EncodeKey :: "bytes \<Rightarrow> bytes" where
  "EncodeKey target = PutVarint32 [] (word_of_nat (length target)) @ target"

definition EncodeEntry :: "bytes \<Rightarrow> SequenceNumber \<Rightarrow> ValueType \<Rightarrow> u32 \<Rightarrow> bytes \<Rightarrow> u64 \<Rightarrow> bytes" where
  "EncodeEntry key s vtype val_size tags ptr =
     (let key_size = word_of_nat (length key) :: u32;
          internal_key_size = key_size + 8
      in EncodeVarint32 internal_key_size @ take (unat key_size) key @
         EncodeFixed64 (PackSequenceAndType s vtype) @ EncodeVarint32 28 @
         EncodeFixed32 val_size @ take 16 tags @ EncodeFixed64 ptr)"

text \<open>The size that \<open>Add\<close> asks for, and the bytes the allocator reserves for it.\<close>

definition encoded_len :: "bytes \<Rightarrow> u32" where
  "encoded_len key =
     (let internal_key_size = word_of_nat (length key) + 8 :: u32
      in word_of_nat (VarintLength (ucast internal_key_size)) + internal_key_size + 4 + 16 + 8)"

definition entry_room :: "bytes \<Rightarrow> nat" where
  "entry_room key = unat (RoundUp (ucast (encoded_len key)))"

section \<open>The state\<close>

record MergeOperator =
  mg_FullMergeV2 :: "bytes \<Rightarrow> bytes option \<Rightarrow> bytes list \<Rightarrow> bytes \<times> bool"
  mg_ShouldMerge :: "bytes option list \<Rightarrow> bool"

record MemTableOptions =
  mo_merge_operator :: "MergeOperator option"
  mo_inplace_update_support :: bool
  mo_hint_extractor :: "(bytes \<Rightarrow> bytes option) option"

text \<open>A hint remembers which of the two lists its splice is for.\<close>

record MemTable =
  mt_table :: InlineSkipList
  mt_range_del_table :: InlineSkipList
  mt_is_range_del_table_empty :: bool
  mt_u_arena :: ConcurrentArena
  mt_mem :: "nat \<Rightarrow> byte"
  mt_num_entries :: u64
  mt_data_size :: u64
  mt_num_deletes :: u64
  mt_first_seqno :: SequenceNumber
  mt_earliest_seqno :: SequenceNumber
  mt_insert_hints :: "bytes \<rightharpoonup> bool \<times> Splice"

type_synonym splice_garbage = "(nat \<Rightarrow> nat) \<times> (nat \<Rightarrow> nat option)"

definition MakeMemTable ::
    "splice_garbage \<Rightarrow> splice_garbage \<Rightarrow> nat \<Rightarrow> (nat \<Rightarrow> byte) \<Rightarrow> SequenceNumber \<Rightarrow> MemTable" where
  "MakeMemTable garbage1 garbage2 cores mem latest_seq =
     \<lparr>mt_table = MakeInlineSkipList 12 4 garbage1,
      mt_range_del_table = MakeInlineSkipList 12 4 garbage2, mt_is_range_del_table_empty = True,
      mt_u_arena = MakeConcurrentArena cores kMinBlockSize (MakeUntrusted_Arena kMinBlockSize),
      mt_mem = mem, mt_num_entries = 0, mt_data_size = 0, mt_num_deletes = 0,
      mt_first_seqno = 0, mt_earliest_seqno = latest_seq, mt_insert_hints = Map.empty\<rparr>"

definition MemIsEmpty :: "MemTable \<Rightarrow> bool" where
  "MemIsEmpty m \<longleftrightarrow> mt_first_seqno m = 0"

section \<open>The memory outside of the enclave\<close>

definition ReadMem :: "(nat \<Rightarrow> byte) \<Rightarrow> nat \<Rightarrow> nat \<Rightarrow> bytes" where
  "ReadMem mem p n = map mem [p..<p + n]"

definition WriteMem :: "(nat \<Rightarrow> byte) \<Rightarrow> nat \<Rightarrow> bytes \<Rightarrow> nat \<Rightarrow> byte" where
  "WriteMem mem p bs = (\<lambda>a. if p \<le> a \<and> a < p + length bs then bs ! (a - p) else mem a)"

text \<open>The value goes out as it is and is encrypted where it lies.\<close>

definition StoreValue ::
    "openssl \<Rightarrow> bytes \<Rightarrow> bytes \<Rightarrow> nat \<Rightarrow> (nat \<Rightarrow> byte) \<Rightarrow> (bytes \<times> (nat \<Rightarrow> byte)) outcome" where
  "StoreValue ssl memtable_key value p mem =
     (let mem = WriteMem mem p value in
      obind (Encryption ssl (ReadMem mem p (length value)) memtable_key gcm_iv gcm_aad)
        (\<lambda>(cipher, tags). Ok (tags, WriteMem mem p cipher)))"

text \<open>A descriptor: the size, the tag and the address of a value.\<close>

definition ReadDescriptor :: "bytes \<Rightarrow> (u32 \<times> bytes \<times> u64) outcome" where
  "ReadDescriptor v =
     obind (of_opt (DecodeFixed32 v)) (\<lambda>value_size.
     obind (of_opt (DecodeFixed64 (drop 20 v))) (\<lambda>value_ptr.
       Ok (value_size, take 16 (drop 4 v), value_ptr)))"

text \<open>The value, and whether its tag was wrong, which is printed.\<close>

definition LoadValue ::
    "openssl \<Rightarrow> bytes \<Rightarrow> (nat \<Rightarrow> byte) \<Rightarrow> bytes \<Rightarrow> (bytes \<times> bool) outcome" where
  "LoadValue ssl memtable_key mem v =
     obind (ReadDescriptor v) (\<lambda>(value_size, tags, value_ptr).
       Decryption ssl (ReadMem mem (unat value_ptr) (unat value_size)) memtable_key gcm_iv gcm_aad
         (Some tags))"

section \<open>Insertion\<close>

text \<open>
  What the surroundings contribute to an insertion: the draws of the height, uninitialised
  memory of a new splice, and which part of the arena serves the request.
\<close>

record AddEnv =
  ae_draws :: "nat \<Rightarrow> u32"
  ae_garbage :: splice_garbage
  ae_direct :: bool
  ae_core :: nat

definition InsertEntry ::
    "(bytes \<Rightarrow> bytes \<Rightarrow> int) \<Rightarrow> MemTableOptions \<Rightarrow> AddEnv \<Rightarrow> bool \<Rightarrow> bytes \<Rightarrow> bytes \<Rightarrow> InlineSkipList \<Rightarrow>
     (bytes \<rightharpoonup> bool \<times> Splice) \<Rightarrow> (bool \<times> InlineSkipList \<times> (bytes \<rightharpoonup> bool \<times> Splice)) run" where
  "InsertEntry ucmp opts env range_del key entry table hints =
     (let (x, table) = AllocateKey entry (ae_draws env) table in
      case (case mo_hint_extractor opts of None \<Rightarrow> None | Some f \<Rightarrow> f key) of
        Some prefix \<Rightarrow>
          (case hints prefix of
             Some (rd, sp) \<Rightarrow>
               if rd \<noteq> range_del then Some Undef
               else
                 rbind (ListInsertWithHint (KeyComparator ucmp) (ae_garbage env) x (Some sp) table)
                   (\<lambda>(res, table, sp). Some (Ok (res, table, hints(prefix \<mapsto> (range_del, sp)))))
           | None \<Rightarrow>
               rbind (ListInsertWithHint (KeyComparator ucmp) (ae_garbage env) x None table)
                 (\<lambda>(res, table, sp). Some (Ok (res, table, hints(prefix \<mapsto> (range_del, sp))))))
      | None \<Rightarrow>
          rbind (ListInsert (KeyComparator ucmp) x table) (\<lambda>(res, table).
            Some (Ok (res, table, hints))))"

definition CountEntry :: "SequenceNumber \<Rightarrow> ValueType \<Rightarrow> bytes \<Rightarrow> MemTable \<Rightarrow> MemTable" where
  "CountEntry s vtype key m =
     (let m = m\<lparr>mt_num_entries := mt_num_entries m + 1,
                mt_data_size := mt_data_size m + ucast (encoded_len key)\<rparr>;
          m = (if vtype = kTypeDeletion then m\<lparr>mt_num_deletes := mt_num_deletes m + 1\<rparr> else m);
          m = (if mt_first_seqno m = 0 then
                 (let m = m\<lparr>mt_first_seqno := s\<rparr>
                  in if mt_earliest_seqno m = kMaxSequenceNumber then m\<lparr>mt_earliest_seqno := s\<rparr>
                     else m)
               else m)
      in if vtype = kTypeRangeDeletion then m\<lparr>mt_is_range_del_table_empty := False\<rparr> else m)"

text \<open>The part of \<open>Add\<close> that follows the encoding of the entry.\<close>

definition AddEntry ::
    "(bytes \<Rightarrow> bytes \<Rightarrow> int) \<Rightarrow> MemTableOptions \<Rightarrow> AddEnv \<Rightarrow> SequenceNumber \<Rightarrow> ValueType \<Rightarrow> bytes \<Rightarrow>
     bytes \<Rightarrow> MemTable \<Rightarrow> (bool \<times> MemTable) run" where
  "AddEntry ucmp opts env s vtype key entry m =
     (let range_del = (vtype = kTypeRangeDeletion)
      in rbind (InsertEntry ucmp opts env range_del key entry
                 (if range_del then mt_range_del_table m else mt_table m) (mt_insert_hints m))
           (\<lambda>(res, table, hints).
             let m = (if range_del then m\<lparr>mt_range_del_table := table\<rparr> else m\<lparr>mt_table := table\<rparr>);
                 m = m\<lparr>mt_insert_hints := hints\<rparr>
             in Some (Ok (res, if res then CountEntry s vtype key m else m))))"

text \<open>
  \<open>MemTable::Add\<close>: the entry is one byte longer than what was asked for, so it must fit into what
  the allocator rounded the request up to.
\<close>

definition MemAdd ::
    "malloc \<Rightarrow> openssl \<Rightarrow> bytes \<Rightarrow> (bytes \<Rightarrow> bytes \<Rightarrow> int) \<Rightarrow> MemTableOptions \<Rightarrow> AddEnv \<Rightarrow>
     SequenceNumber \<Rightarrow> ValueType \<Rightarrow> bytes \<Rightarrow> bytes \<Rightarrow> MemTable \<Rightarrow> (bool \<times> MemTable) run" where
  "MemAdd malloc ssl memtable_key ucmp opts env s vtype key value m =
     rbind (Some (ConcurrentAllocateAligned (UntrustedFallback malloc) (word_of_nat (length value))
              (ae_direct env) (ae_core env) (mt_u_arena m))) (\<lambda>(p, u_arena).
     rbind (Some (StoreValue ssl memtable_key value p (mt_mem m))) (\<lambda>(tags, mem).
       let m = m\<lparr>mt_u_arena := u_arena, mt_mem := mem\<rparr>;
           entry = EncodeEntry key s vtype (word_of_nat (length value)) tags (word_of_nat p)
       in if entry_room key < length entry then Some Undef
          else AddEntry ucmp opts env s vtype key entry m))"

section \<open>Look-up\<close>

text \<open>
  The operands of a merge, newest first: \<open>None\<close> is a slice of memory that is gone, and reading it
  is undefined.
\<close>

record Saver =
  sv_status :: status
  sv_found_final_value :: bool
  sv_merge_in_progress :: bool
  sv_value :: "bytes option"
  sv_seq :: SequenceNumber
  sv_operands :: "bytes option list"
  sv_is_blob_index :: "bool option"
  sv_tag_printed :: bool

definition PushOperand :: "bytes \<Rightarrow> Saver \<Rightarrow> Saver" where
  "PushOperand v sv = sv\<lparr>sv_operands := sv_operands sv @ [Some v]\<rparr>"

text \<open>\<open>TimedFullMerge\<close> into the caller's string, with the operands oldest first.\<close>

definition TimedFullMerge ::
    "MergeOperator option \<Rightarrow> bytes \<Rightarrow> bytes option \<Rightarrow> Saver \<Rightarrow> Saver outcome" where
  "TimedFullMerge merge_operator key existing sv =
     (if sv_value sv = None then Undef
      else if sv_operands sv = [] then
        (case existing of None \<Rightarrow> Undef
         | Some v \<Rightarrow> Ok (sv\<lparr>sv_value := Some v, sv_status := StatusOK\<rparr>))
      else
        (case merge_operator of None \<Rightarrow> Undef
         | Some mg \<Rightarrow>
           if None \<in> set (sv_operands sv) then Undef
           else
             (let (res, success) = mg_FullMergeV2 mg key existing (rev (map the (sv_operands sv)))
              in Ok (sv\<lparr>sv_value := Some res,
                        sv_status := (if success then StatusOK else Corruption)\<rparr>))))"

text \<open>The arguments that all cases of \<open>SaveValue\<close> share.\<close>

record SaveEnv =
  se_opts :: MemTableOptions
  se_ssl :: openssl
  se_memtable_key :: bytes
  se_ucmp :: "bytes \<Rightarrow> bytes \<Rightarrow> int"
  se_mem :: "nat \<Rightarrow> byte"
  se_key :: LookupKey
  se_max_covering_tombstone_seq :: SequenceNumber
  se_do_merge :: bool
  se_callback :: "(SequenceNumber \<Rightarrow> bool) option"

definition SaveFound :: "SaveEnv \<Rightarrow> ValueType \<Rightarrow> bytes \<Rightarrow> Saver \<Rightarrow> (bool \<times> Saver) outcome" where
  "SaveFound e vtype rest sv =
     (let blob_status =
            (if vtype = kTypeBlobIndex \<and> (sv_is_blob_index sv = None \<or> sv_merge_in_progress sv)
             then NotSupported else sv_status sv)
      in if vtype = kTypeBlobIndex \<and> blob_status \<noteq> StatusOK then
           Ok (False, sv\<lparr>sv_status := blob_status, sv_found_final_value := True\<rparr>)
         else
           obind (of_opt (GetVarint32Ptr rest)) (\<lambda>(len, data).
             let v = take (unat len) data;
                 sv = sv\<lparr>sv_status := StatusOK\<rparr>;
                 mop = mo_merge_operator (se_opts e)
             in obind
                  (if sv_merge_in_progress sv then
                     (if se_do_merge e then
                        (if sv_value sv \<noteq> None
                         then TimedFullMerge mop (LookupUserKey (se_key e)) (Some v) sv
                         else Ok sv)
                      else Ok (PushOperand v sv))
                   else if \<not> se_do_merge e then Ok (PushOperand v sv)
                   else if sv_value sv \<noteq> None then
                     obind (LoadValue (se_ssl e) (se_memtable_key e) (se_mem e) data)
                       (\<lambda>(plain, printed).
                         Ok (sv\<lparr>sv_value := Some plain,
                               sv_tag_printed := (sv_tag_printed sv \<or> printed)\<rparr>))
                   else Ok sv)
                  (\<lambda>sv. Ok (False, sv\<lparr>sv_found_final_value := True,
                        sv_is_blob_index :=
                          map_option (\<lambda>_. vtype = kTypeBlobIndex) (sv_is_blob_index sv)\<rparr>))))"

definition SaveDeletion :: "SaveEnv \<Rightarrow> Saver \<Rightarrow> (bool \<times> Saver) outcome" where
  "SaveDeletion e sv =
     obind
       (if sv_merge_in_progress sv then
          (if sv_value sv \<noteq> None
           then TimedFullMerge (mo_merge_operator (se_opts e)) (LookupUserKey (se_key e)) None sv
           else Ok sv)
        else Ok (sv\<lparr>sv_status := NotFound\<rparr>))
       (\<lambda>sv. Ok (False, sv\<lparr>sv_found_final_value := True\<rparr>))"

text \<open>
  A merge operand is decrypted into a local string; unless the table allows in-place updates, the
  context keeps a reference to it, which ends with the call.
\<close>

definition SaveMerge :: "SaveEnv \<Rightarrow> bytes \<Rightarrow> Saver \<Rightarrow> (bool \<times> Saver) outcome" where
  "SaveMerge e rest sv =
     (case mo_merge_operator (se_opts e) of
        None \<Rightarrow> Ok (False, sv\<lparr>sv_status := InvalidArgument, sv_found_final_value := True\<rparr>)
      | Some mg \<Rightarrow>
          obind (of_opt (GetVarint32Ptr rest)) (\<lambda>(len, data).
          obind (LoadValue (se_ssl e) (se_memtable_key e) (se_mem e) data) (\<lambda>(v, printed).
            let sv = PushOperand v (sv\<lparr>sv_merge_in_progress := True,
                       sv_tag_printed := (sv_tag_printed sv \<or> printed)\<rparr>)
            in if se_do_merge e \<and> mg_ShouldMerge mg (sv_operands sv) then
                 obind (TimedFullMerge (Some mg) (LookupUserKey (se_key e)) None sv) (\<lambda>sv.
                   Ok (False, sv\<lparr>sv_found_final_value := True\<rparr>))
               else
                 Ok (True, if mo_inplace_update_support (se_opts e) then sv
                           else sv\<lparr>sv_operands := butlast (sv_operands sv) @ [None]\<rparr>))))"

definition SaveValue :: "SaveEnv \<Rightarrow> bytes \<Rightarrow> Saver \<Rightarrow> (bool \<times> Saver) outcome" where
  "SaveValue e entry sv =
     obind (of_opt (GetVarint32Ptr entry)) (\<lambda>(key_length, key_ptr).
       let n = unat key_length in
       if n < 8 \<or> length key_ptr < n then Undef
       else if se_ucmp e (take (n - 8) key_ptr) (LookupUserKey (se_key e)) \<noteq> 0 then Ok (False, sv)
       else
         obind (of_opt (DecodeFixed64 (drop (n - 8) key_ptr))) (\<lambda>tag.
           let (seq, vtype) = UnPackSequenceAndType tag in
           if (case se_callback e of None \<Rightarrow> False | Some visible \<Rightarrow> \<not> visible seq) then Ok (True, sv)
           else
             (let sv = sv\<lparr>sv_seq := seq\<rparr>;
                  vtype = (if (vtype = kTypeValue \<or> vtype = kTypeMerge \<or> vtype = kTypeBlobIndex) \<and>
                             seq < se_max_covering_tombstone_seq e
                          then kTypeRangeDeletion else vtype);
                  rest = drop n key_ptr
              in if vtype = kTypeBlobIndex \<or> vtype = kTypeValue then SaveFound e vtype rest sv
                 else if vtype = kTypeDeletion \<or> vtype = kTypeDeletionWithTimestamp \<or>
                         vtype = kTypeSingleDeletion \<or> vtype = kTypeRangeDeletion
                 then SaveDeletion e sv
                 else if vtype = kTypeMerge then SaveMerge e rest sv
                 else Ok (False, sv\<lparr>sv_status := Corruption\<rparr>))))"

text \<open>The iteration of \<open>SkipListRep::Get\<close> over a list, with the callback as an argument.\<close>

partial_function (option) RepGetLoop ::
    "InlineSkipList \<Rightarrow> (bytes \<Rightarrow> Saver \<Rightarrow> (bool \<times> Saver) outcome) \<Rightarrow> nat option \<Rightarrow> Saver \<Rightarrow> Saver run" where
  "RepGetLoop s callback node sv =
     (case node of None \<Rightarrow> Some (Ok sv)
      | Some x \<Rightarrow>
        (case obind (NodeKey s x) (\<lambda>entry. callback entry sv) of
           Undef \<Rightarrow> Some Undef | Exit \<Rightarrow> Some Exit
         | Ok (go, sv) \<Rightarrow>
           (if \<not> go then Some (Ok sv)
            else (case IterNext s node of
                    Undef \<Rightarrow> Some Undef | Exit \<Rightarrow> Some Exit
                  | Ok node \<Rightarrow> RepGetLoop s callback node sv))))"

definition RepGet ::
    "(bytes \<Rightarrow> bytes \<Rightarrow> int) \<Rightarrow> InlineSkipList \<Rightarrow> LookupKey \<Rightarrow>
     (bytes \<Rightarrow> Saver \<Rightarrow> (bool \<times> Saver) outcome) \<Rightarrow> Saver \<Rightarrow> Saver run" where
  "RepGet ucmp s k callback sv =
     rbind (IterSeek (KeyComparator ucmp) s (LookupMemtableKey k)) (\<lambda>node.
       RepGetLoop s callback node sv)"

definition GetFromTable :: "SaveEnv \<Rightarrow> MemTable \<Rightarrow> Saver \<Rightarrow> Saver run" where
  "GetFromTable e m sv =
     RepGet (se_ucmp e) (mt_table m) (se_key e) (SaveValue e) (sv\<lparr>sv_seq := kMaxSequenceNumber\<rparr>)"

text \<open>
  \<open>MemTable::Get\<close>: \<open>tombstone\<close> is the highest sequence number of a range tombstone of this table
  that covers the key, asked for unless range deletions are ignored or there are none.
\<close>

definition MemGet ::
    "SaveEnv \<Rightarrow> MemTable \<Rightarrow> bool \<Rightarrow> SequenceNumber \<Rightarrow> Saver \<Rightarrow> (bool \<times> SequenceNumber \<times> Saver) run" where
  "MemGet e m ignore_range_deletions tombstone sv =
     (if MemIsEmpty m then Some (Ok (False, se_max_covering_tombstone_seq e, sv))
      else
        (let max_seq = (if ignore_range_deletions \<or> mt_is_range_del_table_empty m
                        then se_max_covering_tombstone_seq e
                        else max (se_max_covering_tombstone_seq e) tombstone);
             e = e\<lparr>se_max_covering_tombstone_seq := max_seq, se_mem := mt_mem m\<rparr>;
             sv = sv\<lparr>sv_found_final_value := False,
                     sv_merge_in_progress := (sv_status sv = MergeInProgress)\<rparr>
         in rbind (GetFromTable e m sv) (\<lambda>sv.
              let sv = (if \<not> sv_found_final_value sv \<and> sv_merge_in_progress sv
                        then sv\<lparr>sv_status := MergeInProgress\<rparr> else sv)
              in Some (Ok (sv_found_final_value sv, max_seq, sv)))))"


section \<open>The order of the entries\<close>

text \<open>What an entry stands for.\<close>

record mem_entry =
  me_key :: bytes
  me_seq :: SequenceNumber
  me_type :: ValueType
  me_value :: bytes

definition entry_cmp ::
    "(bytes \<Rightarrow> bytes \<Rightarrow> int) \<Rightarrow> bytes \<Rightarrow> SequenceNumber \<Rightarrow> bytes \<Rightarrow> SequenceNumber \<Rightarrow> int" where
  "entry_cmp ucmp k s k' s' =
     (let r = ucmp k k' in if r = 0 then (if s > s' then -1 else if s < s' then 1 else r) else r)"

definition key_fits :: "bytes \<Rightarrow> bool" where
  "key_fits key \<longleftrightarrow> length key < 2 ^ 31"

lemma unat_key_size:
  assumes "key_fits key"
  shows "unat (word_of_nat (length key) :: u32) = length key"
    and "unat (word_of_nat (length key) + 8 :: u32) = length key + 8"
proof -
  have l: "length key + 8 < 2 ^ 32" using assms by (simp add: key_fits_def)
  show "unat (word_of_nat (length key) :: u32) = length key"
    unfolding unsigned_of_nat using l by (simp add: take_bit_nat_eq_self)
  have e: "(word_of_nat (length key) + 8 :: u32) = word_of_nat (length key + 8)" by simp
  show "unat (word_of_nat (length key) + 8 :: u32) = length key + 8"
    unfolding e unsigned_of_nat using l by (simp add: take_bit_nat_eq_self)
qed

lemma EncodeEntry_eq:
  assumes "key_fits key"
  shows "EncodeEntry key s t n tags p =
    EncodeVarint32 (word_of_nat (length key) + 8) @
      (key @ EncodeFixed64 (PackSequenceAndType s t)) @
      (EncodeVarint32 28 @ EncodeFixed32 n @ take 16 tags @ EncodeFixed64 p)"
  by (simp add: EncodeEntry_def Let_def unat_key_size(1) [OF assms])

lemma SliceAt_key:
  assumes "key_fits key"
  shows "SliceAt (EncodeVarint32 (word_of_nat (length key) + 8) @
      (key @ EncodeFixed64 f) @ r) = key @ EncodeFixed64 f"
    and "BehindSlice (EncodeVarint32 (word_of_nat (length key) + 8) @
      (key @ EncodeFixed64 f) @ r) = r"
  by (simp_all add: SliceAt_def BehindSlice_def unat_key_size(2) [OF assms])

lemma SliceAt_lookup:
  assumes "key_fits key"
  shows "SliceAt (LookupMemtableKey (MakeLookupKey key s None)) =
      key @ EncodeFixed64 (PackSequenceAndType s kValueTypeForSeek)"
    and "LookupUserKey (MakeLookupKey key s None) = key"
proof -
  have "word_of_nat (length key + 8) = (word_of_nat (length key) + 8 :: u32)" by simp
  then show "SliceAt (LookupMemtableKey (MakeLookupKey key s None)) =
      key @ EncodeFixed64 (PackSequenceAndType s kValueTypeForSeek)"
    using SliceAt_key(1) [OF assms, where r = "[]"]
    by (simp add: LookupMemtableKey_def MakeLookupKey_def Let_def)
qed (simp add: LookupKey_parts)

lemma CompareKeySeq_footer:
  assumes "s \<le> kMaxSequenceNumber" and "s' \<le> kMaxSequenceNumber"
  shows "CompareKeySeq ucmp (k @ EncodeFixed64 (PackSequenceAndType s t))
      (k' @ EncodeFixed64 (PackSequenceAndType s' t')) = entry_cmp ucmp k s k' s'"
  using assms by (simp add: CompareKeySeq_def entry_cmp_def Pack_drop_bit Let_def)

lemma KeyComparator_entries:
  assumes "key_fits k" and "key_fits k'" and "s \<le> kMaxSequenceNumber" and "s' \<le> kMaxSequenceNumber"
  shows "KeyComparator ucmp (EncodeEntry k s t n tags p) (EncodeEntry k' s' t' n' tags' p') =
      entry_cmp ucmp k s k' s'"
    and "KeyComparator ucmp (EncodeEntry k s t n tags p) (LookupMemtableKey (MakeLookupKey k' s' None)) =
      entry_cmp ucmp k s k' s'"
  using assms
  by (simp_all add: KeyComparator_def EncodeEntry_eq SliceAt_key SliceAt_lookup CompareKeySeq_footer
      del: append_assoc)

lemma key_comparator:
  assumes "comparator ucmp"
  shows "list_order (KeyComparator ucmp)"
proof -
  have "KeyComparator ucmp = (\<lambda>x y. let r = ucmp (ExtractUserKey (SliceAt x)) (ExtractUserKey (SliceAt y)) in
      if r = 0 then
        (if drop_bit 8 (ExtractInternalKeyFooter (SliceAt x)) > drop_bit 8 (ExtractInternalKeyFooter (SliceAt y)) then -1
         else if drop_bit 8 (ExtractInternalKeyFooter (SliceAt x)) < drop_bit 8 (ExtractInternalKeyFooter (SliceAt y)) then 1
         else r)
      else r)"
    by (intro ext) (simp add: KeyComparator_def CompareKeySeq_def Let_def)
  then have "comparator (KeyComparator ucmp)"
    using comparator.lex_descending [OF assms, of "\<lambda>x. ExtractUserKey (SliceAt x)"
      "\<lambda>x. drop_bit 8 (ExtractInternalKeyFooter (SliceAt x))"] by simp
  then show ?thesis by (simp add: list_order_def)
qed

interpretation mem_bytewise: list_order "KeyComparator BytewiseCompare"
  by (rule key_comparator) (rule bytewise.comparator_axioms)


section \<open>Values outside of the enclave\<close>

lemma length_ReadMem [simp]: "length (ReadMem mem p n) = n"
  by (simp add: ReadMem_def)

lemma ReadMem_empty [simp]: "ReadMem mem p 0 = []"
  by (simp add: ReadMem_def)

lemma ReadMem_WriteMem:
  shows "n = length bs \<Longrightarrow> ReadMem (WriteMem mem p bs) p n = bs"
    and "disj (q, n) (p, length bs) \<Longrightarrow> ReadMem (WriteMem mem p bs) q n = ReadMem mem q n"
proof -
  show "n = length bs \<Longrightarrow> ReadMem (WriteMem mem p bs) p n = bs"
    by (intro nth_equalityI) (simp_all add: ReadMem_def WriteMem_def)
  show "disj (q, n) (p, length bs) \<Longrightarrow> ReadMem (WriteMem mem p bs) q n = ReadMem mem q n"
    by (auto simp: ReadMem_def WriteMem_def disj_def)
qed

lemma WriteMem_twice: "length bs = length cs \<Longrightarrow> WriteMem (WriteMem mem p bs) p cs = WriteMem mem p cs"
  by (auto simp: WriteMem_def fun_eq_iff)

lemma StoreValue_ok:
  assumes "openssl_ok ssl" and "length memtable_key = 32"
  shows "StoreValue ssl memtable_key value p mem =
    Ok (evp_tag ssl memtable_key gcm_iv gcm_aad (evp_encrypt ssl memtable_key gcm_iv gcm_aad value),
        WriteMem mem p (evp_encrypt ssl memtable_key gcm_iv gcm_aad value))"
  using assms by (simp add: StoreValue_def Encryption_def Let_def ReadMem_WriteMem(1) WriteMem_twice)

lemma ReadDescriptor_ok:
  assumes "length tags = 16"
  shows "ReadDescriptor (EncodeFixed32 n @ tags @ EncodeFixed64 p) = Ok (n, tags, p)"
proof -
  have "drop 20 (EncodeFixed32 n @ tags @ EncodeFixed64 p) = EncodeFixed64 p"
    using assms by (simp add: drop_append)
  moreover have "take 16 (drop 4 (EncodeFixed32 n @ tags @ EncodeFixed64 p)) = tags"
    using assms by simp
  moreover have "DecodeFixed64 (EncodeFixed64 p) = Some p"
    using DecodeFixed64_Encode [of p "[]"] by simp
  ultimately show ?thesis by (simp add: ReadDescriptor_def)
qed

section \<open>The size of an entry\<close>

lemma VarintLength_u32: "VarintLength (ucast (v :: u32)) = length (EncodeVarint32 v)"
  by (simp add: VarintLength_eq EncodeVarint32_eq_loop)

lemma length_EncodeVarint32: "length (EncodeVarint32 v) \<le> 5"
proof -
  have u: "unat (ucast v :: u64) = unat v" by (rule unat_ucast_up) simp
  have "unat v < 2 ^ 32" using unat_less_2p [of v] by simp
  then have "unat (ucast v :: u64) < 2 ^ (7 * 5)" unfolding u by simp
  then show ?thesis using VarintLength_bound [of "ucast v" 5] by (simp add: VarintLength_u32)
qed

text \<open>The entry has one byte more than was asked for.\<close>

definition prefix_len :: "bytes \<Rightarrow> nat" where
  "prefix_len key = length (EncodeVarint32 (word_of_nat (length key) + 8))"

lemma entry_sizes:
  assumes "key_fits key" and "length tags = 16"
  shows "unat (encoded_len key) = prefix_len key + length key + 36"
    and "length (EncodeEntry key s t n tags p) = unat (encoded_len key) + 1"
proof -
  let ?v = "word_of_nat (length key) + 8 :: u32"
  have b: "prefix_len key + length key + 36 < 2 ^ 32"
    using assms(1) length_EncodeVarint32 [of ?v] by (simp add: key_fits_def prefix_len_def)
  have "encoded_len key = word_of_nat (prefix_len key + length key + 36)"
    by (simp add: encoded_len_def Let_def VarintLength_u32 prefix_len_def)
  then show e: "unat (encoded_len key) = prefix_len key + length key + 36"
    using b by (simp only: unsigned_of_nat) (simp add: take_bit_nat_eq_self)
  have "length (EncodeVarint32 28) = 1" by (simp add: EncodeVarint32_def)
  then show "length (EncodeEntry key s t n tags p) = unat (encoded_len key) + 1"
    using assms e by (simp add: EncodeEntry_eq prefix_len_def)
qed

text \<open>So it only fits into what was reserved if the request was not a multiple of eight bytes.\<close>

lemma entry_room_iff:
  assumes "key_fits key" and "length tags = 16"
  shows "entry_room key < length (EncodeEntry key s t n tags p) \<longleftrightarrow>
    (prefix_len key + length key + 36) mod 8 = 0"
proof -
  let ?n = "prefix_len key + length key + 36"
  note e = entry_sizes [OF assms]
  have b: "?n \<le> 2 ^ 32" using unat_less_2p [of "encoded_len key"] e(1) by simp
  have "unat (ucast (encoded_len key) :: u64) = ?n"
    using e(1) unat_ucast_up [of "encoded_len key", where 'b = 64] by simp
  then have "entry_room key = (?n + 7) div 8 * 8"
    using RoundUp_eq [of "ucast (encoded_len key)"] b by (simp add: entry_room_def)
  moreover have "(?n + 7) div 8 * 8 < ?n + 1 \<longleftrightarrow> ?n mod 8 = 0" by presburger
  ultimately show ?thesis using e by simp
qed

lemma prefix_len_short: "length key < 120 \<Longrightarrow> prefix_len key = 1"
proof -
  assume l: "length key < 120"
  then have "unat (word_of_nat (length key) + 8 :: u32) = length key + 8"
    by (intro unat_key_size) (simp add: key_fits_def)
  then have "(word_of_nat (length key) + 8 :: u32) < 128"
    using l by (simp add: word_less_nat_alt)
  then show ?thesis by (simp add: prefix_len_def EncodeVarint32_def Let_def)
qed

end
