(* ===== verification/Memtable_Spec.thy ===== *)
theory Memtable_Spec
  imports Memtable
begin

text \<open>
  What the MemTable promises: it is a list of entries, ordered by user key and then from the newest
  to the oldest; an insertion puts an entry at its place or refuses one with a user key and a
  sequence number that are there; a look-up answers with the newest entry that the snapshot sees.
  The values are encrypted in memory that an insertion shares with no earlier value.
\<close>

section \<open>The specification\<close>

definition entry_less ::
    "(bytes \<Rightarrow> bytes \<Rightarrow> int) \<Rightarrow> mem_entry \<Rightarrow> bytes \<Rightarrow> SequenceNumber \<Rightarrow> bool" where
  "entry_less ucmp e key s \<longleftrightarrow> entry_cmp ucmp (me_key e) (me_seq e) key s < 0"

definition has_entry ::
    "(bytes \<Rightarrow> bytes \<Rightarrow> int) \<Rightarrow> bytes \<Rightarrow> SequenceNumber \<Rightarrow> mem_entry list \<Rightarrow> bool" where
  "has_entry ucmp key s es \<longleftrightarrow> (\<exists>e\<in>set es. entry_cmp ucmp (me_key e) (me_seq e) key s = 0)"

definition insert_entry ::
    "(bytes \<Rightarrow> bytes \<Rightarrow> int) \<Rightarrow> mem_entry \<Rightarrow> mem_entry list \<Rightarrow> mem_entry list" where
  "insert_entry ucmp e es =
     (if has_entry ucmp (me_key e) (me_seq e) es then es
      else takeWhile (\<lambda>e'. entry_less ucmp e' (me_key e) (me_seq e)) es @ e #
           dropWhile (\<lambda>e'. entry_less ucmp e' (me_key e) (me_seq e)) es)"

text \<open>The newest entry of a key that a snapshot sees.\<close>

definition visible_entry ::
    "(bytes \<Rightarrow> bytes \<Rightarrow> int) \<Rightarrow> bytes \<Rightarrow> SequenceNumber \<Rightarrow> mem_entry list \<Rightarrow> mem_entry option" where
  "visible_entry ucmp key s es = find (\<lambda>e. ucmp (me_key e) key = 0 \<and> me_seq e \<le> s) es"

text \<open>A value and an entry as \<open>Add\<close> stores them.\<close>

abbreviation cipher_of :: "openssl \<Rightarrow> bytes \<Rightarrow> bytes \<Rightarrow> bytes" where
  "cipher_of ssl mk v \<equiv> evp_encrypt ssl mk gcm_iv gcm_aad v"

abbreviation entry_of :: "openssl \<Rightarrow> bytes \<Rightarrow> mem_entry \<Rightarrow> nat \<Rightarrow> bytes" where
  "entry_of ssl mk e p \<equiv>
     EncodeEntry (me_key e) (me_seq e) (me_type e) (word_of_nat (length (me_value e)))
       (evp_tag ssl mk gcm_iv gcm_aad (cipher_of ssl mk (me_value e))) (word_of_nat p)"

text \<open>
  An entry of the specification, as the list and the memory hold it: \<open>given\<close> are the regions that
  the arena has handed out.
\<close>

definition stored ::
    "openssl \<Rightarrow> bytes \<Rightarrow> (nat \<Rightarrow> byte) \<Rightarrow> region list \<Rightarrow> bytes \<Rightarrow> mem_entry \<Rightarrow> bool" where
  "stored ssl mk mem given k e \<longleftrightarrow>
     key_fits (me_key e) \<and> me_seq e \<le> kMaxSequenceNumber \<and> length (me_value e) \<le> kMinBlockSize \<and>
     (\<exists>p. k = entry_of ssl mk e p \<and>
          (me_value e \<noteq> [] \<longrightarrow> p < 2 ^ 64 \<and> (\<exists>r\<in>set given. inner (p, length (me_value e)) r) \<and>
             ReadMem mem p (length (me_value e)) = cipher_of ssl mk (me_value e)))"

definition table_holds ::
    "(bytes \<Rightarrow> bytes \<Rightarrow> int) \<Rightarrow> openssl \<Rightarrow> bytes \<Rightarrow> (nat \<Rightarrow> byte) \<Rightarrow> region list \<Rightarrow> InlineSkipList \<Rightarrow>
     mem_entry list \<Rightarrow> bool" where
  "table_holds ucmp ssl mk mem given s es \<longleftrightarrow>
     (\<exists>ks. list_state (KeyComparator ucmp) s ks \<and> list_all2 (stored ssl mk mem given) ks es)"

definition mem_inv ::
    "(bytes \<Rightarrow> bytes \<Rightarrow> int) \<Rightarrow> openssl \<Rightarrow> bytes \<Rightarrow> MemTable \<Rightarrow> mem_entry list \<Rightarrow> mem_entry list \<Rightarrow>
     bool" where
  "mem_inv ucmp ssl mk m es rs \<longleftrightarrow>
     (\<exists>given. u_arena_ok (mt_u_arena m) given \<and>
        table_holds ucmp ssl mk (mt_mem m) given (mt_table m) es \<and>
        table_holds ucmp ssl mk (mt_mem m) given (mt_range_del_table m) rs) \<and>
     (mt_is_range_del_table_empty m \<longleftrightarrow> rs = []) \<and>
     mt_num_entries m = word_of_nat (length es + length rs) \<and>
     (mt_first_seqno m = 0 \<longleftrightarrow> es = [] \<and> rs = [])"

section \<open>Keys and entries\<close>

lemma list_all2_takeWhile:
  assumes "list_all2 R ks es" and "\<And>k e. R k e \<Longrightarrow> P k = Q e"
  shows "list_all2 R (takeWhile P ks) (takeWhile Q es)"
    and "list_all2 R (dropWhile P ks) (dropWhile Q es)"
  using assms by (induction rule: list_all2_induct) auto

lemma list_all2_Bex:
  assumes "list_all2 R ks es" and "\<And>k e. R k e \<Longrightarrow> P k = Q e"
  shows "(\<exists>k\<in>set ks. P k) = (\<exists>e\<in>set es. Q e)"
  using assms by (induction rule: list_all2_induct) auto

lemma list_all2_in:
  assumes "list_all2 R ks es" and "e \<in> set es"
  shows "\<exists>k\<in>set ks. R k e"
  using assms by (induction rule: list_all2_induct) auto

lemma stored_cmp:
  assumes "stored ssl mk mem given k e"
  shows "key_fits key \<Longrightarrow> s \<le> kMaxSequenceNumber \<Longrightarrow>
      KeyComparator ucmp k (EncodeEntry key s t n tags p) = entry_cmp ucmp (me_key e) (me_seq e) key s"
    and "key_fits key \<Longrightarrow> s \<le> kMaxSequenceNumber \<Longrightarrow>
      KeyComparator ucmp k (LookupMemtableKey (MakeLookupKey key s None)) =
        entry_cmp ucmp (me_key e) (me_seq e) key s"
  using assms by (auto simp: stored_def KeyComparator_entries)

lemma insert_stored:
  assumes all: "list_all2 (stored ssl mk mem given) ks es"
    and new: "stored ssl mk mem given k e"
  shows "holds_key (KeyComparator ucmp) k ks = has_entry ucmp (me_key e) (me_seq e) es"
    and "list_all2 (stored ssl mk mem given) (insert_key (KeyComparator ucmp) k ks) (insert_entry ucmp e es)"
proof -
  have c: "KeyComparator ucmp k' k = entry_cmp ucmp (me_key e') (me_seq e') (me_key e) (me_seq e)"
    if "stored ssl mk mem given k' e'" for k' e'
    using new stored_cmp(1) [OF that, of "me_key e" "me_seq e"] by (auto simp: stored_def)
  show h: "holds_key (KeyComparator ucmp) k ks = has_entry ucmp (me_key e) (me_seq e) es"
    unfolding holds_key_def has_entry_def by (rule list_all2_Bex [OF all]) (simp add: c)
  have q: "(KeyComparator ucmp k' k < 0) = entry_less ucmp e' (me_key e) (me_seq e)"
    if "stored ssl mk mem given k' e'" for k' e'
    using c [OF that] by (simp add: entry_less_def)
  note tw = list_all2_takeWhile [OF all q]
  show "list_all2 (stored ssl mk mem given) (insert_key (KeyComparator ucmp) k ks) (insert_entry ucmp e es)"
    using all new tw
    by (simp add: insert_key_def insert_entry_def h keys_before_def keys_from_def list_all2_appendI)
qed

text \<open>The keys from a look-up key on are those of the entries from there on.\<close>

lemma entries_from:
  assumes all: "list_all2 (stored ssl mk mem given) ks es" and key: "key_fits key" "s \<le> kMaxSequenceNumber"
  shows "list_all2 (stored ssl mk mem given)
    (keys_from (KeyComparator ucmp) (LookupMemtableKey (MakeLookupKey key s None)) ks)
    (dropWhile (\<lambda>e. entry_less ucmp e key s) es)"
  unfolding keys_from_def
  by (rule list_all2_takeWhile(2) [OF all]) (use stored_cmp(2) [OF _ key] in \<open>simp add: entry_less_def\<close>)

text \<open>A write into a region of its own leaves the stored values alone.\<close>

lemma stored_write:
  assumes s: "stored ssl mk mem given k e" and n: "length bs \<le> n"
    and d: "\<forall>r\<in>set given. disj (p, n) r"
  shows "stored ssl mk (WriteMem mem p bs) ((p, n) # given) k e"
proof -
  have w: "inner (p, length bs) (p, n)" using n by (simp add: inner_def)
  have "ReadMem (WriteMem mem p bs) q (length v) = ReadMem mem q (length v)"
    if "r \<in> set given" "inner (q, length v) r" for q r and v :: bytes
    using that d disj_inner [OF _ w that(2)] disj_sym ReadMem_WriteMem(2) by blast
  then show ?thesis using s by (fastforce simp: stored_def)
qed

lemma table_holds_write:
  assumes "table_holds ucmp ssl mk mem given s es" and "length bs \<le> n"
    and "\<forall>r\<in>set given. disj (p, n) r"
  shows "table_holds ucmp ssl mk (WriteMem mem p bs) ((p, n) # given) s es"
  using assms(1) stored_write [OF _ assms(2,3)]
  by (auto simp: table_holds_def elim!: list_all2_mono)

lemma RoundUp_length:
  assumes "length bs \<le> kMinBlockSize"
  shows "length bs \<le> unat (RoundUp (word_of_nat (length bs)))"
    and "unat (RoundUp (word_of_nat (length bs))) \<le> kMinBlockSize"
proof -
  have l: "length bs \<le> 4096" using assms by (simp add: kMinBlockSize_def)
  then have u: "unat (word_of_nat (length bs) :: u64) = length bs"
    unfolding unsigned_of_nat by (simp add: take_bit_nat_eq_self)
  have r: "unat (RoundUp (word_of_nat (length bs))) = (length bs + 7) div 8 * 8"
    using RoundUp_eq [of "word_of_nat (length bs)"] l u by simp
  show "length bs \<le> unat (RoundUp (word_of_nat (length bs)))" unfolding r by presburger
  have "(length bs + 7) div 8 \<le> (4096 + 7) div 8" using l by (intro div_le_mono) simp
  then show "unat (RoundUp (word_of_nat (length bs))) \<le> kMinBlockSize"
    unfolding r by (simp add: kMinBlockSize_def)
qed

section \<open>Insertion\<close>

text \<open>The entry that \<open>Add\<close> inserts fits into its buffer.\<close>

definition entry_fits :: "bytes \<Rightarrow> bool" where
  "entry_fits key \<longleftrightarrow> (prefix_len key + length key + 36) mod 8 \<noteq> 0"

lemma InsertEntry_ok:
  assumes c: "comparator ucmp" and t: "list_state (KeyComparator ucmp) table ks"
    and h: "mo_hint_extractor opts = None"
  shows "\<exists>table'. InsertEntry ucmp opts env rd key entry table hints =
      Some (Ok (\<not> holds_key (KeyComparator ucmp) entry ks, table', hints)) \<and>
    list_state (KeyComparator ucmp) table' (insert_key (KeyComparator ucmp) entry ks)"
proof -
  obtain x table1 where a: "AllocateKey entry (ae_draws env) table = (x, table1)"
    by (cases "AllocateKey entry (ae_draws env) table")
  from list_order.insert_refines [OF key_comparator [OF c] t a]
  show ?thesis using a h by (auto simp: InsertEntry_def)
qed

lemma CountEntry_simps [simp]:
  "mt_table (CountEntry s t key m) = mt_table m"
  "mt_range_del_table (CountEntry s t key m) = mt_range_del_table m"
  "mt_u_arena (CountEntry s t key m) = mt_u_arena m" "mt_mem (CountEntry s t key m) = mt_mem m"
  "mt_insert_hints (CountEntry s t key m) = mt_insert_hints m"
  "mt_num_entries (CountEntry s t key m) = mt_num_entries m + 1"
  "mt_first_seqno (CountEntry s t key m) = (if mt_first_seqno m = 0 then s else mt_first_seqno m)"
  "mt_is_range_del_table_empty (CountEntry s t key m) =
     (t \<noteq> kTypeRangeDeletion \<and> mt_is_range_del_table_empty m)"
  by (auto simp: CountEntry_def Let_def)

lemma insert_entry_length:
  "length (insert_entry ucmp e es) =
     (if has_entry ucmp (me_key e) (me_seq e) es then length es else Suc (length es))"
proof -
  have "length (takeWhile P es) + length (dropWhile P es) = length es" for P
    by (metis length_append takeWhile_dropWhile_id)
  then show ?thesis by (simp add: insert_entry_def)
qed

lemma insert_entry_not_Nil:
  "insert_entry ucmp e es = [] \<longleftrightarrow> es = [] \<and> has_entry ucmp (me_key e) (me_seq e) es"
  by (auto simp: insert_entry_def has_entry_def)


text \<open>Memory for the value, and the value in it.\<close>

lemma MemAdd_stores:
  assumes ssl: "openssl_ok ssl" "length mk = 32" and m: "malloc_ok [] malloc"
    and ua: "u_arena_ok (mt_u_arena m) given"
    and core: "ae_core env < length (ca_shards (mt_u_arena m))" and b: "block_below malloc (mt_u_arena m)"
    and val: "length (me_value e) \<le> kMinBlockSize"
  shows "\<exists>p n ua'. MemAdd malloc ssl mk ucmp opts env (me_seq e) (me_type e) (me_key e) (me_value e) m =
      (if entry_room (me_key e) < length (entry_of ssl mk e p) then Some Undef
       else AddEntry ucmp opts env (me_seq e) (me_type e) (me_key e) (entry_of ssl mk e p)
         (m\<lparr>mt_u_arena := ua', mt_mem := WriteMem (mt_mem m) p (cipher_of ssl mk (me_value e))\<rparr>)) \<and>
    u_arena_ok ua' ((p, n) # given) \<and> arena_after malloc (mt_u_arena m) ua' \<and>
    length (me_value e) \<le> n \<and> (0 < n \<longrightarrow> p + n \<le> 2 ^ 64)"
proof -
  define n where "n = unat (RoundUp (word_of_nat (length (me_value e))))"
  note rn = RoundUp_length [OF val, folded n_def]
  obtain p ua' where A: "ConcurrentAllocateAligned (UntrustedFallback malloc)
        (word_of_nat (length (me_value e))) (ae_direct env) (ae_core env) (mt_u_arena m) = Ok (p, ua')"
    and ua': "u_arena_ok ua' ((p, n) # given)" "arena_after malloc (mt_u_arena m) ua'"
      "0 < n \<longrightarrow> p + n \<le> 2 ^ 64"
    using u_arena_allocate [OF m ua core b, of "word_of_nat (length (me_value e))"] rn(2)
    unfolding n_def by blast
  have "MemAdd malloc ssl mk ucmp opts env (me_seq e) (me_type e) (me_key e) (me_value e) m =
      (if entry_room (me_key e) < length (entry_of ssl mk e p) then Some Undef
       else AddEntry ucmp opts env (me_seq e) (me_type e) (me_key e) (entry_of ssl mk e p)
         (m\<lparr>mt_u_arena := ua', mt_mem := WriteMem (mt_mem m) p (cipher_of ssl mk (me_value e))\<rparr>))"
    using A by (simp add: MemAdd_def StoreValue_ok [OF ssl] Let_def)
  then show ?thesis using ua' rn(1) by blast
qed

text \<open>The new entry is stored, in the memory it was given.\<close>

lemma entry_stored:
  assumes ssl: "openssl_ok ssl" and e: "key_fits (me_key e)" "me_seq e \<le> kMaxSequenceNumber"
    "length (me_value e) \<le> kMinBlockSize" "length (me_value e) \<le> n" "0 < n \<longrightarrow> p + n \<le> 2 ^ 64"
  shows "stored ssl mk (WriteMem mem p (cipher_of ssl mk (me_value e))) ((p, n) # given) (entry_of ssl mk e p) e"
proof -
  have "p < 2 ^ 64 \<and> (\<exists>r\<in>set ((p, n) # given). inner (p, length (me_value e)) r)"
    if "me_value e \<noteq> []"
    using that e(4,5) by (cases "me_value e") (auto simp: inner_def)
  moreover have "ReadMem (WriteMem mem p (cipher_of ssl mk (me_value e))) p (length (me_value e)) =
      cipher_of ssl mk (me_value e)"
    using ReadMem_WriteMem(1) [of "length (me_value e)" "cipher_of ssl mk (me_value e)"] ssl by simp
  ultimately show ?thesis unfolding stored_def using e(1-3) by blast
qed

text \<open>What \<open>AddEntry\<close> does to a table that holds a list of entries.\<close>

lemma AddEntry_refines:
  fixes t :: ValueType
  defines "rd \<equiv> t = kTypeRangeDeletion"
  assumes c: "comparator ucmp" and h: "mo_hint_extractor opts = None"
    and held: "table_holds ucmp ssl mk (mt_mem m) given (mt_table m) es"
      "table_holds ucmp ssl mk (mt_mem m) given (mt_range_del_table m) rs"
    and new: "stored ssl mk (mt_mem m) given k e" and key: "me_key e = key" "me_seq e = s"
  shows "\<exists>m'. AddEntry ucmp opts env s t key k m = Some (Ok (\<not> has_entry ucmp key s (if rd then rs else es), m')) \<and>
    table_holds ucmp ssl mk (mt_mem m) given (mt_table m') (if rd then es else insert_entry ucmp e es) \<and>
    table_holds ucmp ssl mk (mt_mem m) given (mt_range_del_table m') (if rd then insert_entry ucmp e rs else rs) \<and>
    mt_u_arena m' = mt_u_arena m \<and> mt_mem m' = mt_mem m \<and>
    (let dup = has_entry ucmp key s (if rd then rs else es) in
      mt_num_entries m' = (if dup then mt_num_entries m else mt_num_entries m + 1) \<and>
      mt_first_seqno m' = (if \<not> dup \<and> mt_first_seqno m = 0 then s else mt_first_seqno m) \<and>
      mt_is_range_del_table_empty m' = ((dup \<or> \<not> rd) \<and> mt_is_range_del_table_empty m))"
proof -
  define tab where "tab = (if rd then mt_range_del_table m else mt_table m)"
  define old where "old = (if rd then rs else es)"
  have "table_holds ucmp ssl mk (mt_mem m) given tab old" using held by (simp add: tab_def old_def)
  then obtain ks where ks: "list_state (KeyComparator ucmp) tab ks"
    and all: "list_all2 (stored ssl mk (mt_mem m) given) ks old" by (auto simp: table_holds_def)
  obtain tab' where I: "InsertEntry ucmp opts env rd key k tab (mt_insert_hints m) =
      Some (Ok (\<not> holds_key (KeyComparator ucmp) k ks, tab', mt_insert_hints m))"
    and ks': "list_state (KeyComparator ucmp) tab' (insert_key (KeyComparator ucmp) k ks)"
    using InsertEntry_ok [OF c ks h] by blast
  note ins = insert_stored [OF all new, of ucmp]
  have T': "table_holds ucmp ssl mk (mt_mem m) given tab' (insert_entry ucmp e old)"
    using ks' ins(2) by (auto simp: table_holds_def)
  have dup: "holds_key (KeyComparator ucmp) k ks = has_entry ucmp key s old" using ins(1) key by simp
  show ?thesis
    using I T' dup held
    by (cases rd; cases "has_entry ucmp key s old")
      (simp_all add: AddEntry_def rd_def [symmetric] tab_def old_def Let_def)
qed

text \<open>
  \<open>Add\<close> refines the insertion into the list of entries: it always returns, refuses exactly the
  entries that are there, and the values stored before keep their memory.
\<close>

lemma MemAdd_refines:
  assumes c: "comparator ucmp" and ssl: "openssl_ok ssl" "length mk = 32" and m: "malloc_ok [] malloc"
    and inv: "mem_inv ucmp ssl mk m es rs" and h: "mo_hint_extractor opts = None"
    and core: "ae_core env < length (ca_shards (mt_u_arena m))" and b: "block_below malloc (mt_u_arena m)"
    and key: "key_fits key" "entry_fits key" and val: "length value \<le> kMinBlockSize"
    and s: "s \<le> kMaxSequenceNumber" "s \<noteq> 0"
    and e: "e = \<lparr>me_key = key, me_seq = s, me_type = t, me_value = value\<rparr>"
  shows "\<exists>m'. MemAdd malloc ssl mk ucmp opts env s t key value m =
      Some (Ok (\<not> has_entry ucmp key s (if t = kTypeRangeDeletion then rs else es), m')) \<and>
    mem_inv ucmp ssl mk m'
      (if t = kTypeRangeDeletion then es else insert_entry ucmp e es)
      (if t = kTypeRangeDeletion then insert_entry ucmp e rs else rs) \<and>
    arena_after malloc (mt_u_arena m) (mt_u_arena m')"
proof -
  obtain given where ua: "u_arena_ok (mt_u_arena m) given"
    and te: "table_holds ucmp ssl mk (mt_mem m) given (mt_table m) es"
    and tr: "table_holds ucmp ssl mk (mt_mem m) given (mt_range_del_table m) rs"
    and cnt: "mt_is_range_del_table_empty m \<longleftrightarrow> rs = []"
      "mt_num_entries m = word_of_nat (length es + length rs)"
      "mt_first_seqno m = 0 \<longleftrightarrow> es = [] \<and> rs = []"
    using inv by (auto simp: mem_inv_def)
  have sel: "me_key e = key" "me_seq e = s" "me_type e = t" "me_value e = value" by (simp_all add: e)
  have v: "length (me_value e) \<le> kMinBlockSize" using sel val by simp
  obtain p n ua' where A: "MemAdd malloc ssl mk ucmp opts env s t key value m =
      (if entry_room key < length (EncodeEntry key s t (word_of_nat (length value))
         (evp_tag ssl mk gcm_iv gcm_aad (cipher_of ssl mk value)) (word_of_nat p)) then Some Undef
       else AddEntry ucmp opts env s t key (entry_of ssl mk e p)
         (m\<lparr>mt_u_arena := ua', mt_mem := WriteMem (mt_mem m) p (cipher_of ssl mk value)\<rparr>))"
    and ua': "u_arena_ok ua' ((p, n) # given)" "arena_after malloc (mt_u_arena m) ua'"
    and pn: "length value \<le> n" "0 < n \<longrightarrow> p + n \<le> 2 ^ 64"
    using MemAdd_stores [OF ssl m ua core b v, of ucmp opts] unfolding sel by blast
  define m1 where "m1 = m\<lparr>mt_u_arena := ua', mt_mem := WriteMem (mt_mem m) p (cipher_of ssl mk value)\<rparr>"
  have room: "\<not> entry_room key < length (EncodeEntry key s t (word_of_nat (length value))
      (evp_tag ssl mk gcm_iv gcm_aad (cipher_of ssl mk value)) (word_of_nat p))"
    using entry_room_iff [OF key(1)] key(2) ssl by (simp add: entry_fits_def)
  have new: "stored ssl mk (mt_mem m1) ((p, n) # given) (entry_of ssl mk e p) e"
    using entry_stored [OF ssl(1), of e] key s val e pn by (simp add: m1_def)
  have "\<forall>r\<in>set given. disj (p, n) r" using ua' by (auto simp: u_arena_ok_def arena_inv_def apart_Cons)
  then have held: "table_holds ucmp ssl mk (mt_mem m1) ((p, n) # given) (mt_table m1) es"
    "table_holds ucmp ssl mk (mt_mem m1) ((p, n) # given) (mt_range_del_table m1) rs"
    using table_holds_write [OF te] table_holds_write [OF tr] ssl pn(1) by (simp_all add: m1_def)
  have a: "mt_u_arena m1 = ua'" "mt_num_entries m1 = mt_num_entries m" "mt_first_seqno m1 = mt_first_seqno m"
    "mt_is_range_del_table_empty m1 = mt_is_range_del_table_empty m" by (simp_all add: m1_def)
  define rd where "rd = (t = kTypeRangeDeletion)"
  define dup where "dup = has_entry ucmp key s (if rd then rs else es)"
  define es' where "es' = (if rd then es else insert_entry ucmp e es)"
  define rs' where "rs' = (if rd then insert_entry ucmp e rs else rs)"
  obtain m' where m': "AddEntry ucmp opts env s t key (entry_of ssl mk e p) m1 = Some (Ok (\<not> dup, m'))"
    "table_holds ucmp ssl mk (mt_mem m1) ((p, n) # given) (mt_table m') es'"
    "table_holds ucmp ssl mk (mt_mem m1) ((p, n) # given) (mt_range_del_table m') rs'"
    "mt_u_arena m' = ua'" "mt_mem m' = mt_mem m1"
    "mt_num_entries m' = (if dup then mt_num_entries m else mt_num_entries m + 1)"
    "mt_first_seqno m' = (if \<not> dup \<and> mt_first_seqno m = 0 then s else mt_first_seqno m)"
    "mt_is_range_del_table_empty m' = ((dup \<or> \<not> rd) \<and> mt_is_range_del_table_empty m)"
    using AddEntry_refines [OF c h held new sel(1,2), of env t]
    unfolding Let_def a es'_def rs'_def dup_def rd_def by blast
  have len: "length es' + length rs' = (if dup then length es + length rs else Suc (length es + length rs))"
    and nil: "es' = [] \<and> rs' = [] \<longleftrightarrow> es = [] \<and> rs = [] \<and> dup" "rs' = [] \<longleftrightarrow> rs = [] \<and> (dup \<or> \<not> rd)"
    using e by (auto simp: es'_def rs'_def dup_def insert_entry_length insert_entry_not_Nil has_entry_def)
  have "mem_inv ucmp ssl mk m' es' rs'"
    using m'(2-8) ua'(1) cnt s(2) len nil by (auto simp: mem_inv_def)
  then show ?thesis
    using A room m'(1,4) ua'(2) by (simp add: m1_def dup_def es'_def rs'_def rd_def)
qed

text \<open>The other ends of \<open>Add\<close>: an entry that does not fit, and a value larger than a block.\<close>

lemma MemAdd_overruns:
  assumes ssl: "openssl_ok ssl" "length mk = 32" and m: "malloc_ok [] malloc"
    and inv: "mem_inv ucmp ssl mk m es rs"
    and core: "ae_core env < length (ca_shards (mt_u_arena m))" and b: "block_below malloc (mt_u_arena m)"
    and key: "key_fits key" "\<not> entry_fits key" and val: "length value \<le> kMinBlockSize"
  shows "MemAdd malloc ssl mk ucmp opts env s t key value m = Some Undef"
proof -
  obtain given where ua: "u_arena_ok (mt_u_arena m) given" using inv by (auto simp: mem_inv_def)
  define e where "e = \<lparr>me_key = key, me_seq = s, me_type = t, me_value = value\<rparr>"
  have sel: "me_key e = key" "me_seq e = s" "me_type e = t" "me_value e = value" by (simp_all add: e_def)
  have v: "length (me_value e) \<le> kMinBlockSize" using sel val by simp
  obtain p rest where "MemAdd malloc ssl mk ucmp opts env s t key value m =
      (if entry_room key < length (EncodeEntry key s t (word_of_nat (length value))
         (evp_tag ssl mk gcm_iv gcm_aad (cipher_of ssl mk value)) (word_of_nat p)) then Some Undef
       else rest)"
    using MemAdd_stores [OF ssl m ua core b v, of ucmp opts] unfolding sel by blast
  then show ?thesis using entry_room_iff [OF key(1)] key(2) ssl by (simp add: entry_fits_def)
qed

lemma MemAdd_exits:
  assumes inv: "mem_inv ucmp ssl mk m es rs" and n: "kMinBlockSize < length value" "length value < 2 ^ 64 - 8"
  shows "MemAdd malloc ssl mk ucmp opts env s t key value m = Some Exit"
proof -
  obtain given where ua: "u_arena_ok (mt_u_arena m) given" using inv by (auto simp: mem_inv_def)
  have u: "unat (word_of_nat (length value) :: u64) = length value"
    unfolding unsigned_of_nat using n by (simp add: take_bit_nat_eq_self)
  have "length value \<le> unat (RoundUp (word_of_nat (length value)))"
    using RoundUp_eq [of "word_of_nat (length value)"] u n by simp
  then have "AllocateImpl (UntrustedFallback malloc) ArenaAllocateAligned
      (unat (RoundUp (word_of_nat (length value)))) (ae_direct env) (ae_core env) (mt_u_arena m) = Exit"
    by (intro AllocateImpl_exits) (use ua n in \<open>auto simp: u_arena_ok_def kMinBlockSize_def\<close>)
  then show ?thesis by (simp add: MemAdd_def ConcurrentAllocateAligned_def)
qed

section \<open>Look-up\<close>

text \<open>What the callback sees of an entry.\<close>

lemma SaveValue_entry:
  assumes "key_fits key'" and "s' \<le> kMaxSequenceNumber" and "length tags = 16"
    and "LookupUserKey (se_key e) = key" and "se_callback e = None"
  shows "SaveValue e (EncodeEntry key' s' t n tags p) sv =
    (if se_ucmp e key' key \<noteq> 0 then Ok (False, sv)
     else
       (let sv = sv\<lparr>sv_seq := s'\<rparr>;
            t = (if (t = kTypeValue \<or> t = kTypeMerge \<or> t = kTypeBlobIndex) \<and>
                    s' < se_max_covering_tombstone_seq e then kTypeRangeDeletion else t);
            rest = EncodeVarint32 28 @ EncodeFixed32 n @ tags @ EncodeFixed64 p
        in if t = kTypeBlobIndex \<or> t = kTypeValue then SaveFound e t rest sv
           else if t = kTypeDeletion \<or> t = kTypeDeletionWithTimestamp \<or>
                   t = kTypeSingleDeletion \<or> t = kTypeRangeDeletion then SaveDeletion e sv
           else if t = kTypeMerge then SaveMerge e rest sv
           else Ok (False, sv\<lparr>sv_status := Corruption\<rparr>)))"
proof -
  have p: "(case UnPackSequenceAndType (PackSequenceAndType s' t) of (seq, ty) \<Rightarrow> f seq ty) = f s' t"
    for f :: "SequenceNumber \<Rightarrow> ValueType \<Rightarrow> (bool \<times> Saver) outcome"
    using UnPack_Pack [OF assms(2), of t] by simp
  show ?thesis
    using assms unat_key_size(2) [OF assms(1)]
    by (simp add: SaveValue_def EncodeEntry_eq p Let_def)
qed

lemma LoadValue_stored:
  assumes ssl: "openssl_ok ssl" "length mk = 32"
    and v: "length v \<le> kMinBlockSize"
    and mem: "v \<noteq> [] \<longrightarrow> p < 2 ^ 64 \<and> ReadMem mem p (length v) = evp_encrypt ssl mk gcm_iv gcm_aad v"
  shows "LoadValue ssl mk mem (EncodeFixed32 (word_of_nat (length v)) @
      evp_tag ssl mk gcm_iv gcm_aad (evp_encrypt ssl mk gcm_iv gcm_aad v) @
      EncodeFixed64 (word_of_nat p)) = Ok (v, False)"
proof -
  let ?c = "evp_encrypt ssl mk gcm_iv gcm_aad v"
  have n: "unat (word_of_nat (length v) :: u32) = length v"
    unfolding unsigned_of_nat using v by (simp add: take_bit_nat_eq_self kMinBlockSize_def)
  have "ReadMem mem (unat (word_of_nat p :: u64)) (length v) = ?c"
  proof (cases "v = []")
    case True
    then have "length ?c = 0" using ssl by simp
    then show ?thesis using True by simp
  next
    case False
    then have "unat (word_of_nat p :: u64) = p"
      unfolding unsigned_of_nat using mem by (simp add: take_bit_nat_eq_self)
    then show ?thesis using mem False by simp
  qed
  then show ?thesis
    using ssl n by (simp add: LoadValue_def ReadDescriptor_ok Decryption_def)
qed

text \<open>Only the first entry at or behind the look-up key matters.\<close>

definition entries_sorted :: "(bytes \<Rightarrow> bytes \<Rightarrow> int) \<Rightarrow> mem_entry list \<Rightarrow> bool" where
  "entries_sorted ucmp es \<longleftrightarrow>
     sorted_wrt (\<lambda>a b. entry_cmp ucmp (me_key a) (me_seq a) (me_key b) (me_seq b) < 0) es"

lemma visible_entry_first:
  assumes c: "comparator ucmp" and so: "entries_sorted ucmp es"
  shows "visible_entry ucmp key s es =
    (case dropWhile (\<lambda>e. entry_less ucmp e key s) es of
       [] \<Rightarrow> None
     | e # _ \<Rightarrow> if ucmp (me_key e) key = 0 then Some e else None)"
  using so
proof (induction es)
  case Nil
  then show ?case by (simp add: visible_entry_def)
next
  case (Cons e es)
  have IH: "visible_entry ucmp key s es =
    (case dropWhile (\<lambda>e. entry_less ucmp e key s) es of
       [] \<Rightarrow> None | e # _ \<Rightarrow> if ucmp (me_key e) key = 0 then Some e else None)"
    using Cons by (simp add: entries_sorted_def)
  show ?case
  proof (cases "entry_less ucmp e key s")
    case True
    then have "\<not> (ucmp (me_key e) key = 0 \<and> me_seq e \<le> s)"
      by (auto simp: entry_less_def entry_cmp_def Let_def split: if_splits)
    then show ?thesis using True IH by (auto simp: visible_entry_def)
  next
    case False
    show ?thesis
    proof (cases "ucmp (me_key e) key = 0")
      case True
      then have "me_seq e \<le> s"
        using False by (auto simp: entry_less_def entry_cmp_def Let_def not_less split: if_splits)
      then show ?thesis using True False by (simp add: visible_entry_def)
    next
      case neq: False
      then have gt: "0 < ucmp (me_key e) key"
        using False by (auto simp: entry_less_def entry_cmp_def Let_def)
      have "ucmp (me_key e') key \<noteq> 0" if "e' \<in> set es" for e'
      proof
        assume 0: "ucmp (me_key e') key = 0"
        have "entry_cmp ucmp (me_key e) (me_seq e) (me_key e') (me_seq e') < 0"
          using Cons.prems that by (simp add: entries_sorted_def)
        then have "ucmp (me_key e) (me_key e') \<le> 0"
          by (auto simp: entry_cmp_def Let_def split: if_splits)
        then have "ucmp (me_key e) key \<le> 0" using comparator.trans [OF c] 0 by fastforce
        then show False using gt by simp
      qed
      then have "find (\<lambda>e. ucmp (me_key e) key = 0 \<and> me_seq e \<le> s) es = None"
        by (auto simp: find_None_iff)
      then show ?thesis using False neq by (simp add: visible_entry_def)
    qed
  qed
qed

text \<open>The entries of a table are sorted.\<close>

lemma table_holds_sorted:
  assumes "table_holds ucmp ssl mk mem given s es"
  shows "entries_sorted ucmp es"
proof -
  obtain ks xs where sl: "skip_list (KeyComparator ucmp) s xs" and ks: "list_keys s xs = ks"
    and all: "list_all2 (stored ssl mk mem given) ks es"
    using assms by (auto simp: table_holds_def list_state_def)
  have "sorted_wrt (\<lambda>a b. KeyComparator ucmp a b < 0) ks"
    using sl unfolding ks [symmetric] list_keys_def skip_list_def list_ok_def
    by (simp add: sorted_wrt_map)
  with all show ?thesis
  proof (induction rule: list_all2_induct)
    case (Cons k ks e es)
    have "entry_cmp ucmp (me_key e) (me_seq e) (me_key e') (me_seq e') < 0" if e': "e' \<in> set es" for e'
    proof -
      obtain k' where k': "k' \<in> set ks" and s': "stored ssl mk mem given k' e'"
        using list_all2_in [OF Cons(2) e'] by blast
      have "KeyComparator ucmp k k' < 0" using Cons.prems k' by simp
      moreover have "KeyComparator ucmp k k' = entry_cmp ucmp (me_key e) (me_seq e) (me_key e') (me_seq e')"
        using s' stored_cmp(1) [OF Cons(1), of "me_key e'" "me_seq e'"] by (auto simp: stored_def)
      ultimately show ?thesis by simp
    qed
    then show ?case using Cons by (simp add: entries_sorted_def)
  qed (simp add: entries_sorted_def)
qed


text \<open>The iteration over the keys from the look-up key on, while the callback says so.\<close>

fun scan_keys :: "(bytes \<Rightarrow> Saver \<Rightarrow> (bool \<times> Saver) outcome) \<Rightarrow> bytes list \<Rightarrow> Saver \<Rightarrow> Saver outcome" where
  "scan_keys callback [] sv = Ok sv"
| "scan_keys callback (k # ks) sv =
     obind (callback k sv) (\<lambda>(go, sv). if go then scan_keys callback ks sv else Ok sv)"

lemma RepGetLoop_scan:
  assumes lo: "list_order cmp" and sl: "skip_list cmp s (us @ vs)"
  shows "RepGetLoop s callback (case vs of [] \<Rightarrow> None | x # _ \<Rightarrow> Some x) sv =
    Some (scan_keys callback (list_keys s vs) sv)"
  using sl
proof (induction vs arbitrary: us sv)
  case Nil
  then show ?case by (simp add: list_keys_def RepGetLoop.simps [of s callback None])
next
  case (Cons x vs)
  have "NodeKey s x = Ok (node_key s x)"
    using NodeKey_list Cons.prems by (fastforce simp: skip_list_def)
  moreover have "IterNext s (Some x) = Ok (case vs of [] \<Rightarrow> None | y # _ \<Rightarrow> Some y)"
    by (rule list_order.IterNext_ok [OF lo Cons.prems refl])
  moreover have "skip_list cmp s ((us @ [x]) @ vs)" using Cons.prems by simp
  ultimately show ?case
    using Cons.IH [of "us @ [x]"]
    by (cases "callback (node_key s x) sv")
      (auto simp: list_keys_def RepGetLoop.simps [of s callback "Some x"])
qed

lemma RepGet_scan:
  assumes c: "comparator ucmp" and sl: "list_state (KeyComparator ucmp) s ks"
  shows "RepGet ucmp s lk callback sv =
    Some (scan_keys callback (keys_from (KeyComparator ucmp) (LookupMemtableKey lk) ks) sv)"
proof -
  let ?cmp = "KeyComparator ucmp" and ?key = "LookupMemtableKey lk"
  obtain xs where l: "skip_list ?cmp s xs" and ks: "list_keys s xs = ks"
    using sl by (auto simp: list_state_def)
  have lo: "list_order ?cmp" by (rule key_comparator [OF c])
  have "xs = before_key ?cmp s ?key xs @ from_key ?cmp s ?key xs" by (simp add: before_key_def from_key_def)
  with l have "skip_list ?cmp s (before_key ?cmp s ?key xs @ from_key ?cmp s ?key xs)" by simp
  from RepGetLoop_scan [OF lo this] list_order.FindGreaterOrEqual_ok [OF lo l, of ?key] show ?thesis
    using list_keys_parts(2) [of s ?cmp ?key xs] ks by (simp add: RepGet_def IterSeek_def)
qed

text \<open>One round is the last one unless the callback goes on.\<close>

lemma RepGet_first:
  assumes c: "comparator ucmp" and sl: "list_state (KeyComparator ucmp) s ks"
    and stop: "\<And>k. k \<in> set ks \<Longrightarrow> \<exists>sv'. callback k sv = Ok (False, sv')"
  shows "RepGet ucmp s lk callback sv =
    (case keys_from (KeyComparator ucmp) (LookupMemtableKey lk) ks of
       [] \<Rightarrow> Some (Ok sv)
     | k # _ \<Rightarrow> Some (obind (callback k sv) (\<lambda>(_, sv). Ok sv)))"
proof (cases "keys_from (KeyComparator ucmp) (LookupMemtableKey lk) ks")
  case (Cons k ks')
  then have "k \<in> set (keys_from (KeyComparator ucmp) (LookupMemtableKey lk) ks)" by simp
  then have "k \<in> set ks" unfolding keys_from_def by (rule set_dropWhileD)
  then show ?thesis using Cons RepGet_scan [OF c sl] stop by fastforce
qed (simp add: RepGet_scan [OF c sl])

lemma SaveFound_value:
  assumes "sv_merge_in_progress sv = False" and "se_do_merge e" and "sv_value sv = Some v0"
    and "LoadValue (se_ssl e) (se_memtable_key e) (se_mem e) data = Ok (v, printed)"
  shows "SaveFound e kTypeValue (EncodeVarint32 28 @ data) sv =
    Ok (False, sv\<lparr>sv_status := StatusOK, sv_value := Some v,
      sv_tag_printed := (sv_tag_printed sv \<or> printed), sv_found_final_value := True,
      sv_is_blob_index := map_option (\<lambda>_. False) (sv_is_blob_index sv)\<rparr>)"
  using assms by (simp add: SaveFound_def Let_def value_type_defs)

text \<open>What the answer to a look-up should be.\<close>

definition answers ::
    "mem_entry option \<Rightarrow> SequenceNumber \<Rightarrow> Saver \<Rightarrow> bool \<Rightarrow> Saver \<Rightarrow> bool" where
  "answers found max_seq sv res sv' \<longleftrightarrow>
     (case found of
        None \<Rightarrow> \<not> res \<and> sv_status sv' = sv_status sv \<and> sv_value sv' = sv_value sv
      | Some x \<Rightarrow> res \<and> sv_seq sv' = me_seq x \<and>
          (if me_type x = kTypeValue \<and> max_seq \<le> me_seq x
           then sv_status sv' = StatusOK \<and> sv_value sv' = Some (me_value x)
           else sv_status sv' = NotFound \<and> sv_value sv' = sv_value sv)) \<and>
     sv_tag_printed sv' = sv_tag_printed sv"

definition plain_type :: "ValueType \<Rightarrow> bool" where
  "plain_type t \<longleftrightarrow> t = kTypeValue \<or> t = kTypeDeletion \<or> t = kTypeSingleDeletion"

text \<open>The callback on a stored entry.\<close>

lemma SaveValue_stored:
  assumes ssl: "openssl_ok (se_ssl e)" "length (se_memtable_key e) = 32"
    and st: "stored (se_ssl e) (se_memtable_key e) (se_mem e) given k x" and t: "plain_type (me_type x)"
    and e: "se_callback e = None" "se_do_merge e" "LookupUserKey (se_key e) = key"
    and sv: "sv_merge_in_progress sv = False" "sv_value sv = Some v0"
  shows "\<exists>sv'. SaveValue e k sv = Ok (False, sv') \<and>
    (if se_ucmp e (me_key x) key = 0
     then answers (Some x) (se_max_covering_tombstone_seq e) sv (sv_found_final_value sv') sv'
     else sv' = sv) \<and> sv_merge_in_progress sv' = False"
proof -
  let ?c = "evp_encrypt (se_ssl e) (se_memtable_key e) gcm_iv gcm_aad (me_value x)"
  let ?t = "evp_tag (se_ssl e) (se_memtable_key e) gcm_iv gcm_aad ?c"
  obtain p where k: "k = EncodeEntry (me_key x) (me_seq x) (me_type x)
        (word_of_nat (length (me_value x))) ?t (word_of_nat p)"
    and mem: "me_value x \<noteq> [] \<longrightarrow> p < 2 ^ 64 \<and> ReadMem (se_mem e) p (length (me_value x)) = ?c"
    and f: "key_fits (me_key x)" "me_seq x \<le> kMaxSequenceNumber" "length (me_value x) \<le> kMinBlockSize"
    using st by (auto simp: stored_def)
  have lt: "length ?t = 16" using ssl by simp
  note S = SaveValue_entry [OF f(1,2) lt e(3,1), where t = "me_type x" and p = "word_of_nat p"
      and n = "word_of_nat (length (me_value x))" and sv = sv, folded k]
  show ?thesis
  proof (cases "se_ucmp e (me_key x) key = 0")
    case False
    then show ?thesis using S sv by simp
  next
    case True
    have V: "SaveFound e kTypeValue (EncodeVarint32 28 @ EncodeFixed32 (word_of_nat (length (me_value x))) @
        ?t @ EncodeFixed64 (word_of_nat p)) (sv\<lparr>sv_seq := me_seq x\<rparr>) =
      Ok (False, sv\<lparr>sv_seq := me_seq x, sv_status := StatusOK, sv_value := Some (me_value x),
        sv_found_final_value := True,
        sv_is_blob_index := map_option (\<lambda>_. False) (sv_is_blob_index sv)\<rparr>)"
      using SaveFound_value [OF _ e(2) _ LoadValue_stored [OF ssl f(3) mem], of "sv\<lparr>sv_seq := me_seq x\<rparr>"] sv
      by simp
    have D: "SaveDeletion e (sv\<lparr>sv_seq := me_seq x\<rparr>) =
      Ok (False, sv\<lparr>sv_seq := me_seq x, sv_status := NotFound, sv_found_final_value := True\<rparr>)"
      using sv by (simp add: SaveDeletion_def)
    show ?thesis
    proof (cases "me_type x = kTypeValue \<and> \<not> me_seq x < se_max_covering_tombstone_seq e")
      case val: True
      then have "SaveValue e k sv = SaveFound e kTypeValue (EncodeVarint32 28 @
          EncodeFixed32 (word_of_nat (length (me_value x))) @ ?t @ EncodeFixed64 (word_of_nat p))
          (sv\<lparr>sv_seq := me_seq x\<rparr>)"
        using S True by (simp only: simp_thms if_True if_False Let_def)
      then show ?thesis using V True val sv by (simp add: answers_def not_less)
    next
      case del: False
      have "SaveValue e k sv = SaveDeletion e (sv\<lparr>sv_seq := me_seq x\<rparr>)"
        using S True del t by (auto simp: Let_def plain_type_def value_type_defs)
      moreover have "\<not> (me_type x = kTypeValue \<and> se_max_covering_tombstone_seq e \<le> me_seq x)"
        using del by auto
      ultimately show ?thesis using D True sv by (simp add: answers_def)
    qed
  qed
qed

lemma MemGet_refines:
  assumes c: "comparator (se_ucmp e)" and ssl: "openssl_ok (se_ssl e)" "length (se_memtable_key e) = 32"
    and inv: "mem_inv (se_ucmp e) (se_ssl e) (se_memtable_key e) m es rs"
    and t: "\<forall>x\<in>set es. plain_type (me_type x)"
    and key: "key_fits key" "s \<le> kMaxSequenceNumber" "se_key e = MakeLookupKey key s None"
    and e: "se_callback e = None" "se_do_merge e"
    and sv: "sv_status sv = StatusOK" "sv_value sv = Some v0"
    and mx: "max_seq = (if ignore \<or> rs = [] then se_max_covering_tombstone_seq e
      else max (se_max_covering_tombstone_seq e) tombstone)"
  shows "\<exists>res sv'. MemGet e m ignore tombstone sv = Some (Ok (res, max_seq, sv')) \<and>
    answers (visible_entry (se_ucmp e) key s es) max_seq sv res sv'"
proof (cases "MemIsEmpty m")
  case True
  then have "es = [] \<and> rs = []" using inv by (simp add: mem_inv_def MemIsEmpty_def)
  then show ?thesis using True mx by (auto simp: MemGet_def answers_def visible_entry_def)
next
  case False
  obtain given where th: "table_holds (se_ucmp e) (se_ssl e) (se_memtable_key e) (mt_mem m) given (mt_table m) es"
    using inv by (auto simp: mem_inv_def)
  then obtain ks where ls: "list_state (KeyComparator (se_ucmp e)) (mt_table m) ks"
    and all: "list_all2 (stored (se_ssl e) (se_memtable_key e) (mt_mem m) given) ks es"
    by (auto simp: table_holds_def)
  define e' where "e' = e\<lparr>se_max_covering_tombstone_seq := max_seq, se_mem := mt_mem m\<rparr>"
  define sv0 where "sv0 = sv\<lparr>sv_found_final_value := False, sv_merge_in_progress := False,
    sv_seq := kMaxSequenceNumber\<rparr>"
  have uk: "LookupUserKey (se_key e') = key" using key by (simp add: e'_def SliceAt_lookup)
  have ef: "se_ucmp e' = se_ucmp e" "se_ssl e' = se_ssl e" "se_memtable_key e' = se_memtable_key e"
    "se_mem e' = mt_mem m" "se_callback e' = None" "se_do_merge e'"
    "se_max_covering_tombstone_seq e' = max_seq"
    using e by (simp_all add: e'_def)
  have sf: "sv_merge_in_progress sv0 = False" "sv_value sv0 = Some v0" using sv by (simp_all add: sv0_def)
  have cb: "\<exists>sv'. SaveValue e' k sv0 = Ok (False, sv') \<and>
      (if se_ucmp e (me_key x) key = 0 then answers (Some x) max_seq sv0 (sv_found_final_value sv') sv'
       else sv' = sv0) \<and> sv_merge_in_progress sv' = False"
    if "stored (se_ssl e) (se_memtable_key e) (mt_mem m) given k x" "x \<in> set es" for k x
    by (rule SaveValue_stored [of e' given k x key sv0 v0, unfolded ef])
      (use that ssl t uk sf ef in auto)
  have stop: "\<exists>sv'. SaveValue e' k sv0 = Ok (False, sv')" if "k \<in> set ks" for k
  proof -
    have "list_all2 (\<lambda>x k. stored (se_ssl e) (se_memtable_key e) (mt_mem m) given k x) es ks"
      using all by (simp add: list_all2_conv_all_nth)
    from list_all2_in [OF this that] show ?thesis using cb by blast
  qed
  have tw: "list_all2 (stored (se_ssl e) (se_memtable_key e) (mt_mem m) given)
      (dropWhile (\<lambda>k. KeyComparator (se_ucmp e) k (LookupMemtableKey (MakeLookupKey key s None)) < 0) ks)
      (dropWhile (\<lambda>x. entry_less (se_ucmp e) x key s) es)"
    by (rule entries_from [OF all key(1,2), unfolded keys_from_def])
  note V = visible_entry_first [OF c table_holds_sorted [OF th], of key s]
  note G = RepGet_first [OF c ls, where callback = "SaveValue e'" and sv = sv0 and lk = "se_key e'", OF stop]
  have ks: "keys_from (KeyComparator (se_ucmp e)) (LookupMemtableKey (se_key e')) ks =
      dropWhile (\<lambda>k. KeyComparator (se_ucmp e) k (LookupMemtableKey (MakeLookupKey key s None)) < 0) ks"
    using key(3) by (simp add: keys_from_def e'_def)
  have R: "MemGet e m ignore tombstone sv =
      rbind (RepGet (se_ucmp e) (mt_table m) (se_key e') (SaveValue e') sv0) (\<lambda>sv.
        let sv = (if \<not> sv_found_final_value sv \<and> sv_merge_in_progress sv
                  then sv\<lparr>sv_status := MergeInProgress\<rparr> else sv)
        in Some (Ok (sv_found_final_value sv, max_seq, sv)))"
    using False inv mx sv
    by (cases "ignore \<or> rs = []") (simp_all add: MemGet_def GetFromTable_def e'_def sv0_def mem_inv_def Let_def)
  show ?thesis
  proof (cases "dropWhile (\<lambda>k. KeyComparator (se_ucmp e) k (LookupMemtableKey (MakeLookupKey key s None)) < 0) ks")
    case Nil
    then have "dropWhile (\<lambda>x. entry_less (se_ucmp e) x key s) es = []" using tw by (metis list_all2_Nil)
    then have "visible_entry (se_ucmp e) key s es = None" using V by (simp del: dropWhile_eq_Nil_conv)
    then show ?thesis using R G ks Nil by (auto simp: answers_def sv0_def intro: exI [of _ False])
  next
    case (Cons k ks')
    then obtain x es' where x: "dropWhile (\<lambda>x. entry_less (se_ucmp e) x key s) es = x # es'"
      and st: "stored (se_ssl e) (se_memtable_key e) (mt_mem m) given k x"
      using tw by (cases "dropWhile (\<lambda>x. entry_less (se_ucmp e) x key s) es") auto
    have "x \<in> set (dropWhile (\<lambda>x. entry_less (se_ucmp e) x key s) es)" using x by simp
    then have "x \<in> set es" by (rule set_dropWhileD)
    then obtain sv' where sv': "SaveValue e' k sv0 = Ok (False, sv')"
      "if se_ucmp e (me_key x) key = 0 then answers (Some x) max_seq sv0 (sv_found_final_value sv') sv'
       else sv' = sv0" "sv_merge_in_progress sv' = False"
      using cb [OF st] by blast
    have "MemGet e m ignore tombstone sv = Some (Ok (sv_found_final_value sv', max_seq, sv'))"
      using R G ks Cons sv'(1,3) by simp
    moreover have "answers (visible_entry (se_ucmp e) key s es) max_seq sv (sv_found_final_value sv') sv'"
      using V x sv'(2) sv by (auto simp: answers_def sv0_def split: if_splits)
    ultimately show ?thesis by blast
  qed
qed

end
