(* ===== verification/Memtable_Ops.thy ===== *)
theory Memtable_Ops
  imports Memtable_Spec
begin

text \<open>
  The other operations of the MemTable: its iterator, the estimates, the count of the merges of a
  key, the updates in place (\<open>db/memtable.cc\<close>), and the iterator that remembers where it was
  (\<open>memtable/skiplistrep.cc\<close>).
\<close>

section \<open>The iterator\<close>

text \<open>
  An iterator is the node of the iterator below it: \<open>valid_\<close> always says whether there is one. There
  is no bloom filter.
\<close>

definition MemIterSeek ::
    "(bytes \<Rightarrow> bytes \<Rightarrow> int) \<Rightarrow> InlineSkipList \<Rightarrow> bytes \<Rightarrow> nat option run" where
  "MemIterSeek ucmp s k = IterSeek (KeyComparator ucmp) s (EncodeKey k)"

definition MemIterKey :: "InlineSkipList \<Rightarrow> nat option \<Rightarrow> bytes outcome" where
  "MemIterKey s node = obind (IterNodeKey s node) (\<lambda>entry. Ok (SliceAt entry))"

text \<open>The value is what lies outside of the enclave: nothing decrypts it and no tag is looked at.\<close>

definition MemIterValue :: "InlineSkipList \<Rightarrow> (nat \<Rightarrow> byte) \<Rightarrow> nat option \<Rightarrow> bytes outcome" where
  "MemIterValue s mem node =
     obind (IterNodeKey s node) (\<lambda>entry.
     obind (of_opt (GetVarint32Ptr (BehindSlice entry))) (\<lambda>(_, untrusted_v).
     obind (ReadDescriptor untrusted_v) (\<lambda>(value_size, _, value_ptr).
       Ok (ReadMem mem (unat value_ptr) (unat value_size)))))"

partial_function (option) MemIterRetreat ::
    "(bytes \<Rightarrow> bytes \<Rightarrow> int) \<Rightarrow> InlineSkipList \<Rightarrow> bytes \<Rightarrow> nat option \<Rightarrow> nat option run" where
  "MemIterRetreat ucmp s k node =
     (case node of None \<Rightarrow> Some (Ok None)
      | Some x \<Rightarrow>
        (case MemIterKey s node of
           Undef \<Rightarrow> Some Undef | Exit \<Rightarrow> Some Exit
         | Ok key \<Rightarrow>
           (if InternalCompare ucmp k key < 0 then
              (case IterPrev (KeyComparator ucmp) s node of
                 None \<Rightarrow> None | Some Undef \<Rightarrow> Some Undef | Some Exit \<Rightarrow> Some Exit
               | Some (Ok node) \<Rightarrow> MemIterRetreat ucmp s k node)
            else Some (Ok node))))"

definition MemIterSeekForPrev ::
    "(bytes \<Rightarrow> bytes \<Rightarrow> int) \<Rightarrow> InlineSkipList \<Rightarrow> bytes \<Rightarrow> nat option run" where
  "MemIterSeekForPrev ucmp s k =
     rbind (MemIterSeek ucmp s k) (\<lambda>node.
     rbind (if node = None then IterSeekToLast s else Some (Ok node)) (MemIterRetreat ucmp s k))"

section \<open>Estimates and counts\<close>

definition ApproximateNumEntries ::
    "(bytes \<Rightarrow> bytes \<Rightarrow> int) \<Rightarrow> InlineSkipList \<Rightarrow> bytes \<Rightarrow> bytes \<Rightarrow> u64 run" where
  "ApproximateNumEntries ucmp s start_ikey end_ikey =
     rbind (EstimateCount (KeyComparator ucmp) s (EncodeKey start_ikey)) (\<lambda>start_count.
     rbind (EstimateCount (KeyComparator ucmp) s (EncodeKey end_ikey)) (\<lambda>end_count.
       Some (Ok (if start_count \<le> end_count then end_count - start_count else 0))))"

text \<open>The size and the number of the entries between two keys.\<close>

definition ApproximateStats ::
    "(bytes \<Rightarrow> bytes \<Rightarrow> int) \<Rightarrow> MemTable \<Rightarrow> bytes \<Rightarrow> bytes \<Rightarrow> (u64 \<times> u64) run" where
  "ApproximateStats ucmp m start_ikey end_ikey =
     rbind (ApproximateNumEntries ucmp (mt_table m) start_ikey end_ikey) (\<lambda>entry_count.
     rbind (ApproximateNumEntries ucmp (mt_range_del_table m) start_ikey end_ikey) (\<lambda>dels.
       let entry_count = entry_count + dels; n = mt_num_entries m
       in if entry_count = 0 then Some (Ok (0, 0))
          else if n = 0 then Some (Ok (0, 0))
          else
            (let entry_count = (if entry_count > n then n else entry_count)
             in Some (Ok (entry_count * (mt_data_size m div n), entry_count)))))"

text \<open>The parts of an entry, as the functions below read them.\<close>

definition ParseEntry :: "bytes \<Rightarrow> (bytes \<times> SequenceNumber \<times> ValueType \<times> bytes) outcome" where
  "ParseEntry entry =
     obind (of_opt (GetVarint32Ptr entry)) (\<lambda>(key_length, key_ptr).
       let n = unat key_length in
       if n < 8 \<or> length key_ptr < n then Undef
       else
         obind (of_opt (DecodeFixed64 (drop (n - 8) key_ptr))) (\<lambda>tag.
           let (seq, vtype) = UnPackSequenceAndType tag
           in Ok (take (n - 8) key_ptr, seq, vtype, drop n key_ptr)))"

partial_function (option) CountMergeLoop ::
    "(bytes \<Rightarrow> bytes \<Rightarrow> int) \<Rightarrow> InlineSkipList \<Rightarrow> bytes \<Rightarrow> nat option \<Rightarrow> u64 \<Rightarrow> u64 run" where
  "CountMergeLoop ucmp s ukey node num =
     (case node of None \<Rightarrow> Some (Ok num)
      | Some x \<Rightarrow>
        (case obind (NodeKey s x) ParseEntry of
           Undef \<Rightarrow> Some Undef | Exit \<Rightarrow> Some Exit
         | Ok (key, _, vtype, _) \<Rightarrow>
           (if ucmp key ukey \<noteq> 0 then Some (Ok num)
            else if vtype \<noteq> kTypeMerge then Some (Ok num)
            else (case IterNext s node of
                    Undef \<Rightarrow> Some Undef | Exit \<Rightarrow> Some Exit
                  | Ok node \<Rightarrow> CountMergeLoop ucmp s ukey node (num + 1)))))"

definition CountSuccessiveMergeEntries ::
    "(bytes \<Rightarrow> bytes \<Rightarrow> int) \<Rightarrow> LookupKey \<Rightarrow> MemTable \<Rightarrow> u64 run" where
  "CountSuccessiveMergeEntries ucmp key m =
     rbind (IterSeek (KeyComparator ucmp) (mt_table m) (LookupMemtableKey key)) (\<lambda>node.
       CountMergeLoop ucmp (mt_table m) (LookupUserKey key) node 0)"

section \<open>Updates in place\<close>

definition write_over :: "nat \<Rightarrow> bytes \<Rightarrow> bytes \<Rightarrow> bytes" where
  "write_over i bs xs = take i xs @ bs @ drop (i + length bs) xs"

definition WriteNode :: "nat \<Rightarrow> bytes \<Rightarrow> InlineSkipList \<Rightarrow> InlineSkipList" where
  "WriteNode x entry s = s\<lparr>sl_nodes := (sl_nodes s)[x := (sl_nodes s ! x)\<lparr>nd_key := entry\<rparr>]\<rparr>"

text \<open>The newest value of a key: its node, its entry and what follows its key.\<close>

definition UpdateTarget ::
    "(bytes \<Rightarrow> bytes \<Rightarrow> int) \<Rightarrow> SequenceNumber \<Rightarrow> bytes \<Rightarrow> MemTable \<Rightarrow>
     (nat \<times> bytes \<times> bytes) option run" where
  "UpdateTarget ucmp seq key m =
     (let lkey = MakeLookupKey key seq None
      in rbind (IterSeek (KeyComparator ucmp) (mt_table m) (LookupMemtableKey lkey)) (\<lambda>node.
           case node of None \<Rightarrow> Some (Ok None)
           | Some x \<Rightarrow>
               rbind (Some (NodeKey (mt_table m) x)) (\<lambda>entry.
               rbind (Some (ParseEntry entry)) (\<lambda>(ukey, _, vtype, rest).
                 Some (Ok (if ucmp ukey (LookupUserKey lkey) = 0 \<and> vtype = kTypeValue
                           then Some (x, entry, rest) else None))))))"

text \<open>\<open>Update\<close> writes the value over the descriptor of the previous one.\<close>

definition MemUpdate ::
    "malloc \<Rightarrow> openssl \<Rightarrow> bytes \<Rightarrow> (bytes \<Rightarrow> bytes \<Rightarrow> int) \<Rightarrow> MemTableOptions \<Rightarrow> AddEnv \<Rightarrow>
     SequenceNumber \<Rightarrow> bytes \<Rightarrow> bytes \<Rightarrow> MemTable \<Rightarrow> MemTable run" where
  "MemUpdate malloc ssl memtable_key ucmp opts env seq key value m =
     rbind (UpdateTarget ucmp seq key m) (\<lambda>target.
     rbind (case target of None \<Rightarrow> Some (Ok None)
            | Some (x, entry, rest) \<Rightarrow>
                rbind (Some (of_opt (GetVarint32Ptr rest))) (\<lambda>(prev_size, _).
                  let new_size = word_of_nat (length value) :: u32 in
                  if new_size \<le> prev_size then
                    Some (Ok (Some (WriteNode x
                      (write_over (length entry - length rest) (EncodeVarint32 new_size @ value) entry)
                      (mt_table m))))
                  else Some (Ok None)))
       (\<lambda>done_table.
         case done_table of
           Some table \<Rightarrow> Some (Ok (m\<lparr>mt_table := table\<rparr>))
         | None \<Rightarrow>
             rbind (MemAdd malloc ssl memtable_key ucmp opts env seq kTypeValue key value m)
               (\<lambda>(_, m). Some (Ok m))))"

datatype UpdateStatus = UPDATE_FAILED | UPDATED_INPLACE | UPDATED

text \<open>
  The callback gets the bytes of the previous value, their number and the delta; it returns the
  bytes it leaves there, a status, the new number and the value for an insertion.
\<close>

type_synonym inplace_callback =
  "bytes \<Rightarrow> u32 \<Rightarrow> bytes \<Rightarrow> bytes \<times> UpdateStatus \<times> u32 \<times> bytes"

definition MemUpdateCallback ::
    "malloc \<Rightarrow> openssl \<Rightarrow> bytes \<Rightarrow> (bytes \<Rightarrow> bytes \<Rightarrow> int) \<Rightarrow> MemTableOptions \<Rightarrow> inplace_callback \<Rightarrow>
     AddEnv \<Rightarrow> SequenceNumber \<Rightarrow> bytes \<Rightarrow> bytes \<Rightarrow> MemTable \<Rightarrow> (bool \<times> MemTable) run" where
  "MemUpdateCallback malloc ssl memtable_key ucmp opts callback env seq key delta m =
     rbind (UpdateTarget ucmp seq key m) (\<lambda>target.
       case target of None \<Rightarrow> Some (Ok (False, m))
       | Some (x, entry, rest) \<Rightarrow>
           rbind (Some (of_opt (GetVarint32Ptr rest))) (\<lambda>(prev_size, data).
             let (buffer, status, new_prev_size, str_value) =
                   callback (take (unat prev_size) data) prev_size delta;
                 pos = length entry - length rest;
                 entry = write_over (length entry - length data) buffer entry
             in case status of
                  UPDATED_INPLACE \<Rightarrow>
                    (let len = EncodeVarint32 new_prev_size;
                         resized = write_over pos len entry;
                         prev_buffer = drop (length entry - length data) resized;
                         resized =
                           (if VarintLength (ucast new_prev_size) < VarintLength (ucast prev_size)
                            then write_over (pos + length len) (take (unat new_prev_size) prev_buffer) resized
                            else resized)
                     in Some (Ok (True, m\<lparr>mt_table :=
                          WriteNode x (if new_prev_size < prev_size then resized else entry) (mt_table m)\<rparr>)))
                | UPDATED \<Rightarrow>
                    rbind (MemAdd malloc ssl memtable_key ucmp opts env seq kTypeValue key str_value
                             (m\<lparr>mt_table := WriteNode x entry (mt_table m)\<rparr>))
                      (\<lambda>(_, m). Some (Ok (True, m)))
                | UPDATE_FAILED \<Rightarrow>
                    Some (Ok (True, m\<lparr>mt_table := WriteNode x entry (mt_table m)\<rparr>))))"

section \<open>The iterator that looks ahead\<close>

record LookaheadIterator =
  li_iter :: "nat option"
  li_prev :: "nat option"

definition LookNext ::
    "InlineSkipList \<Rightarrow> (bytes \<Rightarrow> bytes) option \<Rightarrow> LookaheadIterator \<Rightarrow> LookaheadIterator outcome" where
  "LookNext s transform it =
     obind
       (case li_prev it of None \<Rightarrow> Ok True
        | Some p \<Rightarrow>
            obind (NodeKey s p) (\<lambda>k1. obind (IterNodeKey s (li_iter it)) (\<lambda>k2.
              let k1 = RepUserKey k1; k2 = RepUserKey k2
              in Ok (if k1 = k2 then False
                     else case transform of None \<Rightarrow> True | Some f \<Rightarrow> f k1 = f k2))))
       (\<lambda>advance_prev. obind (IterNext s (li_iter it)) (\<lambda>next_node.
         Ok \<lparr>li_iter = next_node, li_prev = (if advance_prev then li_iter it else li_prev it)\<rparr>))"

definition LookPrev ::
    "(bytes \<Rightarrow> bytes \<Rightarrow> int) \<Rightarrow> InlineSkipList \<Rightarrow> LookaheadIterator \<Rightarrow> LookaheadIterator run" where
  "LookPrev cmp s it =
     rbind (IterPrev cmp s (li_iter it)) (\<lambda>n. Some (Ok \<lparr>li_iter = n, li_prev = n\<rparr>))"

text \<open>At most the given number of steps, and whether they found the place.\<close>

fun LookScan ::
    "(bytes \<Rightarrow> bytes \<Rightarrow> int) \<Rightarrow> InlineSkipList \<Rightarrow> (bytes \<Rightarrow> bytes) option \<Rightarrow> bytes \<Rightarrow> nat \<Rightarrow>
     LookaheadIterator \<Rightarrow> (bool \<times> LookaheadIterator) outcome" where
  "LookScan cmp s transform key 0 it = Ok (False, it)"
| "LookScan cmp s transform key (Suc n) it =
     (case li_iter it of None \<Rightarrow> Ok (False, it)
      | Some x \<Rightarrow>
          obind (NodeKey s x) (\<lambda>k.
            if cmp key k \<le> 0 then Ok (True, it)
            else obind (LookNext s transform it) (LookScan cmp s transform key n)))"

definition LookSeek ::
    "(bytes \<Rightarrow> bytes \<Rightarrow> int) \<Rightarrow> InlineSkipList \<Rightarrow> (bytes \<Rightarrow> bytes) option \<Rightarrow> nat \<Rightarrow> bytes \<Rightarrow>
     LookaheadIterator \<Rightarrow> LookaheadIterator run" where
  "LookSeek cmp s transform lookahead key it =
     rbind (Some (case li_prev it of None \<Rightarrow> Ok (False, it)
                  | Some p \<Rightarrow>
                      obind (NodeKey s p) (\<lambda>k.
                        if cmp key k \<ge> 0
                        then LookScan cmp s transform key (lookahead + 1) (it\<lparr>li_iter := Some p\<rparr>)
                        else Ok (False, it))))
       (\<lambda>(found, it).
         if found then Some (Ok it)
         else rbind (IterSeek cmp s key) (\<lambda>n. Some (Ok \<lparr>li_iter = n, li_prev = n\<rparr>)))"

definition LookSeekForPrev ::
    "(bytes \<Rightarrow> bytes \<Rightarrow> int) \<Rightarrow> InlineSkipList \<Rightarrow> bytes \<Rightarrow> LookaheadIterator run" where
  "LookSeekForPrev cmp s key =
     rbind (IterSeekForPrev cmp s key) (\<lambda>n. Some (Ok \<lparr>li_iter = n, li_prev = n\<rparr>))"

definition LookSeekToFirst :: "InlineSkipList \<Rightarrow> LookaheadIterator outcome" where
  "LookSeekToFirst s = obind (IterSeekToFirst s) (\<lambda>n. Ok \<lparr>li_iter = n, li_prev = n\<rparr>)"

definition LookSeekToLast :: "InlineSkipList \<Rightarrow> LookaheadIterator run" where
  "LookSeekToLast s = rbind (IterSeekToLast s) (\<lambda>n. Some (Ok \<lparr>li_iter = n, li_prev = n\<rparr>))"

section \<open>What the iterator yields\<close>

definition internal_key_of :: "mem_entry \<Rightarrow> bytes" where
  "internal_key_of e = me_key e @ EncodeFixed64 (PackSequenceAndType (me_seq e) (me_type e))"

text \<open>A reader of at most \<open>n\<close> entries from a node on.\<close>

primrec MemReadFrom ::
    "InlineSkipList \<Rightarrow> (nat \<Rightarrow> byte) \<Rightarrow> nat \<Rightarrow> nat option \<Rightarrow> (bytes \<times> bytes) list outcome" where
  "MemReadFrom s mem 0 node = Ok []"
| "MemReadFrom s mem (Suc n) node =
     (if node = None then Ok []
      else obind (MemIterKey s node) (\<lambda>k. obind (MemIterValue s mem node) (\<lambda>v.
           obind (IterNext s node) (\<lambda>node. obind (MemReadFrom s mem n node) (\<lambda>r. Ok ((k, v) # r))))))"

lemma SliceAt_entry:
  assumes "key_fits (me_key e)"
  shows "SliceAt (entry_of ssl mk e p) = internal_key_of e"
    and "BehindSlice (entry_of ssl mk e p) = EncodeVarint32 28 @
      EncodeFixed32 (word_of_nat (length (me_value e))) @
      take 16 (evp_tag ssl mk gcm_iv gcm_aad (cipher_of ssl mk (me_value e))) @ EncodeFixed64 (word_of_nat p)"
  using assms by (simp_all add: EncodeEntry_eq SliceAt_key internal_key_of_def del: append_assoc)

lemma stored_memory:
  assumes "openssl_ok ssl" and "stored ssl mk mem given k e"
  obtains p where "k = entry_of ssl mk e p"
    and "ReadMem mem (unat (word_of_nat p :: u64)) (length (me_value e)) = cipher_of ssl mk (me_value e)"
proof -
  obtain p where k: "k = entry_of ssl mk e p" and m: "me_value e \<noteq> [] \<longrightarrow> p < 2 ^ 64 \<and>
      ReadMem mem p (length (me_value e)) = cipher_of ssl mk (me_value e)"
    using assms(2) by (auto simp: stored_def)
  have "ReadMem mem (unat (word_of_nat p :: u64)) (length (me_value e)) = cipher_of ssl mk (me_value e)"
  proof (cases "me_value e = []")
    case True
    moreover have "length (cipher_of ssl mk (me_value e)) = length (me_value e)" using assms(1) by simp
    ultimately show ?thesis by simp
  next
    case False
    then have "unat (word_of_nat p :: u64) = p"
      unfolding unsigned_of_nat using m by (simp add: take_bit_nat_eq_self)
    then show ?thesis using m False by simp
  qed
  then show ?thesis using k that by blast
qed

lemma MemIter_entry:
  assumes ssl: "openssl_ok ssl" and st: "stored ssl mk mem given k e" and n: "IterNodeKey s node = Ok k"
  shows "MemIterKey s node = Ok (internal_key_of e)"
    and "MemIterValue s mem node = Ok (cipher_of ssl mk (me_value e))"
proof -
  obtain p where k: "k = entry_of ssl mk e p"
    and m: "ReadMem mem (unat (word_of_nat p :: u64)) (length (me_value e)) = cipher_of ssl mk (me_value e)"
    using stored_memory [OF ssl st] .
  have f: "key_fits (me_key e)" and l: "length (me_value e) \<le> 4096"
    using st by (auto simp: stored_def kMinBlockSize_def)
  have v: "unat (word_of_nat (length (me_value e)) :: u32) = length (me_value e)"
    unfolding unsigned_of_nat using l by (simp add: take_bit_nat_eq_self)
  have "length (evp_tag ssl mk gcm_iv gcm_aad (cipher_of ssl mk (me_value e))) = 16" using ssl by simp
  then show "MemIterKey s node = Ok (internal_key_of e)"
    and "MemIterValue s mem node = Ok (cipher_of ssl mk (me_value e))"
    using n m v by (simp_all add: MemIterKey_def MemIterValue_def k SliceAt_entry [OF f] ReadDescriptor_ok)
qed

lemma MemReadFrom_list:
  assumes ssl: "openssl_ok ssl" and sl: "skip_list (KeyComparator ucmp) s (us @ vs)" and c: "comparator ucmp"
    and all: "list_all2 (stored ssl mk mem given) (list_keys s vs) es" and n: "length vs \<le> n"
  shows "MemReadFrom s mem n (case vs of [] \<Rightarrow> None | x # _ \<Rightarrow> Some x) =
    Ok (map (\<lambda>e. (internal_key_of e, cipher_of ssl mk (me_value e))) es)"
  using sl all n
proof (induction vs arbitrary: us es n)
  case Nil
  then show ?case by (cases n) (simp_all add: list_keys_def)
next
  case (Cons x vs)
  obtain n' where n': "n = Suc n'" "length vs \<le> n'" using Cons.prems(3) by (cases n) auto
  obtain e es' where es: "es = e # es'" "stored ssl mk mem given (node_key s x) e"
    "list_all2 (stored ssl mk mem given) (list_keys s vs) es'"
    using Cons.prems(2) by (auto simp: list_keys_def list_all2_Cons1)
  have "NodeKey s x = Ok (node_key s x)"
    using NodeKey_list Cons.prems(1) by (fastforce simp: skip_list_def)
  then have k: "IterNodeKey s (Some x) = Ok (node_key s x)" by (simp add: IterNodeKey_def)
  have nx: "IterNext s (Some x) = Ok (case vs of [] \<Rightarrow> None | y # _ \<Rightarrow> Some y)"
    by (rule list_order.IterNext_ok [OF key_comparator [OF c] Cons.prems(1) refl])
  have "MemReadFrom s mem n' (case vs of [] \<Rightarrow> None | y # _ \<Rightarrow> Some y) =
      Ok (map (\<lambda>e. (internal_key_of e, cipher_of ssl mk (me_value e))) es')"
    using Cons.IH [of "us @ [x]" es' n'] Cons.prems(1) es(3) n'(2) by simp
  then show ?case using es(1) n'(1) nx MemIter_entry [OF ssl es(2) k] by simp
qed

text \<open>From the first node on the iterator yields all entries, with the values as they lie outside.\<close>

lemma MemRead_all:
  assumes "openssl_ok ssl" and c: "comparator ucmp" and th: "table_holds ucmp ssl mk mem given s es"
  shows "obind (IterSeekToFirst s) (MemReadFrom s mem (length es)) =
    Ok (map (\<lambda>e. (internal_key_of e, cipher_of ssl mk (me_value e))) es)"
proof -
  obtain xs where sl: "skip_list (KeyComparator ucmp) s xs"
    and all: "list_all2 (stored ssl mk mem given) (list_keys s xs) es"
    using th by (auto simp: table_holds_def list_state_def)
  have "length xs = length es" using list_all2_lengthD [OF all] by (simp add: list_keys_def)
  then show ?thesis
    using list_order.IterSeekToFirst_ok [OF key_comparator [OF c] sl]
      MemReadFrom_list [OF assms(1) _ c all, of "[]"] sl by simp
qed

text \<open>\<open>SeekForPrev\<close> goes back to the last entry that the target is not before.\<close>

lemma MemIterRetreat_list:
  assumes c: "comparator ucmp" and sl: "skip_list (KeyComparator ucmp) s (us @ vs)"
  shows "MemIterRetreat ucmp s k (if us = [] then None else Some (last us)) =
    Some (Ok (find (\<lambda>x. \<not> InternalCompare ucmp k (SliceAt (node_key s x)) < 0) (rev us)))"
  using sl
proof (induction us arbitrary: vs rule: rev_induct)
  case Nil
  then show ?case by (subst MemIterRetreat.simps) simp
next
  case (snoc x us)
  have sl: "skip_list (KeyComparator ucmp) s (us @ x # vs)" using snoc.prems by simp
  have "NodeKey s x = Ok (node_key s x)"
    using NodeKey_list sl by (fastforce simp: skip_list_def)
  then have k: "MemIterKey s (Some x) = Ok (SliceAt (node_key s x))"
    by (simp add: MemIterKey_def IterNodeKey_def)
  have pv: "IterPrev (KeyComparator ucmp) s (Some x) = Some (Ok (if us = [] then None else Some (last us)))"
    by (rule list_order.IterPrev_ok [OF key_comparator [OF c] sl refl])
  show ?case
    using k pv snoc.IH [OF sl] by (subst MemIterRetreat.simps) simp
qed

lemma MemIterSeekForPrev_ok:
  fixes k :: bytes
  assumes c: "comparator ucmp" and sl: "skip_list (KeyComparator ucmp) s xs"
  defines "bs \<equiv> from_key (KeyComparator ucmp) s (EncodeKey k) xs"
  shows "MemIterSeekForPrev ucmp s k =
    Some (Ok (find (\<lambda>x. \<not> InternalCompare ucmp k (SliceAt (node_key s x)) < 0)
      (rev (before_key (KeyComparator ucmp) s (EncodeKey k) xs @ take 1 bs))))"
proof -
  let ?as = "before_key (KeyComparator ucmp) s (EncodeKey k) xs"
  have lo: "list_order (KeyComparator ucmp)" by (rule key_comparator [OF c])
  have xs: "xs = ?as @ bs" by (simp add: before_key_def from_key_def bs_def)
  note S = list_order.FindGreaterOrEqual_ok [OF lo sl, of "EncodeKey k", folded bs_def]
  note L = list_order.IterSeekToLast_ok [OF lo sl]
  let ?n = "case bs of [] \<Rightarrow> None | y # _ \<Rightarrow> Some y"
  have "MemIterSeekForPrev ucmp s k =
      rbind (if ?n = None then IterSeekToLast s else Some (Ok ?n)) (MemIterRetreat ucmp s k)"
    by (simp only: MemIterSeekForPrev_def MemIterSeek_def IterSeek_def S rbind_simps)
  also have "\<dots> = MemIterRetreat ucmp s k
      (if ?as @ take 1 bs = [] then None else Some (last (?as @ take 1 bs)))"
    using L xs by (cases bs) auto
  also have "\<dots> = Some (Ok (find (\<lambda>x. \<not> InternalCompare ucmp k (SliceAt (node_key s x)) < 0)
      (rev (?as @ take 1 bs))))"
    by (rule MemIterRetreat_list [OF c, where vs = "drop 1 bs"]) (use sl xs in simp)
  finally show ?thesis .
qed

section \<open>The successive merges of a key\<close>

lemma ParseEntry_entry:
  assumes "key_fits (me_key e)" and "me_seq e \<le> kMaxSequenceNumber"
  shows "\<exists>rest. ParseEntry (entry_of ssl mk e p) = Ok (me_key e, me_seq e, me_type e, rest)"
  using UnPack_Pack [OF assms(2), of "me_type e"] unat_key_size(2) [OF assms(1)]
  by (simp add: ParseEntry_def EncodeEntry_eq [OF assms(1)] Let_def)

lemma ParseEntry_stored:
  assumes "stored ssl mk mem given k e"
  shows "\<exists>rest. ParseEntry k = Ok (me_key e, me_seq e, me_type e, rest)"
  using assms ParseEntry_entry by (fastforce simp: stored_def)

definition merge_of :: "(bytes \<Rightarrow> bytes \<Rightarrow> int) \<Rightarrow> bytes \<Rightarrow> mem_entry \<Rightarrow> bool" where
  "merge_of ucmp key e \<longleftrightarrow> ucmp (me_key e) key = 0 \<and> me_type e = kTypeMerge"

lemma CountMergeLoop_list:
  assumes c: "comparator ucmp" and sl: "skip_list (KeyComparator ucmp) s (us @ vs)"
    and all: "list_all2 (stored ssl mk mem given) (list_keys s vs) es"
  shows "CountMergeLoop ucmp s key (case vs of [] \<Rightarrow> None | x # _ \<Rightarrow> Some x) num =
    Some (Ok (num + word_of_nat (length (takeWhile (merge_of ucmp key) es))))"
  using sl all
proof (induction vs arbitrary: us es num)
  case Nil
  then show ?case by (subst CountMergeLoop.simps) (simp add: list_keys_def)
next
  case (Cons x vs)
  obtain e es' where es: "es = e # es'" "stored ssl mk mem given (node_key s x) e"
    "list_all2 (stored ssl mk mem given) (list_keys s vs) es'"
    using Cons.prems(2) by (auto simp: list_keys_def list_all2_Cons1)
  obtain rest where pe: "ParseEntry (node_key s x) = Ok (me_key e, me_seq e, me_type e, rest)"
    using ParseEntry_stored [OF es(2)] by blast
  have nk: "NodeKey s x = Ok (node_key s x)"
    using NodeKey_list Cons.prems(1) by (fastforce simp: skip_list_def)
  have nx: "IterNext s (Some x) = Ok (case vs of [] \<Rightarrow> None | y # _ \<Rightarrow> Some y)"
    by (rule list_order.IterNext_ok [OF key_comparator [OF c] Cons.prems(1) refl])
  note IH = Cons.IH [of "us @ [x]" es' "num + 1"]
  have m: "merge_of ucmp key e \<longleftrightarrow> ucmp (me_key e) key = 0 \<and> me_type e = kTypeMerge"
    by (simp add: merge_of_def)
  show ?case
    using Cons.prems(1) es nk pe nx IH
    by (subst CountMergeLoop.simps) (auto simp: m add.commute add.left_commute)
qed

text \<open>The count is that of the merges in front of the first other entry of the key.\<close>

lemma CountSuccessiveMergeEntries_ok:
  assumes c: "comparator ucmp" and th: "table_holds ucmp ssl mk mem given (mt_table m) es"
    and key: "key_fits key" "s \<le> kMaxSequenceNumber"
  shows "CountSuccessiveMergeEntries ucmp (MakeLookupKey key s None) m =
    Some (Ok (word_of_nat (length (takeWhile (merge_of ucmp key)
      (dropWhile (\<lambda>e. entry_less ucmp e key s) es)))))"
proof -
  let ?t = "mt_table m" and ?lk = "LookupMemtableKey (MakeLookupKey key s None)"
  obtain xs where sl: "skip_list (KeyComparator ucmp) ?t xs"
    and all: "list_all2 (stored ssl mk mem given) (list_keys ?t xs) es"
    using th by (auto simp: table_holds_def list_state_def)
  have lo: "list_order (KeyComparator ucmp)" by (rule key_comparator [OF c])
  have "list_all2 (stored ssl mk mem given) (keys_from (KeyComparator ucmp) ?lk (list_keys ?t xs))
      (dropWhile (\<lambda>e. entry_less ucmp e key s) es)"
    by (rule entries_from [OF all key])
  then have d: "list_all2 (stored ssl mk mem given)
      (list_keys ?t (from_key (KeyComparator ucmp) ?t ?lk xs)) (dropWhile (\<lambda>e. entry_less ucmp e key s) es)"
    using list_keys_parts(2) by metis
  have "xs = before_key (KeyComparator ucmp) ?t ?lk xs @ from_key (KeyComparator ucmp) ?t ?lk xs"
    by (simp add: before_key_def from_key_def)
  then have "skip_list (KeyComparator ucmp) ?t
      (before_key (KeyComparator ucmp) ?t ?lk xs @ from_key (KeyComparator ucmp) ?t ?lk xs)"
    using sl by simp
  from CountMergeLoop_list [OF c this d, of key 0] show ?thesis
    using list_order.FindGreaterOrEqual_ok [OF lo sl, of ?lk] SliceAt_lookup(2) [OF key(1), of s]
    by (simp add: CountSuccessiveMergeEntries_def IterSeek_def)
qed

section \<open>The estimates\<close>

lemma ApproximateNumEntries_returns:
  assumes "comparator ucmp" and "skip_list (KeyComparator ucmp) s xs"
  shows "\<exists>c. ApproximateNumEntries ucmp s a b = Some (Ok c)"
proof -
  note E = list_order.EstimateCount_returns [OF key_comparator [OF assms(1)] assms(2)]
  obtain c1 c2 where "EstimateCount (KeyComparator ucmp) s (EncodeKey a) = Some (Ok c1)"
    and "EstimateCount (KeyComparator ucmp) s (EncodeKey b) = Some (Ok c2)" using E by blast
  then show ?thesis by (simp add: ApproximateNumEntries_def)
qed

lemma ApproximateStats_bounded:
  assumes c: "comparator ucmp" and "mem_inv ucmp ssl mk m es rs"
  shows "\<exists>sz n. ApproximateStats ucmp m a b = Some (Ok (sz, n)) \<and> n \<le> mt_num_entries m"
proof -
  obtain xs ys where "skip_list (KeyComparator ucmp) (mt_table m) xs"
    and "skip_list (KeyComparator ucmp) (mt_range_del_table m) ys"
    using assms(2) by (auto simp: mem_inv_def table_holds_def list_state_def)
  then obtain c1 c2 where "ApproximateNumEntries ucmp (mt_table m) a b = Some (Ok c1)"
    and "ApproximateNumEntries ucmp (mt_range_del_table m) a b = Some (Ok c2)"
    using ApproximateNumEntries_returns [OF c] by blast
  then show ?thesis by (auto simp: ApproximateStats_def Let_def)
qed

section \<open>Looking ahead\<close>

text \<open>The scan goes from node to node, and the node it remembers stays one of the list.\<close>

lemma LookScan_list:
  assumes lo: "list_order cmp" and sl: "skip_list cmp s (us @ vs)"
    and it: "li_iter it = (case vs of [] \<Rightarrow> None | x # _ \<Rightarrow> Some x)"
    and p: "\<And>p. li_prev it = Some p \<Longrightarrow> p \<in> set (us @ vs)"
  shows "\<exists>found it'. LookScan cmp s transform key n it = Ok (found, it') \<and>
    (found \<longrightarrow> li_iter it' = find (\<lambda>x. cmp key (node_key s x) \<le> 0) vs) \<and>
    (\<forall>p. li_prev it' = Some p \<longrightarrow> p \<in> set (us @ vs))"
  using sl it p
proof (induction n arbitrary: us vs it)
  case 0
  then show ?case by (auto intro!: exI [of _ False])
next
  case (Suc n)
  have ok: "list_ok cmp s (us @ vs)" using Suc.prems(1) by (simp add: skip_list_def)
  show ?case
  proof (cases vs)
    case Nil
    then show ?thesis using Suc.prems by (auto intro!: exI [of _ False])
  next
    case (Cons x vs')
    have nk: "NodeKey s x = Ok (node_key s x)" using NodeKey_list [OF ok] Cons by simp
    have nx: "IterNext s (Some x) = Ok (case vs' of [] \<Rightarrow> None | y # _ \<Rightarrow> Some y)"
      by (rule list_order.IterNext_ok [OF lo Suc.prems(1)]) (simp add: Cons)
    show ?thesis
    proof (cases "cmp key (node_key s x) \<le> 0")
      case True
      then show ?thesis using Suc.prems Cons nk by (auto intro!: exI [of _ True])
    next
      case False
      have pk: "NodeKey s p = Ok (node_key s p)" if "li_prev it = Some p" for p
        using NodeKey_list [OF ok Suc.prems(3) [OF that]] .
      define it1 where "it1 = \<lparr>li_iter = (case vs' of [] \<Rightarrow> None | y # _ \<Rightarrow> Some y),
        li_prev = (if (case li_prev it of None \<Rightarrow> True | Some p \<Rightarrow>
            (RepUserKey (node_key s p) \<noteq> RepUserKey (node_key s x) \<and>
              (case transform of None \<Rightarrow> True
               | Some f \<Rightarrow> f (RepUserKey (node_key s p)) = f (RepUserKey (node_key s x)))))
          then Some x else li_prev it)\<rparr>"
      have L: "LookNext s transform it = Ok it1"
        using Suc.prems(2) Cons nk nx pk
        by (cases "li_prev it") (simp_all add: LookNext_def IterNodeKey_def it1_def Let_def)
      have q: "p \<in> set ((us @ [x]) @ vs')" if "li_prev it1 = Some p" for p
        using that Suc.prems(3) Cons by (auto simp: it1_def split: if_splits)
      have l: "skip_list cmp s ((us @ [x]) @ vs')" using Suc.prems(1) Cons by simp
      have i: "li_iter it1 = (case vs' of [] \<Rightarrow> None | y # _ \<Rightarrow> Some y)" by (simp add: it1_def)
      from Suc.IH [OF l i q] obtain found it' where
        "LookScan cmp s transform key n it1 = Ok (found, it')"
        "found \<longrightarrow> li_iter it' = find (\<lambda>x. cmp key (node_key s x) \<le> 0) vs'"
        "\<forall>p. li_prev it' = Some p \<longrightarrow> p \<in> set ((us @ [x]) @ vs')" by blast
      then show ?thesis using Suc.prems(2) Cons nk False L by auto
    qed
  qed
qed

text \<open>Behind a node that is not after the target, the first one not before it is the first of all.\<close>

lemma first_from:
  assumes lo: "list_order cmp" and sl: "skip_list cmp s (us @ p # vs)" and near: "0 \<le> cmp key (node_key s p)"
  shows "find (\<lambda>x. cmp key (node_key s x) \<le> 0) (p # vs) =
    (case from_key cmp s key (us @ p # vs) of [] \<Rightarrow> None | y # _ \<Rightarrow> Some y)"
proof -
  have c: "comparator cmp" using lo by (simp add: list_order_def)
  have "cmp (node_key s u) (node_key s p) < 0" if "u \<in> set us" for u
    using sl that by (auto simp: skip_list_def list_ok_def sorted_wrt_append)
  then have "cmp (node_key s u) key < 0" if "u \<in> set us" for u
    using that near comparator.less_le_trans [OF c] comparator.le_iff [OF c] by blast
  then have "from_key cmp s key (us @ p # vs) = dropWhile (\<lambda>x. cmp (node_key s x) key < 0) (p # vs)"
    unfolding from_key_def by (rule dropWhile_append2)
  moreover have "(\<lambda>x. cmp key (node_key s x) \<le> 0) = (\<lambda>x. \<not> cmp (node_key s x) key < 0)"
    using comparator.le_iff [OF c] by (auto simp: not_less)
  moreover have "find (\<lambda>x. \<not> P x) zs = (case dropWhile P zs of [] \<Rightarrow> None | y # _ \<Rightarrow> Some y)"
    for P :: "nat \<Rightarrow> bool" and zs by (induction zs) auto
  ultimately show ?thesis by metis
qed

text \<open>A seek that looks ahead finds what a seek from the head finds.\<close>

lemma LookSeek_eq:
  assumes lo: "list_order cmp" and sl: "skip_list cmp s xs"
    and p: "\<And>p. li_prev it = Some p \<Longrightarrow> p \<in> set xs"
  shows "\<exists>it'. LookSeek cmp s transform lookahead key it = Some (Ok it') \<and>
    IterSeek cmp s key = Some (Ok (li_iter it')) \<and> (\<forall>p. li_prev it' = Some p \<longrightarrow> p \<in> set xs)"
proof -
  have ok: "list_ok cmp s xs" using sl by (simp add: skip_list_def)
  let ?n = "case from_key cmp s key xs of [] \<Rightarrow> None | y # _ \<Rightarrow> Some y"
  have S: "IterSeek cmp s key = Some (Ok ?n)"
    unfolding IterSeek_def by (rule list_order.FindGreaterOrEqual_ok [OF lo sl])
  have in_list: "p \<in> set xs" if "?n = Some p" for p
  proof -
    have "p \<in> set (from_key cmp s key xs)" using that by (simp split: list.splits)
    then show ?thesis by (simp add: from_key_def set_dropWhileD)
  qed
  have far: ?thesis if "LookSeek cmp s transform lookahead key it =
      rbind (IterSeek cmp s key) (\<lambda>n. Some (Ok \<lparr>li_iter = n, li_prev = n\<rparr>))"
    using that S in_list by simp
  show ?thesis
  proof (cases "li_prev it")
    case None
    then show ?thesis by (intro far) (simp add: LookSeek_def)
  next
    case (Some p)
    then have nk: "NodeKey s p = Ok (node_key s p)" using NodeKey_list [OF ok p] by simp
    show ?thesis
    proof (cases "0 \<le> cmp key (node_key s p)")
      case False
      then show ?thesis using Some nk by (intro far) (simp add: LookSeek_def)
    next
      case near: True
      obtain us vs where xs: "xs = us @ p # vs" using p [OF Some] split_list by metis
      have sl': "skip_list cmp s (us @ p # vs)" using sl xs by simp
      obtain found it' where L: "LookScan cmp s transform key (lookahead + 1) (it\<lparr>li_iter := Some p\<rparr>) =
          Ok (found, it')"
        and f: "found \<Longrightarrow> li_iter it' = find (\<lambda>x. cmp key (node_key s x) \<le> 0) (p # vs)"
        and q: "\<And>p. li_prev it' = Some p \<Longrightarrow> p \<in> set xs"
        using LookScan_list [OF lo sl', of "it\<lparr>li_iter := Some p\<rparr>" transform key "lookahead + 1"]
          p xs by auto
      show ?thesis
      proof (cases found)
        case False
        then show ?thesis using Some nk near L by (intro far) (simp add: LookSeek_def)
      next
        case True
        have "li_iter it' = ?n" using f [OF True] first_from [OF lo sl' near] xs by simp
        then show ?thesis using True Some nk near L q S by (simp add: LookSeek_def)
      qed
    qed
  qed
qed

end
