(* ===== verification/Memtable_History.thy ===== *)
theory Memtable_History
  imports Memtable_Ops
begin

text \<open>
  A MemTable as the write path uses it: entries arrive with ascending sequence numbers, and a
  look-up answers with the last one of its key that the snapshot sees. And what becomes of a merge:
  its operand does not outlive the visit of its entry.
\<close>

section \<open>The entries added so far\<close>

text \<open>
  The states that a list of additions leads to, with the entries in the order of their arrival. The
  names of the arguments are those of \<open>MemAdd\<close>; \<open>mem0\<close> is what the untrusted memory held.
\<close>

inductive mem_added ::
    "malloc \<Rightarrow> openssl \<Rightarrow> bytes \<Rightarrow> (bytes \<Rightarrow> bytes \<Rightarrow> int) \<Rightarrow> MemTableOptions \<Rightarrow>
     MemTable \<Rightarrow> mem_entry list \<Rightarrow> bool"
  for malloc ssl mk ucmp opts where
  fresh: "mem_added malloc ssl mk ucmp opts (MakeMemTable garbage1 garbage2 cores mem0 latest_seq) []"
| added: "mem_added malloc ssl mk ucmp opts m hist \<Longrightarrow>
    ae_core env < length (ca_shards (mt_u_arena m)) \<Longrightarrow> block_below malloc (mt_u_arena m) \<Longrightarrow>
    key_fits key \<Longrightarrow> entry_fits key \<Longrightarrow> length value \<le> kMinBlockSize \<Longrightarrow> plain_type vtype \<Longrightarrow>
    0 < s \<Longrightarrow> s \<le> kMaxSequenceNumber \<Longrightarrow> \<forall>x\<in>set hist. me_seq x < s \<Longrightarrow>
    MemAdd malloc ssl mk ucmp opts env s vtype key value m = Some (Ok (res, m')) \<Longrightarrow>
    mem_added malloc ssl mk ucmp opts m'
      (hist @ [\<lparr>me_key = key, me_seq = s, me_type = vtype, me_value = value\<rparr>])"

text \<open>The last entry of a key up to a sequence number.\<close>

definition last_visible ::
    "(bytes \<Rightarrow> bytes \<Rightarrow> int) \<Rightarrow> bytes \<Rightarrow> SequenceNumber \<Rightarrow> mem_entry list \<Rightarrow> mem_entry option" where
  "last_visible ucmp key s hist = find (\<lambda>x. ucmp (me_key x) key = 0 \<and> me_seq x \<le> s) (rev hist)"

lemma MakeMemTable_inv:
  assumes "comparator ucmp"
  shows "mem_inv ucmp ssl mk (MakeMemTable garbage1 garbage2 cores mem0 latest_seq) [] []"
proof -
  have "list_state (KeyComparator ucmp) (MakeInlineSkipList 12 4 g) []" for g
    using MakeInlineSkipList_ok [of 12 "KeyComparator ucmp" 4 g]
    by (auto simp: list_state_def list_keys_def intro!: exI [of _ "[]"])
  then show ?thesis
    using u_arena_start [of cores]
    by (auto simp: mem_inv_def MakeMemTable_def table_holds_def)
qed

definition ascending :: "mem_entry list \<Rightarrow> bool" where
  "ascending hist \<longleftrightarrow> sorted_wrt (\<lambda>x y. me_seq x < me_seq y) hist"

lemma mem_added_inv:
  assumes "mem_added malloc ssl mk ucmp opts m hist"
    and c: "comparator ucmp" and ssl: "openssl_ok ssl" "length mk = 32" and ok: "malloc_ok [] malloc"
    and h: "mo_hint_extractor opts = None"
  shows "ascending hist \<and> (\<forall>x\<in>set hist. plain_type (me_type x)) \<and>
    (\<exists>es. mem_inv ucmp ssl mk m es [] \<and> set es = set hist)"
  using assms(1)
proof induction
  case fresh
  then show ?case using MakeMemTable_inv [OF c] by (auto simp: ascending_def)
next
  case (added m hist env key "value" vtype s res m')
  then obtain es where inv: "mem_inv ucmp ssl mk m es []" and es: "set es = set hist" by blast
  let ?e = "\<lparr>me_key = key, me_seq = s, me_type = vtype, me_value = value\<rparr>"
  have t: "vtype \<noteq> kTypeRangeDeletion" using added(7) by (auto simp: plain_type_def value_type_defs)
  have "s \<noteq> 0" using added(8) by simp
  from MemAdd_refines [OF c ssl ok inv h added(2-6,9) this refl, where t = vtype]
  have m': "mem_inv ucmp ssl mk m' (insert_entry ucmp ?e es) []"
    using added(11) t by auto
  have "\<not> has_entry ucmp key s es"
    using added(10) es by (fastforce simp: has_entry_def entry_cmp_def Let_def split: if_splits)
  then have "insert_entry ucmp ?e es = takeWhile (\<lambda>e'. entry_less ucmp e' key s) es @ ?e #
      dropWhile (\<lambda>e'. entry_less ucmp e' key s) es" by (simp add: insert_entry_def)
  moreover have "set (takeWhile P es) \<union> set (dropWhile P es) = set es" for P
    by (metis set_append takeWhile_dropWhile_id)
  ultimately have "set (insert_entry ucmp ?e es) = insert ?e (set hist)" using es by auto
  then show ?case
    using m' added by (auto simp: ascending_def sorted_wrt_append)
qed

text \<open>The first entry in the order of the table is the last one that arrived.\<close>

lemma visible_is_last:
  assumes c: "comparator ucmp" and so: "entries_sorted ucmp es" and asc: "ascending hist"
    and same: "set es = set hist"
  shows "visible_entry ucmp key s es = last_visible ucmp key s hist"
proof -
  let ?P = "\<lambda>x. ucmp (me_key x) key = 0 \<and> me_seq x \<le> s"
  show ?thesis
  proof (cases "find ?P es")
    case None
    then have "find ?P (rev hist) = None" using same by (simp add: find_None_iff)
    then show ?thesis using None by (simp add: visible_entry_def last_visible_def)
  next
    case (Some x)
    obtain us vs where es: "es = us @ x # vs" "\<forall>u\<in>set us. \<not> ?P u" and x: "?P x"
      using find_split [OF Some] find_in_set [OF Some] by blast
    have "find ?P (rev hist) \<noteq> None" using x es(1) same by (auto simp: find_None_iff)
    then obtain y where y: "find ?P (rev hist) = Some y" by blast
    obtain us' vs' where hist: "rev hist = us' @ y # vs'" "\<forall>u\<in>set us'. \<not> ?P u" and Py: "?P y"
      using find_split [OF y] find_in_set [OF y] by blast
    have "x \<in> set (us' @ y # vs')" unfolding hist(1) [symmetric] using es(1) same by auto
    then have xy: "x = y \<or> x \<in> set vs'" using hist(2) x by auto
    have "y \<in> set es" using same hist(1) by (metis in_set_conv_decomp set_rev)
    then have yx: "y = x \<or> y \<in> set vs" using es Py by auto
    have "x = y"
    proof (rule ccontr)
      assume "x \<noteq> y"
      then have "x \<in> set vs'" and "y \<in> set vs" using xy yx by auto
      have "rev (rev hist) = rev vs' @ y # rev us'" unfolding hist(1) by simp
      then have "hist = rev vs' @ y # rev us'" by simp
      with asc have "sorted_wrt (\<lambda>x y. me_seq x < me_seq y) (rev vs' @ y # rev us')"
        by (simp add: ascending_def)
      then have "me_seq x < me_seq y" using \<open>x \<in> set vs'\<close> by (simp add: sorted_wrt_append)
      moreover have "entry_cmp ucmp (me_key x) (me_seq x) (me_key y) (me_seq y) < 0"
        using so \<open>y \<in> set vs\<close> by (auto simp: entries_sorted_def es(1) sorted_wrt_append)
      moreover have "ucmp (me_key x) (me_key y) = 0"
      proof -
        have k: "ucmp (me_key x) key \<le> 0" "ucmp key (me_key y) \<le> 0" "ucmp (me_key y) key \<le> 0"
          "ucmp key (me_key x) \<le> 0"
          using x Py comparator.zero_sym [OF c, of "me_key x" key]
            comparator.zero_sym [OF c, of "me_key y" key] by simp_all
        show ?thesis
          using comparator.trans [OF c k(1,2)] comparator.trans [OF c k(3,4)]
            comparator.le_iff [OF c, of "me_key y"] by simp
      qed
      ultimately show False by (auto simp: entry_cmp_def Let_def split: if_splits)
    qed
    then show ?thesis using Some y by (simp add: visible_entry_def last_visible_def)
  qed
qed

text \<open>A look-up answers with the last entry of the key that the snapshot sees.\<close>

lemma MemGet_last:
  assumes c: "comparator (se_ucmp e)" and ssl: "openssl_ok (se_ssl e)" "length (se_memtable_key e) = 32"
    and ok: "malloc_ok [] malloc" "mo_hint_extractor opts = None"
    and m: "mem_added malloc (se_ssl e) (se_memtable_key e) (se_ucmp e) opts m hist"
    and key: "key_fits key" "s \<le> kMaxSequenceNumber" "se_key e = MakeLookupKey key s None"
    and e: "se_callback e = None" "se_do_merge e"
    and sv: "sv_status sv = StatusOK" "sv_value sv = Some v0"
  shows "\<exists>res sv'. MemGet e m ignore tombstone sv = Some (Ok (res, se_max_covering_tombstone_seq e, sv')) \<and>
    answers (last_visible (se_ucmp e) key s hist) (se_max_covering_tombstone_seq e) sv res sv'"
proof -
  obtain es where inv: "mem_inv (se_ucmp e) (se_ssl e) (se_memtable_key e) m es []"
    and es: "set es = set hist" and asc: "ascending hist" and t: "\<forall>x\<in>set hist. plain_type (me_type x)"
    using mem_added_inv [OF m c ssl ok] by blast
  obtain given where "table_holds (se_ucmp e) (se_ssl e) (se_memtable_key e) (mt_mem m) given (mt_table m) es"
    using inv by (auto simp: mem_inv_def)
  then have so: "entries_sorted (se_ucmp e) es" by (rule table_holds_sorted)
  have "\<forall>x\<in>set es. plain_type (me_type x)" using t es by simp
  from MemGet_refines [OF c ssl inv this key e sv, where ignore = ignore and tombstone = tombstone]
  show ?thesis using visible_is_last [OF c so asc es, of key s] by simp
qed

section \<open>Merges\<close>

text \<open>
  The visit of a merge leaves an operand behind that is gone when the next entry is looked at, and
  the merge with the value below it reads it.
\<close>

lemma SaveMerge_dangles:
  assumes "mo_merge_operator (se_opts e) = Some mg" and "\<not> mo_inplace_update_support (se_opts e)"
    and "\<not> mg_ShouldMerge mg (sv_operands sv @ [Some v])"
    and "LoadValue (se_ssl e) (se_memtable_key e) (se_mem e) data = Ok (v, False)"
  shows "SaveMerge e (EncodeVarint32 28 @ data) sv =
    Ok (True, sv\<lparr>sv_merge_in_progress := True, sv_operands := sv_operands sv @ [None]\<rparr>)"
  using assms by (simp add: SaveMerge_def PushOperand_def Let_def)

lemma SaveFound_dangling:
  assumes "mo_merge_operator (se_opts e) = Some mg" and "se_do_merge e" and "sv_merge_in_progress sv"
    and "sv_value sv = Some v0" and "None \<in> set (sv_operands sv)"
  shows "SaveFound e kTypeValue (EncodeVarint32 28 @ data) sv = Undef"
  using assms by (auto simp: SaveFound_def TimedFullMerge_def Let_def value_type_defs)

text \<open>The callback on a stored entry of the key that no tombstone covers.\<close>

lemma SaveValue_visit:
  assumes ssl: "openssl_ok (se_ssl e)" "length (se_memtable_key e) = 32"
    and st: "stored (se_ssl e) (se_memtable_key e) (se_mem e) given k x"
    and e: "se_callback e = None" "LookupUserKey (se_key e) = key"
    and x: "se_ucmp e (me_key x) key = 0" "se_max_covering_tombstone_seq e \<le> me_seq x"
  obtains data where "LoadValue (se_ssl e) (se_memtable_key e) (se_mem e) data = Ok (me_value x, False)"
    and "me_type x = kTypeValue \<Longrightarrow> SaveValue e k sv =
      SaveFound e kTypeValue (EncodeVarint32 28 @ data) (sv\<lparr>sv_seq := me_seq x\<rparr>)"
    and "me_type x = kTypeMerge \<Longrightarrow> SaveValue e k sv =
      SaveMerge e (EncodeVarint32 28 @ data) (sv\<lparr>sv_seq := me_seq x\<rparr>)"
proof -
  obtain p where k: "k = entry_of (se_ssl e) (se_memtable_key e) x p"
    and mem: "me_value x \<noteq> [] \<longrightarrow> p < 2 ^ 64 \<and> ReadMem (se_mem e) p (length (me_value x)) =
      cipher_of (se_ssl e) (se_memtable_key e) (me_value x)"
    and f: "key_fits (me_key x)" "me_seq x \<le> kMaxSequenceNumber" "length (me_value x) \<le> kMinBlockSize"
    using st by (auto simp: stored_def)
  let ?t = "evp_tag (se_ssl e) (se_memtable_key e) gcm_iv gcm_aad
    (cipher_of (se_ssl e) (se_memtable_key e) (me_value x))"
  have lt: "length ?t = 16" using ssl by simp
  note S = SaveValue_entry [OF f(1,2) lt e(2,1), where t = "me_type x" and p = "word_of_nat p"
      and n = "word_of_nat (length (me_value x))" and sv = sv, folded k]
  show thesis
    by (rule that [OF LoadValue_stored [OF ssl f(3) mem]])
      (use S x in \<open>auto simp: Let_def not_less value_type_defs\<close>)
qed

lemma MemGet_merge_dangles:
  assumes c: "comparator (se_ucmp e)" and ssl: "openssl_ok (se_ssl e)" "length (se_memtable_key e) = 32"
    and inv: "mem_inv (se_ucmp e) (se_ssl e) (se_memtable_key e) m es []"
    and d: "dropWhile (\<lambda>x. entry_less (se_ucmp e) x key s) es = x # y # zs"
    and x: "se_ucmp e (me_key x) key = 0" "me_type x = kTypeMerge" "se_max_covering_tombstone_seq e \<le> me_seq x"
    and y: "se_ucmp e (me_key y) key = 0" "me_type y = kTypeValue" "se_max_covering_tombstone_seq e \<le> me_seq y"
    and key: "key_fits key" "s \<le> kMaxSequenceNumber" "se_key e = MakeLookupKey key s None"
    and e: "se_callback e = None" "se_do_merge e" "\<not> mo_inplace_update_support (se_opts e)"
      "mo_merge_operator (se_opts e) = Some mg" "\<not> mg_ShouldMerge mg [Some (me_value x)]"
    and sv: "sv_status sv = StatusOK" "sv_value sv = Some v0" "sv_operands sv = []"
  shows "MemGet e m ignore tombstone sv = Some Undef"
proof -
  obtain given ks where ls: "list_state (KeyComparator (se_ucmp e)) (mt_table m) ks"
    and all: "list_all2 (stored (se_ssl e) (se_memtable_key e) (mt_mem m) given) ks es"
    using inv by (auto simp: mem_inv_def table_holds_def)
  define e' where "e' = e\<lparr>se_mem := mt_mem m\<rparr>"
  define sv0 where "sv0 = sv\<lparr>sv_found_final_value := False, sv_merge_in_progress := False,
    sv_seq := kMaxSequenceNumber\<rparr>"
  obtain k k' ks' where
    ks: "keys_from (KeyComparator (se_ucmp e)) (LookupMemtableKey (se_key e)) ks = k # k' # ks'"
    and kx: "stored (se_ssl e) (se_memtable_key e) (mt_mem m) given k x"
    and ky: "stored (se_ssl e) (se_memtable_key e) (mt_mem m) given k' y"
    using entries_from [OF all key(1,2), of "se_ucmp e"] unfolding d key(3) [symmetric]
    by (auto simp: list_all2_Cons2)
  have ef: "LookupUserKey (se_key e') = key" "se_callback e' = None" "se_ucmp e' = se_ucmp e"
    "se_max_covering_tombstone_seq e' = se_max_covering_tombstone_seq e" "se_opts e' = se_opts e"
    "se_do_merge e'" "se_ssl e' = se_ssl e" "se_memtable_key e' = se_memtable_key e" "se_mem e' = mt_mem m"
    using key e by (simp_all add: e'_def SliceAt_lookup)
  define sv1 where "sv1 = sv0\<lparr>sv_seq := me_seq x, sv_merge_in_progress := True, sv_operands := [None]\<rparr>"
  have first: "SaveValue e' k sv0 = Ok (True, sv1)"
    by (rule SaveValue_visit [of e' given k x key sv0]; unfold ef)
      (use ssl kx x e sv ef(2,6) SaveMerge_dangles [of e' mg "sv0\<lparr>sv_seq := me_seq x\<rparr>" "me_value x"] ef
        in \<open>auto simp: sv1_def sv0_def\<close>)
  have second: "SaveValue e' k' sv1 = Undef"
    by (rule SaveValue_visit [of e' given k' y key sv1]; unfold ef)
      (use ssl ky y e sv ef SaveFound_dangling [of e' mg "sv1\<lparr>sv_seq := me_seq y\<rparr>" v0]
        in \<open>auto simp: sv1_def sv0_def\<close>)
  have "\<not> MemIsEmpty m" and "mt_is_range_del_table_empty m"
    using inv d by (auto simp: mem_inv_def MemIsEmpty_def)
  then have "MemGet e m ignore tombstone sv =
      rbind (RepGet (se_ucmp e) (mt_table m) (se_key e) (SaveValue e') sv0) (\<lambda>sv.
        let sv = (if \<not> sv_found_final_value sv \<and> sv_merge_in_progress sv
                  then sv\<lparr>sv_status := MergeInProgress\<rparr> else sv)
        in Some (Ok (sv_found_final_value sv, se_max_covering_tombstone_seq e, sv)))"
    using sv by (simp add: MemGet_def GetFromTable_def e'_def sv0_def Let_def)
  then show ?thesis using RepGet_scan [OF c ls] ks first second by simp
qed

end
