(* ===== verification/Spec2Isabelle.thy ===== *)
theory Spec2Isabelle
  imports Coding Slices Internal_Key Filenames Enc_Dec Key_Lock Hash_Index Block_Builder
    Encrypted_Block Table_Format Block_Store Crc32c Log_Writer Log_Reader Version_Codec
    Version_Refinement Manifest_Invariant Memtable_History
begin

text \<open>
  A verification development for Tweezer, a fork of RocksDB 6.14.5 for SGX enclaves: the sorted files
  and the logs that leave the enclave are encrypted and authenticated. The sources are those under
  \<open>src/Docker/tweezer\<close>, in the configuration of its \<open>Makefile\<close>: \<open>BLOCK_ENC\<close>, \<open>LOG_ENC\<close>, \<open>MEMTABLE\<close> and
  \<open>CACHE\<close> are defined, assertions are off, the target is little-endian.

  The program's parts and the theories that model them, in the order of the imports:

    \<^item> \<open>Prelude\<close>: bytes, words, \<open>status\<close>, and the results of operations. An \<open>outcome\<close> is \<open>Ok\<close> of a
      value, \<open>Exit\<close> for a call of \<open>exit(-1)\<close>, or \<open>Undef\<close> for undefined behaviour (a read outside a
      buffer, for instance); a \<open>run\<close> is an optional outcome, where \<open>None\<close> is a loop that never ends.
    \<^item> \<open>Coding\<close> (\<open>util/coding.h\<close>, \<open>util/coding.cc\<close>, \<open>util/coding_lean.h\<close>), \<open>Slices\<close> (\<open>include/rocksdb/slice.h\<close>,
      \<open>util/comparator.cc\<close>), \<open>Internal_Key\<close> (\<open>db/dbformat.h\<close>, \<open>db/dbformat.cc\<close>, \<open>db/lookup_key.h\<close>),
      \<open>Filenames\<close> (\<open>file/filename.cc\<close>): the formats that everything else uses. A slice is the list of
      its bytes, a \<open>Slice *input\<close> that is consumed is returned with the rest.
    \<^item> \<open>Enc_Dec\<close> (\<open>sgx/enc_dec.cc\<close>, \<open>sgx/hmac.cc\<close>): the calls of OpenSSL and the list of the keys of the
      table files; \<open>Key_Lock\<close>: the threads at the lock of that list, as a step relation.
    \<^item> \<open>Hash_Index\<close> (\<open>data_block_hash_index.cc\<close>, \<open>data_block_footer.cc\<close>, \<open>util/hash.cc\<close>),
      \<open>Block_Builder\<close> (\<open>block_builder.cc\<close>) and \<open>Encrypted_Block\<close> (\<open>sgx/encryptedblock.cc\<close>, the part of
      \<open>block.h\<close> that it inherits): data blocks, written and read.
    \<^item> \<open>Table_Format\<close> (\<open>table/format.cc\<close>) and \<open>Block_Store\<close> (\<open>WriteRawBlock\<close> of
      \<open>block_based_table_builder.cc\<close>, \<open>block_fetcher.cc\<close>, \<open>file_prefetch_buffer.cc\<close>): blocks in files.
    \<^item> \<open>Crc_Tables\<close> and \<open>Crc32c\<close> (\<open>util/crc32c.cc\<close>), \<open>Log_Writer\<close> (\<open>db/log_writer.cc\<close>) and \<open>Log_Reader\<close>
      (\<open>db/log_reader.cc\<close>): the records of the write-ahead log and of the manifest.
    \<^item> \<open>Wal_Edit\<close> (\<open>db/wal_edit.cc\<close>), \<open>Blob_Edit\<close> (\<open>db/blob\<close>), \<open>Version_Edit\<close> (\<open>db/version_edit.h\<close>,
      \<open>db/version_edit.cc\<close>): what the records of the manifest say, among it the secrets of logs and the
      keys of table files; \<open>Version_Codec\<close> relates their encoding and decoding.
    \<^item> \<open>Version_Builder\<close> (\<open>db/version_builder.cc\<close>, the files of a version in \<open>db/version_set.cc\<close>): the
      application of edits to a version; \<open>Version_Refinement\<close> has its invariants and its specification.
    \<^item> \<open>Version_Set\<close> (\<open>db/version_set.h\<close>, \<open>db/column_family.cc\<close>): the counters, families and log secrets of the
      database; \<open>Manifest_Writer\<close> (\<open>ProcessManifestWrites\<close> of \<open>db/version_set.cc\<close>): committing edits;
      \<open>Manifest_Queue\<close> (\<open>LogAndApply\<close>): the calls that wait for each other, as a step relation;
      \<open>Manifest_Handler\<close> (\<open>db/version_edit_handler.cc\<close>): reading a manifest back (\<open>Recover\<close>).
    \<^item> On these: \<open>Manifest_Replay\<close> (what the reader makes of a manifest that the writer wrote, unit by
      unit), \<open>Manifest_Secrets\<close> (the keys and secrets it collects), \<open>Manifest_Spec\<close> (what a list of edits
      means, and that the handler implements it), \<open>Manifest_Snapshot\<close> (what the snapshot at the start of
      a manifest means), \<open>Manifest_Commit\<close> (from a commit to the recovery), \<open>Manifest_Invariant\<close> (the
      well-formedness of the version set).
    \<^item> \<open>Skip_List\<close> (\<open>memtable/inlineskiplist.h\<close>), \<open>Arena\<close> (\<open>memory/arena.cc\<close>, \<open>memory/untrusted_arena.cc\<close>,
      \<open>memory/untrusted_concurrent_arena.h\<close>) and \<open>Memtable\<close> (\<open>Add\<close> and \<open>Get\<close> of \<open>db/memtable.cc\<close>,
      \<open>memtable/skiplistrep.cc\<close>): the entries in the enclave, in a skip list, and their encrypted values
      outside of it. \<open>Memtable_Spec\<close> relates a table to the list of its entries, \<open>Memtable_Ops\<close> has its
      iterators, estimates and updates in place, \<open>Memtable_History\<close> the tables that additions lead to.

  OpenSSL is not part of the repository: it is the record \<open>openssl\<close> of functions that the definitions
  take as a parameter (the ciphertext, the plaintext and the tag of AES-256-GCM, the HMAC). Its
  documented behaviour is the hypothesis \<open>openssl_ok\<close>: decryption inverts encryption, both keep the
  length, tags have 16 bytes and digests 48. \<open>toy_openssl\<close> satisfies it and serves the witnesses; no
  theorem assumes that tags or digests cannot be forged. Other parameters stand for the answers of
  files (a list of statuses for the appends of a log, the short reads of a log file), for the
  decompression of blocks, for the contents of uninitialised memory, for \<open>malloc\<close> (blocks apart from
  those in use: \<open>malloc_ok\<close>), for the draws of random heights and for the user's comparator.

  What the lemmas show. Interfaces are locales, each interpreted on the code's own definitions: the
  byte codecs of \<open>Coding\<close>, the comparator contract of \<open>Slices\<close> (interpreted on the bytewise and the
  reverse bytewise orders, and through \<open>Internal_Key\<close> on the order of internal keys), the order of the
  files of a level (\<open>file_order\<close>, interpreted on the orders of level 0 and of the others), the order of a
  skip list (\<open>list_order\<close>, interpreted on the order of MemTable entries). The properties
  below are C1 to C40, each followed by a witness that applies it to concrete data where it has
  hypotheses. Round trips cover data blocks (C1), logs (C3), stored blocks (C6) and the formats;
  C7 and C10 say what a check of a digest guarantees (a log in the recyclable format cannot be read at
  all: \<open>recycled_log_unreadable\<close>, after C3); C4, C5, C8, C9, C11 to C13, C15, C16, C18, C19,
  C29 and C31 state behaviour of the code that its callers or comments do not expect; C20, C22 and C24
  state the contracts of orders, separators and the hash index; C32 and C30 relate optimised routines
  to reference definitions. C33 is the round trip of version edits; C34 and C35 are refinements, of the
  set of logs and of the version builder, and C36 is what the consistency check of versions gives.
  C37 to C40 are about the manifest as a whole: recovery implements the specification of edits, a
  commit survives (but not the keys and secrets before it), the version set stays well formed, and
  the calls of the queue return; C25 is how one failing call blocks all others.
  C14, C16, C21, C23, C26, C27 and C29 to C31 are about the MemTable: its skip list refines a sorted
  list (C26, C30), its arena hands out disjoint memory (C27), additions and look-ups refine those of a
  list of entries (C21, C23), so that a look-up gives the last visible entry (C14); where an addition
  leaves its buffer or ends the process (C16), what becomes of a merge operand (C29), and that values
  reach the table files with the encryption of the MemTable still on them (C31).

  Bounds: sizes are \<open>nat\<close> where the code uses \<open>size_t\<close> and no overflow is in reach, and words where the
  code uses 32 or 64 bits and wraps; C1 asks for blocks below 4 GB since the offsets of a data block
  have 32 bits. Fuel appears only in the drivers of the round trips: \<open>ReadRecords\<close> takes one unit per
  record and one for the end, \<open>EncReadFrom\<close> one per entry that it reads (C1 bounds their number).
  Internal keys are taken to have their 8 bytes of sequence number and type: on shorter ones the code
  reads out of bounds, where the comparators of the model have some result. The number of buckets of a
  hash index is taken to fit into 16 bits. A byte that is written behind the buffer of a MemTable entry
  counts as undefined even if the arena's block has room behind it.

  Not modelled: concurrent insertion, bloom filters and range tombstones of the MemTable, write
  batches, the scores and statistics of versions, compaction, caches, the table reader above the
  block fetcher, the database itself, utilities, tools and bindings; the manifest lists them with the
  reasons. The hardware variants of the CRC are chosen at run time and are not modelled.
\<close>

section \<open>The encrypted data block\<close>

text \<open>
  The block used by the witnesses: one entry, built and read with the toy cipher.
\<close>

definition sample_block :: enc_block where
  "sample_block =
     \<lparr>eb_ssl = toy_openssl, eb_key = replicate 32 7, eb_delta = True,
      eb_kvs = [([97, 1, 5, 0, 0, 0, 0, 0, 0], [104, 105])]\<rparr>"

lemma sample_block_ok: "enc_block_ok BytewiseCompare sample_block"
proof -
  have "block_entries BytewiseCompare (eb_kvs sample_block)"
    by (simp add: block_entries_def sample_block_def)
  moreover have "length (enc_data sample_block) < 100"
    by code_simp
  ultimately show ?thesis
    by (simp add: enc_block_ok_def enc_data_def) (simp add: sample_block_def)
qed

text \<open>
  C1: a data block that the builder makes of a non-empty list of internal keys in order and their
  values (below 4 GB), opened with the same key and without a global sequence number, and read from
  its first entry to its last, gives back all entries but the last, and then the last one once for
  every 20000 bytes that its value has begun. So it gives back exactly the list if the last value has
  between 1 and 20000 bytes, and only then: a last entry with an empty value (a deletion) is lost, one
  with a larger value is repeated.
\<close>

theorem encrypted_block_roundtrip:
  assumes "openssl_ok ssl" and "length key = 32" and "block_entries ucmp kvs" and "kvs \<noteq> []"
    and "length (data_block_of ssl key delta kvs) + 20000 < 2 ^ 32"
    and "length kvs + length (snd (last kvs)) \<le> n"
  shows "(\<exists>b b' data it.
    AddAll ssl (map (\<lambda>(k, v). (k, v, None)) kvs)
      (SetSSTKey key (NewBlockBuilder interval delta False t r True)) = Ok b \<and>
    Finish ssl b = Ok (data, b') \<and>
    EncNewDataIterator ssl ucmp data key kDisableGlobalSequenceNumber NewEncryptedIter = Ok it \<and>
    rbind (EncSeekToFirst it) (EncReadFrom ssl n) =
      Some (Ok (butlast kvs @ replicate ((length (snd (last kvs)) + 19999) div 20000) (last kvs)))) \<and>
   (butlast kvs @ replicate ((length (snd (last kvs)) + 19999) div 20000) (last kvs) = kvs \<longleftrightarrow>
      1 \<le> length (snd (last kvs)) \<and> length (snd (last kvs)) \<le> 20000)"
proof
  let ?B = "\<lparr>eb_ssl = ssl, eb_key = key, eb_delta = delta, eb_kvs = kvs\<rparr>"
  have B: "enc_block_ok ucmp ?B" using assms by (simp add: enc_block_ok_def)
  obtain b b' where b: "AddAll ssl (map (\<lambda>(k, v). (k, v, None)) kvs)
      (SetSSTKey key (NewBlockBuilder interval delta False t r True)) = Ok b"
    "Finish ssl b = Ok (enc_data ?B, b')"
    using build_data_block [OF assms(1,2)] by (fastforce simp: enc_data_def)
  obtain it where it: "EncNewDataIterator ssl ucmp (enc_data ?B) key kDisableGlobalSequenceNumber
      NewEncryptedIter = Ok it" "iter_over ?B kDisableGlobalSequenceNumber it"
    using NewDataIterator_opens [OF B] by auto
  have "length (read_back kvs) \<le> n" using assms(6) by (simp add: read_back_def last_count_def)
  then show "\<exists>b b' data it. AddAll ssl (map (\<lambda>(k, v). (k, v, None)) kvs)
        (SetSSTKey key (NewBlockBuilder interval delta False t r True)) = Ok b \<and>
      Finish ssl b = Ok (data, b') \<and>
      EncNewDataIterator ssl ucmp data key kDisableGlobalSequenceNumber NewEncryptedIter = Ok it \<and>
      rbind (EncSeekToFirst it) (EncReadFrom ssl n) =
        Some (Ok (butlast kvs @ replicate ((length (snd (last kvs)) + 19999) div 20000) (last kvs)))"
    using b it EncReadAll [OF B it(2), of n] by (auto simp: read_back_def last_count_def)
qed (use read_back_same_iff [OF assms(4)] in \<open>simp add: read_back_def last_count_def\<close>)

theorem encrypted_block_roundtrip_witness:
  "\<exists>b b' data it.
    AddAll toy_openssl (map (\<lambda>(k, v). (k, v, None)) (eb_kvs sample_block))
      (SetSSTKey (replicate 32 7) (NewBlockBuilder 16 True False kDataBlockBinarySearch 0 True)) = Ok b \<and>
    Finish toy_openssl b = Ok (data, b') \<and>
    EncNewDataIterator toy_openssl BytewiseCompare data (replicate 32 7) kDisableGlobalSequenceNumber
      NewEncryptedIter = Ok it \<and>
    rbind (EncSeekToFirst it) (EncReadFrom toy_openssl 5) = Some (Ok (eb_kvs sample_block))"
proof -
  have "length (eb_kvs sample_block) + length (snd (last (eb_kvs sample_block))) \<le> 5"
    "butlast (eb_kvs sample_block) @ replicate ((length (snd (last (eb_kvs sample_block))) + 19999) div 20000)
      (last (eb_kvs sample_block)) = eb_kvs sample_block"
    by (simp_all add: sample_block_def)
  then show ?thesis
    using encrypted_block_roundtrip [of toy_openssl "replicate 32 7" BytewiseCompare "eb_kvs sample_block" True 5
        16 kDataBlockBinarySearch 0] sample_block_ok
    by (simp add: enc_block_ok_def) (simp add: sample_block_def)
qed

text \<open>
  C2: a seek in a built block that is opened without a global sequence number, in any order of internal
  keys: the iterator stands on the first entry that is not before the target, with its key and the value
  that was added, and is invalid if there is none. The one exception is a last entry with an empty value,
  on which the iterator is invalid too.
\<close>

theorem encrypted_block_seek:
  assumes "enc_block_ok ucmp B" and "comparator (InternalCompare ucmp)"
    and "j = length (takeWhile (\<lambda>kv. InternalCompare ucmp (fst kv) target < 0) (eb_kvs B))"
  shows "\<exists>it it'.
    EncNewDataIterator (eb_ssl B) ucmp (enc_data B) (eb_key B)
      kDisableGlobalSequenceNumber NewEncryptedIter = Ok it \<and>
    EncSeek ucmp target it = Some (Ok it') \<and>
    (EncValid it' \<longleftrightarrow> j < length (eb_kvs B) \<and> (Suc j < length (eb_kvs B) \<or> snd (eb_kvs B ! j) \<noteq> [])) \<and>
    (EncValid it' \<longrightarrow> exposed_key it' = fst (eb_kvs B ! j) \<and>
      (\<exists>it''. EncValue (eb_ssl B) it' = Ok (snd (eb_kvs B ! j), it'')))"
proof -
  have f: "first_at_least ucmp B target = j" using assms(3) by (simp add: first_at_least_def)
  obtain it where it: "EncNewDataIterator (eb_ssl B) ucmp (enc_data B) (eb_key B)
      kDisableGlobalSequenceNumber NewEncryptedIter = Ok it" "iter_over B kDisableGlobalSequenceNumber it"
    using NewDataIterator_opens [OF assms(1)] by blast
  obtain it1 where it1: "EncSeekImpl ucmp target it = Some (Ok it1)"
    "iter_over B kDisableGlobalSequenceNumber it1"
    "if j < length (eb_kvs B) then iter_at B j it1 else \<not> EncValid it1"
    using EncSeekImpl_finds [OF assms(1,2) it(2), of target] f by auto
  have s: "EncSeek ucmp target it = Some (Ok (EncUpdateKey it1))"
    using it1(1) by (simp add: EncSeek_def exposing_def)
  show ?thesis
  proof (cases "j < length (eb_kvs B)")
    case True
    then have at: "iter_at B j it1" using it1(3) by simp
    note u = EncUpdateKey_keeps [OF it1(2) at]
    show ?thesis using it(1) s EncValid_at [OF assms(1) u(1,2)] EncValue_at [OF assms(1) u(1,2)] u(3) True by blast
  next
    case False
    then show ?thesis using it(1) s it1(3) by (auto simp: EncUpdateKey_def)
  qed
qed

theorem encrypted_block_seek_witness:
  "\<exists>it it' it''.
    EncNewDataIterator (eb_ssl sample_block) BytewiseCompare (enc_data sample_block)
      (eb_key sample_block) kDisableGlobalSequenceNumber NewEncryptedIter = Ok it \<and>
    EncSeek BytewiseCompare [97, 20, 9, 0, 0, 0, 0, 0, 0] it = Some (Ok it') \<and> EncValid it' \<and>
    exposed_key it' = fst (eb_kvs sample_block ! 0) \<and>
    EncValue (eb_ssl sample_block) it' = Ok (snd (eb_kvs sample_block ! 0), it'')"
proof -
  have "0 = length (takeWhile (\<lambda>kv. InternalCompare BytewiseCompare (fst kv) [97, 20, 9, 0, 0, 0, 0, 0, 0] < 0)
      (eb_kvs sample_block))"
    by code_simp
  from encrypted_block_seek [OF sample_block_ok ibytewise.comparator_axioms this] show ?thesis
    by (fastforce simp: sample_block_def)
qed

section \<open>The log\<close>

definition sample_records :: "bytes list" where
  "sample_records = [[1, 2], replicate 40000 3, []]"

definition sample_writer :: Writer where
  "sample_writer =
     \<lparr>dest = [], dest_io = [], block_offset = 0, w_log_number = 4, recycle_log_files = False,
      manual_flush = False, w_unique_key = replicate 32 9, w_previous_mac = replicate 16 1\<rparr>"

text \<open>
  C3: every list of records that a new log writer is given comes back, record by record and without
  a report, from a reader that has the writer's secret, in every recovery mode; then the reader is
  at the end. Neither side runs into undefined behaviour or the end of the process. This is for logs
  in the ordinary format, which the code uses unless \<open>recycle_log_file_num\<close> is set; the logs of the
  other format cannot be read (\<open>recycled_log_unreadable\<close> below).
\<close>

theorem log_roundtrip:
  assumes "openssl_ok ssl" and "length key = 32" and "length mac = 16"
    and "length garbage = kBlockSize"
    and "NewWriter n False manual False mk mh (1, mac) (1, key) = Ok w"
  shows "\<exists>w' r. AddRecords ssl rs w = Ok (StatusOK, w') \<and>
    ReadRecords ssl mode (Suc (length rs))
      (SetSecret (key, mac) (NewReader (dest w') garbage check n False mk mh secret)) =
      Some (Ok (rs, r)) \<and> reports r = []"
proof -
  note w = NewWriter_ok [OF assms(5,3,2)]
  obtain fss w' where w': "AddRecords ssl rs w = Ok (StatusOK, w')" "frags_of rs fss"
    "frags_fit 0 (concat fss)" "dest w' = encode_log ssl key 0 mac (concat fss)"
    using AddRecords_spec [OF assms(1) w(1), of rs] w(2-5) by auto
  then show ?thesis using ReadRecords_written [OF assms(1-4) w'(3,2)] by simp
qed

theorem log_roundtrip_witness:
  "\<exists>w' r. AddRecords toy_openssl sample_records sample_writer = Ok (StatusOK, w') \<and>
    ReadRecords toy_openssl kAbsoluteConsistency (Suc (length sample_records))
      (SetSecret (replicate 32 9, replicate 16 1)
        (NewReader (dest w') (replicate kBlockSize 0) True 4 False [] [] ([], []))) =
      Some (Ok (sample_records, r)) \<and> reports r = []"
  by (rule log_roundtrip [where manual = False])
    (simp_all add: sample_writer_def NewWriter_def GenerateRandomBytes_def)

text \<open>
  A log in the recyclable format, which is what new logs are when \<open>recycle_log_file_num\<close> is set, ends
  the process that reads it: the reader takes the first fragment and its GMAC four bytes too early,
  because it decrypts them before it looks at the type of the record, on which the size of the header
  depends. What it compares are then bytes of the ciphertext with a GMAC of other bytes. (A cipher in
  counter mode decrypts a prefix to a prefix.)
\<close>

theorem recycled_log_unreadable:
  assumes "openssl_ok ssl" and "length key = 32" and "length mac = 16" and "length garbage = kBlockSize"
    and "\<forall>c m. evp_decrypt ssl key gcm_iv gcm_aad (take m c) = take m (evp_decrypt ssl key gcm_iv gcm_aad c)"
    and "NewWriter n True manual False mk mh (1, mac) (1, key) = Ok w" and "length p + 27 \<le> kBlockSize"
    and "AddRecord ssl p w = Ok (s, w')"
    and "take 16 (drop (7 + length p) (dest w')) \<noteq> evp_tag ssl key gcm_iv mac (take (length p) (drop 7 (dest w')))"
  shows "s = StatusOK \<and>
    ReadRecord ssl mode (SetSecret (key, mac) (NewReader (dest w') garbage check n False mk mh secret)) = Some Exit"
proof -
  have w: "recycle_log_files w" "dest_io w = []" "block_offset w = 0" "w_unique_key w = key"
    "w_previous_mac w = mac" "dest w = []"
    using assms(6) by (auto simp: NewWriter_def GenerateRandomBytes_def Let_def)
  note add = AddRecord_recyclable [OF assms(1) w(1-3), unfolded w(4-6), OF assms(2,3,7)]
  have "s = StatusOK" and d: "dest w' = evp_encrypt ssl key gcm_iv gcm_aad
      (record_header kRecyclableFullType (w_log_number w) p) @ evp_encrypt ssl key gcm_iv mac p @
      evp_tag ssl key gcm_iv mac (evp_encrypt ssl key gcm_iv mac p)"
    using add assms(8) by auto
  then show ?thesis
    using recycled_record_rejected [OF assms(1-4) _ d assms(7) _ _ assms(9)] assms(1,5) by simp
qed

theorem recycled_log_unreadable_witness:
  "\<exists>w'. AddRecord toy_openssl [1, 2, 3] (sample_writer\<lparr>recycle_log_files := True\<rparr>) = Ok (StatusOK, w') \<and>
    ReadRecord toy_openssl kAbsoluteConsistency (SetSecret (replicate 32 9, replicate 16 1)
      (NewReader (dest w') (replicate kBlockSize 0) True 4 False [] [] ([], []))) = Some Exit"
proof -
  let ?w = "sample_writer\<lparr>recycle_log_files := True\<rparr>"
  obtain w' where w': "AddRecord toy_openssl [1, 2, 3] ?w = Ok (StatusOK, w')"
    "dest w' = evp_encrypt toy_openssl (replicate 32 9) gcm_iv gcm_aad (record_header kRecyclableFullType 4 [1, 2, 3]) @
      evp_encrypt toy_openssl (replicate 32 9) gcm_iv (replicate 16 1) [1, 2, 3] @
      evp_tag toy_openssl (replicate 32 9) gcm_iv (replicate 16 1)
        (evp_encrypt toy_openssl (replicate 32 9) gcm_iv (replicate 16 1) [1, 2, 3])"
    using AddRecord_recyclable [of toy_openssl ?w "[1, 2, 3]"] by (auto simp: sample_writer_def kBlockSize_def)
  obtain crc where h: "record_header kRecyclableFullType 4 [1, 2, 3] =
      EncodeFixed32 crc @ [3, 0, kRecyclableFullType, 4, 0, 0, 0]"
    by (simp add: record_header_def Let_def EncodeFixed32_def)
  have "hd (take 16 (drop 10 (dest w'))) \<noteq>
      hd (evp_tag toy_openssl (replicate 32 9) gcm_iv (replicate 16 1) (take 3 (drop 7 (dest w'))))"
    unfolding w'(2) h by (simp add: toy_openssl_def)
  then have differ: "take 16 (drop 10 (dest w')) \<noteq>
      evp_tag toy_openssl (replicate 32 9) gcm_iv (replicate 16 1) (take 3 (drop 7 (dest w')))"
    by metis
  have "NewWriter 4 True False False [] [] (1, replicate 16 1) (1, replicate 32 9) = Ok ?w"
    by (simp add: sample_writer_def NewWriter_def GenerateRandomBytes_def)
  moreover have "\<forall>c m. evp_decrypt toy_openssl (replicate 32 9) gcm_iv gcm_aad (take m c) =
      take m (evp_decrypt toy_openssl (replicate 32 9) gcm_iv gcm_aad c)"
    by (simp add: toy_openssl_def take_map)
  ultimately show ?thesis
    using recycled_log_unreadable [of toy_openssl "replicate 32 9" "replicate 16 1" "replicate kBlockSize 0"
        4 False "[]" "[]" ?w "[1, 2, 3]" StatusOK w' kAbsoluteConsistency True "([], [])"] w'(1) differ
    by (simp add: kBlockSize_def numeral_3_eq_3)
qed

text \<open>
  C4: a log is accepted wherever it ends between two records: the file as it was before the last
  records were added is a prefix of the file after, and reads as a complete log of the earlier
  records, without a report. The chain of GMACs protects the order of the records, not the end of
  the log.
\<close>

theorem log_prefix_accepted:
  assumes "openssl_ok ssl" and "length key = 32" and "length mac = 16"
    and "length garbage = kBlockSize"
    and "NewWriter n False manual False mk mh (1, mac) (1, key) = Ok w"
  shows "\<exists>w1 w2 rest r. AddRecords ssl rs w = Ok (StatusOK, w1) \<and>
    AddRecords ssl (rs @ later) w = Ok (StatusOK, w2) \<and> dest w2 = dest w1 @ rest \<and>
    ReadRecords ssl kAbsoluteConsistency (Suc (length rs))
      (SetSecret (key, mac) (NewReader (dest w1) garbage True n False mk mh secret)) =
      Some (Ok (rs, r)) \<and> reports r = []"
proof -
  note w = NewWriter_ok [OF assms(5,3,2)]
  obtain fss w1 where w1: "AddRecords ssl rs w = Ok (StatusOK, w1)" "writer_ok w1" "frags_of rs fss"
    "frags_fit 0 (concat fss)" "dest w1 = encode_log ssl key 0 mac (concat fss)"
    using AddRecords_spec [OF assms(1) w(1), of rs] w(2-5) by auto
  obtain w2 rest where "AddRecords ssl later w1 = Ok (StatusOK, w2)" "dest w2 = dest w1 @ rest"
    using AddRecords_spec [OF assms(1) w1(2), of later] by auto
  then have "AddRecords ssl (rs @ later) w = Ok (StatusOK, w2)" "dest w2 = dest w1 @ rest"
    using w1(1) by (simp_all add: AddRecords_append)
  then show ?thesis using w1 ReadRecords_written [OF assms(1-4) w1(4,3)] by auto
qed

theorem log_prefix_accepted_witness:
  "\<exists>w1 w2 rest r. AddRecords toy_openssl sample_records sample_writer = Ok (StatusOK, w1) \<and>
    AddRecords toy_openssl (sample_records @ [[3]]) sample_writer = Ok (StatusOK, w2) \<and>
    dest w2 = dest w1 @ rest \<and>
    ReadRecords toy_openssl kAbsoluteConsistency (Suc (length sample_records))
      (SetSecret (replicate 32 9, replicate 16 1)
        (NewReader (dest w1) (replicate kBlockSize 0) True 4 False [] [] ([], []))) =
      Some (Ok (sample_records, r)) \<and> reports r = []"
  by (rule log_prefix_accepted [where manual = False])
    (simp_all add: sample_writer_def NewWriter_def GenerateRandomBytes_def)

text \<open>
  C5: a fragment whose GMAC does not match, or whose length field points outside the reader's
  buffer, never becomes a record and is never skipped: the read ends the process, or is undefined,
  in every recovery mode, although the code below has error codes for truncated and damaged
  records.
\<close>

theorem log_damage_ends_process:
  assumes "openssl_ok ssl" and "length (r_unique_key r) = 32"
    and "kHeaderSize + 16 \<le> buf_len r" and "buf_pos r + buf_len r \<le> length (backing_store r)"
    and "len = header_length ssl (r_unique_key r) (take 7 (drop (buf_pos r) (backing_store r)))"
    and "take 16 (drop (buf_pos r + 7 + len) (backing_store r)) \<noteq>
      evp_tag ssl (r_unique_key r) gcm_iv (take 16 (r_previous_mac r))
        (take len (drop (buf_pos r + 7) (backing_store r)))"
  shows "ReadRecord ssl mode r =
    Some (if length (backing_store r) < buf_pos r + 7 + len + 16 then Undef else Exit)"
proof -
  have h: "buf_pos r + 7 \<le> length (backing_store r)" using assms(3,4) by (simp add: kHeaderSize_def)
  note p = ParsePhysical_rejects [OF assms(1,2) h assms(5)] and q = ReadRecord_parse [OF assms(3)]
  show ?thesis using p assms(6) q by (auto simp: not_less)
qed

definition sample_reader :: Reader where
  "sample_reader =
     (NewReader [] (replicate 40 0) True 1 False [] [] (replicate 32 9, replicate 16 1))
       \<lparr>backing_store := [9, 9, 9, 9, 11, 9, 10, 5, 5] @ replicate 31 2, buf_len := 25\<rparr>"

theorem log_damage_ends_process_witness:
  "ReadRecord toy_openssl kSkipAnyCorruptedRecords sample_reader =
    Some (if length (backing_store sample_reader) < buf_pos sample_reader + 7 + 2 + 16
      then Undef else Exit)"
proof (rule log_damage_ends_process)
  show "2 = header_length toy_openssl (r_unique_key sample_reader)
      (take 7 (drop (buf_pos sample_reader) (backing_store sample_reader)))"
    by code_simp
  show "take 16 (drop (buf_pos sample_reader + 7 + 2) (backing_store sample_reader)) \<noteq>
      evp_tag toy_openssl (r_unique_key sample_reader) gcm_iv (take 16 (r_previous_mac sample_reader))
        (take 2 (drop (buf_pos sample_reader + 7) (backing_store sample_reader)))"
    by code_simp
qed (simp_all add: sample_reader_def NewReader_def kHeaderSize_def)

section \<open>Blocks in a table file\<close>

text \<open>
  C6: a block that is not a data block, written by \<open>WriteRawBlock\<close> and read back with its handle and
  the key of the table, has the contents that were written, decompressed when the trailer's type
  byte says so, whatever is later appended to the file.
\<close>

theorem stored_block_roundtrip:
  assumes "openssl_ok ssl" and "length (rep_sst_key r) = 32" and "length junk = 4"
    and "ar_contents io = StatusOK" and "ar_trailer io = StatusOK" and "ar_pad io = StatusOK"
    and "rep_offset r = word_of_nat (length (rep_file r))"
    and "length (rep_file r) + length c + 53 < 2 ^ 64"
    and "fe_prepare env = StatusOK" and "fe_read env = StatusOK"
  shows "\<exists>h r'. WriteRawBlock ssl io StatusOK junk c t False r = Ok (h, r') \<and>
    (\<forall>more. ReadBlockContents ssl (rep_sst_key r) True True (env\<lparr>fe_file := rep_file r' @ more\<rparr>) h None =
      (if t = 0 then Ok (StatusOK, c, None)
       else (case fe_uncompress env t c of
               None \<Rightarrow> Ok (Corruption, [], None)
             | Some raw \<Rightarrow> Ok (StatusOK, raw, None))))"
proof -
  let ?key = "rep_sst_key r"
  define stored where "stored = evp_encrypt ssl ?key gcm_iv gcm_aad c @
      hmac_sha3_384 ssl ?key (evp_encrypt ssl ?key gcm_iv gcm_aad c)"
  have st: "StoredContents ssl ?key c False = Ok stored"
    using StoredContents_ok [OF assms(2,1)] by (simp add: stored_def)
  have len: "length stored = length c + 48" using assms(1) by (simp add: stored_def)
  let ?h = "\<lparr>bh_offset = word_of_nat (length (rep_file r)), bh_size = word_of_nat (length stored)\<rparr>"
  obtain r' pad where r': "WriteRawBlock ssl io StatusOK junk c t False r = Ok (?h, r')"
    "rep_file r' = rep_file r @ stored @ t # take 4 junk @ replicate pad 0"
    using WriteRawBlock_appends [OF st assms(4-6)] assms(7) by metis
  have "ReadBlockContents ssl ?key True True (env\<lparr>fe_file := rep_file r' @ more\<rparr>) ?h None =
      (if t = 0 then Ok (StatusOK, c, None)
       else (case fe_uncompress env t c of
               None \<Rightarrow> Ok (Corruption, [], None)
             | Some raw \<Rightarrow> Ok (StatusOK, raw, None)))" for more
    using ReadBlockContents_stored [OF assms(1,2,3) _ _ st, of "env\<lparr>fe_file := rep_file r' @ more\<rparr>"
        "rep_file r" t "replicate pad 0 @ more" ?h True] assms(3,8-10) len r'(2)
    by simp
  then show ?thesis using r'(1) by blast
qed

definition sample_rep :: TableRep where
  "sample_rep =
     \<lparr>rep_file = [1, 2, 3], rep_offset = 3, rep_status = StatusOK, rep_io_status = StatusOK,
      rep_sst_key = replicate 32 7, rep_alignment = 4096, rep_block_align = False\<rparr>"

definition sample_env :: fetch_env where
  "sample_env =
     \<lparr>fe_file = [], fe_prepare = StatusOK, fe_read = StatusOK, fe_alignment = 1,
      fe_for_compaction = False, fe_uncompress = (\<lambda>t c. if t = 4 then Some (c @ c) else None)\<rparr>"

definition sample_io :: append_results where
  "sample_io = \<lparr>ar_contents = StatusOK, ar_trailer = StatusOK, ar_pad = StatusOK\<rparr>"

lemmas sample_store_defs = sample_rep_def sample_env_def sample_io_def

theorem stored_block_roundtrip_witness:
  "\<exists>h r'. WriteRawBlock toy_openssl sample_io StatusOK [8, 8, 8, 8] [65, 66] 4 False sample_rep =
      Ok (h, r') \<and>
    (\<forall>more. ReadBlockContents toy_openssl (rep_sst_key sample_rep) True True
        (sample_env\<lparr>fe_file := rep_file r' @ more\<rparr>) h None =
      (if (4 :: byte) = 0 then Ok (StatusOK, [65, 66], None)
       else (case fe_uncompress sample_env 4 [65, 66] of
               None \<Rightarrow> Ok (Corruption, [], None)
             | Some raw \<Rightarrow> Ok (StatusOK, raw, None))))"
  by (rule stored_block_roundtrip) (simp_all add: sample_store_defs)

text \<open>
  C7: what an OK status of a read says of the contents, for every block, with and without decompression
  and a prefetch buffer. When the block is to be decrypted (every block but a data block), the digest of
  its ciphertext under the key of the table is the one stored behind it in the slice that was read, and
  the contents are its plaintext, decompressed if that is asked for. When it is not (a data block, whose
  values have digests of their own, C10), the contents are the bytes of the slice and nothing has been
  checked. Any other bytes end the process or give no OK status.
\<close>

theorem stored_block_checked:
  assumes "openssl_ok ssl"
    and "ReadBlockContents ssl key decrypt do_uncompress env h pb = Ok (StatusOK, c, pb')"
  shows "\<exists>raw plain. raw = fetched_slice env h pb \<and> unat (bh_size h) < length raw \<and>
    (pb = None \<longrightarrow> length raw = unat (bh_size h) + 5) \<and>
    (if decrypt then
       (\<exists>n. n + 48 = unat (bh_size h) \<and>
         hmac_sha3_384 ssl (take 32 key) (take n raw) = take 48 (drop (length raw - 53) raw) \<and>
         plain = evp_decrypt ssl (take 32 key) gcm_iv gcm_aad (take n raw))
     else plain = take (unat (bh_size h)) raw) \<and>
    uncompressed do_uncompress env (raw ! unat (bh_size h)) plain = Some c"
proof -
  let ?n = "unat (bh_size h)" and ?raw = "fetched_slice env h pb"
  obtain sl where sl: "if decrypt then VerifyAndDecrypt ssl key ?n ?raw = Ok sl else sl = ?raw"
    "FinishFetch decrypt do_uncompress env h sl = Ok (StatusOK, c)"
    "pb = None \<longrightarrow> length sl = unat (block_size h)"
    using ReadBlockContents_finished [OF assms(2)] by blast
  note f = FinishFetch_OK [OF sl(2)]
  have v: "48 \<le> ?n \<and> hmac_sha3_384 ssl (take 32 key) (take (?n - 48) ?raw) = take 48 (drop (length ?raw - 53) ?raw) \<and>
      sl = evp_decrypt ssl (take 32 key) gcm_iv gcm_aad (take (?n - 48) ?raw) @ drop (?n - 48) ?raw"
    if decrypt
    using VerifyAndDecrypt_checked [of ssl key ?n ?raw sl] sl(1) that by auto
  have len: "length sl = length ?raw" "sl ! ?n = ?raw ! ?n"
    using v f(1) sl(1) assms(1) by (cases decrypt; auto simp: nth_append)+
  have trailer: "length ?raw = ?n + 5" if "pb = None"
    using block_size_no_wrap [of h] sl(3) f(1) that len(1) by simp
  show ?thesis
    using f v len trailer sl(1) assms(1)
    by (intro exI [of _ ?raw] exI [of _ "take (if decrypt then ?n - 48 else ?n) sl"])
      (auto intro!: exI [of _ "?n - 48"] split: if_split_asm)
qed

definition sample_fetch :: fetch_env where
  "sample_fetch = sample_env\<lparr>fe_file := [72] @ (72 # replicate 47 0) @ [0, 0, 0, 0, 0]\<rparr>"

definition sample_handle :: BlockHandle where
  "sample_handle = \<lparr>bh_offset = 0, bh_size = 49\<rparr>"

theorem stored_block_checked_witness:
  "\<exists>raw plain. raw = fetched_slice sample_fetch sample_handle None \<and>
    unat (bh_size sample_handle) < length raw \<and> length raw = unat (bh_size sample_handle) + 5 \<and>
    (\<exists>n. n + 48 = unat (bh_size sample_handle) \<and>
      hmac_sha3_384 toy_openssl (take 32 (replicate 32 7)) (take n raw) = take 48 (drop (length raw - 53) raw) \<and>
      plain = evp_decrypt toy_openssl (take 32 (replicate 32 7)) gcm_iv gcm_aad (take n raw)) \<and>
    uncompressed False sample_fetch (raw ! unat (bh_size sample_handle)) plain = Some [65]"
proof -
  have "ReadBlockContents toy_openssl (replicate 32 7) True False sample_fetch sample_handle None =
      Ok (StatusOK, [65], None)"
    by code_simp
  from stored_block_checked [OF toy_openssl_ok this] show ?thesis by (simp only: if_True simp_thms)
qed

text \<open>
  C8: when the read from the file fails, its error status is not returned: the unset slice is
  checked and decrypted first, which is undefined.
\<close>

theorem failed_read_undefined:
  assumes "fe_prepare env = StatusOK" and "fe_read env \<noteq> StatusOK"
  shows "ReadBlockContents ssl key True do_uncompress env h None = Undef"
  using ReadFromFile_failed_read [OF assms]
  by (simp add: ReadBlockContents_def TryGetFromPrefetchBuffer_def)

theorem failed_read_undefined_witness:
  "ReadBlockContents toy_openssl (replicate 32 7) True True (sample_env\<lparr>fe_read := IOError\<rparr>)
    sample_handle None = Undef"
  by (rule failed_read_undefined) (simp_all add: sample_env_def)

text \<open>
  C9: a block that is found in the prefetch buffer is decrypted there, so a second read of it from
  the same buffer takes the plaintext for the ciphertext and ends the process, unless the digest of
  the plaintext is the stored one.
\<close>

theorem prefetched_block_read_twice:
  assumes "pb_enable pb" and "pb_offset pb \<le> unat (bh_offset h)"
    and "unat (bh_offset h) + unat (block_size h) \<le> pb_offset pb + length (pb_data pb)"
    and "fe_prepare env = StatusOK" and "unat (bh_size h) < 2 ^ 64 - 5" and "openssl_ok ssl"
    and "TryGetFromPrefetchBuffer ssl key True env h (Some pb) = Ok (Some sl, pb')"
    and "hmac_sha3_384 ssl (take 32 key) (take (unat (bh_size h) - 48) sl) \<noteq>
      take 48 (drop (length sl - 53) sl)"
  shows "ReadBlockContents ssl key True do_uncompress env h pb' = Exit"
  using prefetch_second_read [OF assms] by (simp add: ReadBlockContents_def)

definition sample_prefetch :: FilePrefetchBuffer where
  "sample_prefetch =
     \<lparr>pb_offset = 0, pb_data = fe_file sample_fetch, pb_enable = True, pb_readahead_size = 0,
      pb_max_readahead_size = 0\<rparr>"

theorem prefetched_block_read_twice_witness:
  "ReadBlockContents toy_openssl (replicate 32 7) True True sample_fetch sample_handle
    (Some (sample_prefetch\<lparr>pb_data := [65] @ (72 # replicate 47 0) @ [0, 0, 0, 0, 0]\<rparr>)) = Exit"
proof (rule prefetched_block_read_twice)
  show "TryGetFromPrefetchBuffer toy_openssl (replicate 32 7) True sample_fetch sample_handle
      (Some sample_prefetch) = Ok (Some ([65] @ (72 # replicate 47 0) @ [0, 0, 0, 0, 0]),
        Some (sample_prefetch\<lparr>pb_data := [65] @ (72 # replicate 47 0) @ [0, 0, 0, 0, 0]\<rparr>))"
    by code_simp
  show "hmac_sha3_384 toy_openssl (take 32 (replicate 32 7))
      (take (unat (bh_size sample_handle) - 48) ([65] @ (72 # replicate 47 0) @ [0, 0, 0, 0, 0])) \<noteq>
      take 48 (drop (length (([65] :: bytes) @ (72 # replicate 47 0) @ [0, 0, 0, 0, 0]) - 53)
        ([65] @ (72 # replicate 47 0) @ [0, 0, 0, 0, 0]))"
    by code_simp
qed (simp_all add: sample_prefetch_def sample_fetch_def sample_env_def sample_handle_def
    block_size_def kBlockTrailerSize_def)

section \<open>Values of data blocks\<close>

text \<open>
  C10: a value of a data block is only returned when the block holds, behind the ciphertext that
  the iterator's entry describes, the HMAC of the exposed key and this ciphertext under the key of
  the table; the value is its decryption. Otherwise the process ends (or the entry leaves the
  block).
\<close>

theorem value_authentic:
  assumes "EncValue ssl it = Ok (v, it')" and "value_dirty it"
  shows "\<exists>e data ct. map_entry it (current_index it) = Ok e \<and> data_ptr it = Some data \<and>
    ct = take (unat (oe_size e)) (drop (unat (oe_offset e)) data) \<and>
    hmac_sha3_384 ssl (take 32 (iter_sst_key it)) (exposed_key it @ ct) =
      take 48 (drop (unat (oe_offset e) + length ct) data) \<and>
    v = evp_decrypt ssl (take 32 (iter_sst_key it)) gcm_iv gcm_aad ct"
proof -
  have "Updatevalue ssl it = Ok it'" and "v = cur_value it'"
    using assms by (auto simp: EncValue_def obind_eq_Ok)
  then show ?thesis using Updatevalue_authentic by blast
qed

definition sample_iter :: EncryptedDataBlockIter where
  "sample_iter = NewEncryptedIter
     \<lparr>data_ptr := Some ([2, 3] @ [1, 2, 3] @ replicate 45 0), exposed_key := [1],
      key_offset_map := [\<lparr>oe_key = [1], oe_offset = 0, oe_size = 2\<rparr>],
      iter_sst_key := replicate 32 1\<rparr>"

theorem value_authentic_witness:
  "\<exists>e data ct. map_entry sample_iter (current_index sample_iter) = Ok e \<and>
    data_ptr sample_iter = Some data \<and>
    ct = take (unat (oe_size e)) (drop (unat (oe_offset e)) data) \<and>
    hmac_sha3_384 toy_openssl (take 32 (iter_sst_key sample_iter)) (exposed_key sample_iter @ ct) =
      take 48 (drop (unat (oe_offset e) + length ct) data) \<and>
    [1, 2] = evp_decrypt toy_openssl (take 32 (iter_sst_key sample_iter)) gcm_iv gcm_aad ct"
proof (rule value_authentic)
  show "EncValue toy_openssl sample_iter =
      Ok ([1, 2], sample_iter\<lparr>cur_value := [1, 2], value_dirty := False\<rparr>)"
    by code_simp
qed (simp add: sample_iter_def NewEncryptedIter_def)

text \<open>
  C11: the HMAC covers the key and the ciphertext without the length of either: an entry that moves
  the first bytes of the ciphertext into the key is accepted with the rest as the value.
\<close>

theorem value_resplit_accepted:
  assumes "openssl_ok ssl" and "length key = 32"
    and "data_ptr it = Some data" and "iter_sst_key it = key" and "value_dirty it"
    and "map_entry it (current_index it) = Ok \<lparr>oe_key = ukey @ take n ct,
      oe_offset = word_of_nat (off + n), oe_size = word_of_nat (length ct - n)\<rparr>"
    and "exposed_key it = ukey @ take n ct" and "n \<le> length ct"
    and "take (length ct + 48) (drop off data) = ct @ hmac_sha3_384 ssl key (ukey @ ct)"
    and "off + length ct + 48 \<le> length data" and "length data < 2 ^ 32"
  shows "\<exists>it'. EncValue ssl it = Ok (evp_decrypt ssl key gcm_iv gcm_aad (drop n ct), it')"
  using Updatevalue_resplit [OF assms(1-4,6-11)] assms(5) by (simp add: EncValue_def)

theorem value_resplit_accepted_witness:
  "\<exists>it'. EncValue toy_openssl
      (sample_iter\<lparr>exposed_key := [1, 2],
        key_offset_map := [\<lparr>oe_key = [1, 2], oe_offset = 1, oe_size = 1\<rparr>]\<rparr>) =
    Ok (evp_decrypt toy_openssl (replicate 32 1) gcm_iv gcm_aad (drop 1 [2, 3]), it')"
proof (rule value_resplit_accepted [where ukey = "[1]" and off = 0
      and data = "[2, 3] @ [1, 2, 3] @ replicate 45 0"])
  show "take (length [2, 3 :: byte] + 48) (drop 0 ([2, 3] @ [1, 2, 3] @ replicate 45 0)) =
      [2, 3] @ hmac_sha3_384 toy_openssl (replicate 32 1) ([1] @ [2, 3])"
    by (simp add: toy_openssl_def)
qed (simp_all add: sample_iter_def NewEncryptedIter_def map_entry_def)

section \<open>Where the iterator goes wrong\<close>

text \<open>
  C12: the search for a starting point in \<open>SeekImpl\<close> does not depend on the target: it compares
  each key with itself, so without a global sequence number it always ends before the first entry
  and the scan that follows passes over every entry up to the result.
\<close>

theorem seek_starts_at_front:
  assumes "comparator (InternalCompare ucmp)" and "global_seqno it = kDisableGlobalSequenceNumber"
    and "\<not> ik_is_user_key (raw_key it)" and "key_offset_map it \<noteq> []"
  shows "\<exists>k. \<forall>target. EncSeekImpl ucmp target it =
    rbind (Some (EncNextImpl (it\<lparr>raw_key := k, current_index := -1\<rparr>))) (EncScanLoop ucmp target)"
  using EncSeekLoop_result [OF assms, of "length (key_offset_map it)"]
  by (auto simp: EncSeekImpl_def)

definition sample_key :: bytes where
  "sample_key = [97, 1, 5, 0, 0, 0, 0, 0, 0]"

definition sample_opened :: EncryptedDataBlockIter where
  "sample_opened = NewEncryptedIter
     \<lparr>data_ptr := Some (replicate 50 0), restarts := 50,
      raw_key := SetIsUserKey NewIterKey False, global_seqno := kDisableGlobalSequenceNumber,
      key_offset_map := [\<lparr>oe_key = sample_key, oe_offset = 0, oe_size = 2\<rparr>], current_index := -1\<rparr>"

theorem seek_starts_at_front_witness:
  "\<exists>k. \<forall>target. EncSeekImpl BytewiseCompare target sample_opened =
    rbind (Some (EncNextImpl (sample_opened\<lparr>raw_key := k, current_index := -1\<rparr>)))
      (EncScanLoop BytewiseCompare target)"
  by (rule seek_starts_at_front [OF ibytewise.comparator_axioms])
    (simp_all add: sample_opened_def SetIsUserKey_def)

text \<open>
  C13: with a global sequence number, as in an ingested file, the same comparison sets the key with
  that number against the key with its stored one: where the global number is the larger, every
  seek runs forever.
\<close>

theorem seek_global_seqno_diverges:
  assumes "comparator ucmp" and "global_seqno it \<noteq> kDisableGlobalSequenceNumber"
    and "\<forall>e \<in> set (key_offset_map it). ExtractInternalKeyFooter (oe_key e) <
      PackSequenceAndType (global_seqno it) (ExtractValueType (oe_key e))"
    and "\<not> ik_is_user_key (raw_key it)" and "key_offset_map it \<noteq> []"
  shows "EncSeek ucmp target it = None"
  using EncSeekLoop_diverges [OF assms(1-4), of 0] assms(5)
  by (simp add: EncSeek_def exposing_def EncSeekImpl_def)

theorem seek_global_seqno_diverges_witness:
  "EncSeek BytewiseCompare sample_key (sample_opened\<lparr>global_seqno := 9\<rparr>) = None"
proof (rule seek_global_seqno_diverges [OF bytewise.comparator_axioms])
  show "\<forall>e \<in> set (key_offset_map (sample_opened\<lparr>global_seqno := 9\<rparr>)).
      ExtractInternalKeyFooter (oe_key e) <
      PackSequenceAndType (global_seqno (sample_opened\<lparr>global_seqno := 9\<rparr>))
        (ExtractValueType (oe_key e))"
    by code_simp
qed (simp_all add: sample_opened_def SetIsUserKey_def kDisableGlobalSequenceNumber_def)

text \<open>
  \<open>SeekToLast\<close> of an open block reads the map one past its end.
\<close>

theorem seek_to_last_undefined:
  assumes "data_ptr it \<noteq> None"
  shows "EncSeekToLast it = Some Undef"
  using EncSeekToLastImpl_undefined [OF assms] by (simp add: EncSeekToLast_def exposing_def)

theorem seek_to_last_undefined_witness: "EncSeekToLast sample_opened = Some Undef"
  by (rule seek_to_last_undefined) (simp add: sample_opened_def)

text \<open>
  C15: \<open>SeekForPrev\<close> to a target before all the keys of a block runs forever, since \<open>Prev\<close> stays at
  the first entry instead of making the iterator invalid.
\<close>

theorem seek_for_prev_diverges:
  assumes "enc_block_ok BytewiseCompare B" and "iter_over B kDisableGlobalSequenceNumber it"
    and "\<forall>kv \<in> set (eb_kvs B). 0 < InternalCompare BytewiseCompare (fst kv) target"
    and "\<forall>kv \<in> set (eb_kvs B). snd kv \<noteq> []"
  shows "EncSeekForPrev BytewiseCompare target it = None"
proof -
  have kvs: "eb_kvs B \<noteq> []" using assms(1) by (simp add: enc_block_ok_def)
  then have f: "first_at_least BytewiseCompare B target = 0"
    using assms(3) by (cases "eb_kvs B") (auto simp: first_at_least_def)
  obtain it1 where it1: "EncSeekImpl BytewiseCompare target it = Some (Ok it1)"
    "iter_over B kDisableGlobalSequenceNumber it1" "iter_at B 0 it1"
    using EncSeekImpl_finds [OF assms(1) ibytewise.comparator_axioms assms(2), of target] f kvs by auto
  have "snd (eb_kvs B ! 0) \<noteq> []" using assms(4) kvs by (cases "eb_kvs B") auto
  then have "EncValid it1" using EncValid_at [OF assms(1) it1(2,3)] by simp
  then show ?thesis
    using EncPrevLoop_diverges [OF assms(1) it1(2,3) assms(3,4)] it1(1)
    by (simp add: EncSeekForPrev_def exposing_def EncSeekForPrevImpl_def)
qed

theorem seek_for_prev_diverges_witness:
  "\<exists>it. EncNewDataIterator (eb_ssl sample_block) BytewiseCompare (enc_data sample_block)
      (eb_key sample_block) kDisableGlobalSequenceNumber NewEncryptedIter = Ok it \<and>
    EncSeekForPrev BytewiseCompare [96, 1, 5, 0, 0, 0, 0, 0, 0] it = None"
proof -
  obtain it where it: "EncNewDataIterator (eb_ssl sample_block) BytewiseCompare (enc_data sample_block)
      (eb_key sample_block) kDisableGlobalSequenceNumber NewEncryptedIter = Ok it"
    "iter_over sample_block kDisableGlobalSequenceNumber it"
    using NewDataIterator_opens [OF sample_block_ok] by blast
  have "\<forall>kv \<in> set (eb_kvs sample_block).
      0 < InternalCompare BytewiseCompare (fst kv) [96, 1, 5, 0, 0, 0, 0, 0, 0]"
    by code_simp
  then show ?thesis using it seek_for_prev_diverges [OF sample_block_ok it(2)]
    by (auto simp: sample_block_def)
qed

text \<open>
  After the last entry, \<open>Next\<close> leaves the iterator valid exactly when the last value has more
  than 20000 bytes; and an iterator at the last entry is invalid when the value is empty.
\<close>

theorem last_value_size_matters:
  assumes "enc_block_ok ucmp B" and "iter_over B seqno it" and "iter_at B i it"
    and "Suc i = length (eb_kvs B)"
  shows "(EncValid it \<longleftrightarrow> snd (eb_kvs B ! i) \<noteq> []) \<and>
    (\<exists>it'. EncNextImpl it = Ok it' \<and> (EncValid it' \<longleftrightarrow> 20000 < length (snd (eb_kvs B ! i))))"
  using EncValid_at [OF assms(1-3)] EncNext_past_end [OF assms] assms(4) by auto

theorem last_value_size_matters_witness:
  "\<exists>it. iter_at sample_block 0 it \<and> (EncValid it \<longleftrightarrow> snd (eb_kvs sample_block ! 0) \<noteq> []) \<and>
    (\<exists>it'. EncNextImpl it = Ok it' \<and> (EncValid it' \<longleftrightarrow> 20000 < length (snd (eb_kvs sample_block ! 0))))"
proof -
  obtain it where it: "iter_over sample_block kDisableGlobalSequenceNumber it" "current_index it = -1"
    using NewDataIterator_opens [OF sample_block_ok] by blast
  obtain it1 where it1: "iter_over sample_block kDisableGlobalSequenceNumber it1"
    "iter_at sample_block 0 it1"
    using EncNextImpl_inner [OF it(1), of 0] it(2) by (auto simp: sample_block_def)
  have "Suc 0 = length (eb_kvs sample_block)" by (simp add: sample_block_def)
  then show ?thesis using last_value_size_matters [OF sample_block_ok it1] it1(2) by blast
qed

section \<open>Keys of the table files\<close>

text \<open>
  C17: the key that is generated for a new table file is the one that the name of the file is
  later turned into, under any directory.
\<close>

theorem generated_key_found:
  assumes "kl n = None"
  shows "GenerateKey (MakeTableFileName path n) (r, key) kl = (key, kl(n \<mapsto> key)) \<and>
    FilenameToKey (MakeTableFileName path' n) (snd (GenerateKey (MakeTableFileName path n) (r, key) kl)) =
      (key, kl(n \<mapsto> key))"
  using assms
  by (simp add: GenerateKey_def FilenameToKey_def map_insert_def MakeTableFileName_def
      TableFileNameToNumber_MakeFileName kRocksDbTFileExt_def)

theorem generated_key_found_witness:
  "GenerateKey (MakeTableFileName ''/db'' 12) (1, [5, 6]) Map.empty = ([5, 6], [12 \<mapsto> [5, 6]]) \<and>
    FilenameToKey (MakeTableFileName ''/db2'' 12)
      (snd (GenerateKey (MakeTableFileName ''/db'' 12) (1, [5, 6]) Map.empty)) = ([5, 6], [12 \<mapsto> [5, 6]])"
  by (rule generated_key_found) simp

text \<open>
  C18: the read-write lock keeps the critical sections of the key list apart, with one exception:
  whenever two threads are in their sections and one is about to modify the list, that thread looks
  up a file that has no key, which inserts an empty one under the read lock.
\<close>

theorem key_race_only_by_lookup:
  assumes "key_reachable kl0 s" and "key_race s"
  shows "\<exists>t n. threads s t = Holding (ToKey n) \<and> KeyList s n = None"
  by (rule race_is_ToKey [OF assms])

theorem key_race_only_by_lookup_witness:
  "\<exists>s. key_reachable Map.empty s \<and> (\<exists>t n. threads s t = Holding (ToKey n) \<and> KeyList s n = None)"
proof -
  obtain s where "key_reachable Map.empty s" "key_race s"
    using race_trace [of Map.empty 3] by auto
  then show ?thesis using key_race_only_by_lookup by blast
qed

text \<open>
  C19: that race can happen, from every list in which some file has no key.
\<close>

theorem key_race_reachable:
  assumes "kl0 n = None"
  shows "\<exists>s. key_reachable kl0 s \<and> key_race s"
  by (rule race_trace [where n = n]) (rule assms)

theorem key_race_reachable_witness: "\<exists>s. key_reachable [1 \<mapsto> [2]] s \<and> key_race s"
  by (rule key_race_reachable [where n = 7]) simp

section \<open>Internal keys\<close>

text \<open>
  C20: the comparison of two encoded internal keys is the one of their parts: user key ascending,
  then sequence number descending, then type descending.
\<close>

theorem encoded_order:
  assumes "sequence a \<le> kMaxSequenceNumber" and "sequence b \<le> kMaxSequenceNumber"
  shows "InternalCompare ucmp (AppendInternalKey [] a) (AppendInternalKey [] b) =
    CompareParsed ucmp a b"
  by (rule InternalCompare_Append [OF assms])

theorem encoded_order_witness:
  "InternalCompare BytewiseCompare
      (AppendInternalKey [] \<lparr>user_key = [97], sequence = 5, type = kTypeValue\<rparr>)
      (AppendInternalKey [] \<lparr>user_key = [97], sequence = 4, type = kTypeDeletion\<rparr>) =
    CompareParsed BytewiseCompare \<lparr>user_key = [97], sequence = 5, type = kTypeValue\<rparr>
      \<lparr>user_key = [97], sequence = 4, type = kTypeDeletion\<rparr>"
  by (rule encoded_order) (simp_all add: kMaxSequenceNumber_def word_le_nat_alt)

text \<open>
  An encoded internal key parses to its parts; and every key that parses has at least eight
  bytes, an extended value type, and the parts that the extraction routines give.
\<close>

theorem parse_internal_key:
  assumes "sequence k \<le> kMaxSequenceNumber" and "IsExtendedValueType (type k)"
  shows "ParseInternalKey (AppendInternalKey [] k) = Inr k \<and>
    InternalKeyValid (AppendInternalKey [] k) \<and>
    ExtractUserKey (AppendInternalKey [] k) = user_key k \<and>
    GetInternalKeySeqno (AppendInternalKey [] k) = sequence k \<and>
    ExtractValueType (AppendInternalKey [] k) = type k"
proof -
  note p = ParseInternalKey_Append [OF assms]
  show ?thesis using p ParseInternalKey_Inr [OF p] by (simp add: InternalKeyValid_def)
qed

theorem parse_internal_key_witness:
  "ParseInternalKey (AppendInternalKey [] \<lparr>user_key = [97, 98], sequence = 300, type = kTypeMerge\<rparr>) =
      Inr \<lparr>user_key = [97, 98], sequence = 300, type = kTypeMerge\<rparr> \<and>
    InternalKeyValid (AppendInternalKey [] \<lparr>user_key = [97, 98], sequence = 300, type = kTypeMerge\<rparr>) \<and>
    ExtractUserKey (AppendInternalKey [] \<lparr>user_key = [97, 98], sequence = 300, type = kTypeMerge\<rparr>) =
      user_key \<lparr>user_key = [97, 98], sequence = 300, type = kTypeMerge\<rparr> \<and>
    GetInternalKeySeqno (AppendInternalKey [] \<lparr>user_key = [97, 98], sequence = 300, type = kTypeMerge\<rparr>) =
      sequence \<lparr>user_key = [97, 98], sequence = 300, type = kTypeMerge\<rparr> \<and>
    ExtractValueType (AppendInternalKey [] \<lparr>user_key = [97, 98], sequence = 300, type = kTypeMerge\<rparr>) =
      type \<lparr>user_key = [97, 98], sequence = 300, type = kTypeMerge\<rparr>"
  by (rule parse_internal_key)
    (simp_all add: kMaxSequenceNumber_def word_le_nat_alt IsExtendedValueType_def IsValueType_def
      value_type_defs)

text \<open>
  C22: the key that \<open>FindShortestSeparator\<close> puts between two blocks is not before the last key of the
  first and is before the first key of the second, in the bytewise and in the reverse order.
\<close>

theorem separator_between:
  assumes "InternalCompare BytewiseCompare start limit < 0"
    and "InternalCompare ReverseBytewiseCompare start' limit' < 0"
  shows "InternalCompare BytewiseCompare start (InternalFindShortestSeparator BytewiseCompare
      BytewiseFindShortestSeparator start limit) \<le> 0 \<and>
    InternalCompare BytewiseCompare (InternalFindShortestSeparator BytewiseCompare
      BytewiseFindShortestSeparator start limit) limit < 0 \<and>
    InternalCompare ReverseBytewiseCompare start' (InternalFindShortestSeparator
      ReverseBytewiseCompare ReverseBytewiseFindShortestSeparator start' limit') \<le> 0 \<and>
    InternalCompare ReverseBytewiseCompare (InternalFindShortestSeparator ReverseBytewiseCompare
      ReverseBytewiseFindShortestSeparator start' limit') limit' < 0"
  using bytewise.separator_bounds [OF assms(1)] rbytewise.separator_bounds [OF assms(2)] by simp

theorem separator_between_witness:
  "InternalCompare BytewiseCompare sample_key (InternalFindShortestSeparator BytewiseCompare
      BytewiseFindShortestSeparator sample_key (99 # tl sample_key)) \<le> 0 \<and>
    InternalCompare BytewiseCompare (InternalFindShortestSeparator BytewiseCompare
      BytewiseFindShortestSeparator sample_key (99 # tl sample_key)) (99 # tl sample_key) < 0 \<and>
    InternalCompare ReverseBytewiseCompare sample_key (InternalFindShortestSeparator
      ReverseBytewiseCompare ReverseBytewiseFindShortestSeparator sample_key (95 # tl sample_key)) \<le> 0 \<and>
    InternalCompare ReverseBytewiseCompare (InternalFindShortestSeparator ReverseBytewiseCompare
      ReverseBytewiseFindShortestSeparator sample_key (95 # tl sample_key)) (95 # tl sample_key) < 0"
  by (rule separator_between; code_simp)

text \<open>
  The parts of a lookup key are the ones it was made of: its internal key is the encoded key
  with the type used for seeks, its user key includes the timestamp, and its memtable key is the
  length-prefixed internal key, which parses back.
\<close>

theorem lookup_key_parts:
  assumes "length u + length ts + 8 < 2 ^ 32"
  shows "LookupUserKey (MakeLookupKey u s (Some ts)) = u @ ts \<and>
    LookupInternalKey (MakeLookupKey u s (Some ts)) =
      AppendInternalKey [] \<lparr>user_key = u @ ts, sequence = s, type = kValueTypeForSeek\<rparr> \<and>
    GetLengthPrefixedSlice (LookupMemtableKey (MakeLookupKey u s (Some ts)) @ r) =
      (Some (LookupInternalKey (MakeLookupKey u s (Some ts))), r)"
  using assms lp_slice.get_put [of "LookupInternalKey (MakeLookupKey u s (Some ts))" r]
  by (simp add: LookupMemtableKey_eq LookupKey_parts)

theorem lookup_key_parts_witness:
  "LookupUserKey (MakeLookupKey [97] 5 (Some [1, 2])) = [97] @ [1, 2] \<and>
    LookupInternalKey (MakeLookupKey [97] 5 (Some [1, 2])) =
      AppendInternalKey [] \<lparr>user_key = [97] @ [1, 2], sequence = 5, type = kValueTypeForSeek\<rparr> \<and>
    GetLengthPrefixedSlice (LookupMemtableKey (MakeLookupKey [97] 5 (Some [1, 2])) @ [9]) =
      (Some (LookupInternalKey (MakeLookupKey [97] 5 (Some [1, 2]))), [9])"
  by (rule lookup_key_parts) simp

section \<open>Formats\<close>

text \<open>
  C24: for every key that was added with a restart index, the hash index that is appended to a block
  below 64 KB gives, when opened from the end of the block, this restart index or the collision mark.
\<close>

theorem hash_index_complete:
  assumes "(GetSliceHash key, r) \<in> set (hash_and_restart_pairs b)" and "r \<noteq> kNoEntry"
    and "length (HashIndexFinish b blk) < 2 ^ 16"
  shows "\<exists>n offset v. HashIndexOpen (HashIndexFinish b blk) = Some (n, offset) \<and>
    unat offset = length blk \<and>
    HashIndexLookup (HashIndexFinish b blk) n offset key = Ok v \<and> v \<in> {r, kCollision}"
  by (rule HashIndex_finds [OF assms])

definition sample_index :: DataBlockHashIndexBuilder where
  "sample_index = HashIndexAdd [97, 98] 3 (HashIndexInitialize 1 NewHashIndexBuilder)"

theorem hash_index_complete_witness:
  "\<exists>n offset v. HashIndexOpen (HashIndexFinish sample_index [1, 2]) = Some (n, offset) \<and>
    unat offset = length [1, 2 :: byte] \<and>
    HashIndexLookup (HashIndexFinish sample_index [1, 2]) n offset [97, 98] = Ok v \<and> v \<in> {3, kCollision}"
  by (rule hash_index_complete)
    (simp_all add: sample_index_def HashIndexAdd_def HashIndexInitialize_def NewHashIndexBuilder_def
      HashIndexFinish_def HashIndexNumBuckets_def kNoEntry_def kMaxRestartSupportedByHashIndex_def
      Let_def PutFixed16_def)

text \<open>
  An index entry decodes to what was encoded, also when its handle is delta-encoded against the
  block before, whatever follows it.
\<close>

theorem index_value_roundtrip:
  assumes "length (iv_first_internal_key v) < 2 ^ 32"
    and "have_first_key \<or> iv_first_internal_key v = []"
    and "bh_offset (iv_handle v) = bh_offset p + bh_size p + of_nat kBlockTrailerSize"
  shows "IndexValueDecodeFrom v0 (IndexValueEncodeTo [] v have_first_key (Some p) @ r)
      have_first_key (Some p) = (StatusOK, v, r) \<and>
    IndexValueDecodeFrom v0 (IndexValueEncodeTo [] v have_first_key None @ r)
      have_first_key None = (StatusOK, v, r)"
  using IndexValue_roundtrip [OF assms(1,2), of "Some p"] IndexValue_roundtrip [OF assms(1,2), of None]
    assms(3) by simp

theorem index_value_roundtrip_witness:
  "IndexValueDecodeFrom
      \<lparr>iv_handle = NullBlockHandle, iv_first_internal_key = []\<rparr>
      (IndexValueEncodeTo [] \<lparr>iv_handle = \<lparr>bh_offset = 105, bh_size = 70\<rparr>,
          iv_first_internal_key = [97]\<rparr> True (Some \<lparr>bh_offset = 0, bh_size = 100\<rparr>) @ [1])
      True (Some \<lparr>bh_offset = 0, bh_size = 100\<rparr>) =
    (StatusOK, \<lparr>iv_handle = \<lparr>bh_offset = 105, bh_size = 70\<rparr>, iv_first_internal_key = [97]\<rparr>, [1]) \<and>
    IndexValueDecodeFrom
      \<lparr>iv_handle = NullBlockHandle, iv_first_internal_key = []\<rparr>
      (IndexValueEncodeTo [] \<lparr>iv_handle = \<lparr>bh_offset = 105, bh_size = 70\<rparr>,
          iv_first_internal_key = [97]\<rparr> True None @ [1]) True None =
    (StatusOK, \<lparr>iv_handle = \<lparr>bh_offset = 105, bh_size = 70\<rparr>, iv_first_internal_key = [97]\<rparr>, [1])"
  by (rule index_value_roundtrip) (simp_all add: kBlockTrailerSize_def)

text \<open>
  The footer of a table file decodes to what was encoded, behind any contents, for the new
  format with a checksum type that fits in one byte of a varint.
\<close>

theorem table_footer_roundtrip:
  assumes "\<not> IsLegacyFooterFormat (table_magic_number f)" and "checksum f < 128"
  shows "FooterDecodeFrom f0 (FooterEncodeTo dst f) = Ok (StatusOK, f)"
  by (rule Footer_roundtrip [OF assms])

theorem table_footer_roundtrip_witness:
  "\<exists>f0. FooterDecodeFrom f0 (FooterEncodeTo [1, 2, 3]
      \<lparr>version = 5, checksum = 1, metaindex_handle = \<lparr>bh_offset = 300, bh_size = 20\<rparr>,
       index_handle = \<lparr>bh_offset = 400, bh_size = 60\<rparr>,
       table_magic_number = kBlockBasedTableMagicNumber\<rparr>) =
    Ok (StatusOK, \<lparr>version = 5, checksum = 1, metaindex_handle = \<lparr>bh_offset = 300, bh_size = 20\<rparr>,
       index_handle = \<lparr>bh_offset = 400, bh_size = 60\<rparr>,
       table_magic_number = kBlockBasedTableMagicNumber\<rparr>)"
  by (intro exI, rule table_footer_roundtrip) code_simp+

section \<open>File names\<close>



text \<open>
  A name that starts with \<open>LOG\<close> but is not an info log is reported as parsed, with the type and
  the number that the variables held before: the listing of the info logs includes it when the name
  listed before it was an info log.
\<close>

theorem unrecognised_info_log_listed:
  assumes "x \<noteq> []" and "x \<noteq> ''.old''" and "\<not> string_starts_with x ''.old.''"
  shows "ParseFileName (''LOG'' @ x) ''LOG'' out = (True, out) \<and>
    GetInfoLogFilesLoop [''LOG'' @ x, ''LOG''] ''LOG''
      \<lparr>out_number = 0, out_type = kWalFile, out_log_type = None\<rparr> = [''LOG''] \<and>
    GetInfoLogFilesLoop [''LOG'', ''LOG'' @ x] ''LOG''
      \<lparr>out_number = 0, out_type = kWalFile, out_log_type = None\<rparr> = [''LOG'', ''LOG'' @ x]"
proof -
  note u = ParseFileName_unrecognised_info_log [OF refl assms]
  have "ParseFileName ''LOG'' ''LOG'' \<lparr>out_number = 0, out_type = kWalFile, out_log_type = None\<rparr> =
      (True, \<lparr>out_number = 0, out_type = kInfoLogFile, out_log_type = None\<rparr>)"
    by code_simp
  then show ?thesis using u by simp
qed

theorem unrecognised_info_log_listed_witness:
  "ParseFileName (''LOG'' @ ''.bak'') ''LOG''
      \<lparr>out_number = 0, out_type = kWalFile, out_log_type = None\<rparr> =
      (True, \<lparr>out_number = 0, out_type = kWalFile, out_log_type = None\<rparr>) \<and>
    GetInfoLogFilesLoop [''LOG'' @ ''.bak'', ''LOG''] ''LOG''
      \<lparr>out_number = 0, out_type = kWalFile, out_log_type = None\<rparr> = [''LOG''] \<and>
    GetInfoLogFilesLoop [''LOG'', ''LOG'' @ ''.bak''] ''LOG''
      \<lparr>out_number = 0, out_type = kWalFile, out_log_type = None\<rparr> = [''LOG'', ''LOG'' @ ''.bak'']"
  by (rule unrecognised_info_log_listed) (simp_all add: string_starts_with_def)

section \<open>Numbers and checksums\<close>

text \<open>
  The branches of \<open>EncodeVarint32\<close> give the bytes of the general loop; both decoders read a value
  back and leave what follows; \<open>VarintLength\<close> is the number of bytes; and a signed value survives
  the zigzag encoding.
\<close>

theorem varints:
  "EncodeVarint32 v = EncodeVarint64 (ucast v) \<and> GetVarint32 (EncodeVarint32 v @ r) = (Some v, r) \<and>
   GetVarint64 (EncodeVarint64 x @ r) = (Some x, r) \<and>
   VarintLength x = length (EncodeVarint64 x) \<and> length (EncodeVarint64 x) \<le> 10 \<and>
   GetVarsignedint64 (PutVarsignedint64 [] x @ r) = (Some x, r)"
  using EncodeVarint32_eq_loop [of v] varint32.get_put [of v r] varint64.get_put [of x r]
    VarintLength_eq [of x] length_EncodeVarint64 [of x] varsigned64.get_put [of x r]
  by simp

text \<open>
  The checksum can be computed piece by piece, and a masked one is recovered.
\<close>

theorem crc32c_pieces_and_mask:
  "Extend (Value a) b = Value (a @ b) \<and> Unmask (Mask crc) = crc"
  by (simp add: Extend_Value)

text \<open>
  C32: the portable implementation of the checksum (single bytes up to an aligned address, then
  sixteen and eight bytes at a time through four tables) computes the reflected Castagnoli division
  bit by bit, at every alignment and for every length.
\<close>

theorem crc32c_portable:
  "ExtendImpl pval crc data =
     foldl (\<lambda>l b. crc_bits 8 (l XOR ucast b)) (crc XOR 0xffffffff) data XOR 0xffffffff"
  by (simp add: ExtendImpl_steps Extend_def crc_step_bits [abs_def] del: crc_bits_numeral)

section \<open>Version edits\<close>

text \<open>
  The edit used by the witnesses, in memory full of sevens: it adds a table file with its key and
  the secret of a log, and deletes a file.
\<close>

definition sample_memory :: VersionEdit where
  "sample_memory =
     \<lparr>ve_max_level = 7, ve_db_id = [7], ve_comparator = [7], ve_log_number = 7, ve_prev_log_number = 7,
      ve_next_file_number = 7, ve_max_column_family = 7, ve_min_log_number_to_keep = 7,
      ve_last_sequence = 7, ve_has_db_id = True, ve_has_comparator = True, ve_has_log_number = True,
      ve_has_prev_log_number = True, ve_has_next_file_number = True,
      ve_has_max_column_family = True, ve_has_min_log_number_to_keep = True,
      ve_has_last_sequence = True, ve_deleted_files = [(7, 7)], ve_new_files = [],
      ve_blob_file_additions = [], ve_blob_file_garbages = [], ve_wal_additions = [],
      ve_wal_deletion = 7, ve_column_family = 7, ve_is_column_family_drop = True,
      ve_is_column_family_add = True, ve_column_family_name = [7], ve_is_in_atomic_group = True,
      ve_remaining_entries = 7, ve_is_log_secret = True,
      ve_log_secret = \<lparr>ls_log_num = 7, ls_unique_key = replicate 32 7, ls_unique_hash = replicate 16 7\<rparr>,
      ve_is_sst_key = True, ve_sst_key = replicate 32 7, ve_sst_file_number = 7,
      ve_is_sst_delete = True, ve_sst_delete_file_number = 7\<rparr>"

definition sample_file :: FileMetaData where
  "sample_file = NewFileMetaData
     \<lparr>fm_fd := NewFileDescriptor 12 1 4096 3 9,
      fm_smallest := [97, 1, 3, 0, 0, 0, 0, 0, 0], fm_largest := [99, 1, 9, 0, 0, 0, 0, 0, 0]\<rparr>"

definition sample_edit :: VersionEdit where
  "sample_edit = (AddFile 2 sample_file (VersionDeleteFile 1 5 (SetMinLogNumberToKeep 4
       (SetNextFile 13 (NewVersionEdit sample_memory)))))
     \<lparr>ve_is_log_secret := True,
      ve_log_secret := \<lparr>ls_log_num = 11, ls_unique_key = replicate 32 1, ls_unique_hash = replicate 16 2\<rparr>,
      ve_is_sst_key := True, ve_sst_key := replicate 32 3, ve_sst_file_number := 12\<rparr>"

lemma sample_keys_valid:
  "InternalKeyValid [97, 1, 3, 0, 0, 0, 0, 0, 0]" "InternalKeyValid [99, 1, 9, 0, 0, 0, 0, 0, 0]"
  by code_simp+

lemma sample_edit_ok: "edit_ok sample_memory sample_edit"
  by (simp add: edit_ok_def sample_edit_def AddFile_def VersionDeleteFile_def SetMinLogNumberToKeep_def
      SetNextFile_def NewVersionEdit_def Clear_def file_ok_def sample_file_def NewFileMetaData_def
      sample_keys_valid kUnknownFileChecksumFuncName_def sample_memory_def)

text \<open>
  C33: an edit whose parts the format can hold is encoded, and the record decodes, in a new edit in
  any memory, to the same edit; its \<open>max_level_\<close> is then the highest level it names. \<open>edit_ok\<close> asks
  for strings below 4 GB, levels in the range of \<open>int\<close>, valid boundaries, a key of 32 bytes and a hash
  of 16 where there is a secret, initial values where a member is not set, and a file to carry the
  number of the oldest log to keep, which is lost otherwise.
\<close>

theorem version_edit_roundtrip:
  assumes "edit_ok garbage e"
  shows "\<exists>data. VersionEditEncodeTo [] e = (True, data) \<and>
    VersionEditDecodeFrom (NewVersionEdit garbage) data =
      Ok (StatusOK, e\<lparr>ve_max_level := highest_level e\<rparr>)"
  using assms by (rule VersionEdit_roundtrip)

theorem version_edit_roundtrip_witness:
  "\<exists>data. VersionEditEncodeTo [] sample_edit = (True, data) \<and>
    VersionEditDecodeFrom (NewVersionEdit sample_memory) data =
      Ok (StatusOK, sample_edit\<lparr>ve_max_level := highest_level sample_edit\<rparr>)"
  using sample_edit_ok by (rule version_edit_roundtrip)

section \<open>The set of write-ahead logs\<close>

text \<open>
  C34: the set of logs of the manifest is a map from log numbers to synced sizes. A log is accepted
  if it is new, synced or not, or if it is known and comes with a synced size that is not below the one
  known, if any; an accepted log updates the map, another leaves it, and dropping old logs restricts the
  map. The entries stay in the order of the numbers. (The header asks for more: a closed log without an
  unclosed one of its number is to be refused. The code accepts it, new or closed before.)
\<close>

theorem wal_set_refines:
  assumes "wals_ok wals"
  shows "fst (AddWal w wals) = (if wal_acceptable w (map_of wals) then StatusOK else Corruption) \<and>
    map_of (snd (AddWal w wals)) =
      (if wal_acceptable w (map_of wals)
       then (map_of wals)(wa_number w \<mapsto> wa_synced_size_bytes w) else map_of wals) \<and>
    wals_ok (snd (AddWal w wals)) \<and>
    map_of (snd (DeleteWalsBefore n wals)) = map_of wals |` {m. n \<le> m} \<and>
    wals_ok (snd (DeleteWalsBefore n wals))"
proof -
  have "fst (AddWal w wals) = (if wal_acceptable w (map_of wals) then StatusOK else Corruption)"
    "\<not> wal_acceptable w (map_of wals) \<Longrightarrow> snd (AddWal w wals) = wals"
    by (simp_all add: AddWal_spec [OF assms])
  then show ?thesis
    using AddWal_refines [OF assms, of w] DeleteWalsBefore_refines [OF assms, of n] assms
    by (cases "wal_acceptable w (map_of wals)") simp_all
qed

theorem wal_set_refines_witness:
  "fst (AddWal \<lparr>wa_number = 3, wa_synced_size_bytes = 200\<rparr> [(3, 100), (5, kUnknownWalSize)]) =
     (if wal_acceptable \<lparr>wa_number = 3, wa_synced_size_bytes = 200\<rparr>
           (map_of [(3, 100), (5, kUnknownWalSize)]) then StatusOK else Corruption)"
  using wal_set_refines [of "[(3, 100), (5, kUnknownWalSize)]" "\<lparr>wa_number = 3, wa_synced_size_bytes = 200\<rparr>"]
  by (simp add: wals_ok_def)

section \<open>Versions\<close>

text \<open>
  The version used by the witnesses: two levels, a file on level 0 and one on level 1.
\<close>

definition sample_version :: VersionStorageInfo where
  "sample_version = StorageAddFile 1 sample_file (StorageAddFile 0
     (sample_file\<lparr>fm_fd := NewFileDescriptor 14 0 4096 10 20\<rparr>) (NewVersionStorageInfo 2 True))"

text \<open>An edit that moves the file of level 0 to level 1, behind the other.\<close>

definition sample_move :: VersionEdit where
  "sample_move = AddFile 1 (sample_file
     \<lparr>fm_fd := NewFileDescriptor 14 0 4096 10 20,
      fm_smallest := [100, 1, 10, 0, 0, 0, 0, 0, 0], fm_largest := [101, 1, 20, 0, 0, 0, 0, 0, 0]\<rparr>)
     (VersionDeleteFile 0 14 (NewVersionEdit sample_memory))"

lemma sample_version_ok:
  "version_ok (InternalCompare BytewiseCompare) sample_version"
  "CheckConsistency (InternalCompare BytewiseCompare) 2 sample_version = StatusOK"
  "levels_in_range 2 sample_move"
proof -
  have numbers: "file_number sample_file = 12"
    "GetNumber (NewFileDescriptor 14 0 4096 10 20) = 14"
    by code_simp+
  let ?v0 = "NewVersionStorageInfo 2 True"
  let ?v1 = "StorageAddFile 0 (sample_file\<lparr>fm_fd := NewFileDescriptor 14 0 4096 10 20\<rparr>) ?v0"
  have new: "locations_ok ?v0" "0 < length (vs_files ?v0)" "version_files ?v0 = Map.empty"
    by (auto simp: NewVersionStorageInfo_def locations_ok_def version_files_def fun_eq_iff cong: conj_cong)
  have one: "locations_ok ?v1" "version_files ?v1 12 = None"
    using StorageAddFile_ok(1) [OF new(1,2)] StorageAddFile_ok(2) [OF new(1,2)]
    unfolding new(3) by (simp_all add: numbers)
  have "locations_ok sample_version"
    unfolding sample_version_def using one(1)
  proof (rule StorageAddFile_ok(1))
    show "1 < length (vs_files ?v1)" by (simp add: StorageAddFile_def NewVersionStorageInfo_def Let_def)
    show "version_files ?v1 (file_number sample_file) = None" using one(2) by (simp only: numbers)
  qed
  then show "version_ok (InternalCompare BytewiseCompare) sample_version"
    by (simp add: version_ok_def sample_version_def StorageAddFile_def NewVersionStorageInfo_def Let_def
        less_Suc_eq numeral_2_eq_2)
  show "CheckConsistency (InternalCompare BytewiseCompare) 2 sample_version = StatusOK"
    by code_simp
  show "levels_in_range 2 sample_move"
    by code_simp
qed

text \<open>
  C35: a series of edits applied to a consistent version and saved is what the specification of edits
  says: a map from file numbers to levels and files in which each edit adds its blob files, deletes
  files from the level they are on and adds files whose numbers are free. The edits are refused
  exactly when the specification has no result; nothing is undefined for levels that the version
  has; and the new version keeps the invariant: every level in its order, every number once, the
  locations true, the blob files in the order of their numbers.
\<close>

theorem version_builder_refines:
  assumes "comparator icmp" and "version_ok icmp base"
    and "CheckConsistency icmp (length (vs_files base)) base = StatusOK"
    and "\<forall>e \<in> set es. levels_in_range (length (vs_files base)) e"
  shows "\<exists>s b v. apply_all (BuilderApply icmp) es (NewVersionBuilder base) = Ok (s, b) \<and>
    (case spec_all spec_edit es (version_files base, fst ` set (vs_blob_files base)) of
       None \<Rightarrow> s \<noteq> StatusOK
     | Some (files, blobs) \<Rightarrow>
         s = StatusOK \<and>
         SaveTo icmp b (NewVersionStorageInfo (length (vs_files base)) force) =
           Ok (CheckConsistency icmp (length (vs_files base)) v, v) \<and>
         version_ok icmp v \<and> length (vs_files v) = length (vs_files base) \<and>
         version_files v = files \<and> fst ` set (vs_blob_files v) \<subseteq> blobs)"
  by (rule builder_saves_specified [OF assms])

theorem version_builder_refines_witness:
  "\<exists>s b v. apply_all (BuilderApply (InternalCompare BytewiseCompare)) [sample_move]
      (NewVersionBuilder sample_version) = Ok (s, b) \<and>
    (case spec_all spec_edit [sample_move] (version_files sample_version, fst ` set (vs_blob_files sample_version)) of
       None \<Rightarrow> s \<noteq> StatusOK
     | Some (files, blobs) \<Rightarrow>
         s = StatusOK \<and>
         SaveTo (InternalCompare BytewiseCompare) b (NewVersionStorageInfo (length (vs_files sample_version)) True) =
           Ok (CheckConsistency (InternalCompare BytewiseCompare) (length (vs_files sample_version)) v, v) \<and>
         version_ok (InternalCompare BytewiseCompare) v \<and> length (vs_files v) = length (vs_files sample_version) \<and>
         version_files v = files \<and> fst ` set (vs_blob_files v) \<subseteq> blobs)"
proof (rule version_builder_refines [OF ibytewise.comparator_axioms])
  have two: "length (vs_files sample_version) = 2" by code_simp
  show "CheckConsistency (InternalCompare BytewiseCompare) (length (vs_files sample_version)) sample_version = StatusOK"
    "\<forall>e \<in> set [sample_move]. levels_in_range (length (vs_files sample_version)) e"
    using sample_version_ok by (simp_all add: two)
qed (rule sample_version_ok)

text \<open>
  C36: in a version that passes the check of its consistency, when the check is turned on, the key
  ranges of two files of a level above 0 never overlap: each file ends before every later one begins.
\<close>

theorem checked_version_disjoint:
  assumes "comparator icmp" and "CheckConsistency icmp (length (vs_files v)) v = StatusOK"
    and "vs_force_consistency_checks v" and "0 < l" and "l < length (vs_files v)"
    and "\<forall>f \<in> set (vs_files v ! l). icmp (fm_smallest f) (fm_largest f) \<le> 0"
  shows "sorted_wrt (\<lambda>f g. icmp (fm_largest f) (fm_smallest g) < 0) (vs_files v ! l)"
  by (rule checked_level_disjoint [OF assms])

theorem checked_version_disjoint_witness:
  "sorted_wrt (\<lambda>f g. InternalCompare BytewiseCompare (fm_largest f) (fm_smallest g) < 0)
     (vs_files sample_version ! 1)"
  by (rule checked_version_disjoint [OF ibytewise.comparator_axioms]) code_simp+

section \<open>The manifest\<close>

text \<open>
  The database used by the witnesses: the default family, with two levels and the bytewise order. Its
  manifest has the edit of a new database and one that adds a table file with its key and the secret
  of a log; then it was cut off behind the first of two edits that belong together.
\<close>

definition sample_options :: cf_options where
  "sample_options = \<lparr>co_comparator_name = [98], co_compare = BytewiseCompare, co_num_levels = 2,
     co_force_consistency_checks = False\<rparr>"

definition sample_config :: handler_config where
  "sample_config =
     \<lparr>hf_read_only = False, hf_column_families = [(kDefaultColumnFamilyName, sample_options)],
      hf_persistent_stats = sample_options, hf_point_in_time = False, hf_track_missing_files = False,
      hf_no_error_if_table_files_missing = False, hf_skip_load_table_files = False,
      hf_paranoid_checks = True, hf_load_tables = (\<lambda>n. StatusOK), hf_file_size = (\<lambda>n k. (StatusOK, 0))\<rparr>"

definition sample_first :: VersionEdit where
  "sample_first = SetComparatorName [98] (SetLogNumber 3 (SetNextFile 4 (SetLastSequence 0
     (NewVersionEdit sample_memory))))"

definition sample_add :: VersionEdit where
  "sample_add = (AddFile 1 sample_file (SetNextFile 13 (SetLastSequence 9 (NewVersionEdit sample_memory))))
     \<lparr>ve_is_log_secret := True,
      ve_log_secret := \<lparr>ls_log_num = 11, ls_unique_key = replicate 32 1, ls_unique_hash = replicate 16 2\<rparr>,
      ve_is_sst_key := True, ve_sst_key := replicate 32 3, ve_sst_file_number := 12\<rparr>"

definition sample_half :: VersionEdit where
  "sample_half = MarkAtomicGroup 1 (NewVersionEdit sample_memory)"

lemma sample_edits_ok:
  "edit_ok sample_memory sample_first" "edit_ok sample_memory sample_add" "edit_ok sample_memory sample_half"
  by (simp_all add: edit_ok_def sample_first_def sample_add_def sample_half_def AddFile_def SetNextFile_def
      SetLastSequence_def SetComparatorName_def SetLogNumber_def MarkAtomicGroup_def
      NewVersionEdit_def Clear_def file_ok_def sample_file_def NewFileMetaData_def
      sample_keys_valid kUnknownFileChecksumFuncName_def sample_memory_def)

lemma sample_manifest:
  "\<exists>contents. manifest_log toy_openssl (replicate 32 5) (replicate 16 6)
     (concat [[sample_first], [sample_add]] @ [sample_half]) contents"
  "manifest_log toy_openssl (replicate 32 5) (replicate 16 6)
     (concat [[sample_first], [sample_add]] @ [sample_half]) contents \<Longrightarrow> length contents < 2 ^ 64 - 1"
proof -
  let ?es = "concat [[sample_first], [sample_add]] @ [sample_half]"
  have "manifest_size ?es \<le> 10000" by code_simp
  then have size: "manifest_size ?es \<le> kBlockSize" by (simp add: log_sizes)
  have ok: "\<forall>e \<in> set ?es. edit_ok sample_memory e" using sample_edits_ok by simp
  show "\<exists>contents. manifest_log toy_openssl (replicate 32 5) (replicate 16 6) ?es contents"
    using small_manifest(1) [OF toy_openssl_ok _ _ ok size] by simp
  show "manifest_log toy_openssl (replicate 32 5) (replicate 16 6) ?es contents \<Longrightarrow> length contents < 2 ^ 64 - 1"
    using small_manifest(2) [OF toy_openssl_ok _ _ ok size, where mk = "replicate 32 5" and mh = "replicate 16 6"]
    by simp
qed

definition sample_spec :: "manifest_spec" where
  "sample_spec =
     \<lparr>ms_families = [\<lparr>fs_id = 0, fs_name = kDefaultColumnFamilyName, fs_options = sample_options,
        fs_log_number = 3, fs_lsm = ([12 \<mapsto> (1, sample_file)], {})\<rparr>],
      ms_wals = [], ms_logged = True, ms_next_file = Some 13, ms_last_sequence = Some 9\<rparr>"

lemma sample_specified:
  "Option.bind (spec_start sample_config) (spec_manifest sample_config (concat [[sample_first], [sample_add]])) =
     Some sample_spec"
proof -
  have n: "file_number sample_file = 12" by code_simp
  have e: "spec_edit sample_first p = Some p"
    "spec_edit sample_add (Map.empty, {}) = Some ([12 \<mapsto> (1, sample_file)], {})" for p
    by (simp_all add: n spec_edit_def spec_addition_def sample_first_def sample_add_def AddFile_def SetNextFile_def
      SetLastSequence_def SetComparatorName_def SetLogNumber_def NewVersionEdit_def Clear_def)
  have fits: "levels_in_range 2 sample_first" "levels_in_range 2 sample_add"
    "comparator_fits sample_first sample_options" "comparator_fits sample_add sample_options" by code_simp+
  have kind: "\<not> ve_is_column_family_add x \<and> \<not> ve_is_column_family_drop x \<and> \<not> IsWalAddition x \<and>
      \<not> IsWalDeletion x \<and> ve_column_family x = 0" if "x \<in> {sample_first, sample_add}" for x
    using that by (auto simp: IsWalAddition_def IsWalDeletion_def WalDeletionIsEmpty_def sample_first_def sample_add_def
      AddFile_def SetNextFile_def SetLastSequence_def SetComparatorName_def SetLogNumber_def NewVersionEdit_def Clear_def)
  have logs: "takes_log sample_first f \<longleftrightarrow> fs_log_number f \<le> 3" "\<not> takes_log sample_add f" "ve_log_number sample_first = 3" for f
    by (simp_all add: takes_log_def sample_first_def sample_add_def AddFile_def SetNextFile_def SetLastSequence_def
      SetComparatorName_def SetLogNumber_def NewVersionEdit_def Clear_def)
  have counters: "spec_counters sample_first ms = ms\<lparr>ms_next_file := Some 4, ms_last_sequence := Some 0\<rparr>"
    "spec_counters sample_add ms = ms\<lparr>ms_next_file := Some 13, ms_last_sequence := Some 9\<rparr>" for ms
    by (simp_all add: spec_counters_def sample_first_def sample_add_def AddFile_def SetNextFile_def SetLastSequence_def
      SetComparatorName_def SetLogNumber_def NewVersionEdit_def Clear_def)
  have opts: "co_num_levels sample_options = 2" "name_to_options sample_config kDefaultColumnFamilyName = Some sample_options"
    by (simp_all add: sample_options_def name_to_options_def sample_config_def)
  show ?thesis
    using kind [of sample_first] kind [of sample_add]
    by (simp add: e fits logs counters opts spec_start_def spec_manifest_edit_def spec_files_def spec_family_def
      spec_change_def sample_spec_def)
qed

lemma unchecked_consistent:
  assumes "fs_options f = sample_options"
  shows "consistent_family f"
  using assms ibytewise.comparator_axioms
  by (auto simp: consistent_family_def saved_family_def sample_options_def CheckConsistency_def)

lemma sample_units: "edit_unit [sample_first]" "edit_unit [sample_add]" "unfinished [sample_half]"
proof -
  show "edit_unit [sample_first]" "edit_unit [sample_add]"
    by (simp_all add: edit_unit_def sample_first_def sample_add_def AddFile_def SetNextFile_def SetLastSequence_def
      SetComparatorName_def SetLogNumber_def NewVersionEdit_def Clear_def)
  have "atomic_group [sample_half, MarkAtomicGroup 0 (NewVersionEdit sample_memory)]"
    by (auto simp: atomic_group_def less_Suc_eq sample_half_def MarkAtomicGroup_def)
  then show "unfinished [sample_half]"
    unfolding unfinished_def by (intro exI [of _ "[sample_half, MarkAtomicGroup 0 (NewVersionEdit sample_memory)]"] exI [of _ 1]) simp
qed

text \<open>
  C37: \<open>Recover\<close> implements the specification of manifests (\<open>spec_manifest\<close>: families, the files and log
  number of each, the set of logs, the counters). For a manifest that \<open>log::Writer\<close> wrote, of single
  edits and whole atomic groups \<open>us\<close> and possibly the beginning of a last group that was cut off,
  whose edits the specification accepts: \<open>Recover\<close> returns, with \<open>OK\<close>, exactly the specified families,
  versions, logs and counters, ignores the unfinished group, and has the keys of the table files and
  the secrets of the logs that the edits give, in their order. The versions must pass the check of
  their consistency and the loading of the tables must succeed.
\<close>

theorem manifest_recovers:
  assumes "openssl_ok ssl" and "32 \<le> length mk" and "16 \<le> length mh" and "length junk = kBlockSize"
    and "manifest_log ssl mk mh (concat us @ rest) contents" and "length contents < 2 ^ 64 - 1"
    and "\<forall>e \<in> set (concat us @ rest). edit_ok garbage e"
    and "\<forall>u \<in> set us. edit_unit u" and "unfinished rest"
    and "spec_start cfg = Some ms0" and "spec_manifest cfg (concat us) ms0 = Some ms"
    and "counters_known ms n q" and "\<forall>f \<in> set (ms_families ms). consistent_family f"
    and "\<And>n. hf_load_tables cfg n = StatusOK" and "vset_families vs = []" and "vset_wals vs = []"
  shows "\<exists>keys' vs'. Recover ssl mk mh junk secret cfg garbage contents keys vs =
      Some (Ok (StatusOK, keys', vs')) \<and>
    list_all2 recovered_family (ms_families ms) (vset_families vs') \<and> vset_wals vs' = ms_wals ms \<and>
    vset_next_file_number vs' = n + 1 \<and> vset_last_sequence vs' = q \<and>
    (keys', vset_log_secret vs') = fold collect (concat us) (keys, vset_log_secret vs)"
  by (rule Recover_specified [OF assms])

theorem manifest_recovers_witness:
  "\<exists>contents keys' vs'.
    manifest_log toy_openssl (replicate 32 5) (replicate 16 6) [sample_first, sample_add, sample_half] contents \<and>
    Recover toy_openssl (replicate 32 5) (replicate 16 6) (replicate kBlockSize 1) ([], []) sample_config sample_memory
      contents Map.empty NewVersionSet = Some (Ok (StatusOK, keys', vs')) \<and>
    list_all2 recovered_family (ms_families sample_spec) (vset_families vs') \<and> vset_wals vs' = [] \<and>
    vset_next_file_number vs' = 14 \<and> vset_last_sequence vs' = 9 \<and>
    (keys', vset_log_secret vs') = fold collect [sample_first, sample_add] (Map.empty, Map.empty)"
proof -
  obtain contents where c: "manifest_log toy_openssl (replicate 32 5) (replicate 16 6)
      (concat [[sample_first], [sample_add]] @ [sample_half]) contents"
    using sample_manifest(1) by blast
  obtain ms0 where ms0: "spec_start sample_config = Some ms0"
    "spec_manifest sample_config (concat [[sample_first], [sample_add]]) ms0 = Some sample_spec"
    using sample_specified unfolding bind_eq_Some_conv by blast
  have "counters_known sample_spec 13 9" by (simp add: counters_known_def sample_spec_def)
  moreover have "\<forall>f \<in> set (ms_families sample_spec). consistent_family f"
    by (simp add: sample_spec_def unchecked_consistent)
  ultimately have "\<exists>keys' vs'. Recover toy_openssl (replicate 32 5) (replicate 16 6) (replicate kBlockSize 1) ([], [])
        sample_config sample_memory contents Map.empty NewVersionSet = Some (Ok (StatusOK, keys', vs')) \<and>
      list_all2 recovered_family (ms_families sample_spec) (vset_families vs') \<and>
      vset_wals vs' = ms_wals sample_spec \<and> vset_next_file_number vs' = 13 + 1 \<and> vset_last_sequence vs' = 9 \<and>
      (keys', vset_log_secret vs') =
        fold collect (concat [[sample_first], [sample_add]]) (Map.empty, vset_log_secret NewVersionSet)"
    using sample_edits_ok sample_units ms0 sample_manifest(2) [OF c]
    by (intro manifest_recovers [OF _ _ _ _ c]) (simp_all add: sample_config_def NewVersionSet_def)
  then show ?thesis using c by (fastforce simp: sample_spec_def NewVersionSet_def)
qed

text \<open>
  C38: an edit of a family's files that is committed with a new manifest is installed and survives.
  \<open>ProcessManifestWrites\<close>, where every file operation succeeds, writes a snapshot of the state and the
  edit into the new manifest, and installs the version that the specification of the edit gives; and
  \<open>Recover\<close> of that manifest in a new version set gives the families, with the same files on the same
  levels, the logs and the counters that the writer has now. But of the keys of table files and the
  secrets of logs only those of this one edit come back: the snapshot has none.
\<close>

theorem commit_recovers:
  assumes "openssl_ok ssl" and "32 \<le> length (mio_manifest_key io)" and "16 \<le> length (mio_manifest_hash io)"
    and "all_well io" and "commit_possible opts garbage vs e c p" and "NeedNewManifest opts new_descriptor_log vs"
    and "length junk = kBlockSize" and "recoverable cfg vs" and "families_fit vs"
    and "\<And>n. hf_load_tables cfg n = StatusOK" and "vset_families vs0 = []" and "vset_wals vs0 = []"
  shows "\<exists>vs' v w. ProcessManifestWrites ssl opts io garbage new_descriptor_log None [waiting e] vs =
      Ok (StatusOK, [], vs') \<and> vset_descriptor_log vs' = Some w \<and>
    vset_families vs' = map (family_after e v) (vset_families vs) \<and>
    saved_family (spec_change e p (abs_family c)) v \<and>
    manifest_log ssl (mio_manifest_key io) (mio_manifest_hash io) (committed_edits opts garbage vs e) (dest w) \<and>
    (length (dest w) < 2 ^ 64 - 1 \<longrightarrow>
      (\<exists>keys' vs2. Recover ssl (mio_manifest_key io) (mio_manifest_hash io) junk secret cfg garbage (dest w) keys vs0 =
          Some (Ok (StatusOK, keys', vs2)) \<and>
        list_all2 same_family (live_families vs') (vset_families vs2) \<and>
        vset_wals vs2 = vset_wals vs' \<and> vset_last_sequence vs2 = writer_last_sequence opts vs \<and>
        vset_next_file_number vs2 = vset_next_file_number vs' + 1 \<and>
        (keys', vset_log_secret vs2) = collect e (keys, vset_log_secret vs0)))"
proof -
  obtain vs' v w where step: "ProcessManifestWrites ssl opts io garbage new_descriptor_log None [waiting e] vs =
      Ok (StatusOK, [], vs')" "vset_families vs' = map (family_after e v) (vset_families vs)"
    "vset_wals vs' = vset_wals vs" "vset_descriptor_log vs' = Some w"
    "vset_next_file_number vs' = vset_next_file_number vs + 1"
    "saved_family (spec_change e p (abs_family c)) v"
    "manifest_log ssl (mio_manifest_key io) (mio_manifest_hash io) (committed_edits opts garbage vs e) (dest w)"
    using Process_single [OF assms(1-6)] by blast
  have "live_families vs' = map (family_after e v) (live_families vs)"
    by (simp add: live_families_def step(2) filter_map comp_def family_after_def if_distrib cong: if_cong)
  then show ?thesis
    using step Recover_committed [OF assms(1-3,7) step(7) _ assms(8,5,9,10-12) step(6), of secret keys]
    by (intro exI [of _ vs'] exI [of _ v] exI [of _ w]) (auto simp: add.assoc)
qed

text \<open>The version set used by the witnesses: the default family has one file, on level 0.\<close>

definition sample_base :: VersionStorageInfo where
  "sample_base = StorageAddFile 0 (sample_file\<lparr>fm_fd := NewFileDescriptor 14 0 4096 10 20\<rparr>)
     (NewVersion sample_options)"

definition sample_family :: ColumnFamilyData where
  "sample_family = \<lparr>cfd_id = 0, cfd_name = kDefaultColumnFamilyName, cfd_options = sample_options,
     cfd_log_number = 3, cfd_current = sample_base, cfd_dropped = False\<rparr>"

definition sample_vset :: VersionSet where
  "sample_vset = NewVersionSet\<lparr>vset_families := [sample_family], vset_next_file_number := 15,
     vset_last_sequence := 20\<rparr>"

definition sample_db :: db_options where
  "sample_db = \<lparr>db_two_write_queues = False, db_paranoid_checks = True, db_max_manifest_file_size = 1000,
     db_write_dbid_to_manifest = False\<rparr>"

definition sample_manifest_io :: manifest_io where
  "sample_manifest_io = \<lparr>mio_load_tables = [], mio_new_file = StatusOK, mio_new_dest = [], mio_sync = StatusOK,
     mio_set_current = StatusOK, mio_manifest_key = replicate 32 5, mio_manifest_hash = replicate 16 6\<rparr>"

lemma sample_base_fits:
  "version_ok (InternalCompare BytewiseCompare) sample_base" "length (vs_files sample_base) = 2"
  "version_files sample_base 12 = None" "vs_blob_files sample_base = []"
  "\<not> vs_force_consistency_checks sample_base"
proof -
  let ?f = "sample_file\<lparr>fm_fd := NewFileDescriptor 14 0 4096 10 20\<rparr>"
  let ?v0 = "NewVersion sample_options"
  have n: "GetNumber (NewFileDescriptor 14 0 4096 10 20) = 14" by code_simp
  have new: "locations_ok ?v0" "0 < length (vs_files ?v0)" "version_files ?v0 = Map.empty"
    using NewVersion_ok(1) [of "InternalCompare BytewiseCompare" sample_options] NewVersion_ok(2,3) [of sample_options]
    by (simp_all add: version_ok_def sample_options_def)
  have "locations_ok sample_base" "version_files sample_base = [14 \<mapsto> (0, ?f)]"
    using StorageAddFile_ok [OF new(1,2)] unfolding sample_base_def new(3) by (simp_all add: n)
  then show "version_ok (InternalCompare BytewiseCompare) sample_base" "version_files sample_base 12 = None"
    by (simp_all add: version_ok_def sample_base_def StorageAddFile_def NewVersion_def sample_options_def
      NewVersionStorageInfo_def Let_def less_Suc_eq numeral_2_eq_2)
  show "length (vs_files sample_base) = 2" "vs_blob_files sample_base = []" "\<not> vs_force_consistency_checks sample_base"
    by (simp_all add: sample_base_def StorageAddFile_def NewVersion_def sample_options_def NewVersionStorageInfo_def Let_def)
qed

lemma sample_snapshot:
  "snapshot_edits sample_db sample_memory sample_vset (curr_logs sample_vset) (wal_edit sample_memory (vset_wals sample_vset)) =
     [SnapshotFamily sample_memory sample_family, SnapshotFiles sample_memory 3 sample_family]"
proof -
  have "curr_logs sample_vset 0 = Some 3"
    by (simp add: curr_logs_def sample_vset_def sample_family_def)
  then show ?thesis
    by (simp add: snapshot_edits_def sample_db_def wal_edit_def sample_vset_def NewVersionSet_def family_edits_def
      NewVersionEdit_def Clear_def) (simp add: sample_family_def)
qed

lemma sample_committed:
  "\<forall>e \<in> set (committed_edits sample_db sample_memory sample_vset sample_add). edit_ok sample_memory e"
proof -
  have files: "vs_files sample_base = [[sample_file\<lparr>fm_fd := NewFileDescriptor 14 0 4096 10 20\<rparr>], []]"
    by (simp add: sample_base_def StorageAddFile_def NewVersion_def sample_options_def NewVersionStorageInfo_def
      Let_def numeral_2_eq_2)
  have ok: "edit_ok sample_memory (SnapshotFamily sample_memory sample_family)"
    "edit_ok sample_memory (SnapshotFiles sample_memory 3 sample_family)"
    by (simp_all add: SnapshotFamily_edit SnapshotFiles_edit snapshot_files_def edit_ok_def sample_family_def
      sample_options_def files sample_base_fits(4) NewVersionEdit_def Clear_def file_ok_def sample_file_def
      NewFileMetaData_def sample_keys_valid kUnknownFileChecksumFuncName_def sample_memory_def upt_rec [of 0] upt_rec [of 1])
  have "edit_ok sample_memory (committed_edit sample_db sample_vset sample_add)"
    using sample_edits_ok(2)
    by (simp add: edit_ok_def committed_edit_def helped_edit_def Let_def SetPrevLogNumber_def SetNextFile_def
      SetLastSequence_def SetMaxColumnFamily_def)
  then show ?thesis using ok by (simp add: committed_edits_def sample_snapshot)
qed

lemma sample_commit:
  "commit_possible sample_db sample_memory sample_vset sample_add sample_family
     ((version_files sample_base)(12 \<mapsto> (1, sample_file)), {})"
proof -
  have n: "file_number sample_file = 12" by code_simp
  have spec: "spec_edit sample_add (version_files sample_base, {}) = Some ((version_files sample_base)(12 \<mapsto> (1, sample_file)), {})"
    using sample_base_fits(3)
    by (simp add: n spec_edit_def spec_addition_def sample_add_def AddFile_def SetNextFile_def
      SetLastSequence_def NewVersionEdit_def Clear_def)
  have fits: "levels_in_range 2 sample_add" "comparator_fits sample_add sample_options"
    "file_edit sample_add" "ve_column_family sample_add = 0" "\<not> ve_has_log_number sample_add"
    by code_simp+
  have "consistent_family (spec_change sample_add p (abs_family sample_family))" for p
    by (rule unchecked_consistent) (simp add: sample_family_def)
  moreover have "CheckConsistency icmp 2 sample_base = StatusOK" for icmp
    using sample_base_fits(5) by (simp add: CheckConsistency_def)
  moreover have "sample_family \<in> set (vset_families sample_vset)" "distinct (map cfd_id (vset_families sample_vset))"
    by (simp_all add: sample_vset_def)
  ultimately show ?thesis
    using sample_committed sample_base_fits spec fits
    by (simp add: commit_possible_def edited_family_def version_fits_def)
      (simp add: sample_family_def sample_options_def)
qed

lemma sample_recoverable: "recoverable sample_config sample_vset" "families_fit sample_vset"
proof -
  have "version_fits sample_family"
    using sample_base_fits by (simp add: version_fits_def) (simp add: sample_family_def sample_options_def)
  then have "family_known sample_config sample_family"
    by (simp add: family_known_def) (simp add: sample_family_def name_to_options_def sample_config_def)
  then show "recoverable sample_config sample_vset"
    by (simp add: recoverable_def live_families_def sample_vset_def NewVersionSet_def)
      (simp add: sample_family_def)
  have "consistent_family (abs_family sample_family)"
    by (rule unchecked_consistent) (simp add: sample_family_def)
  then show "families_fit sample_vset"
    using sample_base_fits(5)
    by (simp add: families_fit_def live_families_def sample_vset_def)
      (simp add: sample_family_def sample_options_def)
qed

lemma sample_commit_size:
  "manifest_log toy_openssl (mio_manifest_key sample_manifest_io) (mio_manifest_hash sample_manifest_io)
     (committed_edits sample_db sample_memory sample_vset sample_add) contents \<Longrightarrow> length contents < 2 ^ 64 - 1"
proof -
  have "manifest_size [SnapshotFamily sample_memory sample_family, SnapshotFiles sample_memory 3 sample_family,
      committed_edit sample_db sample_vset sample_add] \<le> 10000"
    by code_simp
  then have "manifest_size (committed_edits sample_db sample_memory sample_vset sample_add) \<le> kBlockSize"
    by (simp add: committed_edits_def sample_snapshot log_sizes)
  then show "manifest_log toy_openssl (mio_manifest_key sample_manifest_io) (mio_manifest_hash sample_manifest_io)
      (committed_edits sample_db sample_memory sample_vset sample_add) contents \<Longrightarrow> length contents < 2 ^ 64 - 1"
    using small_manifest(2) [OF toy_openssl_ok _ _ sample_committed, of "mio_manifest_key sample_manifest_io" "mio_manifest_hash sample_manifest_io"]
    by (simp add: sample_manifest_io_def)
qed

theorem commit_recovers_witness:
  "\<exists>vs' v w keys' vs2.
    ProcessManifestWrites toy_openssl sample_db sample_manifest_io sample_memory False None [waiting sample_add]
      sample_vset = Ok (StatusOK, [], vs') \<and> vset_descriptor_log vs' = Some w \<and>
    vset_families vs' = map (family_after sample_add v) (vset_families sample_vset) \<and>
    saved_family (spec_change sample_add ((version_files sample_base)(12 \<mapsto> (1, sample_file)), {})
      (abs_family sample_family)) v \<and>
    Recover toy_openssl (mio_manifest_key sample_manifest_io) (mio_manifest_hash sample_manifest_io)
      (replicate kBlockSize 1) ([], []) sample_config sample_memory (dest w) Map.empty NewVersionSet =
      Some (Ok (StatusOK, keys', vs2)) \<and>
    list_all2 same_family (live_families vs') (vset_families vs2) \<and>
    (keys', vset_log_secret vs2) = collect sample_add (Map.empty, Map.empty)"
proof -
  have io: "all_well sample_manifest_io" "32 \<le> length (mio_manifest_key sample_manifest_io)" "16 \<le> length (mio_manifest_hash sample_manifest_io)"
    "NeedNewManifest sample_db False sample_vset"
    by (simp_all add: sample_manifest_io_def all_well_def NeedNewManifest_def sample_vset_def NewVersionSet_def)
  have cfg: "hf_load_tables sample_config n = StatusOK" "vset_families NewVersionSet = []"
    "vset_wals NewVersionSet = []" "vset_log_secret NewVersionSet = Map.empty"
    "length (replicate kBlockSize (1 :: byte)) = kBlockSize" for n
    by (simp_all add: sample_config_def NewVersionSet_def)
  show ?thesis
    using commit_recovers [OF toy_openssl_ok io(2,3,1) sample_commit io(4) cfg(5) sample_recoverable cfg(1-3),
      of "([], [])" Map.empty] sample_commit_size
    unfolding cfg(4) by blast
qed

text \<open>
  C39: the version set stays well formed, whatever \<open>ProcessManifestWrites\<close> meets: if the writers in the
  queue name levels that their families have, and new families have new numbers, then after the
  call, in whichever way it returns, the families have distinct numbers, and each has as its
  current version one with the number of levels and the flag of its options whose levels are in
  their order, with every file number once and its location right. The answers of the files, the
  groups that are formed and the error path that resets the new manifest are arbitrary.
\<close>

theorem manifest_writes_well_formed:
  assumes "vset_wf vs" and "\<forall>w \<in> set queue. writer_fits vs new_cf w"
    and "ProcessManifestWrites ssl opts io garbage new_descriptor_log new_cf queue vs = Ok (s, rest, vs')"
  shows "vset_wf vs'"
  by (rule ProcessManifestWrites_wf [OF assms])

lemma sample_process:
  "\<exists>vs'. ProcessManifestWrites toy_openssl sample_db sample_manifest_io sample_memory False None [waiting sample_add] sample_vset =
     Ok (StatusOK, [], vs')"
proof -
  have io: "all_well sample_manifest_io" "32 \<le> length (mio_manifest_key sample_manifest_io)" "16 \<le> length (mio_manifest_hash sample_manifest_io)"
    "NeedNewManifest sample_db False sample_vset"
    by (simp_all add: sample_manifest_io_def all_well_def NeedNewManifest_def sample_vset_def NewVersionSet_def)
  show ?thesis using Process_single [OF toy_openssl_ok io(2,3,1) sample_commit io(4)] by blast
qed

theorem manifest_writes_well_formed_witness:
  "\<exists>vs'. ProcessManifestWrites toy_openssl sample_db sample_manifest_io sample_memory False None [waiting sample_add] sample_vset =
     Ok (StatusOK, [], vs') \<and> vset_wf vs'"
proof -
  obtain vs' where p: "ProcessManifestWrites toy_openssl sample_db sample_manifest_io sample_memory False None [waiting sample_add]
      sample_vset = Ok (StatusOK, [], vs')"
    using sample_process by blast
  have "version_fits sample_family"
    using sample_base_fits by (simp add: version_fits_def) (simp add: sample_family_def sample_options_def)
  then have "vset_wf sample_vset"
    using sample_base_fits(5) ibytewise.comparator_axioms
    by (simp add: vset_wf_def family_wf_def sample_vset_def) (simp add: sample_family_def sample_options_def)
  moreover have "writer_fits sample_vset None (waiting sample_add)"
  proof -
    have "levels_in_range 2 sample_add" "\<not> ve_is_column_family_add sample_add" by code_simp+
    then show ?thesis
      by (simp add: writer_fits_def waiting_def sample_vset_def sample_family_def sample_options_def)
  qed
  ultimately show ?thesis using manifest_writes_well_formed [of sample_vset _ _ _ _ _ _ _, OF _ _ p] p by simp
qed

text \<open>
  C40: no call of \<open>LogAndApply\<close> is overtaken for ever. When the calls keep their writers together in the
  queue, the call of the writer at place \<open>i\<close> has returned after at most \<open>i + 1\<close> times that a call
  at the head of the queue has done its work, whatever calls enter in between and whatever the files
  answer, unless a head call has failed before it reached the manifest (C25).
\<close>

theorem queued_calls_return:
  assumes "queue_runs ssl opts garbage ms q q'" and "whole_calls q" and "i < length (mq_writers q)"
    and "fst (mq_writers q ! i) = u" and "i < length (filter is_head ms)"
  shows "mq_returned q' u \<noteq> None \<or> failure_in ssl opts garbage ms q"
  by (rule waiting_returns [OF assms])

definition sample_call :: "nat \<Rightarrow> VersionEdit \<Rightarrow> apply_call" where
  "sample_call t e = \<lparr>ac_writer_at = (\<lambda>i. 8 * (t - 1) + i), ac_cfds = [Some 0], ac_edit_lists = [[e]], ac_new_descriptor_log = False, ac_new_cf_options = None\<rparr>"

definition sample_queue :: "(nat \<times> VersionEdit) list \<Rightarrow> manifest_queue" where
  "sample_queue ts =
     \<lparr>mq_writers = map (\<lambda>(t, e). (t, \<lparr>mw_address = 8 * (t - 1), mw_cfd = Some 0, mw_edit_list = [e]\<rparr>)) ts,
      mq_calls = map_of (map (\<lambda>(t, e). (t, sample_call t e)) ts), mq_returned = Map.empty, mq_vset = sample_vset\<rparr>"

lemma sample_undropped: "list_ex (undropped (mq_vset (sample_queue ts))) (ac_cfds (sample_call t e))"
  by (simp add: sample_queue_def sample_call_def undropped_def sample_vset_def sample_family_def)

theorem queued_calls_return_witness:
  "\<exists>q'. queue_runs toy_openssl sample_db sample_memory [Heads 1 sample_manifest_io] (sample_queue [(1, sample_add)]) q' \<and>
     (mq_returned q' 1 \<noteq> None \<or>
      failure_in toy_openssl sample_db sample_memory [Heads 1 sample_manifest_io] (sample_queue [(1, sample_add)]))"
proof -
  let ?q = "sample_queue [(1, sample_add)]"
  have w: "waiting sample_add = \<lparr>mw_address = 0, mw_cfd = Some 0, mw_edit_list = [sample_add]\<rparr>"
    by (simp add: waiting_def sample_add_def AddFile_def SetNextFile_def SetLastSequence_def NewVersionEdit_def Clear_def)
  have alive: "\<not> destroyed ?q (hd (mq_writers ?q))" "at_front 1 (sample_call 1 sample_add) ?q"
    "mq_returned ?q 1 = None" "mq_calls ?q 1 = Some (sample_call 1 sample_add)"
    by (simp_all add: sample_queue_def at_front_def destroyed_def)
  obtain vs' where "ProcessManifestWrites toy_openssl sample_db sample_manifest_io sample_memory False None
      (map snd (mq_writers ?q)) (mq_vset ?q) = Ok (StatusOK, [], vs')"
    using sample_process unfolding w by (auto simp: sample_queue_def)
  then obtain q' where "LogAndApplyHead toy_openssl sample_db sample_manifest_io sample_memory 1 (sample_call 1 sample_add) ?q = Ok q'"
    using sample_undropped [of "[(1, sample_add)]" 1 sample_add] alive
    by (auto simp: LogAndApplyHead_def sample_call_def)
  then have "queue_moves toy_openssl sample_db sample_memory (Heads 1 sample_manifest_io) ?q q'"
    by (rule queue_moves.heads [OF alive(2,1,3,4)])
  then have run: "queue_runs toy_openssl sample_db sample_memory [Heads 1 sample_manifest_io] ?q q'"
    by (rule queue_runs.go [OF _ queue_runs.stop])
  have "mq_writers ?q = [] @ map (Pair 1) (call_writers (sample_call 1 sample_add)) @ []"
    by (simp add: sample_queue_def sample_call_def call_writers_def)
  moreover have "t = 1 \<and> c = sample_call 1 sample_add" if "mq_calls ?q t = Some c" for t c
    using that by (simp add: sample_queue_def split: if_split_asm)
  moreover have "\<forall>p \<in> set (mq_writers ?q). mq_calls ?q (fst p) \<noteq> None" by (simp add: sample_queue_def)
  moreover have "ac_cfds (sample_call 1 sample_add) \<noteq> []"
    "length (ac_cfds (sample_call 1 sample_add)) = length (ac_edit_lists (sample_call 1 sample_add))"
    by (simp_all add: sample_call_def)
  ultimately have "whole_calls ?q"
    unfolding whole_calls_def by (metis Un_empty empty_iff image_empty list.set(1))
  from queued_calls_return [OF run this, of 0 1] show ?thesis
    by (intro exI [of _ q'] conjI run) (simp_all add: sample_queue_def)
qed

text \<open>An edit that cannot be applied: it deletes a file that is not there.\<close>

definition sample_bad :: VersionEdit where
  "sample_bad = VersionDeleteFile 1 5 (NewVersionEdit sample_memory)"

text \<open>
  C25: an edit that cannot be applied blocks the version set. When the call at the head of the queue
  fails while the edits are collected (the early returns of \<open>ProcessManifestWrites\<close>), it returns the
  error, but its writers stay in the queue, and the front is a pointer to a writer that was destroyed.
  As long as no other call has its first writer at the address of the destroyed one, no step does any
  work, and no other call that has edits passes the test of the front or returns, whether it waited
  then or enters later. And if a writer is allocated at that address and its call goes on with a family
  that is not dropped, that is undefined behaviour.
\<close>

theorem failed_commit_blocks:
  assumes "queue_moves ssl opts garbage (Heads t io) q q'"
    and "CollectBatch opts (mq_vset q) (map snd (mq_writers q)) = Ok (s, mb, versions)" and "s \<noteq> StatusOK"
    and "mq_calls q t = Some call" and "list_ex (undropped (mq_vset q)) (ac_cfds call)"
    and "queue_runs ssl opts garbage ms q' q''"
    and "\<forall>v c. mq_calls q'' v = Some c \<and> v \<noteq> t \<and> mq_returned q v = None \<longrightarrow>
      ac_writer_at c 0 \<noteq> mw_address (snd (hd (mq_writers q)))"
    and "u \<noteq> t" and "mq_calls q'' u = Some other" and "concat (ac_edit_lists other) \<noteq> []"
    and "mq_returned q u = None"
  shows "mq_returned q' t = Some s \<and> mq_writers q' = mq_writers q \<and> mq_vset q' = mq_vset q \<and>
    filter is_head ms = [] \<and> mq_returned q'' u = None \<and> \<not> at_front u other q'' \<and>
    (list_ex (undropped (mq_vset q)) (ac_cfds c) \<longrightarrow>
      LogAndApplyHead ssl opts io' garbage v c q'' = Undef)"
proof -
  note head = failed_head [OF assms(1-5)]
  have stays: "filter is_head ms = []" "blocked q''" "hd (mq_writers q'') = hd (mq_writers q')"
    "mq_vset q'' = mq_vset q'" "mq_returned q'' u = mq_returned q' u"
    using blocked_stays [OF assms(6) head(2)] assms(9,10) by blast+
  have "ac_writer_at other 0 \<noteq> mw_address (snd (hd (mq_writers q')))"
    using assms(7-9,11) head(1) by simp
  then have "\<not> at_front u other q''" using stays(2,3) by (auto simp: at_front_def blocked_def Let_def)
  then show ?thesis using stays head(1) assms(8,11) blocked_head [OF stays(2)] by simp
qed

theorem failed_commit_blocks_witness:
  "\<exists>q' s. queue_moves toy_openssl sample_db sample_memory (Heads 1 sample_manifest_io) (sample_queue [(1, sample_bad), (2, sample_add)]) q' \<and>
     s \<noteq> StatusOK \<and> mq_returned q' 1 = Some s \<and>
     mq_returned (LogAndApplyEnter 3 (sample_call 3 sample_add) q') 2 = None \<and>
     mq_returned (LogAndApplyEnter 3 (sample_call 3 sample_add) q') 3 = None"
proof -
  let ?q = "sample_queue [(1, sample_bad), (2, sample_add)]" and ?call = "sample_call 3 sample_add"
  have "case CollectBatch sample_db sample_vset (map snd (mq_writers ?q)) of
      Ok (s, _, _) \<Rightarrow> s \<noteq> StatusOK | _ \<Rightarrow> False"
    by code_simp
  then obtain s mb versions where cb: "CollectBatch sample_db (mq_vset ?q) (map snd (mq_writers ?q)) = Ok (s, mb, versions)"
    "s \<noteq> StatusOK"
    by (auto simp: sample_queue_def split: outcome.splits)
  note live = sample_undropped [of "[(1, sample_bad), (2, sample_add)]" 1 sample_bad]
  have q: "mq_calls ?q 1 = Some (sample_call 1 sample_bad)" "mq_calls ?q 2 = Some (sample_call 2 sample_add)"
    "mq_calls ?q 3 = None" "mq_returned ?q = Map.empty" "at_front 1 (sample_call 1 sample_bad) ?q"
    "\<not> destroyed ?q (hd (mq_writers ?q))" "mq_returned ?q 1 = None"
    by (simp_all add: sample_queue_def at_front_def destroyed_def)
  obtain q' where "LogAndApplyHead toy_openssl sample_db sample_manifest_io sample_memory 1 (sample_call 1 sample_bad) ?q = Ok q'"
    using cb live q(6) by (auto simp: LogAndApplyHead_def ProcessManifestWrites_def)
  then have move: "queue_moves toy_openssl sample_db sample_memory (Heads 1 sample_manifest_io) ?q q'"
    by (rule queue_moves.heads [OF q(5-7,1)])
  note fails = failed_commit_blocks [OF move cb q(1) live]
  have q': "mq_calls q' = mq_calls ?q" "mq_returned q' = [1 \<mapsto> s]"
    using failed_head(1) [OF move cb q(1) live] q by simp_all
  then have "queue_moves toy_openssl sample_db sample_memory (Enters 3 ?call) q' (LogAndApplyEnter 3 ?call q')"
    using q(3) by (intro queue_moves.enters) (simp_all add: sample_call_def)
  then have "queue_runs toy_openssl sample_db sample_memory [Enters 3 ?call] q' (LogAndApplyEnter 3 ?call q')"
    by (rule queue_runs.go [OF _ queue_runs.stop])
  note later = fails [OF this]
  have calls: "mq_calls (LogAndApplyEnter 3 ?call q') = (mq_calls ?q)(3 \<mapsto> ?call)"
    using q'(1) by (simp add: LogAndApplyEnter_def)
  then have apart: "\<forall>v c. mq_calls (LogAndApplyEnter 3 ?call q') v = Some c \<and> v \<noteq> 1 \<and> mq_returned ?q v = None \<longrightarrow>
      ac_writer_at c 0 \<noteq> mw_address (snd (hd (mq_writers ?q)))"
    by (auto simp: sample_queue_def sample_call_def split: if_split_asm)
  have "mq_returned (LogAndApplyEnter 3 ?call q') u = None" if "u \<in> {2, 3}" for u
    using later [OF apart, of u "sample_call u sample_add"] that calls q
    by (auto simp: sample_call_def)
  then show ?thesis using q' by (intro exI [of _ q'] exI [of _ s] conjI move cb(2)) simp_all
qed

section \<open>The MemTable\<close>

text \<open>
  For the witnesses: blocks that follow each other, the options and the environment of an insertion,
  an empty table, and the look-up of a key.
\<close>

definition bump_malloc :: malloc where
  "bump_malloc live n = foldr (\<lambda>r p. max (fst r + snd r) p) live 16"

lemma bump_malloc_ok: "malloc_ok [] bump_malloc"
proof -
  have "fst r + snd r \<le> bump_malloc live n" if "r \<in> set live" for r live n
    using that by (induction live) (auto simp: bump_malloc_def)
  then show ?thesis by (force simp: malloc_ok_def disj_def)
qed

definition sample_opts :: MemTableOptions where
  "sample_opts = \<lparr>mo_merge_operator = Some \<lparr>mg_FullMergeV2 = \<lambda>_ _ ops. (concat ops, True),
     mg_ShouldMerge = \<lambda>_. False\<rparr>, mo_inplace_update_support = False, mo_hint_extractor = None\<rparr>"

definition add_env :: AddEnv where
  "add_env = \<lparr>ae_draws = \<lambda>_. 0, ae_garbage = (\<lambda>_. 0, \<lambda>_. None), ae_direct = True, ae_core = 0\<rparr>"

abbreviation table_key :: bytes where "table_key \<equiv> replicate 32 7"

definition sample_table :: MemTable where
  "sample_table = MakeMemTable (\<lambda>_. 0, \<lambda>_. None) (\<lambda>_. 0, \<lambda>_. None) 1 (\<lambda>_. 0) 0"

definition sample_get :: "bytes \<Rightarrow> SequenceNumber \<Rightarrow> SaveEnv" where
  "sample_get key s =
     \<lparr>se_opts = sample_opts, se_ssl = toy_openssl, se_memtable_key = table_key,
      se_ucmp = BytewiseCompare, se_mem = \<lambda>_. 0, se_key = MakeLookupKey key s None,
      se_max_covering_tombstone_seq = 0, se_do_merge = True, se_callback = None\<rparr>"

definition sample_saver :: Saver where
  "sample_saver =
     \<lparr>sv_status = StatusOK, sv_found_final_value = False, sv_merge_in_progress = False,
      sv_value = Some [], sv_seq = 0, sv_operands = [], sv_is_blob_index = None, sv_tag_printed = False\<rparr>"

lemma sample_table_inv: "mem_inv BytewiseCompare toy_openssl table_key sample_table [] []"
  unfolding sample_table_def by (rule MakeMemTable_inv [OF bytewise.comparator_axioms])

lemma sample_table_room:
  "ae_core add_env < length (ca_shards (mt_u_arena sample_table))"
  "ar_blocks (ca_arena (mt_u_arena sample_table)) = []"
  "block_below bump_malloc (mt_u_arena sample_table)"
  by (simp_all add: sample_table_def MakeMemTable_def MakeConcurrentArena_def MakeUntrusted_Arena_def
      block_below_def bump_malloc_def add_env_def kMinBlockSize_def)

lemma sample_get_simps:
  "se_ssl (sample_get key s) = toy_openssl" "se_memtable_key (sample_get key s) = table_key"
  "se_ucmp (sample_get key s) = BytewiseCompare" "se_opts (sample_get key s) = sample_opts"
  "se_key (sample_get key s) = MakeLookupKey key s None" "se_callback (sample_get key s) = None"
  "se_do_merge (sample_get key s)" "se_max_covering_tombstone_seq (sample_get key s) = 0"
  by (simp_all add: sample_get_def)

lemma table_key_fits: "key_fits [97]" "entry_fits [97]" "\<not> entry_fits [97, 98, 99]" "key_fits [97, 98, 99]"
  by (simp_all add: key_fits_def entry_fits_def prefix_len_short)

definition sample_entry :: "SequenceNumber \<Rightarrow> ValueType \<Rightarrow> mem_entry" where
  "sample_entry s t = \<lparr>me_key = [97], me_seq = s, me_type = t, me_value = [104, 105]\<rparr>"

lemma table_add:
  assumes inv: "mem_inv BytewiseCompare toy_openssl table_key m es []"
    and a: "arena_after bump_malloc (mt_u_arena sample_table) (mt_u_arena m)"
    and s: "0 < s" "s \<le> kMaxSequenceNumber" and t: "t \<noteq> kTypeRangeDeletion"
  shows "\<exists>res m'. MemAdd bump_malloc toy_openssl table_key BytewiseCompare sample_opts add_env s t
      [97] [104, 105] m = Some (Ok (res, m')) \<and>
    mem_inv BytewiseCompare toy_openssl table_key m' (insert_entry BytewiseCompare (sample_entry s t) es) [] \<and>
    arena_after bump_malloc (mt_u_arena m) (mt_u_arena m')"
proof -
  have "ae_core add_env < length (ca_shards (mt_u_arena m))"
    and "block_below bump_malloc (mt_u_arena m)"
    using a sample_table_room by (auto simp: arena_after_def block_below_def bump_malloc_def kMinBlockSize_def)
  from MemAdd_refines [OF bytewise.comparator_axioms toy_openssl_ok _ bump_malloc_ok inv _ this
      table_key_fits(1,2) _ s(2) _ refl, of sample_opts "[104, 105]" t]
  show ?thesis using s t by (auto simp: sample_opts_def kMinBlockSize_def sample_entry_def)
qed

lemma table_first:
  assumes "0 < s" and "s \<le> kMaxSequenceNumber" and "t \<noteq> kTypeRangeDeletion"
  shows "\<exists>res m. MemAdd bump_malloc toy_openssl table_key BytewiseCompare sample_opts add_env s t
      [97] [104, 105] sample_table = Some (Ok (res, m)) \<and>
    mem_inv BytewiseCompare toy_openssl table_key m [sample_entry s t] [] \<and>
    arena_after bump_malloc (mt_u_arena sample_table) (mt_u_arena m)"
  using table_add [OF sample_table_inv _ assms]
  by (simp add: arena_after_def insert_entry_def has_entry_def)

text \<open>
  C14: a table to which entries were added with ascending sequence numbers answers a look-up with
  the last entry of the key that the snapshot sees: its value, decrypted, or that the key is not
  there when it is a deletion or below a range tombstone.
\<close>

theorem memtable_returns_last:
  assumes "comparator (se_ucmp e)" and "openssl_ok (se_ssl e)" and "length (se_memtable_key e) = 32"
    and "malloc_ok [] malloc" and "mo_hint_extractor opts = None"
    and "mem_added malloc (se_ssl e) (se_memtable_key e) (se_ucmp e) opts m hist"
    and "key_fits key" and "s \<le> kMaxSequenceNumber" and "se_key e = MakeLookupKey key s None"
    and "se_callback e = None" and "se_do_merge e"
    and "sv_status sv = StatusOK" and "sv_value sv = Some v0"
  shows "\<exists>res sv'. MemGet e m ignore tombstone sv = Some (Ok (res, se_max_covering_tombstone_seq e, sv')) \<and>
    answers (last_visible (se_ucmp e) key s hist) (se_max_covering_tombstone_seq e) sv res sv'"
  by (rule MemGet_last [OF assms])

theorem memtable_returns_last_witness:
  "\<exists>m res sv'. MemGet (sample_get [97] 7) m False 0 sample_saver = Some (Ok (res, 0, sv')) \<and>
    answers (Some (sample_entry 5 kTypeValue)) 0 sample_saver res sv'"
proof -
  have t: "kTypeValue \<noteq> kTypeRangeDeletion" "plain_type kTypeValue"
    by (simp_all add: value_type_defs plain_type_def)
  obtain res m where r: "MemAdd bump_malloc toy_openssl table_key BytewiseCompare sample_opts add_env 5
      kTypeValue [97] [104, 105] sample_table = Some (Ok (res, m))"
    using table_first [of 5 kTypeValue] t by (auto simp: kMaxSequenceNumber_def)
  have "mem_added bump_malloc toy_openssl table_key BytewiseCompare sample_opts sample_table []"
    unfolding sample_table_def by (rule mem_added.fresh)
  from mem_added.added [OF this sample_table_room(1,3) table_key_fits(1,2) _ t(2) _ _ _ r]
  have m: "mem_added bump_malloc toy_openssl table_key BytewiseCompare sample_opts m [sample_entry 5 kTypeValue]"
    by (simp add: sample_entry_def kMaxSequenceNumber_def kMinBlockSize_def)
  have "last_visible BytewiseCompare [97] 7 [sample_entry 5 kTypeValue] = Some (sample_entry 5 kTypeValue)"
    by (simp add: last_visible_def sample_entry_def bytewise.refl)
  with memtable_returns_last [of "sample_get [97] 7", unfolded sample_get_simps,
      OF bytewise.comparator_axioms toy_openssl_ok _ bump_malloc_ok _ m table_key_fits(1) _ refl refl,
      where sv = sample_saver and ignore = False and tombstone = 0]
  show ?thesis by (auto simp: sample_opts_def sample_saver_def kMaxSequenceNumber_def sample_get_def)
qed

text \<open>
  C23: \<open>Get\<close> refines the look-up of the newest entry at or below the sequence number in the list of
  entries that a table holds, with the tombstone that the range deletions give.
\<close>

theorem memtable_get_refines:
  assumes "comparator (se_ucmp e)" and "openssl_ok (se_ssl e)" and "length (se_memtable_key e) = 32"
    and "mem_inv (se_ucmp e) (se_ssl e) (se_memtable_key e) m es rs"
    and "\<forall>x\<in>set es. plain_type (me_type x)"
    and "key_fits key" and "s \<le> kMaxSequenceNumber" and "se_key e = MakeLookupKey key s None"
    and "se_callback e = None" and "se_do_merge e"
    and "sv_status sv = StatusOK" and "sv_value sv = Some v0"
    and "max_seq = (if ignore \<or> rs = [] then se_max_covering_tombstone_seq e
      else max (se_max_covering_tombstone_seq e) tombstone)"
  shows "\<exists>res sv'. MemGet e m ignore tombstone sv = Some (Ok (res, max_seq, sv')) \<and>
    answers (visible_entry (se_ucmp e) key s es) max_seq sv res sv'"
  by (rule MemGet_refines [OF assms])

theorem memtable_get_refines_witness:
  "\<exists>m res sv'. MemGet (sample_get [97] 7) m False 0 sample_saver = Some (Ok (res, 0, sv')) \<and>
    answers (Some (sample_entry 5 kTypeDeletion)) 0 sample_saver res sv'"
proof -
  obtain m where m: "mem_inv BytewiseCompare toy_openssl table_key m [sample_entry 5 kTypeDeletion] []"
    using table_first [of 5 kTypeDeletion] by (auto simp: kMaxSequenceNumber_def value_type_defs)
  have "visible_entry BytewiseCompare [97] 7 [sample_entry 5 kTypeDeletion] = Some (sample_entry 5 kTypeDeletion)"
    by (simp add: visible_entry_def sample_entry_def bytewise.refl)
  with memtable_get_refines [of "sample_get [97] 7", unfolded sample_get_simps,
      OF bytewise.comparator_axioms toy_openssl_ok _ m _ table_key_fits(1) _ refl refl,
      where sv = sample_saver and ignore = False and tombstone = 0 and max_seq = 0]
  show ?thesis
    by (auto simp: sample_saver_def kMaxSequenceNumber_def sample_entry_def plain_type_def sample_get_def)
qed

text \<open>
  C21: \<open>Add\<close> refines the insertion into the list of entries, for tables without an extractor of hints,
  keys below 2 GB and sequence numbers that are valid and not 0. When the value has at most 4096 bytes
  and the entry fits into the buffer that is asked for (for short keys: unless the key's length is 3
  modulo 8), the call returns, refuses exactly an entry whose user key and sequence number are there,
  and keeps what the table holds, the values in the untrusted memory included. In all other cases it
  does not return: a larger value ends the process, an entry that does not fit is written beyond its
  buffer.
\<close>

theorem memtable_add_refines:
  assumes "comparator ucmp" and "openssl_ok ssl" and "length mk = 32" and "malloc_ok [] malloc"
    and "mem_inv ucmp ssl mk m es rs" and "mo_hint_extractor opts = None"
    and "ae_core env < length (ca_shards (mt_u_arena m))" and "block_below malloc (mt_u_arena m)"
    and "key_fits key" and "length val < 2 ^ 64 - 8" and "s \<le> kMaxSequenceNumber" and "s \<noteq> 0"
    and "e = \<lparr>me_key = key, me_seq = s, me_type = t, me_value = val\<rparr>"
  shows "if kMinBlockSize < length val then MemAdd malloc ssl mk ucmp opts env s t key val m = Some Exit
    else if (prefix_len key + length key + 36) mod 8 = 0
      then MemAdd malloc ssl mk ucmp opts env s t key val m = Some Undef
    else
      (\<exists>m'. MemAdd malloc ssl mk ucmp opts env s t key val m =
          Some (Ok (\<not> has_entry ucmp key s (if t = kTypeRangeDeletion then rs else es), m')) \<and>
        mem_inv ucmp ssl mk m'
          (if t = kTypeRangeDeletion then es else insert_entry ucmp e es)
          (if t = kTypeRangeDeletion then insert_entry ucmp e rs else rs) \<and>
        arena_after malloc (mt_u_arena m) (mt_u_arena m'))"
proof -
  consider (large) "kMinBlockSize < length val"
    | (long) "length val \<le> kMinBlockSize" "\<not> entry_fits key" | (fits) "length val \<le> kMinBlockSize" "entry_fits key"
    by linarith
  then show ?thesis
  proof cases
    case large
    then show ?thesis using MemAdd_exits [OF assms(5) large assms(10)] by simp
  next
    case long
    then show ?thesis using MemAdd_overruns [OF assms(2-5,7-9) long(2,1)] by (simp add: entry_fits_def)
  next
    case fits
    then show ?thesis using MemAdd_refines [OF assms(1-9) fits(2,1) assms(11-13)] by (simp add: entry_fits_def)
  qed
qed

theorem memtable_add_refines_witness:
  "\<exists>m'. MemAdd bump_malloc toy_openssl table_key BytewiseCompare sample_opts add_env 5 kTypeValue
      [97] [104, 105] sample_table = Some (Ok (True, m')) \<and>
    mem_inv BytewiseCompare toy_openssl table_key m' [sample_entry 5 kTypeValue] []"
  using memtable_add_refines [OF bytewise.comparator_axioms toy_openssl_ok _ bump_malloc_ok
      sample_table_inv _ sample_table_room(1,3) table_key_fits(1) _ _ _ refl,
      of sample_opts "[104, 105]" 5 kTypeValue] table_key_fits(2)
  by (auto simp: sample_opts_def kMinBlockSize_def kMaxSequenceNumber_def value_type_defs has_entry_def
      insert_entry_def sample_entry_def entry_fits_def)

text \<open>
  C16: the entry that \<open>Add\<close> writes is one byte longer than the buffer it asks for. When the request
  is a multiple of eight bytes (keys of 3, 11, 19, ... bytes, below 120) the write leaves the buffer;
  a value larger than the block size of the untrusted arena ends the process.
\<close>

theorem memtable_add_overruns:
  assumes "openssl_ok ssl" and "length mk = 32" and "malloc_ok [] malloc"
    and "mem_inv ucmp ssl mk m es rs"
    and "ae_core env < length (ca_shards (mt_u_arena m))" and "block_below malloc (mt_u_arena m)"
    and "key_fits key" and "length val < 2 ^ 64 - 8"
  shows "(length val \<le> kMinBlockSize \<and> (prefix_len key + length key + 36) mod 8 = 0 \<longrightarrow>
      MemAdd malloc ssl mk ucmp opts env s t key val m = Some Undef) \<and>
    (length key < 120 \<longrightarrow> ((prefix_len key + length key + 36) mod 8 = 0 \<longleftrightarrow> length key mod 8 = 3)) \<and>
    (kMinBlockSize < length val \<longrightarrow>
      MemAdd malloc ssl mk ucmp opts env s t key val m = Some Exit)"
proof (intro conjI impI)
  show "(prefix_len key + length key + 36) mod 8 = 0 \<longleftrightarrow> length key mod 8 = 3" if "length key < 120"
    unfolding prefix_len_short [OF that] by presburger
qed (use assms MemAdd_overruns [OF assms(1-7)] MemAdd_exits [OF assms(4)] in \<open>auto simp: entry_fits_def\<close>)

theorem memtable_add_overruns_witness:
  "MemAdd bump_malloc toy_openssl table_key BytewiseCompare sample_opts add_env 5 kTypeValue
     [97, 98, 99] [104, 105] sample_table = Some Undef"
  using memtable_add_overruns [OF toy_openssl_ok _ bump_malloc_ok sample_table_inv
      sample_table_room(1,3) table_key_fits(4), of "[104, 105]" sample_opts 5 kTypeValue]
  by (simp add: kMinBlockSize_def prefix_len_short)

text \<open>
  C29: when the newest visible entry of a key is a merge and a value lies below it, a look-up reads
  an operand whose memory is gone (unless the table allows updates in place): the context keeps a
  reference to the local copy that held the decrypted operand.
\<close>

theorem merge_operand_dangles:
  assumes "comparator (se_ucmp e)" and "openssl_ok (se_ssl e)" and "length (se_memtable_key e) = 32"
    and "mem_inv (se_ucmp e) (se_ssl e) (se_memtable_key e) m es []"
    and "dropWhile (\<lambda>x. entry_less (se_ucmp e) x key s) es = x # y # zs"
    and "se_ucmp e (me_key x) key = 0" and "me_type x = kTypeMerge"
    and "se_max_covering_tombstone_seq e \<le> me_seq x"
    and "se_ucmp e (me_key y) key = 0" and "me_type y = kTypeValue"
    and "se_max_covering_tombstone_seq e \<le> me_seq y"
    and "key_fits key" and "s \<le> kMaxSequenceNumber" and "se_key e = MakeLookupKey key s None"
    and "se_callback e = None" and "se_do_merge e" and "\<not> mo_inplace_update_support (se_opts e)"
    and "mo_merge_operator (se_opts e) = Some mg" and "\<not> mg_ShouldMerge mg [Some (me_value x)]"
    and "sv_status sv = StatusOK" and "sv_value sv = Some v0" and "sv_operands sv = []"
  shows "MemGet e m ignore tombstone sv = Some Undef"
  by (rule MemGet_merge_dangles [OF assms])

theorem merge_operand_dangles_witness:
  "\<exists>m. mem_inv BytewiseCompare toy_openssl table_key m
      [sample_entry 6 kTypeMerge, sample_entry 5 kTypeValue] [] \<and>
    MemGet (sample_get [97] 7) m False 0 sample_saver = Some Undef"
proof -
  obtain m1 where m1: "mem_inv BytewiseCompare toy_openssl table_key m1 [sample_entry 5 kTypeValue] []"
    "arena_after bump_malloc (mt_u_arena sample_table) (mt_u_arena m1)"
    using table_first [of 5 kTypeValue] by (auto simp: kMaxSequenceNumber_def value_type_defs)
  have "insert_entry BytewiseCompare (sample_entry 6 kTypeMerge) [sample_entry 5 kTypeValue] =
      [sample_entry 6 kTypeMerge, sample_entry 5 kTypeValue]"
    by (simp add: insert_entry_def has_entry_def entry_less_def entry_cmp_def sample_entry_def bytewise.refl)
  then obtain m where m: "mem_inv BytewiseCompare toy_openssl table_key m
      [sample_entry 6 kTypeMerge, sample_entry 5 kTypeValue] []"
    using table_add [OF m1, of 6 kTypeMerge] by (auto simp: kMaxSequenceNumber_def value_type_defs)
  have "MemGet (sample_get [97] 7) m False 0 sample_saver = Some Undef"
    by (rule merge_operand_dangles [of "sample_get [97] 7", unfolded sample_get_simps,
        OF bytewise.comparator_axioms toy_openssl_ok _ m])
      (auto simp: sample_entry_def entry_less_def entry_cmp_def table_key_fits sample_opts_def bytewise.refl
        sample_get_simps sample_saver_def kMaxSequenceNumber_def)
  with m show ?thesis by blast
qed

text \<open>
  C26: allocating a node of the skip list for a key and inserting it refines the insertion into the
  sorted list of the keys, for every draw of the height and whatever the last insertion left in the
  splice; a key that compares equal to one of the list is refused.
\<close>

theorem skip_list_insert_refines:
  assumes "comparator cmp" and "list_state cmp s ks" and "AllocateKey key draws s = (x, s1)"
  shows "\<exists>s2. ListInsert cmp x s1 = Some (Ok (\<not> holds_key cmp key ks, s2)) \<and>
    list_state cmp s2 (insert_key cmp key ks)"
  by (rule list_order.insert_refines [OF list_order.intro [OF assms(1)] assms(2,3)])

theorem skip_list_insert_refines_witness:
  "\<exists>s2. ListInsert BytewiseCompare
      (fst (AllocateKey [2] (\<lambda>_. 0) (MakeInlineSkipList 12 4 (\<lambda>_. 0, \<lambda>_. None))))
      (snd (AllocateKey [2] (\<lambda>_. 0) (MakeInlineSkipList 12 4 (\<lambda>_. 0, \<lambda>_. None)))) = Some (Ok (True, s2)) \<and>
    list_state BytewiseCompare s2 [[2]]"
proof -
  have "list_state BytewiseCompare (MakeInlineSkipList 12 4 (\<lambda>_. 0, \<lambda>_. None)) []"
    using MakeInlineSkipList_ok [of 12 BytewiseCompare 4 "(\<lambda>_. 0, \<lambda>_. None)"]
    by (auto simp: list_state_def list_keys_def intro!: exI [of _ "[]"])
  from skip_list_insert_refines [OF bytewise.comparator_axioms this prod.collapse [symmetric], of "[2]" "\<lambda>_. 0"]
  show ?thesis by (simp add: holds_key_def insert_key_def keys_before_def keys_from_def)
qed

text \<open>
  C27: whatever the sequence of requests to the arena of a MemTable, aligned or not, from which
  cores, the regions it has handed out are disjoint, and each lies in a block that \<open>malloc\<close> gave it.
\<close>

theorem arena_regions_disjoint:
  assumes "malloc_ok [] malloc"
    and "arena_reach (UntrustedFallback malloc)
      (MakeConcurrentArena cores n (MakeUntrusted_Arena n)) c given"
  shows "apart given \<and> (\<forall>r\<in>set given. in_block (ar_blocks (ca_arena c)) r)"
proof -
  have "arena_inv [] c given"
    by (rule arena_reach_inv [OF assms(2) UntrustedFallback_ok [OF assms(1)] MakeConcurrentArena_inv(1)])
  then show ?thesis by (auto simp: arena_inv_def apart_append)
qed

theorem arena_regions_disjoint_witness:
  "\<exists>c p q. arena_reach (UntrustedFallback bump_malloc)
      (MakeConcurrentArena 1 kMinBlockSize (MakeUntrusted_Arena kMinBlockSize)) c [(q, 24), (p, 16)] \<and>
    apart [(q, 24), (p, 16)]"
proof -
  let ?f = "UntrustedFallback bump_malloc"
  define c0 where "c0 = MakeConcurrentArena 1 kMinBlockSize (MakeUntrusted_Arena kMinBlockSize)"
  have ok: "u_arena_ok c0 []" unfolding c0_def by (rule u_arena_start)
  have c0: "length (ca_shards c0) = 1" "ar_blocks (ca_arena c0) = []"
    by (simp_all add: c0_def MakeConcurrentArena_def MakeUntrusted_Arena_def)
  have n: "unat (RoundUp 24) = 24" "unat (RoundUp 16) = 16" by (simp_all add: RoundUp_eq)
  have b: "block_below bump_malloc c0" by (simp add: block_below_def c0 bump_malloc_def kMinBlockSize_def)
  obtain p c1 where 1: "ConcurrentAllocateAligned ?f 16 True 0 c0 = Ok (p, c1)"
    "u_arena_ok c1 [(p, 16)]" "arena_after bump_malloc c0 c1"
    using u_arena_allocate [OF bump_malloc_ok ok _ b, of 0 16 True] n c0 by (auto simp: kMinBlockSize_def)
  have l: "length (ca_shards c1) = 1" and b1: "block_below bump_malloc c1"
    using 1(3) c0 by (auto simp: arena_after_def block_below_def bump_malloc_def kMinBlockSize_def)
  obtain q c2 where 2: "ConcurrentAllocateAligned ?f 24 True 0 c1 = Ok (q, c2)"
    using u_arena_allocate [OF bump_malloc_ok 1(2) _ b1, of 0 24 True] n l by (auto simp: kMinBlockSize_def)
  have "arena_reach ?f c0 c0 []" by (rule arena_reach.start)
  then have "arena_reach ?f c0 c1 [(p, unat (RoundUp 16))]"
    by (rule arena_reach.aligned [OF _ _ 1(1)]) (simp add: c0)
  then have "arena_reach ?f c0 c2 [(q, unat (RoundUp 24)), (p, unat (RoundUp 16))]"
    by (rule arena_reach.aligned [OF _ _ 2]) (simp add: l)
  then have r: "arena_reach ?f c0 c2 [(q, 24), (p, 16)]" by (simp add: n)
  with arena_regions_disjoint [OF bump_malloc_ok r [unfolded c0_def]] show ?thesis
    unfolding c0_def by blast
qed

text \<open>
  C30: a seek of the iterator that looks ahead finds the node that a seek from the head of the list
  finds, for every node it remembers, every prefix extractor and every number of steps.
\<close>

theorem lookahead_seek:
  assumes "comparator cmp" and "skip_list cmp s xs"
    and "\<And>p. li_prev it = Some p \<Longrightarrow> p \<in> set xs"
  shows "\<exists>it'. LookSeek cmp s transform lookahead key it = Some (Ok it') \<and>
    IterSeek cmp s key = Some (Ok (li_iter it')) \<and> (\<forall>p. li_prev it' = Some p \<longrightarrow> p \<in> set xs)"
  by (rule LookSeek_eq [OF list_order.intro [OF assms(1)] assms(2,3)])

theorem lookahead_seek_witness:
  "\<exists>it'. LookSeek BytewiseCompare (MakeInlineSkipList 12 4 (\<lambda>_. 0, \<lambda>_. None)) None 2 [1]
      \<lparr>li_iter = None, li_prev = None\<rparr> = Some (Ok it') \<and>
    IterSeek BytewiseCompare (MakeInlineSkipList 12 4 (\<lambda>_. 0, \<lambda>_. None)) [1] = Some (Ok (li_iter it'))"
  using lookahead_seek [OF bytewise.comparator_axioms MakeInlineSkipList_ok(1),
      of 12 "\<lparr>li_iter = None, li_prev = None\<rparr>" 4 "(\<lambda>_. 0, \<lambda>_. None)" None 2 "[1]"] by auto







end
